(* ===== verification/Sumi_Prelude.thy ===== *)
theory Sumi_Prelude
  imports Complex_Main "HOL-Library.Char_ord" "HOL-Library.List_Lexorder"
begin

text \<open>
  Shared vocabulary of the development: results with errors (\<open>rbind\<close>, \<open>guard\<close>), database
  tables as lists of rows with the three SQL shapes the store uses (select one row, update the
  rows a predicate holds of, append a row), primary keys as \<open>keyed\<close>, the
  \<^verbatim>\<open>COALESCE(MAX(seq), 0)\<close> numbering of append-only tables, JSON values with jsonb's
  equality, Go's wrapping 64 bit integers, and a few string helpers. Every component theory
  imports it; its lemma collections carry the component proofs.
\<close>

named_theorems tbl_simps \<open>rewriting of table selections and updates\<close>
named_theorems res_simps \<open>success and failure of sequenced results\<close>

section \<open>Results\<close>

text \<open>A Go function that returns \<^verbatim>\<open>(T, error)\<close>: \<open>Inl\<close> the error, \<open>Inr\<close> the value.\<close>

definition rbind :: "'e + 'a \<Rightarrow> ('a \<Rightarrow> 'e + 'b) \<Rightarrow> 'e + 'b" where
  "rbind m f = (case m of Inl e \<Rightarrow> Inl e | Inr x \<Rightarrow> f x)"

definition guard :: "bool \<Rightarrow> 'e \<Rightarrow> 'e + unit" where
  "guard b e = (if b then Inr () else Inl e)"

text \<open>\<^verbatim>\<open>QueryRow(..).Scan(..)\<close> with a sentinel for \<^verbatim>\<open>pgx.ErrNoRows\<close>.\<close>

definition require :: "'a option \<Rightarrow> 'e \<Rightarrow> 'e + 'a" where
  "require m e = (case m of None \<Rightarrow> Inl e | Some x \<Rightarrow> Inr x)"

lemma rbind_Inr [simp]: "rbind (Inr x) f = f x"
  by (simp add: rbind_def)

lemma rbind_Inl [simp]: "rbind (Inl e) f = Inl e"
  by (simp add: rbind_def)

lemma rbind_eq_Inr [res_simps]: "rbind m f = Inr y \<longleftrightarrow> (\<exists>x. m = Inr x \<and> f x = Inr y)"
  by (cases m) simp_all

lemma rbind_cong:
  "m = m' \<Longrightarrow> (\<And>x. m' = Inr x \<Longrightarrow> f x = g x) \<Longrightarrow> rbind m f = rbind m' g"
  by (cases m') simp_all

lemma rbind_eq_Inl: "rbind m f = Inl e \<longleftrightarrow> m = Inl e \<or> (\<exists>x. m = Inr x \<and> f x = Inl e)"
  by (cases m) auto

lemma guard_eq_Inr [res_simps]: "guard b e = Inr u \<longleftrightarrow> b"
  by (simp add: guard_def)

lemma guard_eq_Inl: "guard b e = Inl e' \<longleftrightarrow> \<not> b \<and> e' = e"
  by (auto simp: guard_def)

lemma guard_simps [simp]: "guard True e = Inr ()" "guard False e = Inl e"
  by (simp_all add: guard_def)

lemma require_eq_Inr [res_simps]: "require m e = Inr x \<longleftrightarrow> m = Some x"
  by (simp add: require_def split: option.splits)

lemma require_eq_Inl: "require m e = Inl e' \<longleftrightarrow> m = None \<and> e' = e"
  by (auto simp: require_def split: option.splits)

lemma require_simps [simp]: "require None e = Inl e" "require (Some x) e = Inr x"
  by (simp_all add: require_def)

text \<open>
  A transaction: the function runs on a copy of the database, a success commits what it
  returns, an error rolls back (\<^verbatim>\<open>defer tx.Rollback\<close>).
\<close>

definition run_tx :: "('s \<Rightarrow> 'e + ('s \<times> 'a)) \<Rightarrow> 's \<Rightarrow> 's \<times> ('e + 'a)" where
  "run_tx f s = (case f s of Inl e \<Rightarrow> (s, Inl e) | Inr (s', a) \<Rightarrow> (s', Inr a))"

lemma run_tx_Inl: "f s = Inl e \<Longrightarrow> run_tx f s = (s, Inl e)"
  by (simp add: run_tx_def)

lemma run_tx_Inr: "f s = Inr (s', a) \<Longrightarrow> run_tx f s = (s', Inr a)"
  by (simp add: run_tx_def)

lemma run_tx_cases:
  assumes "run_tx f s = (s', r)"
  obtains (rolled_back) e where "f s = Inl e" "s' = s" "r = Inl e"
    | (committed) a where "f s = Inr (s', a)" "r = Inr a"
  using assms by (auto simp: run_tx_def split: sum.splits prod.splits)

section \<open>Tables\<close>

text \<open>\<^verbatim>\<open>UPDATE t SET .. WHERE P\<close>: every row of the predicate is rewritten in place.\<close>

definition upd :: "('r \<Rightarrow> bool) \<Rightarrow> ('r \<Rightarrow> 'r) \<Rightarrow> 'r list \<Rightarrow> 'r list" where
  "upd P f rs = map (\<lambda>r. if P r then f r else r) rs"

lemma upd_Nil [simp]: "upd P f [] = []"
  by (simp add: upd_def)

lemma upd_Cons [simp]: "upd P f (r # rs) = (if P r then f r else r) # upd P f rs"
  by (simp add: upd_def)

lemma upd_append [simp]: "upd P f (rs @ ss) = upd P f rs @ upd P f ss"
  by (simp add: upd_def)

lemma length_upd [simp]: "length (upd P f rs) = length rs"
  by (simp add: upd_def)

lemma set_upd: "set (upd P f rs) = (\<lambda>r. if P r then f r else r) ` set rs"
  by (simp add: upd_def)

lemma in_upd_cases:
  assumes "r' \<in> set (upd P f rs)"
  obtains (kept) "r' \<in> set rs" "\<not> P r'" | (changed) r where "r \<in> set rs" "P r" "r' = f r"
  using assms by (fastforce simp: set_upd split: if_splits)

lemma upd_id: "(\<And>r. r \<in> set rs \<Longrightarrow> \<not> P r) \<Longrightarrow> upd P f rs = rs"
  by (induction rs) auto

lemma map_upd_key: "(\<And>r. k (f r) = k r) \<Longrightarrow> map k (upd P f rs) = map k rs"
  by (induction rs) simp_all

lemma filter_upd_outside:
  "(\<And>r. P r \<Longrightarrow> \<not> Q r) \<Longrightarrow> (\<And>r. P r \<Longrightarrow> \<not> Q (f r)) \<Longrightarrow> filter Q (upd P f rs) = filter Q rs"
  by (induction rs) auto

text \<open>\<^verbatim>\<open>SELECT .. WHERE P\<close> answered by at most one row is \<^const>\<open>find\<close>.\<close>

lemma find_SomeD: "find P xs = Some x \<Longrightarrow> x \<in> set xs \<and> P x"
  by (induction xs) (auto split: if_splits)

lemma find_append: "find P (xs @ ys) = (case find P xs of None \<Rightarrow> find P ys | Some x \<Rightarrow> Some x)"
  by (induction xs) auto

lemma find_upd:
  "(\<And>r. Q (f r) = Q r) \<Longrightarrow> find Q (upd P f rs) = map_option (\<lambda>r. if P r then f r else r) (find Q rs)"
  by (induction rs) auto

lemma find_upd_other:
  "(\<And>r. P r \<Longrightarrow> \<not> Q r \<and> \<not> Q (f r)) \<Longrightarrow> find Q (upd P f rs) = find Q rs"
  by (induction rs) auto

lemma find_cong_set: "(\<And>r. r \<in> set rs \<Longrightarrow> P r = Q r) \<Longrightarrow> find P rs = find Q rs"
  by (induction rs) auto

text \<open>A primary key or unique index on the columns \<open>k\<close>.\<close>

definition keyed :: "('r \<Rightarrow> 'k) \<Rightarrow> 'r list \<Rightarrow> bool" where
  "keyed k rs \<longleftrightarrow> distinct (map k rs)"

lemma keyed_Nil [simp]: "keyed k []"
  by (simp add: keyed_def)

lemma keyed_upd: "(\<And>r. k (f r) = k r) \<Longrightarrow> keyed k (upd P f rs) = keyed k rs"
  by (simp add: keyed_def map_upd_key)

lemma keyed_snoc: "keyed k (rs @ [r]) \<longleftrightarrow> keyed k rs \<and> k r \<notin> k ` set rs"
  by (simp add: keyed_def)

lemma keyed_inj: "keyed k rs \<Longrightarrow> r \<in> set rs \<Longrightarrow> s \<in> set rs \<Longrightarrow> k r = k s \<Longrightarrow> r = s"
  unfolding keyed_def distinct_map by (meson inj_onD)

lemma keyed_filter: "keyed k rs \<Longrightarrow> keyed k (filter P rs)"
  by (simp add: keyed_def distinct_map_filter)

lemma keyed_find:
  assumes "keyed k rs" "r \<in> set rs" "P r" "\<And>s. P s \<Longrightarrow> k s = k r"
  shows "find P rs = Some r"
proof -
  have "find P rs \<noteq> None" using assms(2,3) by (auto simp: find_None_iff)
  then obtain s where s: "find P rs = Some s" by auto
  then have "s \<in> set rs" "P s" by (auto dest: find_SomeD)
  with assms have "s = r" by (metis keyed_inj)
  with s show ?thesis by simp
qed

lemma find_None_notin: "find P rs = None \<Longrightarrow> r \<in> set rs \<Longrightarrow> \<not> P r"
  by (auto simp: find_None_iff)

lemmas tbl_core = set_upd upd_id keyed_upd keyed_snoc find_append

declare tbl_core [tbl_simps]

text \<open>\<^verbatim>\<open>COALESCE(MAX(seq), 0)\<close> over the selected rows.\<close>

fun maxl :: "nat list \<Rightarrow> nat" where
  "maxl [] = 0"
| "maxl (x # xs) = max x (maxl xs)"

lemma maxl_ge: "x \<in> set xs \<Longrightarrow> x \<le> maxl xs"
  by (induction xs) auto

lemma maxl_append [simp]: "maxl (xs @ ys) = max (maxl xs) (maxl ys)"
  by (induction xs) auto

lemma maxl_upto: "maxl [Suc 0..<Suc n] = n"
  by (induction n) auto

lemma map_Suc_upt_snoc: "[1..<Suc n] @ [Suc n] = [1..<Suc (Suc n)]"
  by simp

section \<open>Interfaces\<close>

text \<open>
  What the components promise along histories of steps: an \<open>evolution\<close> is a step relation with a
  preorder every step respects, a \<open>guarded_evolution\<close> one with an invariant, \<open>fencing\<close> a token
  that only grows and the admission of those who hold it.
\<close>

locale evolution =
  fixes step :: "'s \<Rightarrow> 's \<Rightarrow> bool" and R :: "'s \<Rightarrow> 's \<Rightarrow> bool"
  assumes R_refl: "R s s"
    and R_trans: "R s t \<Longrightarrow> R t u \<Longrightarrow> R s u"
    and step_R: "step s t \<Longrightarrow> R s t"
begin

lemma reach_R: "rtranclp step s t \<Longrightarrow> R s t"
  by (induction rule: rtranclp_induct) (auto intro: R_refl R_trans step_R)

end

locale guarded_evolution =
  fixes step :: "'s \<Rightarrow> 's \<Rightarrow> bool" and I :: "'s \<Rightarrow> bool"
  assumes step_I: "step s t \<Longrightarrow> I s \<Longrightarrow> I t"
begin

lemma reach_I: "rtranclp step s t \<Longrightarrow> I s \<Longrightarrow> I t"
  by (induction rule: rtranclp_induct) (auto intro: step_I)

end

sublocale guarded_evolution \<subseteq> evolution step "\<lambda>s t. I s \<longrightarrow> I t"
  by unfold_locales (auto intro: step_I)

locale fencing =
  fixes step :: "'s \<Rightarrow> 's \<Rightarrow> bool" and token :: "'s \<Rightarrow> int" and admits :: "'s \<Rightarrow> int \<Rightarrow> bool"
  assumes token_mono: "step s t \<Longrightarrow> token s \<le> token t"
    and admits_token: "admits s g \<Longrightarrow> g = token s"
begin

lemma fenced: "rtranclp step s t \<Longrightarrow> g < token s \<Longrightarrow> \<not> admits t g"
proof -
  assume "rtranclp step s t" and g: "g < token s"
  then have "token s \<le> token t" by (induction rule: rtranclp_induct) (auto dest: token_mono)
  with g show "\<not> admits t g" using admits_token by fastforce
qed

end

sublocale fencing \<subseteq> evolution step "\<lambda>s t. token s \<le> token t"
  by unfold_locales (auto intro: token_mono)

text \<open>
  A table that only grows: its rows evolve in place by a row relation, and rows are added at the end.
  \<open>row_evolution\<close> is the contract of the row relation: a preorder, under which the property of the
  added rows is stable.
\<close>

definition grows :: "('r \<Rightarrow> 'r \<Rightarrow> bool) \<Rightarrow> ('r \<Rightarrow> bool) \<Rightarrow> 'r list \<Rightarrow> 'r list \<Rightarrow> bool" where
  "grows R N xs ys \<longleftrightarrow> length xs \<le> length ys \<and> list_all2 R xs (take (length xs) ys) \<and> list_all N (drop (length xs) ys)"

lemma grows_alt: "grows R N xs ys \<longleftrightarrow> (\<exists>bs cs. ys = bs @ cs \<and> list_all2 R xs bs \<and> list_all N cs)"
proof
  assume "grows R N xs ys"
  then show "\<exists>bs cs. ys = bs @ cs \<and> list_all2 R xs bs \<and> list_all N cs"
    unfolding grows_def by (intro exI [of _ "take (length xs) ys"] exI [of _ "drop (length xs) ys"]) simp
next
  assume "\<exists>bs cs. ys = bs @ cs \<and> list_all2 R xs bs \<and> list_all N cs"
  then obtain bs cs where "ys = bs @ cs" "list_all2 R xs bs" "list_all N cs" by blast
  then show "grows R N xs ys" using list_all2_lengthD [of R xs bs] by (simp add: grows_def)
qed

lemma list_all2_old: "list_all2 R xs ys \<Longrightarrow> x \<in> set xs \<Longrightarrow> \<exists>y \<in> set ys. R x y"
  by (induction rule: list_all2_induct) auto

lemma list_all2_new: "list_all2 R xs ys \<Longrightarrow> y \<in> set ys \<Longrightarrow> \<exists>x \<in> set xs. R x y"
  by (induction rule: list_all2_induct) auto

lemma grows_old: "grows R N xs ys \<Longrightarrow> x \<in> set xs \<Longrightarrow> \<exists>y \<in> set ys. R x y"
  unfolding grows_alt by (metis UnI1 list_all2_old set_append)

lemma grows_new: "grows R N xs ys \<Longrightarrow> y \<in> set ys \<Longrightarrow> N y \<or> (\<exists>x \<in> set xs. R x y)"
  unfolding grows_alt list_all_iff by (metis Un_iff list_all2_new set_append)

locale row_evolution =
  fixes R :: "'r \<Rightarrow> 'r \<Rightarrow> bool" and N :: "'r \<Rightarrow> bool"
  assumes R_refl: "R r r" and R_trans: "R r s \<Longrightarrow> R s t \<Longrightarrow> R r t" and N_stable: "N r \<Longrightarrow> R r s \<Longrightarrow> N s"
begin

lemma grows_refl: "grows R N xs xs"
  unfolding grows_alt by (intro exI [of _ xs] exI [of _ "[]"]) (simp add: list_all2_refl R_refl)

lemma grows_trans:
  assumes "grows R N xs ys" "grows R N ys zs"
  shows "grows R N xs zs"
proof -
  from assms(1) obtain b1 b2 where b: "ys = b1 @ b2" "list_all2 R xs b1" "list_all N b2" unfolding grows_alt by blast
  from assms(2) b(1) obtain c1 c2 cs where c: "zs = (c1 @ c2) @ cs" "list_all2 R b1 c1" "list_all2 R b2 c2" "list_all N cs"
    unfolding grows_alt by (auto simp: list_all2_append1)
  have "list_all2 R xs c1" using list_all2_trans [OF R_trans b(2) c(2)] .
  moreover have "N y" if y: "y \<in> set c2" for y
  proof -
    from y c(3) obtain x where "x \<in> set b2" "R x y" using list_all2_new [of R b2 c2 y] by blast
    with b(3) N_stable show ?thesis by (auto simp: list_all_iff)
  qed
  then have "list_all N (c2 @ cs)" using c(4) by (auto simp: list_all_iff)
  ultimately show ?thesis using c(1) unfolding grows_alt by (metis append.assoc)
qed

lemma grows_upd: "(\<And>r. r \<in> set xs \<Longrightarrow> P r \<Longrightarrow> R r (f r)) \<Longrightarrow> grows R N xs (upd P f xs)"
  unfolding grows_alt
  by (intro exI [of _ "upd P f xs"] exI [of _ "[]"])
     (auto simp: upd_def list_all2_map2 list_all2_same R_refl)

lemma grows_snoc: "N r \<Longrightarrow> grows R N xs (xs @ [r])"
  unfolding grows_alt by (intro exI [of _ xs] exI [of _ "[r]"]) (simp add: list_all2_refl R_refl)

end

end
