(* ===== verification/Go_Values.thy ===== *)
theory Go_Values
  imports Sumi_Prelude
begin

text \<open>
  Values of the Go program that the store handles: JSON documents (\<^verbatim>\<open>map[string]any\<close>,
  \<^verbatim>\<open>jsonb\<close>), the NUL test that guards jsonb columns (\<open>hasNUL\<close>), jsonb's key-order
  independent equality (\<open>jsonbEqual\<close>), Go's wrapping \<^verbatim>\<open>int64\<close>, decimal printing and
  parsing of small numbers, and the string functions the keys of the ledger are built with.
\<close>

section \<open>JSON\<close>

text \<open>
  An object is an association list; a Go map holds each key once and has no order, which
  \<open>jnorm\<close> makes canonical. Numbers are the \<^verbatim>\<open>float64\<close> values of decoded JSON, which are
  finite, so rational.
\<close>

datatype json =
    JNull
  | JBool bool
  | JNum rat
  | JStr string
  | JArr "json list"
  | JObj "(string \<times> json) list"

type_synonym jobj = "(string \<times> json) list"

abbreviation NUL :: char where
  "NUL \<equiv> CHR 0x00"

text \<open>\<^verbatim>\<open>hasNUL\<close> looks at string values, never at the keys of an object.\<close>

fun hasNUL :: "json \<Rightarrow> bool" where
  "hasNUL (JStr s) = (NUL \<in> set s)"
| "hasNUL (JObj kvs) = list_ex (\<lambda>kv. hasNUL (snd kv)) kvs"
| "hasNUL (JArr xs) = list_ex hasNUL xs"
| "hasNUL _ = False"

text \<open>What a jsonb column accepts: no NUL in any string, keys included (SQLSTATE 22P05).\<close>

fun storable :: "json \<Rightarrow> bool" where
  "storable (JStr s) = (NUL \<notin> set s)"
| "storable (JObj kvs) = list_all (\<lambda>kv. NUL \<notin> set (fst kv) \<and> storable (snd kv)) kvs"
| "storable (JArr xs) = list_all storable xs"
| "storable _ = True"

lemma storable_no_NUL: "storable j \<Longrightarrow> \<not> hasNUL j"
  by (induction j rule: hasNUL.induct) (auto simp: list_all_iff list_ex_iff)

text \<open>Canonical form: keys sorted at every level.\<close>

fun jnorm :: "json \<Rightarrow> json" where
  "jnorm (JObj kvs) = JObj (sort_key fst (map (\<lambda>kv. (fst kv, jnorm (snd kv))) kvs))"
| "jnorm (JArr xs) = JArr (map jnorm xs)"
| "jnorm j = j"

text \<open>jsonb's \<^verbatim>\<open>=\<close> and \<^verbatim>\<open>IS NOT DISTINCT FROM\<close>, on documents whose keys are unique.\<close>

definition jsonb_eq :: "json \<Rightarrow> json \<Rightarrow> bool" where
  "jsonb_eq a b \<longleftrightarrow> jnorm a = jnorm b"

text \<open>\<^verbatim>\<open>jsonbEqual\<close> of two Go maps: nil equals only nil (\<open>None\<close> is the nil map).\<close>

definition jsonbEqual :: "jobj option \<Rightarrow> jobj option \<Rightarrow> bool" where
  "jsonbEqual a b =
     (case (a, b) of
        (Some x, Some y) \<Rightarrow> jsonb_eq (JObj x) (JObj y)
      | (None, None) \<Rightarrow> True
      | _ \<Rightarrow> False)"

lemma jsonb_eq_refl [simp]: "jsonb_eq a a"
  by (simp add: jsonb_eq_def)

lemma jsonb_eq_sym: "jsonb_eq a b \<Longrightarrow> jsonb_eq b a"
  by (simp add: jsonb_eq_def)

lemma jsonb_eq_trans: "jsonb_eq a b \<Longrightarrow> jsonb_eq b c \<Longrightarrow> jsonb_eq a c"
  by (simp add: jsonb_eq_def)

lemma jsonbEqual_refl [simp]: "jsonbEqual a a"
  by (cases a) (simp_all add: jsonbEqual_def)

lemma jsonbEqual_Some [simp]: "jsonbEqual (Some a) (Some b) \<longleftrightarrow> jsonb_eq (JObj a) (JObj b)"
  by (simp add: jsonbEqual_def)

lemma jsonbEqual_sym: "jsonbEqual a b \<Longrightarrow> jsonbEqual b a"
  by (auto simp: jsonbEqual_def jsonb_eq_def split: option.splits)

lemma jsonbEqual_trans: "jsonbEqual a b \<Longrightarrow> jsonbEqual b c \<Longrightarrow> jsonbEqual a c"
  by (auto simp: jsonbEqual_def jsonb_eq_def split: option.splits)

lemma storable_jnorm: "storable (jnorm j) = storable j"
  by (induction j rule: jnorm.induct) (auto simp: list_all_iff)

text \<open>Reading a field with a type assertion (\<^verbatim>\<open>v, _ := m[k].(T)\<close> gives the zero value).\<close>

definition str_field :: "jobj \<Rightarrow> string \<Rightarrow> string" where
  "str_field m k = (case map_of m k of Some (JStr s) \<Rightarrow> s | _ \<Rightarrow> [])"

definition obj_field :: "jobj \<Rightarrow> string \<Rightarrow> jobj option" where
  "obj_field m k = (case map_of m k of Some (JObj o') \<Rightarrow> Some o' | _ \<Rightarrow> None)"

text \<open>A JSON number: an integer of the program.\<close>

definition jnat :: "nat \<Rightarrow> json" where
  "jnat n = JNum (of_nat n)"

definition jint :: "int \<Rightarrow> json" where
  "jint n = JNum (of_int n)"

section \<open>Wrapping 64 bit integers\<close>

text \<open>Two's complement reduction: the value an \<^verbatim>\<open>int64\<close> expression has after overflow.\<close>

definition i64 :: "int \<Rightarrow> int" where
  "i64 x = (x + 2 ^ 63) mod 2 ^ 64 - 2 ^ 63"

definition MaxInt64 :: int where
  "MaxInt64 = 2 ^ 63 - 1"

definition in_i64 :: "int \<Rightarrow> bool" where
  "in_i64 x \<longleftrightarrow> - (2 ^ 63) \<le> x \<and> x \<le> MaxInt64"

lemma i64_id: "in_i64 x \<Longrightarrow> i64 x = x"
  by (simp add: i64_def in_i64_def MaxInt64_def)

lemma i64_range [simp]: "in_i64 (i64 x)"
proof -
  have "0 \<le> (x + 2 ^ 63) mod 2 ^ 64" "(x + 2 ^ 63) mod 2 ^ 64 < 2 ^ 64" by simp_all
  then show ?thesis by (simp add: i64_def in_i64_def MaxInt64_def)
qed

text \<open>Go's \<^verbatim>\<open>/\<close> truncates towards zero.\<close>

definition go_div :: "int \<Rightarrow> int \<Rightarrow> int" where
  "go_div a b = sgn a * sgn b * (\<bar>a\<bar> div \<bar>b\<bar>)"

lemma go_div_nonneg: "0 \<le> a \<Longrightarrow> 0 < b \<Longrightarrow> go_div a b = a div b"
  by (cases "a = 0") (simp_all add: go_div_def)

section \<open>Strings\<close>

text \<open>\<^verbatim>\<open>strings.HasPrefix\<close>.\<close>

fun has_prefix :: "string \<Rightarrow> string \<Rightarrow> bool" where
  "has_prefix s [] = True"
| "has_prefix [] (c # p) = False"
| "has_prefix (d # s) (c # p) = (d = c \<and> has_prefix s p)"

lemma has_prefix_append [simp]: "has_prefix (p @ s) p"
  by (induction p) auto

lemma has_prefixE: "has_prefix s p \<Longrightarrow> \<exists>t. s = p @ t"
  by (induction s p rule: has_prefix.induct) auto

text \<open>\<^verbatim>\<open>strings.ReplaceAll(s, "\x00", "")\<close>.\<close>

definition strip_NUL :: "string \<Rightarrow> string" where
  "strip_NUL s = filter (\<lambda>c. c \<noteq> NUL) s"

lemma strip_NUL_no_NUL [simp]: "NUL \<notin> set (strip_NUL s)"
  by (simp add: strip_NUL_def)

lemma strip_NUL_idem [simp]: "strip_NUL (strip_NUL s) = strip_NUL s"
  by (simp add: strip_NUL_def)

text \<open>\<^verbatim>\<open>strconv.Itoa\<close> on the non-negative numbers the keys use, and its inverse.\<close>

definition digit :: "nat \<Rightarrow> char" where
  "digit d = char_of (48 + d)"

fun itoa :: "nat \<Rightarrow> string" where
  "itoa n = (if n < 10 then [digit n] else itoa (n div 10) @ [digit (n mod 10)])"

declare itoa.simps [simp del]

definition undigit :: "char \<Rightarrow> nat option" where
  "undigit c = (if 48 \<le> (of_char c :: nat) \<and> (of_char c :: nat) \<le> 57 then Some (of_char c - 48) else None)"

fun atoi_acc :: "nat \<Rightarrow> string \<Rightarrow> nat option" where
  "atoi_acc acc [] = Some acc"
| "atoi_acc acc (c # cs) = (case undigit c of None \<Rightarrow> None | Some d \<Rightarrow> atoi_acc (10 * acc + d) cs)"

lemma undigit_digit [simp]: "d < 10 \<Longrightarrow> undigit (digit d) = Some d"
  by (simp add: undigit_def digit_def)

lemma atoi_acc_snoc:
  "atoi_acc acc (cs @ [c]) =
     (case atoi_acc acc cs of None \<Rightarrow> None | Some a \<Rightarrow> map_option (\<lambda>d. 10 * a + d) (undigit c))"
  by (induction cs arbitrary: acc) (auto split: option.splits)

lemma atoi_itoa: "atoi_acc 0 (itoa n) = Some n"
proof (induction n rule: itoa.induct)
  case (1 n)
  show ?case
  proof (cases "n < 10")
    case True
    then show ?thesis by (subst itoa.simps) simp
  next
    case False
    with 1 have "atoi_acc 0 (itoa (n div 10)) = Some (n div 10)" by simp
    with False show ?thesis by (subst itoa.simps) (simp add: atoi_acc_snoc)
  qed
qed

lemma itoa_inj: "itoa m = itoa n \<Longrightarrow> m = n"
  by (metis atoi_itoa option.inject)

lemma itoa_nonempty [simp]: "itoa n \<noteq> []"
  by (subst itoa.simps) simp

lemma digit_not_colon: "d < 10 \<Longrightarrow> digit d \<noteq> CHR '':''"
proof
  assume "d < 10" "digit d = CHR '':''"
  then have "undigit (CHR '':'') = Some d" by (metis undigit_digit)
  then show False by (simp add: undigit_def)
qed

lemma itoa_no_colon: "CHR '':'' \<notin> set (itoa n)"
proof (induction n rule: itoa.induct)
  case (1 n)
  have "digit (n mod 10) \<noteq> CHR '':''" "n < 10 \<Longrightarrow> digit n \<noteq> CHR '':''"
    by (simp_all add: digit_not_colon)
  with 1 show ?case by (subst itoa.simps) (simp, metis)
qed

declare itoa.simps [simp del]

end
