(* ===== verification/Core_State.thy ===== *)
theory Core_State
  imports Go_Values
begin

text \<open>
  The canonical state of the secretary core (\<^verbatim>\<open>internal/agentstate/store.go\<close>, with the
  records of \<^verbatim>\<open>approvals.go\<close> and \<^verbatim>\<open>usage.go\<close>): one record per table row, the enumerations
  the tables' CHECK constraints list, the sentinel errors, and the database as the record of its
  tables. Rows carry their persona, so every statement's \<^verbatim>\<open>WHERE persona_id = $1\<close> is written
  out. Times are microseconds since the epoch.
\<close>

type_synonym timestamp = int

section \<open>Errors\<close>

text \<open>
  The package's sentinels. \<open>ErrBadRequest\<close>, \<open>ErrUnknownTool\<close> keep their text, which a rejected
  claim journals. \<open>ErrData\<close> is a PostgreSQL data error as the driver reports it (SQLSTATE class 22
  or 23514), before \<^verbatim>\<open>dataErr\<close> maps it to \<open>ErrBadRequest\<close>; \<open>ErrStorage\<close> is any other database
  error (a duplicate key, a missing row where one is required, a foreign key). \<open>ErrPersonaInactive\<close> carries whether
  \<^verbatim>\<open>ErrPersonaTransferred\<close> is wrapped with it. \<open>ErrPanic\<close> is a run-time panic, which unwinds through
  the deferred rollback.
\<close>

datatype err =
    ErrPersonaNotFound
  | ErrWriterHeld
  | ErrGenerationFence
  | ErrInputNotFound
  | ErrTurnNotFound
  | ErrTurnConflict
  | ErrOpNotFound
  | ErrUnknownTool string
  | ErrBadRequest string
  | ErrPersonaInactive bool
  | ErrPersonaBound
  | ErrApprovalNotFound
  | ErrApprovalConflict
  | ErrApprovalDecidedBy
  | ErrApprovalForbidden
  | ErrUsageFactConflict
  | ErrFundingNotFound
  | ErrFundingForbidden
  | ErrJobNotFound
  | ErrJobConflict
  | ErrJobNotClaimed
  | ErrTerminalNotFound
  | ErrTerminalNotClaimed
  | ErrTerminalNotLive
  | ErrTerminalEnded
  | ErrTerminalControl
  | ErrTerminalCapacity
  | ErrTerminalBackend string
  | ErrTerminalLaunchFenced
  | ErrMemoryConflict string
  | ErrChunkNotFound
  | ErrPanic string
  | ErrData string
  | ErrStorage string

definition dataErr :: "err \<Rightarrow> err" where
  "dataErr e = (case e of ErrData m \<Rightarrow> ErrBadRequest m | _ \<Rightarrow> e)"

definition with_dataErr :: "err + 'a \<Rightarrow> err + 'a" where
  "with_dataErr m = (case m of Inl e \<Rightarrow> Inl (dataErr e) | Inr x \<Rightarrow> Inr x)"

lemma with_dataErr_eq_Inr [res_simps]: "with_dataErr m = Inr x \<longleftrightarrow> m = Inr x"
  by (simp add: with_dataErr_def split: sum.splits)

lemma with_dataErr_simps [simp]: "with_dataErr (Inr x) = Inr x" "with_dataErr (Inl e) = Inl (dataErr e)"
  by (simp_all add: with_dataErr_def)

text \<open>A jsonb column refuses a document with a NUL.\<close>

definition jsonb_param :: "json \<Rightarrow> err + unit" where
  "jsonb_param j = guard (storable j) (ErrData ''unsupported Unicode escape sequence'')"

lemma jsonb_param_eq_Inr [res_simps]: "jsonb_param j = Inr u \<longleftrightarrow> storable j"
  by (simp add: jsonb_param_def guard_eq_Inr)

lemma jsonb_param_simps [simp]: "storable j \<Longrightarrow> jsonb_param j = Inr ()"
  by (simp add: jsonb_param_def)

section \<open>Enumerations\<close>

datatype authority = Active | Sealed | Staged | Transferred

datatype input_status = IQueued | IClaimed | IWaiting | IDone

datatype turn_status = TRunning | TAwaiting | TDone | TInterrupted | TFailed

datatype op_status = ORunning | OAwaitingApproval | ODone | OFailed

datatype sched_status = SPending | SClaimed | SFired | SCancelled | SExpired

datatype appr_status = APending | AApproved | ADenied

datatype fact_status = FReported | FUnknown | FNotSent | FUnrecorded

datatype res_status = RHeld | RSettled | RReleased

datatype job_status = JQueued | JRunning | JCancelRequested | JDone | JFailed | JCancelled | JLost

datatype term_status = TmRequested | TmClaimed | TmActive | TmEnding | TmEnded | TmInterrupted | TmLost

datatype tin_status = NIntended | NDequeued | NWritten | NInterrupted | NExpired | NFailed | NUnknown

datatype out_kind = OutData | OutGap

datatype chunk_status = CSealed | CPreparing | CPrepared | CApplied | CKept | CFailed | CSuperseded

datatype branch_status = BRunning | BPaused | BPrepared | BKept

section \<open>Rows\<close>

record persona_row =
  p_persona_id :: string
  p_human_id :: "string option"
  p_display_name :: string
  p_created_at :: timestamp
  p_authority :: authority
  p_transfer_id :: "string option"
  p_model_intent :: "json option"

record lease_row =
  l_persona_id :: string
  l_generation :: int
  l_holder_id :: string
  l_acquired_at :: timestamp
  l_expires_at :: timestamp

record input_row =
  i_persona_id :: string
  i_input_id :: string
  i_kind :: string
  i_payload :: jobj
  i_actor_kind :: string
  i_actor_id :: string
  i_source_surface :: string
  i_thread_id :: string
  i_occurred_at :: "timestamp option"
  i_attention :: string
  i_status :: input_status
  i_claimed_generation :: "int option"
  i_turn_id :: "string option"
  i_created_at :: timestamp
  i_done_at :: "timestamp option"
  i_not_before :: "timestamp option"
  i_received_seq :: "nat option"
  i_admission_seq :: nat
  i_waiting_since :: "timestamp option"
  i_waited_ms :: int

text \<open>One journal entry of a request, and the event row it becomes.\<close>

record event_input =
  ei_kind :: string
  ei_payload :: "jobj option"

record event_row =
  e_persona_id :: string
  e_seq :: nat
  e_turn_id :: string
  e_kind :: string
  e_payload :: jobj

record usage_estimate =
  est_input_tokens :: int
  est_output_bound :: "int option"

record funding_ref =
  f_kind :: string
  f_id :: string
  f_version :: string
  f_model :: string
  f_provider :: string

record commit_wait =
  cw_kind :: string
  cw_funding :: funding_ref
  cw_estimate :: "usage_estimate option"

record commit_request =
  cr_outcome :: string
  cr_events :: "event_input list option"
  cr_output :: "jobj option"
  cr_usage :: "jobj option"
  cr_error :: string
  cr_retryable :: bool
  cr_error_kind :: string
  cr_retry_after_ms :: int
  cr_wait :: "commit_wait option"

record turn_row =
  t_persona_id :: string
  t_turn_id :: string
  t_input_id :: string
  t_generation :: int
  t_attempt :: nat
  t_status :: turn_status
  t_started_at :: timestamp
  t_finished_at :: "timestamp option"
  t_output :: "jobj option"
  t_usage :: "jobj option"
  t_error :: "string option"
  t_commit_request :: "commit_request option"

record op_row =
  o_persona_id :: string
  o_operation_id :: string
  o_turn_id :: string
  o_tool :: string
  o_idempotency_key :: string
  o_request :: jobj
  o_status :: op_status
  o_response :: "jobj option"
  o_claimed_generation :: int
  o_created_at :: timestamp
  o_completed_at :: "timestamp option"

record sched_row =
  s_persona_id :: string
  s_schedule_id :: string
  s_wake_at :: timestamp
  s_payload :: jobj
  s_miss_policy :: string
  s_status :: sched_status
  s_claimed_generation :: "int option"
  s_created_at :: timestamp
  s_fired_at :: "timestamp option"

record outbox_row =
  ob_persona_id :: string
  ob_seq :: nat
  ob_kind :: string
  ob_payload :: jobj
  ob_delivered_at :: "timestamp option"

record plan_call =
  pc_call_id :: string
  pc_tool :: string
  pc_route :: string
  pc_request :: jobj

record decision =
  d_text :: string
  d_calls :: "plan_call list"
  d_usage :: jobj
  d_continuation :: "jobj option"

record plan_row =
  pl_persona_id :: string
  pl_input_id :: string
  pl_turn_id :: string
  pl_generation :: int
  pl_plan :: "decision list"
  pl_created_at :: timestamp

record approval_row =
  a_approval_id :: string
  a_persona_id :: string
  a_input_id :: string
  a_call_index :: nat
  a_operation_id :: string
  a_turn_id :: string
  a_tool :: string
  a_route :: string
  a_required_by :: string
  a_request :: jobj
  a_action_digest :: string
  a_status :: appr_status
  a_decision :: "string option"
  a_decision_id :: "string option"
  a_decided_by_kind :: "string option"
  a_decided_by_id :: "string option"
  a_provenance :: "string option"
  a_decided_at :: "timestamp option"
  a_consumed_at :: "timestamp option"
  a_created_at :: timestamp

record budget_row =
  b_funding_kind :: string
  b_funding_id :: string
  b_limit_minor :: int
  b_currency :: string
  b_rate_input :: int
  b_rate_output :: int
  b_rate_cached :: "int option"
  b_pricing_revision :: string

record fact_row =
  u_persona_id :: string
  u_fact_id :: string
  u_kind :: string
  u_phase :: string
  u_turn_id :: "string option"
  u_input_id :: "string option"
  u_round :: "int option"
  u_funding :: funding_ref
  u_status :: fact_status
  u_input_tokens :: "int option"
  u_output_tokens :: "int option"
  u_cached_tokens :: "int option"
  u_quantities :: jobj
  u_cost_minor :: "int option"
  u_currency :: "string option"
  u_cost_basis :: "string option"
  u_pricing_revision :: "string option"

record reservation_row =
  r_persona_id :: string
  r_fact_id :: string
  r_kind :: string
  r_phase :: string
  r_turn_id :: "string option"
  r_input_id :: "string option"
  r_round :: "int option"
  r_funding :: funding_ref
  r_reserved_minor :: int
  r_currency :: "string option"
  r_bounded :: bool
  r_est_input_tokens :: "int option"
  r_est_output_bound :: "int option"
  r_rate_input :: "int option"
  r_rate_output :: "int option"
  r_rate_cached :: "int option"
  r_pricing_revision :: "string option"
  r_generation :: int
  r_status :: res_status

record wait_row =
  w_persona_id :: string
  w_input_id :: string
  w_turn_id :: string
  w_funding_kind :: string
  w_funding_id :: string
  w_needed_minor :: int
  w_currency :: string
  w_est_input_tokens :: int
  w_est_output_bound :: "int option"

text \<open>The rows of other packages that the store reads: connections, selections, grants.\<close>

record connection_row =
  c_connection_id :: string
  c_human_id :: string

record selection_row =
  sel_human_id :: string
  sel_kind :: string
  sel_connection_id :: string

record grant_row =
  g_funding_id :: string
  g_human_id :: string
  g_revoked :: bool

text \<open>One sealed range of the journal, or an upper-layer target over such ranges, and its replacement.\<close>

record chunk_row =
  mc_persona_id :: string
  mc_chunk_seq :: nat
  mc_layer :: nat
  mc_sources :: "nat list option"
  mc_first_seq :: nat
  mc_last_seq :: nat
  mc_est_tokens :: int
  mc_status :: chunk_status
  mc_replacement :: "string option"
  mc_replacement_est_tokens :: "int option"
  mc_attempts :: int
  mc_interruptions :: int
  mc_last_error :: "string option"
  mc_claimed_generation :: "int option"
  mc_claimed_at :: "timestamp option"
  mc_not_before :: "timestamp option"
  mc_created_at :: timestamp
  mc_prepared_at :: "timestamp option"
  mc_applied_at :: "timestamp option"

text \<open>
  A live context as the model saw it: its messages and tools (a \<^verbatim>\<open>json.RawMessage\<close> is the length of
  its text and its document) and the journal ranges they render.
\<close>

record raw_message =
  rm_size :: nat
  rm_value :: json

record source_range =
  sr_first_seq :: int
  sr_last_seq :: int
  sr_message_index :: "int option"
  sr_layer :: "int option"
  sr_chunk_seq :: "int option"

record branch_snapshot =
  bs_messages :: "raw_message list"
  bs_tools :: "raw_message list"
  bs_ranges :: "source_range list"
  bs_binding :: "json option"

record branch_attempt =
  ba_chunk :: chunk_row
  ba_snapshot :: branch_snapshot
  ba_state :: "json option"
  ba_revision :: int

record branch_issue =
  is_code :: string
  is_message :: string

record branch_row =
  br_persona_id :: string
  br_chunk_seq :: nat
  br_snapshot :: branch_snapshot
  br_previous_attempts :: "branch_attempt list"
  br_state :: "json option"
  br_revision :: int
  br_checkpoint_hash :: string
  br_status :: branch_status
  br_retry_at :: "timestamp option"
  br_issue :: "branch_issue option"
  br_updated_at :: timestamp

record job_row =
  j_persona_id :: string
  j_job_id :: string
  j_kind :: string
  j_request :: jobj
  j_status :: job_status
  j_claimed_by :: "string option"
  j_claim_expires_at :: "timestamp option"
  j_created_by :: string
  j_created_at :: timestamp
  j_started_at :: "timestamp option"
  j_finished_at :: "timestamp option"
  j_cancel_requested_at :: "timestamp option"
  j_result :: "jobj option"
  j_error :: "string option"
  j_notified_at :: "timestamp option"

text \<open>A terminal session, one input of its ledger, one chunk of its output.\<close>

record session_row =
  tm_session_id :: string
  tm_persona_id :: string
  tm_name :: string
  tm_mode :: string
  tm_backend :: string
  tm_operation_id :: "string option"
  tm_status :: term_status
  tm_epoch :: int
  tm_claimed_by :: "string option"
  tm_claim_expires_at :: "timestamp option"
  tm_control_holder :: "string option"
  tm_control_until :: "timestamp option"
  tm_requested_by :: string
  tm_created_by :: string
  tm_exit_code :: "int option"
  tm_exit_signal :: "string option"
  tm_end_reason :: "string option"
  tm_output_bytes :: int
  tm_output_base :: int
  tm_created_at :: timestamp
  tm_updated_at :: timestamp
  tm_ended_at :: "timestamp option"

record tinput_row =
  n_input_id :: string
  n_session_id :: string
  n_session_epoch :: int
  n_seq :: nat
  n_kind :: string
  n_payload :: jobj
  n_source :: string
  n_status :: tin_status
  n_detail :: "jobj option"
  n_created_at :: timestamp
  n_updated_at :: timestamp

record output_row =
  k_session_id :: string
  k_seq :: nat
  k_kind :: out_kind
  k_base :: int
  k_gap_to :: "int option"
  k_data :: string
  k_created_at :: timestamp

text \<open>The three tables of the terminals.\<close>

record term_state =
  sessions :: "session_row list"
  tinputs :: "tinput_row list"
  toutput :: "output_row list"

section \<open>The database\<close>

text \<open>
  \<open>admission_next\<close> is the identity sequence behind \<^verbatim>\<open>core_inputs.admission_seq\<close>. \<open>domain\<close> is the
  state the tools delegated to other packages own (Messaging tables): the store
  reads and writes it only through the tool effects it is handed.
\<close>

record 'd db =
  humans :: "string list"
  personas :: "persona_row list"
  leases :: "lease_row list"
  inputs :: "input_row list"
  admission_next :: nat
  turns :: "turn_row list"
  plans :: "plan_row list"
  events :: "event_row list"
  operations :: "op_row list"
  approvals :: "approval_row list"
  schedules :: "sched_row list"
  outbox :: "outbox_row list"
  budgets :: "budget_row list"
  facts :: "fact_row list"
  reservations :: "reservation_row list"
  waits :: "wait_row list"
  connections :: "connection_row list"
  selections :: "selection_row list"
  grants :: "grant_row list"
  chunks :: "chunk_row list"
  branches :: "branch_row list"
  jobs :: "job_row list"
  terminals :: term_state
  domain :: 'd

text \<open>Selection predicates by primary key.\<close>

definition is_persona :: "string \<Rightarrow> persona_row \<Rightarrow> bool" where
  "is_persona p r \<longleftrightarrow> p_persona_id r = p"

definition is_input :: "string \<Rightarrow> string \<Rightarrow> input_row \<Rightarrow> bool" where
  "is_input p i r \<longleftrightarrow> i_persona_id r = p \<and> i_input_id r = i"

definition is_turn :: "string \<Rightarrow> string \<Rightarrow> turn_row \<Rightarrow> bool" where
  "is_turn p t r \<longleftrightarrow> t_persona_id r = p \<and> t_turn_id r = t"

definition is_op :: "string \<Rightarrow> string \<Rightarrow> op_row \<Rightarrow> bool" where
  "is_op p x r \<longleftrightarrow> o_persona_id r = p \<and> o_operation_id r = x"

definition op_keyed :: "string \<Rightarrow> string \<Rightarrow> string \<Rightarrow> op_row \<Rightarrow> bool" where
  "op_keyed p tool k r \<longleftrightarrow> o_persona_id r = p \<and> o_tool r = tool \<and> o_idempotency_key r = k"

definition is_plan :: "string \<Rightarrow> string \<Rightarrow> plan_row \<Rightarrow> bool" where
  "is_plan p i r \<longleftrightarrow> pl_persona_id r = p \<and> pl_input_id r = i"

definition is_appr :: "string \<Rightarrow> string \<Rightarrow> approval_row \<Rightarrow> bool" where
  "is_appr p x r \<longleftrightarrow> a_persona_id r = p \<and> a_approval_id r = x"

definition appr_call :: "string \<Rightarrow> string \<Rightarrow> nat \<Rightarrow> approval_row \<Rightarrow> bool" where
  "appr_call p i n r \<longleftrightarrow> a_persona_id r = p \<and> a_input_id r = i \<and> a_call_index r = n"

lemmas row_preds = is_persona_def is_input_def is_turn_def is_op_def op_keyed_def is_plan_def
  is_appr_def appr_call_def

text \<open>The keys of the tables' PRIMARY KEY and UNIQUE constraints.\<close>

abbreviation chunk_key :: "chunk_row \<Rightarrow> string \<times> nat" where
  "chunk_key c \<equiv> (mc_persona_id c, mc_chunk_seq c)"

abbreviation branch_key :: "branch_row \<Rightarrow> string \<times> nat" where
  "branch_key b \<equiv> (br_persona_id b, br_chunk_seq b)"

abbreviation input_key :: "input_row \<Rightarrow> string \<times> string" where
  "input_key r \<equiv> (i_persona_id r, i_input_id r)"

text \<open>What an input says: the columns no statement rewrites once it is admitted.\<close>

definition input_face :: "input_row \<Rightarrow> string \<times> string \<times> string \<times> string \<times> string \<times> string \<times> jobj" where
  "input_face r = (i_persona_id r, i_input_id r, i_kind r, i_actor_kind r, i_actor_id r, i_attention r, i_payload r)"

lemma input_face_upd [simp]:
  "input_face (r\<lparr>i_status := a\<rparr>) = input_face r" "input_face (r\<lparr>i_claimed_generation := b\<rparr>) = input_face r"
  "input_face (r\<lparr>i_turn_id := c\<rparr>) = input_face r" "input_face (r\<lparr>i_done_at := d\<rparr>) = input_face r"
  "input_face (r\<lparr>i_not_before := d\<rparr>) = input_face r" "input_face (r\<lparr>i_received_seq := e\<rparr>) = input_face r"
  "input_face (r\<lparr>i_waiting_since := d\<rparr>) = input_face r" "input_face (r\<lparr>i_waited_ms := g\<rparr>) = input_face r"
  by (simp_all add: input_face_def)

lemma face_key: "input_face r = input_face r' \<Longrightarrow> input_key r = input_key r'"
  by (simp add: input_face_def)

definition faces_kept :: "input_row list \<Rightarrow> input_row list \<Rightarrow> bool" where
  "faces_kept rs ss \<longleftrightarrow> input_face ` set rs \<subseteq> input_face ` set ss"

lemma faces_kept_simps [simp]: "faces_kept rs rs" "faces_kept rs (rs @ ss)"
  by (auto simp: faces_kept_def)

lemma faces_kept_trans: "faces_kept a b \<Longrightarrow> faces_kept b c \<Longrightarrow> faces_kept a c"
  unfolding faces_kept_def by (rule subset_trans)

lemma faces_kept_map: "map input_face ss = map input_face rs \<Longrightarrow> faces_kept rs ss"
  unfolding faces_kept_def by (metis order_refl set_map)

lemma faces_kept_in: "faces_kept rs ss \<Longrightarrow> r \<in> set rs \<Longrightarrow> \<exists>r' \<in> set ss. input_face r' = input_face r"
proof -
  assume "faces_kept rs ss" "r \<in> set rs"
  then have "input_face r \<in> input_face ` set ss" unfolding faces_kept_def by (blast intro: imageI)
  then show ?thesis by (auto simp: image_iff)
qed

lemma faces_kept_keys: "faces_kept rs ss \<Longrightarrow> input_key ` set rs \<subseteq> input_key ` set ss"
proof -
  have "input_key ` set qs = (\<lambda>f. (fst f, fst (snd f))) ` input_face ` set qs" for qs by (simp add: image_image input_face_def)
  then show "faces_kept rs ss \<Longrightarrow> input_key ` set rs \<subseteq> input_key ` set ss" unfolding faces_kept_def by (simp only: image_mono)
qed

abbreviation turn_key :: "turn_row \<Rightarrow> string \<times> string" where
  "turn_key r \<equiv> (t_persona_id r, t_turn_id r)"

abbreviation op_key :: "op_row \<Rightarrow> string \<times> string" where
  "op_key r \<equiv> (o_persona_id r, o_operation_id r)"

abbreviation op_idem :: "op_row \<Rightarrow> string \<times> string \<times> string" where
  "op_idem r \<equiv> (o_persona_id r, o_tool r, o_idempotency_key r)"

abbreviation plan_key :: "plan_row \<Rightarrow> string \<times> string" where
  "plan_key r \<equiv> (pl_persona_id r, pl_input_id r)"

abbreviation event_key :: "event_row \<Rightarrow> string \<times> nat" where
  "event_key r \<equiv> (e_persona_id r, e_seq r)"

abbreviation appr_key :: "approval_row \<Rightarrow> string \<times> string" where
  "appr_key r \<equiv> (a_persona_id r, a_approval_id r)"

abbreviation appr_pos :: "approval_row \<Rightarrow> string \<times> string \<times> nat" where
  "appr_pos r \<equiv> (a_persona_id r, a_input_id r, a_call_index r)"

abbreviation sched_key :: "sched_row \<Rightarrow> string \<times> string" where
  "sched_key r \<equiv> (s_persona_id r, s_schedule_id r)"

abbreviation fact_key :: "fact_row \<Rightarrow> string \<times> string" where
  "fact_key r \<equiv> (u_persona_id r, u_fact_id r)"

abbreviation job_key :: "job_row \<Rightarrow> string \<times> string" where
  "job_key r \<equiv> (j_persona_id r, j_job_id r)"

abbreviation res_key :: "reservation_row \<Rightarrow> string \<times> string" where
  "res_key r \<equiv> (r_persona_id r, r_fact_id r)"

end
