(* ===== verification/Core_Lease.thy ===== *)
theory Core_Lease
  imports Core_State
begin

text \<open>
  Personas and the writer lease (\<^verbatim>\<open>store.go\<close>: \<^verbatim>\<open>requireGeneration\<close>, \<^verbatim>\<open>EnsurePersona\<close>,
  \<^verbatim>\<open>bindHuman\<close>, \<^verbatim>\<open>ClearModelIntent\<close>, \<^verbatim>\<open>PersonaAuthority\<close>, \<^verbatim>\<open>AcquireWriter\<close>,
  \<^verbatim>\<open>RenewWriter\<close>, \<^verbatim>\<open>ReleaseWriter\<close>). The lease row's generation is the fencing token every
  mutation presents; the lemmas show that it only grows, that a live lease is never taken over,
  and that a binding to a human is never rewritten.
\<close>

section \<open>Operations\<close>

definition inactiveAuthorityError :: "authority \<Rightarrow> err" where
  "inactiveAuthorityError a = ErrPersonaInactive (a = Transferred)"

definition persona_of :: "'d db \<Rightarrow> string \<Rightarrow> persona_row option" where
  "persona_of db p = find (is_persona p) (personas db)"

definition is_lease :: "string \<Rightarrow> lease_row \<Rightarrow> bool" where
  "is_lease p l \<longleftrightarrow> l_persona_id l = p"

definition lease_of :: "'d db \<Rightarrow> string \<Rightarrow> lease_row option" where
  "lease_of db p = find (is_lease p) (leases db)"

text \<open>The join of lease and persona, the generation check, then the authority check.\<close>

definition requireGeneration :: "'d db \<Rightarrow> string \<Rightarrow> int \<Rightarrow> err + unit" where
  "requireGeneration db p gen =
     (case (lease_of db p, persona_of db p) of
        (Some l, Some r) \<Rightarrow>
          if l_generation l \<noteq> gen then Inl ErrGenerationFence
          else if p_authority r \<noteq> Active then Inl ErrGenerationFence
          else Inr ()
      | _ \<Rightarrow> Inl ErrGenerationFence)"

text \<open>\<^verbatim>\<open>bindHuman\<close>: the update, then the classification of the row it did not match.\<close>

definition bindHuman :: "string \<Rightarrow> string \<Rightarrow> 'd db \<Rightarrow> err + ('d db \<times> persona_row)" where
  "bindHuman p h db =
     (if h \<notin> set (humans db) then Inl (ErrBadRequest ''human does not exist'')
      else case persona_of db p of
        None \<Rightarrow> Inl ErrPersonaNotFound
      | Some r \<Rightarrow>
          if p_human_id r = None \<and> p_authority r \<in> {Staged, Active} then
            Inr (db\<lparr>personas := upd (is_persona p) (\<lambda>x. x\<lparr>p_human_id := Some h\<rparr>) (personas db)\<rparr>,
                 r\<lparr>p_human_id := Some h\<rparr>)
          else case p_human_id r of
            Some h' \<Rightarrow> if h' = h then Inr (db, r) else Inl ErrPersonaBound
          | None \<Rightarrow> Inl (inactiveAuthorityError (p_authority r)))"

definition EnsurePersona ::
  "timestamp \<Rightarrow> string \<Rightarrow> string option \<Rightarrow> string \<Rightarrow> 'd db \<Rightarrow> err + ('d db \<times> persona_row \<times> bool)" where
  "EnsurePersona now p h name db =
     (case persona_of db p of
        None \<Rightarrow>
          rbind (guard (case h of Some h' \<Rightarrow> h' \<in> set (humans db) | None \<Rightarrow> True)
                       (ErrStorage ''core_personas_human_id_fkey'')) (\<lambda>_.
            let r = \<lparr>p_persona_id = p, p_human_id = h, p_display_name = name, p_created_at = now,
                     p_authority = Active, p_transfer_id = None, p_model_intent = None\<rparr>
            in Inr (db\<lparr>personas := personas db @ [r]\<rparr>, r, True))
      | Some r \<Rightarrow>
          (case h of
             None \<Rightarrow> Inr (db, r, False)
           | Some h' \<Rightarrow>
               (case p_human_id r of
                  None \<Rightarrow> rbind (bindHuman p h' db) (\<lambda>(db', _). Inr (db', r\<lparr>p_human_id := Some h'\<rparr>, False))
                | Some h'' \<Rightarrow> if h'' \<noteq> h' then Inl ErrPersonaBound else Inr (db, r, False))))"

definition ClearModelIntent :: "string \<Rightarrow> 'd db \<Rightarrow> err + ('d db \<times> unit)" where
  "ClearModelIntent p db =
     (case persona_of db p of
        None \<Rightarrow> Inl ErrPersonaNotFound
      | Some r \<Rightarrow>
          if p_authority r \<in> {Staged, Active} then
            Inr (db\<lparr>personas := upd (is_persona p) (\<lambda>x. x\<lparr>p_model_intent := None\<rparr>) (personas db)\<rparr>, ())
          else Inl (inactiveAuthorityError (p_authority r)))"

definition PersonaAuthority :: "'d db \<Rightarrow> string \<Rightarrow> err + authority" where
  "PersonaAuthority db p = rbind (require (persona_of db p) ErrPersonaNotFound) (\<lambda>r. Inr (p_authority r))"

text \<open>
  \<^verbatim>\<open>INSERT .. SELECT FROM core_personas WHERE authority = 'active' ON CONFLICT DO UPDATE .. WHERE\<close>,
  then the classification when it returned no row.
\<close>

definition acquire_refused :: "'d db \<Rightarrow> string \<Rightarrow> err" where
  "acquire_refused db p =
     (case persona_of db p of
        None \<Rightarrow> ErrPersonaNotFound
      | Some r \<Rightarrow> if p_authority r \<noteq> Active then inactiveAuthorityError (p_authority r) else ErrWriterHeld)"

definition AcquireWriter ::
  "timestamp \<Rightarrow> string \<Rightarrow> string \<Rightarrow> int \<Rightarrow> 'd db \<Rightarrow> err + ('d db \<times> lease_row)" where
  "AcquireWriter now p holder ttl db =
     (case persona_of db p of
        None \<Rightarrow> Inl (acquire_refused db p)
      | Some r \<Rightarrow>
          if p_authority r \<noteq> Active then Inl (acquire_refused db p)
          else case lease_of db p of
            None \<Rightarrow>
              (let l = \<lparr>l_persona_id = p, l_generation = 1, l_holder_id = holder,
                        l_acquired_at = now, l_expires_at = now + ttl\<rparr>
               in Inr (db\<lparr>leases := leases db @ [l]\<rparr>, l))
          | Some l \<Rightarrow>
              if l_expires_at l < now \<or> l_holder_id l = holder then
                (let f = (\<lambda>x. x\<lparr>l_generation := l_generation x + 1, l_holder_id := holder,
                               l_acquired_at := now, l_expires_at := now + ttl\<rparr>)
                 in Inr (db\<lparr>leases := upd (is_lease p) f (leases db)\<rparr>, f l))
              else Inl (acquire_refused db p))"

definition held_as :: "string \<Rightarrow> int \<Rightarrow> string \<Rightarrow> lease_row \<Rightarrow> bool" where
  "held_as p gen holder l \<longleftrightarrow> l_persona_id l = p \<and> l_generation l = gen \<and> l_holder_id l = holder"

definition RenewWriter ::
  "timestamp \<Rightarrow> string \<Rightarrow> string \<Rightarrow> int \<Rightarrow> int \<Rightarrow> 'd db \<Rightarrow> err + ('d db \<times> lease_row)" where
  "RenewWriter now p holder gen ttl db =
     (case find (held_as p gen holder) (leases db) of
        None \<Rightarrow> Inl ErrGenerationFence
      | Some l \<Rightarrow>
          Inr (db\<lparr>leases := upd (held_as p gen holder) (\<lambda>x. x\<lparr>l_expires_at := now + ttl\<rparr>) (leases db)\<rparr>,
               l\<lparr>l_expires_at := now + ttl\<rparr>))"

text \<open>The expiry written is the epoch, never the current time.\<close>

definition ReleaseWriter :: "string \<Rightarrow> string \<Rightarrow> int \<Rightarrow> 'd db \<Rightarrow> err + ('d db \<times> unit)" where
  "ReleaseWriter p holder gen db =
     (case find (held_as p gen holder) (leases db) of
        None \<Rightarrow> Inl ErrGenerationFence
      | Some _ \<Rightarrow>
          Inr (db\<lparr>leases := upd (held_as p gen holder) (\<lambda>x. x\<lparr>l_expires_at := 0\<rparr>) (leases db)\<rparr>, ()))"

text \<open>\<^verbatim>\<open>PersonaState\<close>: the persona with its lease and the counts the status view shows.\<close>

record persona_state =
  ps_persona :: persona_row
  ps_lease :: "lease_row option"
  ps_queued_inputs :: nat
  ps_waiting_inputs :: nat
  ps_running_turn :: "string option"
  ps_pending_approvals :: nat
  ps_pending_schedules :: nat
  ps_latest_event_seq :: nat

definition PersonaState :: "'d db \<Rightarrow> string \<Rightarrow> err + persona_state" where
  "PersonaState db p =
     rbind (require (persona_of db p) ErrPersonaNotFound) (\<lambda>r. Inr
       \<lparr>ps_persona = r,
        ps_lease = lease_of db p,
        ps_queued_inputs = length (filter (\<lambda>i. i_persona_id i = p \<and> i_status i = IQueued) (inputs db)),
        ps_waiting_inputs = length (filter (\<lambda>i. i_persona_id i = p \<and> i_status i = IWaiting) (inputs db)),
        ps_running_turn = map_option t_turn_id
          (find (\<lambda>t. t_persona_id t = p \<and> t_status t = TRunning) (turns db)),
        ps_pending_approvals =
          length (filter (\<lambda>a. a_persona_id a = p \<and> a_status a = APending) (approvals db)),
        ps_pending_schedules =
          length (filter (\<lambda>s. s_persona_id s = p \<and> s_status s = SPending) (schedules db)),
        ps_latest_event_seq = maxl (map e_seq (filter (\<lambda>e. e_persona_id e = p) (events db)))\<rparr>)"

section \<open>The fencing token\<close>

definition gen_of :: "'d db \<Rightarrow> string \<Rightarrow> int option" where
  "gen_of db p = map_option l_generation (lease_of db p)"

lemma requireGeneration_ok:
  "requireGeneration db p g = Inr u \<longleftrightarrow>
     gen_of db p = Some g \<and> (\<exists>r. persona_of db p = Some r \<and> p_authority r = Active)"
  by (auto simp: requireGeneration_def gen_of_def split: option.splits)

lemma requireGeneration_fence:
  "requireGeneration db p g = Inl e \<Longrightarrow> e = ErrGenerationFence"
  by (auto simp: requireGeneration_def split: option.splits if_splits)

lemma lease_upd_all:
  assumes "\<And>l. l_persona_id (f l) = l_persona_id l"
  shows "lease_of (db\<lparr>leases := upd (is_lease p) f (leases db)\<rparr>) q =
         (if q = p then map_option f (lease_of db p) else lease_of db q)"
proof -
  have "find (is_lease q) (upd (is_lease p) f (leases db)) =
        map_option (\<lambda>r. if is_lease p r then f r else r) (find (is_lease q) (leases db))"
    by (rule find_upd) (simp add: is_lease_def assms)
  then show ?thesis
    by (cases "find (is_lease q) (leases db)")
       (auto simp: lease_of_def is_lease_def dest: find_SomeD)
qed

lemma lease_upd_gen:
  assumes "\<And>l. l_persona_id (f l) = l_persona_id l" "\<And>l. l_generation (f l) = l_generation l"
  shows "gen_of (db\<lparr>leases := upd P f (leases db)\<rparr>) q = gen_of db q"
proof -
  have "find (is_lease q) (upd P f (leases db)) =
        map_option (\<lambda>r. if P r then f r else r) (find (is_lease q) (leases db))"
    by (rule find_upd) (simp add: is_lease_def assms)
  then show ?thesis
    by (cases "find (is_lease q) (leases db)") (simp_all add: gen_of_def lease_of_def assms)
qed

lemma lease_snoc:
  "lease_of (db\<lparr>leases := leases db @ [l]\<rparr>) q =
     (case lease_of db q of None \<Rightarrow> (if l_persona_id l = q then Some l else None) | Some x \<Rightarrow> Some x)"
  by (simp add: lease_of_def find_append is_lease_def split: option.splits)

lemma persona_of_leases [simp]: "persona_of (db\<lparr>leases := ls\<rparr>) p = persona_of db p"
  by (simp add: persona_of_def)

lemma AcquireWriter_lease:
  assumes "AcquireWriter now p h ttl db = Inr (db', l)"
  shows "lease_of db' p = Some l" "\<And>q. q \<noteq> p \<Longrightarrow> lease_of db' q = lease_of db q"
    "l_generation l = (case gen_of db p of None \<Rightarrow> 1 | Some g \<Rightarrow> g + 1)"
    "\<exists>r. persona_of db' p = Some r \<and> p_authority r = Active"
    "l_holder_id l = h" "l_expires_at l = now + ttl" "l_acquired_at l = now"
  using assms
  by (auto simp: AcquireWriter_def gen_of_def Let_def lease_upd_all lease_snoc
      split: option.splits if_splits)

lemma AcquireWriter_gen:
  assumes "AcquireWriter now p h ttl db = Inr (db', l)"
  shows "gen_of db' p = Some (l_generation l) \<and>
         l_generation l = (case gen_of db p of None \<Rightarrow> 1 | Some g \<Rightarrow> g + 1)"
  using AcquireWriter_lease [OF assms] by (simp add: gen_of_def)

lemma AcquireWriter_frame:
  assumes "AcquireWriter now p h ttl db = Inr (db', l)"
  shows "db' = db\<lparr>leases := leases db'\<rparr>"
  using assms by (auto simp: AcquireWriter_def Let_def split: option.splits if_splits)

lemma RenewWriter_frame:
  assumes "RenewWriter now p h g ttl db = Inr (db', l)"
  shows "db' = db\<lparr>leases := leases db'\<rparr>" "gen_of db' q = gen_of db q"
  using assms by (auto simp: RenewWriter_def lease_upd_gen split: option.splits)

lemma ReleaseWriter_frame:
  assumes "ReleaseWriter p h g db = Inr (db', u)"
  shows "db' = db\<lparr>leases := leases db'\<rparr>" "gen_of db' q = gen_of db q"
  using assms by (auto simp: ReleaseWriter_def lease_upd_gen split: option.splits)

text \<open>
  The lease commands of several hosts in any order, one transaction each; the trace is the list
  of generations handed out for one persona.
\<close>

datatype lease_cmd =
    LAcquire timestamp string int
  | LRenew timestamp string int int
  | LRelease string int

fun lease_exec :: "string \<Rightarrow> lease_cmd \<Rightarrow> 'd db \<Rightarrow> 'd db \<times> (err + int option)" where
  "lease_exec p (LAcquire now h ttl) db =
     run_tx (\<lambda>s. rbind (AcquireWriter now p h ttl s) (\<lambda>(s', l). Inr (s', Some (l_generation l)))) db"
| "lease_exec p (LRenew now h g ttl) db =
     run_tx (\<lambda>s. rbind (RenewWriter now p h g ttl s) (\<lambda>(s', l). Inr (s', None))) db"
| "lease_exec p (LRelease h g) db =
     run_tx (\<lambda>s. rbind (ReleaseWriter p h g s) (\<lambda>(s', _). Inr (s', None))) db"

fun granted :: "string \<Rightarrow> lease_cmd list \<Rightarrow> 'd db \<Rightarrow> int list" where
  "granted p [] db = []"
| "granted p (c # cs) db =
     (case lease_exec p c db of
        (db', Inr (Some g)) \<Rightarrow> g # granted p cs db'
      | (db', _) \<Rightarrow> granted p cs db')"

lemma lease_exec_gen:
  assumes "lease_exec p c db = (db', r)"
  shows "case r of
           Inr (Some g) \<Rightarrow> gen_of db' p = Some g \<and> (\<forall>g0. gen_of db p = Some g0 \<longrightarrow> g = g0 + 1) \<and>
             (gen_of db p = None \<longrightarrow> g = 1)
         | _ \<Rightarrow> gen_of db' p = gen_of db p"
  using assms
  by (cases c; cases r)
     (auto simp: res_simps
        dest!: AcquireWriter_gen RenewWriter_frame(2) [where q = p] ReleaseWriter_frame(2) [where q = p]
        elim!: run_tx_cases split: option.splits)

lemma granted_above:
  "\<forall>g \<in> set (granted p cs db). case gen_of db p of None \<Rightarrow> 1 \<le> g | Some g0 \<Rightarrow> g0 < g"
proof (induction cs arbitrary: db)
  case Nil
  then show ?case by simp
next
  case (Cons c cs)
  obtain db' r where x: "lease_exec p c db = (db', r)" by fastforce
  note g = lease_exec_gen [OF x] and IH = Cons.IH [of db']
  show ?case
    using g IH by (fastforce simp: x split: sum.splits option.splits)
qed

section \<open>Properties\<close>

text \<open>
  Acquiring the writer lease fences every earlier generation: in the state the acquire
  commits, the returned generation is the only one \<open>requireGeneration\<close> admits, and it is larger
  than any generation admitted before.
\<close>

lemma acquire_fences:
  assumes "AcquireWriter now p h ttl db = Inr (db', l)"
  shows "requireGeneration db' p g = (if g = l_generation l then Inr () else Inl ErrGenerationFence)
       \<and> (requireGeneration db p g = Inr () \<longrightarrow> g < l_generation l)"
proof -
  note l = AcquireWriter_lease [OF assms]
  then have "requireGeneration db' p (l_generation l) = Inr ()"
    by (simp add: requireGeneration_ok gen_of_def)
  moreover have "g \<noteq> l_generation l \<Longrightarrow> requireGeneration db' p g = Inl ErrGenerationFence"
    using l by (auto simp: requireGeneration_def)
  moreover have "requireGeneration db p g = Inr () \<Longrightarrow> g < l_generation l"
    using l(3) by (auto simp: requireGeneration_ok)
  ultimately show ?thesis by simp
qed

definition demo_persona :: persona_row where
  "demo_persona = \<lparr>p_persona_id = ''p1'', p_human_id = Some ''h1'', p_display_name = ''Sumi'',
     p_created_at = 0, p_authority = Active, p_transfer_id = None, p_model_intent = None\<rparr>"

definition demo_lease :: lease_row where
  "demo_lease = \<lparr>l_persona_id = ''p1'', l_generation = 4, l_holder_id = ''host-a'',
     l_acquired_at = 10, l_expires_at = 50\<rparr>"

text \<open>A database with one active persona, its lease expired at 50 under generation 4.\<close>

definition demo_db :: "unit db" where
  "demo_db = \<lparr>humans = [''h1''], personas = [demo_persona], leases = [demo_lease], inputs = [],
     admission_next = 1, turns = [], plans = [], events = [], operations = [], approvals = [],
     schedules = [], outbox = [], budgets = [], facts = [], reservations = [], waits = [],
     connections = [], selections = [], grants = [], chunks = [], branches = [], jobs = [],
     terminals = \<lparr>sessions = [], tinputs = [], toutput = []\<rparr>, domain = ()\<rparr>"

lemmas demo_defs = demo_db_def demo_persona_def demo_lease_def

text \<open>
  No generation is ever issued twice: whatever hosts acquire, renew and release in whatever
  order and at whatever clock readings, the generations handed out for one persona are strictly
  increasing, starting above the one in force.
\<close>

theorem granted_strictly_increasing:
  "sorted_wrt (<) (case gen_of db p of None \<Rightarrow> granted p cs db | Some g \<Rightarrow> g # granted p cs db)"
proof -
  have "sorted_wrt (<) (granted p cs db)"
  proof (induction cs arbitrary: db)
    case Nil
    then show ?case by simp
  next
    case (Cons c cs)
    obtain db' r where x: "lease_exec p c db = (db', r)" by fastforce
    show ?case
      using lease_exec_gen [OF x] granted_above [of p cs db'] Cons.IH [of db']
      by (auto simp: x split: sum.splits option.splits)
  qed
  then show ?thesis using granted_above [of p cs db] by (auto split: option.splits)
qed

text \<open>
  A live lease is never taken over: while it has not expired, another holder's acquire fails
  with \<open>ErrWriterHeld\<close> on an active persona and changes nothing; once released, the next
  acquire of anybody succeeds after the epoch and continues the numbering.
\<close>

lemma live_lease_is_exclusive:
  assumes "keyed l_persona_id (leases db)" and "lease_of db p = Some l"
    and "persona_of db p = Some r" and "p_authority r = Active"
  shows "(now \<le> l_expires_at l \<and> h \<noteq> l_holder_id l \<longrightarrow> AcquireWriter now p h ttl db = Inl ErrWriterHeld)
    \<and> (0 < now \<longrightarrow> (\<exists>db1 db2 l2. ReleaseWriter p (l_holder_id l) (l_generation l) db = Inr (db1, ())
           \<and> AcquireWriter now p h ttl db1 = Inr (db2, l2) \<and> l_generation l2 = l_generation l + 1))"
proof (intro conjI impI)
  assume "now \<le> l_expires_at l \<and> h \<noteq> l_holder_id l"
  with assms show "AcquireWriter now p h ttl db = Inl ErrWriterHeld"
    by (auto simp: AcquireWriter_def acquire_refused_def)
next
  assume now: "0 < now"
  let ?P = "held_as p (l_generation l) (l_holder_id l)"
  let ?f = "\<lambda>x. x\<lparr>l_expires_at := 0\<rparr>"
  let ?db1 = "db\<lparr>leases := upd ?P ?f (leases db)\<rparr>"
  from assms(2) have l: "l \<in> set (leases db)" "l_persona_id l = p"
    by (auto simp: lease_of_def is_lease_def dest: find_SomeD)
  then have "find ?P (leases db) = Some l"
    by (intro keyed_find [OF assms(1)]) (auto simp: held_as_def)
  then have rel: "ReleaseWriter p (l_holder_id l) (l_generation l) db = Inr (?db1, ())"
    by (simp add: ReleaseWriter_def)
  have "find (is_lease p) (upd ?P ?f (leases db)) =
        map_option (\<lambda>r. if ?P r then ?f r else r) (find (is_lease p) (leases db))"
    by (rule find_upd) (simp add: is_lease_def)
  with assms(2) l have "lease_of ?db1 p = Some (?f l)"
    by (simp add: lease_of_def held_as_def)
  then have "\<exists>db2 l2. AcquireWriter now p h ttl ?db1 = Inr (db2, l2) \<and> l_generation l2 = l_generation l + 1"
    using assms(3,4) now by (simp add: AcquireWriter_def Let_def)
  with rel show "\<exists>db1 db2 l2. ReleaseWriter p (l_holder_id l) (l_generation l) db = Inr (db1, ())
      \<and> AcquireWriter now p h ttl db1 = Inr (db2, l2) \<and> l_generation l2 = l_generation l + 1"
    by blast
qed

end
