(* ===== verification/Core_Inputs.thy ===== *)
theory Core_Inputs
  imports Core_Lease
begin

text \<open>
  The durable inbox (\<^verbatim>\<open>store.go\<close>: \<^verbatim>\<open>SubmitInput\<close>, \<^verbatim>\<open>scanInput\<close> with its derived
  \<^verbatim>\<open>previous_received_at\<close> column, \<^verbatim>\<open>GetInput\<close>). An input is recorded once under its id; a
  resubmission with the same fields replays the stored row, one with different fields is refused.
\<close>

section \<open>Operations\<close>

record submit_request =
  sr_persona_id :: string
  sr_input_id :: string
  sr_kind :: string
  sr_payload :: "jobj option"
  sr_actor_kind :: string
  sr_actor_id :: string
  sr_source_surface :: string
  sr_thread_id :: string
  sr_occurred_at :: "timestamp option"
  sr_attention :: string

definition schedInputPrefix :: string where
  "schedInputPrefix = ''sched:''"

definition jobInputPrefix :: string where
  "jobInputPrefix = ''job:''"

definition input_of :: "'d db \<Rightarrow> string \<Rightarrow> string \<Rightarrow> input_row option" where
  "input_of db p i = find (is_input p i) (inputs db)"

text \<open>Inputs Sumi raises itself are no baseline for the gap between messages.\<close>

definition internal_actor_kinds :: "string list" where
  "internal_actor_kinds = [''schedule'', ''job'', ''terminal'', ''memory'']"

fun latest :: "input_row list \<Rightarrow> input_row option" where
  "latest [] = None"
| "latest (r # rs) =
     (case latest rs of
        None \<Rightarrow> Some r
      | Some s \<Rightarrow> if i_admission_seq r \<le> i_admission_seq s then Some s else Some r)"

definition previous_receipt :: "'d db \<Rightarrow> input_row \<Rightarrow> timestamp option" where
  "previous_receipt db r =
     map_option i_created_at (latest (filter (\<lambda>x. i_persona_id x = i_persona_id r
        \<and> i_admission_seq x < i_admission_seq r \<and> i_actor_kind x \<notin> set internal_actor_kinds) (inputs db)))"

text \<open>An \<^verbatim>\<open>Input\<close> as the API returns it: the row and its derived column.\<close>

type_synonym input_view = "input_row \<times> timestamp option"

definition view :: "'d db \<Rightarrow> input_row \<Rightarrow> input_view" where
  "view db r = (r, previous_receipt db r)"

text \<open>What the columns' types and CHECK constraints accept.\<close>

definition texts_storable :: "submit_request \<Rightarrow> bool" where
  "texts_storable q \<longleftrightarrow> list_all (\<lambda>s. NUL \<notin> set s)
     [sr_input_id q, sr_kind q, sr_actor_kind q, sr_actor_id q, sr_source_surface q, sr_thread_id q,
      sr_attention q]
   \<and> storable (JObj (the (sr_payload q)))"

definition attention_ok :: "string \<Rightarrow> bool" where
  "attention_ok a \<longleftrightarrow> a \<in> set [''reply'', ''observe'', ''defer'']"

text \<open>The defaults applied to a request before it is stored or compared.\<close>

definition with_defaults :: "submit_request \<Rightarrow> submit_request" where
  "with_defaults q = q\<lparr>sr_attention := (if sr_attention q = [] then ''reply'' else sr_attention q),
                       sr_payload := Some (case sr_payload q of None \<Rightarrow> [] | Some m \<Rightarrow> m)\<rparr>"

definition new_input :: "timestamp \<Rightarrow> nat \<Rightarrow> submit_request \<Rightarrow> input_row" where
  "new_input now sq q =
     \<lparr>i_persona_id = sr_persona_id q, i_input_id = sr_input_id q, i_kind = sr_kind q,
      i_payload = the (sr_payload q), i_actor_kind = sr_actor_kind q, i_actor_id = sr_actor_id q,
      i_source_surface = sr_source_surface q, i_thread_id = sr_thread_id q,
      i_occurred_at = sr_occurred_at q, i_attention = sr_attention q, i_status = IQueued,
      i_claimed_generation = None, i_turn_id = None, i_created_at = now, i_done_at = None,
      i_not_before = None, i_received_seq = None, i_admission_seq = sq, i_waiting_since = None,
      i_waited_ms = 0\<rparr>"

definition same_request :: "submit_request \<Rightarrow> input_row \<Rightarrow> bool" where
  "same_request q r \<longleftrightarrow> i_kind r = sr_kind q \<and> jsonb_eq (JObj (i_payload r)) (JObj (the (sr_payload q)))
     \<and> i_actor_kind r = sr_actor_kind q \<and> i_actor_id r = sr_actor_id q
     \<and> i_source_surface r = sr_source_surface q \<and> i_thread_id r = sr_thread_id q
     \<and> i_occurred_at r = sr_occurred_at q \<and> i_attention r = sr_attention q"

text \<open>The answer when no row was inserted: replay of the stored row, or the refusal.\<close>

definition submit_replay :: "authority \<Rightarrow> submit_request \<Rightarrow> 'd db \<Rightarrow> err + ('d db \<times> input_view \<times> bool)" where
  "submit_replay a q db =
     (if \<not> texts_storable q then Inl (ErrData ''invalid text or jsonb parameter'')
      else case input_of db (sr_persona_id q) (sr_input_id q) of
        None \<Rightarrow> if a \<noteq> Active then Inl (inactiveAuthorityError a) else Inl (ErrStorage ''no rows'')
      | Some r \<Rightarrow> if same_request q r then Inr (db, view db r, False) else Inl ErrTurnConflict)"

definition SubmitInput ::
  "timestamp \<Rightarrow> submit_request \<Rightarrow> 'd db \<Rightarrow> err + ('d db \<times> input_view \<times> bool)" where
  "SubmitInput now q0 db =
     (if has_prefix (sr_input_id q0) schedInputPrefix \<or> has_prefix (sr_input_id q0) jobInputPrefix
      then Inl (ErrBadRequest ''input_id prefix is reserved'')
      else
        let q = with_defaults q0 in
        case persona_of db (sr_persona_id q) of
          None \<Rightarrow> Inl ErrPersonaNotFound
        | Some pr \<Rightarrow>
            if p_authority pr \<noteq> Active then submit_replay (p_authority pr) q db
            else if \<not> texts_storable q \<or> \<not> attention_ok (sr_attention q)
            then Inl (ErrBadRequest ''invalid input data'')
            else
              let sq = admission_next db; db1 = db\<lparr>admission_next := Suc sq\<rparr> in
              if input_of db (sr_persona_id q) (sr_input_id q) = None then
                let r = new_input now sq q; db2 = db1\<lparr>inputs := inputs db @ [r]\<rparr>
                in Inr (db2, view db2 r, True)
              else submit_replay Active q db1)"

definition turn_of :: "'d db \<Rightarrow> string \<Rightarrow> string \<Rightarrow> turn_row option" where
  "turn_of db p t = find (is_turn p t) (turns db)"

definition GetInput :: "'d db \<Rightarrow> string \<Rightarrow> string \<Rightarrow> err + (input_view \<times> turn_row option)" where
  "GetInput db p i =
     rbind (require (input_of db p i) ErrInputNotFound) (\<lambda>r.
       case i_turn_id r of
         None \<Rightarrow> Inr (view db r, None)
       | Some t \<Rightarrow> Inr (view db r, turn_of db p t))"

section \<open>Lemmas\<close>

text \<open>Admission numbers stay below the sequence.\<close>

definition admission_inv :: "'d db \<Rightarrow> bool" where
  "admission_inv db \<longleftrightarrow> (\<forall>r \<in> set (inputs db). i_admission_seq r < admission_next db)"

lemma input_of_snoc:
  "input_of (db\<lparr>inputs := inputs db @ [r]\<rparr>) p i =
     (case input_of db p i of None \<Rightarrow> (if is_input p i r then Some r else None) | Some x \<Rightarrow> Some x)"
  by (simp add: input_of_def find_append split: option.splits)

lemma submit_replay_db: "submit_replay a q db = Inr (db', v, f) \<Longrightarrow> db' = db"
  by (auto simp: submit_replay_def split: if_splits option.splits)

lemma SubmitInput_cases:
  assumes "SubmitInput now q0 db = Inr (db', v, fresh)"
  obtains (stored) q where "q = with_defaults q0" "fresh" "input_of db (sr_persona_id q) (sr_input_id q) = None"
      "db' = db\<lparr>admission_next := Suc (admission_next db),
                inputs := inputs db @ [new_input now (admission_next db) q]\<rparr>"
      "v = view db' (new_input now (admission_next db) q)" "texts_storable q" "attention_ok (sr_attention q)"
      "\<exists>pr. persona_of db (sr_persona_id q) = Some pr \<and> p_authority pr = Active"
    | (replayed) r where "\<not> fresh" "inputs db' = inputs db" "v = view db' r"
      "input_of db (sr_persona_id q0) (sr_input_id q0) = Some r" "same_request (with_defaults q0) r"
      "db' = db \<or> db' = db\<lparr>admission_next := Suc (admission_next db)\<rparr>"
  using assms
  by (auto simp: SubmitInput_def submit_replay_def Let_def with_defaults_def input_of_def
      split: if_splits option.splits)

lemma SubmitInput_admission:
  assumes "SubmitInput now q db = Inr (db', v, fresh)" "admission_inv db"
  shows "admission_inv db'"
  using assms(1)
proof (cases rule: SubmitInput_cases)
  case stored
  with assms(2) show ?thesis by (auto simp: admission_inv_def new_input_def)
next
  case replayed
  with assms(2) show ?thesis by (auto simp: admission_inv_def intro: less_SucI)
qed

lemma SubmitInput_keyed:
  assumes "SubmitInput now q db = Inr (db', v, fresh)" "keyed input_key (inputs db)"
  shows "keyed input_key (inputs db')"
  using assms(1)
proof (cases rule: SubmitInput_cases)
  case stored
  with assms(2) show ?thesis
    by (auto simp: keyed_snoc input_of_def find_None_iff is_input_def new_input_def)
next
  case replayed
  with assms(2) show ?thesis by simp
qed

section \<open>Properties\<close>

text \<open>
  A lost response is safe to retry: after an input was accepted, resubmitting the same
  request answers the stored row as a replay and stores nothing, and the same input id with any
  field changed is refused as a conflict.
\<close>

lemma submit_replay_is_idempotent:
  assumes "SubmitInput now q db = Inr (db1, v, True)"
    and "sr_persona_id q' = sr_persona_id q" and "sr_input_id q' = sr_input_id q"
    and "texts_storable (with_defaults q')" and "attention_ok (sr_attention (with_defaults q'))"
  shows "if same_request (with_defaults q') (fst v)
         then \<exists>db2 v2. SubmitInput now' q' db1 = Inr (db2, v2, False) \<and> fst v2 = fst v \<and> inputs db2 = inputs db1
         else SubmitInput now' q' db1 = Inl ErrTurnConflict"
  using assms(1)
proof (cases rule: SubmitInput_cases)
  case (stored q1)
  let ?r = "new_input now (admission_next db) q1"
  have v: "fst v = ?r" using stored by (simp add: view_def)
  have ids: "sr_persona_id q1 = sr_persona_id q" "sr_input_id q1 = sr_input_id q"
    using stored(1) by (simp_all add: with_defaults_def)
  have found: "input_of db1 (sr_persona_id q) (sr_input_id q) = Some ?r"
    using stored(3,4) ids by (simp add: input_of_def find_append is_input_def new_input_def)
  have pref: "\<not> has_prefix (sr_input_id q') schedInputPrefix" "\<not> has_prefix (sr_input_id q') jobInputPrefix"
    using assms(1,3) by (auto simp: SubmitInput_def split: if_splits)
  obtain pr where "persona_of db1 (sr_persona_id q) = Some pr" "p_authority pr = Active"
    using stored(4,8) ids by (auto simp: persona_of_def)
  then show ?thesis
    using assms(2-5) found pref v
    by (simp add: SubmitInput_def Let_def with_defaults_def submit_replay_def input_of_def view_def)
next
  case (replayed r)
  then show ?thesis by simp
qed

definition demo_submit :: submit_request where
  "demo_submit = \<lparr>sr_persona_id = ''p1'', sr_input_id = ''in-1'', sr_kind = ''message'',
     sr_payload = Some [(''text'', JStr ''hi'')], sr_actor_kind = ''human'', sr_actor_id = ''h1'',
     sr_source_surface = ''web'', sr_thread_id = '''', sr_occurred_at = None, sr_attention = ''''\<rparr>"

text \<open>
  The derived \<^verbatim>\<open>previous_received_at\<close> of an input never changes once it is admitted: later
  submissions are numbered after it, so every read of the same input shows the same gap.
\<close>

theorem previous_receipt_is_stable:
  assumes "admission_inv db" and "SubmitInput now q db = Inr (db', v, fresh)" and "r \<in> set (inputs db)"
  shows "previous_receipt db' r = previous_receipt db r"
  using assms(2)
proof (cases rule: SubmitInput_cases)
  case (stored q1)
  have "i_admission_seq r < admission_next db" using assms(1,3) by (simp add: admission_inv_def)
  with stored(4) show ?thesis by (simp add: previous_receipt_def new_input_def)
next
  case (replayed r')
  then show ?thesis by (simp add: previous_receipt_def)
qed

end
