(* ===== verification/Core_Plan.thy ===== *)
theory Core_Plan
  imports Core_Inputs
begin

text \<open>
  The durable plan of an input (\<^verbatim>\<open>store.go\<close>: \<^verbatim>\<open>SavePlan\<close>, \<^verbatim>\<open>planForInput\<close>;
  \<^verbatim>\<open>experience.go\<close>: \<^verbatim>\<open>planPosition\<close>). A plan is the append-only list of the model's rounds;
  a recorded round never changes, and a call's flat position across the rounds is its identity.
\<close>

section \<open>Operations\<close>

text \<open>A decision as the caller sends it: nil maps and the raw continuation still unchecked.\<close>

record raw_call =
  rc_call_id :: string
  rc_tool :: string
  rc_route :: string
  rc_request :: "jobj option"

record raw_decision =
  rd_text :: string
  rd_calls :: "raw_call list"
  rd_usage :: "jobj option"
  rd_continuation :: "json option"

definition or_empty :: "jobj option \<Rightarrow> jobj" where
  "or_empty m = (case m of None \<Rightarrow> [] | Some x \<Rightarrow> x)"

fun check_calls :: "raw_call list \<Rightarrow> err + plan_call list" where
  "check_calls [] = Inr []"
| "check_calls (c # cs) =
     rbind (guard (rc_tool c \<noteq> []) (ErrBadRequest ''plan call missing tool'')) (\<lambda>_.
     rbind (guard (rc_route c = ''normal'' \<or> rc_route c = ''elevated'')
              (ErrBadRequest ''plan call missing or unknown invocation route'')) (\<lambda>_.
     rbind (check_calls cs) (\<lambda>rest. Inr
       (\<lparr>pc_call_id = rc_call_id c, pc_tool = rc_tool c, pc_route = rc_route c,
         pc_request = or_empty (rc_request c)\<rparr> # rest))))"

definition check_continuation :: "json option \<Rightarrow> err + jobj option" where
  "check_continuation c =
     (case c of
        None \<Rightarrow> Inr None
      | Some (JObj m) \<Rightarrow> Inr (Some m)
      | Some JNull \<Rightarrow> Inr None
      | Some _ \<Rightarrow> Inl (ErrBadRequest ''continuation must be a JSON object''))"

text \<open>\<^verbatim>\<open>json.Marshal(decision)\<close>, with the struct tags' \<^verbatim>\<open>omitempty\<close>.\<close>

definition call_json :: "plan_call \<Rightarrow> json" where
  "call_json c = JObj ((if pc_call_id c = [] then [] else [(''call_id'', JStr (pc_call_id c))]) @
     [(''tool'', JStr (pc_tool c)), (''route'', JStr (pc_route c)), (''request'', JObj (pc_request c))])"

definition decision_json :: "decision \<Rightarrow> json" where
  "decision_json d = JObj ([(''text'', JStr (d_text d)), (''calls'', JArr (map call_json (d_calls d))),
      (''usage'', JObj (d_usage d))] @
     (case d_continuation d of None \<Rightarrow> [] | Some m \<Rightarrow> [(''continuation'', JObj m)]))"

definition check_decision :: "raw_decision \<Rightarrow> err + decision" where
  "check_decision r =
     rbind (check_continuation (rd_continuation r)) (\<lambda>cont.
     rbind (check_calls (rd_calls r)) (\<lambda>calls.
       let d = \<lparr>d_text = rd_text r, d_calls = calls, d_usage = or_empty (rd_usage r), d_continuation = cont\<rparr>
       in rbind (guard (\<not> hasNUL (decision_json d))
            (ErrBadRequest ''decision contains a NUL byte jsonb cannot store'')) (\<lambda>_. Inr d)))"

definition planForInput :: "'d db \<Rightarrow> string \<Rightarrow> string \<Rightarrow> plan_row option" where
  "planForInput db p i = find (is_plan p i) (plans db)"

text \<open>The turn must be the live attempt: running under the presented generation.\<close>

definition live_turn :: "'d db \<Rightarrow> string \<Rightarrow> string \<Rightarrow> int \<Rightarrow> err + turn_row" where
  "live_turn db p t gen =
     rbind (require (turn_of db p t) ErrTurnNotFound) (\<lambda>tr.
       if t_generation tr \<noteq> gen \<or> t_status tr \<noteq> TRunning then Inl ErrTurnConflict else Inr tr)"

definition SavePlan ::
  "timestamp \<Rightarrow> string \<Rightarrow> string \<Rightarrow> int \<Rightarrow> int \<Rightarrow> raw_decision \<Rightarrow> 'd db \<Rightarrow> err + ('d db \<times> plan_row \<times> bool)" where
  "SavePlan now p t gen rnd rd db =
     rbind (guard (0 \<le> rnd) (ErrBadRequest ''round must be >= 0'')) (\<lambda>_.
     rbind (check_decision rd) (\<lambda>d.
     rbind (requireGeneration db p gen) (\<lambda>_.
     rbind (live_turn db p t gen) (\<lambda>tr.
       case planForInput db p (t_input_id tr) of
         None \<Rightarrow>
           rbind (guard (rnd = 0) ErrTurnConflict) (\<lambda>_.
           rbind (with_dataErr (jsonb_param (decision_json d))) (\<lambda>_.
             let r = \<lparr>pl_persona_id = p, pl_input_id = t_input_id tr, pl_turn_id = t, pl_generation = gen,
                      pl_plan = [d], pl_created_at = now\<rparr>
             in Inr (db\<lparr>plans := plans db @ [r]\<rparr>, r, True)))
       | Some r \<Rightarrow>
           if rnd < int (length (pl_plan r)) then
             rbind (jsonb_param (decision_json d)) (\<lambda>_.
             if jsonb_eq (decision_json (pl_plan r ! nat rnd)) (decision_json d)
             then Inr (db, r, False) else Inl ErrTurnConflict)
           else if rnd = int (length (pl_plan r)) then
             rbind (with_dataErr (jsonb_param (decision_json d))) (\<lambda>_.
             let f = (\<lambda>x. x\<lparr>pl_plan := pl_plan x @ [d]\<rparr>)
             in Inr (db\<lparr>plans := upd (is_plan p (t_input_id tr)) f (plans db)\<rparr>, f r, True))
           else Inl ErrTurnConflict))))"

text \<open>The calls of every round in order: what a claim's \<^verbatim>\<open>call_index\<close> addresses.\<close>

definition flat_calls :: "plan_row option \<Rightarrow> plan_call list" where
  "flat_calls pl = (case pl of None \<Rightarrow> [] | Some r \<Rightarrow> concat (map d_calls (pl_plan r)))"

record call_experience =
  ce_round :: nat
  ce_text :: string
  ce_call :: plan_call
  ce_index :: nat

text \<open>The loop of \<^verbatim>\<open>planPosition\<close>: \<open>n\<close> counts down over the rounds, \<open>r\<close> up.\<close>

fun plan_walk :: "nat \<Rightarrow> nat \<Rightarrow> nat \<Rightarrow> decision list \<Rightarrow> call_experience option" where
  "plan_walk idx r n [] = None"
| "plan_walk idx r n (d # ds) =
     (if n < length (d_calls d)
      then Some \<lparr>ce_round = r, ce_text = d_text d, ce_call = d_calls d ! n, ce_index = idx\<rparr>
      else plan_walk idx (Suc r) (n - length (d_calls d)) ds)"

definition planPosition :: "plan_row option \<Rightarrow> nat \<Rightarrow> call_experience option" where
  "planPosition pl idx = (case pl of None \<Rightarrow> None | Some r \<Rightarrow> plan_walk idx 0 idx (pl_plan r))"

section \<open>Lemmas\<close>

lemma check_calls_ok:
  "check_calls cs = Inr pcs \<Longrightarrow>
     list_all (\<lambda>c. pc_tool c \<noteq> [] \<and> (pc_route c = ''normal'' \<or> pc_route c = ''elevated'')) pcs"
  by (induction cs arbitrary: pcs) (auto simp: res_simps)

lemma check_decision_ok:
  "check_decision rd = Inr d \<Longrightarrow>
     list_all (\<lambda>c. pc_tool c \<noteq> [] \<and> (pc_route c = ''normal'' \<or> pc_route c = ''elevated'')) (d_calls d)"
  by (auto simp: check_decision_def res_simps Let_def dest: check_calls_ok)

lemma live_turn_ok:
  "live_turn db p t gen = Inr tr \<longleftrightarrow>
     turn_of db p t = Some tr \<and> t_generation tr = gen \<and> t_status tr = TRunning"
  by (auto simp: live_turn_def res_simps)

lemma planForInput_upd:
  assumes "\<And>x. plan_key (f x) = plan_key x"
  shows "planForInput (db\<lparr>plans := upd (is_plan p i) f (plans db)\<rparr>) q j =
    (if q = p \<and> j = i then map_option f (planForInput db p i) else planForInput db q j)"
proof -
  have "find (is_plan q j) (upd (is_plan p i) f (plans db)) =
      map_option (\<lambda>r. if is_plan p i r then f r else r) (find (is_plan q j) (plans db))"
    by (rule find_upd) (use assms in \<open>simp add: is_plan_def\<close>)
  then show ?thesis
    by (cases "find (is_plan q j) (plans db)") (auto simp: planForInput_def is_plan_def dest: find_SomeD)
qed

lemma SavePlan_cases:
  assumes "SavePlan now p t gen rnd rd db = Inr (db', r', fresh)"
  obtains (first) tr d where "turn_of db p t = Some tr" "planForInput db p (t_input_id tr) = None" "rnd = 0"
      "check_decision rd = Inr d" "storable (decision_json d)" "fresh"
      "r' = \<lparr>pl_persona_id = p, pl_input_id = t_input_id tr, pl_turn_id = t, pl_generation = gen,
             pl_plan = [d], pl_created_at = now\<rparr>" "db' = db\<lparr>plans := plans db @ [r']\<rparr>"
    | (replayed) tr d where "turn_of db p t = Some tr" "planForInput db p (t_input_id tr) = Some r'"
      "0 \<le> rnd" "nat rnd < length (pl_plan r')" "check_decision rd = Inr d" "\<not> fresh" "db' = db"
      "jsonb_eq (decision_json (pl_plan r' ! nat rnd)) (decision_json d)"
    | (appended) tr d r where "turn_of db p t = Some tr" "planForInput db p (t_input_id tr) = Some r"
      "rnd = int (length (pl_plan r))" "check_decision rd = Inr d" "storable (decision_json d)" "fresh"
      "r' = r\<lparr>pl_plan := pl_plan r @ [d]\<rparr>"
      "db' = db\<lparr>plans := upd (is_plan p (t_input_id tr)) (\<lambda>x. x\<lparr>pl_plan := pl_plan x @ [d]\<rparr>) (plans db)\<rparr>"
proof -
  from assms obtain d tr where d: "check_decision rd = Inr d" and rnd: "0 \<le> rnd"
    and g: "requireGeneration db p gen = Inr ()" and lt: "live_turn db p t gen = Inr tr"
    by (auto simp: SavePlan_def res_simps)
  from lt have tr: "turn_of db p t = Some tr" by (simp add: live_turn_ok)
  show thesis
  proof (cases "planForInput db p (t_input_id tr)")
    case None
    with assms d rnd g lt have "rnd = 0" "storable (decision_json d)" "fresh"
      "r' = \<lparr>pl_persona_id = p, pl_input_id = t_input_id tr, pl_turn_id = t, pl_generation = gen,
             pl_plan = [d], pl_created_at = now\<rparr>" "db' = db\<lparr>plans := plans db @ [r']\<rparr>"
      by (auto simp: SavePlan_def res_simps Let_def)
    with first tr None d show thesis by blast
  next
    case (Some r)
    consider "rnd < int (length (pl_plan r))" | "rnd = int (length (pl_plan r))"
      | "int (length (pl_plan r)) < rnd" by linarith
    then show thesis
    proof cases
      case 1
      with assms d rnd g lt Some have "r' = r" "\<not> fresh" "db' = db"
        "jsonb_eq (decision_json (pl_plan r ! nat rnd)) (decision_json d)" "nat rnd < length (pl_plan r)"
        by (auto simp: SavePlan_def res_simps split: if_splits)
      with replayed tr Some d rnd show thesis by blast
    next
      case 2
      with assms d rnd g lt Some have "storable (decision_json d)" "fresh" "r' = r\<lparr>pl_plan := pl_plan r @ [d]\<rparr>"
        "db' = db\<lparr>plans := upd (is_plan p (t_input_id tr)) (\<lambda>x. x\<lparr>pl_plan := pl_plan x @ [d]\<rparr>) (plans db)\<rparr>"
        by (auto simp: SavePlan_def res_simps Let_def split: if_splits)
      with appended tr Some d 2 show thesis by blast
    next
      case 3
      with assms d rnd g lt Some show thesis by (simp add: SavePlan_def)
    qed
  qed
qed

lemma plan_walk_call:
  "map_option ce_call (plan_walk idx r n ds) =
     (if n < length (concat (map d_calls ds)) then Some (concat (map d_calls ds) ! n) else None)"
proof (induction ds arbitrary: r n)
  case Nil
  then show ?case by simp
next
  case (Cons d ds)
  show ?case
  proof (cases "n < length (d_calls d)")
    case True
    then show ?thesis by (simp add: nth_append)
  next
    case False
    let ?m = "n - length (d_calls d)"
    have "n < length (concat (map d_calls (d # ds))) \<longleftrightarrow> ?m < length (concat (map d_calls ds))"
      using False by auto
    moreover have "concat (map d_calls (d # ds)) ! n = concat (map d_calls ds) ! ?m"
      using False by (simp add: nth_append)
    ultimately show ?thesis using False Cons.IH [of "Suc r" ?m] by simp
  qed
qed

lemma plan_walk_index: "plan_walk idx r n ds = Some pos \<Longrightarrow> ce_index pos = idx"
  by (induction ds arbitrary: r n) (auto split: if_splits)

lemma planPosition_index: "planPosition pl idx = Some pos \<Longrightarrow> ce_index pos = idx"
  by (auto simp: planPosition_def plan_walk_index split: option.splits)

section \<open>Properties\<close>

text \<open>
  The plan is append-only: a successful save never rewrites or drops a recorded round of any
  input. It either leaves every plan as it was (an identical resend) or adds exactly one round at
  the named position of one input's plan, and the added round is storable with every route
  checked.
\<close>

lemma save_plan_append_only:
  assumes "SavePlan now p t gen rnd rd db = Inr (db', r', fresh)"
  shows "\<exists>ext. planForInput db' p (pl_input_id r') = Some r'
     \<and> pl_plan r' = (case planForInput db p (pl_input_id r') of None \<Rightarrow> [] | Some r \<Rightarrow> pl_plan r) @ ext
     \<and> (if fresh then (\<exists>d. ext = [d] \<and> nat rnd = length (pl_plan r') - 1 \<and> check_decision rd = Inr d
                        \<and> storable (decision_json d))
        else ext = [] \<and> db' = db)
     \<and> (\<forall>q j. (q, j) \<noteq> (p, pl_input_id r') \<longrightarrow> planForInput db' q j = planForInput db q j)"
  using assms
proof (cases rule: SavePlan_cases)
  case (first tr d)
  then have other: "\<And>q j. (q, j) \<noteq> (p, t_input_id tr) \<Longrightarrow> planForInput db' q j = planForInput db q j"
    by (auto simp: planForInput_def find_append is_plan_def split: option.splits)
  have "planForInput db' p (t_input_id tr) = Some r'"
    using first by (simp add: planForInput_def find_append is_plan_def)
  with first other show ?thesis by (intro exI [of _ "[d]"]) auto
next
  case (replayed tr d)
  then have "pl_input_id r' = t_input_id tr"
    by (auto simp: planForInput_def is_plan_def dest: find_SomeD)
  with replayed show ?thesis by (intro exI [of _ "[]"]) auto
next
  case (appended tr d r)
  then have "pl_input_id r' = t_input_id tr"
    by (auto simp: planForInput_def is_plan_def dest: find_SomeD)
  with appended show ?thesis
    by (intro exI [of _ "[d]"]) (auto simp: planForInput_upd)
qed

definition demo_turn :: turn_row where
  "demo_turn = \<lparr>t_persona_id = ''p1'', t_turn_id = ''t1'', t_input_id = ''in-1'', t_generation = 4,
     t_attempt = 1, t_status = TRunning, t_started_at = 20, t_finished_at = None, t_output = None,
     t_usage = None, t_error = None, t_commit_request = None\<rparr>"

definition demo_call :: raw_call where
  "demo_call = \<lparr>rc_call_id = ''c1'', rc_tool = ''journal.note'', rc_route = ''normal'',
     rc_request = Some [(''text'', JStr ''remember'')]\<rparr>"

definition demo_decision :: raw_decision where
  "demo_decision = \<lparr>rd_text = ''noting'', rd_calls = [demo_call], rd_usage = None, rd_continuation = None\<rparr>"

definition demo_live :: "unit db" where
  "demo_live = demo_db\<lparr>turns := [demo_turn]\<rparr>"

lemmas demo_plan_defs = demo_live_def demo_turn_def demo_call_def demo_decision_def

text \<open>
  Resending a recorded round is answered from the record: in any state whose plan for the
  turn's input already holds the decision at that round, the live turn's save of it succeeds,
  reports no new round and changes nothing, while a different decision there is a conflict.
\<close>

theorem save_plan_resend:
  assumes "requireGeneration db p gen = Inr ()" and "live_turn db p t gen = Inr tr"
    and "planForInput db p (t_input_id tr) = Some r" and "k < length (pl_plan r)"
    and "check_decision rd = Inr d" and "storable (decision_json d)"
  shows "SavePlan now p t gen (int k) rd db =
     (if jsonb_eq (decision_json (pl_plan r ! k)) (decision_json d) then Inr (db, r, False)
      else Inl ErrTurnConflict)"
  using assms by (simp add: SavePlan_def)

text \<open>
  \<open>planPosition\<close> and the flattened plan name the same call: the walk that subtracts each
  round's length finds a position exactly for the indices of the concatenated call list, and the
  call it finds is the one at that index.
\<close>

lemma planPosition_flat:
  "map_option ce_call (planPosition pl i) =
     (if i < length (flat_calls pl) then Some (flat_calls pl ! i) else None)"
  by (cases pl) (simp_all add: planPosition_def flat_calls_def plan_walk_call)

end
