(* ===== verification/Core_Journal.thy ===== *)
theory Core_Journal
  imports Core_Plan
begin

text \<open>
  The persona's life log and outbox (\<^verbatim>\<open>store.go\<close>: \<^verbatim>\<open>appendEventsTx\<close>,
  \<^verbatim>\<open>ensureInputReceived\<close>, \<^verbatim>\<open>withoutJournaledInput\<close>, \<^verbatim>\<open>Events\<close>, \<^verbatim>\<open>Outbox\<close>; all of
  \<^verbatim>\<open>experience.go\<close> that runs inside a transaction). Events are numbered without gaps, the
  receipt of an input is journaled once, and an experience (a round's text, a call, its result,
  an approval request) is journaled once per input lineage.

  \<open>fmt_time\<close> stands for the host's rendering of a timestamp and \<open>sprint\<close> for \<^verbatim>\<open>fmt.Sprint\<close> of
  a decoded JSON value; both are arguments.
\<close>

section \<open>Appending\<close>

definition payload_of :: "event_input \<Rightarrow> jobj" where
  "payload_of e = or_empty (ei_payload e)"

definition last_seq :: "'d db \<Rightarrow> string \<Rightarrow> nat" where
  "last_seq db p = maxl (map e_seq (filter (\<lambda>e. e_persona_id e = p) (events db)))"

fun event_rows :: "string \<Rightarrow> string \<Rightarrow> nat \<Rightarrow> event_input list \<Rightarrow> event_row list" where
  "event_rows p t base [] = []"
| "event_rows p t base (e # es) =
     \<lparr>e_persona_id = p, e_seq = Suc base, e_turn_id = t, e_kind = ei_kind e, e_payload = payload_of e\<rparr>
       # event_rows p t (Suc base) es"

definition appendEventsTx :: "string \<Rightarrow> string \<Rightarrow> event_input list \<Rightarrow> 'd db \<Rightarrow> err + 'd db" where
  "appendEventsTx p t es db =
     (if es = [] then Inr db
      else if list_ex (\<lambda>e. ei_kind e = []) es then Inl (ErrBadRequest ''event kind required'')
      else if list_ex (\<lambda>e. ei_payload e = None) es then Inl (ErrStorage ''null value in column payload'')
      else rbind (jsonb_param (JArr (map (\<lambda>e. JObj (payload_of e)) es))) (\<lambda>_.
        Inr (db\<lparr>events := events db @ event_rows p t (last_seq db p) es\<rparr>)))"

definition out_last :: "'d db \<Rightarrow> string \<Rightarrow> nat" where
  "out_last db p = maxl (map ob_seq (filter (\<lambda>x. ob_persona_id x = p) (outbox db)))"

text \<open>\<^verbatim>\<open>INSERT INTO core_outbox .. SELECT COALESCE(MAX(seq), 0) + 1\<close>.\<close>

definition appendOutbox :: "string \<Rightarrow> string \<Rightarrow> jobj \<Rightarrow> 'd db \<Rightarrow> err + ('d db \<times> nat)" where
  "appendOutbox p kind payload db =
     rbind (jsonb_param (JObj payload)) (\<lambda>_.
       let s = Suc (out_last db p) in
       Inr (db\<lparr>outbox := outbox db @ [\<lparr>ob_persona_id = p, ob_seq = s, ob_kind = kind, ob_payload = payload,
                                     ob_delivered_at = None\<rparr>]\<rparr>, s))"

text \<open>A single event appended by a tool or a receipt.\<close>

definition appendEvent :: "string \<Rightarrow> string \<Rightarrow> string \<Rightarrow> jobj \<Rightarrow> 'd db \<Rightarrow> err + ('d db \<times> nat)" where
  "appendEvent p t kind payload db =
     rbind (jsonb_param (JObj payload)) (\<lambda>_.
       let s = Suc (last_seq db p) in
       Inr (db\<lparr>events := events db @ [\<lparr>e_persona_id = p, e_seq = s, e_turn_id = t, e_kind = kind,
                                     e_payload = payload\<rparr>]\<rparr>, s))"

section \<open>Receipts\<close>

definition strOrNil :: "string \<Rightarrow> json" where
  "strOrNil s = (if s = [] then JNull else JStr s)"

definition j_str :: "json option \<Rightarrow> json" where
  "j_str v = (case v of Some (JStr s) \<Rightarrow> JStr s | _ \<Rightarrow> JNull)"

definition j_num :: "json option \<Rightarrow> json" where
  "j_num v = (case v of Some (JNum n) \<Rightarrow> JNum n | _ \<Rightarrow> JNull)"

definition j_integer :: "json option \<Rightarrow> json" where
  "j_integer v = (case v of
     Some (JNum n) \<Rightarrow> if n = of_int \<lfloor>n\<rfloor> \<and> \<bar>n\<bar> \<le> 2 ^ 53 - 1 then JNum n else JNull
   | _ \<Rightarrow> JNull)"

definition j_list :: "json option \<Rightarrow> json" where
  "j_list v = (case v of Some (JArr a) \<Rightarrow> JArr a | _ \<Rightarrow> JNull)"

definition j_time :: "(timestamp \<Rightarrow> string) \<Rightarrow> timestamp option \<Rightarrow> json" where
  "j_time ft t = (case t of None \<Rightarrow> JNull | Some x \<Rightarrow> JStr (ft x))"

text \<open>The payload of the receipt, field for field.\<close>

definition receipt_payload :: "(timestamp \<Rightarrow> string) \<Rightarrow> 'd db \<Rightarrow> input_row \<Rightarrow> nat \<Rightarrow> jobj" where
  "receipt_payload ft db r attempt =
     (let pl = map_of (i_payload r);
          actor = map_of (or_empty (obj_field (i_payload r) ''actor''));
          place = map_of (or_empty (obj_field (i_payload r) ''place'')) in
      [(''input_id'', JStr (i_input_id r)),
       (''kind'', JStr (i_kind r)),
       (''text'', j_str (pl ''text'')),
       (''actor_kind'', JStr (i_actor_kind r)),
       (''actor_id'', strOrNil (i_actor_id r)),
       (''actor_display'', j_str (actor ''display_name'')),
       (''source_surface'', JStr (i_source_surface r)),
       (''thread_id'', strOrNil (i_thread_id r)),
       (''place_name'', j_str (place ''name'')),
       (''place_kind'', j_str (place ''kind'')),
       (''attention'', JStr (i_attention r)),
       (''occurred_at'', j_time ft (i_occurred_at r)),
       (''received_at'', JStr (ft (i_created_at r))),
       (''previous_received_at'', j_time ft (previous_receipt db r)),
       (''event_id'', j_str (pl ''event_id'')),
       (''message_id'', j_str (pl ''message_id'')),
       (''message_seq'', j_num (pl ''message_seq'')),
       (''workspace_id'', j_str (pl ''workspace_id'')),
       (''message_revision'', j_integer (pl ''message_revision'')),
       (''session_id'', j_str (pl ''session_id'')),
       (''status'', j_str (pl ''status'')),
       (''end_reason'', j_str (pl ''end_reason'')),
       (''exit_code'', j_integer (pl ''exit_code'')),
       (''exit_signal'', j_str (pl ''exit_signal'')),
       (''reason'', j_str (pl ''reason'')),
       (''message_change'', j_str (pl ''message_change'')),
       (''attachments'', j_list (pl ''attachments'')),
       (''attempt'', jnat attempt)])"

definition ensureInputReceived ::
  "(timestamp \<Rightarrow> string) \<Rightarrow> string \<Rightarrow> string \<Rightarrow> string \<Rightarrow> 'd db \<Rightarrow> err + 'd db" where
  "ensureInputReceived ft p i t db =
     rbind (require (input_of db p i) (ErrStorage ''input for journal'')) (\<lambda>r.
       if i_received_seq r \<noteq> None then Inr db
       else
         rbind (require (turn_of db p t) (ErrStorage ''no rows'')) (\<lambda>tr.
         rbind (with_dataErr (appendEvent p t ''input_received'' (receipt_payload ft db r (t_attempt tr)) db)) (\<lambda>(db1, s).
           Inr (db1\<lparr>inputs := upd (is_input p i) (\<lambda>x. x\<lparr>i_received_seq := Some s\<rparr>) (inputs db1)\<rparr>))))"

text \<open>The input a receipt names: a non-empty string, or nothing.\<close>

definition receipt_id :: "jobj \<Rightarrow> string option" where
  "receipt_id m = (case map_of m ''input_id'' of
     Some (JStr s) \<Rightarrow> if s = [] then None else Some s
   | _ \<Rightarrow> None)"

definition is_receipt :: "event_input \<Rightarrow> bool" where
  "is_receipt e \<longleftrightarrow> ei_kind e = ''input_received''"

definition named_ids :: "event_input list \<Rightarrow> string list" where
  "named_ids es = map (\<lambda>e. the (receipt_id (payload_of e))) (filter is_receipt es)"

fun drop_receipts :: "(string \<Rightarrow> bool) \<Rightarrow> string list \<Rightarrow> event_input list \<Rightarrow> event_input list" where
  "drop_receipts journaled emitted [] = []"
| "drop_receipts journaled emitted (e # es) =
     (if is_receipt e then
        let i = the (receipt_id (payload_of e)) in
        if journaled i \<or> i \<in> set emitted then drop_receipts journaled emitted es
        else e # drop_receipts journaled (i # emitted) es
      else e # drop_receipts journaled emitted es)"

definition is_received :: "'d db \<Rightarrow> string \<Rightarrow> string \<Rightarrow> bool" where
  "is_received db p i \<longleftrightarrow> (case input_of db p i of None \<Rightarrow> False | Some r \<Rightarrow> i_received_seq r \<noteq> None)"

definition withoutJournaledInput :: "'d db \<Rightarrow> string \<Rightarrow> event_input list \<Rightarrow> err + event_input list" where
  "withoutJournaledInput db p es =
     (if list_ex (\<lambda>e. is_receipt e \<and> receipt_id (payload_of e) = None) es
      then Inl (ErrBadRequest ''input_received payload.input_id must be a non-empty string'')
      else if list_ex (\<lambda>i. input_of db p i = None) (named_ids es)
      then Inl (ErrBadRequest ''input_received names absent input'')
      else Inr (drop_receipts (is_received db p) [] es))"

section \<open>Experiences\<close>

definition exp_index :: "json option \<Rightarrow> string option" where
  "exp_index v = (case v of
     Some (JNum n) \<Rightarrow> if n = of_int \<lfloor>n\<rfloor> \<and> 0 \<le> n \<and> n \<le> 2 ^ 53 then Some (itoa (nat \<lfloor>n\<rfloor>)) else None
   | _ \<Rightarrow> None)"

definition experienceKey :: "string \<Rightarrow> jobj \<Rightarrow> string option" where
  "experienceKey kind m =
     (if kind = ''assistant_message'' then map_option (\<lambda>k. kind @ '':'' @ k) (exp_index (map_of m ''round''))
      else if kind = ''tool_call'' \<or> kind = ''tool_result''
      then map_option (\<lambda>k. kind @ '':'' @ k) (exp_index (map_of m ''call_index''))
      else if kind = ''approval_requested'' then
        (case map_of m ''approval_id'' of
           Some (JStr s) \<Rightarrow> if s = [] then None else Some (kind @ '':'' @ s)
         | _ \<Rightarrow> None)
      else None)"

definition ei_key :: "event_input \<Rightarrow> string option" where
  "ei_key e = experienceKey (ei_kind e) (payload_of e)"

definition e_key :: "event_row \<Rightarrow> string option" where
  "e_key e = experienceKey (e_kind e) (e_payload e)"

text \<open>The events of the input's lineage from its receipt on.\<close>

definition lineage_events :: "'d db \<Rightarrow> string \<Rightarrow> string \<Rightarrow> event_row list" where
  "lineage_events db p i =
     (case input_of db p i of
        None \<Rightarrow> []
      | Some r \<Rightarrow> (case i_received_seq r of
          None \<Rightarrow> []
        | Some s \<Rightarrow> filter (\<lambda>e. e_persona_id e = p \<and> s \<le> e_seq e
            \<and> (case turn_of db p (e_turn_id e) of None \<Rightarrow> False | Some t \<Rightarrow> t_input_id t = i)) (events db)))"

definition journaled_keys :: "'d db \<Rightarrow> string \<Rightarrow> string \<Rightarrow> string list" where
  "journaled_keys db p i = List.map_filter e_key (filter (\<lambda>e. e_kind e \<in>
     {''assistant_message'', ''tool_call'', ''tool_result'', ''approval_requested''}) (lineage_events db p i))"

fun drop_keyed :: "string list \<Rightarrow> event_input list \<Rightarrow> event_input list" where
  "drop_keyed seen [] = []"
| "drop_keyed seen (e # es) =
     (case ei_key e of
        None \<Rightarrow> e # drop_keyed seen es
      | Some k \<Rightarrow> if k \<in> set seen then drop_keyed seen es else e # drop_keyed (k # seen) es)"

definition withoutJournaledExperience ::
  "'d db \<Rightarrow> string \<Rightarrow> string \<Rightarrow> event_input list \<Rightarrow> event_input list" where
  "withoutJournaledExperience db p i es =
     (if \<not> list_ex (\<lambda>e. ei_key e \<noteq> None) es then es
      else drop_keyed (journaled_keys db p i) es)"

definition ev :: "string \<Rightarrow> jobj \<Rightarrow> event_input" where
  "ev k m = \<lparr>ei_kind = k, ei_payload = Some m\<rparr>"

definition text_event :: "call_experience \<Rightarrow> event_input list" where
  "text_event c = (if ce_text c = [] then []
     else [ev ''assistant_message'' [(''text'', JStr (ce_text c)), (''round'', jnat (ce_round c))]])"

definition decided :: "call_experience \<Rightarrow> event_input list" where
  "decided c = text_event c @ [ev ''tool_call''
     [(''tool'', JStr (pc_tool (ce_call c))), (''call_id'', JStr (pc_call_id (ce_call c))),
      (''request'', JObj (pc_request (ce_call c))), (''route'', JStr (pc_route (ce_call c))),
      (''round'', jnat (ce_round c)), (''call_index'', jnat (ce_index c))]]"

definition receiptError :: "(json \<Rightarrow> string) \<Rightarrow> jobj \<Rightarrow> string" where
  "receiptError sprint resp = (case map_of resp ''error'' of
     None \<Rightarrow> ''operation failed''
   | Some (JStr s) \<Rightarrow> s
   | Some v \<Rightarrow> sprint v)"

definition result_event ::
  "(json \<Rightarrow> string) \<Rightarrow> call_experience \<Rightarrow> op_row \<Rightarrow> approval_row option \<Rightarrow> event_input option" where
  "result_event sprint c op a =
     (let base = [(''tool'', JStr (pc_tool (ce_call c))), (''call_id'', JStr (pc_call_id (ce_call c))),
                  (''call_index'', jnat (ce_index c))] in
      case o_status op of
        ODone \<Rightarrow> Some (ev ''tool_result'' (base @ [(''response'',
                   case o_response op of None \<Rightarrow> JNull | Some m \<Rightarrow> JObj m)]))
      | OFailed \<Rightarrow> Some (ev ''tool_result'' (base @
                   [(''error'', JStr (receiptError sprint (or_empty (o_response op))))] @
                   (if map_option a_status a = Some ADenied then [(''denied'', JBool True)] else [])))
      | _ \<Rightarrow> None)"

definition awaiting :: "call_experience \<Rightarrow> approval_row \<Rightarrow> event_input list" where
  "awaiting c a = text_event c @ [ev ''approval_requested''
     [(''tool'', JStr (pc_tool (ce_call c))), (''call_id'', JStr (pc_call_id (ce_call c))),
      (''route'', JStr (pc_route (ce_call c))), (''round'', jnat (ce_round c)),
      (''call_index'', jnat (ce_index c)), (''approval_id'', JStr (a_approval_id a)),
      (''required_by'', JStr (a_required_by a)), (''request'', JObj (pc_request (ce_call c)))]]"

definition journalExperienceTx ::
  "(timestamp \<Rightarrow> string) \<Rightarrow> string \<Rightarrow> string \<Rightarrow> string \<Rightarrow> event_input list \<Rightarrow> 'd db \<Rightarrow> err + 'd db" where
  "journalExperienceTx ft p t i es db =
     rbind (ensureInputReceived ft p i t db) (\<lambda>db1.
       appendEventsTx p t (withoutJournaledExperience db1 p i es) db1)"

definition journalOutcomeTx ::
  "(timestamp \<Rightarrow> string) \<Rightarrow> (json \<Rightarrow> string) \<Rightarrow> string \<Rightarrow> string \<Rightarrow> string \<Rightarrow> call_experience \<Rightarrow> op_row
     \<Rightarrow> approval_row option \<Rightarrow> 'd db \<Rightarrow> err + 'd db" where
  "journalOutcomeTx ft sprint p t i c op a db =
     (case result_event sprint c op a of
        None \<Rightarrow> Inr db
      | Some e \<Rightarrow> journalExperienceTx ft p t i (decided c @ [e]) db)"

text \<open>
  A claim the Core is told about with its text (HTTP 400), and that text. \<open>errorText\<close> is
  \<^verbatim>\<open>err.Error()\<close> of the errors a rejected claim and a terminal tool have.
\<close>

definition claimRejected :: "err \<Rightarrow> bool" where
  "claimRejected e = (case e of ErrBadRequest _ \<Rightarrow> True | ErrUnknownTool _ \<Rightarrow> True | ErrData _ \<Rightarrow> True | _ \<Rightarrow> False)"

definition errorText :: "err \<Rightarrow> string" where
  "errorText e = (case e of
     ErrBadRequest m \<Rightarrow> ''bad request: '' @ m
   | ErrUnknownTool m \<Rightarrow> ''unknown tool: '' @ m
   | ErrData m \<Rightarrow> m
   | ErrTerminalNotFound \<Rightarrow> ''terminal session not found''
   | ErrTerminalEnded \<Rightarrow> ''terminal session has ended''
   | ErrTerminalNotLive \<Rightarrow> ''terminal session has no live claim''
   | ErrTerminalControl \<Rightarrow> ''terminal session is under exclusive human control''
   | ErrTerminalCapacity \<Rightarrow> ''terminal session capacity exhausted''
   | _ \<Rightarrow> [])"

definition journalRejectedClaim ::
  "(timestamp \<Rightarrow> string) \<Rightarrow> string \<Rightarrow> string \<Rightarrow> int \<Rightarrow> int \<Rightarrow> string \<Rightarrow> jobj option \<Rightarrow> err \<Rightarrow> 'd db
     \<Rightarrow> err + ('d db \<times> unit)" where
  "journalRejectedClaim ft p t gen idx tool req cause db =
     rbind (requireGeneration db p gen) (\<lambda>_.
       case turn_of db p t of
         None \<Rightarrow> Inr (db, ())
       | Some tr \<Rightarrow>
           if t_generation tr \<noteq> gen \<or> t_status tr \<noteq> TRunning then Inr (db, ())
           else if idx < 0 then Inr (db, ())
           else case planPosition (planForInput db p (t_input_id tr)) (nat idx) of
             None \<Rightarrow> Inr (db, ())
           | Some pos \<Rightarrow>
               if pc_tool (ce_call pos) \<noteq> tool \<or> \<not> jsonb_eq (JObj (pc_request (ce_call pos))) (JObj (or_empty req))
               then Inr (db, ())
               else rbind (journalExperienceTx ft p t (t_input_id tr) (decided pos @ [ev ''tool_result''
                      [(''tool'', JStr tool), (''call_id'', JStr (pc_call_id (ce_call pos))),
                       (''call_index'', jint idx), (''error'', JStr (strip_NUL (errorText cause)))]]) db)
                    (\<lambda>db'. Inr (db', ())))"

text \<open>\<^verbatim>\<open>operationCallIndex\<close>: the digits after the last \<^verbatim>\<open>:tool:\<close> of the key.\<close>

fun after_last :: "string \<Rightarrow> string \<Rightarrow> string option" where
  "after_last sep [] = None"
| "after_last sep (c # cs) =
     (case after_last sep cs of
        Some r \<Rightarrow> Some r
      | None \<Rightarrow> if has_prefix (c # cs) sep then Some (drop (length sep) (c # cs)) else None)"

definition digits_value :: "string \<Rightarrow> nat option" where
  "digits_value s = (if s = [] then None
     else case atoi_acc 0 s of None \<Rightarrow> None | Some n \<Rightarrow> if int n \<le> MaxInt64 then Some n else None)"

text \<open>\<^verbatim>\<open>strconv.Atoi\<close> with the result \<^verbatim>\<open>n >= 0\<close> asked for.\<close>

definition atoi_nonneg :: "string \<Rightarrow> nat option" where
  "atoi_nonneg s = (case s of
     [] \<Rightarrow> None
   | c # ds \<Rightarrow> if c = CHR ''+'' then digits_value ds
              else if c = CHR ''-'' then (if digits_value ds = Some 0 then Some 0 else None)
              else digits_value s)"

definition operationCallIndex :: "string \<Rightarrow> nat option" where
  "operationCallIndex k = (case after_last '':tool:'' k of None \<Rightarrow> None | Some s \<Rightarrow> atoi_nonneg s)"

definition journalCompletedTx ::
  "(timestamp \<Rightarrow> string) \<Rightarrow> (json \<Rightarrow> string) \<Rightarrow> string \<Rightarrow> op_row \<Rightarrow> 'd db \<Rightarrow> err + 'd db" where
  "journalCompletedTx ft sprint p op db =
     (case operationCallIndex (o_idempotency_key op) of
        None \<Rightarrow> Inr db
      | Some n \<Rightarrow>
          (case turn_of db p (o_turn_id op) of
             None \<Rightarrow> Inr db
           | Some t \<Rightarrow>
               (case planPosition (planForInput db p (t_input_id t)) n of
                  None \<Rightarrow> Inr db
                | Some pos \<Rightarrow>
                    if pc_tool (ce_call pos) \<noteq> o_tool op then Inr db
                    else journalOutcomeTx ft sprint p (o_turn_id op) (t_input_id t) pos op None db)))"

text \<open>Whether the interrupted turn journaled anything from its input's receipt on.\<close>

definition markInterruptedTx :: "string \<Rightarrow> string \<Rightarrow> string \<Rightarrow> 'd db \<Rightarrow> err + 'd db" where
  "markInterruptedTx p t i db =
     (if (case input_of db p i of
            None \<Rightarrow> False
          | Some r \<Rightarrow> (case i_received_seq r of
              None \<Rightarrow> False
            | Some s \<Rightarrow> list_ex (\<lambda>e. e_persona_id e = p \<and> s \<le> e_seq e \<and> e_turn_id e = t) (events db)))
      then appendEventsTx p t [ev ''turn_paused'' [(''reason'', JStr ''interrupted'')]] db
      else Inr db)"

text \<open>Reading pages of the log and of the outbox.\<close>

definition clampLimit :: "int \<Rightarrow> int \<Rightarrow> int \<Rightarrow> int" where
  "clampLimit v def mx = (if v \<le> 0 then def else if v > mx then mx else v)"

definition Events :: "'d db \<Rightarrow> string \<Rightarrow> nat \<Rightarrow> int \<Rightarrow> event_row list" where
  "Events db p after limit = take (nat (clampLimit limit 200 1000))
     (sort_key e_seq (filter (\<lambda>e. e_persona_id e = p \<and> after < e_seq e) (events db)))"

definition Outbox :: "'d db \<Rightarrow> string \<Rightarrow> nat \<Rightarrow> int \<Rightarrow> outbox_row list" where
  "Outbox db p after limit = take (nat (clampLimit limit 200 1000))
     (sort_key ob_seq (filter (\<lambda>x. ob_persona_id x = p \<and> after < ob_seq x) (outbox db)))"

text \<open>
  \<^verbatim>\<open>CommitTurn\<close>'s link of the receipts it journaled to their inputs' markers:
  \<^verbatim>\<open>MIN(seq) .. WHERE seq > base AND kind = 'input_received' GROUP BY input_id\<close>.
\<close>

fun minl :: "nat list \<Rightarrow> nat option" where
  "minl [] = None"
| "minl (x # xs) = (case minl xs of None \<Rightarrow> Some x | Some m \<Rightarrow> Some (min x m))"

definition names_input :: "string \<Rightarrow> event_row \<Rightarrow> bool" where
  "names_input i e \<longleftrightarrow> map_of (e_payload e) ''input_id'' = Some (JStr i)"

definition new_receipt :: "'d db \<Rightarrow> string \<Rightarrow> nat \<Rightarrow> string \<Rightarrow> nat option" where
  "new_receipt db p base i = minl (map e_seq (filter (\<lambda>e. e_persona_id e = p \<and> base < e_seq e
     \<and> e_kind e = ''input_received'' \<and> names_input i e) (events db)))"

definition linkReceipts :: "string \<Rightarrow> nat \<Rightarrow> 'd db \<Rightarrow> 'd db" where
  "linkReceipts p base db = db\<lparr>inputs := upd
     (\<lambda>r. i_persona_id r = p \<and> i_received_seq r = None \<and> new_receipt db p base (i_input_id r) \<noteq> None)
     (\<lambda>r. r\<lparr>i_received_seq := new_receipt db p base (i_input_id r)\<rparr>) (inputs db)\<rparr>"

text \<open>
  The journaling of a turn's commit: receipts checked and deduplicated, experiences of the same
  input dropped when already there, the rest appended, the new receipts linked.
\<close>

definition journalCommit :: "string \<Rightarrow> string \<Rightarrow> string \<Rightarrow> event_input list \<Rightarrow> 'd db \<Rightarrow> err + 'd db" where
  "journalCommit p t i es db =
     rbind (withoutJournaledInput db p es) (\<lambda>es1.
       let es2 = withoutJournaledExperience db p i es1; base = last_seq db p in
       rbind (with_dataErr (appendEventsTx p t es2 db)) (\<lambda>db1. Inr (linkReceipts p base db1)))"

section \<open>Numbering\<close>

definition gapless :: "'d db \<Rightarrow> string \<Rightarrow> bool" where
  "gapless db p \<longleftrightarrow> map e_seq (filter (\<lambda>e. e_persona_id e = p) (events db)) =
     [1..<Suc (length (filter (\<lambda>e. e_persona_id e = p) (events db)))]"

definition out_gapless :: "'d db \<Rightarrow> string \<Rightarrow> bool" where
  "out_gapless db p \<longleftrightarrow> map ob_seq (filter (\<lambda>x. ob_persona_id x = p) (outbox db)) =
     [1..<Suc (length (filter (\<lambda>x. ob_persona_id x = p) (outbox db)))]"

lemma gapless_last_seq: "gapless db p \<Longrightarrow> last_seq db p = length (filter (\<lambda>e. e_persona_id e = p) (events db))"
  by (simp add: gapless_def last_seq_def maxl_upto del: upt_Suc)

lemma event_rows_seq: "map e_seq (event_rows p t b es) = [Suc b..<Suc b + length es]"
  by (induction es arbitrary: b) (simp_all add: upt_conv_Cons del: upt_Suc)

lemma event_rows_persona: "e \<in> set (event_rows p t b es) \<Longrightarrow> e_persona_id e = p \<and> e_turn_id e = t \<and> b < e_seq e"
  by (induction es arbitrary: b) fastforce+

lemma event_rows_keys: "map e_key (event_rows p t b es) = map ei_key es"
  by (induction es arbitrary: b) (simp_all add: e_key_def ei_key_def)

lemma filter_event_rows [simp]:
  "filter (\<lambda>e. e_persona_id e = q) (event_rows p t b es) = (if q = p then event_rows p t b es else [])"
  by (induction es arbitrary: b) auto

lemma length_event_rows [simp]: "length (event_rows p t b es) = length es"
  by (induction es arbitrary: b) auto

lemma appendEventsTx_ok:
  assumes "appendEventsTx p t es db = Inr db'"
  shows "db' = db\<lparr>events := events db @ event_rows p t (last_seq db p) es\<rparr>"
    "list_all (\<lambda>e. ei_kind e \<noteq> [] \<and> ei_payload e \<noteq> None \<and> storable (JObj (payload_of e))) es"
  using assms
  by (auto simp: appendEventsTx_def res_simps list_ex_iff list_all_iff split: if_splits)

text \<open>What an appended event must have.\<close>

definition valid_event :: "event_input \<Rightarrow> bool" where
  "valid_event e \<longleftrightarrow> ei_kind e \<noteq> [] \<and> ei_payload e \<noteq> None \<and> storable (JObj (payload_of e))"

lemma appendEventsTx_total:
  "\<forall>e \<in> set es. valid_event e \<Longrightarrow>
   appendEventsTx p t es db = Inr (db\<lparr>events := events db @ event_rows p t (last_seq db p) es\<rparr>)"
  by (auto simp: appendEventsTx_def valid_event_def list_ex_iff list_all_iff)

lemma gapless_append:
  assumes "gapless db p"
  shows "gapless (db\<lparr>events := events db @ event_rows p t (last_seq db p) es\<rparr>) p"
proof -
  let ?n = "length (filter (\<lambda>e. e_persona_id e = p) (events db))"
  have "[1..<Suc ?n] @ [Suc ?n..<Suc ?n + length es] = [1..<Suc (?n + length es)]"
    using upt_add_eq_append [of 1 "Suc ?n" "length es"] by simp
  then show ?thesis
    using assms by (simp add: gapless_def gapless_last_seq event_rows_seq del: upt_Suc)
qed

lemma gapless_other: "q \<noteq> p \<Longrightarrow> gapless (db\<lparr>events := events db @ event_rows p t b es\<rparr>) q = gapless db q"
  by (simp add: gapless_def)

lemma appendEventsTx_gapless: "appendEventsTx p t es db = Inr db' \<Longrightarrow> gapless db q \<Longrightarrow> gapless db' q"
  by (cases "q = p") (auto dest!: appendEventsTx_ok(1) intro: gapless_append simp: gapless_other)

lemma appendEvent_as_rows:
  assumes "appendEvent p t k m db = Inr (db', s)"
  shows "db' = db\<lparr>events := events db @ event_rows p t (last_seq db p) [ev k m]\<rparr>" "s = Suc (last_seq db p)"
  using assms by (auto simp: appendEvent_def res_simps Let_def ev_def payload_of_def or_empty_def)

lemma appendEvent_gapless: "appendEvent p t k m db = Inr (db', s) \<Longrightarrow> gapless db q \<Longrightarrow> gapless db' q"
  by (cases "q = p") (auto dest!: appendEvent_as_rows(1) intro: gapless_append simp: gapless_other
      simp del: event_rows.simps)

lemma gapless_seq_inj:
  assumes "gapless db p" "e \<in> set (events db)" "e' \<in> set (events db)" "e_persona_id e = p" "e_persona_id e' = p"
    "e_seq e = e_seq e'"
  shows "e = e'"
proof -
  let ?es = "filter (\<lambda>e. e_persona_id e = p) (events db)"
  have "distinct (map e_seq ?es)" using assms(1) by (simp add: gapless_def del: upt_Suc)
  with assms show ?thesis by (auto simp: distinct_map dest: inj_onD)
qed

lemma gapless_bound:
  assumes "gapless db p" "e \<in> set (events db)" "e_persona_id e = p"
  shows "e_seq e \<le> last_seq db p"
  using assms by (auto simp: last_seq_def intro!: maxl_ge)

section \<open>Experiences are journaled once\<close>

lemma map_filter_append [simp]: "List.map_filter f (xs @ ys) = List.map_filter f xs @ List.map_filter f ys"
  by (simp add: List.map_filter_def)

lemma set_map_filter: "set (List.map_filter f xs) = {y. \<exists>x \<in> set xs. f x = Some y}"
  by (force simp: List.map_filter_def)

lemma map_filter_cong_map:
  fixes f :: "'x \<Rightarrow> 'y option" and g :: "'z \<Rightarrow> 'y option"
  shows "map f xs = map g ys \<Longrightarrow> List.map_filter f xs = List.map_filter g ys"
proof -
  have "List.map_filter h zs = map the (filter (\<lambda>x. x \<noteq> None) (map h zs))" for h :: "'x \<Rightarrow> 'y option" and zs
    by (simp add: List.map_filter_def filter_map o_def)
  moreover have "List.map_filter h zs = map the (filter (\<lambda>x. x \<noteq> None) (map h zs))" for h :: "'z \<Rightarrow> 'y option" and zs
    by (simp add: List.map_filter_def filter_map o_def)
  ultimately show "map f xs = map g ys \<Longrightarrow> List.map_filter f xs = List.map_filter g ys" by metis
qed

lemma drop_keyed_keys:
  "distinct (List.map_filter ei_key (drop_keyed seen es)) \<and>
   set (List.map_filter ei_key (drop_keyed seen es)) = set (List.map_filter ei_key es) - set seen"
proof (induction es arbitrary: seen)
  case Nil
  then show ?case by simp
next
  case (Cons e es)
  show ?case
  proof (cases "ei_key e")
    case None
    with Cons.IH [of seen] show ?thesis by simp
  next
    case (Some k)
    show ?thesis
    proof (cases "k \<in> set seen")
      case True
      with Some Cons.IH [of seen] show ?thesis by auto
    next
      case False
      with Some Cons.IH [of "k # seen"] show ?thesis by auto
    qed
  qed
qed

lemma withoutJournaledExperience_drop:
  "withoutJournaledExperience db p i es = drop_keyed (journaled_keys db p i) es"
proof -
  have "\<not> list_ex (\<lambda>e. ei_key e \<noteq> None) es \<Longrightarrow> drop_keyed seen es = es" for seen
    by (induction es) auto
  then show ?thesis by (simp add: withoutJournaledExperience_def)
qed

lemma journaled_keys_eq: "journaled_keys db p i = List.map_filter e_key (lineage_events db p i)"
proof -
  have "e_key e \<noteq> None \<Longrightarrow> e_kind e \<in> {''assistant_message'', ''tool_call'', ''tool_result'', ''approval_requested''}" for e
    by (auto simp: e_key_def experienceKey_def split: if_splits)
  then have "List.map_filter e_key (filter (\<lambda>e. e_kind e \<in>
      {''assistant_message'', ''tool_call'', ''tool_result'', ''approval_requested''}) xs) = List.map_filter e_key xs" for xs
    by (induction xs) (auto split: option.splits)
  then show ?thesis by (simp add: journaled_keys_def)
qed

lemma lineage_append:
  assumes "input_of db p i = Some r" "i_received_seq r = Some s" "s \<le> Suc (last_seq db p)"
    "turn_of db p t = Some tr" "t_input_id tr = i"
  shows "lineage_events (db\<lparr>events := events db @ event_rows p t (last_seq db p) es\<rparr>) p i =
         lineage_events db p i @ event_rows p t (last_seq db p) es"
proof -
  have "filter (\<lambda>e. e_persona_id e = p \<and> s \<le> e_seq e \<and>
      (case turn_of db p (e_turn_id e) of None \<Rightarrow> False | Some t \<Rightarrow> t_input_id t = i))
      (event_rows p t b es) = event_rows p t b es" if "s \<le> Suc b" for b es
    using that assms(4,5) by (induction es arbitrary: b) auto
  with assms show ?thesis by (simp add: lineage_events_def input_of_def turn_of_def)
qed

lemma ensureInputReceived_cases:
  assumes "ensureInputReceived ft p i t db = Inr db'"
  obtains (already) r where "input_of db p i = Some r" "i_received_seq r \<noteq> None" "db' = db"
    | (journaled) r tr m where "input_of db p i = Some r" "i_received_seq r = None" "turn_of db p t = Some tr"
      "m = receipt_payload ft db r (t_attempt tr)"
      "db' = db\<lparr>events := events db @ event_rows p t (last_seq db p) [ev ''input_received'' m],
                inputs := upd (is_input p i) (\<lambda>x. x\<lparr>i_received_seq := Some (Suc (last_seq db p))\<rparr>) (inputs db)\<rparr>"
proof -
  from assms obtain r where r: "input_of db p i = Some r"
    by (auto simp: ensureInputReceived_def res_simps)
  show thesis
  proof (cases "i_received_seq r")
    case None
    with assms r obtain tr db1 s where tr: "turn_of db p t = Some tr"
      and a: "appendEvent p t ''input_received'' (receipt_payload ft db r (t_attempt tr)) db = Inr (db1, s)"
      and d: "db' = db1\<lparr>inputs := upd (is_input p i) (\<lambda>x. x\<lparr>i_received_seq := Some s\<rparr>) (inputs db1)\<rparr>"
      by (auto simp: ensureInputReceived_def res_simps)
    show thesis
      by (rule journaled [OF r None tr refl])
         (use d appendEvent_as_rows [OF a] in \<open>simp del: event_rows.simps\<close>)
  next
    case Some
    with assms r show thesis by (intro already [OF r]) (auto simp: ensureInputReceived_def)
  qed
qed

lemma input_of_upd:
  assumes "\<And>x. input_key (f x) = input_key x"
  shows "find (is_input q j) (upd (is_input p i) f rs) =
    (if q = p \<and> j = i then map_option f (find (is_input p i) rs) else find (is_input q j) rs)"
proof -
  have "find (is_input q j) (upd (is_input p i) f rs) =
      map_option (\<lambda>r. if is_input p i r then f r else r) (find (is_input q j) rs)"
    by (rule find_upd) (use assms in \<open>simp add: is_input_def\<close>)
  then show ?thesis
    by (cases "find (is_input q j) rs") (auto simp: is_input_def dest: find_SomeD)
qed

text \<open>After the receipt is ensured, the input is marked and the lineage starts inside the log.\<close>

definition received_ok :: "'d db \<Rightarrow> string \<Rightarrow> string \<Rightarrow> bool" where
  "received_ok db p i \<longleftrightarrow> (\<forall>r s. input_of db p i = Some r \<longrightarrow> i_received_seq r = Some s \<longrightarrow> s \<le> last_seq db p)"

lemma last_seq_append: "last_seq (db\<lparr>events := events db @ event_rows p t (last_seq db p) es\<rparr>) p = last_seq db p + length es"
proof -
  have "maxl [Suc b..<Suc b + length es] = (if es = [] then 0 else b + length es)" for b
    by (induction es rule: rev_induct) auto
  then show ?thesis by (simp add: last_seq_def event_rows_seq del: upt_Suc)
qed

lemma ensureInputReceived_ok:
  assumes "ensureInputReceived ft p i t db = Inr db'" "received_ok db p i"
  shows "turns db' = turns db \<and> (\<exists>r s. input_of db' p i = Some r \<and> i_received_seq r = Some s \<and> s \<le> last_seq db' p)"
  using assms(1)
proof (cases rule: ensureInputReceived_cases)
  case (already r)
  with assms(2) show ?thesis by (auto simp: received_ok_def)
next
  case (journaled r tr m)
  have "last_seq db' p = Suc (last_seq db p)"
    using last_seq_append [of db p t "[ev ''input_received'' m]"] journaled(5) by (simp add: last_seq_def)
  with journaled show ?thesis by (auto simp: input_of_def input_of_upd)
qed

lemma lineage_after_receipt:
  assumes "ensureInputReceived ft p i t db = Inr db'" "received_ok db p i"
  shows "journaled_keys db' p i = journaled_keys db p i"
  using assms(1)
proof (cases rule: ensureInputReceived_cases)
  case (journaled r tr m)
  have old: "journaled_keys db p i = []" using journaled by (simp add: journaled_keys_eq lineage_events_def)
  have "e_key e = None" if "e \<in> set (events db')" "e_persona_id e = p" "Suc (last_seq db p) \<le> e_seq e" for e
  proof -
    have "e \<in> set (events db) \<Longrightarrow> e_seq e \<le> last_seq db p"
      using that(2) by (auto simp: last_seq_def intro!: maxl_ge)
    moreover have "e \<in> set (events db) \<or> e \<in> set (event_rows p t (last_seq db p) [ev ''input_received'' m])"
      using that(1) journaled(5) by (simp del: event_rows.simps)
    moreover have "e \<in> set (event_rows p t b [ev ''input_received'' m]) \<Longrightarrow> e_kind e = ''input_received''" for b
      by (simp add: ev_def)
    ultimately show ?thesis using that(3) by (auto simp: e_key_def experienceKey_def)
  qed
  moreover have "e \<in> set (events db') \<and> e_persona_id e = p \<and> Suc (last_seq db p) \<le> e_seq e"
    if "e \<in> set (lineage_events db' p i)" for e
  proof -
    have "input_of db' p i = Some (r\<lparr>i_received_seq := Some (Suc (last_seq db p))\<rparr>)"
      using journaled(1,5) by (simp add: input_of_def input_of_upd)
    with that show ?thesis by (simp add: lineage_events_def)
  qed
  ultimately have "journaled_keys db' p i = []"
    by (simp add: journaled_keys_eq List.map_filter_def filter_empty_conv)
  with old show ?thesis by simp
qed simp

section \<open>Receipts are journaled once\<close>

definition is_receipt_row :: "event_row \<Rightarrow> bool" where
  "is_receipt_row e \<longleftrightarrow> e_kind e = ''input_received''"

text \<open>Every receipt in the log is the one its input's marker points at, and back.\<close>

definition receipts_ok :: "'d db \<Rightarrow> string \<Rightarrow> bool" where
  "receipts_ok db p \<longleftrightarrow>
     (\<forall>e \<in> set (events db). e_persona_id e = p \<and> is_receipt_row e \<longrightarrow>
        (\<exists>i r. names_input i e \<and> input_of db p i = Some r \<and> i_received_seq r = Some (e_seq e)))
   \<and> (\<forall>i r s. input_of db p i = Some r \<longrightarrow> i_received_seq r = Some s \<longrightarrow>
        (\<exists>e \<in> set (events db). e_persona_id e = p \<and> e_seq e = s \<and> is_receipt_row e \<and> names_input i e))"

lemma receipts_ok_unique:
  assumes "receipts_ok db p" "gapless db p" "e \<in> set (events db)" "e' \<in> set (events db)"
    "e_persona_id e = p" "e_persona_id e' = p" "is_receipt_row e" "is_receipt_row e'"
    "names_input i e" "names_input i e'"
  shows "e = e'"
proof -
  have "\<exists>r. input_of db p i = Some r \<and> i_received_seq r = Some (e_seq x)"
    if "x \<in> set (events db)" "e_persona_id x = p" "is_receipt_row x" "names_input i x" for x
    using assms(1) that by (fastforce simp: receipts_ok_def names_input_def)
  then have "e_seq e = e_seq e'" using assms by (metis option.inject)
  then show ?thesis using assms gapless_seq_inj by blast
qed

abbreviation rid :: "event_input \<Rightarrow> string" where
  "rid e \<equiv> the (receipt_id (payload_of e))"

lemma drop_receipts_ids:
  "distinct (map rid (filter is_receipt (drop_receipts J em es))) \<and>
   (\<forall>e \<in> set (drop_receipts J em es). e \<in> set es \<and> (is_receipt e \<longrightarrow> \<not> J (rid e) \<and> rid e \<notin> set em))"
proof (induction es arbitrary: em)
  case Nil
  then show ?case by simp
next
  case (Cons e es)
  show ?case
  proof (cases "is_receipt e \<and> \<not> J (rid e) \<and> rid e \<notin> set em")
    case True
    with Cons.IH [of "rid e # em"] show ?thesis by (auto simp: Let_def)
  next
    case False
    with Cons.IH [of em] show ?thesis by (auto simp: Let_def)
  qed
qed

lemma receipt_no_key: "is_receipt e \<Longrightarrow> ei_key e = None"
  by (simp add: is_receipt_def ei_key_def experienceKey_def)

lemma drop_keyed_receipts: "filter is_receipt (drop_keyed seen es) = filter is_receipt es"
  by (induction es arbitrary: seen) (auto split: option.splits simp: receipt_no_key)

lemma drop_keyed_subset: "e \<in> set (drop_keyed seen es) \<Longrightarrow> e \<in> set es"
  by (induction es arbitrary: seen) (auto split: option.splits if_splits)

lemma drop_keyed_valid: "\<forall>e \<in> set es. valid_event e \<Longrightarrow> \<forall>e \<in> set (drop_keyed seen es). valid_event e"
  using drop_keyed_subset by blast

lemma journalExperienceTx_total:
  assumes "ensureInputReceived ft p i t db = Inr db1" "\<forall>e \<in> set es. valid_event e"
  shows "\<exists>db'. journalExperienceTx ft p t i es db = Inr db'"
  using assms(1) appendEventsTx_total [OF drop_keyed_valid [OF assms(2)], of p t "journaled_keys db1 p i" db1]
  by (simp add: journalExperienceTx_def withoutJournaledExperience_drop)

lemma receipt_rows:
  "filter is_receipt_row (event_rows p t b es) = filter is_receipt_row (event_rows p t b es) \<and>
   map (\<lambda>e. the (receipt_id (e_payload e))) (filter is_receipt_row (event_rows p t b es)) = map rid (filter is_receipt es)"
  by (induction es arbitrary: b) (auto simp: is_receipt_def is_receipt_row_def)

lemma event_rows_from: "e \<in> set (event_rows p t b es) \<Longrightarrow> \<exists>x \<in> set es. e_kind e = ei_kind x \<and> e_payload e = payload_of x"
  by (induction es arbitrary: b) auto

lemma minl_None: "minl xs = None \<longleftrightarrow> xs = []"
  by (cases xs) (auto split: option.splits)

lemma minl_in: "minl xs = Some m \<Longrightarrow> m \<in> set xs"
  by (induction xs arbitrary: m) (auto split: option.splits if_splits simp: min_def)

lemma receipt_id_names: "receipt_id m = Some i \<Longrightarrow> map_of m ''input_id'' = Some (JStr i)"
  by (auto simp: receipt_id_def split: option.splits json.splits if_splits)

lemma linkReceipts_input_of:
  "input_of (linkReceipts p base db) q i =
     map_option (\<lambda>r. if q = p \<and> i_received_seq r = None \<and> new_receipt db p base i \<noteq> None
                     then r\<lparr>i_received_seq := new_receipt db p base i\<rparr> else r) (input_of db q i)"
proof -
  let ?P = "\<lambda>r. i_persona_id r = p \<and> i_received_seq r = None \<and> new_receipt db p base (i_input_id r) \<noteq> None"
  let ?f = "\<lambda>r. r\<lparr>i_received_seq := new_receipt db p base (i_input_id r)\<rparr>"
  have f: "find (is_input q i) (upd ?P ?f (inputs db)) =
      map_option (\<lambda>r. if ?P r then ?f r else r) (find (is_input q i) (inputs db))"
    by (rule find_upd) (simp add: is_input_def)
  show ?thesis
  proof (cases "find (is_input q i) (inputs db)")
    case None
    with f show ?thesis by (simp add: input_of_def linkReceipts_def)
  next
    case (Some r)
    then have "i_persona_id r = q" "i_input_id r = i" by (auto simp: is_input_def dest!: find_SomeD)
    with f Some show ?thesis by (simp add: input_of_def linkReceipts_def)
  qed
qed

lemma linkReceipts_events [simp]: "events (linkReceipts p base db) = events db"
  by (simp add: linkReceipts_def)

lemma gapless_events: "events db' = events db \<Longrightarrow> gapless db' p = gapless db p"
  by (simp add: gapless_def)

lemma journalCommit_ok:
  assumes "journalCommit p t i es db = Inr db'"
  shows "\<exists>es2 db1. appendEventsTx p t es2 db = Inr db1 \<and> db' = linkReceipts p (last_seq db p) db1
    \<and> es2 = drop_keyed (journaled_keys db p i) (drop_receipts (is_received db p) [] es)
    \<and> (\<forall>e \<in> set es. is_receipt e \<longrightarrow> receipt_id (payload_of e) \<noteq> None \<and> input_of db p (rid e) \<noteq> None)"
proof -
  from assms obtain es1 db1 where w: "withoutJournaledInput db p es = Inr es1"
    and a: "appendEventsTx p t (drop_keyed (journaled_keys db p i) es1) db = Inr db1"
    and d: "db' = linkReceipts p (last_seq db p) db1"
    by (auto simp: journalCommit_def res_simps Let_def withoutJournaledExperience_drop)
  from w have "es1 = drop_receipts (is_received db p) [] es"
    and "\<forall>e \<in> set es. is_receipt e \<longrightarrow> receipt_id (payload_of e) \<noteq> None \<and> input_of db p (rid e) \<noteq> None"
    by (simp_all add: withoutJournaledInput_def named_ids_def list_ex_iff split: if_splits)
  with a d show ?thesis by blast
qed

lemma journalCommit_gapless:
  assumes "journalCommit p t i es db = Inr db'" "gapless db q"
  shows "gapless db' q"
proof -
  from journalCommit_ok [OF assms(1)] obtain es2 db1 where
    "appendEventsTx p t es2 db = Inr db1" "db' = linkReceipts p (last_seq db p) db1" by blast
  moreover from this have "gapless db1 q" using assms(2) appendEventsTx_gapless by blast
  ultimately show ?thesis by (simp add: gapless_def)
qed

lemma new_receipt_rows:
  assumes a: "appendEventsTx p t es2 db = Inr db1" and g: "gapless db p"
    and ids: "distinct (map rid (filter is_receipt es2))"
    and named: "\<forall>e \<in> set es2. is_receipt e \<longrightarrow> receipt_id (payload_of e) \<noteq> None"
    and e: "e \<in> set (event_rows p t (last_seq db p) es2)" "is_receipt_row e" "names_input j e"
  shows "new_receipt db1 p (last_seq db p) j = Some (e_seq e)"
proof -
  let ?rows = "event_rows p t (last_seq db p) es2"
  let ?es = "filter (\<lambda>e. e_persona_id e = p \<and> last_seq db p < e_seq e
     \<and> e_kind e = ''input_received'' \<and> names_input j e) (events db1)"
  have ev1: "events db1 = events db @ ?rows" using appendEventsTx_ok(1) [OF a] by simp
  have rec: "receipt_id (e_payload x) = Some j" if x: "x \<in> set ?rows" "is_receipt_row x" "names_input j x" for x
  proof -
    obtain y where "y \<in> set es2" "e_kind x = ei_kind y" "e_payload x = payload_of y"
      using event_rows_from [OF x(1)] by blast
    with x named show ?thesis
      by (auto simp: is_receipt_def is_receipt_row_def names_input_def receipt_id_def split: if_splits)
  qed
  have inj: "inj_on (\<lambda>e. the (receipt_id (e_payload e))) (set (filter is_receipt_row ?rows))"
    using ids receipt_rows [of p t "last_seq db p" es2] by (metis distinct_map)
  have same: "x = e" if "x \<in> set ?rows" "is_receipt_row x" "names_input j x" for x
    by (rule inj_onD [OF inj]) (use rec [OF that] rec [OF e] that e in simp_all)
  have "x = e" if "x \<in> set ?es" for x
  proof -
    have "x \<notin> set (events db)" using that gapless_bound [OF g] by fastforce
    with that ev1 show ?thesis by (auto simp: is_receipt_row_def intro: same)
  qed
  then have "\<forall>m \<in> set (map e_seq ?es). m = e_seq e" by auto
  moreover have "e \<in> set ?es"
    using e ev1 event_rows_persona [OF e(1)] by (auto simp: is_receipt_row_def)
  ultimately show ?thesis
    unfolding new_receipt_def
    by (metis (no_types, lifting) minl_None minl_in not_None_eq list.map_disc_iff empty_iff empty_set)
qed

lemma ensureInputReceived_receipts:
  assumes "ensureInputReceived ft p i t db = Inr db'" "receipts_ok db p" "gapless db p"
  shows "receipts_ok db' p"
  using assms(1)
proof (cases rule: ensureInputReceived_cases)
  case (already r)
  with assms(2) show ?thesis by simp
next
  case (journaled r tr m)
  let ?n = "Suc (last_seq db p)"
  let ?row = "\<lparr>e_persona_id = p, e_seq = ?n, e_turn_id = t, e_kind = ''input_received'', e_payload = m\<rparr>"
  have ev': "events db' = events db @ [?row]" using journaled(5) by (simp add: ev_def payload_of_def or_empty_def)
  have io: "input_of db' q j = (if q = p \<and> j = i then Some (r\<lparr>i_received_seq := Some ?n\<rparr>) else input_of db q j)" for q j
    using journaled(1,5) by (simp add: input_of_def input_of_upd)
  have "i_input_id r = i" using journaled(1) by (auto simp: input_of_def is_input_def dest: find_SomeD)
  then have nm: "names_input i ?row" using journaled(4) by (simp add: names_input_def receipt_payload_def Let_def)
  have old: "\<exists>j r'. names_input j e \<and> input_of db' p j = Some r' \<and> i_received_seq r' = Some (e_seq e)"
    if e: "e \<in> set (events db)" "e_persona_id e = p" "is_receipt_row e" for e
  proof -
    obtain j r' where "names_input j e" "input_of db p j = Some r'" "i_received_seq r' = Some (e_seq e)"
      using assms(2) e unfolding receipts_ok_def by blast
    moreover from this have "j \<noteq> i" using journaled(1,2) by auto
    ultimately show ?thesis using io by auto
  qed
  show ?thesis
    unfolding receipts_ok_def
  proof (intro conjI ballI allI impI)
    fix e assume e: "e \<in> set (events db')" "e_persona_id e = p \<and> is_receipt_row e"
    show "\<exists>j r'. names_input j e \<and> input_of db' p j = Some r' \<and> i_received_seq r' = Some (e_seq e)"
    proof (cases "e \<in> set (events db)")
      case True
      with e old show ?thesis by blast
    next
      case False
      then have row: "e = ?row" using e(1) ev' by simp
      then have "e_seq e = ?n" by simp
      with row nm io [of p i] show ?thesis by (intro exI [of _ i]) auto
    qed
  next
    fix j r' s assume "input_of db' p j = Some r'" "i_received_seq r' = Some s"
    then show "\<exists>e \<in> set (events db'). e_persona_id e = p \<and> e_seq e = s \<and> is_receipt_row e \<and> names_input j e"
      using ev' nm io assms(2) by (auto simp: receipts_ok_def is_receipt_row_def split: if_splits)
  qed
qed

lemma appendEventsTx_receipts:
  assumes "appendEventsTx p t es db = Inr db'" "receipts_ok db q"
    "q = p \<Longrightarrow> \<forall>e \<in> set es. \<not> is_receipt e"
  shows "receipts_ok db' q"
proof -
  have ev': "events db' = events db @ event_rows p t (last_seq db p) es" and inp: "inputs db' = inputs db"
    using appendEventsTx_ok(1) [OF assms(1)] by simp_all
  have "\<not> (e_persona_id e = q \<and> is_receipt_row e)" if "e \<in> set (event_rows p t (last_seq db p) es)" for e
    using event_rows_from [OF that] event_rows_persona [OF that] assms(3)
    by (auto simp: is_receipt_def is_receipt_row_def)
  then show ?thesis
    using assms(2) unfolding receipts_ok_def ev' input_of_def inp set_append by blast
qed

section \<open>Properties\<close>

text \<open>
  C34. An experience is journaled once per input lineage: however often a call's records are
  presented again, by a retried claim, a resumed attempt or twice in one batch, the keys in the
  lineage's log stay distinct and every presented key is there afterwards.
\<close>

theorem journal_experience_once:
  assumes "journalExperienceTx ft p t i es db = Inr db'"
    and "turn_of db p t = Some tr" and "t_input_id tr = i" and "received_ok db p i"
    and "distinct (journaled_keys db p i)"
  shows "distinct (journaled_keys db' p i) \<and>
    set (journaled_keys db' p i) = set (journaled_keys db p i) \<union> set (List.map_filter ei_key es)"
proof -
  from assms(1) obtain db1 where r: "ensureInputReceived ft p i t db = Inr db1"
    and a: "appendEventsTx p t (drop_keyed (journaled_keys db1 p i) es) db1 = Inr db'"
    by (auto simp: journalExperienceTx_def res_simps withoutJournaledExperience_drop)
  let ?es = "drop_keyed (journaled_keys db1 p i) es"
  obtain x s where x: "input_of db1 p i = Some x" "i_received_seq x = Some s" "s \<le> last_seq db1 p"
    and ts: "turns db1 = turns db"
    using ensureInputReceived_ok [OF r assms(4)] by auto
  have "lineage_events db' p i = lineage_events db1 p i @ event_rows p t (last_seq db1 p) ?es"
    unfolding appendEventsTx_ok(1) [OF a]
    by (rule lineage_append [OF x(1,2)]) (use x(3) ts assms(2,3) in \<open>auto simp: turn_of_def\<close>)
  then have keys: "journaled_keys db' p i = journaled_keys db1 p i @ List.map_filter ei_key ?es"
    using map_filter_cong_map [OF event_rows_keys] by (simp add: journaled_keys_eq)
  show ?thesis
    using keys drop_keyed_keys [of "journaled_keys db1 p i" es] assms(5) lineage_after_receipt [OF r assms(4)]
    by auto
qed

text \<open>A received input whose turn runs.\<close>

definition demo_input :: input_row where
  "demo_input = new_input 15 0 (with_defaults demo_submit)"

definition demo_running :: "unit db" where
  "demo_running = demo_live\<lparr>inputs := [demo_input\<lparr>i_status := IClaimed, i_turn_id := Some ''t1''\<rparr>]\<rparr>"

lemmas demo_run_defs = demo_running_def demo_input_def demo_submit_def with_defaults_def new_input_def
  demo_plan_defs demo_defs

definition demo_note :: event_input where
  "demo_note = ev ''tool_call'' [(''tool'', JStr ''journal.note''), (''call_index'', jnat 0)]"

lemma distinct_one: "distinct xs \<and> set xs = {x} \<Longrightarrow> xs = [x]"
  by (cases xs; cases "tl xs") auto

lemma itoa_0: "itoa 0 = ''0''"
  by code_simp

lemma demo_note_key: "ei_key demo_note = Some ''tool_call:0''"
  by (simp add: ei_key_def demo_note_def ev_def payload_of_def or_empty_def experienceKey_def exp_index_def
      jnat_def itoa_0)

lemma demo_receipt:
  "\<exists>m. ensureInputReceived (\<lambda>_. ''t'') ''p1'' ''in-1'' ''t1'' demo_running = Inr (demo_running\<lparr>
      events := event_rows ''p1'' ''t1'' 0 [ev ''input_received'' m],
      inputs := upd (is_input ''p1'' ''in-1'') (\<lambda>x. x\<lparr>i_received_seq := Some 1\<rparr>) (inputs demo_running)\<rparr>)
    \<and> receipt_id m = Some ''in-1'' \<and> storable (JObj m)"
  by (simp add: ensureInputReceived_def input_of_def is_input_def turn_of_def is_turn_def appendEvent_def
      receipt_payload_def previous_receipt_def last_seq_def Let_def demo_run_defs jsonb_param_def j_str_def
      j_time_def j_num_def j_integer_def j_list_def strOrNil_def jnat_def obj_field_def or_empty_def ev_def payload_of_def
      receipt_id_def)

theorem journal_experience_once_witness:
  "\<exists>db'. journalExperienceTx (\<lambda>_. ''t'') ''p1'' ''t1'' ''in-1'' [demo_note, demo_note] demo_running = Inr db'
     \<and> journaled_keys db' ''p1'' ''in-1'' = [''tool_call:0'']"
proof -
  obtain db' where j: "journalExperienceTx (\<lambda>_. ''t'') ''p1'' ''t1'' ''in-1'' [demo_note, demo_note] demo_running = Inr db'"
  proof -
    have v: "valid_event demo_note"
      by (simp add: valid_event_def demo_note_def ev_def payload_of_def or_empty_def jnat_def)
    from demo_receipt obtain db1 where "ensureInputReceived (\<lambda>_. ''t'') ''p1'' ''in-1'' ''t1'' demo_running = Inr db1"
      by blast
    from journalExperienceTx_total [OF this, of "[demo_note, demo_note]"] v show thesis by (auto intro: that)
  qed
  have tr: "turn_of demo_running ''p1'' ''t1'' = Some demo_turn" "t_input_id demo_turn = ''in-1''"
      "received_ok demo_running ''p1'' ''in-1''"
    by (simp_all add: turn_of_def is_turn_def received_ok_def input_of_def is_input_def demo_run_defs)
  have k0: "journaled_keys demo_running ''p1'' ''in-1'' = []"
    by (simp add: journaled_keys_eq lineage_events_def input_of_def is_input_def demo_run_defs)
  have new: "List.map_filter ei_key [demo_note, demo_note] = [''tool_call:0'', ''tool_call:0'']"
    by (simp add: demo_note_key)
  have "distinct (journaled_keys demo_running ''p1'' ''in-1'')" unfolding k0 by simp
  from journal_experience_once [OF j tr this]
  have "distinct (journaled_keys db' ''p1'' ''in-1'') \<and> set (journaled_keys db' ''p1'' ''in-1'') = {''tool_call:0''}"
    unfolding k0 new by simp
  then have "journaled_keys db' ''p1'' ''in-1'' = [''tool_call:0'']"
    by (rule distinct_one)
  with j show ?thesis by blast
qed

text \<open>
  Exactly one receipt per input: a turn's commit never journals a second
  \<^verbatim>\<open>input_received\<close> for an input and never one that names no input, and every marker
  \<^verbatim>\<open>received_seq\<close> points at the receipt naming its input. The commit keeps that
  correspondence from any state that has it.
\<close>

lemma commit_receipts_once:
  assumes "journalCommit p t i es db = Inr db'" and "receipts_ok db p" and "gapless db p"
  shows "receipts_ok db' p \<and> gapless db' p"
proof -
  obtain es2 db1 where a: "appendEventsTx p t es2 db = Inr db1" and d: "db' = linkReceipts p (last_seq db p) db1"
    and es2: "es2 = drop_keyed (journaled_keys db p i) (drop_receipts (is_received db p) [] es)"
    and v: "\<forall>e \<in> set es. is_receipt e \<longrightarrow> receipt_id (payload_of e) \<noteq> None \<and> input_of db p (rid e) \<noteq> None"
    using journalCommit_ok [OF assms(1)] by blast
  let ?rows = "event_rows p t (last_seq db p) es2" and ?nr = "new_receipt db1 p (last_seq db p)"
  have ev1: "events db1 = events db @ ?rows" and inp: "inputs db1 = inputs db"
    using appendEventsTx_ok(1) [OF a] by simp_all
  have ids: "distinct (map rid (filter is_receipt es2))"
    using drop_receipts_ids [of "is_received db p" "[]" es] by (simp add: es2 drop_keyed_receipts)
  have es2_ok: "e \<in> set es2 \<Longrightarrow> is_receipt e \<Longrightarrow>
      receipt_id (payload_of e) \<noteq> None \<and> input_of db p (rid e) \<noteq> None \<and> \<not> is_received db p (rid e)" for e
    using drop_receipts_ids [of "is_received db p" "[]" es] v drop_keyed_subset unfolding es2 by blast
  then have named: "\<forall>e \<in> set es2. is_receipt e \<longrightarrow> receipt_id (payload_of e) \<noteq> None" by blast
  have io: "input_of db' p j = map_option (\<lambda>r. if i_received_seq r = None \<and> ?nr j \<noteq> None
      then r\<lparr>i_received_seq := ?nr j\<rparr> else r) (input_of db p j)" for j
    using inp linkReceipts_input_of [of p "last_seq db p" db1 p j] by (simp add: d input_of_def)
  have fresh: "\<exists>j r. names_input j e \<and> input_of db' p j = Some r \<and> i_received_seq r = Some (e_seq e)"
    if er: "e \<in> set ?rows" "is_receipt_row e" for e
  proof -
    obtain x where x: "x \<in> set es2" "e_kind e = ei_kind x" "e_payload e = payload_of x"
      using event_rows_from [OF er(1)] by blast
    with er(2) have "is_receipt x" by (simp add: is_receipt_def is_receipt_row_def)
    with x es2_ok obtain r where j: "receipt_id (payload_of x) = Some (rid x)" "input_of db p (rid x) = Some r"
      "i_received_seq r = None" by (fastforce simp: is_received_def split: option.splits)
    then have nm: "names_input (rid x) e" using x(3) by (simp add: names_input_def receipt_id_names)
    have "?nr (rid x) = Some (e_seq e)"
      by (rule new_receipt_rows [OF a assms(3) ids named er nm])
    with j io [of "rid x"] have "input_of db' p (rid x) = Some (r\<lparr>i_received_seq := Some (e_seq e)\<rparr>)"
      by simp
    with nm show ?thesis by fastforce
  qed
  have "receipts_ok db' p"
    unfolding receipts_ok_def
  proof (intro conjI ballI allI impI)
    fix e assume e: "e \<in> set (events db')" "e_persona_id e = p \<and> is_receipt_row e"
    show "\<exists>j r. names_input j e \<and> input_of db' p j = Some r \<and> i_received_seq r = Some (e_seq e)"
    proof (cases "e \<in> set ?rows")
      case True
      with e fresh show ?thesis by blast
    next
      case False
      with e d ev1 have "e \<in> set (events db)" by simp
      with e assms(2) obtain j r where "names_input j e" "input_of db p j = Some r"
        "i_received_seq r = Some (e_seq e)" unfolding receipts_ok_def by blast
      with io show ?thesis by fastforce
    qed
  next
    fix j r s assume r: "input_of db' p j = Some r" "i_received_seq r = Some s"
    show "\<exists>e \<in> set (events db'). e_persona_id e = p \<and> e_seq e = s \<and> is_receipt_row e \<and> names_input j e"
    proof (cases "\<exists>r0. input_of db p j = Some r0 \<and> i_received_seq r0 = Some s")
      case True
      with assms(2) d ev1 show ?thesis unfolding receipts_ok_def by fastforce
    next
      case False
      with r io have "?nr j = Some s" by (auto split: if_splits)
      from minl_in [OF this [unfolded new_receipt_def]] show ?thesis
        by (auto simp: d is_receipt_row_def)
    qed
  qed
  then show ?thesis using journalCommit_gapless [OF assms(1,3)] by simp
qed

text \<open>
  The server-owned effect key round-trips: the call index an operation's idempotency key
  was built from is the one \<open>operationCallIndex\<close> reads back, whatever the input id is, even one
  that contains the separator.
\<close>

theorem operationCallIndex_roundtrip:
  assumes "int n \<le> MaxInt64"
  shows "operationCallIndex (i @ '':tool:'' @ itoa n) = Some n"
proof -
  have none: "after_last '':tool:'' s = None" if "CHR '':'' \<notin> set s" for s
    using that by (induction s) auto
  have d: "after_last '':tool:'' ('':tool:'' @ s) = Some s" if "CHR '':'' \<notin> set s" for s
  proof -
    have "\<not> has_prefix s (c # ''tool:'')" if "c = CHR '':''" for c
      using \<open>CHR '':'' \<notin> set s\<close> that by (cases s) auto
    moreover have "\<not> has_prefix (a # s) (CHR '':'' # CHR ''t'' # q)" if "a = CHR '':''" "q = ''ool:''" for a q
      using \<open>CHR '':'' \<notin> set s\<close> that by (cases s rule: remdups_adj.cases) (auto dest: has_prefixE)
    ultimately show ?thesis using none [OF that] by simp
  qed
  have "after_last '':tool:'' (i @ '':tool:'' @ itoa n) = Some (itoa n)"
    using d [OF itoa_no_colon] by (induction i) auto
  moreover have "atoi_nonneg (itoa n) = Some n"
  proof -
    obtain c ds where c: "itoa n = c # ds" by (cases "itoa n") auto
    have "undigit c \<noteq> None" using atoi_itoa [of n] c by (auto split: option.splits)
    then have "c \<noteq> CHR ''+''" "c \<noteq> CHR ''-''" by (auto simp: undigit_def)
    then show ?thesis using c atoi_itoa [of n] assms by (simp add: atoi_nonneg_def digits_value_def)
  qed
  ultimately show ?thesis by (simp add: operationCallIndex_def)
qed

end
