(* ===== verification/Core_Usage.thy ===== *)
theory Core_Usage
  imports Core_Journal
begin

text \<open>
  Provider usage and budgets (\<^verbatim>\<open>usage.go\<close>): the rate card and its overflow-checked pricing,
  admission of a call against a funding source's cap (\<^verbatim>\<open>AdmitUsage\<close>), the ledger of recorded
  usage with its supersession lattice (\<^verbatim>\<open>RecordUsage\<close>), the waits parked on a budget and their
  resumption, budget configuration, and the reconciliation of holds whose report never arrived.

  \<open>uuid_in\<close> stands for PostgreSQL's text-to-uuid conversion, an argument: the canonical text of
  the uuid a string denotes, or nothing.
\<close>

section \<open>Pricing\<close>

record rate_snapshot =
  rs_currency :: string
  rs_input :: int
  rs_output :: int
  rs_cached :: "int option"
  rs_revision :: string

definition snapshot :: "budget_row \<Rightarrow> rate_snapshot" where
  "snapshot b = \<lparr>rs_currency = b_currency b, rs_input = b_rate_input b, rs_output = b_rate_output b,
                 rs_cached = b_rate_cached b, rs_revision = b_pricing_revision b\<rparr>"

definition tokensPerMTok :: int where
  "tokensPerMTok = 1000000"

definition priceTokens :: "int \<Rightarrow> int \<Rightarrow> err + int" where
  "priceTokens tokens rate =
     (if tokens < 0 \<or> rate < 0 then Inl (ErrBadRequest ''negative token quantity or rate'')
      else if tokens = 0 \<or> rate = 0 then Inr 0
      else if tokens > go_div (i64 (MaxInt64 - i64 (tokensPerMTok - 1))) rate
      then Inl (ErrBadRequest ''token/rate product overflows minor units'')
      else Inr (go_div (i64 (i64 (i64 (tokens * rate) + tokensPerMTok) - 1)) tokensPerMTok))"

definition addMinor :: "int \<Rightarrow> int \<Rightarrow> err + int" where
  "addMinor a b =
     (if a > i64 (MaxInt64 - b) then Inl (ErrBadRequest ''cost sum overflows minor units'')
      else Inr (i64 (a + b)))"

definition priceEstimate :: "usage_estimate \<Rightarrow> rate_snapshot \<Rightarrow> err + (int \<times> bool)" where
  "priceEstimate est cd =
     rbind (priceTokens (est_input_tokens est) (rs_input cd)) (\<lambda>needed.
       case est_output_bound est of
         None \<Rightarrow> Inr (needed, False)
       | Some b \<Rightarrow>
           rbind (priceTokens b (rs_output cd)) (\<lambda>out.
           rbind (addMinor needed out) (\<lambda>total. Inr (total, True))))"

record record_request =
  rq_fact_id :: string
  rq_kind :: string
  rq_phase :: string
  rq_turn_id :: string
  rq_input_id :: string
  rq_round :: int
  rq_funding :: funding_ref
  rq_status :: string
  rq_input_tokens :: "int option"
  rq_output_tokens :: "int option"
  rq_cached_tokens :: "int option"
  rq_quantities :: "jobj option"

definition priceReported :: "record_request \<Rightarrow> rate_snapshot \<Rightarrow> err + int option" where
  "priceReported q cd =
     (case (rq_input_tokens q, rq_output_tokens q) of
        (Some inp, Some out) \<Rightarrow>
          if rq_status q \<noteq> ''reported'' then Inr None
          else
            let cached = (case rq_cached_tokens q of None \<Rightarrow> 0 | Some c \<Rightarrow> c);
                cachedRate = (case rs_cached cd of None \<Rightarrow> rs_input cd | Some r \<Rightarrow> r) in
            rbind (priceTokens inp (rs_input cd)) (\<lambda>cost.
            rbind (priceTokens cached cachedRate) (\<lambda>c.
            rbind (addMinor cost c) (\<lambda>cost2.
            rbind (priceTokens out (rs_output cd)) (\<lambda>o'.
            rbind (addMinor cost2 o') (\<lambda>cost3. Inr (Some cost3))))))
      | _ \<Rightarrow> Inr None)"

section \<open>Funding\<close>

definition is_budget :: "string \<Rightarrow> string \<Rightarrow> budget_row \<Rightarrow> bool" where
  "is_budget k i b \<longleftrightarrow> b_funding_kind b = k \<and> b_funding_id b = i"

text \<open>\<^verbatim>\<open>budgetForFunding\<close> and its locked form read the same row.\<close>

definition budgetForFunding :: "'d db \<Rightarrow> string \<Rightarrow> string \<Rightarrow> budget_row option" where
  "budgetForFunding db k i = find (is_budget k i) (budgets db)"

definition spent_minor :: "'d db \<Rightarrow> string \<Rightarrow> string \<Rightarrow> string \<Rightarrow> int" where
  "spent_minor db k i c = sum_list (map (\<lambda>f. case u_cost_minor f of None \<Rightarrow> 0 | Some m \<Rightarrow> m)
     (filter (\<lambda>f. f_kind (u_funding f) = k \<and> f_id (u_funding f) = i \<and> u_currency f = Some c) (facts db)))"

definition held_minor :: "'d db \<Rightarrow> string \<Rightarrow> string \<Rightarrow> string \<Rightarrow> int" where
  "held_minor db k i c = sum_list (map r_reserved_minor
     (filter (\<lambda>r. f_kind (r_funding r) = k \<and> f_id (r_funding r) = i \<and> r_status r = RHeld
        \<and> r_currency r = Some c) (reservations db)))"

text \<open>Sums of bigint are numeric; scanning one into an \<^verbatim>\<open>int64\<close> fails out of range.\<close>

definition fundingSpend :: "'d db \<Rightarrow> string \<Rightarrow> string \<Rightarrow> string \<Rightarrow> err + (int \<times> int)" where
  "fundingSpend db k i c =
     (if in_i64 (spent_minor db k i c) \<and> in_i64 (held_minor db k i c)
      then Inr (spent_minor db k i c, held_minor db k i c)
      else Inl (ErrStorage ''numeric out of int64 range''))"

text \<open>A text parameter with a NUL is refused by the server (SQLSTATE 22021).\<close>

definition text_params :: "string list \<Rightarrow> err + unit" where
  "text_params ss = guard (list_all (\<lambda>s. NUL \<notin> set s) ss) (ErrData ''invalid byte sequence'')"

lemma text_params_eq_Inr [res_simps]: "text_params ss = Inr u \<longleftrightarrow> list_all (\<lambda>s. NUL \<notin> set s) ss"
  by (simp add: text_params_def guard_eq_Inr)

definition fundingAllowed ::
  "(string \<Rightarrow> string option) \<Rightarrow> 'd db \<Rightarrow> string \<Rightarrow> funding_ref \<Rightarrow> err + unit" where
  "fundingAllowed uuid_in db p f =
     (if f_kind f = ''operator'' then
        guard (f_id f = ''env'') (ErrBadRequest ''operator funding id must be env'')
      else if f_kind f = ''connection'' then
        (case uuid_in (f_id f) of
           None \<Rightarrow> Inl (ErrBadRequest ''invalid input syntax for type uuid'')
         | Some u \<Rightarrow> guard (list_ex (\<lambda>c. c_connection_id c = u \<and>
               (case persona_of db p of None \<Rightarrow> False | Some r \<Rightarrow> p_human_id r = Some (c_human_id c))) (connections db))
             ErrFundingNotFound)
      else if f_kind f = ''sumi'' then
        rbind (text_params [f_id f]) (\<lambda>_.
          guard (list_ex (\<lambda>g. g_funding_id g = f_id f \<and> \<not> g_revoked g \<and>
               (case persona_of db p of None \<Rightarrow> False | Some r \<Rightarrow> p_human_id r = Some (g_human_id g))) (grants db))
             ErrFundingNotFound)
      else Inl (ErrBadRequest ''unknown funding kind''))"

section \<open>Admission\<close>

record admit_request =
  aq_generation :: int
  aq_fact_id :: string
  aq_kind :: string
  aq_phase :: string
  aq_turn_id :: string
  aq_input_id :: string
  aq_round :: int
  aq_funding :: funding_ref
  aq_estimate :: usage_estimate

record usage_reservation =
  ur_fact_id :: string
  ur_reserved_minor :: int
  ur_currency :: string
  ur_bounded :: bool

record budget_wait =
  bw_funding :: funding_ref
  bw_needed_minor :: int
  bw_limit_minor :: int
  bw_spent_minor :: int
  bw_held_minor :: int
  bw_remaining_minor :: int
  bw_currency :: string
  bw_pricing_revision :: string
  bw_bounded :: bool
  bw_estimate :: usage_estimate

datatype admit_result = Admitted usage_reservation | Denied budget_wait

definition is_res :: "string \<Rightarrow> string \<Rightarrow> reservation_row \<Rightarrow> bool" where
  "is_res p f r \<longleftrightarrow> r_persona_id r = p \<and> r_fact_id r = f"

definition res_of :: "'d db \<Rightarrow> string \<Rightarrow> string \<Rightarrow> reservation_row option" where
  "res_of db p f = find (is_res p f) (reservations db)"

definition nullif :: "string \<Rightarrow> string option" where
  "nullif s = (if s = [] then None else Some s)"

definition coalesce :: "string option \<Rightarrow> string" where
  "coalesce s = (case s of None \<Rightarrow> [] | Some x \<Rightarrow> x)"

definition cardCurrency :: "rate_snapshot option \<Rightarrow> string" where
  "cardCurrency cd = (case cd of None \<Rightarrow> [] | Some c \<Rightarrow> rs_currency c)"

definition budgetAdmits :: "int \<Rightarrow> int \<Rightarrow> int \<Rightarrow> int \<Rightarrow> bool" where
  "budgetAdmits limit spent held needed \<longleftrightarrow> needed \<le> limit \<and> i64 (spent + held) \<le> i64 (limit - needed)"

definition new_reservation :: "string \<Rightarrow> admit_request \<Rightarrow> rate_snapshot option \<Rightarrow> int \<Rightarrow> reservation_row" where
  "new_reservation p q cd reserved =
     \<lparr>r_persona_id = p, r_fact_id = aq_fact_id q, r_kind = aq_kind q, r_phase = aq_phase q,
      r_turn_id = nullif (aq_turn_id q), r_input_id = nullif (aq_input_id q), r_round = Some (aq_round q),
      r_funding = aq_funding q, r_reserved_minor = reserved, r_currency = nullif (cardCurrency cd),
      r_bounded = (est_output_bound (aq_estimate q) \<noteq> None),
      r_est_input_tokens = Some (est_input_tokens (aq_estimate q)),
      r_est_output_bound = est_output_bound (aq_estimate q),
      r_rate_input = map_option rs_input cd, r_rate_output = map_option rs_output cd,
      r_rate_cached = (case cd of None \<Rightarrow> None | Some c \<Rightarrow> rs_cached c),
      r_pricing_revision = (case cd of None \<Rightarrow> None | Some c \<Rightarrow> nullif (rs_revision c)),
      r_generation = aq_generation q, r_status = RHeld\<rparr>"

definition funding_texts :: "funding_ref \<Rightarrow> string list" where
  "funding_texts f = [f_kind f, f_id f, f_version f, f_model f, f_provider f]"

definition in_int4 :: "int \<Rightarrow> bool" where
  "in_int4 n \<longleftrightarrow> - (2 ^ 31) \<le> n \<and> n < 2 ^ 31"

definition insert_reservation ::
  "string \<Rightarrow> admit_request \<Rightarrow> rate_snapshot option \<Rightarrow> int \<Rightarrow> 'd db \<Rightarrow> err + ('d db \<times> admit_result)" where
  "insert_reservation p q cd reserved db =
     rbind (guard (in_int4 (aq_round q)) (ErrStorage ''round out of int4 range'')) (\<lambda>_.
     rbind (with_dataErr (text_params ([aq_fact_id q, aq_kind q, aq_phase q, aq_turn_id q, aq_input_id q,
              cardCurrency cd] @ funding_texts (aq_funding q)))) (\<lambda>_.
       Inr (db\<lparr>reservations := reservations db @ [new_reservation p q cd reserved]\<rparr>,
            Admitted \<lparr>ur_fact_id = aq_fact_id q, ur_reserved_minor = reserved, ur_currency = cardCurrency cd,
                      ur_bounded = (est_output_bound (aq_estimate q) \<noteq> None)\<rparr>)))"

text \<open>The replay of an earlier admit of the same fact.\<close>

definition admit_replay :: "admit_request \<Rightarrow> reservation_row \<Rightarrow> 'd db \<Rightarrow> err + ('d db \<times> admit_result)" where
  "admit_replay q r db =
     (if f_kind (r_funding r) \<noteq> f_kind (aq_funding q) \<or> f_id (r_funding r) \<noteq> f_id (aq_funding q)
      then Inl ErrUsageFactConflict
      else if r_status r \<noteq> RHeld then Inl ErrUsageFactConflict
      else Inr (db, Admitted \<lparr>ur_fact_id = r_fact_id r, ur_reserved_minor = r_reserved_minor r,
                              ur_currency = coalesce (r_currency r), ur_bounded = r_bounded r\<rparr>))"

text \<open>The decision against a configured cap: the reservation, or the denial that stores nothing.\<close>

definition admit_capped ::
  "string \<Rightarrow> admit_request \<Rightarrow> budget_row \<Rightarrow> 'd db \<Rightarrow> err + ('d db \<times> admit_result)" where
  "admit_capped p q b db =
     rbind (priceEstimate (aq_estimate q) (snapshot b)) (\<lambda>(needed, bounded).
     rbind (fundingSpend db (f_kind (aq_funding q)) (f_id (aq_funding q)) (b_currency b)) (\<lambda>(spent, held).
       if budgetAdmits (b_limit_minor b) spent held needed
       then insert_reservation p q (Some (snapshot b)) needed db
       else Inr (db, Denied \<lparr>bw_funding = aq_funding q, bw_needed_minor = needed,
              bw_limit_minor = b_limit_minor b, bw_spent_minor = spent, bw_held_minor = held,
              bw_remaining_minor = i64 (i64 (b_limit_minor b - spent) - held), bw_currency = b_currency b,
              bw_pricing_revision = b_pricing_revision b, bw_bounded = bounded,
              bw_estimate = aq_estimate q\<rparr>)))"

definition AdmitUsage ::
  "(string \<Rightarrow> string option) \<Rightarrow> string \<Rightarrow> admit_request \<Rightarrow> 'd db \<Rightarrow> err + ('d db \<times> admit_result)" where
  "AdmitUsage uuid_in p q db =
     (if aq_fact_id q = [] \<or> aq_kind q = [] \<or> aq_phase q = []
      then Inl (ErrBadRequest ''fact_id, kind and phase are required'')
      else
        rbind (requireGeneration db p (aq_generation q)) (\<lambda>_.
        rbind (fundingAllowed uuid_in db p (aq_funding q)) (\<lambda>_.
        rbind (text_params [aq_fact_id q]) (\<lambda>_.
          case res_of db p (aq_fact_id q) of
            Some r \<Rightarrow> admit_replay q r db
          | None \<Rightarrow>
              (case budgetForFunding db (f_kind (aq_funding q)) (f_id (aq_funding q)) of
                 None \<Rightarrow> insert_reservation p q None 0 db
               | Some b \<Rightarrow> admit_capped p q b db)))))"

section \<open>Waits\<close>

record funding_headroom =
  h_budget :: "budget_row option"
  h_spent :: int
  h_held :: int

definition fundingHeadroom :: "'d db \<Rightarrow> string \<Rightarrow> string \<Rightarrow> err + funding_headroom" where
  "fundingHeadroom db k i =
     (case budgetForFunding db k i of
        None \<Rightarrow> Inr \<lparr>h_budget = None, h_spent = 0, h_held = 0\<rparr>
      | Some b \<Rightarrow> rbind (fundingSpend db k i (b_currency b)) (\<lambda>(spent, held).
          Inr \<lparr>h_budget = Some b, h_spent = spent, h_held = held\<rparr>))"

definition fit :: "funding_headroom \<Rightarrow> usage_estimate \<Rightarrow> err + (bool \<times> int)" where
  "fit h est = (case h_budget h of
     None \<Rightarrow> Inr (True, 0)
   | Some b \<Rightarrow> rbind (priceEstimate est (snapshot b)) (\<lambda>(needed, _).
       Inr (budgetAdmits (b_limit_minor b) (h_spent h) (h_held h) needed, needed)))"

text \<open>\<^verbatim>\<open>(EXTRACT(EPOCH FROM (now() - since)) * 1000)::bigint\<close>, rounding half away from zero.\<close>

definition ms_between :: "timestamp \<Rightarrow> timestamp \<Rightarrow> int" where
  "ms_between since now = sgn (now - since) * ((\<bar>now - since\<bar> + 500) div 1000)"

definition requeued :: "timestamp \<Rightarrow> input_row \<Rightarrow> input_row" where
  "requeued now r = r\<lparr>i_status := IQueued, i_claimed_generation := None, i_turn_id := None, i_not_before := None,
     i_waited_ms := i_waited_ms r + (case i_waiting_since r of None \<Rightarrow> 0 | Some t \<Rightarrow> ms_between t now),
     i_waiting_since := None\<rparr>"

definition approval_pending :: "'d db \<Rightarrow> string \<Rightarrow> string \<Rightarrow> bool" where
  "approval_pending db p i \<longleftrightarrow>
     list_ex (\<lambda>a. a_persona_id a = p \<and> a_input_id a = i \<and> a_status a = APending) (approvals db)"

text \<open>Requeue an input still parked, and only when no pending approval holds it too.\<close>

definition parked :: "'d db \<Rightarrow> string \<Rightarrow> string \<Rightarrow> input_row \<Rightarrow> bool" where
  "parked db p i r \<longleftrightarrow> is_input p i r \<and> i_status r = IWaiting \<and> \<not> approval_pending db p i"

definition requeue_parked :: "timestamp \<Rightarrow> string \<Rightarrow> string \<Rightarrow> 'd db \<Rightarrow> 'd db \<times> nat" where
  "requeue_parked now p i db =
     (db\<lparr>inputs := upd (parked db p i) (requeued now) (inputs db)\<rparr>,
      if list_ex (parked db p i) (inputs db) then 1 else 0)"

definition is_wait :: "string \<Rightarrow> string \<Rightarrow> wait_row \<Rightarrow> bool" where
  "is_wait p i w \<longleftrightarrow> w_persona_id w = p \<and> w_input_id w = i"

definition delete_wait :: "string \<Rightarrow> string \<Rightarrow> 'd db \<Rightarrow> 'd db" where
  "delete_wait p i db = db\<lparr>waits := filter (\<lambda>w. \<not> is_wait p i w) (waits db)\<rparr>"

definition wait_estimate :: "wait_row \<Rightarrow> usage_estimate" where
  "wait_estimate w = \<lparr>est_input_tokens = w_est_input_tokens w, est_output_bound = w_est_output_bound w\<rparr>"

fun resume_loop :: "timestamp \<Rightarrow> funding_headroom \<Rightarrow> wait_row list \<Rightarrow> 'd db \<Rightarrow> 'd db \<times> nat" where
  "resume_loop now room [] db = (db, 0)"
| "resume_loop now room (w # ws) db =
     (case fit room (wait_estimate w) of
        Inl _ \<Rightarrow> resume_loop now room ws db
      | Inr (True, _) \<Rightarrow>
          let (db1, k) = requeue_parked now (w_persona_id w) (w_input_id w)
                           (delete_wait (w_persona_id w) (w_input_id w) db);
              (db2, n) = resume_loop now room ws db1
          in (db2, k + n)
      | Inr (False, needed) \<Rightarrow>
          resume_loop now room ws (db\<lparr>waits := upd (is_wait (w_persona_id w) (w_input_id w))
             (\<lambda>x. x\<lparr>w_needed_minor := needed,
                    w_currency := (case h_budget room of None \<Rightarrow> [] | Some b \<Rightarrow> b_currency b)\<rparr>) (waits db)\<rparr>))"

definition fundingOwnerHumans :: "(string \<Rightarrow> string option) \<Rightarrow> 'd db \<Rightarrow> string \<Rightarrow> string \<Rightarrow> err + string list" where
  "fundingOwnerHumans uuid_in db k i =
     (if k = ''connection'' then
        (case uuid_in i of
           None \<Rightarrow> Inl (ErrData ''invalid input syntax for type uuid'')
         | Some u \<Rightarrow> (case find (\<lambda>c. c_connection_id c = u) (connections db) of
             None \<Rightarrow> Inr [] | Some c \<Rightarrow> Inr [c_human_id c]))
      else if k = ''sumi'' then
        (case find (\<lambda>g. g_funding_id g = i \<and> \<not> g_revoked g) (grants db) of
           None \<Rightarrow> Inr [] | Some g \<Rightarrow> Inr [g_human_id g])
      else Inr [])"

definition unparkChunks :: "string list \<Rightarrow> 'd db \<Rightarrow> 'd db" where
  "unparkChunks hs db = db\<lparr>chunks := upd (\<lambda>c. mc_status c = CSealed \<and> mc_not_before c \<noteq> None
       \<and> (case mc_last_error c of None \<Rightarrow> False | Some e \<Rightarrow> has_prefix e ''budget-wait:'')
       \<and> (case persona_of db (mc_persona_id c) of
            None \<Rightarrow> False
          | Some r \<Rightarrow> (case p_human_id r of None \<Rightarrow> False | Some h \<Rightarrow> h \<in> set hs)))
     (\<lambda>c. c\<lparr>mc_not_before := None\<rparr>) (chunks db)\<rparr>"

definition funding_waits :: "'d db \<Rightarrow> string \<Rightarrow> string \<Rightarrow> wait_row list" where
  "funding_waits db k i = sort_key (\<lambda>w. w_persona_id w) (sort_key (\<lambda>w. w_input_id w)
     (filter (\<lambda>w. w_funding_kind w = k \<and> w_funding_id w = i) (waits db)))"

definition resumeFundingWaitsTx ::
  "(string \<Rightarrow> string option) \<Rightarrow> timestamp \<Rightarrow> string \<Rightarrow> string \<Rightarrow> 'd db \<Rightarrow> err + ('d db \<times> nat)" where
  "resumeFundingWaitsTx uuid_in now k i db =
     rbind (fundingHeadroom db k i) (\<lambda>room.
       let (db1, n) = resume_loop now room (funding_waits db k i) db in
       rbind (fundingOwnerHumans uuid_in db1 k i) (\<lambda>hs.
         Inr (if hs = [] then db1 else unparkChunks hs db1, n)))"

definition human_personas :: "'d db \<Rightarrow> string \<Rightarrow> string list" where
  "human_personas db h = map p_persona_id (filter (\<lambda>r. p_human_id r = Some h) (personas db))"

fun requeue_all :: "timestamp \<Rightarrow> wait_row list \<Rightarrow> 'd db \<Rightarrow> 'd db \<times> nat" where
  "requeue_all now [] db = (db, 0)"
| "requeue_all now (w # ws) db =
     (let (db1, k) = requeue_parked now (w_persona_id w) (w_input_id w) db;
          (db2, n) = requeue_all now ws db1
      in (db2, k + n))"

definition ResumeWaitsForHuman :: "timestamp \<Rightarrow> string \<Rightarrow> 'd db \<Rightarrow> err + ('d db \<times> nat)" where
  "ResumeWaitsForHuman now h db =
     (let mine = (\<lambda>w. w_persona_id w \<in> set (human_personas db h));
          (db1, n) = requeue_all now (filter mine (waits db)) (db\<lparr>waits := filter (\<lambda>w. \<not> mine w) (waits db)\<rparr>)
      in Inr (unparkChunks [h] db1, n))"

text \<open>
  The source the persona's next attempt would spend. A carried intent is the stored object whose
  \<^verbatim>\<open>kind\<close> the selection has to match.
\<close>

definition intent_kind :: "json option \<Rightarrow> string" where
  "intent_kind j = (case j of Some (JObj m) \<Rightarrow> str_field m ''kind'' | _ \<Rightarrow> [])"

definition current_funding ::
  "(string \<Rightarrow> string option) \<Rightarrow> 'd db \<Rightarrow> string \<Rightarrow> string \<Rightarrow> err + (string \<times> string) option" where
  "current_funding uuid_in db h intent =
     (case find (\<lambda>s. sel_human_id s = h) (selections db) of
        None \<Rightarrow> Inr (if intent \<noteq> [] then None else Some (''operator'', ''env''))
      | Some s \<Rightarrow>
          if intent \<noteq> [] \<and> sel_kind s \<noteq> intent then Inr None
          else if sel_kind s = ''api'' then
            (case uuid_in (sel_connection_id s) of
               None \<Rightarrow> Inl (ErrData ''invalid input syntax for type uuid'')
             | Some u \<Rightarrow> Inr (if list_ex (\<lambda>c. c_human_id c = h \<and> c_connection_id c = u) (connections db)
                             then Some (''connection'', sel_connection_id s) else None))
          else Inr None)"

definition waitFundingStale ::
  "(string \<Rightarrow> string option) \<Rightarrow> 'd db \<Rightarrow> string \<Rightarrow> funding_ref \<Rightarrow> err + bool" where
  "waitFundingStale uuid_in db p f =
     (if f_kind f \<noteq> ''connection'' \<and> f_kind f \<noteq> ''operator'' then Inr False
      else case persona_of db p of
        None \<Rightarrow> Inl (ErrStorage ''no rows'')
      | Some r \<Rightarrow> (case p_human_id r of
          None \<Rightarrow> Inr False
        | Some h \<Rightarrow> rbind (current_funding uuid_in db h (intent_kind (p_model_intent r))) (\<lambda>cur.
            Inr (case cur of None \<Rightarrow> False | Some (k, i) \<Rightarrow> k \<noteq> f_kind f \<or> i \<noteq> f_id f))))"

section \<open>Recording\<close>

definition validateRecordTokens :: "record_request \<Rightarrow> err + unit" where
  "validateRecordTokens q =
     (if list_ex (\<lambda>v. case v of None \<Rightarrow> False | Some n \<Rightarrow> n < 0)
           [rq_input_tokens q, rq_output_tokens q, rq_cached_tokens q]
      then Inl (ErrBadRequest ''token quantities cannot be negative'')
      else if rq_status q = ''reported'' then
        guard (rq_input_tokens q \<noteq> None \<and> rq_output_tokens q \<noteq> None)
          (ErrBadRequest ''a reported fact needs input_tokens and output_tokens'')
      else if rq_status q = ''not_sent'' then
        guard (rq_input_tokens q = None \<and> rq_output_tokens q = None \<and> rq_cached_tokens q = None)
          (ErrBadRequest ''a not_sent fact cannot carry token usage'')
      else Inr ())"

text \<open>The cost columns: amount, currency, basis and revision.\<close>

type_synonym cost = "int option \<times> string option \<times> string option \<times> string option"

definition priceRecord ::
  "record_request \<Rightarrow> rate_snapshot option \<Rightarrow> rate_snapshot option \<Rightarrow> bool \<Rightarrow> int \<Rightarrow> err + cost" where
  "priceRecord q cd snap hasRes reserved =
     (if rq_status q = ''reported'' then
        (case cd of
           None \<Rightarrow> Inr (None, None, None, None)
         | Some c \<Rightarrow> rbind (priceReported q c) (\<lambda>priced. Inr (case priced of
             None \<Rightarrow> (None, None, None, None)
           | Some m \<Rightarrow> (Some m, Some (rs_currency c), Some ''configured_rates'', Some (rs_revision c)))))
      else if rq_status q = ''unknown'' then
        (case snap of
           None \<Rightarrow> Inr (None, None, None, None)
         | Some c \<Rightarrow> Inr (if hasRes \<and> rs_currency c \<noteq> []
             then (Some reserved, Some (rs_currency c), Some ''admission_estimate'', Some (rs_revision c))
             else (None, None, None, None)))
      else Inr (None, None, None, None))"

definition sameCallIdentity :: "fact_row \<Rightarrow> record_request \<Rightarrow> bool" where
  "sameCallIdentity f q \<longleftrightarrow> u_kind f = rq_kind q \<and> u_phase f = rq_phase q
     \<and> coalesce (u_turn_id f) = rq_turn_id q \<and> coalesce (u_input_id f) = rq_input_id q
     \<and> (case u_round f of None \<Rightarrow> 0 | Some n \<Rightarrow> n) = rq_round q
     \<and> f_kind (u_funding f) = f_kind (rq_funding q) \<and> f_id (u_funding f) = f_id (rq_funding q)"

definition status_text :: "fact_status \<Rightarrow> string" where
  "status_text s = (case s of FReported \<Rightarrow> ''reported'' | FUnknown \<Rightarrow> ''unknown''
     | FNotSent \<Rightarrow> ''not_sent'' | FUnrecorded \<Rightarrow> ''unrecorded'')"

definition status_of :: "string \<Rightarrow> fact_status" where
  "status_of s = (if s = ''reported'' then FReported else if s = ''unknown'' then FUnknown
     else if s = ''not_sent'' then FNotSent else FUnrecorded)"

text \<open>\<^verbatim>\<open>sameTokens\<close> is equality of options.\<close>

definition factMatches :: "fact_row \<Rightarrow> record_request \<Rightarrow> bool" where
  "factMatches f q \<longleftrightarrow> sameCallIdentity f q \<and> status_text (u_status f) = rq_status q
     \<and> u_input_tokens f = rq_input_tokens q \<and> u_output_tokens f = rq_output_tokens q
     \<and> u_cached_tokens f = rq_cached_tokens q"

definition suppliedAgree :: "fact_row \<Rightarrow> record_request \<Rightarrow> bool" where
  "suppliedAgree f q \<longleftrightarrow> list_all (\<lambda>(stored, supplied). supplied = None \<or> stored = supplied)
     [(u_input_tokens f, rq_input_tokens q), (u_output_tokens f, rq_output_tokens q),
      (u_cached_tokens f, rq_cached_tokens q)]"

definition is_fact :: "string \<Rightarrow> string \<Rightarrow> fact_row \<Rightarrow> bool" where
  "is_fact p x f \<longleftrightarrow> u_persona_id f = p \<and> u_fact_id f = x"

definition usageFact :: "'d db \<Rightarrow> string \<Rightarrow> string \<Rightarrow> fact_row option" where
  "usageFact db p x = find (is_fact p x) (facts db)"

definition with_cost :: "cost \<Rightarrow> fact_row \<Rightarrow> fact_row" where
  "with_cost c f = (case c of (m, cur, basis, rev') \<Rightarrow>
     f\<lparr>u_cost_minor := m, u_currency := cur, u_cost_basis := basis, u_pricing_revision := rev'\<rparr>)"

definition new_fact :: "string \<Rightarrow> record_request \<Rightarrow> cost \<Rightarrow> fact_row" where
  "new_fact p q c = with_cost c
     \<lparr>u_persona_id = p, u_fact_id = rq_fact_id q, u_kind = rq_kind q, u_phase = rq_phase q,
      u_turn_id = nullif (rq_turn_id q), u_input_id = nullif (rq_input_id q), u_round = Some (rq_round q),
      u_funding = rq_funding q, u_status = status_of (rq_status q), u_input_tokens = rq_input_tokens q,
      u_output_tokens = rq_output_tokens q, u_cached_tokens = rq_cached_tokens q,
      u_quantities = or_empty (rq_quantities q), u_cost_minor = None, u_currency = None,
      u_cost_basis = None, u_pricing_revision = None\<rparr>"

definition upgraded :: "record_request \<Rightarrow> cost \<Rightarrow> fact_row \<Rightarrow> fact_row" where
  "upgraded q c f = with_cost c (f\<lparr>u_status := status_of (rq_status q), u_input_tokens := rq_input_tokens q,
     u_output_tokens := rq_output_tokens q, u_cached_tokens := rq_cached_tokens q,
     u_quantities := or_empty (rq_quantities q)\<rparr>)"

text \<open>The supersession lattice: what a report means against the stored fact.\<close>

datatype verdict = Replay | Upgrade | Conflict

definition lattice :: "fact_row \<Rightarrow> record_request \<Rightarrow> verdict" where
  "lattice f q =
     (if \<not> sameCallIdentity f q then Conflict
      else if factMatches f q then Replay
      else if u_status f = FReported \<and> rq_status q = ''unknown'' \<and> suppliedAgree f q then Replay
      else if u_status f = FUnrecorded then Upgrade
      else if u_status f = FUnknown \<and> rq_status q = ''reported'' then Upgrade
      else Conflict)"

definition set_reservations :: "(reservation_row \<Rightarrow> bool) \<Rightarrow> res_status \<Rightarrow> 'd db \<Rightarrow> 'd db" where
  "set_reservations P st db = db\<lparr>reservations := upd P (\<lambda>r. r\<lparr>r_status := st\<rparr>) (reservations db)\<rparr>"

text \<open>The funding sources an upgrade resumes, in the order their budget rows are locked.\<close>

definition upgrade_fundings :: "fact_row \<Rightarrow> reservation_row option \<Rightarrow> (string \<times> string) list" where
  "upgrade_fundings f res =
     (let a = (f_kind (u_funding f), f_id (u_funding f)) in
      case res of
        None \<Rightarrow> [a]
      | Some r \<Rightarrow>
          (let b = (f_kind (r_funding r), f_id (r_funding r)) in
           if b = a then [a]
           else if fst a @ ''/'' @ snd a > fst b @ ''/'' @ snd b then [b, a] else [a, b]))"

fun resume_fundings ::
  "(string \<Rightarrow> string option) \<Rightarrow> timestamp \<Rightarrow> (string \<times> string) list \<Rightarrow> 'd db \<Rightarrow> err + 'd db" where
  "resume_fundings uuid_in now [] db = Inr db"
| "resume_fundings uuid_in now ((k, i) # fs) db =
     rbind (resumeFundingWaitsTx uuid_in now k i db) (\<lambda>(db1, _). resume_fundings uuid_in now fs db1)"

definition record_existing ::
  "(string \<Rightarrow> string option) \<Rightarrow> timestamp \<Rightarrow> string \<Rightarrow> record_request \<Rightarrow> reservation_row option \<Rightarrow> cost \<Rightarrow> fact_row
     \<Rightarrow> 'd db \<Rightarrow> err + ('d db \<times> fact_row \<times> bool)" where
  "record_existing uuid_in now p q res c f db =
     (case lattice f q of
        Conflict \<Rightarrow> Inl ErrUsageFactConflict
      | Replay \<Rightarrow> Inr (db, f, False)
      | Upgrade \<Rightarrow>
          rbind (jsonb_param (JObj (or_empty (rq_quantities q)))) (\<lambda>_.
            let db1 = db\<lparr>facts := upd (is_fact p (rq_fact_id q)) (upgraded q c) (facts db)\<rparr>;
                db2 = (if rq_status q = ''not_sent''
                       then set_reservations (is_res p (rq_fact_id q)) RReleased db1 else db1)
            in rbind (resume_fundings uuid_in now (upgrade_fundings f res) db2) (\<lambda>db3.
                 Inr (db3, upgraded q c f, False))))"

definition record_fresh ::
  "(string \<Rightarrow> string option) \<Rightarrow> timestamp \<Rightarrow> string \<Rightarrow> record_request \<Rightarrow> reservation_row option \<Rightarrow> cost
     \<Rightarrow> 'd db \<Rightarrow> err + ('d db \<times> fact_row \<times> bool)" where
  "record_fresh uuid_in now p q res c db =
     (let f = new_fact p q c;
          db1 = db\<lparr>facts := facts db @ [f]\<rparr>;
          db2 = set_reservations (\<lambda>r. is_res p (rq_fact_id q) r \<and> r_status r = RHeld)
                  (if rq_status q = ''not_sent'' then RReleased else RSettled) db1
      in case res of
           None \<Rightarrow> Inr (db2, f, True)
         | Some r \<Rightarrow> rbind (resumeFundingWaitsTx uuid_in now (f_kind (r_funding r)) (f_id (r_funding r)) db2)
             (\<lambda>(db3, _). Inr (db3, f, True)))"

text \<open>The admission snapshot a reservation carries.\<close>

definition res_snapshot :: "reservation_row option \<Rightarrow> rate_snapshot option" where
  "res_snapshot res = (case res of
     None \<Rightarrow> None
   | Some r \<Rightarrow> (case (r_currency r, r_rate_input r, r_rate_output r) of
       (Some c, Some i, Some o') \<Rightarrow> Some \<lparr>rs_currency = c, rs_input = i, rs_output = o',
          rs_cached = r_rate_cached r, rs_revision = coalesce (r_pricing_revision r)\<rparr>
     | _ \<Rightarrow> None))"

definition record_request_ok :: "record_request \<Rightarrow> err + unit" where
  "record_request_ok q =
     (if rq_fact_id q = [] \<or> rq_kind q = [] \<or> rq_phase q = []
      then Inl (ErrBadRequest ''fact_id, kind and phase are required'')
      else if rq_status q \<notin> set [''reported'', ''unknown'', ''not_sent'']
      then Inl (ErrBadRequest ''status must be reported, unknown or not_sent'')
      else if hasNUL (JObj (or_empty (rq_quantities q))) then Inl (ErrBadRequest ''quantities cannot contain NUL'')
      else validateRecordTokens q)"

definition record_payer ::
  "(string \<Rightarrow> string option) \<Rightarrow> 'd db \<Rightarrow> string \<Rightarrow> record_request \<Rightarrow> reservation_row option \<Rightarrow> err + unit" where
  "record_payer uuid_in db p q res = (case res of
     None \<Rightarrow> fundingAllowed uuid_in db p (rq_funding q)
   | Some r \<Rightarrow> guard (f_kind (r_funding r) = f_kind (rq_funding q) \<and> f_id (r_funding r) = f_id (rq_funding q))
       ErrUsageFactConflict)"

text \<open>The card of a record: the admission snapshot, else the budget in force, else none.\<close>

definition record_price :: "'d db \<Rightarrow> record_request \<Rightarrow> reservation_row option \<Rightarrow> err + cost" where
  "record_price db q res =
     (let snap = res_snapshot res;
          cd = (case snap of
                  Some c \<Rightarrow> Some c
                | None \<Rightarrow> map_option snapshot (budgetForFunding db (f_kind (rq_funding q)) (f_id (rq_funding q))))
      in priceRecord q cd snap (res \<noteq> None) (case res of None \<Rightarrow> 0 | Some r \<Rightarrow> r_reserved_minor r))"

definition fact_params :: "record_request \<Rightarrow> err + unit" where
  "fact_params q =
     rbind (guard (in_int4 (rq_round q)) (ErrStorage ''round out of int4 range'')) (\<lambda>_.
     rbind (with_dataErr (text_params ([rq_fact_id q, rq_kind q, rq_phase q, rq_turn_id q, rq_input_id q]
              @ funding_texts (rq_funding q)))) (\<lambda>_.
       with_dataErr (jsonb_param (JObj (or_empty (rq_quantities q))))))"

definition RecordUsage ::
  "(string \<Rightarrow> string option) \<Rightarrow> timestamp \<Rightarrow> string \<Rightarrow> record_request \<Rightarrow> 'd db
     \<Rightarrow> err + ('d db \<times> fact_row \<times> bool)" where
  "RecordUsage uuid_in now p q db =
     rbind (record_request_ok q) (\<lambda>_.
     rbind (text_params [rq_fact_id q]) (\<lambda>_.
       let res = res_of db p (rq_fact_id q) in
       rbind (record_payer uuid_in db p q res) (\<lambda>_.
         rbind (record_price db q res) (\<lambda>c.
         rbind (fact_params q) (\<lambda>_.
         rbind (guard (persona_of db p \<noteq> None) (ErrStorage ''usage_facts_persona_id_fkey'')) (\<lambda>_.
           case usageFact db p (rq_fact_id q) of
             Some f \<Rightarrow> record_existing uuid_in now p q res c f db
           | None \<Rightarrow> record_fresh uuid_in now p q res c db))))))"

section \<open>Reconciliation\<close>

text \<open>The holds a pass selects: all of the persona's, one turn's, or those of dead generations.\<close>

definition reconciled :: "string \<Rightarrow> string \<Rightarrow> int option \<Rightarrow> reservation_row \<Rightarrow> bool" where
  "reconciled p t below r \<longleftrightarrow> r_persona_id r = p \<and> r_status r = RHeld
     \<and> (t = [] \<or> r_turn_id r = Some t)
     \<and> (case below of None \<Rightarrow> True | Some g \<Rightarrow> r_generation r < g)"

definition unrecorded_fact :: "reservation_row \<Rightarrow> fact_row" where
  "unrecorded_fact r =
     \<lparr>u_persona_id = r_persona_id r, u_fact_id = r_fact_id r, u_kind = r_kind r, u_phase = r_phase r,
      u_turn_id = r_turn_id r, u_input_id = r_input_id r, u_round = r_round r, u_funding = r_funding r,
      u_status = FUnrecorded, u_input_tokens = None, u_output_tokens = None, u_cached_tokens = None,
      u_quantities = [],
      u_cost_minor = (if r_currency r \<noteq> None then Some (r_reserved_minor r) else None),
      u_currency = r_currency r,
      u_cost_basis = (if r_currency r \<noteq> None then Some ''admission_estimate'' else None),
      u_pricing_revision = r_pricing_revision r\<rparr>"

definition has_fact :: "'d db \<Rightarrow> reservation_row \<Rightarrow> bool" where
  "has_fact db r \<longleftrightarrow> usageFact db (r_persona_id r) (r_fact_id r) \<noteq> None"

definition reconcileHeldReservations :: "string \<Rightarrow> string \<Rightarrow> int option \<Rightarrow> 'd db \<Rightarrow> 'd db" where
  "reconcileHeldReservations p t below db =
     set_reservations (reconciled p t below) RSettled
       (db\<lparr>facts := facts db @ map unrecorded_fact
          (filter (\<lambda>r. reconciled p t below r \<and> \<not> has_fact db r) (reservations db))\<rparr>)"

definition ReconcileRetiredReservations :: "string \<Rightarrow> 'd db \<Rightarrow> 'd db" where
  "ReconcileRetiredReservations p db = reconcileHeldReservations p [] None db"

section \<open>Budgets\<close>

definition ownsFunding ::
  "(string \<Rightarrow> string option) \<Rightarrow> 'd db \<Rightarrow> string \<Rightarrow> string \<Rightarrow> string \<Rightarrow> err + unit" where
  "ownsFunding uuid_in db h k i =
     (if k = ''connection'' then
        (case uuid_in i of
           None \<Rightarrow> Inl (ErrBadRequest ''invalid input syntax for type uuid'')
         | Some u \<Rightarrow>
             if list_ex (\<lambda>c. c_human_id c = h \<and> c_connection_id c = u) (connections db) then Inr ()
             else if list_ex (\<lambda>c. c_connection_id c = u) (connections db) then Inl ErrFundingForbidden
             else Inl ErrFundingNotFound)
      else if k = ''sumi'' then
        rbind (text_params [i]) (\<lambda>_.
          if list_ex (\<lambda>g. g_funding_id g = i \<and> g_human_id g = h \<and> \<not> g_revoked g) (grants db) then Inr ()
          else if list_ex (\<lambda>g. g_funding_id g = i) (grants db) then Inl ErrFundingForbidden
          else Inl ErrFundingNotFound)
      else Inl (ErrBadRequest ''funding kind is not user-managed''))"

text \<open>\<^verbatim>\<open>char_length\<close> of UTF-8 text: the bytes that are not continuation bytes.\<close>

definition char_length :: "string \<Rightarrow> nat" where
  "char_length s = length (filter (\<lambda>c. \<not> (128 \<le> (of_char c :: nat) \<and> (of_char c :: nat) < 192)) s)"

definition budget_valid :: "budget_row \<Rightarrow> bool" where
  "budget_valid b \<longleftrightarrow> \<not> (b_limit_minor b < 0 \<or> length (b_currency b) \<noteq> 3 \<or> b_rate_input b < 0
     \<or> b_rate_output b < 0 \<or> (case b_rate_cached b of None \<Rightarrow> False | Some r \<Rightarrow> r < 0))"

text \<open>\<^verbatim>\<open>INSERT INTO usage_budgets .. ON CONFLICT DO UPDATE\<close> with the columns' constraints.\<close>

definition upsert_budget :: "budget_row \<Rightarrow> 'd db \<Rightarrow> err + 'd db" where
  "upsert_budget b db =
     rbind (with_dataErr (text_params [b_funding_kind b, b_funding_id b, b_currency b, b_pricing_revision b])) (\<lambda>_.
     rbind (with_dataErr (guard (char_length (b_currency b) = 3) (ErrData ''usage_budgets_currency_check''))) (\<lambda>_.
       Inr (if budgetForFunding db (b_funding_kind b) (b_funding_id b) = None
            then db\<lparr>budgets := budgets db @ [b]\<rparr>
            else db\<lparr>budgets := upd (is_budget (b_funding_kind b) (b_funding_id b)) (\<lambda>_. b) (budgets db)\<rparr>)))"

definition ResumeWaitsForFunding ::
  "(string \<Rightarrow> string option) \<Rightarrow> timestamp \<Rightarrow> string \<Rightarrow> string \<Rightarrow> 'd db \<Rightarrow> 'd db \<times> (err + nat)" where
  "ResumeWaitsForFunding uuid_in now k i db = run_tx (resumeFundingWaitsTx uuid_in now k i) db"

text \<open>
  The configuration commands write in one transaction and resume in the next: an error of the
  resume leaves the new cap in force.
\<close>

definition write_budget ::
  "(string \<Rightarrow> string option) \<Rightarrow> timestamp \<Rightarrow> string \<Rightarrow> string \<Rightarrow> budget_row \<Rightarrow> 'd db \<Rightarrow> 'd db \<times> (err + budget_row)" where
  "write_budget uuid_in now k i b0 db =
     (if \<not> budget_valid b0
      then (db, Inl (ErrBadRequest ''limit, 3-letter currency and non-negative rates are required''))
      else
        let b = b0\<lparr>b_funding_kind := k, b_funding_id := i\<rparr> in
        case upsert_budget b db of
          Inl e \<Rightarrow> (db, Inl e)
        | Inr db1 \<Rightarrow>
            (case ResumeWaitsForFunding uuid_in now k i db1 of
               (db2, Inl e) \<Rightarrow> (db2, Inl e)
             | (db2, Inr _) \<Rightarrow> (db2, Inr b)))"

definition SetBudget ::
  "(string \<Rightarrow> string option) \<Rightarrow> timestamp \<Rightarrow> string \<Rightarrow> string \<Rightarrow> string \<Rightarrow> budget_row \<Rightarrow> 'd db
     \<Rightarrow> 'd db \<times> (err + budget_row)" where
  "SetBudget uuid_in now h k i b db = (case ownsFunding uuid_in db h k i of
     Inl e \<Rightarrow> (db, Inl e) | Inr _ \<Rightarrow> write_budget uuid_in now k i b db)"

definition SetBudgetAdmin ::
  "(string \<Rightarrow> string option) \<Rightarrow> timestamp \<Rightarrow> string \<Rightarrow> string \<Rightarrow> budget_row \<Rightarrow> 'd db \<Rightarrow> 'd db \<times> (err + budget_row)" where
  "SetBudgetAdmin uuid_in now k i b db =
     (if k \<notin> set [''connection'', ''sumi'', ''operator'']
      then (db, Inl (ErrBadRequest ''funding kind must be connection, sumi or operator''))
      else write_budget uuid_in now k i b db)"

definition clearBudget ::
  "(string \<Rightarrow> string option) \<Rightarrow> timestamp \<Rightarrow> string \<Rightarrow> string \<Rightarrow> 'd db \<Rightarrow> 'd db \<times> (err + unit)" where
  "clearBudget uuid_in now k i db =
     (case text_params [i] of
        Inl e \<Rightarrow> (db, Inl e)
      | Inr _ \<Rightarrow>
          if budgetForFunding db k i = None then (db, Inl ErrFundingNotFound)
          else (case ResumeWaitsForFunding uuid_in now k i
                  (db\<lparr>budgets := filter (\<lambda>b. \<not> is_budget k i b) (budgets db)\<rparr>) of
                  (db2, Inl e) \<Rightarrow> (db2, Inl e)
                | (db2, Inr _) \<Rightarrow> (db2, Inr ())))"

definition ClearBudget ::
  "(string \<Rightarrow> string option) \<Rightarrow> timestamp \<Rightarrow> string \<Rightarrow> string \<Rightarrow> string \<Rightarrow> 'd db \<Rightarrow> 'd db \<times> (err + unit)" where
  "ClearBudget uuid_in now h k i db = (case ownsFunding uuid_in db h k i of
     Inl e \<Rightarrow> (db, Inl e) | Inr _ \<Rightarrow> clearBudget uuid_in now k i db)"

definition ClearBudgetAdmin ::
  "(string \<Rightarrow> string option) \<Rightarrow> timestamp \<Rightarrow> string \<Rightarrow> string \<Rightarrow> 'd db \<Rightarrow> 'd db \<times> (err + unit)" where
  "ClearBudgetAdmin uuid_in now k i db =
     (if k \<notin> set [''connection'', ''sumi'', ''operator'']
      then (db, Inl (ErrBadRequest ''funding kind must be connection, sumi or operator''))
      else clearBudget uuid_in now k i db)"

text \<open>\<^verbatim>\<open>BudgetView\<close>: the cap with its live spend and what remains.\<close>

definition BudgetView :: "'d db \<Rightarrow> string \<Rightarrow> string \<Rightarrow> err + (budget_row \<times> int \<times> int \<times> int) option" where
  "BudgetView db k i =
     (case budgetForFunding db k i of
        None \<Rightarrow> Inr None
      | Some b \<Rightarrow> rbind (fundingSpend db k i (b_currency b)) (\<lambda>(spent, held).
          Inr (Some (b, spent, held, i64 (i64 (b_limit_minor b - spent) - held)))))"

section \<open>Lemmas\<close>

lemma le_div_iff_int: "0 < r \<Longrightarrow> (t::int) \<le> m div r \<longleftrightarrow> t * r \<le> m"
proof -
  assume r: "0 < r"
  define q where "q = m div r"
  have lo: "q * r \<le> m" and hi: "m < (q + 1) * r"
    using r pos_mod_bound [OF r, of m] pos_mod_sign [OF r, of m] div_mult_mod_eq [of m r]
    unfolding q_def distrib_right by linarith+
  show ?thesis
  proof
    assume "t \<le> m div r"
    then have "t * r \<le> q * r" using r by (simp add: q_def)
    with lo show "t * r \<le> m" by simp
  next
    assume "t * r \<le> m"
    with hi have "t * r < (q + 1) * r" by linarith
    then show "t \<le> m div r" using r by (simp add: q_def)
  qed
qed

lemma priceTokens_spec:
  "priceTokens t r =
     (if t < 0 \<or> r < 0 then Inl (ErrBadRequest ''negative token quantity or rate'')
      else if MaxInt64 - 999999 < t * r then Inl (ErrBadRequest ''token/rate product overflows minor units'')
      else Inr (- ((- (t * r)) div 1000000)))"
proof (cases "0 < t \<and> 0 < r")
  case True
  let ?M = "MaxInt64 - 999999"
  have M: "i64 (MaxInt64 - i64 (tokensPerMTok - 1)) = ?M"
    by (simp add: i64_def MaxInt64_def tokensPerMTok_def)
  have "go_div ?M r = ?M div r" using True by (simp add: go_div_nonneg MaxInt64_def)
  moreover have "t \<le> ?M div r \<longleftrightarrow> t * r \<le> ?M" using True le_div_iff_int by blast
  ultimately have over: "t > go_div ?M r \<longleftrightarrow> ?M < t * r" by linarith
  show ?thesis
  proof (cases "?M < t * r")
    case False
    define x where "x = t * r"
    have x: "0 < x" "x \<le> ?M" using True False by (simp_all add: x_def)
    have "i64 (i64 (i64 x + tokensPerMTok) - 1) = x + 999999"
      using x by (simp add: i64_def MaxInt64_def tokensPerMTok_def mod_simps)
    moreover have "go_div (x + 999999) tokensPerMTok = - ((- x) div 1000000)"
      using x by (simp add: go_div_nonneg tokensPerMTok_def)
    ultimately show ?thesis using True False M over by (simp add: priceTokens_def flip: x_def)
  qed (use True M over in \<open>simp add: priceTokens_def\<close>)
next
  case False
  then show ?thesis by (auto simp: priceTokens_def MaxInt64_def)
qed

lemma priceTokens_ok: "priceTokens t r = Inr c \<Longrightarrow> 0 \<le> c \<and> in_i64 c"
proof -
  assume a: "priceTokens t r = Inr c"
  then have "0 \<le> t * r" "t * r \<le> MaxInt64 - 999999" "c = - ((- (t * r)) div 1000000)"
    by (auto simp: priceTokens_spec split: if_splits)
  moreover have "0 \<le> x \<Longrightarrow> x \<le> MaxInt64 - 999999 \<Longrightarrow>
      0 \<le> - ((- x) div 1000000) \<and> in_i64 (- ((- x) div 1000000))" for x
    unfolding in_i64_def MaxInt64_def by linarith
  ultimately show ?thesis by blast
qed

lemma addMinor_ok:
  assumes "addMinor a b = Inr c" "0 \<le> a" "0 \<le> b" "in_i64 a" "in_i64 b"
  shows "c = a + b \<and> 0 \<le> c \<and> in_i64 c"
  using assms by (auto simp: addMinor_def in_i64_def i64_id MaxInt64_def split: if_splits)

lemma priceEstimate_ok:
  assumes "priceEstimate est cd = Inr (n, bd)"
  shows "0 \<le> n \<and> in_i64 n \<and> bd = (est_output_bound est \<noteq> None)"
  using assms
  by (auto simp: priceEstimate_def res_simps split: option.splits dest!: priceTokens_ok dest: addMinor_ok)

lemma budgetAdmits_exact:
  assumes "0 \<le> spent + held" "in_i64 (spent + held)" "0 \<le> needed" "in_i64 limit"
  shows "budgetAdmits limit spent held needed \<longleftrightarrow> spent + held + needed \<le> limit"
proof -
  have "needed \<le> limit \<Longrightarrow> i64 (limit - needed) = limit - needed"
    using assms by (intro i64_id) (auto simp: in_i64_def MaxInt64_def)
  moreover have "i64 (spent + held) = spent + held" by (rule i64_id) (rule assms(2))
  ultimately show ?thesis using assms(1,3) by (auto simp: budgetAdmits_def)
qed

lemma nullif_coalesce [simp]: "coalesce (nullif x) = x"
  by (simp add: coalesce_def nullif_def)

lemma res_of_snoc:
  "res_of (db\<lparr>reservations := reservations db @ [r]\<rparr>) p f =
     (case res_of db p f of None \<Rightarrow> (if is_res p f r then Some r else None) | Some x \<Rightarrow> Some x)"
  by (simp add: res_of_def find_append split: option.splits)

lemma AdmitUsage_cases:
  assumes "AdmitUsage uuid_in p q db = Inr (db', Admitted r)"
  obtains (replayed) x where "res_of db p (aq_fact_id q) = Some x" "db' = db" "admit_replay q x db = Inr (db, Admitted r)"
    | (uncapped) "res_of db p (aq_fact_id q) = None"
        "budgetForFunding db (f_kind (aq_funding q)) (f_id (aq_funding q)) = None"
        "insert_reservation p q None 0 db = Inr (db', Admitted r)"
    | (capped) b spent held needed bd where "res_of db p (aq_fact_id q) = None"
        "budgetForFunding db (f_kind (aq_funding q)) (f_id (aq_funding q)) = Some b"
        "priceEstimate (aq_estimate q) (snapshot b) = Inr (needed, bd)"
        "fundingSpend db (f_kind (aq_funding q)) (f_id (aq_funding q)) (b_currency b) = Inr (spent, held)"
        "budgetAdmits (b_limit_minor b) spent held needed"
        "insert_reservation p q (Some (snapshot b)) needed db = Inr (db', Admitted r)"
proof (cases "res_of db p (aq_fact_id q)")
  case (Some x)
  with assms have "admit_replay q x db = Inr (db', Admitted r)"
    by (auto simp: AdmitUsage_def res_simps split: if_splits)
  moreover from this have "db' = db" by (auto simp: admit_replay_def split: if_splits)
  ultimately show ?thesis using Some replayed by blast
next
  case None
  show ?thesis
  proof (cases "budgetForFunding db (f_kind (aq_funding q)) (f_id (aq_funding q))")
    case Nb: None
    with assms None show ?thesis by (intro uncapped) (auto simp: AdmitUsage_def res_simps split: if_splits)
  next
    case (Some b)
    with assms None have "admit_capped p q b db = Inr (db', Admitted r)"
      by (auto simp: AdmitUsage_def res_simps split: if_splits)
    then show ?thesis using capped [OF None Some]
      by (auto simp: admit_capped_def res_simps split: if_splits)
  qed
qed

lemma insert_reservation_ok:
  assumes "insert_reservation p q cd n db = Inr (db', Admitted r)"
  shows "db' = db\<lparr>reservations := reservations db @ [new_reservation p q cd n]\<rparr>"
    "r = \<lparr>ur_fact_id = aq_fact_id q, ur_reserved_minor = n, ur_currency = cardCurrency cd,
         ur_bounded = (est_output_bound (aq_estimate q) \<noteq> None)\<rparr>"
  using assms by (auto simp: insert_reservation_def res_simps)

lemma fundingSpend_ok:
  "fundingSpend db k i c = Inr (s, h) \<longleftrightarrow> s = spent_minor db k i c \<and> h = held_minor db k i c \<and> in_i64 s \<and> in_i64 h"
  by (auto simp: fundingSpend_def)

subsection \<open>What resuming waits touches\<close>

lemma requeue_parked_frame:
  "requeue_parked now p i db = (db', n) \<Longrightarrow> db' = db\<lparr>inputs := inputs db'\<rparr>"
  by (auto simp: requeue_parked_def)

lemma resume_loop_frame:
  "resume_loop now room ws db = (db', n) \<Longrightarrow> db' = db\<lparr>waits := waits db', inputs := inputs db'\<rparr>"
proof (induction ws arbitrary: db db' n)
  case (Cons w ws)
  show ?case
  proof (cases "fit room (wait_estimate w)")
    case (Inl e)
    with Cons show ?thesis by simp
  next
    case (Inr r)
    obtain b needed where r: "r = (b, needed)" by fastforce
    show ?thesis
    proof (cases b)
      case True
      let ?d = "delete_wait (w_persona_id w) (w_input_id w) db"
      obtain db1 k db2 m where 1: "requeue_parked now (w_persona_id w) (w_input_id w) ?d = (db1, k)"
        and 2: "resume_loop now room ws db1 = (db2, m)" by fastforce
      have "db' = db2" using Cons.prems Inr r True 1 2 by simp
      with Cons.IH [OF 2] have "db' = db1\<lparr>waits := waits db', inputs := inputs db'\<rparr>" by simp
      also have "db1 = ?d\<lparr>inputs := inputs db1\<rparr>" using requeue_parked_frame [OF 1] .
      finally show ?thesis by (simp add: delete_wait_def)
    next
      case False
      from Cons.prems Inr r False have "resume_loop now room ws (db\<lparr>waits := upd (is_wait (w_persona_id w) (w_input_id w))
             (\<lambda>x. x\<lparr>w_needed_minor := needed,
                    w_currency := (case h_budget room of None \<Rightarrow> [] | Some b \<Rightarrow> b_currency b)\<rparr>) (waits db)\<rparr>) = (db', n)"
        by simp
      from Cons.IH [OF this] show ?thesis by simp
    qed
  qed
qed simp

lemma resumeFundingWaitsTx_frame:
  assumes "resumeFundingWaitsTx u now k i db = Inr (db', n)"
  shows "db' = db\<lparr>waits := waits db', inputs := inputs db', chunks := chunks db'\<rparr>"
proof -
  from assms obtain room where room: "fundingHeadroom db k i = Inr room"
    by (auto simp: resumeFundingWaitsTx_def res_simps)
  obtain db1 m where 1: "resume_loop now room (funding_waits db k i) db = (db1, m)" by fastforce
  with assms room obtain hs where "db' = (if hs = [] then db1 else unparkChunks hs db1)"
    by (auto simp: resumeFundingWaitsTx_def res_simps)
  moreover from resume_loop_frame [OF 1] obtain ws js where "db1 = db\<lparr>waits := ws, inputs := js\<rparr>" by blast
  ultimately show ?thesis by (simp add: unparkChunks_def)
qed

lemma resumeFundingWaitsTx_same:
  assumes "resumeFundingWaitsTx u now k i db = Inr (db', n)"
  shows "facts db' = facts db" "reservations db' = reservations db" "budgets db' = budgets db"
    "personas db' = personas db" "connections db' = connections db" "grants db' = grants db"
proof -
  from resumeFundingWaitsTx_frame [OF assms] obtain a b c where "db' = db\<lparr>waits := a, inputs := b, chunks := c\<rparr>"
    by blast
  then show "facts db' = facts db" "reservations db' = reservations db" "budgets db' = budgets db"
    "personas db' = personas db" "connections db' = connections db" "grants db' = grants db" by simp_all
qed

lemma resume_fundings_frame:
  "resume_fundings u now fs db = Inr db' \<Longrightarrow> db' = db\<lparr>waits := waits db', inputs := inputs db', chunks := chunks db'\<rparr>"
proof (induction u now fs db arbitrary: db' rule: resume_fundings.induct)
  case (2 u now k i fs db)
  from "2.prems" obtain db1 n where 1: "resumeFundingWaitsTx u now k i db = Inr (db1, n)"
    and 2: "resume_fundings u now fs db1 = Inr db'" by (auto simp: res_simps)
  from resumeFundingWaitsTx_frame [OF 1] obtain a b c where "db1 = db\<lparr>waits := a, inputs := b, chunks := c\<rparr>" by blast
  moreover from "2.IH" [OF 2] obtain a' b' c' where "db' = db1\<lparr>waits := a', inputs := b', chunks := c'\<rparr>" by blast
  ultimately show ?case by simp
qed simp

lemma resume_fundings_same:
  assumes "resume_fundings u now fs db = Inr db'"
  shows "facts db' = facts db" "reservations db' = reservations db" "budgets db' = budgets db"
    "personas db' = personas db" "connections db' = connections db" "grants db' = grants db"
proof -
  from resume_fundings_frame [OF assms] obtain a b c where "db' = db\<lparr>waits := a, inputs := b, chunks := c\<rparr>"
    by blast
  then show "facts db' = facts db" "reservations db' = reservations db" "budgets db' = budgets db"
    "personas db' = personas db" "connections db' = connections db" "grants db' = grants db" by simp_all
qed

lemma record_fresh_ok:
  assumes "record_fresh u now p q res c db = Inr (db', g, fresh)"
  shows "facts db' = facts db @ [new_fact p q c]" "g = new_fact p q c" "fresh"
    "\<exists>st. reservations db' = upd (\<lambda>r. is_res p (rq_fact_id q) r \<and> r_status r = RHeld) (\<lambda>r. r\<lparr>r_status := st\<rparr>) (reservations db)"
    "budgets db' = budgets db" "personas db' = personas db" "connections db' = connections db" "grants db' = grants db"
  using assms
  by (auto simp: record_fresh_def Let_def res_simps set_reservations_def resumeFundingWaitsTx_same split: option.splits)

lemma record_upgrade_ok:
  assumes "record_existing u now p q res c f db = Inr (db', g, fresh)" "lattice f q = Upgrade"
  shows "facts db' = upd (is_fact p (rq_fact_id q)) (upgraded q c) (facts db)" "g = upgraded q c f" "\<not> fresh"
    "\<exists>P st. reservations db' = upd P (\<lambda>r. r\<lparr>r_status := st\<rparr>) (reservations db)"
    "budgets db' = budgets db" "personas db' = personas db" "connections db' = connections db" "grants db' = grants db"
proof -
  from assms obtain db2 where r: "resume_fundings u now (upgrade_fundings f res) db2 = Inr db'"
    and d: "db2 = (if rq_status q = ''not_sent'' then set_reservations (is_res p (rq_fact_id q)) RReleased
        (db\<lparr>facts := upd (is_fact p (rq_fact_id q)) (upgraded q c) (facts db)\<rparr>)
       else db\<lparr>facts := upd (is_fact p (rq_fact_id q)) (upgraded q c) (facts db)\<rparr>)"
    and "g = upgraded q c f" "\<not> fresh"
    by (auto simp: record_existing_def Let_def res_simps)
  then show "g = upgraded q c f" "\<not> fresh" by simp_all
  note same = resume_fundings_same [OF r]
  show "facts db' = upd (is_fact p (rq_fact_id q)) (upgraded q c) (facts db)"
    "budgets db' = budgets db" "personas db' = personas db" "connections db' = connections db" "grants db' = grants db"
    by (simp_all add: same d set_reservations_def)
  have "reservations db2 = upd (is_res p (rq_fact_id q)) (\<lambda>r. r\<lparr>r_status := RReleased\<rparr>) (reservations db)
      \<or> reservations db2 = upd (\<lambda>_. False) (\<lambda>r. r\<lparr>r_status := RReleased\<rparr>) (reservations db)"
    by (simp add: d set_reservations_def upd_id)
  then show "\<exists>P st. reservations db' = upd P (\<lambda>r. r\<lparr>r_status := st\<rparr>) (reservations db)" using same(2) by auto
qed

lemma record_same_res:
  assumes "budgets db' = budgets db" "personas db' = personas db" "connections db' = connections db" "grants db' = grants db"
    and "reservations db' = upd P (\<lambda>r. r\<lparr>r_status := st\<rparr>) (reservations db)"
  shows "record_payer u db' p q (res_of db' p x) = record_payer u db p q (res_of db p x)"
    "record_price db' q (res_of db' p x) = record_price db q (res_of db p x)"
proof -
  have r: "res_of db' p x = map_option (\<lambda>r. if P r then r\<lparr>r_status := st\<rparr> else r) (res_of db p x)"
    unfolding res_of_def assms(5) by (rule find_upd) (simp add: is_res_def)
  have per: "persona_of db' = persona_of db" by (simp add: persona_of_def assms fun_eq_iff)
  then have fa: "fundingAllowed u db' p f = fundingAllowed u db p f" for f
    by (simp add: fundingAllowed_def assms split: option.split)
  show "record_payer u db' p q (res_of db' p x) = record_payer u db p q (res_of db p x)"
    by (cases "res_of db p x") (simp_all add: r record_payer_def fa)
  have snap: "res_snapshot (Some (a\<lparr>r_status := st\<rparr>)) = res_snapshot (Some a)" for a
    by (simp add: res_snapshot_def split: option.split)
  have b: "budgetForFunding db' = budgetForFunding db" by (simp add: budgetForFunding_def assms fun_eq_iff)
  show "record_price db' q (res_of db' p x) = record_price db q (res_of db p x)"
    by (cases "res_of db p x") (simp_all add: r record_price_def Let_def snap b split: option.split)
qed

lemma new_fact_matches:
  "status_text (status_of (rq_status q)) = rq_status q \<Longrightarrow> factMatches (new_fact p q c) q"
  by (simp add: factMatches_def sameCallIdentity_def new_fact_def with_cost_def split: prod.splits)

lemma upgraded_matches:
  "sameCallIdentity f q \<Longrightarrow> status_text (status_of (rq_status q)) = rq_status q \<Longrightarrow> factMatches (upgraded q c f) q"
  by (simp add: factMatches_def sameCallIdentity_def upgraded_def with_cost_def split: prod.splits)

lemma record_redelivery_aux:
  assumes "RecordUsage uuid_in now p q db = Inr (db', g, fresh)"
  shows "RecordUsage uuid_in now' p q db' = Inr (db', g, False)"
proof -
  let ?x = "rq_fact_id q"
  from assms obtain c where pre: "record_request_ok q = Inr ()" "text_params [?x] = Inr ()" "fact_params q = Inr ()"
      "persona_of db p \<noteq> None"
    and payer: "record_payer uuid_in db p q (res_of db p ?x) = Inr ()"
    and price: "record_price db q (res_of db p ?x) = Inr c"
    and body: "(case usageFact db p ?x of
             Some f \<Rightarrow> record_existing uuid_in now p q (res_of db p ?x) c f db
           | None \<Rightarrow> record_fresh uuid_in now p q (res_of db p ?x) c db) = Inr (db', g, fresh)"
    by (auto simp: RecordUsage_def res_simps Let_def)
  have again: ?thesis
    if "budgets db' = budgets db" "personas db' = personas db" "connections db' = connections db" "grants db' = grants db"
      and "reservations db' = upd P (\<lambda>r. r\<lparr>r_status := st\<rparr>) (reservations db)"
      and f: "usageFact db' p ?x = Some g" "factMatches g q" for P st
  proof -
    have "record_payer uuid_in db' p q (res_of db' p ?x) = Inr ()" "record_price db' q (res_of db' p ?x) = Inr c"
      using record_same_res [of db' db P st] that payer price by simp_all
    moreover have "persona_of db' p \<noteq> None" using pre(4) that(2) by (simp add: persona_of_def)
    moreover have "lattice g q = Replay" using f(2) by (simp add: lattice_def factMatches_def)
    ultimately show ?thesis using pre f by (simp add: RecordUsage_def record_existing_def)
  qed
  have st: "status_text (status_of (rq_status q)) = rq_status q"
    using pre(1) by (auto simp: record_request_ok_def status_of_def status_text_def split: if_splits)
  show ?thesis
  proof (cases "usageFact db p ?x")
    case None
    with body have r: "record_fresh uuid_in now p q (res_of db p ?x) c db = Inr (db', g, fresh)" by simp
    note ok = record_fresh_ok [OF r]
    have "usageFact db' p ?x = Some g"
      using None ok(1,2) by (simp add: usageFact_def find_append is_fact_def new_fact_def with_cost_def split: prod.splits)
    moreover have "factMatches g q" using ok(2) st by (simp add: new_fact_matches)
    ultimately show ?thesis using again ok(4-8) by blast
  next
    case (Some f)
    with body have e: "record_existing uuid_in now p q (res_of db p ?x) c f db = Inr (db', g, fresh)" by simp
    show ?thesis
    proof (cases "lattice f q")
      case Replay
      with e have "db' = db" "g = f" by (simp_all add: record_existing_def)
      with pre payer price Some Replay show ?thesis by (simp add: RecordUsage_def record_existing_def)
    next
      case Upgrade
      note ok = record_upgrade_ok [OF e Upgrade]
      have id: "sameCallIdentity f q" using Upgrade by (auto simp: lattice_def split: if_splits)
      have "usageFact db' p ?x = map_option (\<lambda>r. if is_fact p ?x r then upgraded q c r else r) (usageFact db p ?x)"
        unfolding usageFact_def ok(1) by (rule find_upd) (simp add: is_fact_def upgraded_def with_cost_def split: prod.splits)
      then have "usageFact db' p ?x = Some g"
        using Some ok(2) by (auto simp: usageFact_def dest: find_SomeD)
      moreover have "factMatches g q" using ok(2) id st by (simp add: upgraded_matches)
      ultimately show ?thesis using again ok(4-8) by blast
    next
      case Conflict
      with e show ?thesis by (simp add: record_existing_def)
    qed
  qed
qed

subsection \<open>Sums over the ledger\<close>

lemma held_minor_facts [simp]: "held_minor (db\<lparr>facts := fs\<rparr>) k i c = held_minor db k i c"
  by (simp add: held_minor_def)

definition charged :: "string \<Rightarrow> string \<Rightarrow> string \<Rightarrow> reservation_row \<Rightarrow> bool" where
  "charged k i c r \<longleftrightarrow> f_kind (r_funding r) = k \<and> f_id (r_funding r) = i \<and> r_currency r = Some c"

lemma held_after_settle:
  "(\<And>r. P r \<Longrightarrow> r_status r = RHeld) \<Longrightarrow>
   held_minor (set_reservations P RSettled db) k i c =
     held_minor db k i c - sum_list (map r_reserved_minor (filter (\<lambda>r. P r \<and> charged k i c r) (reservations db)))"
proof -
  assume P: "\<And>r. P r \<Longrightarrow> r_status r = RHeld"
  have "sum_list (map r_reserved_minor (filter (\<lambda>r. f_kind (r_funding r) = k \<and> f_id (r_funding r) = i
          \<and> r_status r = RHeld \<and> r_currency r = Some c) (upd P (\<lambda>r. r\<lparr>r_status := RSettled\<rparr>) rs))) =
        sum_list (map r_reserved_minor (filter (\<lambda>r. f_kind (r_funding r) = k \<and> f_id (r_funding r) = i
          \<and> r_status r = RHeld \<and> r_currency r = Some c) rs)) -
        sum_list (map r_reserved_minor (filter (\<lambda>r. P r \<and> charged k i c r) rs))" for rs
    by (induction rs) (auto simp: charged_def P)
  then show ?thesis by (simp add: held_minor_def set_reservations_def)
qed

lemma spent_unrecorded:
  "sum_list (map (\<lambda>f. case u_cost_minor f of None \<Rightarrow> 0 | Some m \<Rightarrow> m)
     (filter (\<lambda>f. f_kind (u_funding f) = k \<and> f_id (u_funding f) = i \<and> u_currency f = Some c)
        (map unrecorded_fact rs))) = sum_list (map r_reserved_minor (filter (charged k i c) rs))"
  by (induction rs) (auto simp: unrecorded_fact_def charged_def)

subsection \<open>The resume pass\<close>

lemma approval_pending_cong: "approvals db' = approvals db \<Longrightarrow> approval_pending db' = approval_pending db"
  by (simp add: approval_pending_def fun_eq_iff)

text \<open>
  A wait fits when the current card admits its call; the calls a list of waits frees; and a wait row
  without the price shown to the user, which a pass refreshes.
\<close>

definition fits :: "funding_headroom \<Rightarrow> wait_row \<Rightarrow> bool" where
  "fits room w = (case fit room (wait_estimate w) of Inl _ \<Rightarrow> False | Inr (b, _) \<Rightarrow> b)"

definition frees :: "funding_headroom \<Rightarrow> wait_row list \<Rightarrow> string \<Rightarrow> string \<Rightarrow> bool" where
  "frees room ws p i = list_ex (\<lambda>w. is_wait p i w \<and> fits room w) ws"

definition unpriced :: "wait_row \<Rightarrow> wait_row" where
  "unpriced w = w\<lparr>w_needed_minor := 0, w_currency := []\<rparr>"

lemma fits_simps:
  "fit room (wait_estimate w) = Inl e \<Longrightarrow> \<not> fits room w" "fit room (wait_estimate w) = Inr (b, m) \<Longrightarrow> fits room w = b"
  by (simp_all add: fits_def)

lemma frees_Cons [simp]:
  "frees room [] p i = False" "frees room (w # ws) p i = (is_wait p i w \<and> fits room w \<or> frees room ws p i)"
  by (simp_all add: frees_def)

lemma frees_unpriced:
  "map unpriced xs = map unpriced ys \<Longrightarrow>
   map unpriced (filter (\<lambda>w. Q (w_persona_id w) (w_input_id w)) xs) = map unpriced (filter (\<lambda>w. Q (w_persona_id w) (w_input_id w)) ys)"
proof (induction xs arbitrary: ys)
  case (Cons x xs)
  then obtain y zs where y: "ys = y # zs" "unpriced x = unpriced y" "map unpriced xs = map unpriced zs" by auto
  have "w_persona_id (unpriced x) = w_persona_id (unpriced y)" "w_input_id (unpriced x) = w_input_id (unpriced y)" using y(2) by simp_all
  then have "w_persona_id x = w_persona_id y" "w_input_id x = w_input_id y" by (simp_all add: unpriced_def)
  with y Cons.IH show ?case by simp
qed simp

lemma unpriced_upd:
  "map unpriced (upd P (\<lambda>x. x\<lparr>w_needed_minor := m, w_currency := c\<rparr>) ws) = map unpriced ws"
  by (induction ws) (auto simp: unpriced_def)

text \<open>A pass over a list of waits, exactly.\<close>

lemma resume_loop_exact:
  assumes "resume_loop now room ws db = (db', n)"
  shows "inputs db' = map (\<lambda>r. if frees room ws (i_persona_id r) (i_input_id r) \<and> parked db (i_persona_id r) (i_input_id r) r
        then requeued now r else r) (inputs db)
    \<and> map unpriced (waits db') = map unpriced (filter (\<lambda>w. \<not> frees room ws (w_persona_id w) (w_input_id w)) (waits db))"
  using assms
proof (induction ws arbitrary: db n)
  case (Cons w ws)
  let ?p = "w_persona_id w" and ?i = "w_input_id w"
  consider (bad) e where "fit room (wait_estimate w) = Inl e"
    | (fitting) m where "fit room (wait_estimate w) = Inr (True, m)"
    | (short) m where "fit room (wait_estimate w) = Inr (False, m)"
    by (cases "fit room (wait_estimate w)") auto
  then show ?case
  proof cases
    case bad
    with Cons.IH [of db n] Cons.prems show ?thesis by (simp add: fits_simps)
  next
    case fitting
    let ?d = "delete_wait ?p ?i db"
    obtain db1 k m2 where 1: "requeue_parked now ?p ?i ?d = (db1, k)"
      and 2: "resume_loop now room ws db1 = (db', m2)" using Cons.prems(1) fitting by (auto split: prod.splits)
    have f: "fits room w" using fitting by (simp add: fits_simps)
    have d1: "db1 = ?d\<lparr>inputs := upd (parked ?d ?p ?i) (requeued now) (inputs db)\<rparr>"
      using 1 by (auto simp: requeue_parked_def delete_wait_def)
    have pk: "parked db1 = parked db" "parked ?d = parked db"
      by (simp_all add: fun_eq_iff parked_def d1 delete_wait_def approval_pending_def)
    have key: "parked db ?p ?i r \<Longrightarrow> i_persona_id r = ?p \<and> i_input_id r = ?i" for r by (simp add: parked_def is_input_def)
    have new: "\<not> parked db p i (requeued now r)" for p i r by (simp add: parked_def requeued_def)
    note ih = Cons.IH [OF 2]
    have "inputs db' = map (\<lambda>r. if frees room (w # ws) (i_persona_id r) (i_input_id r) \<and> parked db (i_persona_id r) (i_input_id r) r
        then requeued now r else r) (inputs db)"
    proof -
      have "(\<lambda>r. if frees room ws (i_persona_id r) (i_input_id r) \<and> parked db (i_persona_id r) (i_input_id r) r then requeued now r else r)
          (if parked db ?p ?i r then requeued now r else r)
        = (if frees room (w # ws) (i_persona_id r) (i_input_id r) \<and> parked db (i_persona_id r) (i_input_id r) r
           then requeued now r else r)" for r
      proof (cases "parked db ?p ?i r")
        case True
        with key [OF True] f new show ?thesis by (simp add: is_wait_def)
      next
        case False
        then have "\<not> (is_wait (i_persona_id r) (i_input_id r) w \<and> parked db (i_persona_id r) (i_input_id r) r)" by (auto simp: is_wait_def)
        with False show ?thesis by auto
      qed
      moreover have "inputs db1 = map (\<lambda>r. if parked db ?p ?i r then requeued now r else r) (inputs db)"
        unfolding d1 pk by (simp add: upd_def)
      ultimately show ?thesis using ih unfolding pk by (simp del: frees_Cons)
    qed
    moreover have "waits db1 = filter (\<lambda>w. \<not> is_wait ?p ?i w) (waits db)" by (simp add: d1 delete_wait_def)
    then have "map unpriced (waits db') = map unpriced (filter (\<lambda>v. \<not> frees room (w # ws) (w_persona_id v) (w_input_id v)) (waits db))"
      using ih f by (auto simp: is_wait_def intro!: arg_cong [of _ _ "map unpriced"] filter_cong)
    ultimately show ?thesis by blast
  next
    case (short m)
    let ?f = "\<lambda>x. x\<lparr>w_needed_minor := m, w_currency := (case h_budget room of None \<Rightarrow> [] | Some b \<Rightarrow> b_currency b)\<rparr>"
    let ?db1 = "db\<lparr>waits := upd (is_wait ?p ?i) ?f (waits db)\<rparr>"
    have 2: "resume_loop now room ws ?db1 = (db', n)" using Cons.prems(1) short by simp
    have pk: "parked ?db1 = parked db" by (simp add: fun_eq_iff parked_def approval_pending_def)
    have "\<not> fits room w" using fits_simps(2) [OF short] by simp
    with Cons.IH [OF 2] frees_unpriced [OF unpriced_upd] show ?thesis unfolding pk by simp
  qed
qed simp

section \<open>Properties\<close>

text \<open>
  Pricing is exact and never wraps: for every token count and rate the 64 bit computation
  either refuses (a negative argument, or a product past the last value whose rounding fits) or
  returns the true ceiling of tokens times rate over a million, so a nonzero cost is never zero.
\<close>

lemma priceTokens_exact:
  "priceTokens tokens rate =
     (if tokens < 0 \<or> rate < 0 then Inl (ErrBadRequest ''negative token quantity or rate'')
      else if 2 ^ 63 - 1000000 < tokens * rate
      then Inl (ErrBadRequest ''token/rate product overflows minor units'')
      else Inr \<lceil>rat_of_int (tokens * rate) / 1000000\<rceil>)"
proof -
  have "\<lceil>rat_of_int x / 1000000\<rceil> = - ((- x) div 1000000)" for x
    by (metis ceiling_divide_eq_div of_int_numeral)
  then show ?thesis by (simp add: priceTokens_spec MaxInt64_def del: of_int_mult)
qed

text \<open>The price of a token count at a rate per million tokens, and of an estimate under a card.\<close>

definition per_million :: "int \<Rightarrow> int \<Rightarrow> int" where
  "per_million tokens rate = \<lceil>rat_of_int (tokens * rate) / 1000000\<rceil>"

lemma priceEstimate_exact:
  assumes "priceEstimate est cd = Inr (needed, bd)"
  shows "needed = per_million (est_input_tokens est) (rs_input cd)
    + (case est_output_bound est of None \<Rightarrow> 0 | Some t \<Rightarrow> per_million t (rs_output cd))"
proof (cases "est_output_bound est")
  case None
  with assms show ?thesis by (auto simp: priceEstimate_def rbind_eq_Inr priceTokens_exact per_million_def split: if_splits)
next
  case (Some t)
  with assms obtain a b where a: "priceTokens (est_input_tokens est) (rs_input cd) = Inr a"
    and b: "priceTokens t (rs_output cd) = Inr b" and ab: "addMinor a b = Inr needed"
    by (auto simp: priceEstimate_def rbind_eq_Inr)
  have "needed = a + b" using addMinor_ok [OF ab] priceTokens_ok [OF a] priceTokens_ok [OF b] by blast
  with a b Some show ?thesis by (auto simp: priceTokens_exact per_million_def split: if_splits)
qed

text \<open>
  C35. A cap is a cap: a new admission under a configured budget stores one hold, and its amount is
  the price of the estimate under the budget's rates (each token count times its rate per million
  tokens, rounded up, and no output price for a call without an output bound). It leaves settled
  spend plus holds within the limit, and nothing already spent or held changes. The budget is a
  stored one (positive limit within \<^verbatim>\<open>bigint\<close>), and settled spend plus holds before the call is taken to
  fit an \<^verbatim>\<open>int64\<close>: beyond that the sum wraps and the test admits, see \<open>budgetAdmits_wraps\<close>.
\<close>

theorem admission_within_cap:
  assumes "AdmitUsage uuid_in p q db = Inr (db', Admitted r)" and "res_of db p (aq_fact_id q) = None"
    and "k = f_kind (aq_funding q)" and "i = f_id (aq_funding q)"
    and "budgetForFunding db k i = Some b" and "budget_valid b" and "in_i64 (b_limit_minor b)"
    and "0 \<le> spent_minor db k i (b_currency b) + held_minor db k i (b_currency b)"
    and "spent_minor db k i (b_currency b) + held_minor db k i (b_currency b) \<le> MaxInt64"
  shows "spent_minor db' k i (b_currency b) + held_minor db' k i (b_currency b) \<le> b_limit_minor b
    \<and> spent_minor db' k i (b_currency b) = spent_minor db k i (b_currency b)
    \<and> held_minor db' k i (b_currency b) = held_minor db k i (b_currency b) + ur_reserved_minor r
    \<and> ur_reserved_minor r = per_million (est_input_tokens (aq_estimate q)) (b_rate_input b)
        + (case est_output_bound (aq_estimate q) of None \<Rightarrow> 0 | Some t \<Rightarrow> per_million t (b_rate_output b))
    \<and> 0 \<le> ur_reserved_minor r
    \<and> db' = db\<lparr>reservations := reservations db @ [new_reservation p q (Some (snapshot b)) (ur_reserved_minor r)]\<rparr>"
  using assms(1)
proof (cases rule: AdmitUsage_cases)
  case (capped b' spent held needed bd)
  then have b': "b' = b" using assms(3-5) by simp
  note ins = insert_reservation_ok [OF capped(6)]
  have sp: "spent = spent_minor db k i (b_currency b)" "held = held_minor db k i (b_currency b)"
    using capped(4) assms(3,4) by (simp_all add: fundingSpend_ok b')
  have cur: "nullif (b_currency b) = Some (b_currency b)"
    using assms(6) by (auto simp: nullif_def budget_valid_def)
  have "spent_minor db' k i (b_currency b) = spent"
    by (simp add: ins sp spent_minor_def)
  moreover have "held_minor db' k i (b_currency b) = held + needed"
    using assms(3,4) cur by (simp add: ins sp held_minor_def new_reservation_def cardCurrency_def snapshot_def b')
  moreover have "spent + held + needed \<le> b_limit_minor b" "0 \<le> needed"
    using capped(5) budgetAdmits_exact [of spent held needed "b_limit_minor b"] assms(7-9) priceEstimate_ok [OF capped(3)]
    by (simp_all add: sp b' in_i64_def)
  moreover have "needed = per_million (est_input_tokens (aq_estimate q)) (b_rate_input b)
      + (case est_output_bound (aq_estimate q) of None \<Rightarrow> 0 | Some t \<Rightarrow> per_million t (b_rate_output b))"
    using priceEstimate_exact [OF capped(3)] by (simp add: snapshot_def b' cong: option.case_cong)
  ultimately show ?thesis by (simp add: ins sp b')
qed (use assms in auto)

definition demo_funding :: funding_ref where
  "demo_funding = \<lparr>f_kind = ''operator'', f_id = ''env'', f_version = [], f_model = ''m'', f_provider = []\<rparr>"

definition demo_budget :: budget_row where
  "demo_budget = \<lparr>b_funding_kind = ''operator'', b_funding_id = ''env'', b_limit_minor = 100, b_currency = ''USD'',
     b_rate_input = 1500000, b_rate_output = 2000000, b_rate_cached = None, b_pricing_revision = ''r1''\<rparr>"

definition demo_admit :: admit_request where
  "demo_admit = \<lparr>aq_generation = 4, aq_fact_id = ''f1'', aq_kind = ''model'', aq_phase = ''plan'', aq_turn_id = ''t1'',
     aq_input_id = ''in-1'', aq_round = 0, aq_funding = demo_funding,
     aq_estimate = \<lparr>est_input_tokens = 11, est_output_bound = Some 20\<rparr>\<rparr>"

definition demo_capped :: "unit db" where
  "demo_capped = demo_running\<lparr>budgets := [demo_budget]\<rparr>"

lemmas demo_usage_defs = demo_capped_def demo_admit_def demo_budget_def demo_funding_def demo_run_defs

lemma demo_admitted:
  "AdmitUsage (\<lambda>_. None) ''p1'' demo_admit demo_capped =
     Inr (demo_capped\<lparr>reservations := [new_reservation ''p1'' demo_admit (Some (snapshot demo_budget)) 57]\<rparr>,
          Admitted \<lparr>ur_fact_id = ''f1'', ur_reserved_minor = 57, ur_currency = ''USD'', ur_bounded = True\<rparr>)"
  by (simp add: AdmitUsage_def requireGeneration_def lease_of_def is_lease_def persona_of_def is_persona_def
      fundingAllowed_def text_params_def res_of_def budgetForFunding_def is_budget_def admit_capped_def
      priceEstimate_def priceTokens_spec addMinor_def fundingSpend_def spent_minor_def held_minor_def
      budgetAdmits_def snapshot_def insert_reservation_def in_int4_def cardCurrency_def funding_texts_def
      i64_def in_i64_def MaxInt64_def demo_usage_defs)

theorem admission_within_cap_witness:
  "\<exists>db' r. AdmitUsage (\<lambda>_. None) ''p1'' demo_admit demo_capped = Inr (db', Admitted r) \<and> ur_reserved_minor r = 57
     \<and> spent_minor db' ''operator'' ''env'' ''USD'' + held_minor db' ''operator'' ''env'' ''USD'' \<le> 100"
proof -
  have h: "res_of demo_capped ''p1'' (aq_fact_id demo_admit) = None" "''operator'' = f_kind (aq_funding demo_admit)"
      "''env'' = f_id (aq_funding demo_admit)"
      "budgetForFunding demo_capped ''operator'' ''env'' = Some demo_budget" "budget_valid demo_budget"
      "in_i64 (b_limit_minor demo_budget)" "b_currency demo_budget = ''USD''" "b_limit_minor demo_budget = 100"
      "spent_minor demo_capped ''operator'' ''env'' ''USD'' = 0" "held_minor demo_capped ''operator'' ''env'' ''USD'' = 0"
    by (simp_all add: res_of_def budgetForFunding_def is_budget_def budget_valid_def in_i64_def MaxInt64_def
        spent_minor_def held_minor_def demo_usage_defs)
  let ?d = "demo_capped\<lparr>reservations := [new_reservation ''p1'' demo_admit (Some (snapshot demo_budget)) 57]\<rparr>"
  have "spent_minor ?d ''operator'' ''env'' ''USD'' + held_minor ?d ''operator'' ''env'' ''USD'' \<le> 100"
    by (rule admission_within_cap [OF demo_admitted h(1-6), unfolded h(7-10), THEN conjunct1]) (simp_all add: MaxInt64_def)
  moreover have "ur_reserved_minor \<lparr>ur_fact_id = ''f1'', ur_reserved_minor = 57, ur_currency = ''USD'', ur_bounded = True\<rparr> = 57" by simp
  ultimately show ?thesis using demo_admitted by blast
qed

text \<open>
  Replaying an admission never reserves twice: after a call was admitted, the same request
  is answered with the same reservation and stores nothing.
\<close>

lemma admission_replay:
  assumes "AdmitUsage uuid_in p q db = Inr (db', Admitted r)"
  shows "AdmitUsage uuid_in p q db' = Inr (db', Admitted r)"
proof -
  have fresh: "AdmitUsage uuid_in p q db' = Inr (db', Admitted r)"
    if "insert_reservation p q cd n db = Inr (db', Admitted r)" "res_of db p (aq_fact_id q) = None" for cd n
  proof -
    note ins = insert_reservation_ok [OF that(1)]
    have "res_of db' p (aq_fact_id q) = Some (new_reservation p q cd n)"
      unfolding ins(1) res_of_snoc that(2) by (simp add: is_res_def new_reservation_def)
    moreover have "requireGeneration db' p g = requireGeneration db p g"
        "fundingAllowed uuid_in db' p f = fundingAllowed uuid_in db p f" for g f
      by (simp_all add: ins(1) requireGeneration_def fundingAllowed_def persona_of_def lease_of_def split: option.split)
    ultimately show ?thesis using assms
      by (auto simp: AdmitUsage_def res_simps ins(2) admit_replay_def new_reservation_def split: if_splits)
  qed
  from assms show ?thesis
  proof (cases rule: AdmitUsage_cases)
    case replayed
    with assms show ?thesis by simp
  qed (use fresh in blast)+
qed

text \<open>
  C36. Reconciliation refunds nothing: settling the selected holds moves each hold's estimate,
  in its own currency and funding source, from held to spent. The total of spent and held falls
  only by holds whose call had already been recorded, and no selected hold stays held.
\<close>

theorem reconcile_conserves:
  "let db' = reconcileHeldReservations p t below db in
   spent_minor db' k i c + held_minor db' k i c = spent_minor db k i c + held_minor db k i c
     - sum_list (map r_reserved_minor
         (filter (\<lambda>r. reconciled p t below r \<and> has_fact db r \<and> charged k i c r) (reservations db)))
   \<and> filter (reconciled p t below) (reservations db') = []"
proof -
  let ?sel = "filter (\<lambda>r. reconciled p t below r \<and> \<not> has_fact db r) (reservations db)"
  let ?db1 = "db\<lparr>facts := facts db @ map unrecorded_fact ?sel\<rparr>"
  let ?db' = "reconcileHeldReservations p t below db"
  have d: "?db' = set_reservations (reconciled p t below) RSettled ?db1"
    by (simp add: reconcileHeldReservations_def)
  have s: "spent_minor ?db' k i c = spent_minor db k i c + sum_list (map r_reserved_minor (filter (charged k i c) ?sel))"
    unfolding d using spent_unrecorded [of k i c ?sel] by (simp add: spent_minor_def set_reservations_def)
  have h: "held_minor ?db' k i c = held_minor db k i c -
      sum_list (map r_reserved_minor (filter (\<lambda>r. reconciled p t below r \<and> charged k i c r) (reservations db)))"
  proof -
    have "reconciled p t below r \<Longrightarrow> r_status r = RHeld" for r by (simp add: reconciled_def)
    from held_after_settle [of "reconciled p t below", OF this, of ?db1 k i c] show ?thesis unfolding d by simp
  qed
  have split: "sum_list (map r_reserved_minor (filter (\<lambda>r. reconciled p t below r \<and> charged k i c r) rs)) =
      sum_list (map r_reserved_minor (filter (charged k i c) (filter (\<lambda>r. reconciled p t below r \<and> \<not> has_fact db r) rs))) +
      sum_list (map r_reserved_minor (filter (\<lambda>r. reconciled p t below r \<and> has_fact db r \<and> charged k i c r) rs))" for rs
    by (induction rs) auto
  have "filter (reconciled p t below) (reservations ?db') = []"
  proof -
    have "\<not> reconciled p t below x" if "x \<in> set (upd (reconciled p t below) (\<lambda>r. r\<lparr>r_status := RSettled\<rparr>) rs)" for x rs
      using that by (cases rule: in_upd_cases) (simp_all add: reconciled_def)
    then show ?thesis unfolding d by (simp add: filter_empty_conv set_reservations_def)
  qed
  then show ?thesis using s h split [of "reservations db"] by (simp add: Let_def)
qed

text \<open>
  Facts move one way: recording usage never removes a fact or changes what call it is
  about, a reported or not-sent fact is final, an unknown one can only become reported, and only
  the reconciler's placeholder accepts any first report.
\<close>

lemma fact_lattice:
  assumes "RecordUsage uuid_in now p q db = Inr (db', g, fresh)" and "usageFact db p' x = Some f"
  shows "\<exists>f'. usageFact db' p' x = Some f'
    \<and> (f' = f \<or> u_status f = FUnrecorded \<and> u_status f' \<in> {FReported, FUnknown, FNotSent}
        \<or> u_status f = FUnknown \<and> u_status f' = FReported)
    \<and> (u_kind f', u_phase f', u_turn_id f', u_input_id f', u_round f', u_funding f')
       = (u_kind f, u_phase f, u_turn_id f, u_input_id f, u_round f, u_funding f)"
proof -
  from assms(1) obtain res c where ok: "record_request_ok q = Inr ()"
    and r: "(case usageFact db p (rq_fact_id q) of
             Some f \<Rightarrow> record_existing uuid_in now p q res c f db
           | None \<Rightarrow> record_fresh uuid_in now p q res c db) = Inr (db', g, fresh)"
    by (auto simp: RecordUsage_def res_simps Let_def)
  have st: "status_of (rq_status q) \<in> {FReported, FUnknown, FNotSent}"
    using ok by (auto simp: record_request_ok_def status_of_def split: if_splits)
  show ?thesis
  proof (cases "usageFact db p (rq_fact_id q)")
    case None
    with r have "record_fresh uuid_in now p q res c db = Inr (db', g, fresh)" by simp
    note this [THEN record_fresh_ok(1)]
    with assms(2) show ?thesis by (simp add: usageFact_def find_append)
  next
    case (Some f0)
    with r have e: "record_existing uuid_in now p q res c f0 db = Inr (db', g, fresh)" by simp
    show ?thesis
    proof (cases "lattice f0 q")
      case Upgrade
      have "facts db' = upd (is_fact p (rq_fact_id q)) (upgraded q c) (facts db)"
        by (rule record_upgrade_ok [OF e Upgrade])
      then have u: "usageFact db' p' x =
          map_option (\<lambda>r. if is_fact p (rq_fact_id q) r then upgraded q c r else r) (usageFact db p' x)"
        unfolding usageFact_def by (simp, subst find_upd)
          (auto simp: is_fact_def upgraded_def with_cost_def split: prod.splits)
      show ?thesis
      proof (cases "is_fact p (rq_fact_id q) f")
        case True
        then have "p' = p \<and> x = rq_fact_id q"
          using assms(2) by (auto simp: usageFact_def is_fact_def dest!: find_SomeD)
        with Some assms(2) have f: "f = f0" by simp
        have "u_status (upgraded q c f) = status_of (rq_status q)"
          by (simp add: upgraded_def with_cost_def split: prod.splits)
        moreover have "u_status f = FUnrecorded \<or> u_status f = FUnknown \<and> status_of (rq_status q) = FReported"
          using Upgrade f by (auto simp: lattice_def status_of_def split: if_splits)
        ultimately show ?thesis
          using True u assms(2) st by (auto simp: upgraded_def with_cost_def split: prod.splits)
      next
        case False
        with u assms(2) show ?thesis by simp
      qed
    qed (use e assms(2) in \<open>auto simp: record_existing_def\<close>)
  qed
qed

definition demo_report :: record_request where
  "demo_report = \<lparr>rq_fact_id = ''f1'', rq_kind = ''model'', rq_phase = ''plan'', rq_turn_id = ''t1'', rq_input_id = ''in-1'',
     rq_round = 0, rq_funding = demo_funding, rq_status = ''reported'', rq_input_tokens = Some 10,
     rq_output_tokens = Some 7, rq_cached_tokens = None, rq_quantities = None\<rparr>"

definition demo_admitted_db :: "unit db" where
  "demo_admitted_db = demo_capped\<lparr>reservations := [new_reservation ''p1'' demo_admit (Some (snapshot demo_budget)) 57]\<rparr>"

lemmas demo_report_defs = demo_admitted_db_def demo_report_def new_reservation_def snapshot_def nullif_def cardCurrency_def
  demo_usage_defs

lemma demo_recorded:
  "\<exists>db'. RecordUsage (\<lambda>_. None) 70 ''p1'' demo_report demo_admitted_db =
     Inr (db', new_fact ''p1'' demo_report (Some 29, Some ''USD'', Some ''configured_rates'', Some ''r1''), True)
   \<and> usageFact db' ''p1'' ''f1'' =
     Some (new_fact ''p1'' demo_report (Some 29, Some ''USD'', Some ''configured_rates'', Some ''r1''))"
  by (simp add: RecordUsage_def record_request_ok_def validateRecordTokens_def text_params_def res_of_def is_res_def
      record_payer_def record_price_def res_snapshot_def coalesce_def priceRecord_def priceReported_def priceTokens_spec
      addMinor_def fact_params_def in_int4_def funding_texts_def persona_of_def is_persona_def usageFact_def
      record_fresh_def set_reservations_def resumeFundingWaitsTx_def fundingHeadroom_def budgetForFunding_def is_budget_def
      fundingSpend_def spent_minor_def held_minor_def funding_waits_def fundingOwnerHumans_def or_empty_def
      i64_def in_i64_def MaxInt64_def new_fact_def with_cost_def is_fact_def Let_def demo_report_defs)

text \<open>
  A redelivered report replays: once a report was accepted, whether it was the first, a
  replay or an upgrade, sending it again changes nothing and answers the same fact.
\<close>

theorem record_redelivery:
  assumes "RecordUsage uuid_in now p q db = Inr (db', g, fresh)"
  shows "RecordUsage uuid_in now' p q db' = Inr (db', g, False)"
  using assms by (rule record_redelivery_aux)

text \<open>
  C37. Resuming waits is exact. A parked input is queued again exactly when a wait of its call on this
  funding source now fits and no approval of it is pending, and no other input changes. The waits of
  the calls that fit are deleted and every other wait, of this source or another, is kept (only the price
  it shows is refreshed), so that no wait left on the source is one the current card would admit.
\<close>

theorem resume_exact:
  assumes "resumeFundingWaitsTx uuid_in now k i db = Inr (db', n)" and "fundingHeadroom db k i = Inr room"
    and "freed = (\<lambda>p x. \<exists>w \<in> set (waits db). is_wait p x w \<and> w_funding_kind w = k \<and> w_funding_id w = i
            \<and> (\<exists>m. fit room (wait_estimate w) = Inr (True, m)))"
  shows "inputs db' = map (\<lambda>r. if i_status r = IWaiting \<and> freed (i_persona_id r) (i_input_id r)
              \<and> \<not> approval_pending db (i_persona_id r) (i_input_id r) then requeued now r else r) (inputs db)
    \<and> map unpriced (waits db') = map unpriced (filter (\<lambda>w. \<not> freed (w_persona_id w) (w_input_id w)) (waits db))
    \<and> (\<forall>w \<in> set (waits db'). w_funding_kind w = k \<and> w_funding_id w = i \<longrightarrow>
            (\<forall>m. fit room (wait_estimate w) \<noteq> Inr (True, m)))"
proof -
  obtain db1 m where 1: "resume_loop now room (funding_waits db k i) db = (db1, m)" by fastforce
  with assms obtain hs where "db' = (if hs = [] then db1 else unparkChunks hs db1)"
    by (auto simp: resumeFundingWaitsTx_def res_simps)
  then have same: "waits db' = waits db1" "inputs db' = inputs db1" by (simp_all add: unparkChunks_def)
  have fits: "fits room w \<longleftrightarrow> (\<exists>m. fit room (wait_estimate w) = Inr (True, m))" for w
    by (auto simp: fits_def split: sum.splits prod.splits)
  then have fr: "frees room (funding_waits db k i) = freed"
    by (auto simp: assms(3) frees_def fun_eq_iff list_ex_iff funding_waits_def)
  note ex = resume_loop_exact [OF 1, unfolded fr, folded same]
  moreover have "fit room (wait_estimate w') \<noteq> Inr (True, m)"
    if w: "w' \<in> set (waits db')" "w_funding_kind w' = k" "w_funding_id w' = i" for w' m
  proof
    assume t: "fit room (wait_estimate w') = Inr (True, m)"
    have "unpriced w' \<in> set (map unpriced (waits db'))" using w(1) by simp
    then obtain w where v: "w \<in> set (waits db)" "\<not> freed (w_persona_id w) (w_input_id w)" "unpriced w' = unpriced w"
      unfolding conjunct2 [OF ex] by auto
    have u: "w_funding_kind w = w_funding_kind (unpriced w)" "w_funding_id w = w_funding_id (unpriced w)"
      "wait_estimate w = wait_estimate (unpriced w)" for w by (simp_all add: unpriced_def wait_estimate_def)
    have "w_funding_kind w = k" "w_funding_id w = i" "wait_estimate w = wait_estimate w'" using w(2,3) v(3) u [of w] u [of w'] by simp_all
    with v(1,2) t show False by (auto simp: assms(3) is_wait_def)
  qed
  ultimately show ?thesis by (auto simp: parked_def is_input_def intro!: map_cong)
qed

definition demo_wait :: wait_row where
  "demo_wait = \<lparr>w_persona_id = ''p1'', w_input_id = ''in-1'', w_turn_id = ''t1'', w_funding_kind = ''operator'',
     w_funding_id = ''env'', w_needed_minor = 500, w_currency = ''USD'', w_est_input_tokens = 11,
     w_est_output_bound = Some 20\<rparr>"

definition demo_parked :: "unit db" where
  "demo_parked = demo_capped\<lparr>waits := [demo_wait],
     inputs := [demo_input\<lparr>i_status := IWaiting, i_waiting_since := Some 40000\<rparr>]\<rparr>"

theorem resume_exact_witness:
  "\<exists>db'. resumeFundingWaitsTx (\<lambda>_. None) 90000 ''operator'' ''env'' demo_parked = Inr (db', 1)
     \<and> waits db' = [] \<and> map i_status (inputs db') = [IQueued] \<and> map i_waited_ms (inputs db') = [50]"
proof -
  let ?room = "\<lparr>h_budget = Some demo_budget, h_spent = 0, h_held = 0\<rparr>"
  have room: "fundingHeadroom demo_parked ''operator'' ''env'' = Inr ?room"
    by (simp add: fundingHeadroom_def budgetForFunding_def is_budget_def fundingSpend_def spent_minor_def held_minor_def
        in_i64_def MaxInt64_def demo_parked_def demo_usage_defs)
  obtain db' where r: "resumeFundingWaitsTx (\<lambda>_. None) 90000 ''operator'' ''env'' demo_parked = Inr (db', 1)"
      "inputs db' = [requeued 90000 (demo_input\<lparr>i_status := IWaiting, i_waiting_since := Some 40000\<rparr>)]"
      "set (waits db') \<subseteq> {demo_wait}"
    by (simp add: resumeFundingWaitsTx_def fundingHeadroom_def budgetForFunding_def is_budget_def fundingSpend_def
        spent_minor_def held_minor_def in_i64_def funding_waits_def fit_def priceEstimate_def priceTokens_spec
        addMinor_def budgetAdmits_def snapshot_def wait_estimate_def i64_def MaxInt64_def requeue_parked_def parked_def
        is_input_def delete_wait_def is_wait_def approval_pending_def fundingOwnerHumans_def demo_wait_def
        demo_parked_def demo_usage_defs)
  have "fit ?room (wait_estimate demo_wait) = Inr (True, 57)"
    by (simp add: fit_def priceEstimate_def priceTokens_spec addMinor_def budgetAdmits_def snapshot_def
        wait_estimate_def i64_def MaxInt64_def demo_wait_def demo_usage_defs)
  moreover have "w_funding_kind demo_wait = ''operator''" "w_funding_id demo_wait = ''env''"
    by (simp_all add: demo_wait_def)
  ultimately have "demo_wait \<notin> set (waits db')" using resume_exact [OF r(1) room refl] by blast
  with r have "waits db' = []" by (cases "waits db'") auto
  with r show ?thesis by (simp add: requeued_def ms_between_def demo_input_def demo_submit_def with_defaults_def new_input_def)
qed

text \<open>
  The admission test at the edge of 64 bits: \<^verbatim>\<open>budgetAdmits\<close> is the intended comparison as
  long as spent plus held fits in an \<^verbatim>\<open>int64\<close>, and admits every priced call up to the limit once
  that sum does not, because the sum wraps to a negative number.
\<close>

lemma budgetAdmits_wraps:
  assumes "0 \<le> spent" "spent \<le> MaxInt64" "0 \<le> held" "held \<le> MaxInt64"
    and "0 \<le> needed" "limit \<le> MaxInt64"
  shows "budgetAdmits limit spent held needed \<longleftrightarrow>
    needed \<le> limit \<and> (spent + held \<le> limit - needed \<or> MaxInt64 < spent + held)"
proof (cases "spent + held \<le> MaxInt64")
  case True
  with assms budgetAdmits_exact [of spent held needed limit] show ?thesis
    by (cases "needed \<le> limit") (auto simp: in_i64_def MaxInt64_def budgetAdmits_def)
next
  case False
  have "i64 (spent + held) = spent + held - 2 ^ 64"
  proof -
    have "(spent + held + 2 ^ 63) mod 2 ^ 64 = (spent + held + 2 ^ 63 - 2 ^ 64) mod 2 ^ 64"
      by (metis minus_mod_self2)
    also have "\<dots> = spent + held + 2 ^ 63 - 2 ^ 64"
      by (rule mod_pos_pos_trivial) (use assms False in \<open>simp_all add: MaxInt64_def\<close>)
    finally show ?thesis by (simp add: i64_def)
  qed
  moreover have "needed \<le> limit \<Longrightarrow> i64 (limit - needed) = limit - needed"
    using assms by (intro i64_id) (simp add: in_i64_def MaxInt64_def)
  ultimately show ?thesis using False assms by (auto simp: budgetAdmits_def MaxInt64_def)
qed

end
