(* ===== verification/Core_Approvals.thy ===== *)
theory Core_Approvals
  imports Core_Usage
begin

text \<open>
  Tool authority and human decisions (\<^verbatim>\<open>approvals.go\<close>): the registry of built-in tools and what
  each may do, the requirement a planned call's route raises, the deterministic argument checks a
  gated call passes before a human is asked, the identities of approvals, and the one-shot decision
  \<^verbatim>\<open>ResolveApproval\<close>. \<^verbatim>\<open>parse_time\<close> is \<^verbatim>\<open>time.Parse(time.RFC3339Nano, _)\<close>, \<open>sha\<close> the hex SHA-256
  and \<open>marshal\<close> \<^verbatim>\<open>json.Marshal\<close>; they are arguments.
\<close>

section \<open>The registry\<close>

record tool_info =
  ti_internal :: bool
  ti_requires_approval :: bool
  ti_elevated_only :: bool
  ti_read_only :: bool

definition ordinary :: tool_info where
  "ordinary = \<lparr>ti_internal = True, ti_requires_approval = False, ti_elevated_only = False, ti_read_only = False\<rparr>"

definition reading :: tool_info where
  "reading = ordinary\<lparr>ti_read_only := True\<rparr>"

definition toolAuthority_list :: "(string \<times> tool_info) list" where
  "toolAuthority_list =
     [(''schedule.set'', ordinary), (''journal.note'', ordinary), (''memory.resume'', ordinary),
      (''conversation_history'', reading), (''job.start'', ordinary), (''job.status'', reading),
      (''job.cancel'', ordinary), (''script.start'', ordinary), (''terminal.open'', ordinary),
      (''terminal.list'', reading), (''terminal.read'', reading), (''terminal.inputs'', reading),
      (''terminal.write'', ordinary), (''terminal.resize'', ordinary), (''terminal.signal'', ordinary),
      (''terminal.eof'', ordinary), (''terminal.close'', ordinary),
      (''message.send'', ordinary\<lparr>ti_elevated_only := True\<rparr>)]"

definition toolAuthority :: "string \<Rightarrow> tool_info option" where
  "toolAuthority tool = map_of toolAuthority_list tool"

definition isInternalTool :: "string \<Rightarrow> bool" where
  "isInternalTool tool = (case toolAuthority tool of None \<Rightarrow> False | Some i \<Rightarrow> ti_internal i)"

definition elevatedOnlyTool :: "string \<Rightarrow> bool" where
  "elevatedOnlyTool tool = (case toolAuthority tool of None \<Rightarrow> False | Some i \<Rightarrow> ti_elevated_only i)"

definition approvalRequirement :: "string \<Rightarrow> string \<Rightarrow> string" where
  "approvalRequirement tool route =
     (if (case toolAuthority tool of None \<Rightarrow> False | Some i \<Rightarrow> ti_requires_approval i) then ''intrinsic''
      else if route = ''elevated'' then ''route''
      else [])"

section \<open>Argument checks\<close>

definition hex_lower :: "char \<Rightarrow> bool" where
  "hex_lower c \<longleftrightarrow> c \<in> set ''0123456789abcdef''"

text \<open>\<^verbatim>\<open>^[0-9a-f]{8}-[0-9a-f]{4}-7[0-9a-f]{3}-[89ab][0-9a-f]{3}-[0-9a-f]{12}$\<close>\<close>

definition uuidv7_match :: "string \<Rightarrow> bool" where
  "uuidv7_match s \<longleftrightarrow> length s = 36
     \<and> list_all (\<lambda>i. s ! i = CHR ''-'') [8, 13, 18, 23]
     \<and> s ! 14 = CHR ''7'' \<and> s ! 19 \<in> set ''89ab''
     \<and> list_all (\<lambda>i. i \<in> set [8, 13, 18, 23] \<or> hex_lower (s ! i)) [0..<36]"

definition terminalSignalAllowlist :: "string list" where
  "terminalSignalAllowlist = [''INT'', ''TERM'', ''HUP'', ''QUIT'', ''KILL'', ''TSTP'', ''USR1'', ''USR2'']"

definition bool_field :: "jobj \<Rightarrow> string \<Rightarrow> bool" where
  "bool_field m k = (case map_of m k of Some (JBool b) \<Rightarrow> b | _ \<Rightarrow> False)"

definition num_field :: "jobj \<Rightarrow> string \<Rightarrow> rat option" where
  "num_field m k = (case map_of m k of Some (JNum n) \<Rightarrow> Some n | _ \<Rightarrow> None)"

text \<open>\<^verbatim>\<open>parseMemoryResumeRequest\<close>: integers within bounds, a known mode, no other field.\<close>

definition resume_number :: "jobj \<Rightarrow> string \<Rightarrow> int \<Rightarrow> bool \<Rightarrow> err + int" where
  "resume_number m k mx required =
     (let bad = Inl (ErrBadRequest (''memory.resume invalid '' @ k));
          check = (\<lambda>n. if n < 0 \<or> n > mx \<or> (required \<and> n = 0) then bad else Inr n) in
      case map_of m k of
        None \<Rightarrow> if required then check 0 else Inr 0
      | Some JNull \<Rightarrow> check 0
      | Some (JNum r) \<Rightarrow> if r = of_int \<lfloor>r\<rfloor> \<and> in_i64 \<lfloor>r\<rfloor> then check \<lfloor>r\<rfloor> else bad
      | _ \<Rightarrow> bad)"

definition parseMemoryResumeRequest :: "jobj \<Rightarrow> err + (int \<times> int \<times> int \<times> string)" where
  "parseMemoryResumeRequest m =
     rbind (resume_number m ''chunk_seq'' (2 ^ 53 - 1) True) (\<lambda>chunk.
     rbind (resume_number m ''additional_rounds'' 128 True) (\<lambda>rounds.
     rbind (resume_number m ''additional_tokens'' 100000000 False) (\<lambda>tokens.
       let mode = str_field m ''mode'' in
       if mode \<notin> set [''resume'', ''rebranch'']
       then Inl (ErrBadRequest ''memory.resume requires resume or rebranch'')
       else case find (\<lambda>kv. fst kv \<notin> set [''chunk_seq'', ''mode'', ''additional_rounds'', ''additional_tokens'']) m of
         Some kv \<Rightarrow> Inl (ErrBadRequest (''memory.resume unexpected field '' @ fst kv))
       | None \<Rightarrow> Inr (chunk, rounds, tokens, mode))))"

definition missPolicy_of :: "jobj \<Rightarrow> string" where
  "missPolicy_of m = (let p = str_field m ''miss_policy'' in if p = [] then ''fire_late'' else p)"

definition miss_policies :: "string list" where
  "miss_policies = [''fire_late'', ''coalesce'', ''expire'', ''report_missed'']"

definition validate_terminal :: "string \<Rightarrow> jobj \<Rightarrow> err + unit" where
  "validate_terminal tool m =
     (if \<not> uuidv7_match (str_field m ''session_id'') then Inl (ErrBadRequest (tool @ '' requires a session_id''))
      else if tool = ''terminal.write'' \<and> str_field m ''data'' = [] \<and> \<not> bool_field m ''eof''
      then Inl (ErrBadRequest ''terminal.write requires data or eof'')
      else if tool = ''terminal.write'' \<and> length (str_field m ''data'') > 65536
      then Inl (ErrBadRequest ''terminal.write data exceeds 64 KiB'')
      else if tool = ''terminal.resize'' \<and>
         (case (num_field m ''cols'', num_field m ''rows'') of
            (Some c, Some r) \<Rightarrow> c < 2 \<or> c > 1000 \<or> r < 2 \<or> r > 500
          | _ \<Rightarrow> True)
      then Inl (ErrBadRequest ''terminal.resize requires cols 2..1000 and rows 2..500'')
      else if tool = ''terminal.signal'' \<and> str_field m ''signal'' \<notin> set terminalSignalAllowlist
      then Inl (ErrBadRequest ''terminal.signal not permitted'')
      else Inr ())"

definition required_text :: "string \<Rightarrow> string \<Rightarrow> jobj \<Rightarrow> err + unit" where
  "required_text tool k m = guard (str_field m k \<noteq> []) (ErrBadRequest (tool @ '' requires '' @ k))"

definition validateToolRequest :: "(string \<Rightarrow> timestamp option) \<Rightarrow> string \<Rightarrow> jobj \<Rightarrow> err + unit" where
  "validateToolRequest parse_time tool m =
     (if tool = ''schedule.set'' then
        (if parse_time (str_field m ''wake_at'') = None
         then Inl (ErrBadRequest ''schedule.set requires RFC3339 wake_at'')
         else guard (missPolicy_of m \<in> set miss_policies) 
           (ErrBadRequest ''schedule.set miss_policy must be fire_late, coalesce, expire, or report_missed''))
      else if tool = ''memory.resume'' then rbind (parseMemoryResumeRequest m) (\<lambda>_. Inr ())
      else if tool = ''journal.note'' \<or> tool = ''message.send'' then required_text tool ''text'' m
      else if tool = ''script.start'' then
        guard (str_field m ''code'' \<noteq> [])
          (ErrBadRequest ''script.start requires code (a JavaScript module exporting run(input, sumi))'')
      else if tool = ''terminal.open'' then
        guard (length (str_field m ''name'') \<le> 80) (ErrBadRequest ''terminal.open name too long'')
      else if tool \<in> set [''terminal.read'', ''terminal.inputs'', ''terminal.write'', ''terminal.resize'',
                          ''terminal.signal'', ''terminal.eof'', ''terminal.close'']
      then validate_terminal tool m
      else if tool = ''messaging.send'' then
        rbind (required_text tool ''place_id'' m) (\<lambda>_. required_text tool ''content'' m)
      else if tool = ''workspace_invitation.list'' then
        guard (case map_of m ''cursor'' of None \<Rightarrow> True | Some JNull \<Rightarrow> True | Some (JStr _) \<Rightarrow> True | _ \<Rightarrow> False)
          (ErrBadRequest ''workspace_invitation.list cursor must be a string'')
      else if tool = ''workspace_invitation.accept'' then required_text tool ''invitation_id'' m
      else Inr ())"

section \<open>Identities\<close>

definition ActionDigest :: "(string \<Rightarrow> string) \<Rightarrow> (jobj \<Rightarrow> string) \<Rightarrow> string \<Rightarrow> string \<Rightarrow> jobj \<Rightarrow> string" where
  "ActionDigest sha marshal tool route req =
     sha (''sumi.core.tool-action.v1'' @ [NUL] @ tool @ [NUL] @ route @ [NUL] @ marshal req)"

definition approvalID :: "(string \<Rightarrow> string) \<Rightarrow> string \<Rightarrow> string \<Rightarrow> nat \<Rightarrow> string" where
  "approvalID sha p i n =
     ''appr-'' @ take 32 (sha (''sumi.core.approval.v1'' @ [NUL] @ p @ [NUL] @ i @ [NUL] @ itoa n))"

section \<open>Reading\<close>

definition approvalForCall :: "'d db \<Rightarrow> string \<Rightarrow> string \<Rightarrow> nat \<Rightarrow> approval_row option" where
  "approvalForCall db p i n = find (appr_call p i n) (approvals db)"

definition status_name :: "appr_status \<Rightarrow> string" where
  "status_name s = (case s of APending \<Rightarrow> ''pending'' | AApproved \<Rightarrow> ''approved'' | ADenied \<Rightarrow> ''denied'')"

definition ListApprovals :: "'d db \<Rightarrow> string \<Rightarrow> string \<Rightarrow> err + approval_row list" where
  "ListApprovals db p status =
     (if status \<notin> set [[], ''pending'', ''approved'', ''denied''] then Inl (ErrBadRequest ''unknown approval status'')
      else Inr (sort_key a_created_at (sort_key a_approval_id
        (filter (\<lambda>a. a_persona_id a = p \<and> (status = [] \<or> status_name (a_status a) = status)) (approvals db)))))"

definition GetApproval :: "'d db \<Rightarrow> string \<Rightarrow> string \<Rightarrow> err + approval_row" where
  "GetApproval db p x = require (find (is_appr p x) (approvals db)) ErrApprovalNotFound"

definition deniedIdenticalCall :: "'d db \<Rightarrow> string \<Rightarrow> string \<Rightarrow> string \<Rightarrow> jobj \<Rightarrow> approval_row option" where
  "deniedIdenticalCall db p i tool req =
     (case sort_key a_call_index (filter (\<lambda>a. a_persona_id a = p \<and> a_input_id a = i \<and> a_tool a = tool
         \<and> jsonb_eq (JObj (a_request a)) (JObj req) \<and> a_status a = ADenied) (approvals db)) of
        [] \<Rightarrow> None
      | a # _ \<Rightarrow> Some a)"

definition opt_entry :: "string \<Rightarrow> string option \<Rightarrow> jobj" where
  "opt_entry k v = (case v of None \<Rightarrow> [] | Some s \<Rightarrow> [(k, JStr s)])"

definition denialResponse :: "approval_row \<Rightarrow> jobj" where
  "denialResponse a = [(''error'', JStr ''denied''),
     (''denial'', JObj ([(''approval_id'', JStr (a_approval_id a))] @ opt_entry ''decision'' (a_decision a)
        @ opt_entry ''decided_by_kind'' (a_decided_by_kind a) @ opt_entry ''decided_by_id'' (a_decided_by_id a)))]"

definition pendingApprovalsForInput :: "'d db \<Rightarrow> string \<Rightarrow> string \<Rightarrow> approval_row list" where
  "pendingApprovalsForInput db p i = sort_key a_call_index
     (filter (\<lambda>a. a_persona_id a = p \<and> a_input_id a = i \<and> a_status a = APending) (approvals db))"

section \<open>The decision\<close>

record approval_decision =
  ad_decision :: string
  ad_decision_id :: string
  ad_decided_by_kind :: string
  ad_decided_by_id :: string

definition decided_row :: "timestamp \<Rightarrow> approval_decision \<Rightarrow> approval_row \<Rightarrow> approval_row" where
  "decided_row now q a = a\<lparr>a_status := (if ad_decision q = ''approve_once'' then AApproved else ADenied),
     a_decision := Some (ad_decision q), a_decision_id := Some (ad_decision_id q),
     a_decided_by_kind := Some (ad_decided_by_kind q), a_decided_by_id := Some (ad_decided_by_id q),
     a_decided_at := Some now,
     a_provenance := (if ad_decision q = ''approve_once'' then Some ''agent_own_with_human_consent'' else None)\<rparr>"

definition same_decision :: "approval_decision \<Rightarrow> approval_row \<Rightarrow> bool" where
  "same_decision q a \<longleftrightarrow> a_decision a = Some (ad_decision q) \<and> a_decision_id a = Some (ad_decision_id q)
     \<and> a_decided_by_kind a = Some (ad_decided_by_kind q) \<and> a_decided_by_id a = Some (ad_decided_by_id q)"

text \<open>The command's own checks, before any read.\<close>

definition decision_ok :: "approval_decision \<Rightarrow> err + unit" where
  "decision_ok q =
     (if ad_decision q \<notin> set [''approve_once'', ''deny_once'']
      then Inl (ErrBadRequest ''decision must be approve_once or deny_once'')
      else if ad_decision_id q = [] then Inl (ErrBadRequest ''decision_id required'')
      else if ad_decided_by_kind q \<noteq> ''human'' \<or> ad_decided_by_id q = [] then Inl ErrApprovalDecidedBy
      else Inr ())"

definition decider_ok :: "'d db \<Rightarrow> string \<Rightarrow> approval_decision \<Rightarrow> err + unit" where
  "decider_ok db p q =
     rbind (require (persona_of db p) ErrPersonaNotFound) (\<lambda>r.
       if p_authority r \<noteq> Active then Inl (inactiveAuthorityError (p_authority r))
       else case p_human_id r of
         None \<Rightarrow> Inl ErrApprovalForbidden
       | Some h \<Rightarrow> guard (h = ad_decided_by_id q) ErrApprovalForbidden)"

text \<open>A denial finalizes the parked operation; its response is the denial.\<close>

definition deny_operation :: "timestamp \<Rightarrow> string \<Rightarrow> approval_decision \<Rightarrow> approval_row \<Rightarrow> 'd db \<Rightarrow> 'd db" where
  "deny_operation now p q a db = db\<lparr>operations := upd
     (\<lambda>o'. is_op p (a_operation_id a) o' \<and> o_status o' = OAwaitingApproval)
     (\<lambda>o'. o'\<lparr>o_status := OFailed, o_completed_at := Some now, o_response := Some
        [(''error'', JStr ''denied''),
         (''denial'', JObj [(''approval_id'', JStr (a_approval_id a)), (''decision'', JStr (ad_decision q)),
            (''decided_by_kind'', JStr (ad_decided_by_kind q)), (''decided_by_id'', JStr (ad_decided_by_id q))])]\<rparr>)
     (operations db)\<rparr>"

definition decided_event :: "approval_decision \<Rightarrow> approval_row \<Rightarrow> event_input" where
  "decided_event q a = ev ''approval_decided''
     [(''approval_id'', JStr (a_approval_id a)), (''input_id'', JStr (a_input_id a)),
      (''call_index'', jnat (a_call_index a)), (''tool'', JStr (a_tool a)), (''route'', JStr (a_route a)),
      (''decision'', JStr (ad_decision q)), (''decided_by_kind'', JStr (ad_decided_by_kind q)),
      (''decided_by_id'', JStr (ad_decided_by_id q))]"

definition requeue_waiting :: "timestamp \<Rightarrow> string \<Rightarrow> string \<Rightarrow> 'd db \<Rightarrow> 'd db" where
  "requeue_waiting now p i db = db\<lparr>inputs := upd (\<lambda>r. is_input p i r \<and> i_status r = IWaiting) (requeued now) (inputs db)\<rparr>"

definition decide_pending ::
  "timestamp \<Rightarrow> string \<Rightarrow> approval_decision \<Rightarrow> approval_row \<Rightarrow> 'd db \<Rightarrow> err + ('d db \<times> approval_row)" where
  "decide_pending now p q a db =
     rbind (text_params [ad_decision_id q, ad_decided_by_id q]) (\<lambda>_.
       let a' = decided_row now q a;
           db1 = db\<lparr>approvals := upd (\<lambda>x. is_appr p (a_approval_id a) x \<and> a_status x = APending)
                     (decided_row now q) (approvals db)\<rparr>;
           db2 = (if ad_decision q = ''deny_once'' then deny_operation now p q a' db1 else db1)
       in rbind (appendEventsTx p (a_turn_id a') [decided_event q a'] db2) (\<lambda>db3.
            Inr (requeue_waiting now p (a_input_id a') db3, a')))"

definition ResolveApproval ::
  "timestamp \<Rightarrow> string \<Rightarrow> string \<Rightarrow> approval_decision \<Rightarrow> 'd db \<Rightarrow> err + ('d db \<times> approval_row)" where
  "ResolveApproval now p x q db =
     rbind (decision_ok q) (\<lambda>_.
     rbind (decider_ok db p q) (\<lambda>_.
     rbind (text_params [x]) (\<lambda>_.
     rbind (GetApproval db p x) (\<lambda>a.
       if a_status a \<noteq> APending then
         (if same_decision q a then Inr (db, a) else Inl ErrApprovalConflict)
       else decide_pending now p q a db))))"

section \<open>Lemmas\<close>

lemma GetApproval_upd:
  assumes "\<And>a. appr_key (f a) = appr_key a" and "approvals db' = upd P f (approvals db)"
  shows "GetApproval db' p x = (case GetApproval db p x of Inl e \<Rightarrow> Inl e | Inr a \<Rightarrow> Inr (if P a then f a else a))"
proof -
  have "find (is_appr p x) (upd P f (approvals db)) =
      map_option (\<lambda>a. if P a then f a else a) (find (is_appr p x) (approvals db))"
    by (rule find_upd) (use assms(1) in \<open>simp add: is_appr_def\<close>)
  then show ?thesis
    by (cases "find (is_appr p x) (approvals db)") (simp_all add: GetApproval_def assms(2))
qed

lemma GetApproval_row: "GetApproval db p x = Inr a \<Longrightarrow> a_persona_id a = p \<and> a_approval_id a = x"
  by (auto simp: GetApproval_def res_simps is_appr_def dest: find_SomeD)

lemma ResolveApproval_cases:
  assumes "ResolveApproval now p x q db = Inr (db', a')"
  obtains (replayed) "GetApproval db p x = Inr a'" "a_status a' \<noteq> APending" "same_decision q a'" "db' = db"
    | (decided) a where "GetApproval db p x = Inr a" "a_status a = APending" "decide_pending now p q a db = Inr (db', a')"
proof -
  from assms obtain a where a: "GetApproval db p x = Inr a" by (auto simp: ResolveApproval_def res_simps)
  show thesis
  proof (cases "a_status a = APending")
    case True
    with assms a have "decide_pending now p q a db = Inr (db', a')"
      by (auto simp: ResolveApproval_def res_simps)
    with a True decided show thesis by blast
  next
    case False
    with assms a have "db' = db \<and> a' = a \<and> same_decision q a"
      by (auto simp: ResolveApproval_def res_simps split: if_splits)
    with a False replayed show thesis by blast
  qed
qed

lemma decide_pending_ok:
  assumes "decide_pending now p q a db = Inr (db', a')"
  shows "a' = decided_row now q a"
    "approvals db' = upd (\<lambda>x. is_appr p (a_approval_id a) x \<and> a_status x = APending) (decided_row now q) (approvals db)"
    "operations db' = (if ad_decision q = ''deny_once'' then operations (deny_operation now p q a' db) else operations db)"
    "inputs db' = inputs (requeue_waiting now p (a_input_id a) db)"
    "events db' = events db @ event_rows p (a_turn_id a) (last_seq db p) [decided_event q a']"
    "db' = db\<lparr>approvals := approvals db', operations := operations db', inputs := inputs db', events := events db'\<rparr>"
proof -
  let ?db1 = "db\<lparr>approvals := upd (\<lambda>x. is_appr p (a_approval_id a) x \<and> a_status x = APending) (decided_row now q) (approvals db)\<rparr>"
  let ?db2 = "if ad_decision q = ''deny_once'' then deny_operation now p q (decided_row now q a) ?db1 else ?db1"
  have t: "a_turn_id (decided_row now q a) = a_turn_id a" "a_input_id (decided_row now q a) = a_input_id a"
    by (simp_all add: decided_row_def)
  from assms obtain db3 where ev: "appendEventsTx p (a_turn_id a) [decided_event q (decided_row now q a)] ?db2 = Inr db3"
    and d: "db' = requeue_waiting now p (a_input_id a) db3" and a': "a' = decided_row now q a"
    by (auto simp: decide_pending_def res_simps Let_def t)
  show "a' = decided_row now q a" by (rule a')
  have e3: "db3 = ?db2\<lparr>events := events ?db2 @ event_rows p (a_turn_id a) (last_seq ?db2 p) [decided_event q (decided_row now q a)]\<rparr>"
    by (rule appendEventsTx_ok(1) [OF ev])
  have 2: "events ?db2 = events db" "inputs ?db2 = inputs db" "last_seq ?db2 p = last_seq db p"
      "approvals ?db2 = approvals ?db1"
      "operations ?db2 = (if ad_decision q = ''deny_once'' then operations (deny_operation now p q a' db) else operations db)"
      "?db2 = db\<lparr>approvals := approvals ?db1, operations := operations ?db2\<rparr>"
    by (simp_all add: deny_operation_def last_seq_def a')
  show "approvals db' = upd (\<lambda>x. is_appr p (a_approval_id a) x \<and> a_status x = APending) (decided_row now q) (approvals db)"
    "operations db' = (if ad_decision q = ''deny_once'' then operations (deny_operation now p q a' db) else operations db)"
    using 2 by (simp_all add: d requeue_waiting_def e3 del: event_rows.simps)
  show "inputs db' = inputs (requeue_waiting now p (a_input_id a) db)"
    "events db' = events db @ event_rows p (a_turn_id a) (last_seq db p) [decided_event q a']"
    using 2 by (simp_all add: d requeue_waiting_def e3 a' del: event_rows.simps)
  show "db' = db\<lparr>approvals := approvals db', operations := operations db', inputs := inputs db', events := events db'\<rparr>"
    by (simp add: d requeue_waiting_def e3 deny_operation_def del: event_rows.simps)
qed

lemma decided_row_key: "appr_key (decided_row now q a) = appr_key a"
  by (simp add: decided_row_def)

lemma decided_row_status: "a_status (decided_row now q a) \<noteq> APending"
  by (simp add: decided_row_def)

lemma same_decision_decided: "same_decision q (decided_row now q a)"
  by (simp add: same_decision_def decided_row_def)

lemma toolAuthority_no_intrinsic: "toolAuthority tool = Some i \<Longrightarrow> \<not> ti_requires_approval i"
proof -
  assume "toolAuthority tool = Some i"
  then have "i \<in> snd ` set toolAuthority_list" by (force simp: toolAuthority_def dest: map_of_SomeD)
  then show ?thesis by (auto simp: toolAuthority_list_def ordinary_def reading_def)
qed

section \<open>Properties\<close>

text \<open>
  A decision is one-shot: once an approval was decided, the same command is answered with
  the stored decision and changes nothing, and any other decision, decision id or decider is a
  conflict, so a denial never becomes an approval.
\<close>

lemma decision_is_final:
  assumes "ResolveApproval now p x q db = Inr (db', a)"
    and "decision_ok q' = Inr ()" and "decider_ok db p q' = Inr ()"
  shows "ResolveApproval now' p x q' db' = (if same_decision q' a then Inr (db', a) else Inl ErrApprovalConflict)"
proof -
  have tx: "text_params [x] = Inr ()" using assms(1) by (auto simp: ResolveApproval_def res_simps)
  from assms(1) show ?thesis
  proof (cases rule: ResolveApproval_cases)
    case replayed
    with assms(2,3) tx show ?thesis by (simp add: ResolveApproval_def)
  next
    case (decided a0)
    note ok = decide_pending_ok [OF decided(3)]
    have id: "a_persona_id a0 = p" "a_approval_id a0 = x" using GetApproval_row [OF decided(1)] by simp_all
    have "GetApproval db' p x = Inr a"
      using GetApproval_upd [OF decided_row_key ok(2), of p x] decided(1,2) id ok(1) by (simp add: is_appr_def)
    moreover have "personas db' = personas db" by (subst ok(6)) simp
    then have "decider_ok db' p q' = Inr ()" using assms(3) by (simp add: decider_ok_def persona_of_def)
    ultimately show ?thesis
      using assms(2) tx decided_row_status [of now q a0] ok(1) by (simp add: ResolveApproval_def)
  qed
qed

definition demo_approval :: approval_row where
  "demo_approval = \<lparr>a_approval_id = ''appr-1'', a_persona_id = ''p1'', a_input_id = ''in-1'', a_call_index = 0,
     a_operation_id = ''op-1'', a_turn_id = ''t1'', a_tool = ''message.send'', a_route = ''elevated'',
     a_required_by = ''route'', a_request = [(''text'', JStr ''hello'')], a_action_digest = ''d'', a_status = APending,
     a_decision = None, a_decision_id = None, a_decided_by_kind = None, a_decided_by_id = None, a_provenance = None,
     a_decided_at = None, a_consumed_at = None, a_created_at = 25\<rparr>"

definition demo_op :: op_row where
  "demo_op = \<lparr>o_persona_id = ''p1'', o_operation_id = ''op-1'', o_turn_id = ''t1'', o_tool = ''message.send'',
     o_idempotency_key = ''in-1:tool:0'', o_request = [(''text'', JStr ''hello'')], o_status = OAwaitingApproval,
     o_response = None, o_claimed_generation = 4, o_created_at = 25, o_completed_at = None\<rparr>"

definition demo_pending :: "unit db" where
  "demo_pending = demo_running\<lparr>approvals := [demo_approval], operations := [demo_op],
     inputs := [demo_input\<lparr>i_status := IWaiting, i_waiting_since := Some 40000\<rparr>]\<rparr>"

definition demo_deny :: approval_decision where
  "demo_deny = \<lparr>ad_decision = ''deny_once'', ad_decision_id = ''d1'', ad_decided_by_kind = ''human'', ad_decided_by_id = ''h1''\<rparr>"

lemmas demo_appr_defs = demo_pending_def demo_approval_def demo_op_def demo_deny_def demo_run_defs

lemma demo_denied:
  "\<exists>db'. ResolveApproval 90000 ''p1'' ''appr-1'' demo_deny demo_pending = Inr (db', decided_row 90000 demo_deny demo_approval)"
  by (simp add: ResolveApproval_def decision_ok_def decider_ok_def persona_of_def is_persona_def text_params_def
      GetApproval_def is_appr_def decide_pending_def appendEventsTx_def decided_event_def ev_def payload_of_def
      or_empty_def jnat_def decided_row_def Let_def demo_appr_defs)

text \<open>
  C38. Who may decide, and what deciding does: an accepted decision was made by the human the
  active persona is bound to. If the approval was pending it is now stored as decided, and returned
  so; the waiting input of its call is queued again; an approval leaves every operation alone, a
  denial leaves no operation of that approval waiting and no other operation changed. If it was
  decided before, nothing changes at all. No other approval changes in either case, and no tool
  runs: outside the approvals, the operations, the inputs and the journal the whole state (the outbox,
  schedules, jobs, terminals, memory, usage and the tools' own state) stays as it was.
\<close>

theorem decision_effects:
  assumes "ResolveApproval now p x q db = Inr (db', a)"
  shows "(\<exists>r. persona_of db p = Some r \<and> p_authority r = Active \<and> p_human_id r = Some (ad_decided_by_id q))
    \<and> (\<forall>p' x'. (p', x') \<noteq> (p, x) \<longrightarrow> GetApproval db' p' x' = GetApproval db p' x')
    \<and> (\<exists>as os is es. db' = db\<lparr>approvals := as, operations := os, inputs := is, events := es\<rparr>)
    \<and> (\<exists>b. GetApproval db p x = Inr b \<and> GetApproval db' p x = Inr a
        \<and> (if a_status b = APending
           then a = decided_row now q b \<and> a_status a = (if ad_decision q = ''approve_once'' then AApproved else ADenied)
             \<and> a_decided_by_id a = Some (ad_decided_by_id q)
             \<and> inputs db' = upd (\<lambda>r. is_input p (a_input_id b) r \<and> i_status r = IWaiting) (requeued now) (inputs db)
             \<and> (\<forall>o' \<in> set (operations db). \<not> is_op p (a_operation_id b) o' \<longrightarrow> o' \<in> set (operations db'))
             \<and> (if ad_decision q = ''deny_once''
                then \<forall>o' \<in> set (operations db'). is_op p (a_operation_id b) o' \<longrightarrow> o_status o' \<noteq> OAwaitingApproval
                else operations db' = operations db)
           else a = b \<and> db' = db))"
proof -
  have who: "\<exists>r. persona_of db p = Some r \<and> p_authority r = Active \<and> p_human_id r = Some (ad_decided_by_id q)"
    using assms by (auto simp: ResolveApproval_def decider_ok_def res_simps split: if_splits option.splits)
  from assms show ?thesis
  proof (cases rule: ResolveApproval_cases)
    case replayed
    moreover have "\<exists>as os is es. db = db\<lparr>approvals := as, operations := os, inputs := is, events := es\<rparr>"
      by (rule exI [of _ "approvals db"], rule exI [of _ "operations db"], rule exI [of _ "inputs db"], rule exI [of _ "events db"]) simp
    ultimately show ?thesis using who by simp
  next
    case (decided b)
    note ok = decide_pending_ok [OF decided(3)]
    have id: "a_persona_id b = p" "a_approval_id b = x" using GetApproval_row [OF decided(1)] by simp_all
    have "GetApproval db' p' x' = GetApproval db p' x'" if "(p', x') \<noteq> (p, x)" for p' x'
    proof (cases "GetApproval db p' x'")
      case (Inr c)
      with GetApproval_upd [OF decided_row_key ok(2), of p' x'] that GetApproval_row [OF Inr] id show ?thesis by (auto simp: is_appr_def)
    qed (use GetApproval_upd [OF decided_row_key ok(2), of p' x'] in simp)
    moreover have "GetApproval db' p x = Inr a"
      using GetApproval_upd [OF decided_row_key ok(2), of p x] decided(1,2) id ok(1) by (simp add: is_appr_def)
    moreover have op: "a_operation_id a = a_operation_id b" using ok(1) by (simp add: decided_row_def)
    have "o_status o' \<noteq> OAwaitingApproval"
      if "ad_decision q = ''deny_once''" "o' \<in> set (operations db')" "is_op p (a_operation_id b) o'" for o'
    proof -
      have "o' \<in> set (operations (deny_operation now p q a db))" using that(1,2) ok(3) by simp
      then show ?thesis
        unfolding deny_operation_def by simp (erule in_upd_cases, use that(3) op in auto)
    qed
    moreover have "o' \<in> set (operations db')" if "o' \<in> set (operations db)" "\<not> is_op p (a_operation_id b) o'" for o'
      using that op ok(3) by (auto simp: deny_operation_def set_upd image_iff split: if_splits)
    moreover have "inputs db' = upd (\<lambda>r. is_input p (a_input_id b) r \<and> i_status r = IWaiting) (requeued now) (inputs db)"
      "a_status a = (if ad_decision q = ''approve_once'' then AApproved else ADenied)" "a_decided_by_id a = Some (ad_decided_by_id q)"
      using ok(1,4) by (simp_all add: requeue_waiting_def decided_row_def)
    moreover have "\<exists>as os is es. db' = db\<lparr>approvals := as, operations := os, inputs := is, events := es\<rparr>" using ok(6) by blast
    moreover have "ad_decision q = ''deny_once'' \<or> operations db' = operations db" using ok(3) by simp
    ultimately show ?thesis using who decided(1,2) ok(1) by (simp split del: if_split) (auto split: if_split)
  qed
qed

theorem decision_effects_witness:
  "\<exists>db' a. ResolveApproval 90000 ''p1'' ''appr-1'' demo_deny demo_pending = Inr (db', a) \<and> a_status a = ADenied
     \<and> (\<forall>o' \<in> set (operations db'). is_op ''p1'' ''op-1'' o' \<longrightarrow> o_status o' \<noteq> OAwaitingApproval)"
proof -
  let ?a = "decided_row 90000 demo_deny demo_approval"
  obtain db' where r: "ResolveApproval 90000 ''p1'' ''appr-1'' demo_deny demo_pending = Inr (db', ?a)"
    using demo_denied by blast
  have "GetApproval demo_pending ''p1'' ''appr-1'' = Inr demo_approval"
    by (simp add: GetApproval_def is_appr_def demo_appr_defs)
  moreover have "a_status demo_approval = APending" "a_status ?a = ADenied" "a_operation_id demo_approval = ''op-1''"
      "ad_decision demo_deny = ''deny_once''"
    by (simp_all add: decided_row_def demo_approval_def demo_deny_def)
  ultimately show ?thesis using decision_effects [OF r] r by auto
qed

text \<open>
  The normal route never asks a human: for every tool, registered or not, a call requires
  an approval exactly when it was planned on the elevated route.
\<close>

theorem only_elevated_calls_ask:
  "approvalRequirement tool route = (if route = ''elevated'' then ''route'' else [])"
  using toolAuthority_no_intrinsic by (auto simp: approvalRequirement_def split: option.splits)

end
