(* ===== verification/Job_Request.thy ===== *)
theory Job_Request
  imports Core_Approvals
begin

text \<open>
  The job specifications a submission may carry (\<^verbatim>\<open>jobs.go\<close>: \<^verbatim>\<open>validateScriptLimits\<close>,
  \<^verbatim>\<open>validateJobRequest\<close>, \<^verbatim>\<open>validJobID\<close>, \<^verbatim>\<open>boundRunes\<close>; \<^verbatim>\<open>effect_job_id.go\<close>: \<^verbatim>\<open>EffectJobID\<close>) and
  the library functions they rest on: \<^verbatim>\<open>path.Clean\<close> on relative paths, \<^verbatim>\<open>strings.Split\<close>, the width of
  a UTF-8 sequence. A Go map is ranged over in an unspecified order; the model takes the order of the
  association list, which decides only which of several faults is reported.
\<close>

section \<open>The host\<close>

text \<open>
  \<^verbatim>\<open>fmt.Sprint\<close>, \<^verbatim>\<open>strconv.Quote\<close>, \<^verbatim>\<open>json.Marshal\<close>, PostgreSQL's text of a jsonb value and of a
  timestamp, the deployment's default job backend and the backends that run.
\<close>

record job_host =
  jh_sprint :: "json \<Rightarrow> string"
  jh_quote :: "string \<Rightarrow> string"
  jh_marshal :: "json \<Rightarrow> string"
  jh_pg_text :: "json \<Rightarrow> string"
  jh_pg_time :: "timestamp \<Rightarrow> string"
  jh_backend :: string
  jh_available :: "string list"

definition jobToolPrefix :: string where
  "jobToolPrefix = ''op:''"

section \<open>Paths\<close>

fun split_slash :: "string \<Rightarrow> string list" where
  "split_slash [] = [[]]"
| "split_slash (c # cs) = (if c = CHR ''/'' then [] # split_slash cs
     else case split_slash cs of [] \<Rightarrow> [[c]] | s # ss \<Rightarrow> (c # s) # ss)"

fun join_slash :: "string list \<Rightarrow> string" where
  "join_slash [] = []"
| "join_slash [s] = s"
| "join_slash (s # ss) = s @ CHR ''/'' # join_slash ss"

text \<open>\<^verbatim>\<open>path.Clean\<close> of a relative path; the stack holds the elements written so far, the last one first.\<close>

fun clean_step :: "string list \<Rightarrow> string \<Rightarrow> string list" where
  "clean_step st s =
     (if s = [] \<or> s = ''.'' then st
      else if s = ''..'' then (case st of t # ts \<Rightarrow> if t = ''..'' then s # st else ts | [] \<Rightarrow> [s])
      else s # st)"

definition path_clean :: "string \<Rightarrow> string" where
  "path_clean c = (case foldl clean_step [] (split_slash c) of [] \<Rightarrow> ''.'' | st \<Rightarrow> join_slash (rev st))"

definition path_is_abs :: "string \<Rightarrow> bool" where
  "path_is_abs c \<longleftrightarrow> has_prefix c ''/''"

section \<open>Validation\<close>

definition scriptCodeMaxBytes :: nat where "scriptCodeMaxBytes = 65536"

definition scriptInputMaxBytes :: nat where "scriptInputMaxBytes = 32768"

definition scriptLimitMaxes :: string where
  "scriptLimitMaxes = ''cpu_seconds<=600 wall_ms<=3600000 memory_mib<=1024 output_bytes<=65536 log_bytes<=65536 file_calls<=256 file_bytes<=16777216''"

definition script_bounds :: "(string \<times> nat \<times> nat) list" where
  "script_bounds = [(''cpu_seconds'', 1, 600), (''wall_ms'', 100, 3600000), (''memory_mib'', 32, 1024),
     (''output_bytes'', 1, 65536), (''log_bytes'', 0, 65536), (''file_calls'', 0, 256), (''file_bytes'', 0, 16777216)]"

text \<open>A decoded number that is an integer within bounds.\<close>

definition integer_in :: "int \<Rightarrow> int \<Rightarrow> json \<Rightarrow> bool" where
  "integer_in lo hi v = (case v of JNum q \<Rightarrow> q = of_int \<lfloor>q\<rfloor> \<and> lo \<le> \<lfloor>q\<rfloor> \<and> \<lfloor>q\<rfloor> \<le> hi | _ \<Rightarrow> False)"

fun check_limits :: "job_host \<Rightarrow> jobj \<Rightarrow> err + unit" where
  "check_limits jh [] = Inr ()"
| "check_limits jh ((k, v) # kvs) =
     (case map_of script_bounds k of
        None \<Rightarrow> Inl (ErrBadRequest (''unknown script limit '' @ jh_quote jh k @ '' ('' @ scriptLimitMaxes @ '')''))
      | Some (lo, hi) \<Rightarrow>
          if integer_in (int lo) (int hi) v then check_limits jh kvs
          else Inl (ErrBadRequest (''script limit '' @ jh_quote jh k @ '' must be an integer in ['' @ itoa lo @ '', '' @ itoa hi @ '']'')))"

definition validateScriptLimits :: "job_host \<Rightarrow> json \<Rightarrow> err + unit" where
  "validateScriptLimits jh raw = (case raw of
     JObj m \<Rightarrow> check_limits jh m
   | _ \<Rightarrow> Inl (ErrBadRequest ''script limits must be an object''))"

text \<open>A field that is checked only when the map holds it (\<^verbatim>\<open>if v, ok := m[k]; ok\<close>).\<close>

definition when_present :: "jobj \<Rightarrow> string \<Rightarrow> (json \<Rightarrow> err + unit) \<Rightarrow> err + unit" where
  "when_present m k f = (case map_of m k of None \<Rightarrow> Inr () | Some v \<Rightarrow> f v)"

definition validate_script :: "job_host \<Rightarrow> jobj \<Rightarrow> err + unit" where
  "validate_script jh m =
     rbind (when_present m ''backend'' (\<lambda>b. guard (b = JStr ''local'')
        (ErrBadRequest (''script jobs route only to the local backend (got '' @ jh_sprint jh b @ '')'')))) (\<lambda>_.
     rbind (guard (str_field m ''code'' \<noteq> [])
        (ErrBadRequest ''script job requires non-empty code (a JavaScript module exporting run(input, sumi))'')) (\<lambda>_.
     rbind (guard (length (str_field m ''code'') \<le> scriptCodeMaxBytes)
        (ErrBadRequest (''script code exceeds '' @ itoa scriptCodeMaxBytes @ '' bytes''))) (\<lambda>_.
     rbind (when_present m ''input'' (\<lambda>v. guard (length (jh_marshal jh v) \<le> scriptInputMaxBytes)
        (ErrBadRequest (''script input exceeds '' @ itoa scriptInputMaxBytes @ '' bytes serialized'')))) (\<lambda>_.
       when_present m ''limits'' (validateScriptLimits jh)))))"

text \<open>The command's entries from index \<open>i\<close> on; the value is the bytes they add.\<close>

fun check_argv :: "nat \<Rightarrow> json list \<Rightarrow> err + nat" where
  "check_argv i [] = Inr 0"
| "check_argv i (a # as) =
     (case a of
        JStr s \<Rightarrow>
          if s = [] then Inl (ErrBadRequest (''subprocess command['' @ itoa i @ ''] must be a non-empty string''))
          else if NUL \<in> set s then Inl (ErrBadRequest (''subprocess command['' @ itoa i @ ''] contains NUL''))
          else if i = 0 \<and> 1024 < length s then Inl (ErrBadRequest ''subprocess executable exceeds 1024 characters'')
          else rbind (check_argv (Suc i) as) (\<lambda>n. Inr (length s + n))
      | _ \<Rightarrow> Inl (ErrBadRequest (''subprocess command['' @ itoa i @ ''] must be a non-empty string'')))"

definition check_command :: "jobj \<Rightarrow> err + unit" where
  "check_command m =
     (case map_of m ''command'' of
        Some (JArr (a # as)) \<Rightarrow>
          if 129 < length (a # as) then Inl (ErrBadRequest ''subprocess command may have at most 129 entries'')
          else rbind (check_argv 0 (a # as)) (\<lambda>n.
            guard (n \<le> 32768) (ErrBadRequest ''subprocess command exceeds 32 KiB''))
      | _ \<Rightarrow> Inl (ErrBadRequest ''subprocess job requires a non-empty command array''))"

definition check_cwd :: "json \<Rightarrow> err + unit" where
  "check_cwd v = (case v of
     JStr c \<Rightarrow>
       if 1024 < length c \<or> NUL \<in> set c \<or> path_is_abs c \<or> (c \<noteq> [] \<and> path_clean c \<noteq> c)
       then Inl (ErrBadRequest ''subprocess cwd must be clean and relative'')
       else guard (''..'' \<notin> set (split_slash c)) (ErrBadRequest ''subprocess cwd escapes the workspace'')
   | _ \<Rightarrow> Inl (ErrBadRequest ''subprocess cwd must be a string''))"

text \<open>\<^verbatim>\<open>^[A-Za-z_][A-Za-z0-9_]*$\<close>.\<close>

definition env_start :: "char \<Rightarrow> bool" where
  "env_start c \<longleftrightarrow> (let n = (of_char c :: nat) in 65 \<le> n \<and> n \<le> 90 \<or> 97 \<le> n \<and> n \<le> 122 \<or> n = 95)"

definition env_char :: "char \<Rightarrow> bool" where
  "env_char c \<longleftrightarrow> env_start c \<or> undigit c \<noteq> None"

definition jobEnvName :: "string \<Rightarrow> bool" where
  "jobEnvName s = (case s of [] \<Rightarrow> False | c # cs \<Rightarrow> env_start c \<and> list_all env_char cs)"

fun check_env_entries :: "job_host \<Rightarrow> jobj \<Rightarrow> err + nat" where
  "check_env_entries jh [] = Inr 0"
| "check_env_entries jh ((k, v) # kvs) =
     (if 64 < length k \<or> \<not> jobEnvName k
      then Inl (ErrBadRequest (''subprocess env name '' @ jh_quote jh k @ '' is invalid''))
      else if k \<in> set [''PATH'', ''HOME'', ''LANG'']
      then Inl (ErrBadRequest (''subprocess env name '' @ jh_quote jh k @ '' is backend-owned''))
      else case v of
        JStr s \<Rightarrow>
          if 4096 < length s \<or> NUL \<in> set s
          then Inl (ErrBadRequest (''subprocess env['' @ jh_quote jh k @ ''] value is invalid''))
          else rbind (check_env_entries jh kvs) (\<lambda>n. Inr (length k + length s + n))
      | _ \<Rightarrow> Inl (ErrBadRequest (''subprocess env['' @ jh_quote jh k @ ''] must be a string'')))"

definition check_env :: "job_host \<Rightarrow> json \<Rightarrow> err + unit" where
  "check_env jh v = (case v of
     JObj m \<Rightarrow>
       if 32 < length m then Inl (ErrBadRequest ''subprocess env may have at most 32 entries'')
       else rbind (check_env_entries jh m) (\<lambda>n. guard (n \<le> 8192) (ErrBadRequest ''subprocess env payload exceeds 8 KiB''))
   | _ \<Rightarrow> Inl (ErrBadRequest ''subprocess env must be an object of strings''))"

definition validate_subprocess :: "job_host \<Rightarrow> jobj \<Rightarrow> err + unit" where
  "validate_subprocess jh m =
     rbind (check_command m) (\<lambda>_.
     rbind (when_present m ''cwd'' check_cwd) (\<lambda>_.
     rbind (when_present m ''timeout_ms'' (\<lambda>v. guard (integer_in 1 3600000 v)
        (ErrBadRequest ''subprocess timeout_ms must be an integer in (0, 3600000]''))) (\<lambda>_.
     rbind (when_present m ''env'' (check_env jh)) (\<lambda>_.
       when_present m ''backend'' (\<lambda>b. guard (b \<in> {JStr ''local'', JStr ''cloud''})
         (ErrBadRequest (''subprocess backend must be '' @ jh_quote jh ''local'' @ '' or '' @ jh_quote jh ''cloud'')))))))"

definition validateJobRequest :: "job_host \<Rightarrow> string \<Rightarrow> jobj \<Rightarrow> err + unit" where
  "validateJobRequest jh kind m =
     (if kind = ''script'' then validate_script jh m
      else if kind = ''subprocess'' then validate_subprocess jh m
      else Inl (ErrBadRequest (''unknown job kind '' @ jh_quote jh kind)))"

definition validJobID :: "job_host \<Rightarrow> string \<Rightarrow> err + unit" where
  "validJobID jh x =
     (if x = [] \<or> 256 < length x then Inl (ErrBadRequest ''job_id must be 1-256 characters'')
      else if NUL \<in> set x then Inl (ErrBadRequest ''job_id contains a NUL byte text cannot store'')
      else if has_prefix x jobToolPrefix
      then Inl (ErrBadRequest (''job_id prefix '' @ jh_quote jh jobToolPrefix @ '' is reserved''))
      else if x = ''claim'' then Inl (ErrBadRequest (''job_id '' @ jh_quote jh ''claim'' @ '' is reserved''))
      else Inr ())"

section \<open>Identities\<close>

text \<open>
  \<^verbatim>\<open>EffectJobID\<close>: the last \<^verbatim>\<open>:tool:\<close> of the key splits it, at a position other than the first; the
  index is decimal without leading zeros.
\<close>

fun split_last :: "string \<Rightarrow> string \<Rightarrow> (string \<times> string) option" where
  "split_last pat [] = (if pat = [] then Some ([], []) else None)"
| "split_last pat (c # cs) =
     (case split_last pat cs of
        Some (a, b) \<Rightarrow> Some (c # a, b)
      | None \<Rightarrow> if has_prefix (c # cs) pat then Some ([], drop (length pat) (c # cs)) else None)"

definition canonical_index :: "string \<Rightarrow> bool" where
  "canonical_index s \<longleftrightarrow> s \<noteq> [] \<and> \<not> (1 < length s \<and> hd s = CHR ''0'') \<and> list_all (\<lambda>c. undigit c \<noteq> None) s"

definition EffectJobID :: "string \<Rightarrow> err + string" where
  "EffectJobID key =
     (case split_last '':tool:'' key of
        None \<Rightarrow> Inl (ErrBadRequest ''invalid tool effect identity'')
      | Some (i, index) \<Rightarrow>
          if i = [] then Inl (ErrBadRequest ''invalid tool effect identity'')
          else if canonical_index index then Inr (jobToolPrefix @ i @ '':'' @ index)
          else Inl (ErrBadRequest ''invalid tool effect call index''))"

section \<open>Bounded text\<close>

definition byte_in :: "nat \<Rightarrow> nat \<Rightarrow> string \<Rightarrow> nat \<Rightarrow> bool" where
  "byte_in lo hi s i \<longleftrightarrow> i < length s \<and> lo \<le> (of_char (s ! i) :: nat) \<and> (of_char (s ! i) :: nat) \<le> hi"

text \<open>
  The width of the first rune of a non-empty string as \<^verbatim>\<open>for range\<close> decodes it: a well-formed UTF-8
  sequence, and one byte for anything else.
\<close>

definition rune_width :: "string \<Rightarrow> nat" where
  "rune_width s =
     (if byte_in 0xC2 0xDF s 0 \<and> byte_in 0x80 0xBF s 1 then 2
      else if (byte_in 0xE0 0xE0 s 0 \<and> byte_in 0xA0 0xBF s 1 \<or> byte_in 0xE1 0xEC s 0 \<and> byte_in 0x80 0xBF s 1
          \<or> byte_in 0xED 0xED s 0 \<and> byte_in 0x80 0x9F s 1 \<or> byte_in 0xEE 0xEF s 0 \<and> byte_in 0x80 0xBF s 1)
          \<and> byte_in 0x80 0xBF s 2 then 3
      else if (byte_in 0xF0 0xF0 s 0 \<and> byte_in 0x90 0xBF s 1 \<or> byte_in 0xF1 0xF3 s 0 \<and> byte_in 0x80 0xBF s 1
          \<or> byte_in 0xF4 0xF4 s 0 \<and> byte_in 0x80 0x8F s 1)
          \<and> byte_in 0x80 0xBF s 2 \<and> byte_in 0x80 0xBF s 3 then 4
      else 1)"

lemma rune_width_pos: "0 < rune_width s"
  by (simp add: rune_width_def)

text \<open>The runes of a string, and the cut after \<open>n\<close> of them marked with an ellipsis.\<close>

function runes :: "string \<Rightarrow> string list" where
  "runes [] = []"
| "runes (c # cs) = take (rune_width (c # cs)) (c # cs) # runes (drop (rune_width (c # cs)) (c # cs))"
  by pat_completeness auto
termination
  by (relation "measure length") (simp_all add: rune_width_pos)

definition ellipsis :: string where
  "ellipsis = map char_of [0xE2, 0x80, 0xA6 :: nat]"

definition boundRunes :: "string \<Rightarrow> nat \<Rightarrow> string" where
  "boundRunes s n = (if length (runes s) \<le> n then s else concat (take n (runes s)) @ ellipsis)"

section \<open>Lemmas\<close>

lemma concat_runes: "concat (runes s) = s"
  by (induction s rule: runes.induct) simp_all

lemma split_slash_nonempty [simp]: "split_slash c \<noteq> []"
  by (induction c) (auto split: list.splits)

lemma split_slash_plain: "s \<in> set (split_slash c) \<Longrightarrow> CHR ''/'' \<notin> set s"
  by (induction c arbitrary: s) (auto split: list.splits if_splits)

lemma join_split [simp]: "join_slash (split_slash c) = c"
proof (induction c)
  case (Cons a c)
  obtain s ss where c: "split_slash c = s # ss" by (cases "split_slash c") auto
  with Cons show ?case by (cases ss) auto
qed simp

lemma split_plain: "CHR ''/'' \<notin> set s \<Longrightarrow> split_slash s = [s]"
  by (induction s) auto

lemma split_append: "CHR ''/'' \<notin> set s \<Longrightarrow> split_slash (s @ CHR ''/'' # t) = s # split_slash t"
  by (induction s) auto

lemma split_join: "ss \<noteq> [] \<Longrightarrow> \<forall>s \<in> set ss. CHR ''/'' \<notin> set s \<Longrightarrow> split_slash (join_slash ss) = ss"
  by (induction ss rule: join_slash.induct) (auto simp: split_plain split_append)

text \<open>An element that stays as it is.\<close>

definition plain_step :: "string \<Rightarrow> bool" where
  "plain_step s \<longleftrightarrow> s \<noteq> [] \<and> s \<noteq> ''.'' \<and> s \<noteq> ''..''"

lemma clean_plain: "\<forall>s \<in> set ss. plain_step s \<Longrightarrow> foldl clean_step st ss = rev ss @ st"
  by (induction ss arbitrary: st) (auto simp: plain_step_def)

lemma clean_step_kept: "s \<in> set (clean_step st x) \<Longrightarrow> s \<in> set st \<or> s = x \<and> x \<noteq> [] \<and> x \<noteq> ''.''"
  by (auto split: if_splits list.splits)

lemma clean_kept: "s \<in> set (foldl clean_step st ss) \<Longrightarrow> s \<in> set st \<or> s \<in> set ss \<and> s \<noteq> [] \<and> s \<noteq> ''.''"
proof (induction ss arbitrary: st)
  case (Cons x ss)
  from Cons.IH [of "clean_step st x"] Cons.prems show ?case using clean_step_kept [of s st x]
    by (auto simp del: clean_step.simps)
qed simp

lemma path_clean_fixed:
  assumes "''..'' \<notin> set (split_slash c)"
  shows "path_clean c = c \<longleftrightarrow> c = ''.'' \<or> list_all plain_step (split_slash c)"
proof
  assume p: "path_clean c = c"
  let ?st = "foldl clean_step [] (split_slash c)"
  show "c = ''.'' \<or> list_all plain_step (split_slash c)"
  proof (cases "?st = []")
    case True
    with p show ?thesis by (simp add: path_clean_def)
  next
    case False
    then have "c = join_slash (rev ?st)" using p by (auto simp: path_clean_def split: list.splits)
    moreover have "\<forall>s \<in> set (rev ?st). CHR ''/'' \<notin> set s" using clean_kept [of _ "[]" "split_slash c"] split_slash_plain by auto
    ultimately have s: "split_slash c = rev ?st" using split_join [of "rev ?st"] False by simp
    have "plain_step s" if h: "s \<in> set (split_slash c)" for s
    proof -
      have "s \<in> set ?st" using h s by (metis set_rev)
      from clean_kept [OF this] h assms show ?thesis by (auto simp: plain_step_def)
    qed
    then show ?thesis by (simp add: list_all_iff)
  qed
next
  assume "c = ''.'' \<or> list_all plain_step (split_slash c)"
  then show "path_clean c = c"
  proof
    assume "list_all plain_step (split_slash c)"
    then have f: "foldl clean_step [] (split_slash c) = rev (split_slash c)" using clean_plain [of "split_slash c" "[]"] by (simp add: list_all_iff)
    have "rev (split_slash c) \<noteq> []" by simp
    then show ?thesis unfolding path_clean_def f by (auto split: list.splits) (metis join_split rev_rev_ident rev.simps(2))
  qed (simp add: path_clean_def)
qed

lemma split_last_none: "pat = d # ds \<Longrightarrow> d \<notin> set s \<Longrightarrow> split_last pat s = None"
  by (induction s) auto

lemma split_last_shift: "split_last pat s = Some (x, y) \<Longrightarrow> split_last pat (a @ s) = Some (a @ x, y)"
  by (induction a) auto

lemma itoa_digits: "list_all (\<lambda>c. undigit c \<noteq> None) (itoa n)"
proof (induction n rule: itoa.induct)
  case (1 n)
  then show ?case by (subst itoa.simps) (auto simp del: undigit_digit simp: undigit_digit [of n] undigit_digit [of "n mod 10"])
qed

lemma itoa_lead: "0 < n \<Longrightarrow> hd (itoa n) \<noteq> CHR ''0''"
proof (induction n rule: itoa.induct)
  case (1 n)
  show ?case
  proof (cases "n < 10")
    case True
    have "digit n \<noteq> CHR ''0''"
    proof
      assume "digit n = CHR ''0''"
      then have "undigit (CHR ''0'') = Some n" using undigit_digit [OF True] by simp
      then show False using 1(2) by (simp add: undigit_def)
    qed
    with True show ?thesis by (subst itoa.simps) simp
  next
    case False
    with 1 show ?thesis by (subst itoa.simps) simp
  qed
qed

lemma canonical_itoa: "canonical_index (itoa n)"
proof (cases "n = 0")
  case True
  then show ?thesis by (simp add: canonical_index_def itoa.simps digit_def undigit_def)
next
  case False
  then show ?thesis using itoa_lead [of n] itoa_digits by (simp add: canonical_index_def)
qed

section \<open>Properties\<close>

text \<open>
  A job's working directory stays inside its workspace: the check accepts a directory exactly
  when it is short, has no NUL byte and is empty, the workspace itself, or a relative path all of
  whose elements name something (none is empty, a dot or a double dot).
\<close>

lemma job_cwd_confined:
  "check_cwd (JStr c) = Inr () \<longleftrightarrow>
     length c \<le> 1024 \<and> NUL \<notin> set c \<and> (c = [] \<or> c = ''.'' \<or> list_all plain_step (split_slash c))"
proof -
  have abs: "path_is_abs c \<Longrightarrow> \<not> list_all plain_step (split_slash c) \<and> c \<noteq> [] \<and> c \<noteq> ''.''"
    by (cases c) (auto simp: path_is_abs_def plain_step_def)
  have up: "list_all plain_step (split_slash c) \<Longrightarrow> ''..'' \<notin> set (split_slash c)" by (auto simp: list_all_iff plain_step_def)
  have "path_clean c = c \<longleftrightarrow> c = ''.'' \<or> list_all plain_step (split_slash c)" if "''..'' \<notin> set (split_slash c)"
    by (rule path_clean_fixed [OF that])
  with abs up show ?thesis by (auto simp: check_cwd_def guard_eq_Inr split: if_splits)
qed

end
