(* ===== verification/Core_Jobs.thy ===== *)
theory Core_Jobs
  imports Job_Request
begin

text \<open>
  Background jobs (\<^verbatim>\<open>jobs.go\<close>). A job's lifecycle belongs to the runner that claimed it, not to the
  writer lease: queued, running, then done, failed or cancelled as the runner reports, with
  cancel_requested on the way to a cancellation and lost for a claim that expired. Every terminal
  transition enqueues the notification input \<^verbatim>\<open>job:<job_id>\<close> in the same transaction. \<open>wall\<close> is the
  process clock where the code reads \<^verbatim>\<open>time.Now()\<close> for the row it returns, \<open>now\<close> the transaction's.
\<close>

section \<open>Rows\<close>

definition jobTerminal :: "job_status \<Rightarrow> bool" where
  "jobTerminal s = (case s of JDone \<Rightarrow> True | JFailed \<Rightarrow> True | JCancelled \<Rightarrow> True | JLost \<Rightarrow> True | _ \<Rightarrow> False)"

definition job_status_name :: "job_status \<Rightarrow> string" where
  "job_status_name s = (case s of JQueued \<Rightarrow> ''queued'' | JRunning \<Rightarrow> ''running'' | JCancelRequested \<Rightarrow> ''cancel_requested''
     | JDone \<Rightarrow> ''done'' | JFailed \<Rightarrow> ''failed'' | JCancelled \<Rightarrow> ''cancelled'' | JLost \<Rightarrow> ''lost'')"

definition is_job :: "string \<Rightarrow> string \<Rightarrow> job_row \<Rightarrow> bool" where
  "is_job p x j \<longleftrightarrow> j_persona_id j = p \<and> j_job_id j = x"

definition job_of :: "'d db \<Rightarrow> string \<Rightarrow> string \<Rightarrow> job_row option" where
  "job_of db p x = find (is_job p x) (jobs db)"

definition opt_time :: "(timestamp \<Rightarrow> string) \<Rightarrow> timestamp option \<Rightarrow> json" where
  "opt_time ft t = (case t of None \<Rightarrow> JNull | Some x \<Rightarrow> JStr (ft x))"

definition opt_text :: "string option \<Rightarrow> json" where
  "opt_text t = (case t of None \<Rightarrow> JNull | Some x \<Rightarrow> JStr x)"

text \<open>The \<^verbatim>\<open>Job\<close> struct as it is marshalled.\<close>

definition job_json :: "(timestamp \<Rightarrow> string) \<Rightarrow> job_row \<Rightarrow> jobj" where
  "job_json ft j =
     [(''persona_id'', JStr (j_persona_id j)), (''job_id'', JStr (j_job_id j)), (''kind'', JStr (j_kind j)),
      (''request'', JObj (j_request j)), (''status'', JStr (job_status_name (j_status j))),
      (''claimed_by'', opt_text (j_claimed_by j)), (''claim_expires_at'', opt_time ft (j_claim_expires_at j)),
      (''created_by'', JStr (j_created_by j)), (''created_at'', JStr (ft (j_created_at j))),
      (''started_at'', opt_time ft (j_started_at j)), (''finished_at'', opt_time ft (j_finished_at j)),
      (''cancel_requested_at'', opt_time ft (j_cancel_requested_at j)),
      (''result'', case j_result j of None \<Rightarrow> JNull | Some m \<Rightarrow> JObj m), (''error'', opt_text (j_error j)),
      (''notified_at'', opt_time ft (j_notified_at j))]"

section \<open>Submission\<close>

text \<open>A submission without a backend takes the deployment's default, for the kind it governs.\<close>

definition stamped :: "job_host \<Rightarrow> string \<Rightarrow> jobj \<Rightarrow> jobj" where
  "stamped jh kind m = (if map_of m ''backend'' = None \<and> jh_backend jh \<noteq> [] \<and> kind = ''subprocess''
     then m @ [(''backend'', JStr (jh_backend jh))] else m)"

definition new_job :: "timestamp \<Rightarrow> string \<Rightarrow> string \<Rightarrow> string \<Rightarrow> jobj \<Rightarrow> string \<Rightarrow> job_row" where
  "new_job now p x kind m by =
     \<lparr>j_persona_id = p, j_job_id = x, j_kind = kind, j_request = m, j_status = JQueued, j_claimed_by = None,
      j_claim_expires_at = None, j_created_by = by, j_created_at = now, j_started_at = None, j_finished_at = None,
      j_cancel_requested_at = None, j_result = None, j_error = None, j_notified_at = None\<rparr>"

text \<open>A submission that inserted nothing: the stored row when kind and request match.\<close>

definition submit_job_replay :: "authority \<Rightarrow> string \<Rightarrow> string \<Rightarrow> string \<Rightarrow> jobj \<Rightarrow> 'd db \<Rightarrow> err + ('d db \<times> job_row \<times> bool)" where
  "submit_job_replay a p x kind m db =
     (if NUL \<in> set x \<or> NUL \<in> set kind \<or> \<not> storable (JObj m) then Inl (ErrData ''invalid text or jsonb parameter'')
      else case job_of db p x of
        None \<Rightarrow> Inl (inactiveAuthorityError a)
      | Some j \<Rightarrow> if j_kind j = kind \<and> jsonb_eq (JObj (j_request j)) (JObj m) then Inr (db, j, False) else Inl ErrJobConflict)"

definition submitJobTx ::
  "job_host \<Rightarrow> timestamp \<Rightarrow> string \<Rightarrow> string \<Rightarrow> string \<Rightarrow> jobj \<Rightarrow> string \<Rightarrow> 'd db \<Rightarrow> err + ('d db \<times> job_row \<times> bool)" where
  "submitJobTx jh now p x kind m0 by db =
     (let m = stamped jh kind m0 in
      if str_field m ''backend'' = ''cloud'' \<and> ''cloud'' \<notin> set (jh_available jh)
      then Inl (ErrBadRequest ''cloud job backend is not running in this deployment'')
      else case persona_of db p of
        None \<Rightarrow> Inl ErrPersonaNotFound
      | Some r \<Rightarrow>
          if p_authority r \<noteq> Active then submit_job_replay (p_authority r) p x kind m db
          else
            rbind (with_dataErr (text_params [x, kind, by])) (\<lambda>_.
            rbind (with_dataErr (jsonb_param (JObj m))) (\<lambda>_.
              if job_of db p x = None
              then Inr (db\<lparr>jobs := jobs db @ [new_job now p x kind m by]\<rparr>, new_job now p x kind m by, True)
              else submit_job_replay Active p x kind m db)))"

definition SubmitJob ::
  "job_host \<Rightarrow> timestamp \<Rightarrow> string \<Rightarrow> string \<Rightarrow> string \<Rightarrow> jobj option \<Rightarrow> string \<Rightarrow> 'd db \<Rightarrow> err + ('d db \<times> job_row \<times> bool)" where
  "SubmitJob jh now p x kind m0 by db =
     rbind (validJobID jh x) (\<lambda>_.
       let m = or_empty m0 in
       rbind (validateJobRequest jh kind m) (\<lambda>_.
       rbind (guard (\<not> hasNUL (JObj m)) (ErrBadRequest ''job request contains a NUL byte jsonb cannot store'')) (\<lambda>_.
         submitJobTx jh now p x kind m (if by = [] then ''api'' else by) db)))"

definition GetJob :: "'d db \<Rightarrow> string \<Rightarrow> string \<Rightarrow> err + job_row" where
  "GetJob db p x = rbind (text_params [x]) (\<lambda>_. require (job_of db p x) ErrJobNotFound)"

text \<open>\<^verbatim>\<open>ORDER BY created_at DESC, job_id DESC LIMIT n\<close>.\<close>

definition ListJobs :: "'d db \<Rightarrow> string \<Rightarrow> string list \<Rightarrow> int \<Rightarrow> err + job_row list" where
  "ListJobs db p statuses limit = rbind (text_params statuses) (\<lambda>_. Inr (take (nat (clampLimit limit 50 500))
     (rev (sort_key j_created_at (sort_key j_job_id
        (filter (\<lambda>j. j_persona_id j = p \<and> (statuses = [] \<or> job_status_name (j_status j) \<in> set statuses)) (jobs db)))))))"

section \<open>Notification\<close>

definition jobNoteCommandRunes :: nat where "jobNoteCommandRunes = 120"

definition jobNoteRequestRunes :: nat where "jobNoteRequestRunes = 200"

fun join_space :: "string list \<Rightarrow> string" where
  "join_space [] = []"
| "join_space [s] = s"
| "join_space (s # ss) = s @ '' '' @ join_space ss"

definition jobCommandSummary :: "job_host \<Rightarrow> job_row \<Rightarrow> string" where
  "jobCommandSummary jh j = (case map_of (j_request j) ''command'' of
     Some (JArr cmd) \<Rightarrow> if cmd = [] then [] else boundRunes (join_space (map (jh_sprint jh) cmd)) jobNoteCommandRunes
   | _ \<Rightarrow> [])"

record job_origin =
  jo_input_id :: string
  jo_request :: string
  jo_in_progress :: bool

definition no_origin :: job_origin where
  "no_origin = \<lparr>jo_input_id = [], jo_request = [], jo_in_progress = False\<rparr>"

text \<open>\<^verbatim>\<open>strings.CutPrefix\<close>, and the input id before the last colon of a tool-minted job id.\<close>

definition cut_prefix :: "string \<Rightarrow> string \<Rightarrow> string" where
  "cut_prefix s pre = (if has_prefix s pre then drop (length pre) s else s)"

definition origin_input :: "string \<Rightarrow> string option" where
  "origin_input x = (case split_last '':'' (cut_prefix x jobToolPrefix) of
     None \<Rightarrow> None | Some (i, _) \<Rightarrow> if i = [] then None else Some i)"

text \<open>\<^verbatim>\<open>coalesce(payload->>'text', '')\<close>.\<close>

definition payload_text :: "job_host \<Rightarrow> jobj \<Rightarrow> string" where
  "payload_text jh m = (case map_of m ''text'' of
     None \<Rightarrow> [] | Some JNull \<Rightarrow> [] | Some (JStr s) \<Rightarrow> s | Some v \<Rightarrow> jh_pg_text jh v)"

definition jobOriginTx :: "job_host \<Rightarrow> 'd db \<Rightarrow> job_row \<Rightarrow> job_origin" where
  "jobOriginTx jh db j =
     (if \<not> has_prefix (j_created_by j) ''tool:'' then no_origin
      else case origin_input (j_job_id j) of
        None \<Rightarrow> no_origin
      | Some i \<Rightarrow> (case input_of db (j_persona_id j) i of
          None \<Rightarrow> no_origin
        | Some r \<Rightarrow> \<lparr>jo_input_id = i, jo_request = boundRunes (payload_text jh (i_payload r)) jobNoteRequestRunes,
                     jo_in_progress = (i_status r \<noteq> IDone)\<rparr>))"

definition em_dash :: string where
  "em_dash = '' '' @ map char_of [0xE2, 0x80, 0x94 :: nat] @ '' ''"

definition exit_code :: "job_row \<Rightarrow> json option" where
  "exit_code j = (case j_result j of None \<Rightarrow> None | Some m \<Rightarrow> map_of m ''exit_code'')"

definition error_text :: "job_row \<Rightarrow> string" where
  "error_text j = (case j_error j of None \<Rightarrow> [] | Some e \<Rightarrow> e)"

definition jobNotificationText :: "job_host \<Rightarrow> job_row \<Rightarrow> job_origin \<Rightarrow> string" where
  "jobNotificationText jh j og =
     ''job '' @ j_job_id j @ '' ('' @ j_kind j @ '') '' @ job_status_name (j_status j)
     @ (case exit_code j of None \<Rightarrow> [] | Some c \<Rightarrow> '', exit '' @ jh_sprint jh c)
     @ (if error_text j \<noteq> [] then '': '' @ error_text j else [])
     @ (if jobCommandSummary jh j \<noteq> [] then em_dash @ ''command: '' @ jobCommandSummary jh j else [])
     @ (if jo_input_id og \<noteq> [] then em_dash @ ''started by you for request '' @ jo_input_id og
          @ (if jo_request og \<noteq> [] then '': '' @ jh_quote jh (jo_request og) else [])
          @ (if jo_in_progress og then '' (that request was not finished yet when this job ended)'' else [])
        else [])"

definition job_payload :: "job_host \<Rightarrow> job_row \<Rightarrow> job_origin \<Rightarrow> jobj" where
  "job_payload jh j og =
     [(''job_id'', JStr (j_job_id j)), (''kind'', JStr (j_kind j)), (''status'', JStr (job_status_name (j_status j))),
      (''text'', JStr (jobNotificationText jh j og))]
     @ (if jobCommandSummary jh j \<noteq> [] then [(''command'', JStr (jobCommandSummary jh j))] else [])
     @ (if jo_input_id og \<noteq> [] then [(''origin_input_id'', JStr (jo_input_id og)), (''origin_request'', JStr (jo_request og)),
          (''origin_in_progress'', JBool (jo_in_progress og))] else [])
     @ (if error_text j \<noteq> [] then [(''error'', JStr (error_text j))] else [])
     @ (case exit_code j of None \<Rightarrow> [] | Some c \<Rightarrow> [(''exit_code'', c)])"

definition job_input :: "timestamp \<Rightarrow> nat \<Rightarrow> string \<Rightarrow> string \<Rightarrow> jobj \<Rightarrow> input_row" where
  "job_input now sq p x m =
     \<lparr>i_persona_id = p, i_input_id = jobInputPrefix @ x, i_kind = ''job_completed'', i_payload = m,
      i_actor_kind = ''job'', i_actor_id = x, i_source_surface = ''core_jobs'', i_thread_id = [],
      i_occurred_at = None, i_attention = ''reply'', i_status = IQueued, i_claimed_generation = None, i_turn_id = None,
      i_created_at = now, i_done_at = None, i_not_before = None, i_received_seq = None, i_admission_seq = sq,
      i_waiting_since = None, i_waited_ms = 0\<rparr>"

text \<open>
  \<^verbatim>\<open>INSERT .. ON CONFLICT DO NOTHING\<close> under the reserved id, which draws an admission number either
  way, and the stamp of the job row.
\<close>

definition notifyJobTerminalTx :: "job_host \<Rightarrow> timestamp \<Rightarrow> timestamp \<Rightarrow> job_row \<Rightarrow> 'd db \<Rightarrow> err + ('d db \<times> job_row)" where
  "notifyJobTerminalTx jh now wall j db =
     (let p = j_persona_id j; x = j_job_id j; m = job_payload jh j (jobOriginTx jh db j);
          sq = admission_next db; db1 = db\<lparr>admission_next := Suc sq\<rparr>;
          db2 = (if input_of db p (jobInputPrefix @ x) = None then db1\<lparr>inputs := inputs db @ [job_input now sq p x m]\<rparr> else db1) in
      rbind (with_dataErr (jsonb_param (JObj m))) (\<lambda>_.
        Inr (db2\<lparr>jobs := upd (is_job p x) (\<lambda>r. r\<lparr>j_notified_at := Some now\<rparr>) (jobs db)\<rparr>, j\<lparr>j_notified_at := Some wall\<rparr>)))"

section \<open>Cancellation\<close>

definition cancelJobTx :: "job_host \<Rightarrow> timestamp \<Rightarrow> timestamp \<Rightarrow> string \<Rightarrow> string \<Rightarrow> 'd db \<Rightarrow> err + ('d db \<times> job_row)" where
  "cancelJobTx jh now wall p x db =
     rbind (text_params [x]) (\<lambda>_.
     rbind (require (job_of db p x) ErrJobNotFound) (\<lambda>j.
       case j_status j of
         JQueued \<Rightarrow>
           notifyJobTerminalTx jh now wall
             (j\<lparr>j_status := JCancelled, j_finished_at := Some wall, j_cancel_requested_at := Some wall\<rparr>)
             (db\<lparr>jobs := upd (is_job p x)
               (\<lambda>r. r\<lparr>j_status := JCancelled, j_cancel_requested_at := Some now, j_finished_at := Some now\<rparr>) (jobs db)\<rparr>)
       | JRunning \<Rightarrow>
           Inr (db\<lparr>jobs := upd (is_job p x) (\<lambda>r. r\<lparr>j_status := JCancelRequested, j_cancel_requested_at := Some now\<rparr>) (jobs db)\<rparr>,
                j\<lparr>j_status := JCancelRequested, j_cancel_requested_at := Some wall\<rparr>)
       | _ \<Rightarrow> Inr (db, j)))"

section \<open>Claims\<close>

definition job_live :: "job_row \<Rightarrow> bool" where
  "job_live j \<longleftrightarrow> j_status j = JRunning \<or> j_status j = JCancelRequested"

text \<open>\<^verbatim>\<open>claim_expires_at < now()\<close> of a live job: a NULL is not expired.\<close>

definition expired :: "timestamp \<Rightarrow> job_row \<Rightarrow> bool" where
  "expired now j \<longleftrightarrow> job_live j \<and> (case j_claim_expires_at j of None \<Rightarrow> False | Some e \<Rightarrow> e < now)"

text \<open>\<^verbatim>\<open>jsonb || jsonb\<close> with a one-field object, \<^verbatim>\<open>jsonb - key\<close>.\<close>

definition jput :: "string \<Rightarrow> json \<Rightarrow> jobj \<Rightarrow> jobj" where
  "jput k v m = filter (\<lambda>kv. fst kv \<noteq> k) m @ [(k, v)]"

definition jdel :: "string \<Rightarrow> jobj \<Rightarrow> jobj" where
  "jdel k m = filter (\<lambda>kv. fst kv \<noteq> k) m"

definition lost_row :: "timestamp \<Rightarrow> job_row \<Rightarrow> job_row" where
  "lost_row now j = j\<lparr>j_status := JLost, j_finished_at := Some now,
     j_error := Some ''runner claim expired; outcome is indeterminate'',
     j_result := Some (jput ''reason'' (JStr ''claim_expired'') (or_empty (j_result j)))\<rparr>"

fun notify_all :: "job_host \<Rightarrow> timestamp \<Rightarrow> timestamp \<Rightarrow> job_row list \<Rightarrow> 'd db \<Rightarrow> err + ('d db \<times> job_row list)" where
  "notify_all jh now wall [] db = Inr (db, [])"
| "notify_all jh now wall (j # js) db =
     rbind (notifyJobTerminalTx jh now wall j db) (\<lambda>(db1, j').
     rbind (notify_all jh now wall js db1) (\<lambda>(db2, js'). Inr (db2, j' # js')))"

text \<open>The sweep of the rows a predicate selects, in the order given: verdict, then notifications.\<close>

definition sweep :: "job_host \<Rightarrow> timestamp \<Rightarrow> timestamp \<Rightarrow> job_row list \<Rightarrow> 'd db \<Rightarrow> err + ('d db \<times> job_row list)" where
  "sweep jh now wall js db =
     notify_all jh now wall (map (lost_row now) js)
       (db\<lparr>jobs := upd (\<lambda>r. expired now r \<and> job_key r \<in> set (map job_key js)) (lost_row now) (jobs db)\<rparr>)"

text \<open>Whether a request is routed to the backend that asks.\<close>

definition backend_of :: "jobj \<Rightarrow> string option" where
  "backend_of m = (case map_of m ''backend'' of
     None \<Rightarrow> None | Some JNull \<Rightarrow> None | Some (JStr s) \<Rightarrow> Some s | Some _ \<Rightarrow> Some [])"

definition routed :: "string \<Rightarrow> jobj \<Rightarrow> bool" where
  "routed backend m = (if backend = ''*'' then True
     else if backend = ''cloud'' then backend_of m = Some ''cloud''
     else (case backend_of m of None \<Rightarrow> True | Some b \<Rightarrow> b = ''local''))"

definition claimable_job :: "'d db \<Rightarrow> string \<Rightarrow> string list \<Rightarrow> string \<Rightarrow> job_row \<Rightarrow> bool" where
  "claimable_job db p kinds backend j \<longleftrightarrow> j_persona_id j = p \<and> j_status j = JQueued \<and> j_kind j \<in> set kinds
     \<and> j_kind j \<noteq> ''browser'' \<and> routed backend (j_request j)
     \<and> (case persona_of db p of None \<Rightarrow> False | Some r \<Rightarrow> p_authority r = Active)"

definition claimed_row :: "timestamp \<Rightarrow> string \<Rightarrow> int \<Rightarrow> job_row \<Rightarrow> job_row" where
  "claimed_row now runner lease j = j\<lparr>j_status := JRunning, j_claimed_by := Some runner,
     j_claim_expires_at := Some (now + lease),
     j_started_at := (case j_started_at j of None \<Rightarrow> Some now | Some t \<Rightarrow> Some t)\<rparr>"

definition ClaimJobs ::
  "job_host \<Rightarrow> timestamp \<Rightarrow> timestamp \<Rightarrow> string \<Rightarrow> string \<Rightarrow> string list \<Rightarrow> int \<Rightarrow> int \<Rightarrow> string \<Rightarrow> 'd db
     \<Rightarrow> err + ('d db \<times> job_row list \<times> job_row list)" where
  "ClaimJobs jh now wall p runner kinds lease limit backend db =
     (if runner = [] \<or> 256 < length runner then Inl (ErrBadRequest ''runner_id must be 1-256 characters'')
      else if NUL \<in> set runner then Inl (ErrBadRequest ''runner_id contains a NUL byte text cannot store'')
      else if kinds = [] then Inl (ErrBadRequest ''kinds required'')
      else if lease \<le> 0 then Inl (ErrBadRequest ''positive lease_ms required'')
      else
        rbind (sweep jh now wall (filter (\<lambda>j. j_persona_id j = p \<and> expired now j) (jobs db)) db) (\<lambda>(db1, swept).
        rbind (text_params (backend # kinds)) (\<lambda>_.
          let js = take (nat (clampLimit limit 1 32)) (sort_key j_created_at (sort_key j_job_id
                     (filter (claimable_job db1 p kinds backend) (jobs db1)))) in
          Inr (db1\<lparr>jobs := upd (\<lambda>r. job_key r \<in> set (map job_key js)) (claimed_row now runner lease) (jobs db1)\<rparr>,
               map (claimed_row now runner lease) js, swept))))"

definition owned_by :: "string \<Rightarrow> job_row \<Rightarrow> bool" where
  "owned_by runner j \<longleftrightarrow> j_claimed_by j = Some runner"

text \<open>The row returned is the one read before the update; the rollback of a refusal loses nothing.\<close>

definition HeartbeatJob :: "timestamp \<Rightarrow> string \<Rightarrow> string \<Rightarrow> string \<Rightarrow> int \<Rightarrow> 'd db \<Rightarrow> err + ('d db \<times> job_row)" where
  "HeartbeatJob now p x runner lease db =
     (if lease \<le> 0 then Inl (ErrBadRequest ''positive lease_ms required'')
      else rbind (text_params [x]) (\<lambda>_.
        rbind (require (job_of db p x) ErrJobNotFound) (\<lambda>j.
          if \<not> owned_by runner j \<or> jobTerminal (j_status j) then Inl ErrJobNotClaimed
          else Inr (db\<lparr>jobs := upd (\<lambda>r. is_job p x r \<and> owned_by runner r)
                         (\<lambda>r. r\<lparr>j_claim_expires_at := Some (now + lease)\<rparr>) (jobs db)\<rparr>, j))))"

section \<open>Waiting\<close>

definition runnerWaitKey :: string where "runnerWaitKey = ''runner_wait''"

definition wait_cause :: "jobj option \<Rightarrow> string option" where
  "wait_cause res = (case res of
     None \<Rightarrow> None
   | Some m \<Rightarrow> (case obj_field m runnerWaitKey of
       None \<Rightarrow> None
     | Some w \<Rightarrow> (case map_of w ''cause'' of Some (JStr c) \<Rightarrow> Some c | _ \<Rightarrow> None)))"

definition noted :: "job_host \<Rightarrow> timestamp \<Rightarrow> int \<Rightarrow> string \<Rightarrow> job_row \<Rightarrow> job_row" where
  "noted jh now lease cause j = j\<lparr>j_claim_expires_at := Some (now + lease),
     j_result := (if wait_cause (j_result j) = Some cause then j_result j
       else Some (jput runnerWaitKey (JObj [(''cause'', JStr cause), (''since'', JStr (jh_pg_time jh now))]) (or_empty (j_result j))))\<rparr>"

definition NoteWait :: "job_host \<Rightarrow> timestamp \<Rightarrow> string \<Rightarrow> string \<Rightarrow> string \<Rightarrow> int \<Rightarrow> string \<Rightarrow> 'd db \<Rightarrow> err + ('d db \<times> job_row)" where
  "NoteWait jh now p x runner lease cause db =
     (if lease \<le> 0 \<or> cause = [] then Inl (ErrBadRequest ''positive lease_ms and wait cause required'')
      else rbind (text_params [x, runner, cause]) (\<lambda>_.
        let P = (\<lambda>r. is_job p x r \<and> owned_by runner r \<and> job_live r) in
        case find P (jobs db) of
          None \<Rightarrow> Inl ErrJobNotClaimed
        | Some j \<Rightarrow> Inr (db\<lparr>jobs := upd P (noted jh now lease cause) (jobs db)\<rparr>, noted jh now lease cause j)))"

definition ClearWait :: "string \<Rightarrow> string \<Rightarrow> string \<Rightarrow> 'd db \<Rightarrow> err + ('d db \<times> unit)" where
  "ClearWait p x runner db =
     rbind (with_dataErr (text_params [x, runner])) (\<lambda>_.
       Inr (db\<lparr>jobs := upd (\<lambda>r. is_job p x r \<and> owned_by runner r \<and> (job_live r \<or> j_status r = JLost)
                 \<and> (case j_result r of None \<Rightarrow> False | Some m \<Rightarrow> map_of m runnerWaitKey \<noteq> None))
               (\<lambda>r. r\<lparr>j_result := map_option (jdel runnerWaitKey) (j_result r)\<rparr>) (jobs db)\<rparr>, ()))"

definition JobWait :: "(string \<Rightarrow> int option) \<Rightarrow> job_row \<Rightarrow> (string \<times> int) option" where
  "JobWait parse_time j = (case obj_field (or_empty (j_result j)) runnerWaitKey of
     None \<Rightarrow> None
   | Some w \<Rightarrow> (case parse_time (str_field w ''since'') of
       None \<Rightarrow> None
     | Some t \<Rightarrow> if str_field w ''cause'' = [] then None else Some (str_field w ''cause'', t)))"

section \<open>Completion\<close>

definition complete_status :: "string \<Rightarrow> job_status option" where
  "complete_status s = (if s = ''done'' then Some JDone else if s = ''failed'' then Some JFailed
     else if s = ''cancelled'' then Some JCancelled else None)"

definition same_outcome :: "job_status \<Rightarrow> jobj \<Rightarrow> string \<Rightarrow> job_row \<Rightarrow> bool" where
  "same_outcome s result e j \<longleftrightarrow> j_status j = s \<and> jsonbEqual (j_result j) (Some result) \<and> error_text j = e"

definition completed :: "timestamp \<Rightarrow> job_status \<Rightarrow> jobj \<Rightarrow> string \<Rightarrow> job_row \<Rightarrow> job_row" where
  "completed now s result e j = j\<lparr>j_status := s, j_result := Some result,
     j_error := (if e = [] then None else Some e), j_finished_at := Some now\<rparr>"

definition CompleteJob ::
  "job_host \<Rightarrow> timestamp \<Rightarrow> timestamp \<Rightarrow> string \<Rightarrow> string \<Rightarrow> string \<Rightarrow> string \<Rightarrow> jobj option \<Rightarrow> string \<Rightarrow> 'd db
     \<Rightarrow> err + ('d db \<times> job_row)" where
  "CompleteJob jh now wall p x runner status result0 e db =
     (case complete_status status of
        None \<Rightarrow> Inl (ErrBadRequest ''complete status must be done, failed, or cancelled'')
      | Some s \<Rightarrow>
          let result = or_empty result0 in
          if hasNUL (JObj result) then Inl (ErrBadRequest ''job result contains a NUL byte jsonb cannot store'')
          else if NUL \<in> set e then Inl (ErrBadRequest ''job error contains a NUL byte text cannot store'')
          else rbind (text_params [x]) (\<lambda>_.
            rbind (require (job_of db p x) ErrJobNotFound) (\<lambda>j.
              if jobTerminal (j_status j) then
                (if same_outcome s result e j then Inr (db, j) else Inl ErrJobConflict)
              else if \<not> owned_by runner j then Inl ErrJobNotClaimed
              else
                rbind (with_dataErr (jsonb_param (JObj result))) (\<lambda>_.
                  notifyJobTerminalTx jh now wall (completed now s result e j)
                    (db\<lparr>jobs := upd (\<lambda>r. is_job p x r \<and> owned_by runner r) (completed now s result e) (jobs db)\<rparr>)))))"

text \<open>\<^verbatim>\<open>strings.TrimSpace\<close>: the runes of \<^verbatim>\<open>unicode.IsSpace\<close> at both ends.\<close>

definition space_runes :: "string list" where
  "space_runes = map (map char_of) ([[9], [10], [11], [12], [13], [32], [0xC2, 0x85], [0xC2, 0xA0], [0xE1, 0x9A, 0x80],
     [0xE2, 0x80, 0xA8], [0xE2, 0x80, 0xA9], [0xE2, 0x80, 0xAF], [0xE2, 0x81, 0x9F], [0xE3, 0x80, 0x80]]
     @ map (\<lambda>b. [0xE2, 0x80, b :: nat]) [0x80..<0x8B])"

definition TrimSpace :: "string \<Rightarrow> string" where
  "TrimSpace s = (let sp = (\<lambda>r. r \<in> set space_runes) in concat (rev (dropWhile sp (rev (dropWhile sp (runes s))))))"

definition observed :: "jobj \<Rightarrow> job_row \<Rightarrow> job_row" where
  "observed outcome j = j\<lparr>j_result := Some (jput ''observed_outcome'' (JObj outcome) (jdel runnerWaitKey (or_empty (j_result j))))\<rparr>"

text \<open>
  The read, the checks, and the update whose condition repeats them; the update finds its row unless
  another process attached in between, which is another command of the history.
\<close>

definition AttachLostOutcome ::
  "job_host \<Rightarrow> string \<Rightarrow> string \<Rightarrow> string \<Rightarrow> jobj option \<Rightarrow> 'd db \<Rightarrow> err + ('d db \<times> job_row)" where
  "AttachLostOutcome jh p0 x0 runner0 outcome0 db =
     (let p = TrimSpace p0; x = TrimSpace x0; runner = TrimSpace runner0 in
      case outcome0 of
        None \<Rightarrow> Inl (ErrBadRequest ''persona_id, job_id, runner_id, and outcome required'')
      | Some outcome \<Rightarrow>
          if p = [] \<or> x = [] \<or> runner = [] then Inl (ErrBadRequest ''persona_id, job_id, runner_id, and outcome required'')
          else if hasNUL (JObj outcome) then Inl (ErrBadRequest ''outcome must not contain NUL bytes'')
          else if 65536 < length (jh_marshal jh (JObj outcome)) then Inl (ErrBadRequest ''outcome too large'')
          else rbind (text_params [x]) (\<lambda>_.
            rbind (require (job_of db p x) ErrJobNotFound) (\<lambda>j.
              if j_status j \<noteq> JLost then Inl ErrJobConflict
              else if \<not> owned_by runner j then Inl ErrJobNotClaimed
              else case obj_field (or_empty (j_result j)) ''observed_outcome'' of
                Some existing \<Rightarrow> if jsonb_eq (JObj existing) (JObj outcome) then Inr (db, j) else Inl ErrJobConflict
              | None \<Rightarrow>
                  rbind (text_params [runner]) (\<lambda>_.
                  rbind (jsonb_param (JObj outcome)) (\<lambda>_.
                    if map_of (or_empty (j_result j)) ''observed_outcome'' \<noteq> None then Inl ErrJobConflict
                    else Inr (db\<lparr>jobs := upd (\<lambda>r. is_job p x r \<and> j_status r = JLost \<and> owned_by runner r) (observed outcome) (jobs db)\<rparr>,
                              observed outcome j))))))"

section \<open>Job tools\<close>

text \<open>The id of the job a planned call mints.\<close>

definition tool_job_id :: "string \<Rightarrow> nat \<Rightarrow> string" where
  "tool_job_id i n = jobToolPrefix @ i @ '':'' @ itoa n"

definition jobToolErr :: "err \<Rightarrow> err" where
  "jobToolErr e = (if e = ErrJobNotFound then ErrBadRequest ''job not found'' else dataErr e)"

text \<open>\<^verbatim>\<open>withCurrentJobTx\<close>: a replayed receipt with the job's present state beside it.\<close>

definition current_job :: "(timestamp \<Rightarrow> string) \<Rightarrow> job_row \<Rightarrow> jobj" where
  "current_job ft j = (''status'', JStr (job_status_name (j_status j)))
     # (case exit_code j of None \<Rightarrow> [] | Some c \<Rightarrow> [(''exit_code'', c)])
     @ (if error_text j \<noteq> [] then [(''error'', JStr (error_text j))] else [])
     @ (case j_finished_at j of None \<Rightarrow> [] | Some t \<Rightarrow> [(''finished_at'', JStr (ft t))])"

definition withCurrentJobTx :: "(timestamp \<Rightarrow> string) \<Rightarrow> 'd db \<Rightarrow> string \<Rightarrow> jobj option \<Rightarrow> err + jobj option" where
  "withCurrentJobTx ft db p receipt =
     (let x = str_field (or_empty (obj_field (or_empty receipt) ''job'')) ''job_id'' in
      if x = [] then Inr receipt
      else rbind (text_params [x]) (\<lambda>_.
        case job_of db p x of
          None \<Rightarrow> Inr receipt
        | Some j \<Rightarrow> Inr (Some (jput ''receipt_note''
            (JStr ''job is this call's original result; current_job is the job's state when this turn resumed'')
            (jput ''current_job'' (JObj (current_job ft j)) (or_empty receipt))))))"

definition demo_host :: job_host where
  "demo_host = \<lparr>jh_sprint = (\<lambda>v. case v of JStr s \<Rightarrow> s | _ \<Rightarrow> ''v''), jh_quote = (\<lambda>s. s), jh_marshal = (\<lambda>_. ''{}''),
     jh_pg_text = (\<lambda>_. ''{}''), jh_pg_time = (\<lambda>_. ''t''), jh_backend = ''local'', jh_available = [''local'']\<rparr>"

section \<open>Frames\<close>

text \<open>What job transactions touch: the jobs, the admission numbers, and queued inputs at the end.\<close>

definition job_frame :: "'d db \<Rightarrow> 'd db \<Rightarrow> bool" where
  "job_frame db db' \<longleftrightarrow> (\<exists>js n news. db' = db\<lparr>jobs := js, admission_next := n, inputs := inputs db @ news\<rparr>
     \<and> list_all (\<lambda>r. i_status r = IQueued \<and> has_prefix (i_input_id r) jobInputPrefix) news)"

lemma job_frame_jobs [intro]: "job_frame db (db\<lparr>jobs := js\<rparr>)"
  unfolding job_frame_def by (intro exI [of _ js] exI [of _ "admission_next db"] exI [of _ "[]"]) simp

lemma job_frame_refl [simp, intro]: "job_frame db db"
  using job_frame_jobs [of db "jobs db"] by simp

lemma job_frame_trans [trans]: "job_frame a b \<Longrightarrow> job_frame b c \<Longrightarrow> job_frame a c"
  unfolding job_frame_def by fastforce

lemma notifyJobTerminalTx_eq:
  assumes "notifyJobTerminalTx jh now wall j db = Inr (db', j')"
  shows "jobs db' = upd (is_job (j_persona_id j) (j_job_id j)) (\<lambda>r. r\<lparr>j_notified_at := Some now\<rparr>) (jobs db)"
    "j' = j\<lparr>j_notified_at := Some wall\<rparr>"
    "\<exists>sq m. inputs db' = inputs db @ (if input_of db (j_persona_id j) (jobInputPrefix @ j_job_id j) = None
        then [job_input now sq (j_persona_id j) (j_job_id j) m] else [])"
    "job_frame db db'"
proof -
  let ?p = "j_persona_id j" and ?x = "j_job_id j" and ?m = "job_payload jh j (jobOriginTx jh db j)"
  let ?news = "if input_of db ?p (jobInputPrefix @ ?x) = None then [job_input now (admission_next db) ?p ?x ?m] else []"
  let ?js = "upd (is_job ?p ?x) (\<lambda>r. r\<lparr>j_notified_at := Some now\<rparr>) (jobs db)"
  have d: "db' = db\<lparr>jobs := ?js, admission_next := Suc (admission_next db), inputs := inputs db @ ?news\<rparr>"
    and j: "j' = j\<lparr>j_notified_at := Some wall\<rparr>"
    using assms by (auto simp: notifyJobTerminalTx_def Let_def rbind_eq_Inr)
  show "j' = j\<lparr>j_notified_at := Some wall\<rparr>" by (rule j)
  show "jobs db' = ?js" by (simp add: d)
  show "\<exists>sq m. inputs db' = inputs db @ (if input_of db ?p (jobInputPrefix @ ?x) = None then [job_input now sq ?p ?x m] else [])"
    by (intro exI [of _ "admission_next db"] exI [of _ ?m]) (simp add: d)
  show "job_frame db db'" unfolding job_frame_def d
    by (intro exI [of _ ?js] exI [of _ "Suc (admission_next db)"] exI [of _ ?news]) (simp add: job_input_def)
qed

lemma notify_all_frame: "notify_all jh now wall js db = Inr (db', out) \<Longrightarrow> job_frame db db'"
  by (induction js arbitrary: db out) (auto simp: rbind_eq_Inr dest: notifyJobTerminalTx_eq(4) intro: job_frame_trans)

lemma sweep_frame: "sweep jh now wall js db = Inr (db', out) \<Longrightarrow> job_frame db db'"
  unfolding sweep_def by (blast dest: notify_all_frame intro: job_frame_trans)

text \<open>A cancellation: a queued job ends, a running one is asked to, any other stays as it is.\<close>

lemma cancelJobTx_cases:
  assumes "cancelJobTx jh now wall p x db = Inr (db', j')"
  obtains (withdrawn) j where "job_of db p x = Some j" "j_status j = JQueued"
      "notifyJobTerminalTx jh now wall (j\<lparr>j_status := JCancelled, j_finished_at := Some wall, j_cancel_requested_at := Some wall\<rparr>)
         (db\<lparr>jobs := upd (is_job p x) (\<lambda>r. r\<lparr>j_status := JCancelled, j_cancel_requested_at := Some now, j_finished_at := Some now\<rparr>) (jobs db)\<rparr>)
         = Inr (db', j')"
    | (asked) j where "job_of db p x = Some j" "j_status j = JRunning"
      "db' = db\<lparr>jobs := upd (is_job p x) (\<lambda>r. r\<lparr>j_status := JCancelRequested, j_cancel_requested_at := Some now\<rparr>) (jobs db)\<rparr>"
    | (same) "db' = db" "job_of db p x = Some j'"
proof -
  from assms obtain j where j: "job_of db p x = Some j" by (auto simp: cancelJobTx_def rbind_eq_Inr require_eq_Inr)
  show thesis
  proof (cases "j_status j")
    case JQueued
    with assms j show thesis by (intro withdrawn [OF j]) (simp_all add: cancelJobTx_def rbind_eq_Inr require_eq_Inr)
  next
    case JRunning
    with assms j show thesis by (intro asked [OF j]) (simp_all add: cancelJobTx_def rbind_eq_Inr require_eq_Inr)
  qed (use assms j same in \<open>simp_all add: cancelJobTx_def rbind_eq_Inr require_eq_Inr\<close>)
qed

lemma cancelJobTx_frame:
  assumes "cancelJobTx jh now wall p x db = Inr (db', j')"
  shows "job_frame db db'"
  using assms
proof (cases rule: cancelJobTx_cases)
  case (withdrawn j)
  from notifyJobTerminalTx_eq(4) [OF this(3)] show ?thesis by (rule job_frame_trans [OF job_frame_jobs])
qed auto

lemma submit_job_replay_same: "submit_job_replay a p x kind m db = Inr (db', j, fresh) \<Longrightarrow> db' = db \<and> \<not> fresh \<and> job_of db p x = Some j"
  by (auto simp: submit_job_replay_def split: if_splits option.splits)

text \<open>A submission stores the job or finds it stored.\<close>

lemma submitJobTx_cases:
  assumes "submitJobTx jh now p x kind m by db = Inr (db', j, fresh)"
  obtains (stored) "db' = db\<lparr>jobs := jobs db @ [j]\<rparr>" "j = new_job now p x kind (stamped jh kind m) by"
      "job_of db p x = None" "fresh"
    | (found) "db' = db" "job_of db p x = Some j" "\<not> fresh"
proof (cases "job_of db p x")
  case None
  then have "submit_job_replay a p x kind m' db \<noteq> Inr (db', j, fresh)" for a m'
    using submit_job_replay_same by fastforce
  with None assms show thesis by (intro stored) (auto simp: submitJobTx_def Let_def rbind_eq_Inr split: if_splits option.splits)
next
  case (Some j0)
  with assms obtain a m' where "submit_job_replay a p x kind m' db = Inr (db', j, fresh)"
    by (auto simp: submitJobTx_def Let_def rbind_eq_Inr split: if_splits option.splits)
  from submit_job_replay_same [OF this] show thesis by (intro found) auto
qed

lemma submitJobTx_frame: "submitJobTx jh now p x kind m by db = Inr (db', j, fresh) \<Longrightarrow> job_frame db db'"
  by (auto elim: submitJobTx_cases)

end
