(* ===== verification/Core_Terminal.thy ===== *)
theory Core_Terminal
  imports Core_Jobs
begin

text \<open>
  Interactive terminal sessions (\<^verbatim>\<open>terminal.go\<close>): sessions claimed by runners under an epoch, the
  ledger of their inputs, and the window of their output. \<open>wall\<close> is the process clock where the code
  reads \<^verbatim>\<open>time.Now()\<close>, \<open>now\<close> the transaction's \<^verbatim>\<open>now()\<close>; the identifiers drawn from
  \<^verbatim>\<open>uuid.NewV7\<close> are arguments. Leases are whole milliseconds, as the statements write them. The
  row a refused runner is shown beside the error is not part of the result.
\<close>

section \<open>Rows\<close>

definition terminalMaxSessions :: nat where "terminalMaxSessions = 4"

definition terminalScrollbackCap :: int where "terminalScrollbackCap = 4 * 2 ^ 20"

definition terminalScrollbackKeep :: int where "terminalScrollbackKeep = 3 * 2 ^ 20"

definition terminalMaxInputBytes :: nat where "terminalMaxInputBytes = 65536"

definition terminalMaxControlSecs :: int where "terminalMaxControlSecs = 300"

definition terminalMaxName :: nat where "terminalMaxName = 80"

definition terminalInputListMax :: int where "terminalInputListMax = 200"

definition terminalLive :: "term_status \<Rightarrow> bool" where
  "terminalLive s \<longleftrightarrow> s \<in> {TmRequested, TmClaimed, TmActive, TmEnding, TmInterrupted}"

definition terminalClaimed :: "term_status \<Rightarrow> bool" where
  "terminalClaimed s \<longleftrightarrow> s \<in> {TmClaimed, TmActive, TmEnding}"

definition terminalOver :: "term_status \<Rightarrow> bool" where
  "terminalOver s \<longleftrightarrow> s = TmEnded \<or> s = TmLost"

definition term_status_name :: "term_status \<Rightarrow> string" where
  "term_status_name s = (case s of TmRequested \<Rightarrow> ''requested'' | TmClaimed \<Rightarrow> ''claimed'' | TmActive \<Rightarrow> ''active''
     | TmEnding \<Rightarrow> ''ending'' | TmEnded \<Rightarrow> ''ended'' | TmInterrupted \<Rightarrow> ''interrupted'' | TmLost \<Rightarrow> ''lost'')"

definition tin_status_name :: "tin_status \<Rightarrow> string" where
  "tin_status_name s = (case s of NIntended \<Rightarrow> ''intended'' | NDequeued \<Rightarrow> ''dequeued'' | NWritten \<Rightarrow> ''written''
     | NInterrupted \<Rightarrow> ''interrupted'' | NExpired \<Rightarrow> ''expired'' | NFailed \<Rightarrow> ''failed'' | NUnknown \<Rightarrow> ''unknown'')"

definition is_session :: "string \<Rightarrow> string \<Rightarrow> session_row \<Rightarrow> bool" where
  "is_session p x r \<longleftrightarrow> tm_persona_id r = p \<and> tm_session_id r = x"

definition session_of :: "'d db \<Rightarrow> string \<Rightarrow> string \<Rightarrow> session_row option" where
  "session_of db p x = find (is_session p x) (sessions (terminals db))"

text \<open>The three statements that rewrite terminal rows.\<close>

definition set_sessions :: "(session_row \<Rightarrow> bool) \<Rightarrow> (session_row \<Rightarrow> session_row) \<Rightarrow> 'd db \<Rightarrow> 'd db" where
  "set_sessions P f db = db\<lparr>terminals := (terminals db)\<lparr>sessions := upd P f (sessions (terminals db))\<rparr>\<rparr>"

definition set_tinputs :: "(tinput_row \<Rightarrow> bool) \<Rightarrow> (tinput_row \<Rightarrow> tinput_row) \<Rightarrow> 'd db \<Rightarrow> 'd db" where
  "set_tinputs P f db = db\<lparr>terminals := (terminals db)\<lparr>tinputs := upd P f (tinputs (terminals db))\<rparr>\<rparr>"

definition set_toutput :: "output_row list \<Rightarrow> 'd db \<Rightarrow> 'd db" where
  "set_toutput ks db = db\<lparr>terminals := (terminals db)\<lparr>toutput := ks\<rparr>\<rparr>"

text \<open>\<^verbatim>\<open>COALESCE(c, '')\<close>, and a cast to the domain \<^verbatim>\<open>uuidv7\<close>, a text that matches its pattern.\<close>

definition text_of :: "string option \<Rightarrow> string" where
  "text_of v = (case v of None \<Rightarrow> [] | Some s \<Rightarrow> s)"

definition uuidv7_params :: "string list \<Rightarrow> err + unit" where
  "uuidv7_params ss = guard (list_all uuidv7_match ss) (ErrData ''uuidv7_check'')"

lemma uuidv7_params_eq_Inr [res_simps]: "uuidv7_params ss = Inr u \<longleftrightarrow> list_all uuidv7_match ss"
  by (simp add: uuidv7_params_def guard_eq_Inr)

text \<open>What the process knows: the default backend, the verified ones, \<^verbatim>\<open>%q\<close>, and \<^verbatim>\<open>uuid.NewV7\<close> of the clock.\<close>

record term_host =
  th_backend :: string
  th_available :: "string list"
  th_quote :: "string \<Rightarrow> string"
  th_uuid :: "nat \<Rightarrow> string"

definition terminalBackendDefault :: "term_host \<Rightarrow> string" where
  "terminalBackendDefault th = (if th_backend th \<noteq> [] then th_backend th else ''local'')"

section \<open>Sessions\<close>

definition new_session :: "timestamp \<Rightarrow> string \<Rightarrow> string \<Rightarrow> string \<Rightarrow> string \<Rightarrow> string \<Rightarrow> string \<Rightarrow> session_row" where
  "new_session now x p name backend requested_by created_by =
     \<lparr>tm_session_id = x, tm_persona_id = p, tm_name = name, tm_mode = ''pty'', tm_backend = backend,
      tm_operation_id = None, tm_status = TmRequested, tm_epoch = 0, tm_claimed_by = None, tm_claim_expires_at = None,
      tm_control_holder = None, tm_control_until = None, tm_requested_by = requested_by, tm_created_by = created_by,
      tm_exit_code = None, tm_exit_signal = None, tm_end_reason = None, tm_output_bytes = 0, tm_output_base = 0,
      tm_created_at = now, tm_updated_at = now, tm_ended_at = None\<rparr>"

definition live_sessions :: "'d db \<Rightarrow> string \<Rightarrow> session_row list" where
  "live_sessions db p = filter (\<lambda>r. tm_persona_id r = p \<and> terminalLive (tm_status r)) (sessions (terminals db))"

text \<open>The INSERT, whose errors are passed on as the driver reports them.\<close>

definition insert_session :: "session_row \<Rightarrow> 'd db \<Rightarrow> err + ('d db \<times> session_row)" where
  "insert_session r db =
     rbind (text_params [tm_name r, tm_created_by r]) (\<lambda>_.
     rbind (uuidv7_params [tm_session_id r, tm_persona_id r]) (\<lambda>_.
       if tm_backend r \<notin> {''local'', ''cloud''} then Inl (ErrData ''core_terminal_sessions_backend_check'')
       else if tm_requested_by r \<notin> {''agent'', ''human''} then Inl (ErrData ''core_terminal_sessions_requested_by_check'')
       else if list_ex (\<lambda>q. tm_session_id q = tm_session_id r) (sessions (terminals db))
       then Inl (ErrStorage ''core_terminal_sessions_pkey'')
       else Inr (db\<lparr>terminals := (terminals db)\<lparr>sessions := sessions (terminals db) @ [r]\<rparr>\<rparr>, r)))"

definition createTerminalSessionTx ::
  "term_host \<Rightarrow> timestamp \<Rightarrow> string \<Rightarrow> string \<Rightarrow> string \<Rightarrow> string \<Rightarrow> string \<Rightarrow> 'd db \<Rightarrow> err + ('d db \<times> session_row)" where
  "createTerminalSessionTx th now x p name requested_by created_by db =
     (let backend = terminalBackendDefault th in
      if terminalMaxName < length name then Inl (ErrBadRequest ''terminal name too long'')
      else if backend \<notin> set (th_available th) then Inl (ErrTerminalBackend backend)
      else case persona_of db p of
        None \<Rightarrow> Inl ErrPersonaNotFound
      | Some r \<Rightarrow>
          if p_authority r \<noteq> Active then Inl (inactiveAuthorityError (p_authority r))
          else if terminalMaxSessions \<le> length (live_sessions db p) then Inl ErrTerminalCapacity
          else insert_session (new_session now x p name backend requested_by created_by) db)"

definition CreateTerminalSession ::
  "term_host \<Rightarrow> timestamp \<Rightarrow> string \<Rightarrow> string \<Rightarrow> string \<Rightarrow> string \<Rightarrow> string \<Rightarrow> 'd db \<Rightarrow> err + ('d db \<times> session_row)" where
  "CreateTerminalSession th now x p name requested_by created_by db =
     createTerminalSessionTx th now x p name requested_by created_by db"

text \<open>The locked read of a mutation, and the plain read, which passes a failed cast on unmapped.\<close>

definition lockTerminalSessionTx :: "'d db \<Rightarrow> string \<Rightarrow> string \<Rightarrow> err + session_row" where
  "lockTerminalSessionTx db p x =
     rbind (with_dataErr (uuidv7_params [p, x])) (\<lambda>_. require (session_of db p x) ErrTerminalNotFound)"

definition GetTerminalSession :: "'d db \<Rightarrow> string \<Rightarrow> string \<Rightarrow> err + session_row" where
  "GetTerminalSession db p x = rbind (uuidv7_params [p, x]) (\<lambda>_. require (session_of db p x) ErrTerminalNotFound)"

definition ListTerminalSessions :: "'d db \<Rightarrow> string \<Rightarrow> err + session_row list" where
  "ListTerminalSessions db p = rbind (with_dataErr (uuidv7_params [p])) (\<lambda>_.
     Inr (sort_key tm_created_at (filter (\<lambda>r. tm_persona_id r = p) (sessions (terminals db)))))"

text \<open>\<^verbatim>\<open>ClaimExpiresAt != nil && ClaimExpiresAt.After(time.Now())\<close>.\<close>

definition unexpired :: "timestamp \<Rightarrow> timestamp option \<Rightarrow> bool" where
  "unexpired wall e = (case e of None \<Rightarrow> False | Some u \<Rightarrow> wall < u)"

text \<open>The launch runs under the locks; \<open>launch\<close> is its result, asked for only when the fence is passed.\<close>

definition WithTerminalLaunchFence ::
  "timestamp \<Rightarrow> string \<Rightarrow> string \<Rightarrow> string \<Rightarrow> int \<Rightarrow> (unit \<Rightarrow> err + 'a) \<Rightarrow> 'd db \<Rightarrow> err + 'a" where
  "WithTerminalLaunchFence wall p x runner epoch launch db =
     rbind (with_dataErr (uuidv7_params [p])) (\<lambda>_.
     case persona_of db p of
       None \<Rightarrow> Inl ErrPersonaNotFound
     | Some r \<Rightarrow>
         if p_authority r \<noteq> Active then Inl ErrTerminalLaunchFenced
         else rbind (lockTerminalSessionTx db p x) (\<lambda>t.
           if \<not> (tm_status t = TmClaimed \<or> tm_status t = TmActive) \<or> text_of (tm_claimed_by t) \<noteq> runner
              \<or> tm_epoch t \<noteq> epoch \<or> \<not> unexpired wall (tm_claim_expires_at t)
           then Inl ErrTerminalLaunchFenced
           else launch ()))"

section \<open>Inputs\<close>

definition validateTerminalInput :: "string \<Rightarrow> jobj \<Rightarrow> err + unit" where
  "validateTerminalInput kind m =
     (if kind = ''stdin'' then
        (if str_field m ''data'' = [] then Inl (ErrBadRequest ''stdin input requires data'')
         else guard (length (str_field m ''data'') \<le> terminalMaxInputBytes) (ErrBadRequest ''stdin input exceeds 65536 bytes''))
      else if kind = ''resize'' then
        guard (case (num_field m ''cols'', num_field m ''rows'') of
            (Some c, Some r) \<Rightarrow> 2 \<le> c \<and> c \<le> 1000 \<and> 2 \<le> r \<and> r \<le> 500 | _ \<Rightarrow> False)
          (ErrBadRequest ''resize requires cols 2..1000 and rows 2..500'')
      else if kind = ''signal'' then
        guard (str_field m ''signal'' \<in> set terminalSignalAllowlist) (ErrBadRequest ''signal not permitted'')
      else guard (kind = ''eof'') (ErrBadRequest ''unknown input kind''))"

definition of_session :: "string \<Rightarrow> tinput_row \<Rightarrow> bool" where
  "of_session x n \<longleftrightarrow> n_session_id n = x"

definition new_tinput :: "timestamp \<Rightarrow> string \<Rightarrow> session_row \<Rightarrow> string \<Rightarrow> string \<Rightarrow> jobj \<Rightarrow> tinput_row list \<Rightarrow> tinput_row" where
  "new_tinput now nid t source kind m ns =
     \<lparr>n_input_id = nid, n_session_id = tm_session_id t, n_session_epoch = tm_epoch t,
      n_seq = Suc (maxl (map n_seq (filter (of_session (tm_session_id t)) ns))), n_kind = kind, n_payload = m,
      n_source = source, n_status = NIntended, n_detail = None, n_created_at = now, n_updated_at = now\<rparr>"

definition insert_tinput :: "tinput_row \<Rightarrow> 'd db \<Rightarrow> err + ('d db \<times> tinput_row)" where
  "insert_tinput n db =
     rbind (with_dataErr (jsonb_param (JObj (n_payload n)))) (\<lambda>_.
     rbind (with_dataErr (uuidv7_params [n_input_id n])) (\<lambda>_.
       if list_ex (\<lambda>q. n_input_id q = n_input_id n) (tinputs (terminals db))
       then Inl (ErrStorage ''core_terminal_inputs_pkey'')
       else Inr (db\<lparr>terminals := (terminals db)\<lparr>tinputs := tinputs (terminals db) @ [n]\<rparr>\<rparr>, n)))"

text \<open>Whether input of this source is admitted in the session's present state.\<close>

definition admits_input :: "timestamp \<Rightarrow> string \<Rightarrow> session_row \<Rightarrow> err + unit" where
  "admits_input wall source t =
     (if terminalOver (tm_status t) then Inl ErrTerminalEnded
      else if tm_status t = TmEnding then Inl ErrTerminalNotLive
      else guard (\<not> (source = ''agent'' \<and> tm_control_holder t = Some ''human'' \<and> unexpired wall (tm_control_until t)))
             ErrTerminalControl)"

definition submitTerminalInputTx ::
  "timestamp \<Rightarrow> timestamp \<Rightarrow> string \<Rightarrow> string \<Rightarrow> string \<Rightarrow> string \<Rightarrow> string \<Rightarrow> jobj \<Rightarrow> 'd db
     \<Rightarrow> err + ('d db \<times> tinput_row)" where
  "submitTerminalInputTx now wall nid p x source kind m db =
     rbind (lockTerminalSessionTx db p x) (\<lambda>t.
     rbind (admits_input wall source t) (\<lambda>_.
     rbind (validateTerminalInput kind m) (\<lambda>_.
       insert_tinput (new_tinput now nid t source kind m (tinputs (terminals db))) db)))"

definition SubmitTerminalInput ::
  "timestamp \<Rightarrow> timestamp \<Rightarrow> string \<Rightarrow> string \<Rightarrow> string \<Rightarrow> string \<Rightarrow> string \<Rightarrow> jobj \<Rightarrow> 'd db
     \<Rightarrow> err + ('d db \<times> tinput_row)" where
  "SubmitTerminalInput now wall nid p x source kind m db =
     (if source \<noteq> ''agent'' \<and> source \<noteq> ''human'' then Inl (ErrBadRequest ''invalid input source'')
      else submitTerminalInputTx now wall nid p x source kind m db)"

section \<open>Control and close\<close>

text \<open>The lease in nanoseconds, clamped, and written in whole seconds.\<close>

definition control_secs :: "int \<Rightarrow> int" where
  "control_secs lease =
     (if lease \<le> 0 \<or> terminalMaxControlSecs * 10 ^ 9 < lease then terminalMaxControlSecs else lease div 10 ^ 9)"

definition SetTerminalControl ::
  "timestamp \<Rightarrow> string \<Rightarrow> string \<Rightarrow> bool \<Rightarrow> int \<Rightarrow> 'd db \<Rightarrow> err + ('d db \<times> session_row)" where
  "SetTerminalControl now p x hold lease db =
     rbind (lockTerminalSessionTx db p x) (\<lambda>t.
       if terminalOver (tm_status t) then Inl ErrTerminalEnded
       else
         (let db1 = set_sessions (is_session p x)
                (\<lambda>r. if hold then r\<lparr>tm_control_holder := Some ''human'',
                                   tm_control_until := Some (now + control_secs lease * 10 ^ 6), tm_updated_at := now\<rparr>
                     else r\<lparr>tm_control_holder := None, tm_control_until := None, tm_updated_at := now\<rparr>) db
          in rbind (lockTerminalSessionTx db1 p x) (\<lambda>out. Inr (db1, out))))"

definition terminalInputPrefix :: string where "terminalInputPrefix = ''terminal:''"

definition terminal_payload :: "term_host \<Rightarrow> session_row \<Rightarrow> jobj" where
  "terminal_payload th t =
     [(''session_id'', JStr (tm_session_id t)), (''status'', JStr (term_status_name (tm_status t))),
      (''end_reason'', JStr (text_of (tm_end_reason t))),
      (''text'', JStr (''Terminal session '' @ th_quote th (tm_name t) @ '' ended ('' @ text_of (tm_end_reason t) @ '').''))]
     @ (case tm_exit_code t of None \<Rightarrow> [] | Some c \<Rightarrow> [(''exit_code'', jint c)])
     @ (if text_of (tm_exit_signal t) \<noteq> [] then [(''exit_signal'', JStr (text_of (tm_exit_signal t)))] else [])"

definition terminal_input :: "timestamp \<Rightarrow> nat \<Rightarrow> string \<Rightarrow> string \<Rightarrow> jobj \<Rightarrow> input_row" where
  "terminal_input now sq p x m =
     \<lparr>i_persona_id = p, i_input_id = terminalInputPrefix @ x, i_kind = ''terminal_ended'', i_payload = m,
      i_actor_kind = ''terminal'', i_actor_id = x, i_source_surface = ''core_terminal_sessions'', i_thread_id = [],
      i_occurred_at = None, i_attention = ''reply'', i_status = IQueued, i_claimed_generation = None, i_turn_id = None,
      i_created_at = now, i_done_at = None, i_not_before = None, i_received_seq = None, i_admission_seq = sq,
      i_waiting_since = None, i_waited_ms = 0\<rparr>"

definition notifyTerminalEndedTx :: "term_host \<Rightarrow> timestamp \<Rightarrow> session_row \<Rightarrow> 'd db \<Rightarrow> err + 'd db" where
  "notifyTerminalEndedTx th now t db =
     (let p = tm_persona_id t; x = tm_session_id t; m = terminal_payload th t; sq = admission_next db;
          db1 = db\<lparr>admission_next := Suc sq\<rparr> in
      rbind (with_dataErr (jsonb_param (JObj m))) (\<lambda>_.
        Inr (if input_of db p (terminalInputPrefix @ x) = None
             then db1\<lparr>inputs := inputs db @ [terminal_input now sq p x m]\<rparr> else db1)))"

definition ended_session :: "timestamp \<Rightarrow> term_status \<Rightarrow> string \<Rightarrow> int option \<Rightarrow> string \<Rightarrow> session_row \<Rightarrow> session_row" where
  "ended_session wall status reason code signal t =
     t\<lparr>tm_status := status, tm_end_reason := Some reason, tm_exit_code := code, tm_exit_signal := Some signal,
       tm_ended_at := Some wall, tm_claimed_by := None, tm_claim_expires_at := None\<rparr>"

definition int4 :: "int option \<Rightarrow> bool" where
  "int4 c = (case c of None \<Rightarrow> True | Some n \<Rightarrow> - (2 ^ 31) \<le> n \<and> n < 2 ^ 31)"

definition endTerminalSessionTx ::
  "term_host \<Rightarrow> timestamp \<Rightarrow> timestamp \<Rightarrow> session_row \<Rightarrow> term_status \<Rightarrow> string \<Rightarrow> int option \<Rightarrow> string \<Rightarrow> 'd db
     \<Rightarrow> err + ('d db \<times> session_row)" where
  "endTerminalSessionTx th now wall t status reason code signal db =
     (let x = tm_session_id t; f = ended_session wall status reason code signal;
          db1 = set_sessions (is_session (tm_persona_id t) x) (\<lambda>r. (f r)\<lparr>tm_updated_at := wall\<rparr>) db;
          db2 = set_tinputs (\<lambda>n. of_session x n \<and> n_status n = NIntended) (\<lambda>n. n\<lparr>n_status := NExpired, n_updated_at := now\<rparr>) db1;
          db3 = set_tinputs (\<lambda>n. of_session x n \<and> n_status n = NDequeued) (\<lambda>n. n\<lparr>n_status := NUnknown, n_updated_at := now\<rparr>) db2 in
      rbind (guard (int4 code) (ErrStorage ''exit_code does not fit int4'')) (\<lambda>_.
      rbind (with_dataErr (text_params [reason, signal])) (\<lambda>_.
      rbind (notifyTerminalEndedTx th now (f t) db3) (\<lambda>db4. Inr (db4, f t)))))"

definition CloseTerminalSession ::
  "term_host \<Rightarrow> timestamp \<Rightarrow> timestamp \<Rightarrow> string \<Rightarrow> string \<Rightarrow> string \<Rightarrow> 'd db \<Rightarrow> err + ('d db \<times> session_row)" where
  "CloseTerminalSession th now wall p x reason0 db =
     rbind (lockTerminalSessionTx db p x) (\<lambda>t.
       let reason = (if reason0 = [] then ''closed'' else reason0) in
       if terminalOver (tm_status t) then Inr (db, t)
       else if terminalClaimed (tm_status t) \<and> unexpired wall (tm_claim_expires_at t) then
         Inr (set_sessions (is_session p x) (\<lambda>r. r\<lparr>tm_status := TmEnding, tm_updated_at := now\<rparr>) db, t\<lparr>tm_status := TmEnding\<rparr>)
       else if tm_status t = TmRequested then endTerminalSessionTx th now wall t TmEnded reason None [] db
       else
         Inr (set_sessions (is_session p x)
                (\<lambda>r. r\<lparr>tm_status := TmEnding, tm_claimed_by := None, tm_claim_expires_at := None, tm_updated_at := now\<rparr>) db,
              t\<lparr>tm_status := TmEnding, tm_claimed_by := None, tm_claim_expires_at := None\<rparr>))"

section \<open>Reading output\<close>

definition chunk_of :: "string \<Rightarrow> output_row \<Rightarrow> bool" where
  "chunk_of x k \<longleftrightarrow> k_session_id k = x"

definition chunk_end :: "output_row \<Rightarrow> int" where
  "chunk_end k = k_base k + int (length (k_data k))"

text \<open>The row selection of a read: bytes past the cursor, or a loss marker not yet seen.\<close>

definition served :: "int \<Rightarrow> int \<Rightarrow> output_row \<Rightarrow> bool" where
  "served cursor evc k \<longleftrightarrow> cursor < max (chunk_end k) (case k_gap_to k of None \<Rightarrow> 0 | Some g \<Rightarrow> g)
     \<or> k_kind k = OutGap \<and> k_gap_to k = Some (k_base k) \<and> evc < int (k_seq k)"

text \<open>
  The query of a page: one row more than the limit. The sum of the filter is a bigint, whose overflow
  is a data error.
\<close>

definition read_chunks :: "'d db \<Rightarrow> string \<Rightarrow> int \<Rightarrow> int \<Rightarrow> int \<Rightarrow> err + output_row list" where
  "read_chunks db x cursor evc limit =
     (let ks = filter (chunk_of x) (toutput (terminals db)) in
      if list_ex (\<lambda>k. MaxInt64 < chunk_end k) ks then Inl (ErrData ''bigint out of range'')
      else Inr (take (nat (limit + 1)) (sort_key k_seq (filter (served cursor evc) ks))))"

definition read_limit :: "int \<Rightarrow> int" where
  "read_limit limit = (if limit \<le> 0 \<or> 64 < limit then 32 else limit)"

definition chunk_stop :: "output_row \<Rightarrow> int" where
  "chunk_stop k = (case (k_kind k, k_gap_to k) of (OutGap, Some g) \<Rightarrow> g | _ \<Rightarrow> chunk_end k)"

definition next_cursor :: "int \<Rightarrow> output_row list \<Rightarrow> int" where
  "next_cursor cursor ks = foldl (\<lambda>n k. if n < chunk_stop k then chunk_stop k else n) cursor ks"

definition next_event :: "int \<Rightarrow> output_row list \<Rightarrow> int" where
  "next_event evc ks = foldl (\<lambda>n k. if n < int (k_seq k) then int (k_seq k) else n) evc ks"

definition output_eof :: "session_row \<Rightarrow> int \<Rightarrow> bool" where
  "output_eof t next \<longleftrightarrow> \<not> terminalLive (tm_status t) \<and> tm_output_bytes t \<le> next"

record output_read =
  or_session :: session_row
  or_base :: int
  or_cursor :: int
  or_next_cursor :: int
  or_event_cursor :: int
  or_chunks :: "output_row list"
  or_gap :: bool
  or_eof :: bool

definition ReadTerminalOutput :: "'d db \<Rightarrow> string \<Rightarrow> string \<Rightarrow> int \<Rightarrow> int \<Rightarrow> int \<Rightarrow> err + output_read" where
  "ReadTerminalOutput db p x cursor0 evc0 limit =
     (let evc = max evc0 0 in
      rbind (GetTerminalSession db p x) (\<lambda>t.
        let cursor = (if max cursor0 0 = 0 then tm_output_base t else cursor0) in
        rbind (with_dataErr (read_chunks db x cursor evc (read_limit limit))) (\<lambda>ks.
          Inr \<lparr>or_session = t, or_base = tm_output_base t, or_cursor = cursor, or_next_cursor = next_cursor cursor ks,
               or_event_cursor = next_event evc ks, or_chunks = ks, or_gap = (cursor < tm_output_base t),
               or_eof = output_eof t (next_cursor cursor ks)\<rparr>)))"

section \<open>Claims\<close>

definition claimLogicalRunner :: "string \<Rightarrow> string" where
  "claimLogicalRunner r = takeWhile (\<lambda>c. c \<noteq> CHR ''#'') r"

text \<open>\<^verbatim>\<open>claimed_by = $r OR starts_with(claimed_by, $r || '#')\<close>.\<close>

definition held_under :: "string \<Rightarrow> session_row \<Rightarrow> bool" where
  "held_under logical t = (case tm_claimed_by t of None \<Rightarrow> False
     | Some c \<Rightarrow> c = logical \<or> has_prefix c (logical @ ''#''))"

text \<open>\<^verbatim>\<open>claim_expires_at IS NOT NULL AND claim_expires_at <= now()\<close>.\<close>

definition lapsed :: "timestamp \<Rightarrow> session_row \<Rightarrow> bool" where
  "lapsed now t = (case tm_claim_expires_at t of None \<Rightarrow> False | Some e \<Rightarrow> e \<le> now)"

definition runnable_session :: "timestamp \<Rightarrow> string \<Rightarrow> session_row \<Rightarrow> bool" where
  "runnable_session now runner t \<longleftrightarrow> tm_status t = TmRequested \<or> tm_status t = TmInterrupted
     \<or> tm_status t = TmEnding \<and> tm_claimed_by t = None
     \<or> held_under runner t \<and> terminalClaimed (tm_status t)
     \<or> terminalClaimed (tm_status t) \<and> lapsed now t"

definition is_active :: "'d db \<Rightarrow> string \<Rightarrow> bool" where
  "is_active db p = (case persona_of db p of None \<Rightarrow> False | Some r \<Rightarrow> p_authority r = Active)"

definition RunnableTerminalPersonas :: "'d db \<Rightarrow> timestamp \<Rightarrow> string \<Rightarrow> string \<Rightarrow> int \<Rightarrow> err + string list" where
  "RunnableTerminalPersonas db now runner backend limit =
     rbind (with_dataErr (text_params [runner, backend])) (\<lambda>_.
       Inr (take (nat (if limit \<le> 0 then 64 else limit)) (sort (remdups (map tm_persona_id
         (filter (\<lambda>t. is_active db (tm_persona_id t) \<and> tm_backend t = backend \<and> runnable_session now runner t) (sessions (terminals db))))))))"

definition OwnedTerminalSessions :: "'d db \<Rightarrow> string \<Rightarrow> string \<Rightarrow> err + session_row list" where
  "OwnedTerminalSessions db p runner =
     rbind (with_dataErr (uuidv7_params [p])) (\<lambda>_.
     rbind (with_dataErr (text_params [runner])) (\<lambda>_.
       Inr (sort_key tm_created_at (filter (\<lambda>t. tm_persona_id t = p \<and> tm_claimed_by t = Some runner \<and> terminalClaimed (tm_status t))
              (sessions (terminals db))))))"

text \<open>Which sessions a claim may take: free ones, and those of a stale incarnation of the same runner.\<close>

definition claimable :: "string \<Rightarrow> session_row \<Rightarrow> bool" where
  "claimable runner t \<longleftrightarrow> tm_status t = TmRequested \<or> tm_status t = TmInterrupted
     \<or> tm_status t = TmEnding \<and> tm_claimed_by t = None
     \<or> tm_claimed_by t \<noteq> Some runner \<and> terminalClaimed (tm_status t) \<and> held_under (claimLogicalRunner runner) t"

definition released :: "timestamp \<Rightarrow> session_row \<Rightarrow> session_row" where
  "released now t = t\<lparr>tm_status := (if tm_status t = TmEnding then TmEnding else TmInterrupted),
     tm_claimed_by := None, tm_claim_expires_at := None, tm_updated_at := now\<rparr>"

definition sweepable :: "timestamp \<Rightarrow> string \<Rightarrow> string \<Rightarrow> session_row \<Rightarrow> bool" where
  "sweepable now p backend t \<longleftrightarrow> tm_persona_id t = p \<and> (backend = [] \<or> tm_backend t = backend) \<and> lapsed now t"

text \<open>Two statements: the claimed and active ones are interrupted, the ending ones only lose their claim.\<close>

definition sweepTerminalExpiredTx :: "timestamp \<Rightarrow> string \<Rightarrow> string \<Rightarrow> 'd db \<Rightarrow> err + ('d db \<times> session_row list)" where
  "sweepTerminalExpiredTx now p backend db =
     (let running = (\<lambda>t. sweepable now p backend t \<and> (tm_status t = TmClaimed \<or> tm_status t = TmActive));
          closing = (\<lambda>t. sweepable now p backend t \<and> tm_status t = TmEnding);
          db1 = set_sessions running (released now) db in
      rbind (with_dataErr (text_params [backend])) (\<lambda>_.
        Inr (set_sessions closing (released now) db1,
             map (released now) (filter running (sessions (terminals db)) @ filter closing (sessions (terminals db1))))))"

definition SweepExpiredTerminalClaims :: "timestamp \<Rightarrow> string \<Rightarrow> 'd db \<Rightarrow> err + ('d db \<times> session_row list)" where
  "SweepExpiredTerminalClaims now p db = sweepTerminalExpiredTx now p [] db"

definition claim_session :: "timestamp \<Rightarrow> string \<Rightarrow> int \<Rightarrow> int \<Rightarrow> session_row \<Rightarrow> session_row" where
  "claim_session now runner lease epoch t =
     t\<lparr>tm_status := (if tm_status t = TmEnding then TmEnding else TmClaimed), tm_epoch := epoch,
       tm_claimed_by := Some runner, tm_claim_expires_at := Some (now + lease * 1000), tm_updated_at := now\<rparr>"

text \<open>What the new epoch does to the ledger: what was handed out is unknown, what was not is handed over.\<close>

definition fence_inputs :: "timestamp \<Rightarrow> string \<Rightarrow> int \<Rightarrow> 'd db \<Rightarrow> 'd db" where
  "fence_inputs now x epoch db =
     set_tinputs (\<lambda>n. of_session x n \<and> n_session_epoch n < epoch \<and> n_status n = NIntended)
         (\<lambda>n. n\<lparr>n_session_epoch := epoch, n_updated_at := now\<rparr>)
       (set_tinputs (\<lambda>n. of_session x n \<and> n_session_epoch n < epoch \<and> n_status n = NDequeued)
         (\<lambda>n. n\<lparr>n_status := NUnknown, n_updated_at := now\<rparr>) db)"

fun claim_each :: "timestamp \<Rightarrow> string \<Rightarrow> string \<Rightarrow> int \<Rightarrow> session_row list \<Rightarrow> 'd db \<Rightarrow> err + ('d db \<times> session_row list)" where
  "claim_each now p runner lease [] db = Inr (db, [])"
| "claim_each now p runner lease (t # ts) db =
     (let x = tm_session_id t; epoch = tm_epoch t + 1; P = (\<lambda>r. is_session p x r \<and> claimable runner r) in
      if \<not> list_ex P (sessions (terminals db)) then claim_each now p runner lease ts db
      else
        (let db1 = fence_inputs now x epoch (set_sessions P (claim_session now runner lease epoch) db) in
         rbind (lockTerminalSessionTx db1 p x) (\<lambda>fresh.
         rbind (claim_each now p runner lease ts db1) (\<lambda>(db2, rest). Inr (db2, fresh # rest)))))"

definition claim_candidates :: "'d db \<Rightarrow> string \<Rightarrow> string \<Rightarrow> string \<Rightarrow> int \<Rightarrow> session_row list" where
  "claim_candidates db p runner backend limit =
     take (nat (if limit \<le> 0 then 1 else limit)) (sort_key tm_created_at
       (filter (\<lambda>t. tm_persona_id t = p \<and> tm_backend t = backend \<and> claimable runner t) (sessions (terminals db))))"

definition ClaimTerminalSessions ::
  "timestamp \<Rightarrow> string \<Rightarrow> string \<Rightarrow> string \<Rightarrow> int \<Rightarrow> int \<Rightarrow> 'd db \<Rightarrow> err + ('d db \<times> session_row list \<times> session_row list)" where
  "ClaimTerminalSessions now p runner backend lease limit db =
     rbind (with_dataErr (uuidv7_params [p])) (\<lambda>_.
     rbind (require (persona_of db p) (ErrStorage ''no rows'')) (\<lambda>r.
       if p_authority r \<noteq> Active then Inr (db, [], [])
       else
         rbind (sweepTerminalExpiredTx now p backend db) (\<lambda>(db1, interrupted).
         rbind (with_dataErr (text_params [runner])) (\<lambda>_.
         rbind (claim_each now p runner lease (claim_candidates db1 p runner backend limit) db1) (\<lambda>(db2, claimed).
           Inr (db2, claimed, interrupted))))))"

section \<open>Under a claim\<close>

definition claim_live :: "timestamp \<Rightarrow> string \<Rightarrow> int \<Rightarrow> session_row \<Rightarrow> bool" where
  "claim_live wall runner epoch t \<longleftrightarrow> tm_epoch t = epoch \<and> text_of (tm_claimed_by t) = runner
     \<and> terminalClaimed (tm_status t) \<and> unexpired wall (tm_claim_expires_at t)"

definition terminalClaimTx ::
  "timestamp \<Rightarrow> string \<Rightarrow> string \<Rightarrow> string \<Rightarrow> int \<Rightarrow> (session_row \<Rightarrow> 'd db \<Rightarrow> err + ('d db \<times> 'a)) \<Rightarrow> 'd db
     \<Rightarrow> err + ('d db \<times> 'a \<times> session_row)" where
  "terminalClaimTx wall p x runner epoch f db =
     rbind (lockTerminalSessionTx db p x) (\<lambda>t.
       if \<not> claim_live wall runner epoch t then Inl ErrTerminalNotClaimed
       else rbind (f t db) (\<lambda>(db1, a). rbind (lockTerminalSessionTx db1 p x) (\<lambda>fresh. Inr (db1, a, fresh))))"

definition HeartbeatTerminalSession ::
  "timestamp \<Rightarrow> timestamp \<Rightarrow> string \<Rightarrow> string \<Rightarrow> string \<Rightarrow> int \<Rightarrow> int \<Rightarrow> 'd db \<Rightarrow> err + ('d db \<times> unit \<times> session_row)" where
  "HeartbeatTerminalSession now wall p x runner epoch lease db =
     terminalClaimTx wall p x runner epoch (\<lambda>t db.
       let P = (\<lambda>r. is_session p x r \<and> tm_claimed_by r = Some runner) in
       rbind (with_dataErr (text_params [runner])) (\<lambda>_.
         if \<not> list_ex P (sessions (terminals db)) then Inl ErrTerminalNotClaimed
         else Inr (set_sessions P (\<lambda>r. r\<lparr>tm_claim_expires_at := Some (now + lease * 1000), tm_updated_at := now\<rparr>) db, ()))) db"

definition ListTerminalInputs :: "'d db \<Rightarrow> string \<Rightarrow> string \<Rightarrow> int \<Rightarrow> int \<Rightarrow> err + tinput_row list" where
  "ListTerminalInputs db p x after limit =
     rbind (GetTerminalSession db p x) (\<lambda>_.
       Inr (take (nat (if limit \<le> 0 \<or> terminalInputListMax < limit then terminalInputListMax else limit))
         (sort_key n_seq (filter (\<lambda>n. of_session x n \<and> after < int (n_seq n)) (tinputs (terminals db))))))"

definition PendingTerminalInputs ::
  "timestamp \<Rightarrow> string \<Rightarrow> string \<Rightarrow> string \<Rightarrow> int \<Rightarrow> 'd db \<Rightarrow> err + ('d db \<times> tinput_row list \<times> session_row)" where
  "PendingTerminalInputs wall p x runner epoch db =
     terminalClaimTx wall p x runner epoch (\<lambda>t db.
       Inr (db, sort_key n_seq (filter (\<lambda>n. of_session x n \<and> n_session_epoch n = epoch \<and> n_status n = NIntended)
                                  (tinputs (terminals db))))) db"

definition ResolveDequeuedTerminalInputs ::
  "timestamp \<Rightarrow> timestamp \<Rightarrow> string \<Rightarrow> string \<Rightarrow> string \<Rightarrow> int \<Rightarrow> 'd db \<Rightarrow> err + ('d db \<times> nat \<times> session_row)" where
  "ResolveDequeuedTerminalInputs now wall p x runner epoch db =
     terminalClaimTx wall p x runner epoch (\<lambda>t db.
       let P = (\<lambda>n. of_session x n \<and> n_session_epoch n = epoch \<and> n_status n = NDequeued) in
       Inr (set_tinputs P (\<lambda>n. n\<lparr>n_status := NUnknown, n_updated_at := now\<rparr>) db,
            length (filter P (tinputs (terminals db))))) db"

definition input_disposition :: "string \<Rightarrow> tin_status option" where
  "input_disposition s = (if s = ''dequeued'' then Some NDequeued else if s = ''written'' then Some NWritten
     else if s = ''failed'' then Some NFailed else if s = ''unknown'' then Some NUnknown else None)"

text \<open>The failed update is passed on as the driver reports it.\<close>

definition ReportTerminalInputDisposition ::
  "timestamp \<Rightarrow> timestamp \<Rightarrow> string \<Rightarrow> string \<Rightarrow> string \<Rightarrow> string \<Rightarrow> int \<Rightarrow> string \<Rightarrow> jobj option \<Rightarrow> 'd db
     \<Rightarrow> err + ('d db \<times> tinput_row \<times> session_row)" where
  "ReportTerminalInputDisposition now wall p x nid runner epoch status detail db =
     (case input_disposition status of
        None \<Rightarrow> Inl (ErrBadRequest ''invalid input disposition'')
      | Some s \<Rightarrow>
          terminalClaimTx wall p x runner epoch (\<lambda>t db.
            let P = (\<lambda>n. n_input_id n = nid \<and> of_session x n \<and> n_session_epoch n = epoch \<and> n_status n \<in> {NIntended, NDequeued});
                f = (\<lambda>n. n\<lparr>n_status := s, n_detail := detail, n_updated_at := now\<rparr>) in
            rbind (text_params [nid]) (\<lambda>_.
            rbind (case detail of None \<Rightarrow> Inr () | Some m \<Rightarrow> jsonb_param (JObj m)) (\<lambda>_.
            rbind (require (find P (tinputs (terminals db))) ErrTerminalNotClaimed) (\<lambda>n.
              Inr (set_tinputs P f db, f n))))) db)"

definition report_status :: "string \<Rightarrow> term_status option" where
  "report_status s = (if s = ''active'' then Some TmActive else if s = ''ended'' then Some TmEnded
     else if s = ''lost'' then Some TmLost else None)"

definition ReportTerminalStatus ::
  "term_host \<Rightarrow> timestamp \<Rightarrow> timestamp \<Rightarrow> string \<Rightarrow> string \<Rightarrow> string \<Rightarrow> int \<Rightarrow> string \<Rightarrow> string \<Rightarrow> int option \<Rightarrow> string \<Rightarrow> string
     \<Rightarrow> 'd db \<Rightarrow> err + ('d db \<times> unit \<times> session_row)" where
  "ReportTerminalStatus th now wall p x runner epoch status reason code signal opid db =
     (case report_status status of
        None \<Rightarrow> Inl (ErrBadRequest ''invalid session status report'')
      | Some s \<Rightarrow>
          terminalClaimTx wall p x runner epoch (\<lambda>t db.
            if s = TmActive then
              rbind (with_dataErr (text_params [opid])) (\<lambda>_.
                Inr (set_sessions (is_session p x)
                  (\<lambda>r. r\<lparr>tm_status := (if tm_status r = TmEnding then TmEnding else TmActive), tm_operation_id := Some opid,
                         tm_updated_at := now\<rparr>) db, ()))
            else rbind (endTerminalSessionTx th now wall t s reason code signal db) (\<lambda>(db1, _). Inr (db1, ()))) db)"

section \<open>Output\<close>

text \<open>A chunk as the runner drains it, at the provisioner's absolute offset.\<close>

record drained =
  dc_kind :: string
  dc_base :: int
  dc_gap_to :: "int option"
  dc_data :: string

definition new_output :: "timestamp \<Rightarrow> string \<Rightarrow> nat \<Rightarrow> out_kind \<Rightarrow> int \<Rightarrow> int option \<Rightarrow> string \<Rightarrow> output_row" where
  "new_output now x sq kind base to data =
     \<lparr>k_session_id = x, k_seq = sq, k_kind = kind, k_base = base, k_gap_to = to, k_data = data, k_created_at = now\<rparr>"

text \<open>\<^verbatim>\<open>INSERT .. ON CONFLICT (session_id, base, kind) DO NOTHING\<close>, after the CHECK constraints.\<close>

definition insert_output :: "output_row \<Rightarrow> output_row list \<Rightarrow> err + output_row list" where
  "insert_output k ks =
     (if k_base k < 0 \<or> (case k_gap_to k of None \<Rightarrow> False | Some g \<Rightarrow> g < k_base k)
      then Inl (ErrBadRequest ''core_terminal_output_check'')
      else if list_ex (\<lambda>q. k_session_id q = k_session_id k \<and> k_base q = k_base k \<and> k_kind q = k_kind k) ks then Inr ks
      else Inr (ks @ [k]))"

text \<open>
  The loop over the drained chunks: the sequence counter, the high-water mark and the table. A slice
  from a negative index panics, which the wrapped difference reaches for a base far below zero.
\<close>

fun append_chunks :: "timestamp \<Rightarrow> string \<Rightarrow> drained list \<Rightarrow> nat \<Rightarrow> int \<Rightarrow> output_row list \<Rightarrow> err + (int \<times> output_row list)" where
  "append_chunks now x [] sq high ks = Inr (high, ks)"
| "append_chunks now x (c # cs) sq high ks =
     (if dc_kind c = ''gap'' then
        (let to = (case dc_gap_to c of None \<Rightarrow> dc_base c | Some g \<Rightarrow> g) in
         rbind (insert_output (new_output now x (Suc sq) OutGap (dc_base c) (Some to) []) ks) (\<lambda>ks1.
           append_chunks now x cs (Suc sq) (if high < to then to else high) ks1))
      else
        (let skip = i64 (high - dc_base c);
             overlap = (dc_base c < high);
             data = (if overlap then drop (nat skip) (dc_data c) else dc_data c);
             base = (if overlap then high else dc_base c);
             stop = i64 (base + int (length data)) in
         if overlap \<and> int (length (dc_data c)) \<le> skip then append_chunks now x cs (Suc sq) high ks
         else if overlap \<and> skip < 0 then Inl (ErrPanic ''slice bounds out of range'')
         else if data = [] then append_chunks now x cs (Suc sq) high ks
         else rbind (insert_output (new_output now x (Suc sq) OutData base None data) ks) (\<lambda>ks1.
           append_chunks now x cs (Suc sq) (if high < stop then stop else high) ks1)))"

definition data_of :: "string \<Rightarrow> output_row list \<Rightarrow> output_row list" where
  "data_of x ks = filter (\<lambda>k. chunk_of x k \<and> k_kind k = OutData) ks"

definition retained :: "string \<Rightarrow> output_row list \<Rightarrow> int" where
  "retained x ks = sum_list (map (\<lambda>k. int (length (k_data k))) (data_of x ks))"

definition nth_chunk :: "string \<Rightarrow> nat \<Rightarrow> output_row \<Rightarrow> bool" where
  "nth_chunk x sq k \<longleftrightarrow> chunk_of x k \<and> k_seq k = sq"

definition trimmed :: "int \<Rightarrow> output_row \<Rightarrow> output_row" where
  "trimmed n k = k\<lparr>k_base := k_base k + n, k_data := drop (nat n) (k_data k)\<rparr>"

text \<open>
  The pruning loop over the data chunks in the order of their offsets: what is removed so far, the new
  floor, the table. The update of a straddling chunk overflows or meets another row's key only where
  stored offsets do.
\<close>

fun prune_chunks :: "string \<Rightarrow> int \<Rightarrow> output_row list \<Rightarrow> int \<Rightarrow> int \<Rightarrow> output_row list \<Rightarrow> err + (int \<times> output_row list)" where
  "prune_chunks x target [] removed nb ks = Inr (nb, ks)"
| "prune_chunks x target (c # cs) removed nb ks =
     (let size = int (length (k_data c)); trim = target - removed in
      if target \<le> removed then Inr (nb, ks)
      else if removed + size \<le> target then
        prune_chunks x target cs (removed + size) (i64 (k_base c + size)) (filter (\<lambda>k. \<not> nth_chunk x (k_seq c) k) ks)
      else if MaxInt64 < k_base c + trim then Inl (ErrBadRequest ''bigint out of range'')
      else if list_ex (\<lambda>k. chunk_of x k \<and> k_kind k = OutData \<and> k_base k = k_base c + trim) ks
      then Inl (ErrStorage ''core_terminal_output_session_id_base_kind_key'')
      else prune_chunks x target cs (removed + trim) (i64 (k_base c + trim)) (upd (nth_chunk x (k_seq c)) (trimmed trim) ks))"

definition pruneTerminalOutputTx :: "session_row \<Rightarrow> 'd db \<Rightarrow> err + 'd db" where
  "pruneTerminalOutputTx t db =
     (let x = tm_session_id t; ks = toutput (terminals db) in
      if retained x ks \<le> terminalScrollbackCap then Inr db
      else rbind (prune_chunks x (retained x ks - terminalScrollbackKeep) (sort_key k_base (data_of x ks)) 0 (tm_output_base t) ks)
        (\<lambda>(nb, ks1). Inr (set_sessions (is_session (tm_persona_id t) x)
           (\<lambda>r. r\<lparr>tm_output_base := max (tm_output_base r) nb\<rparr>) (set_toutput ks1 db))))"

definition AppendTerminalOutput ::
  "timestamp \<Rightarrow> timestamp \<Rightarrow> string \<Rightarrow> string \<Rightarrow> string \<Rightarrow> int \<Rightarrow> drained list \<Rightarrow> 'd db \<Rightarrow> err + ('d db \<times> unit \<times> session_row)" where
  "AppendTerminalOutput now wall p x runner epoch cs db =
     terminalClaimTx wall p x runner epoch (\<lambda>t db.
       let ks = toutput (terminals db) in
       rbind (append_chunks now x cs (maxl (map k_seq (filter (chunk_of x) ks))) (tm_output_bytes t) ks) (\<lambda>(high, ks1).
       rbind (pruneTerminalOutputTx t (set_sessions (is_session p x)
           (\<lambda>r. r\<lparr>tm_output_bytes := max (tm_output_bytes r) high, tm_updated_at := now\<rparr>) (set_toutput ks1 db))) (\<lambda>db1.
         Inr (db1, ())))) db"

section \<open>What the tools report\<close>

text \<open>A field with \<^verbatim>\<open>omitempty\<close>.\<close>

definition filled :: "string \<Rightarrow> string \<Rightarrow> jobj" where
  "filled k s = (if s = [] then [] else [(k, JStr s)])"

definition filled_time :: "(timestamp \<Rightarrow> string) \<Rightarrow> string \<Rightarrow> timestamp option \<Rightarrow> jobj" where
  "filled_time ft k v = (case v of None \<Rightarrow> [] | Some u \<Rightarrow> [(k, JStr (ft u))])"

definition session_json :: "(timestamp \<Rightarrow> string) \<Rightarrow> session_row \<Rightarrow> jobj" where
  "session_json ft t =
     [(''session_id'', JStr (tm_session_id t)), (''persona_id'', JStr (tm_persona_id t)), (''name'', JStr (tm_name t)),
      (''mode'', JStr (tm_mode t)), (''backend'', JStr (tm_backend t))]
     @ filled ''operation_id'' (text_of (tm_operation_id t))
     @ [(''status'', JStr (term_status_name (tm_status t))), (''epoch'', jint (tm_epoch t))]
     @ filled ''claimed_by'' (text_of (tm_claimed_by t)) @ filled_time ft ''claim_expires_at'' (tm_claim_expires_at t)
     @ filled ''control_holder'' (text_of (tm_control_holder t)) @ filled_time ft ''control_until'' (tm_control_until t)
     @ [(''requested_by'', JStr (tm_requested_by t)), (''created_by'', JStr (tm_created_by t))]
     @ (case tm_exit_code t of None \<Rightarrow> [] | Some c \<Rightarrow> [(''exit_code'', jint c)])
     @ filled ''exit_signal'' (text_of (tm_exit_signal t)) @ filled ''end_reason'' (text_of (tm_end_reason t))
     @ [(''output_bytes'', jint (tm_output_bytes t)), (''output_base'', jint (tm_output_base t)),
        (''created_at'', JStr (ft (tm_created_at t))), (''updated_at'', JStr (ft (tm_updated_at t)))]
     @ filled_time ft ''ended_at'' (tm_ended_at t)"

definition tinput_json :: "(timestamp \<Rightarrow> string) \<Rightarrow> tinput_row \<Rightarrow> jobj" where
  "tinput_json ft n =
     [(''input_id'', JStr (n_input_id n)), (''session_id'', JStr (n_session_id n)), (''session_epoch'', jint (n_session_epoch n)),
      (''seq'', jnat (n_seq n)), (''kind'', JStr (n_kind n)), (''payload'', JObj (n_payload n)), (''source'', JStr (n_source n)),
      (''status'', JStr (tin_status_name (n_status n)))]
     @ (case n_detail n of None \<Rightarrow> [] | Some m \<Rightarrow> if m = [] then [] else [(''detail'', JObj m)])
     @ [(''created_at'', JStr (ft (n_created_at n))), (''updated_at'', JStr (ft (n_updated_at n)))]"

text \<open>A slice that was never appended to is nil and marshals to null.\<close>

definition json_list :: "json list \<Rightarrow> json" where
  "json_list vs = (if vs = [] then JNull else JArr vs)"

text \<open>\<^verbatim>\<open>int64(f)\<close> of a \<^verbatim>\<open>float64\<close>, which truncates and, out of range, gives the least value.\<close>

definition go_int64 :: "rat \<Rightarrow> int" where
  "go_int64 r = (let n = (if 0 \<le> r then \<lfloor>r\<rfloor> else \<lceil>r\<rceil>) in if in_i64 n then n else - (2 ^ 63))"

definition int_field :: "jobj \<Rightarrow> string \<Rightarrow> int \<Rightarrow> int" where
  "int_field m k d = (case num_field m k of None \<Rightarrow> d | Some r \<Rightarrow> go_int64 r)"

definition newline :: string where "newline = [CHR 0x0A]"

definition en_dash :: string where "en_dash = map char_of [0xE2, 0x80, 0x93 :: nat]"

definition chunk_text :: "output_row \<Rightarrow> string" where
  "chunk_text k = (if k_kind k = OutGap then
     (if chunk_stop k = k_base k
      then newline @ ''[output may be missing at byte '' @ itoa (nat (k_base k)) @ em_dash @ ''journal loss boundary]'' @ newline
      else newline @ ''[output lost: bytes '' @ itoa (nat (k_base k)) @ en_dash @ itoa (nat (chunk_stop k))
             @ '' were compacted away]'' @ newline)
     else k_data k)"

text \<open>\<^verbatim>\<open>json.Marshal\<close> of a string: a byte that is no part of a rune becomes U+FFFD.\<close>

definition json_text :: "string \<Rightarrow> string" where
  "json_text s = concat (map (\<lambda>r. case r of [c] \<Rightarrow> if 128 \<le> (of_char c :: nat) then map char_of [0xEF, 0xBF, 0xBD :: nat] else r
     | _ \<Rightarrow> r) (runes s))"

text \<open>\<^verbatim>\<open>base64.StdEncoding\<close>.\<close>

definition b64_alphabet :: string where
  "b64_alphabet = ''ABCDEFGHIJKLMNOPQRSTUVWXYZabcdefghijklmnopqrstuvwxyz0123456789+/''"

definition b64_digit :: "nat \<Rightarrow> char" where
  "b64_digit n = b64_alphabet ! (n mod 64)"

fun base64 :: "string \<Rightarrow> string" where
  "base64 [] = []"
| "base64 [a] = (let x = of_char a * 2 ^ 16 in [b64_digit (x div 2 ^ 18), b64_digit (x div 2 ^ 12), CHR ''='', CHR ''=''])"
| "base64 [a, b] = (let x = of_char a * 2 ^ 16 + of_char b * 2 ^ 8 in
     [b64_digit (x div 2 ^ 18), b64_digit (x div 2 ^ 12), b64_digit (x div 2 ^ 6), CHR ''=''])"
| "base64 (a # b # c # s) = (let x = of_char a * 2 ^ 16 + of_char b * 2 ^ 8 + of_char c in
     [b64_digit (x div 2 ^ 18), b64_digit (x div 2 ^ 12), b64_digit (x div 2 ^ 6), b64_digit x] @ base64 s)"

text \<open>The cursor a tool read starts from: its own, or the base, or near the end for a tail.\<close>

definition tool_cursor :: "jobj \<Rightarrow> session_row \<Rightarrow> int" where
  "tool_cursor req t = (let c = int_field req ''cursor'' 0; near = tm_output_bytes t - 64 * 1024 in
     if c \<noteq> 0 then c
     else if bool_field req ''tail'' \<and> tm_output_base t < near then near else tm_output_base t)"

definition read_response :: "(timestamp \<Rightarrow> string) \<Rightarrow> session_row \<Rightarrow> int \<Rightarrow> int \<Rightarrow> output_row list \<Rightarrow> jobj" where
  "read_response ft t cursor evc ks =
     (let text = concat (map chunk_text ks); next = next_cursor cursor ks in
      [(''session'', JObj (session_json ft t)), (''base'', jint (tm_output_base t)), (''cursor'', jint cursor),
       (''next_cursor'', jint next), (''event_cursor'', jint (next_event evc ks)),
       (''gap'', JBool (cursor < tm_output_base t)), (''eof'', JBool (output_eof t next)),
       (''content'', JStr (json_text text)), (''content_b64'', JStr (base64 text))])"

text \<open>The input a write tool submits.\<close>

definition tool_input :: "string \<Rightarrow> jobj \<Rightarrow> string \<times> jobj" where
  "tool_input tool req =
     (if tool = ''terminal.write'' then
        (if bool_field req ''eof'' then (''eof'', []) else (''stdin'', [(''data'', JStr (str_field req ''data''))]))
      else if tool = ''terminal.resize'' then
        (''resize'', [(''cols'', case map_of req ''cols'' of None \<Rightarrow> JNull | Some v \<Rightarrow> v),
                     (''rows'', case map_of req ''rows'' of None \<Rightarrow> JNull | Some v \<Rightarrow> v)])
      else if tool = ''terminal.signal'' then (''signal'', [(''signal'', JStr (str_field req ''signal''))])
      else (''eof'', []))"

definition terminalToolErr :: "err \<Rightarrow> err" where
  "terminalToolErr e = (case e of
     ErrTerminalNotFound \<Rightarrow> ErrBadRequest (errorText e)
   | ErrTerminalEnded \<Rightarrow> ErrBadRequest (errorText e)
   | ErrTerminalNotLive \<Rightarrow> ErrBadRequest (errorText e)
   | ErrTerminalControl \<Rightarrow> ErrBadRequest (errorText e)
   | ErrTerminalCapacity \<Rightarrow> ErrBadRequest (errorText e)
   | ErrBadRequest _ \<Rightarrow> ErrBadRequest (errorText e)
   | _ \<Rightarrow> e)"

section \<open>Frames\<close>

text \<open>What terminal transactions touch: the terminals, the admission numbers, and end notices at the end of the inbox.\<close>

definition end_notice :: "input_row \<Rightarrow> bool" where
  "end_notice r \<longleftrightarrow> i_status r = IQueued \<and> (\<exists>x. i_input_id r = terminalInputPrefix @ x)"

definition term_frame :: "'d db \<Rightarrow> 'd db \<Rightarrow> bool" where
  "term_frame db db' \<longleftrightarrow> (\<exists>ts n news. db' = db\<lparr>terminals := ts, admission_next := n, inputs := inputs db @ news\<rparr>
     \<and> list_all end_notice news)"

lemma term_frame_terminals [intro]: "term_frame db (db\<lparr>terminals := ts\<rparr>)"
  unfolding term_frame_def by (intro exI [of _ ts] exI [of _ "admission_next db"] exI [of _ "[]"]) simp

lemma term_frame_refl [simp, intro]: "term_frame db db"
  using term_frame_terminals [of db "terminals db"] by simp

lemma term_frame_trans [trans]: "term_frame a b \<Longrightarrow> term_frame b c \<Longrightarrow> term_frame a c"
  unfolding term_frame_def by fastforce

lemma set_frame [simp, intro]:
  "term_frame db (set_sessions P f db)" "term_frame db (set_tinputs Q g db)" "term_frame db (set_toutput ks db)"
  by (simp_all add: set_sessions_def set_tinputs_def set_toutput_def term_frame_terminals)

lemma set_terminals [simp]:
  "sessions (terminals (set_sessions P f db)) = upd P f (sessions (terminals db))"
  "tinputs (terminals (set_sessions P f db)) = tinputs (terminals db)"
  "toutput (terminals (set_sessions P f db)) = toutput (terminals db)"
  "sessions (terminals (set_tinputs Q g db)) = sessions (terminals db)"
  "tinputs (terminals (set_tinputs Q g db)) = upd Q g (tinputs (terminals db))"
  "toutput (terminals (set_tinputs Q g db)) = toutput (terminals db)"
  "sessions (terminals (set_toutput ks db)) = sessions (terminals db)"
  "tinputs (terminals (set_toutput ks db)) = tinputs (terminals db)"
  "toutput (terminals (set_toutput ks db)) = ks"
  by (simp_all add: set_sessions_def set_tinputs_def set_toutput_def)

lemma set_inputs [simp]:
  "inputs (set_sessions P f db) = inputs db" "inputs (set_tinputs Q g db) = inputs db" "inputs (set_toutput ks db) = inputs db"
  "input_of (set_sessions P f db) = input_of db" "input_of (set_tinputs Q g db) = input_of db"
  "personas (set_sessions P f db) = personas db" "personas (set_tinputs Q g db) = personas db" "personas (set_toutput ks db) = personas db"
  by (simp_all add: set_sessions_def set_tinputs_def set_toutput_def input_of_def fun_eq_iff)

lemma lock_cases:
  assumes "lockTerminalSessionTx db p x = Inr t"
  shows "session_of db p x = Some t" "t \<in> set (sessions (terminals db))" "is_session p x t"
    "tm_persona_id t = p" "tm_session_id t = x" "uuidv7_match p" "uuidv7_match x"
  using assms by (auto simp: lockTerminalSessionTx_def session_of_def is_session_def rbind_eq_Inr res_simps dest!: find_SomeD)

lemma createTerminalSessionTx_cases:
  assumes "createTerminalSessionTx th now x p name rb cb db = Inr (db', t)"
  shows "t = new_session now x p name (terminalBackendDefault th) rb cb"
    "db' = db\<lparr>terminals := (terminals db)\<lparr>sessions := sessions (terminals db) @ [t]\<rparr>\<rparr>"
    "x \<notin> tm_session_id ` set (sessions (terminals db))" "length (live_sessions db p) < terminalMaxSessions"
    "is_active db p" "uuidv7_match x"
  using assms
  by (auto simp: createTerminalSessionTx_def insert_session_def Let_def rbind_eq_Inr res_simps list_ex_iff new_session_def
      is_active_def split: option.splits if_splits)

lemma submitTerminalInputTx_cases:
  assumes "submitTerminalInputTx now wall nid p x source kind m db = Inr (db', n)"
  obtains t where "lockTerminalSessionTx db p x = Inr t" "admits_input wall source t = Inr ()" "validateTerminalInput kind m = Inr ()"
    "n = new_tinput now nid t source kind m (tinputs (terminals db))" "nid \<notin> n_input_id ` set (tinputs (terminals db))"
    "db' = db\<lparr>terminals := (terminals db)\<lparr>tinputs := tinputs (terminals db) @ [n]\<rparr>\<rparr>"
  using assms
  by (auto simp: submitTerminalInputTx_def insert_tinput_def rbind_eq_Inr res_simps list_ex_iff new_tinput_def split: if_splits)

lemma notifyTerminalEndedTx_eq:
  assumes "notifyTerminalEndedTx th now t db = Inr db'"
  shows "terminals db' = terminals db" "term_frame db db'"
    "input_of db' (tm_persona_id t) (terminalInputPrefix @ tm_session_id t) \<noteq> None"
    "\<exists>sq. inputs db' = inputs db @ (if input_of db (tm_persona_id t) (terminalInputPrefix @ tm_session_id t) = None
        then [terminal_input now sq (tm_persona_id t) (tm_session_id t) (terminal_payload th t)] else [])"
proof -
  let ?p = "tm_persona_id t" and ?x = "tm_session_id t"
  let ?new = "terminal_input now (admission_next db) ?p ?x (terminal_payload th t)"
  let ?news = "if input_of db ?p (terminalInputPrefix @ ?x) = None then [?new] else []"
  have d: "db' = db\<lparr>admission_next := Suc (admission_next db), inputs := inputs db @ ?news\<rparr>"
    using assms by (auto simp: notifyTerminalEndedTx_def Let_def rbind_eq_Inr)
  have n: "list_all end_notice ?news" by (simp add: end_notice_def terminal_input_def)
  show "terminals db' = terminals db" by (simp add: d)
  show "term_frame db db'" unfolding term_frame_def
    by (rule exI [of _ "terminals db"], rule exI [of _ "Suc (admission_next db)"], rule exI [of _ ?news]) (simp add: d n)
  show "input_of db' ?p (terminalInputPrefix @ ?x) \<noteq> None"
    by (auto simp: d input_of_def find_append is_input_def terminal_input_def split: option.splits)
  show "\<exists>sq. inputs db' = inputs db @ (if input_of db ?p (terminalInputPrefix @ ?x) = None
      then [terminal_input now sq ?p ?x (terminal_payload th t)] else [])"
    by (intro exI [of _ "admission_next db"]) (simp add: d)
qed

lemma endTerminalSessionTx_eq:
  assumes "endTerminalSessionTx th now wall t s reason code signal db = Inr (db', t')"
  shows "terminals db' = \<lparr>sessions = upd (is_session (tm_persona_id t) (tm_session_id t))
        (\<lambda>r. (ended_session wall s reason code signal r)\<lparr>tm_updated_at := wall\<rparr>) (sessions (terminals db)),
      tinputs = upd (\<lambda>n. of_session (tm_session_id t) n \<and> n_status n = NDequeued) (\<lambda>n. n\<lparr>n_status := NUnknown, n_updated_at := now\<rparr>)
        (upd (\<lambda>n. of_session (tm_session_id t) n \<and> n_status n = NIntended) (\<lambda>n. n\<lparr>n_status := NExpired, n_updated_at := now\<rparr>)
          (tinputs (terminals db))),
      toutput = toutput (terminals db)\<rparr>"
    "term_frame db db'" "t' = ended_session wall s reason code signal t"
    "input_of db' (tm_persona_id t) (terminalInputPrefix @ tm_session_id t) \<noteq> None"
    "\<exists>sq. inputs db' = inputs db @ (if input_of db (tm_persona_id t) (terminalInputPrefix @ tm_session_id t) = None
        then [terminal_input now sq (tm_persona_id t) (tm_session_id t) (terminal_payload th (ended_session wall s reason code signal t))] else [])"
proof -
  let ?f = "ended_session wall s reason code signal" and ?x = "tm_session_id t"
  let ?d = "set_tinputs (\<lambda>n. of_session ?x n \<and> n_status n = NDequeued) (\<lambda>n. n\<lparr>n_status := NUnknown, n_updated_at := now\<rparr>)
      (set_tinputs (\<lambda>n. of_session ?x n \<and> n_status n = NIntended) (\<lambda>n. n\<lparr>n_status := NExpired, n_updated_at := now\<rparr>)
        (set_sessions (is_session (tm_persona_id t) ?x) (\<lambda>r. (?f r)\<lparr>tm_updated_at := wall\<rparr>) db))"
  from assms have n: "notifyTerminalEndedTx th now (?f t) ?d = Inr db'" and t: "t' = ?f t"
    by (auto simp: endTerminalSessionTx_def Let_def rbind_eq_Inr)
  note e = notifyTerminalEndedTx_eq [OF n]
  show "t' = ?f t" by (rule t)
  have "term_frame db ?d" by (meson set_frame term_frame_trans)
  then show "term_frame db db'" using e(2) by (rule term_frame_trans)
  show "input_of db' (tm_persona_id t) (terminalInputPrefix @ tm_session_id t) \<noteq> None"
    using e(3) by (simp add: ended_session_def)
  have same: "tm_persona_id (?f t) = tm_persona_id t" "tm_session_id (?f t) = ?x" "inputs ?d = inputs db" "input_of ?d = input_of db"
    by (simp_all add: ended_session_def)
  show "\<exists>sq. inputs db' = inputs db @ (if input_of db (tm_persona_id t) (terminalInputPrefix @ ?x) = None
      then [terminal_input now sq (tm_persona_id t) ?x (terminal_payload th (?f t))] else [])" by (rule e(4) [unfolded same])
  show "terminals db' = \<lparr>sessions = upd (is_session (tm_persona_id t) (tm_session_id t))
        (\<lambda>r. (?f r)\<lparr>tm_updated_at := wall\<rparr>) (sessions (terminals db)),
      tinputs = upd (\<lambda>n. of_session (tm_session_id t) n \<and> n_status n = NDequeued) (\<lambda>n. n\<lparr>n_status := NUnknown, n_updated_at := now\<rparr>)
        (upd (\<lambda>n. of_session (tm_session_id t) n \<and> n_status n = NIntended) (\<lambda>n. n\<lparr>n_status := NExpired, n_updated_at := now\<rparr>)
          (tinputs (terminals db))),
      toutput = toutput (terminals db)\<rparr>"
    using e(1) by (simp add: set_sessions_def set_tinputs_def)
qed

lemma CloseTerminalSession_cases:
  assumes "CloseTerminalSession th now wall p x reason db = Inr (db', t')"
  obtains (over) "db' = db" "lockTerminalSessionTx db p x = Inr t'" "terminalOver (tm_status t')"
    | (asked) t where "lockTerminalSessionTx db p x = Inr t" "terminalClaimed (tm_status t)" "unexpired wall (tm_claim_expires_at t)"
      "db' = set_sessions (is_session p x) (\<lambda>r. r\<lparr>tm_status := TmEnding, tm_updated_at := now\<rparr>) db"
    | (ended) t r where "lockTerminalSessionTx db p x = Inr t" "tm_status t = TmRequested"
      "endTerminalSessionTx th now wall t TmEnded r None [] db = Inr (db', t')"
    | (freed) t where "lockTerminalSessionTx db p x = Inr t" "\<not> terminalOver (tm_status t)" "tm_status t \<noteq> TmRequested"
      "db' = set_sessions (is_session p x)
         (\<lambda>r. r\<lparr>tm_status := TmEnding, tm_claimed_by := None, tm_claim_expires_at := None, tm_updated_at := now\<rparr>) db"
proof -
  from assms obtain t where l: "lockTerminalSessionTx db p x = Inr t" by (auto simp: CloseTerminalSession_def rbind_eq_Inr)
  note d = assms [unfolded CloseTerminalSession_def l Let_def rbind_Inr]
  consider "terminalOver (tm_status t)" | "\<not> terminalOver (tm_status t)" "terminalClaimed (tm_status t)" "unexpired wall (tm_claim_expires_at t)"
    | "\<not> terminalOver (tm_status t)" "\<not> (terminalClaimed (tm_status t) \<and> unexpired wall (tm_claim_expires_at t))" "tm_status t = TmRequested"
    | "\<not> terminalOver (tm_status t)" "\<not> (terminalClaimed (tm_status t) \<and> unexpired wall (tm_claim_expires_at t))" "tm_status t \<noteq> TmRequested"
    by blast
  then show thesis
  proof cases
    case 1
    with d have "db' = db" "t' = t" by simp_all
    with 1 l show thesis by (intro over) simp_all
  next
    case 2
    with d show thesis by (intro asked [OF l]) simp_all
  next
    case 3
    from d 3(3) have "endTerminalSessionTx th now wall t TmEnded (if reason = [] then ''closed'' else reason) None [] db = Inr (db', t')"
      by (simp add: terminalOver_def terminalClaimed_def)
    then show thesis by (rule ended [OF l 3(3)])
  next
    case 4
    with d show thesis by (intro freed [OF l]) simp_all
  qed
qed

lemma terminal_tool_frames:
  "createTerminalSessionTx th now x p name rb cb db = Inr (db1, t) \<Longrightarrow> term_frame db db1"
  "submitTerminalInputTx now wall nid p x source kind m db = Inr (db1, n) \<Longrightarrow> term_frame db db1"
  "CloseTerminalSession th now wall p x reason db = Inr (db1, t) \<Longrightarrow> term_frame db db1"
proof -
  show "createTerminalSessionTx th now x p name rb cb db = Inr (db1, t) \<Longrightarrow> term_frame db db1"
    by (drule createTerminalSessionTx_cases(2)) (simp add: term_frame_terminals)
  show "submitTerminalInputTx now wall nid p x source kind m db = Inr (db1, n) \<Longrightarrow> term_frame db db1"
    by (erule submitTerminalInputTx_cases) (simp add: term_frame_terminals)
  show "CloseTerminalSession th now wall p x reason db = Inr (db1, t) \<Longrightarrow> term_frame db db1"
    by (erule CloseTerminalSession_cases) (auto dest: endTerminalSessionTx_eq(2))
qed

end
