(* ===== verification/Core_Memory.thy ===== *)
theory Core_Memory
  imports Core_Approvals
begin

text \<open>
  The memory layer (\<^verbatim>\<open>memory.go\<close>): sealing of journal ranges at safe boundaries, application of
  prepared replacements while the live estimate is over its limit, upper-layer targets over applied
  fragments, and the context a turn is rendered from. The host supplies \<^verbatim>\<open>json.Marshal\<close>,
  \<^verbatim>\<open>fmt.Sprint\<close>, SHA-256, PostgreSQL's text of a jsonb value, and the JSON form of a time in
  nanoseconds with its inverse. Event rows keep no creation time here, so a block carries no times.
\<close>

record mem_host =
  mh_marshal :: "json \<Rightarrow> string"
  mh_sprint :: "json \<Rightarrow> string"
  mh_sha :: "string \<Rightarrow> string"
  mh_pg_text :: "json \<Rightarrow> string"
  mh_parse_time :: "string \<Rightarrow> int option"
  mh_fmt_time :: "int \<Rightarrow> string"

definition L0ChunkMinTokens :: int where "L0ChunkMinTokens = 10000"
definition L0ForcedSealLimitTokens :: int where "L0ForcedSealLimitTokens = L0ChunkMinTokens * 2"
definition L0LiveLimitTokens :: int where "L0LiveLimitTokens = 40000"
definition L1LimitTokens :: int where "L1LimitTokens = 15000"
definition L1DropToTokens :: int where "L1DropToTokens = 11000"
definition L2LimitTokens :: int where "L2LimitTokens = 10000"

definition estPayloadTokens :: "mem_host \<Rightarrow> string \<Rightarrow> jobj \<Rightarrow> int" where
  "estPayloadTokens mh kind m = (int (length kind) + 16 + int (length (mh_marshal mh (JObj m))) + 3) div 4"

definition estTextTokens :: "nat \<Rightarrow> int" where
  "estTextTokens bytes = (int bytes + 3) div 4"

section \<open>Rows\<close>

definition is_chunk :: "string \<Rightarrow> int \<Rightarrow> chunk_row \<Rightarrow> bool" where
  "is_chunk p s c \<longleftrightarrow> mc_persona_id c = p \<and> int (mc_chunk_seq c) = s"

definition chunk_at :: "'d db \<Rightarrow> string \<Rightarrow> int \<Rightarrow> chunk_row option" where
  "chunk_at db p s = find (is_chunk p s) (chunks db)"

definition chunks_of :: "'d db \<Rightarrow> string \<Rightarrow> chunk_row list" where
  "chunks_of db p = filter (\<lambda>c. mc_persona_id c = p) (chunks db)"

definition events_of :: "'d db \<Rightarrow> string \<Rightarrow> event_row list" where
  "events_of db p = filter (\<lambda>e. e_persona_id e = p) (events db)"

text \<open>A new row, the unnamed columns at their defaults.\<close>

definition new_chunk :: "timestamp \<Rightarrow> string \<Rightarrow> nat \<Rightarrow> nat \<Rightarrow> nat list option \<Rightarrow> nat \<Rightarrow> nat \<Rightarrow> int \<Rightarrow> chunk_row" where
  "new_chunk now p s layer srcs fst' lst est =
     \<lparr>mc_persona_id = p, mc_chunk_seq = s, mc_layer = layer, mc_sources = srcs, mc_first_seq = fst', mc_last_seq = lst,
      mc_est_tokens = est, mc_status = CSealed, mc_replacement = None, mc_replacement_est_tokens = None, mc_attempts = 0,
      mc_interruptions = 0, mc_last_error = None, mc_claimed_generation = None, mc_claimed_at = None, mc_not_before = None,
      mc_created_at = now, mc_prepared_at = None, mc_applied_at = None\<rparr>"

definition coveredSeq :: "'d db \<Rightarrow> string \<Rightarrow> nat" where
  "coveredSeq db p = maxl (map mc_last_seq (chunks_of db p))"

definition lastChunkSeq :: "'d db \<Rightarrow> string \<Rightarrow> nat" where
  "lastChunkSeq db p = maxl (map mc_chunk_seq (chunks_of db p))"

text \<open>\<^verbatim>\<open>SELECT .. WHERE seq > covered ORDER BY seq\<close>.\<close>

definition unsealedTail :: "'d db \<Rightarrow> string \<Rightarrow> nat \<Rightarrow> event_row list" where
  "unsealedTail db p covered = sort_key e_seq (filter (\<lambda>e. covered < e_seq e) (events_of db p))"

section \<open>The seal walk\<close>

definition roundKey :: "mem_host \<Rightarrow> event_row \<Rightarrow> string" where
  "roundKey mh e = (case map_of (e_payload e) ''round'' of
     None \<Rightarrow> []
   | Some r \<Rightarrow> if e_kind e \<notin> set [''assistant_message'', ''tool_call'', ''tool_result''] then []
       else e_turn_id e @ '':'' @ mh_sprint mh r)"

definition roundEnds :: "mem_host \<Rightarrow> event_row list \<Rightarrow> string \<Rightarrow> nat option" where
  "roundEnds mh tail = foldl (\<lambda>m e. if roundKey mh e = [] then m else m(roundKey mh e \<mapsto> e_seq e)) Map.empty tail"

text \<open>The walk's variables; \<open>wk_sealed\<close> are the ranges sealed so far, with their estimates.\<close>

record seal_state =
  wk_window :: "event_row list"
  wk_start :: int
  wk_est :: int
  wk_pending :: "string list"
  wk_round_end :: int
  wk_prev :: string
  wk_sealed :: "(nat \<times> nat \<times> int) list"

definition walk0 :: seal_state where
  "walk0 = \<lparr>wk_window = [], wk_start = -1, wk_est = 0, wk_pending = [], wk_round_end = -1, wk_prev = [], wk_sealed = []\<rparr>"

text \<open>The boundary before an event, tested before the event joins the window.\<close>

definition cuts :: "event_row \<Rightarrow> seal_state \<Rightarrow> bool" where
  "cuts e w \<longleftrightarrow> 0 \<le> wk_start w \<and> wk_pending w = [] \<and> wk_round_end w < int (e_seq e)
     \<and> (if e_kind e = ''input_received'' then L0ChunkMinTokens \<le> wk_est w
        else if e_kind e = ''assistant_message'' then L0ForcedSealLimitTokens < wk_est w \<and> wk_prev w \<noteq> ''tool_result''
        else False)"

definition seal_window :: "seal_state \<Rightarrow> seal_state" where
  "seal_window w = w\<lparr>wk_sealed := wk_sealed w @ [(nat (wk_start w), e_seq (last (wk_window w)), wk_est w)],
     wk_window := [], wk_est := 0, wk_start := -1\<rparr>"

definition track_call :: "event_row \<Rightarrow> string list \<Rightarrow> string list" where
  "track_call e pend =
     (if e_kind e = ''tool_call'' then
        (case map_of (e_payload e) ''call_id'' of
           Some (JStr x) \<Rightarrow> if x = [] \<or> x \<in> set pend then pend else pend @ [x]
         | _ \<Rightarrow> pend)
      else if e_kind e = ''tool_result'' then
        (case map_of (e_payload e) ''call_id'' of Some (JStr x) \<Rightarrow> filter (\<lambda>y. y \<noteq> x) pend | _ \<Rightarrow> pend)
      else pend)"

definition walk_step :: "mem_host \<Rightarrow> (string \<Rightarrow> nat option) \<Rightarrow> event_row \<Rightarrow> seal_state \<Rightarrow> seal_state" where
  "walk_step mh ends e w =
     (let w1 = (if cuts e w then seal_window w else w);
          k = roundKey mh e;
          r = (case ends k of None \<Rightarrow> 0 | Some s \<Rightarrow> int s) in
      w1\<lparr>wk_start := (if wk_start w1 < 0 then int (e_seq e) else wk_start w1),
         wk_window := wk_window w1 @ [e],
         wk_est := wk_est w1 + estPayloadTokens mh (e_kind e) (e_payload e),
         wk_pending := track_call e (wk_pending w1),
         wk_round_end := (if k \<noteq> [] \<and> wk_round_end w1 < r then r else wk_round_end w1),
         wk_prev := e_kind e\<rparr>)"

definition seal_walk :: "mem_host \<Rightarrow> event_row list \<Rightarrow> seal_state" where
  "seal_walk mh tail = foldl (\<lambda>w e. walk_step mh (roundEnds mh tail) e w) walk0 tail"

fun number_sealed :: "timestamp \<Rightarrow> string \<Rightarrow> nat \<Rightarrow> (nat \<times> nat \<times> int) list \<Rightarrow> chunk_row list" where
  "number_sealed now p s [] = []"
| "number_sealed now p s ((a, z, est) # rs) = new_chunk now p (Suc s) 1 None a z est # number_sealed now p (Suc s) rs"

section \<open>Application\<close>

definition chunk_live :: "chunk_row \<Rightarrow> bool" where
  "chunk_live c \<longleftrightarrow> mc_layer c = 1 \<and> mc_status c \<notin> {CApplied, CSuperseded}"

definition liveChunkTokens :: "'d db \<Rightarrow> string \<Rightarrow> int" where
  "liveChunkTokens db p = sum_list (map mc_est_tokens (filter chunk_live (chunks_of db p)))"

definition prepared_in :: "string \<Rightarrow> nat \<Rightarrow> chunk_row \<Rightarrow> bool" where
  "prepared_in p s c \<longleftrightarrow> mc_persona_id c = p \<and> mc_chunk_seq c = s \<and> mc_status c = CPrepared"

definition apply_chunk :: "timestamp \<Rightarrow> string \<Rightarrow> nat \<Rightarrow> 'd db \<Rightarrow> 'd db" where
  "apply_chunk now p s db = db\<lparr>chunks := upd (prepared_in p s)
     (\<lambda>c. c\<lparr>mc_status := CApplied, mc_applied_at := Some now\<rparr>) (chunks db)\<rparr>"

fun apply_prepared :: "timestamp \<Rightarrow> string \<Rightarrow> chunk_row list \<Rightarrow> int \<Rightarrow> 'd db \<Rightarrow> 'd db" where
  "apply_prepared now p [] live db = db"
| "apply_prepared now p (c # cs) live db =
     (if live \<le> L0LiveLimitTokens then db
      else apply_prepared now p cs (live - mc_est_tokens c) (apply_chunk now p (mc_chunk_seq c) db))"

definition preparedChunks :: "'d db \<Rightarrow> string \<Rightarrow> (nat \<Rightarrow> bool) \<Rightarrow> chunk_row list" where
  "preparedChunks db p lay = sort_key mc_chunk_seq (filter (\<lambda>c. lay (mc_layer c) \<and> mc_status c = CPrepared) (chunks_of db p))"

definition appliedLayerTokens :: "'d db \<Rightarrow> string \<Rightarrow> nat \<Rightarrow> int" where
  "appliedLayerTokens db p layer = sum_list (map (\<lambda>c. case mc_replacement_est_tokens c of None \<Rightarrow> 0 | Some n \<Rightarrow> n)
     (filter (\<lambda>c. mc_layer c = layer \<and> mc_status c = CApplied) (chunks_of db p)))"

definition sources_of :: "chunk_row \<Rightarrow> nat list" where
  "sources_of c = (case mc_sources c of None \<Rightarrow> [] | Some ss \<Rightarrow> ss)"

text \<open>The scan of the selected sources: their common layer (0 before the first) and staleness.\<close>

fun scan_sources :: "chunk_row list \<Rightarrow> nat \<times> bool \<Rightarrow> nat \<times> bool" where
  "scan_sources [] (l, stale) = (l, stale)"
| "scan_sources (c # cs) (l, stale) =
     scan_sources cs (if l = 0 then mc_layer c else l, stale \<or> mc_status c \<noteq> CApplied \<or> (l \<noteq> 0 \<and> mc_layer c \<noteq> l))"

definition staleTargetError :: string where
  "staleTargetError = ''upper-layer target is stale: its selected sources are no longer applied''"

definition applyUpperTarget :: "timestamp \<Rightarrow> string \<Rightarrow> chunk_row \<Rightarrow> 'd db \<Rightarrow> err + 'd db" where
  "applyUpperTarget now p target db =
     (let ss = sources_of target;
          srcs = filter (\<lambda>c. mc_chunk_seq c \<in> set ss) (chunks_of db p);
          (l, stale) = scan_sources srcs (0, length srcs \<noteq> length ss);
          selected = (\<lambda>c. mc_persona_id c = p \<and> mc_chunk_seq c \<in> set ss \<and> mc_status c = CApplied) in
      if stale \<or> (l \<noteq> 1 \<and> l \<noteq> 2) then
        Inr (db\<lparr>chunks := upd (prepared_in p (mc_chunk_seq target))
          (\<lambda>c. c\<lparr>mc_status := CFailed, mc_last_error := Some staleTargetError\<rparr>) (chunks db)\<rparr>)
      else if appliedLayerTokens db p l \<le> (if l = 1 then L1LimitTokens else L2LimitTokens) then Inr db
      else if length (filter selected (chunks db)) \<noteq> length ss then Inl (ErrMemoryConflict ''upper target lost sources mid-apply'')
      else Inr (apply_chunk now p (mc_chunk_seq target)
             (db\<lparr>chunks := upd selected (\<lambda>c. c\<lparr>mc_status := CSuperseded\<rparr>) (chunks db)\<rparr>)))"

fun apply_upper :: "timestamp \<Rightarrow> string \<Rightarrow> chunk_row list \<Rightarrow> 'd db \<Rightarrow> err + 'd db" where
  "apply_upper now p [] db = Inr db"
| "apply_upper now p (c # cs) db = rbind (applyUpperTarget now p c db) (apply_upper now p cs)"

section \<open>Upper targets\<close>

definition rest_tokens :: "chunk_row \<Rightarrow> int" where
  "rest_tokens c = (case mc_replacement_est_tokens c of None \<Rightarrow> 0 | Some n \<Rightarrow> n)"

text \<open>The inner loop: the group grows by adjacent fragments while there is more to consume.\<close>

fun extend_group :: "bool \<Rightarrow> int \<Rightarrow> chunk_row list \<Rightarrow> int \<Rightarrow> chunk_row list \<Rightarrow> chunk_row list \<times> int \<times> chunk_row list" where
  "extend_group whole excess g consumed [] = (g, consumed, [])"
| "extend_group whole excess g consumed (f # fs) =
     (if mc_first_seq f = mc_last_seq (last g) + 1 \<and> (whole \<or> consumed < excess)
      then extend_group whole excess (g @ [f]) (consumed + rest_tokens f) fs
      else (g, consumed, f # fs))"

lemma extend_group_shrinks: "extend_group whole excess g consumed fs = (g', c', fs') \<Longrightarrow> length fs' \<le> length fs"
proof (induction fs arbitrary: g consumed)
  case (Cons f fs)
  show ?case
  proof (cases "mc_first_seq f = mc_last_seq (last g) + 1 \<and> (whole \<or> consumed < excess)")
    case True
    then have "length fs' \<le> length fs" using Cons.prems by (intro Cons.IH) simp
    then show ?thesis by simp
  next
    case False
    with Cons.prems show ?thesis by auto
  qed
qed simp

definition settled_target :: "'d db \<Rightarrow> string \<Rightarrow> nat list \<Rightarrow> bool" where
  "settled_target db p ss = list_ex (\<lambda>c. 2 \<le> mc_layer c \<and> mc_status c \<in> {CKept, CFailed} \<and> mc_sources c = Some ss) (chunks_of db p)"

text \<open>The outer loop: the first group whose exact source tuple no settled target has judged.\<close>

function pick_group :: "(nat list \<Rightarrow> bool) \<Rightarrow> bool \<Rightarrow> int \<Rightarrow> chunk_row list \<Rightarrow> (chunk_row list \<times> int) option" where
  "pick_group judged whole excess [] = None"
| "pick_group judged whole excess (f # fs) =
     (case extend_group whole excess [f] (rest_tokens f) fs of (g, consumed, rest) \<Rightarrow>
        if judged (map mc_chunk_seq g) then pick_group judged whole excess rest else Some (g, consumed))"
  by pat_completeness auto
termination
  by (relation "measure (\<lambda>(judged, whole, excess, fs). length fs)") (auto dest!: extend_group_shrinks [OF sym])

definition target_of :: "timestamp \<Rightarrow> string \<Rightarrow> nat \<Rightarrow> chunk_row list \<Rightarrow> int \<Rightarrow> chunk_row" where
  "target_of now p s g consumed =
     new_chunk now p s 2 (Some (map mc_chunk_seq g)) (mc_first_seq (hd g)) (mc_last_seq (last g)) consumed"

definition upper_busy :: "'d db \<Rightarrow> string \<Rightarrow> bool" where
  "upper_busy db p = list_ex (\<lambda>c. 2 \<le> mc_layer c \<and> mc_status c \<in> {CSealed, CPreparing, CPrepared}) (chunks_of db p)"

definition appliedFragments :: "'d db \<Rightarrow> string \<Rightarrow> nat \<Rightarrow> chunk_row list" where
  "appliedFragments db p layer = sort_key mc_first_seq (filter (\<lambda>c. mc_layer c = layer \<and> mc_status c = CApplied) (chunks_of db p))"

text \<open>One row of the selection table: source layer, limit, drop-to, whole run. A NULL estimate fails the scan.\<close>

definition select_layer :: "timestamp \<Rightarrow> string \<Rightarrow> nat \<Rightarrow> nat \<Rightarrow> int \<Rightarrow> int \<Rightarrow> bool \<Rightarrow> 'd db \<Rightarrow> err + chunk_row option" where
  "select_layer now p s layer limit dropTo whole db =
     (let total = appliedLayerTokens db p layer; frags = appliedFragments db p layer in
      if total \<le> limit then Inr None
      else if list_ex (\<lambda>c. mc_replacement_est_tokens c = None) frags then Inl (ErrStorage ''cannot scan NULL into *int64'')
      else Inr (map_option (\<lambda>(g, consumed). target_of now p (Suc s) g consumed)
             (pick_group (settled_target db p) whole (total - dropTo) frags)))"

definition prepareUpperTarget :: "timestamp \<Rightarrow> string \<Rightarrow> nat \<Rightarrow> 'd db \<Rightarrow> err + 'd db" where
  "prepareUpperTarget now p s db =
     (if upper_busy db p then Inr db
      else rbind (select_layer now p s 1 L1LimitTokens L1DropToTokens False db) (\<lambda>t1.
        case t1 of Some t \<Rightarrow> Inr (db\<lparr>chunks := chunks db @ [t]\<rparr>)
        | None \<Rightarrow> rbind (select_layer now p s 2 L2LimitTokens L2LimitTokens True db) (\<lambda>t2.
            case t2 of Some t \<Rightarrow> Inr (db\<lparr>chunks := chunks db @ [t]\<rparr>) | None \<Rightarrow> Inr db)))"

section \<open>Maintenance\<close>

definition seal_tail :: "mem_host \<Rightarrow> timestamp \<Rightarrow> string \<Rightarrow> 'd db \<Rightarrow> 'd db \<times> int" where
  "seal_tail mh now p db =
     (let w = seal_walk mh (unsealedTail db p (coveredSeq db p)) in
      (db\<lparr>chunks := chunks db @ number_sealed now p (lastChunkSeq db p) (wk_sealed w)\<rparr>, wk_est w))"

definition apply_live :: "timestamp \<Rightarrow> string \<Rightarrow> int \<Rightarrow> 'd db \<Rightarrow> 'd db" where
  "apply_live now p tailEst db =
     (let live = liveChunkTokens db p + tailEst in
      if L0LiveLimitTokens < live then apply_prepared now p (preparedChunks db p (\<lambda>l. l = 1)) live db else db)"

definition maintainTx :: "mem_host \<Rightarrow> timestamp \<Rightarrow> string \<Rightarrow> int \<Rightarrow> 'd db \<Rightarrow> err + ('d db \<times> unit)" where
  "maintainTx mh now p gen db =
     rbind (requireGeneration db p gen) (\<lambda>_.
       let (db1, tailEst) = seal_tail mh now p db;
           db2 = apply_live now p tailEst db1 in
       rbind (apply_upper now p (preparedChunks db2 p (\<lambda>l. 2 \<le> l)) db2) (\<lambda>db3.
       rbind (prepareUpperTarget now p (lastChunkSeq db1 p) db3) (\<lambda>db4. Inr (db4, ()))))"

section \<open>The rendered context\<close>

record memory_block =
  mb_chunk_seq :: nat
  mb_layer :: nat
  mb_first_seq :: nat
  mb_last_seq :: nat
  mb_text :: string
  mb_est_tokens :: int

record rendered_context =
  rc_events :: "event_row list"
  rc_memory :: "memory_block list"

definition covers_seq :: "nat \<Rightarrow> chunk_row \<Rightarrow> bool" where
  "covers_seq s c \<longleftrightarrow> mc_first_seq c \<le> s \<and> s \<le> mc_last_seq c"

text \<open>The events no applied or superseded chunk covers, less those of the turns of the excluded input.\<close>

definition represented :: "'d db \<Rightarrow> string \<Rightarrow> nat \<Rightarrow> bool" where
  "represented db p s = list_ex (\<lambda>c. mc_status c \<in> {CApplied, CSuperseded} \<and> covers_seq s c) (chunks_of db p)"

definition of_input :: "'d db \<Rightarrow> string \<Rightarrow> string \<Rightarrow> event_row \<Rightarrow> bool" where
  "of_input db p i e = list_ex (\<lambda>t. is_turn p (e_turn_id e) t \<and> t_input_id t = i) (turns db)"

definition rawEvents :: "'d db \<Rightarrow> string \<Rightarrow> string \<Rightarrow> event_row list" where
  "rawEvents db p i = sort_key e_seq (filter (\<lambda>e. \<not> represented db p (e_seq e) \<and> \<not> of_input db p i e) (events_of db p))"

text \<open>The two joins pair a chunk with the events at its ends; a NULL text or estimate fails the scan.\<close>

definition block_of :: "chunk_row \<Rightarrow> err + memory_block" where
  "block_of c = (case (mc_replacement c, mc_replacement_est_tokens c) of
     (Some t, Some n) \<Rightarrow> Inr \<lparr>mb_chunk_seq = mc_chunk_seq c, mb_layer = mc_layer c, mb_first_seq = mc_first_seq c,
        mb_last_seq = mc_last_seq c, mb_text = t, mb_est_tokens = n\<rparr>
   | _ \<Rightarrow> Inl (ErrStorage ''cannot scan NULL into *string''))"

fun scan_blocks :: "chunk_row list \<Rightarrow> err + memory_block list" where
  "scan_blocks [] = Inr []"
| "scan_blocks (c # cs) = rbind (block_of c) (\<lambda>b. rbind (scan_blocks cs) (\<lambda>bs. Inr (b # bs)))"

definition appliedRows :: "'d db \<Rightarrow> string \<Rightarrow> chunk_row list" where
  "appliedRows db p = sort_key mc_first_seq (concat (map (\<lambda>c.
     concat (map (\<lambda>f. map (\<lambda>l. c) (filter (\<lambda>l. e_seq l = mc_last_seq c) (events_of db p)))
       (filter (\<lambda>f. e_seq f = mc_first_seq c) (events_of db p))))
     (filter (\<lambda>c. mc_status c = CApplied) (chunks_of db p))))"

definition appliedBlocks :: "'d db \<Rightarrow> string \<Rightarrow> err + memory_block list" where
  "appliedBlocks db p = scan_blocks (appliedRows db p)"

definition renderedContext :: "'d db \<Rightarrow> string \<Rightarrow> string \<Rightarrow> err + rendered_context" where
  "renderedContext db p i = rbind (appliedBlocks db p) (\<lambda>bs. Inr \<lparr>rc_events = rawEvents db p i, rc_memory = bs\<rparr>)"

text \<open>Every applied chunk has its text and estimate.\<close>

definition renderable :: "'d db \<Rightarrow> string \<Rightarrow> bool" where
  "renderable db p = list_all (\<lambda>c. mc_status c = CApplied \<longrightarrow> mc_replacement c \<noteq> None \<and> mc_replacement_est_tokens c \<noteq> None) (chunks_of db p)"

lemma scan_blocks_total:
  "\<forall>c \<in> set cs. mc_replacement c \<noteq> None \<and> mc_replacement_est_tokens c \<noteq> None \<Longrightarrow> \<exists>bs. scan_blocks cs = Inr bs"
  by (induction cs) (auto simp: block_of_def)

lemma appliedRows_in: "c \<in> set (appliedRows db p) \<Longrightarrow> c \<in> set (chunks_of db p) \<and> mc_status c = CApplied"
  by (auto simp: appliedRows_def)

lemma renderable_context: "renderable db p \<Longrightarrow> \<exists>c. renderedContext db p i = Inr c"
  using scan_blocks_total [of "appliedRows db p"] appliedRows_in [of _ db p]
  by (auto simp: renderable_def list_all_iff renderedContext_def appliedBlocks_def)

section \<open>Status\<close>

text \<open>The cast of a text column to jsonb, and \<^verbatim>\<open>->\<close> and \<^verbatim>\<open>->>\<close> on it.\<close>

definition as_jsonb :: "json option \<Rightarrow> err + json option" where
  "as_jsonb j = (case j of None \<Rightarrow> Inr None
     | Some v \<Rightarrow> if storable v then Inr (Some v) else Inl (ErrData ''unsupported Unicode escape sequence''))"

definition json_at :: "string \<Rightarrow> json option \<Rightarrow> json option" where
  "json_at k j = (case j of Some (JObj m) \<Rightarrow> map_of m k | _ \<Rightarrow> None)"

definition jsonb_text :: "mem_host \<Rightarrow> json option \<Rightarrow> string option" where
  "jsonb_text mh j = (case j of None \<Rightarrow> None | Some JNull \<Rightarrow> None | Some (JStr s) \<Rightarrow> Some s
     | Some (JBool b) \<Rightarrow> Some (if b then ''true'' else ''false'') | Some v \<Rightarrow> Some (mh_pg_text mh v))"

definition is_branch :: "string \<Rightarrow> int \<Rightarrow> branch_row \<Rightarrow> bool" where
  "is_branch p s b \<longleftrightarrow> br_persona_id b = p \<and> int (br_chunk_seq b) = s"

definition branch_of :: "'d db \<Rightarrow> string \<Rightarrow> int \<Rightarrow> branch_row option" where
  "branch_of db p s = find (is_branch p s) (branches db)"

text \<open>The branches of the chunks in preparation, in the order of their chunks.\<close>

definition preparing_at :: "'d db \<Rightarrow> string \<Rightarrow> nat \<Rightarrow> bool" where
  "preparing_at db p s = list_ex (\<lambda>c. mc_chunk_seq c = s \<and> mc_status c = CPreparing) (chunks_of db p)"

definition openBranches :: "'d db \<Rightarrow> string \<Rightarrow> branch_row list" where
  "openBranches db p = sort_key br_chunk_seq (filter (\<lambda>b. br_persona_id b = p \<and> preparing_at db p (br_chunk_seq b)) (branches db))"

definition is_due :: "timestamp \<Rightarrow> timestamp option \<Rightarrow> bool" where
  "is_due now t = (case t of None \<Rightarrow> False | Some x \<Rightarrow> x \<le> now)"

record branch_status_view =
  bv_chunk_seq :: nat
  bv_status :: branch_status
  bv_revision :: int
  bv_retry_at :: "timestamp option"
  bv_issue :: "branch_issue option"
  bv_pause_reason :: "string option"

record mem_status =
  ms_branches :: "branch_status_view list"
  ms_live_raw_tokens :: int
  ms_applied_tokens :: int
  ms_counts :: "(chunk_status \<times> nat) list"
  ms_claimable :: nat
  ms_next_claimable_at :: "timestamp option"
  ms_covered_seq :: nat
  ms_latest_seq :: nat

definition count_status :: "chunk_row list \<Rightarrow> chunk_status \<Rightarrow> chunk_status \<times> nat" where
  "count_status cs s = (s, length (filter (\<lambda>c. mc_status c = s) cs))"

fun min_time :: "timestamp option list \<Rightarrow> timestamp option" where
  "min_time [] = None"
| "min_time (None # ts) = min_time ts"
| "min_time (Some t # ts) = (case min_time ts of None \<Rightarrow> Some t | Some u \<Rightarrow> Some (min t u))"

fun view_branches :: "mem_host \<Rightarrow> branch_row list \<Rightarrow> err + branch_status_view list" where
  "view_branches mh [] = Inr []"
| "view_branches mh (b # bs) =
     rbind (as_jsonb (br_state b)) (\<lambda>st.
     rbind (view_branches mh bs) (\<lambda>vs.
       Inr (\<lparr>bv_chunk_seq = br_chunk_seq b, bv_status = br_status b, bv_revision = br_revision b, bv_retry_at = br_retry_at b,
             bv_issue = br_issue b, bv_pause_reason = jsonb_text mh (json_at ''pause_reason'' st)\<rparr> # vs)))"

definition MemoryStatus :: "mem_host \<Rightarrow> timestamp \<Rightarrow> string \<Rightarrow> 'd db \<Rightarrow> err + mem_status" where
  "MemoryStatus mh now p db =
     (let cs = chunks_of db p;
          open_of = (\<lambda>c. if mc_status c = CPreparing then branch_of db p (int (mc_chunk_seq c)) else None);
          covered = coveredSeq db p;
          tail = sum_list (map (\<lambda>e. estPayloadTokens mh (e_kind e) (e_payload e)) (unsealedTail db p covered)) in
      rbind (view_branches mh (openBranches db p)) (\<lambda>vs.
        Inr \<lparr>ms_branches = vs, ms_live_raw_tokens = liveChunkTokens db p + tail,
             ms_applied_tokens = sum_list (map rest_tokens (filter (\<lambda>c. mc_status c = CApplied) cs)),
             ms_counts = map (count_status cs) [CSealed, CPreparing, CPrepared, CApplied, CKept, CFailed, CSuperseded],
             ms_claimable = length (filter (\<lambda>c. case open_of c of None \<Rightarrow> False
                | Some b \<Rightarrow> br_status b = BRunning \<or> is_due now (br_retry_at b)) cs),
             ms_next_claimable_at = min_time (map (\<lambda>c. case open_of c of None \<Rightarrow> None
                | Some b \<Rightarrow> if br_status b = BRunning then Some now else br_retry_at b) cs),
             ms_covered_seq = covered, ms_latest_seq = last_seq db p\<rparr>))"

text \<open>The transaction, then the status read on its own: its failure takes nothing back.\<close>

definition MemoryMaintain :: "mem_host \<Rightarrow> timestamp \<Rightarrow> string \<Rightarrow> int \<Rightarrow> 'd db \<Rightarrow> 'd db \<times> (err + mem_status)" where
  "MemoryMaintain mh now p gen db =
     (case run_tx (maintainTx mh now p gen) db of
        (db', Inl e) \<Rightarrow> (db', Inl e)
      | (db', Inr u) \<Rightarrow> (db', MemoryStatus mh now p db'))"

end
