(* ===== verification/Core_Branch.thy ===== *)
theory Core_Branch
  imports Core_Memory
begin

text \<open>
  The branches that prepare replacements (\<^verbatim>\<open>memory_branch.go\<close>, \<^verbatim>\<open>memory_recovery.go\<close>): a claim binds a
  sealed chunk to a snapshot of the live context, checkpoints record the branch's progress under a
  revision, a completed branch shelves its candidate, and a paused one is resumed or started over.
  A \<^verbatim>\<open>json.RawMessage\<close> that is absent is \<open>None\<close>. \<^verbatim>\<open>json.Unmarshal\<close> into a struct leaves an absent or
  null field at its zero value and fails on a field of another type; keys are compared exactly.
  Casts and the operands of \<^verbatim>\<open>AND\<close> and \<^verbatim>\<open>OR\<close> in SQL are evaluated from left to right.
\<close>

section \<open>Decoding\<close>

definition json_int64 :: "json \<Rightarrow> int option" where
  "json_int64 v = (case v of JNum r \<Rightarrow> if r = of_int \<lfloor>r\<rfloor> \<and> in_i64 \<lfloor>r\<rfloor> then Some \<lfloor>r\<rfloor> else None | _ \<Rightarrow> None)"

definition dec_int :: "jobj \<Rightarrow> string \<Rightarrow> int option" where
  "dec_int m k = (case map_of m k of None \<Rightarrow> Some 0 | Some JNull \<Rightarrow> Some 0 | Some v \<Rightarrow> json_int64 v)"

definition dec_str :: "jobj \<Rightarrow> string \<Rightarrow> string option" where
  "dec_str m k = (case map_of m k of None \<Rightarrow> Some [] | Some JNull \<Rightarrow> Some [] | Some (JStr s) \<Rightarrow> Some s | _ \<Rightarrow> None)"

definition dec_arr :: "jobj \<Rightarrow> string \<Rightarrow> json list option" where
  "dec_arr m k = (case map_of m k of None \<Rightarrow> Some [] | Some JNull \<Rightarrow> Some [] | Some (JArr xs) \<Rightarrow> Some xs | _ \<Rightarrow> None)"

text \<open>A pointer field: nil when absent or null.\<close>

definition dec_ptr :: "(json \<Rightarrow> 'a option) \<Rightarrow> jobj \<Rightarrow> string \<Rightarrow> 'a option option" where
  "dec_ptr f m k = (case map_of m k of None \<Rightarrow> Some None | Some JNull \<Rightarrow> Some None | Some v \<Rightarrow> map_option Some (f v))"

record branch_candidate =
  ca_text :: string
  ca_version :: int
  ca_sha256 :: string

record branch_review =
  rv_kind :: string
  rv_version :: int
  rv_sha256 :: string
  rv_token :: string
  rv_opened_round :: int

record branch_checkpoint =
  cp_status :: string
  cp_messages :: "json list"
  cp_candidate :: "branch_candidate option"
  cp_review :: "branch_review option"
  cp_final :: "branch_review option"
  cp_rounds :: int
  cp_model_calls :: int
  cp_tokens :: int
  cp_retry_at :: "timestamp option"
  cp_pause_reason :: "string option"
  cp_issue :: "branch_issue option"

definition dec_candidate :: "json \<Rightarrow> branch_candidate option" where
  "dec_candidate v = (case v of
     JObj m \<Rightarrow> (case (dec_str m ''text'', dec_int m ''version'', dec_str m ''sha256'') of
        (Some t, Some n, Some h) \<Rightarrow> Some \<lparr>ca_text = t, ca_version = n, ca_sha256 = h\<rparr> | _ \<Rightarrow> None)
   | _ \<Rightarrow> None)"

definition dec_review :: "json \<Rightarrow> branch_review option" where
  "dec_review v = (case v of
     JObj m \<Rightarrow> (case (dec_str m ''kind'', dec_int m ''version'', dec_str m ''sha256'', dec_str m ''token'', dec_int m ''opened_round'') of
        (Some k, Some n, Some h, Some t, Some r) \<Rightarrow>
          Some \<lparr>rv_kind = k, rv_version = n, rv_sha256 = h, rv_token = t, rv_opened_round = r\<rparr>
      | _ \<Rightarrow> None)
   | _ \<Rightarrow> None)"

definition dec_issue :: "json \<Rightarrow> branch_issue option" where
  "dec_issue v = (case v of
     JObj m \<Rightarrow> (case (dec_str m ''code'', dec_str m ''message'') of
        (Some c, Some t) \<Rightarrow> Some \<lparr>is_code = c, is_message = t\<rparr> | _ \<Rightarrow> None)
   | _ \<Rightarrow> None)"

text \<open>A time is parsed to nanoseconds and stored in microseconds.\<close>

definition dec_time :: "mem_host \<Rightarrow> json \<Rightarrow> timestamp option" where
  "dec_time mh v = (case v of JStr s \<Rightarrow> map_option (\<lambda>ns. ns div 1000) (mh_parse_time mh s) | _ \<Rightarrow> None)"

definition json_str :: "json \<Rightarrow> string option" where
  "json_str v = (case v of JStr s \<Rightarrow> Some s | _ \<Rightarrow> None)"

definition zero_checkpoint :: branch_checkpoint where
  "zero_checkpoint = \<lparr>cp_status = [], cp_messages = [], cp_candidate = None, cp_review = None, cp_final = None, cp_rounds = 0,
     cp_model_calls = 0, cp_tokens = 0, cp_retry_at = None, cp_pause_reason = None, cp_issue = None\<rparr>"

definition dec_fields :: "mem_host \<Rightarrow> jobj \<Rightarrow> branch_checkpoint option" where
  "dec_fields mh m =
     (case (dec_str m ''status'', dec_arr m ''messages'', dec_ptr dec_candidate m ''candidate'', dec_ptr dec_review m ''review'',
            dec_ptr dec_review m ''final'') of
        (Some s, Some ms, Some c, Some r, Some f) \<Rightarrow>
          (case (dec_int m ''rounds'', dec_int m ''model_calls'', dec_int m ''tokens'', dec_ptr (dec_time mh) m ''retry_at'',
                 dec_ptr json_str m ''pause_reason'', dec_ptr dec_issue m ''issue'') of
             (Some rd, Some mc, Some tk, Some ra, Some pr, Some i) \<Rightarrow>
               Some \<lparr>cp_status = s, cp_messages = ms, cp_candidate = c, cp_review = r, cp_final = f, cp_rounds = rd,
                     cp_model_calls = mc, cp_tokens = tk, cp_retry_at = ra, cp_pause_reason = pr, cp_issue = i\<rparr>
           | _ \<Rightarrow> None)
      | _ \<Rightarrow> None)"

definition decodeCheckpoint :: "mem_host \<Rightarrow> json \<Rightarrow> branch_checkpoint option" where
  "decodeCheckpoint mh v = (case v of JNull \<Rightarrow> Some zero_checkpoint | JObj m \<Rightarrow> dec_fields mh m | _ \<Rightarrow> None)"

section \<open>Snapshots\<close>

definition requireMemoryGeneration :: "timestamp \<Rightarrow> string \<Rightarrow> int \<Rightarrow> 'd db \<Rightarrow> err + unit" where
  "requireMemoryGeneration now p gen db =
     rbind (requireGeneration db p gen) (\<lambda>_.
     rbind (require (lease_of db p) (ErrStorage ''no rows in result set'')) (\<lambda>l.
       guard (now < l_expires_at l) ErrGenerationFence))"

definition branchHash :: "mem_host \<Rightarrow> string \<Rightarrow> string" where
  "branchHash mh raw = mh_sha mh raw"

definition canonicalBranchJSON :: "mem_host \<Rightarrow> json \<Rightarrow> string" where
  "canonicalBranchJSON mh v = mh_marshal mh (jnorm v)"

definition valid_range :: "branch_snapshot \<Rightarrow> source_range \<Rightarrow> bool" where
  "valid_range snap r \<longleftrightarrow> 1 \<le> sr_first_seq r \<and> sr_first_seq r \<le> sr_last_seq r
     \<and> (case sr_message_index r of None \<Rightarrow> True | Some i \<Rightarrow> 0 \<le> i \<and> i < int (length (bs_messages snap)))"

definition valid_message :: "json \<Rightarrow> bool" where
  "valid_message v = (case v of
     JObj m \<Rightarrow> (case (map_of m ''role'', map_of m ''content'') of
        (Some (JStr r), Some (JStr c)) \<Rightarrow> r \<in> set [''system'', ''user'', ''assistant'', ''tool''] | _ \<Rightarrow> False)
   | _ \<Rightarrow> False)"

definition validateBranchSnapshot :: "branch_snapshot option \<Rightarrow> err + unit" where
  "validateBranchSnapshot s = (case s of
     None \<Rightarrow> Inl (ErrBadRequest ''a live context snapshot is required'')
   | Some snap \<Rightarrow>
       rbind (guard (bs_messages snap \<noteq> [] \<and> bs_ranges snap \<noteq> []) (ErrBadRequest ''a live context snapshot is required'')) (\<lambda>_.
       rbind (guard (list_all (valid_range snap) (bs_ranges snap)) (ErrBadRequest ''invalid snapshot source range'')) (\<lambda>_.
         guard (list_all (\<lambda>m. valid_message (rm_value m)) (bs_messages snap)) (ErrBadRequest ''invalid snapshot message''))))"

text \<open>The scan over the ranges by first position; \<open>None\<close> is the early \<^verbatim>\<open>return false\<close>.\<close>

fun cover_scan :: "int \<Rightarrow> int \<Rightarrow> int \<Rightarrow> source_range list \<Rightarrow> int option" where
  "cover_scan a z nxt [] = Some nxt"
| "cover_scan a z nxt (r # rs) =
     (if sr_last_seq r < a \<or> z < sr_first_seq r then cover_scan a z nxt rs
      else if sr_first_seq r < a \<or> z < sr_last_seq r \<or> nxt < sr_first_seq r then None
      else cover_scan a z (if nxt \<le> sr_last_seq r then sr_last_seq r + 1 else nxt) rs)"

definition inside :: "int \<Rightarrow> int \<Rightarrow> source_range \<Rightarrow> bool" where
  "inside a z r \<longleftrightarrow> a \<le> sr_first_seq r \<and> sr_last_seq r \<le> z"

text \<open>A message one of whose ranges lies inside the target may have no range that sticks out of it.\<close>

definition splits_message :: "branch_snapshot \<Rightarrow> int \<Rightarrow> int \<Rightarrow> bool" where
  "splits_message snap a z = list_ex (\<lambda>r. sr_message_index r \<noteq> None \<and> \<not> inside a z r
     \<and> list_ex (\<lambda>s. sr_message_index s = sr_message_index r \<and> inside a z s) (bs_ranges snap)) (bs_ranges snap)"

definition snapshotCovers :: "branch_snapshot \<Rightarrow> int \<Rightarrow> int \<Rightarrow> bool" where
  "snapshotCovers snap a z \<longleftrightarrow> \<not> splits_message snap a z
     \<and> cover_scan a z a (sort_key sr_first_seq (bs_ranges snap)) = Some (z + 1)"

definition renders_source :: "branch_snapshot \<Rightarrow> chunk_row \<Rightarrow> bool" where
  "renders_source snap c = list_ex (\<lambda>r. sr_message_index r \<noteq> None \<and> sr_chunk_seq r = Some (int (mc_chunk_seq c))
     \<and> sr_layer r = Some (int (mc_layer c)) \<and> sr_first_seq r = int (mc_first_seq c) \<and> sr_last_seq r = int (mc_last_seq c))
     (bs_ranges snap)"

fun match_sources :: "'d db \<Rightarrow> string \<Rightarrow> branch_snapshot \<Rightarrow> nat list \<Rightarrow> err + bool" where
  "match_sources db p snap [] = Inr True"
| "match_sources db p snap (s # ss) =
     rbind (require (chunk_at db p (int s)) ErrChunkNotFound) (\<lambda>c.
       if mc_status c \<noteq> CApplied \<or> \<not> renders_source snap c then Inr False else match_sources db p snap ss)"

definition snapshotMatchesChunk :: "'d db \<Rightarrow> string \<Rightarrow> chunk_row \<Rightarrow> branch_snapshot \<Rightarrow> err + bool" where
  "snapshotMatchesChunk db p c snap =
     (let a = int (mc_first_seq c); z = int (mc_last_seq c) in
      if \<not> snapshotCovers snap a z then Inr False
      else if mc_layer c = 1 then
        Inr (list_all (\<lambda>r. \<not> (inside a z r \<and> (sr_layer r \<noteq> None \<or> sr_chunk_seq r \<noteq> None))) (bs_ranges snap))
      else match_sources db p snap (sources_of c))"

section \<open>Reading a branch\<close>

record memory_branch =
  mbr_chunk :: chunk_row
  mbr_snapshot :: branch_snapshot
  mbr_state :: "json option"
  mbr_revision :: int
  mbr_previous :: "json option"

definition last_attempt :: "branch_row \<Rightarrow> json option" where
  "last_attempt b = (if br_state b \<noteq> None \<or> br_previous_attempts b = [] then None
     else Some (case ba_state (last (br_previous_attempts b)) of None \<Rightarrow> JNull | Some v \<Rightarrow> v))"

definition readMemoryBranch :: "'d db \<Rightarrow> string \<Rightarrow> int \<Rightarrow> err + memory_branch" where
  "readMemoryBranch db p s =
     rbind (require (branch_of db p s) (ErrStorage ''no rows in result set'')) (\<lambda>b.
     rbind (require (chunk_at db p s) ErrChunkNotFound) (\<lambda>c.
       Inr \<lparr>mbr_chunk = c, mbr_snapshot = br_snapshot b, mbr_state = br_state b, mbr_revision = br_revision b,
            mbr_previous = last_attempt b\<rparr>))"

definition upd_branch :: "string \<Rightarrow> int \<Rightarrow> (branch_row \<Rightarrow> branch_row) \<Rightarrow> 'd db \<Rightarrow> 'd db" where
  "upd_branch p s f db = db\<lparr>branches := upd (is_branch p s) f (branches db)\<rparr>"

definition upd_chunk :: "string \<Rightarrow> int \<Rightarrow> (chunk_row \<Rightarrow> chunk_row) \<Rightarrow> 'd db \<Rightarrow> 'd db" where
  "upd_chunk p s f db = db\<lparr>chunks := upd (is_chunk p s) f (chunks db)\<rparr>"

text \<open>The archive keeps what the branch was; the answer's own copy of an earlier attempt is left out.\<close>

definition attempt_of :: "memory_branch \<Rightarrow> branch_attempt" where
  "attempt_of b = \<lparr>ba_chunk = mbr_chunk b, ba_snapshot = mbr_snapshot b, ba_state = mbr_state b, ba_revision = mbr_revision b\<rparr>"

definition archiveMemoryAttempt :: "string \<Rightarrow> memory_branch \<Rightarrow> 'd db \<Rightarrow> 'd db" where
  "archiveMemoryAttempt p b = upd_branch p (int (mc_chunk_seq (mbr_chunk b)))
     (\<lambda>r. r\<lparr>br_previous_attempts := br_previous_attempts r @ [attempt_of b]\<rparr>)"

section \<open>Claims\<close>

definition tool_name :: "json \<Rightarrow> string option" where
  "tool_name v = (case v of JNull \<Rightarrow> Some [] | JObj m \<Rightarrow> dec_str m ''name'' | _ \<Rightarrow> None)"

definition snapshotHasMemoryTools :: "branch_snapshot \<Rightarrow> bool" where
  "snapshotHasMemoryTools snap \<longleftrightarrow> Some ''file.read'' \<in> set (map (\<lambda>t. tool_name (rm_value t)) (bs_tools snap))
     \<and> Some ''file.write'' \<in> set (map (\<lambda>t. tool_name (rm_value t)) (bs_tools snap))"

text \<open>The first open branch a test accepts, a failed cast failing the query.\<close>

fun first_branch :: "(branch_row \<Rightarrow> err + bool) \<Rightarrow> branch_row list \<Rightarrow> err + branch_row option" where
  "first_branch f [] = Inr None"
| "first_branch f (b # bs) = rbind (f b) (\<lambda>ok. if ok then Inr (Some b) else first_branch f bs)"

definition rebranch_requested :: "mem_host \<Rightarrow> branch_row \<Rightarrow> err + bool" where
  "rebranch_requested mh b = rbind (as_jsonb (br_state b)) (\<lambda>st. Inr (jsonb_text mh (json_at ''rebranch_requested'' st) = Some ''true''))"

definition restarted :: "timestamp \<Rightarrow> branch_snapshot \<Rightarrow> branch_row \<Rightarrow> branch_row" where
  "restarted now snap b = b\<lparr>br_snapshot := snap, br_state := None, br_revision := br_revision b + 1, br_checkpoint_hash := [],
     br_status := BRunning, br_retry_at := None, br_updated_at := now\<rparr>"

definition restartRequestedMemory :: "mem_host \<Rightarrow> timestamp \<Rightarrow> string \<Rightarrow> branch_snapshot option \<Rightarrow> 'd db \<Rightarrow> err + 'd db" where
  "restartRequestedMemory mh now p s db = (case s of
     None \<Rightarrow> Inr db
   | Some snap \<Rightarrow>
       if \<not> snapshotHasMemoryTools snap then Inr db
       else rbind (first_branch (rebranch_requested mh) (openBranches db p)) (\<lambda>r. case r of
         None \<Rightarrow> Inr db
       | Some row \<Rightarrow>
           rbind (validateBranchSnapshot s) (\<lambda>_.
           rbind (readMemoryBranch db p (int (br_chunk_seq row))) (\<lambda>b.
           rbind (snapshotMatchesChunk db p (mbr_chunk b) snap) (\<lambda>ok.
             if \<not> ok then Inr db
             else Inr (upd_branch p (int (br_chunk_seq row)) (restarted now snap) (archiveMemoryAttempt p b db)))))))"

definition json_fingerprint :: "json option \<Rightarrow> json option" where
  "json_fingerprint j = json_at ''fingerprint'' j"

definition selectedFingerprint :: "branch_snapshot option \<Rightarrow> string option" where
  "selectedFingerprint s = (case s of None \<Rightarrow> None | Some snap \<Rightarrow> (case bs_binding snap of
     Some (JObj m) \<Rightarrow> (case dec_str m ''fingerprint'' of Some f \<Rightarrow> if f = [] then None else Some f | None \<Rightarrow> None)
   | _ \<Rightarrow> None))"

definition snapshot_storable :: "branch_snapshot \<Rightarrow> bool" where
  "snapshot_storable snap \<longleftrightarrow> list_all (\<lambda>m. storable (rm_value m)) (bs_messages snap @ bs_tools snap)
     \<and> (case bs_binding snap of None \<Rightarrow> True | Some v \<Rightarrow> storable v)"

text \<open>\<^verbatim>\<open>$3 <> COALESCE(state->'effective_binding'->>'fingerprint', snapshot->'binding'->>'fingerprint')\<close>.\<close>

definition other_binding :: "mem_host \<Rightarrow> string \<Rightarrow> json option \<Rightarrow> branch_row \<Rightarrow> err + bool" where
  "other_binding mh f st b =
     (case jsonb_text mh (json_fingerprint (json_at ''effective_binding'' st)) of
        Some g \<Rightarrow> Inr (f \<noteq> g)
      | None \<Rightarrow>
          if \<not> snapshot_storable (br_snapshot b) then Inl (ErrData ''unsupported Unicode escape sequence'')
          else Inr (case jsonb_text mh (json_fingerprint (bs_binding (br_snapshot b))) of None \<Rightarrow> False | Some g \<Rightarrow> f \<noteq> g))"

definition other_policy :: "mem_host \<Rightarrow> json option \<Rightarrow> json option \<Rightarrow> bool" where
  "other_policy mh policy st \<longleftrightarrow> (case (policy, json_at ''policy'' st) of (Some q, Some o') \<Rightarrow> \<not> jsonb_eq o' q | _ \<Rightarrow> False)
     \<and> jsonb_text mh (json_at ''pause_reason'' st) = Some ''configured_budget''"

definition resumable :: "mem_host \<Rightarrow> timestamp \<Rightarrow> json option \<Rightarrow> string option \<Rightarrow> branch_row \<Rightarrow> err + bool" where
  "resumable mh now policy fp b =
     rbind (as_jsonb (br_state b)) (\<lambda>st.
       if jsonb_text mh (json_at ''rebranch_requested'' st) = Some ''true'' then Inr False
       else if br_status b = BRunning \<or> is_due now (br_retry_at b) \<or> other_policy mh policy st then Inr True
       else case fp of None \<Rightarrow> Inr False | Some f \<Rightarrow> other_binding mh f st b)"

text \<open>The estimated size of a list of ranges' messages, each message once.\<close>

fun message_tokens :: "raw_message list \<Rightarrow> int list \<Rightarrow> int" where
  "message_tokens ms [] = 0"
| "message_tokens ms (i # is) = estTextTokens (rm_size (ms ! nat i)) + message_tokens ms (filter (\<lambda>j. j \<noteq> i) is)"

text \<open>A message counts for the layer of the first range that names it.\<close>

fun layer_pressure :: "raw_message list \<Rightarrow> int \<Rightarrow> int list \<Rightarrow> source_range list \<Rightarrow> int" where
  "layer_pressure ms layer counted [] = 0"
| "layer_pressure ms layer counted (r # rs) = (case sr_message_index r of
     None \<Rightarrow> layer_pressure ms layer counted rs
   | Some i \<Rightarrow>
       if i \<in> set counted then layer_pressure ms layer counted rs
       else (if (case sr_layer r of None \<Rightarrow> 0 | Some l \<Rightarrow> l) = layer then estTextTokens (rm_size (ms ! nat i)) else 0)
            + layer_pressure ms layer (i # counted) rs)"

definition under_pressure :: "branch_snapshot \<Rightarrow> bool" where
  "under_pressure snap \<longleftrightarrow> L0LiveLimitTokens < layer_pressure (bs_messages snap) 0 [] (bs_ranges snap)
     \<or> L1LimitTokens < layer_pressure (bs_messages snap) 1 [] (bs_ranges snap)
     \<or> L2LimitTokens < layer_pressure (bs_messages snap) 2 [] (bs_ranges snap)"

definition added_tokens :: "branch_snapshot \<Rightarrow> branch_snapshot \<Rightarrow> int" where
  "added_tokens old snap =
     (let seen = foldl max 0 (map sr_last_seq (bs_ranges old)) in
      message_tokens (bs_messages snap)
        (List.map_filter (\<lambda>r. if seen < sr_first_seq r then sr_message_index r else None) (bs_ranges snap)))"

fun reconsider_loop :: "string \<Rightarrow> branch_snapshot \<Rightarrow> branch_row list \<Rightarrow> 'd db \<Rightarrow> err + 'd db" where
  "reconsider_loop p snap [] db = Inr db"
| "reconsider_loop p snap (r # rs) db =
     rbind (readMemoryBranch db p (int (br_chunk_seq r))) (\<lambda>b.
     rbind (snapshotMatchesChunk db p (mbr_chunk b) snap) (\<lambda>ok.
       if \<not> ok \<or> added_tokens (mbr_snapshot b) snap < L0ChunkMinTokens then reconsider_loop p snap rs db
       else Inr (upd_chunk p (int (br_chunk_seq r)) (\<lambda>c. c\<lparr>mc_status := CSealed, mc_prepared_at := None\<rparr>)
              (archiveMemoryAttempt p b db))))"

definition kept_at :: "'d db \<Rightarrow> string \<Rightarrow> nat \<Rightarrow> bool" where
  "kept_at db p s = list_ex (\<lambda>c. mc_chunk_seq c = s \<and> mc_status c = CKept) (chunks_of db p)"

definition reconsiderKeptMemory :: "string \<Rightarrow> branch_snapshot \<Rightarrow> 'd db \<Rightarrow> err + 'd db" where
  "reconsiderKeptMemory p snap db =
     (if \<not> under_pressure snap then Inr db
      else reconsider_loop p snap (sort_key br_chunk_seq (filter (\<lambda>b. br_persona_id b = p \<and> br_status b = BKept
             \<and> kept_at db p (br_chunk_seq b)) (branches db))) db)"

text \<open>The sealed chunks past their backoff whose sources are applied and whose range the snapshot covers.\<close>

definition claimable_chunk :: "'d db \<Rightarrow> timestamp \<Rightarrow> string \<Rightarrow> chunk_row \<Rightarrow> bool" where
  "claimable_chunk db now p c \<longleftrightarrow> mc_status c = CSealed
     \<and> \<not> list_ex (\<lambda>s. mc_chunk_seq s \<in> set (sources_of c) \<and> mc_status s \<noteq> CApplied) (chunks_of db p)
     \<and> (mc_not_before c = None \<or> is_due now (mc_not_before c))"

definition claimCandidates :: "'d db \<Rightarrow> timestamp \<Rightarrow> string \<Rightarrow> branch_snapshot \<Rightarrow> chunk_row list" where
  "claimCandidates db now p snap = filter (\<lambda>c. snapshotCovers snap (int (mc_first_seq c)) (int (mc_last_seq c)))
     (sort_key mc_chunk_seq (filter (claimable_chunk db now p) (chunks_of db p)))"

fun first_match :: "'d db \<Rightarrow> string \<Rightarrow> branch_snapshot \<Rightarrow> chunk_row list \<Rightarrow> err + nat option" where
  "first_match db p snap [] = Inr None"
| "first_match db p snap (c # cs) =
     rbind (snapshotMatchesChunk db p c snap) (\<lambda>ok. if ok then Inr (Some (mc_chunk_seq c)) else first_match db p snap cs)"

definition new_branch :: "timestamp \<Rightarrow> string \<Rightarrow> nat \<Rightarrow> branch_snapshot \<Rightarrow> branch_row" where
  "new_branch now p s snap = \<lparr>br_persona_id = p, br_chunk_seq = s, br_snapshot = snap, br_previous_attempts = [], br_state = None,
     br_revision = 0, br_checkpoint_hash = [], br_status = BRunning, br_retry_at = None, br_issue = None, br_updated_at = now\<rparr>"

definition upsert_branch :: "timestamp \<Rightarrow> string \<Rightarrow> nat \<Rightarrow> branch_snapshot \<Rightarrow> 'd db \<Rightarrow> 'd db" where
  "upsert_branch now p s snap db =
     (if branch_of db p (int s) = None then db\<lparr>branches := branches db @ [new_branch now p s snap]\<rparr>
      else upd_branch p (int s) (\<lambda>b. b\<lparr>br_snapshot := snap, br_state := None, br_revision := br_revision b + 1,
             br_checkpoint_hash := [], br_status := BRunning, br_retry_at := None, br_issue := None\<rparr>) db)"

definition begin_preparing :: "timestamp \<Rightarrow> string \<Rightarrow> int \<Rightarrow> nat \<Rightarrow> 'd db \<Rightarrow> err + ('d db \<times> memory_branch option)" where
  "begin_preparing now p gen s db =
     (let db1 = upd_chunk p (int s) (\<lambda>c. c\<lparr>mc_status := CPreparing, mc_claimed_generation := Some gen,
                  mc_claimed_at := Some now, mc_not_before := None\<rparr>) db in
      rbind (readMemoryBranch db1 p (int s)) (\<lambda>b. Inr (db1, Some b)))"

definition some_preparing :: "'d db \<Rightarrow> string \<Rightarrow> bool" where
  "some_preparing db p = list_ex (\<lambda>c. mc_status c = CPreparing) (chunks_of db p)"

text \<open>A return without a commit rolls back: the database is the one the claim found.\<close>

definition ClaimMemoryBranch ::
  "mem_host \<Rightarrow> timestamp \<Rightarrow> string \<Rightarrow> int \<Rightarrow> branch_snapshot option \<Rightarrow> json option \<Rightarrow> 'd db
     \<Rightarrow> err + ('d db \<times> memory_branch option)" where
  "ClaimMemoryBranch mh now p gen s policy db =
     rbind (requireMemoryGeneration now p gen db) (\<lambda>_.
     rbind (restartRequestedMemory mh now p s db) (\<lambda>db1.
     rbind (case policy of None \<Rightarrow> Inr () | Some q \<Rightarrow> jsonb_param q) (\<lambda>_.
     rbind (text_params (case selectedFingerprint s of None \<Rightarrow> [] | Some f \<Rightarrow> [f])) (\<lambda>_.
     rbind (first_branch (resumable mh now policy (selectedFingerprint s)) (openBranches db1 p)) (\<lambda>r. case r of
         Some b \<Rightarrow> begin_preparing now p gen (br_chunk_seq b) db1
       | None \<Rightarrow>
           if some_preparing db1 p then Inr (db, None)
           else (case s of None \<Rightarrow> Inr (db, None)
             | Some snap \<Rightarrow>
                 rbind (validateBranchSnapshot s) (\<lambda>_.
                 rbind (reconsiderKeptMemory p snap db1) (\<lambda>db2.
                 rbind (first_match db2 p snap (claimCandidates db2 now p snap)) (\<lambda>m. case m of
                     None \<Rightarrow> Inr (db, None)
                   | Some n \<Rightarrow> begin_preparing now p gen n (upsert_branch now p n snap db2))))))))))"

section \<open>Checkpoints\<close>

definition memory_input :: "timestamp \<Rightarrow> nat \<Rightarrow> string \<Rightarrow> string \<Rightarrow> jobj \<Rightarrow> input_row" where
  "memory_input now sq p x m =
     \<lparr>i_persona_id = p, i_input_id = x, i_kind = ''memory_status'', i_payload = m,
      i_actor_kind = ''memory'', i_actor_id = [], i_source_surface = ''core_memory'', i_thread_id = [],
      i_occurred_at = None, i_attention = ''observe'', i_status = IQueued, i_claimed_generation = None, i_turn_id = None,
      i_created_at = now, i_done_at = None, i_not_before = None, i_received_seq = None, i_admission_seq = sq,
      i_waiting_since = None, i_waited_ms = 0\<rparr>"

definition go_int :: "int \<Rightarrow> string" where
  "go_int n = (if n < 0 then CHR ''-'' # itoa (nat (- n)) else itoa (nat n))"

definition notice_id :: "int \<Rightarrow> int \<Rightarrow> string \<Rightarrow> string" where
  "notice_id s rn tr = ''memory:'' @ go_int s @ '':'' @ go_int rn @ '':'' @ tr"

definition notice_payload :: "int \<Rightarrow> string \<Rightarrow> branch_issue \<Rightarrow> jobj" where
  "notice_payload s tr i =
     [(''text'', JStr (''[Memory mechanism '' @ tr @ ''] '' @ is_message i @ '' Draft and branch progress are saved. This is an operational event, not a message from another person and not an instruction to post into Messaging.'')),
      (''chunk_seq'', jint s), (''transition'', JStr tr), (''code'', JStr (is_code i))]"

text \<open>\<^verbatim>\<open>INSERT .. ON CONFLICT DO NOTHING\<close>, which draws an admission number either way.\<close>

definition memoryBranchNotice :: "timestamp \<Rightarrow> string \<Rightarrow> int \<Rightarrow> int \<Rightarrow> string \<Rightarrow> branch_issue \<Rightarrow> 'd db \<Rightarrow> err + 'd db" where
  "memoryBranchNotice now p s rn tr i db =
     (let m = notice_payload s tr i; sq = admission_next db; db1 = db\<lparr>admission_next := Suc sq\<rparr> in
      rbind (jsonb_param (JObj m)) (\<lambda>_.
        Inr (if input_of db p (notice_id s rn tr) = None
             then db1\<lparr>inputs := inputs db @ [memory_input now sq p (notice_id s rn tr) m]\<rparr> else db1)))"

definition branch_status_of :: "string \<Rightarrow> branch_status option" where
  "branch_status_of s = map_of [(''running'', BRunning), (''paused'', BPaused), (''prepared'', BPrepared), (''kept'', BKept)] s"

text \<open>The checks on the checkpoint alone.\<close>

definition check_checkpoint :: "mem_host \<Rightarrow> branch_checkpoint \<Rightarrow> err + branch_status" where
  "check_checkpoint mh nx =
     rbind (require (branch_status_of (cp_status nx)) (ErrBadRequest ''invalid branch status'')) (\<lambda>st.
     rbind (guard (cp_messages nx \<noteq> [] \<and> 0 \<le> cp_rounds nx \<and> 0 \<le> cp_model_calls nx \<and> 0 \<le> cp_tokens nx)
       (ErrBadRequest ''invalid branch progress'')) (\<lambda>_.
     rbind (guard (case cp_candidate nx of None \<Rightarrow> True
         | Some c \<Rightarrow> 1 \<le> ca_version c \<and> ca_sha256 c = branchHash mh (ca_text c)) (ErrBadRequest ''candidate hash mismatch'')) (\<lambda>_.
       Inr st)))"

text \<open>The checks against the stored checkpoint: progress, transcript, candidate version.\<close>

definition check_progress :: "branch_checkpoint \<Rightarrow> branch_checkpoint \<Rightarrow> err + unit" where
  "check_progress old nx =
     rbind (guard (cp_rounds old \<le> cp_rounds nx \<and> cp_model_calls old \<le> cp_model_calls nx \<and> cp_tokens old \<le> cp_tokens nx
         \<and> length (cp_messages old) \<le> length (cp_messages nx)) (ErrMemoryConflict ''progress cannot move backwards'')) (\<lambda>_.
     rbind (guard (list_all2 jsonb_eq (cp_messages old) (take (length (cp_messages old)) (cp_messages nx)))
         (ErrMemoryConflict ''branch transcript is append-only'')) (\<lambda>_.
       guard (case (cp_candidate nx, cp_candidate old) of
           (Some c, Some d) \<Rightarrow> ca_version d \<le> ca_version c \<and> (ca_version c = ca_version d \<longrightarrow> ca_sha256 c = ca_sha256 d)
         | _ \<Rightarrow> True) (ErrMemoryConflict ''stale candidate version'')))"

text \<open>Completion: the review opened by the stored checkpoint, in an earlier round, is the one confirmed.\<close>

definition confirmed :: "branch_checkpoint \<Rightarrow> branch_checkpoint \<Rightarrow> bool" where
  "confirmed old nx \<longleftrightarrow> cp_final nx \<noteq> None \<and> cp_final nx = cp_review old
     \<and> (case cp_review old of None \<Rightarrow> False | Some r \<Rightarrow> rv_opened_round r < cp_rounds nx)"

definition confirmed_candidate :: "branch_checkpoint \<Rightarrow> branch_checkpoint \<Rightarrow> branch_candidate option" where
  "confirmed_candidate old nx = (case (cp_final nx, cp_candidate nx) of
     (Some f, Some c) \<Rightarrow> if rv_kind f = ''replace'' \<and> ca_version c = rv_version f \<and> ca_sha256 c = rv_sha256 f
         \<and> cp_candidate old = Some c then Some c else None
   | _ \<Rightarrow> None)"

text \<open>The two ways a chunk leaves preparation.\<close>

definition shelve_candidate :: "timestamp \<Rightarrow> branch_candidate \<Rightarrow> chunk_row \<Rightarrow> chunk_row" where
  "shelve_candidate now d c = c\<lparr>mc_status := CPrepared, mc_replacement := Some (ca_text d),
     mc_replacement_est_tokens := Some (estTextTokens (length (ca_text d))), mc_prepared_at := Some now,
     mc_claimed_generation := None, mc_claimed_at := None, mc_last_error := None\<rparr>"

definition keep_unchanged :: "timestamp \<Rightarrow> chunk_row \<Rightarrow> chunk_row" where
  "keep_unchanged now c = c\<lparr>mc_status := CKept, mc_prepared_at := Some now, mc_claimed_generation := None,
     mc_claimed_at := None, mc_last_error := None\<rparr>"

definition complete_chunk :: "timestamp \<Rightarrow> string \<Rightarrow> int \<Rightarrow> branch_status \<Rightarrow> chunk_row \<Rightarrow> branch_checkpoint \<Rightarrow> branch_checkpoint
    \<Rightarrow> 'd db \<Rightarrow> err + 'd db" where
  "complete_chunk now p s st c old nx db =
     (if st \<noteq> BPrepared \<and> st \<noteq> BKept then Inr db
      else if \<not> confirmed old nx then Inl (ErrMemoryConflict ''completion requires the previously opened confirmation'')
      else if st = BPrepared then
        (case confirmed_candidate old nx of
           None \<Rightarrow> Inl (ErrMemoryConflict ''confirmed candidate changed'')
         | Some d \<Rightarrow>
             if mc_est_tokens c \<le> estTextTokens (length (ca_text d)) then Inl (ErrBadRequest ''candidate does not reduce the target'')
             else rbind (text_params [ca_text d]) (\<lambda>_. Inr (upd_chunk p s (shelve_candidate now d) db)))
      else if (case cp_final nx of None \<Rightarrow> True | Some f \<Rightarrow> rv_kind f \<noteq> ''keep'') then Inl (ErrMemoryConflict ''keep confirmation required'')
      else Inr (upd_chunk p s (keep_unchanged now) db))"

text \<open>The issue the stored branch stands with: that of its state or, after a restart, of the attempt before.\<close>

definition standing_issue :: "mem_host \<Rightarrow> memory_branch \<Rightarrow> branch_checkpoint \<Rightarrow> branch_issue option" where
  "standing_issue mh b old = (case (mbr_state b, mbr_previous b) of
     (None, Some v) \<Rightarrow> (case decodeCheckpoint mh v of Some prior \<Rightarrow> cp_issue prior | None \<Rightarrow> cp_issue old)
   | _ \<Rightarrow> cp_issue old)"

definition issue_notice :: "timestamp \<Rightarrow> string \<Rightarrow> int \<Rightarrow> int \<Rightarrow> branch_issue option \<Rightarrow> branch_issue option \<Rightarrow> 'd db \<Rightarrow> err + 'd db" where
  "issue_notice now p s rn was is db =
     (if was = is then Inr db
      else case is of
        Some i \<Rightarrow> memoryBranchNotice now p s rn ''occurred'' i db
      | None \<Rightarrow> (case was of Some i \<Rightarrow> memoryBranchNotice now p s rn ''recovered'' i db | None \<Rightarrow> Inr db))"

definition issue_json :: "branch_issue \<Rightarrow> json" where
  "issue_json i = JObj [(''code'', JStr (is_code i)), (''message'', JStr (is_message i))]"

definition saved :: "timestamp \<Rightarrow> json \<Rightarrow> string \<Rightarrow> branch_status \<Rightarrow> branch_checkpoint \<Rightarrow> branch_row \<Rightarrow> branch_row" where
  "saved now raw digest st nx b = b\<lparr>br_state := Some raw, br_revision := br_revision b + 1, br_checkpoint_hash := digest,
     br_status := st, br_retry_at := cp_retry_at nx, br_issue := cp_issue nx, br_updated_at := now\<rparr>"

definition saveNext :: "mem_host \<Rightarrow> timestamp \<Rightarrow> string \<Rightarrow> int \<Rightarrow> int \<Rightarrow> json \<Rightarrow> branch_status \<Rightarrow> branch_checkpoint \<Rightarrow> memory_branch
    \<Rightarrow> 'd db \<Rightarrow> err + ('d db \<times> memory_branch)" where
  "saveNext mh now p s expected raw st nx b db =
     rbind (case mbr_state b of None \<Rightarrow> Inr zero_checkpoint
       | Some v \<Rightarrow> require (decodeCheckpoint mh v) (ErrStorage ''cannot unmarshal'')) (\<lambda>old.
     rbind (check_progress old nx) (\<lambda>_.
     rbind (complete_chunk now p s st (mbr_chunk b) old nx db) (\<lambda>db1.
     rbind (issue_notice now p s (expected + 1) (standing_issue mh b old) (cp_issue nx) db1) (\<lambda>db2.
     rbind (case cp_issue nx of None \<Rightarrow> Inr () | Some i \<Rightarrow> jsonb_param (issue_json i)) (\<lambda>_.
       let db3 = upd_branch p s (saved now raw (branchHash mh (canonicalBranchJSON mh raw)) st nx) db2 in
       rbind (readMemoryBranch db3 p s) (\<lambda>b'. Inr (db3, b')))))))"

definition SaveMemoryBranch ::
  "mem_host \<Rightarrow> timestamp \<Rightarrow> string \<Rightarrow> int \<Rightarrow> int \<Rightarrow> int \<Rightarrow> json option \<Rightarrow> 'd db \<Rightarrow> err + ('d db \<times> memory_branch)" where
  "SaveMemoryBranch mh now p gen s expected body db =
     rbind (require body (ErrBadRequest ''checkpoint must be JSON'')) (\<lambda>raw.
     rbind (require (decodeCheckpoint mh raw) (ErrBadRequest ''malformed checkpoint'')) (\<lambda>nx.
     rbind (check_checkpoint mh nx) (\<lambda>st.
     rbind (requireMemoryGeneration now p gen db) (\<lambda>_.
     rbind (readMemoryBranch db p s) (\<lambda>b.
     rbind (require (branch_of db p s) (ErrStorage ''no rows in result set'')) (\<lambda>row.
       if mbr_revision b = expected + 1 \<and> branchHash mh (canonicalBranchJSON mh raw) = br_checkpoint_hash row then Inr (db, b)
       else if mbr_revision b \<noteq> expected then Inl (ErrMemoryConflict ''stale branch revision'')
       else if mc_status (mbr_chunk b) \<noteq> CPreparing then Inl (ErrMemoryConflict ''branch already settled'')
       else saveNext mh now p s expected raw st nx b db))))))"

section \<open>Recovery\<close>

text \<open>\<^verbatim>\<open>put\<close>: the field is set, an earlier one replaced.\<close>

definition put :: "string \<Rightarrow> json \<Rightarrow> jobj \<Rightarrow> jobj" where
  "put k v m = (k, v) # filter (\<lambda>kv. fst kv \<noteq> k) m"

text \<open>\<^verbatim>\<open>_ = json.Unmarshal(st[k], &x)\<close> with one number field: zero on every failure.\<close>

definition int_at :: "string \<Rightarrow> json option \<Rightarrow> int" where
  "int_at k j = (case j of Some (JObj m) \<Rightarrow> (case dec_int m k of Some n \<Rightarrow> n | None \<Rightarrow> 0) | _ \<Rightarrow> 0)"

definition token_limit :: "jobj \<Rightarrow> int" where
  "token_limit st = (case map_of st ''execution_budget'' of
     None \<Rightarrow> int_at ''maxTokens'' (map_of st ''policy'')
   | Some JNull \<Rightarrow> int_at ''maxTokens'' (map_of st ''policy'')
   | Some v \<Rightarrow> int_at ''tokens'' (Some v))"

definition used_tokens :: "jobj \<Rightarrow> int" where
  "used_tokens st = (case map_of st ''tokens'' of None \<Rightarrow> 0 | Some v \<Rightarrow> (case json_int64 v of Some n \<Rightarrow> n | None \<Rightarrow> 0))"

definition reset_review :: "jobj \<Rightarrow> jobj" where
  "reset_review st = put ''interruptions'' (jint 0) (put ''failures'' (jint 0) (put ''in_flight'' JNull
     (put ''candidate_read'' (JArr []) (put ''source_read'' (JArr []) (put ''final'' JNull (put ''review'' JNull st))))))"

definition plan_rebranch :: "int \<Rightarrow> int \<Rightarrow> jobj \<Rightarrow> err + jobj" where
  "plan_rebranch rounds tokens st =
     (let limit = token_limit st;
          remaining = i64 (i64 (limit + int_at ''tokens'' (map_of st ''budget_extension'')) - used_tokens st);
          restart = (if 0 < limit \<and> 0 < remaining then i64 (tokens + remaining) else tokens) in
      if 0 < limit \<and> restart = 0 then Inl (ErrBadRequest ''exhausted token cap requires additional_tokens'')
      else Inr (put ''retry_at'' JNull (put ''pause_reason'' (JStr ''rebranch_requested'')
             (put ''restart_budget'' (JObj [(''rounds'', jint rounds), (''tokens'', jint restart)])
             (put ''rebranch_requested'' (JBool True) st)))))"

definition plan_resume :: "mem_host \<Rightarrow> int \<Rightarrow> int \<Rightarrow> int \<Rightarrow> jobj \<Rightarrow> err + jobj" where
  "plan_resume mh ns rounds tokens st =
     (let ext = map_of st ''budget_extension''; limit = token_limit st in
      if map_of st ''pause_reason'' = Some (JStr ''private_tools_missing'')
      then Inl (ErrBadRequest ''frozen tools cannot change; use rebranch'')
      else if 0 < limit \<and> i64 (i64 (limit + int_at ''tokens'' ext) + tokens) \<le> used_tokens st
      then Inl (ErrBadRequest ''exhausted token cap requires additional_tokens'')
      else Inr (put ''retry_at'' (JStr (mh_fmt_time mh ns)) (put ''pause_reason'' (JStr ''resume_requested'')
             (put ''rebranch_requested'' (JBool False)
             (put ''budget_extension'' (JObj [(''rounds'', jint (i64 (int_at ''rounds'' ext + rounds))),
                (''tokens'', jint (i64 (int_at ''tokens'' ext + tokens)))]) st)))))"

definition recovery_note :: "string \<Rightarrow> int \<Rightarrow> int \<Rightarrow> json" where
  "recovery_note mode rounds tokens = JObj [(''role'', JStr ''user''), (''content'', JStr (
     ''[Memory recovery selected by the main secretary] mode='' @ mode @ '', additional_rounds='' @ go_int rounds
     @ '', additional_tokens='' @ go_int tokens
     @ ''. This is a finite execution grant, not a change to your draft. Read source and candidate again and open a new confirmation.''))]"

definition add_note :: "json \<Rightarrow> jobj \<Rightarrow> jobj" where
  "add_note note st = put ''messages'' (JArr ((case map_of st ''messages'' of Some (JArr ms) \<Rightarrow> ms | _ \<Rightarrow> []) @ [note])) st"

text \<open>The wall clock is read in nanoseconds for the document, in microseconds for the column.\<close>

definition resumeMemory :: "mem_host \<Rightarrow> timestamp \<Rightarrow> int \<Rightarrow> string \<Rightarrow> jobj \<Rightarrow> 'd db \<Rightarrow> err + ('d db \<times> jobj)" where
  "resumeMemory mh now ns p req db =
     rbind (parseMemoryResumeRequest req) (\<lambda>(chunk, rounds, tokens, mode).
     rbind (case readMemoryBranch db p chunk of Inl e \<Rightarrow> Inl (ErrBadRequest ''memory branch not found'') | Inr b \<Rightarrow> Inr b) (\<lambda>b.
     rbind (case mbr_state b of
         Some (JObj st) \<Rightarrow> if map_of st ''status'' = Some (JStr ''paused'') \<and> mc_status (mbr_chunk b) = CPreparing then Inr st
           else Inl (ErrBadRequest ''memory.resume requires a paused unfinished branch'')
       | _ \<Rightarrow> Inl (ErrBadRequest ''memory.resume requires a paused unfinished branch'')) (\<lambda>st.
     rbind (if mode = ''rebranch'' then plan_rebranch rounds tokens (reset_review st)
            else plan_resume mh ns rounds tokens (reset_review st)) (\<lambda>st'.
       Inr (upd_branch p chunk (\<lambda>r. r\<lparr>br_state := Some (JObj (add_note (recovery_note mode rounds tokens) st')),
              br_revision := br_revision r + 1, br_checkpoint_hash := [],
              br_retry_at := (if mode = ''rebranch'' then None else Some (ns div 1000)), br_updated_at := now\<rparr>) db,
            [(''chunk_seq'', jint chunk), (''mode'', JStr mode), (''additional_rounds'', jint rounds),
             (''additional_tokens'', jint tokens), (''waiting_for_parent_snapshot'', JBool (mode = ''rebranch''))])))))"

text \<open>A recovery writes its branch and nothing else.\<close>

lemma resumeMemory_branch:
  assumes "resumeMemory mh now ns p req db = Inr (db', resp)"
  obtains s f where "db' = upd_branch p s f db" "\<And>b. branch_key (f b) = branch_key b"
  using assms by (auto simp: resumeMemory_def rbind_eq_Inr split: prod.splits)

lemma resumeMemory_frame: "resumeMemory mh now ns p req db = Inr (db', resp) \<Longrightarrow> \<exists>bs. db' = db\<lparr>branches := bs\<rparr>"
  by (erule resumeMemory_branch) (auto simp: upd_branch_def)

end
