(* ===== verification/Paging.thy ===== *)
theory Paging
  imports Sumi_Prelude "HOL-Library.Product_Lexorder"
begin

text \<open>
  Cursor paging over a keyed set of rows: a page is the first \<open>n\<close> rows after the cursor in key
  order, and the caller moves the cursor to the last row it was given and stops at a short page.
  \<open>walk\<close> is that loop; it ends, and what it returns is the whole selection in key order. The
  rotation of persona pages puts the ids after the cursor first and then wraps.
\<close>

definition after :: "'k::linorder \<Rightarrow> ('r \<Rightarrow> 'k) \<Rightarrow> 'r list \<Rightarrow> 'r list" where
  "after c k rs = filter (\<lambda>r. c < k r) (sort_key k rs)"

definition page :: "nat \<Rightarrow> ('r \<Rightarrow> 'k::linorder) \<Rightarrow> 'r list \<Rightarrow> 'k \<Rightarrow> 'r list" where
  "page n k rs c = take n (after c k rs)"

text \<open>\<^verbatim>\<open>ORDER BY (id > cursor) DESC, id\<close>.\<close>

definition rotated :: "'k::linorder \<Rightarrow> 'k list \<Rightarrow> 'k list" where
  "rotated c ks = filter (\<lambda>k. c < k) (sort ks) @ filter (\<lambda>k. \<not> c < k) (sort ks)"

lemma after_sorted: "sorted (map k (after c k rs))"
  by (simp add: after_def sorted_filter)

lemma after_after:
  assumes "keyed k rs" "after c k rs = us @ [r] @ vs"
  shows "after (k r) k rs = vs"
proof -
  let ?l = "sort_key k rs"
  have d: "distinct (map k (after c k rs))"
    using assms(1) by (auto simp: after_def keyed_def distinct_map intro: inj_on_subset)
  have lt: "k u < k r" if "u \<in> set us" for u
    using that after_sorted [of k c rs] d by (auto simp: assms(2) sorted_append order.strict_iff_order distinct_map rev_image_eqI)
  have gt: "k r < k v" if "v \<in> set vs" for v
    using that after_sorted [of k c rs] d by (auto simp: assms(2) sorted_append order.strict_iff_order rev_image_eqI)
  have "c < k r" using arg_cong [OF assms(2), of set] by (auto simp: after_def set_eq_iff)
  then have "after (k r) k rs = filter (\<lambda>x. k r < k x) (after c k rs)"
    by (auto simp: after_def intro!: filter_cong)
  also have "\<dots> = vs" using lt gt by (auto simp: assms(2) filter_empty_conv filter_id_conv dest: less_asym)
  finally show ?thesis .
qed

lemma page_next:
  assumes "keyed k rs" "page n k rs c \<noteq> []"
  shows "after c k rs = page n k rs c @ after (k (last (page n k rs c))) k rs"
proof -
  let ?p = "page n k rs c"
  have "after c k rs = butlast ?p @ [last ?p] @ drop n (after c k rs)"
    using append_take_drop_id [of n "after c k rs"] append_butlast_last_id [OF assms(2)]
    unfolding page_def by (metis append.assoc)
  from after_after [OF assms(1) this] show ?thesis by (simp add: page_def)
qed

text \<open>The cursor moves past every row it has seen.\<close>

lemma page_moves:
  assumes "page n k rs c \<noteq> []"
  shows "length (after (k (last (page n k rs c))) k rs) < length (after c k rs)"
proof -
  let ?l = "last (page n k rs c)"
  have "?l \<in> set (take n (after c k rs))" using last_in_set [OF assms] unfolding page_def .
  then have l: "?l \<in> set (after c k rs)" by (rule in_set_takeD)
  then have "c < k ?l" by (simp add: after_def)
  then have "after (k ?l) k rs = filter (\<lambda>x. k ?l < k x) (after c k rs)" by (auto simp: after_def intro!: filter_cong)
  moreover have "length (filter (\<lambda>x. k ?l < k x) (after c k rs)) < length (after c k rs)" using l by (rule length_filter_less) simp
  ultimately show ?thesis by simp
qed

text \<open>The loop of the caller.\<close>

function (sequential) walk :: "nat \<Rightarrow> ('r \<Rightarrow> 'k::linorder) \<Rightarrow> 'r list \<Rightarrow> 'k \<Rightarrow> 'r list" where
  "walk n k rs c = (let p = page n k rs c in if p = [] \<or> length p < n then p else p @ walk n k rs (k (last p)))"
  by pat_completeness auto

termination
  by (relation "measure (\<lambda>(n, k, rs, c). length (after c k rs))") (simp_all add: page_moves)

declare walk.simps [simp del]

lemma walk_all: "keyed k rs \<Longrightarrow> 0 < n \<Longrightarrow> walk n k rs c = after c k rs"
proof (induction n k rs c rule: walk.induct)
  case (1 n k rs c)
  let ?p = "page n k rs c"
  show ?case
  proof (cases "?p = [] \<or> length ?p < n")
    case True
    then have "?p = after c k rs" using 1(3) by (auto simp: page_def)
    with True show ?thesis by (subst walk.simps) (simp add: Let_def)
  next
    case False
    with 1 have "walk n k rs c = ?p @ after (k (last ?p)) k rs" by (subst walk.simps) (simp add: Let_def)
    with page_next [OF 1(2), of n c] False show ?thesis by simp
  qed
qed

text \<open>
  An answer that names its own continuation: the caller presents what a page returned as the next
  request until no page says more. \<open>follow\<close> is that loop, with a bound on the number of requests; \<open>None\<close>
  is a bound that was too small. The law of the provider is that a page and what its continuation
  answers are the answer, and that each continuation asks for less.
\<close>

fun follow :: "('c \<Rightarrow> 'r list \<times> 'c option) \<Rightarrow> nat \<Rightarrow> 'c \<Rightarrow> 'r list option" where
  "follow f 0 c = None"
| "follow f (Suc n) c = (case f c of
     (rs, None) \<Rightarrow> Some rs
   | (rs, Some d) \<Rightarrow> map_option ((@) rs) (follow f n d))"

locale continued_pages =
  fixes valid :: "'x \<Rightarrow> 'c \<Rightarrow> bool"
    and answer :: "'x \<Rightarrow> 'c \<Rightarrow> 'r list"
    and page_of :: "'x \<Rightarrow> 'c \<Rightarrow> 'r list \<times> 'c option"
    and left :: "'x \<Rightarrow> 'c \<Rightarrow> nat"
  assumes last_page: "valid x c \<Longrightarrow> page_of x c = (rs, None) \<Longrightarrow> answer x c = rs"
    and next_page: "valid x c \<Longrightarrow> page_of x c = (rs, Some d) \<Longrightarrow>
      answer x c = rs @ answer x d \<and> valid x d \<and> left x d < left x c"
begin

lemma follow_answer: "valid x c \<Longrightarrow> left x c < n \<Longrightarrow> follow (page_of x) n c = Some (answer x c)"
proof (induction n arbitrary: c)
  case (Suc n)
  obtain rs nx where f: "page_of x c = (rs, nx)" by fastforce
  show ?case
  proof (cases nx)
    case None
    with f last_page [OF Suc.prems(1)] show ?thesis by simp
  next
    case (Some d)
    with next_page [OF Suc.prems(1)] f have "answer x c = rs @ answer x d" "valid x d" "left x d < n"
      using Suc.prems(2) by auto
    with Suc.IH [of d] f Some show ?thesis by simp
  qed
qed simp

end

lemma rotated_set: "set (rotated c ks) = set ks"
  by (auto simp: rotated_def)

end
