(* ===== verification/Core_History.thy ===== *)
theory Core_History
  imports Core_Terminal Core_Branch Paging
begin

text \<open>
  The reader of the stored record (\<^verbatim>\<open>history.go\<close>): the arguments of \<^verbatim>\<open>conversation_history\<close> with
  their checks, the literal search that scans a bounded number of records per call, and the read that
  pages through original events and cuts long ones into fragments. A text is a list of bytes; its
  \<open>runes\<close> are what the code counts. The JSON encoder and the rendering of times are arguments, as is
  the column \<^verbatim>\<open>created_at\<close> of an event, which the table fills by itself and no other operation reads.
\<close>

section \<open>Constants and arguments\<close>

definition maxReadJSONChars :: nat where "maxReadJSONChars = 16 * 1024"

definition journalEventFormat :: string where "journalEventFormat = ''journal_event_v1''"

definition historySearchScanRecords :: nat where "historySearchScanRecords = 2000"

definition historySearchBatch :: nat where "historySearchBatch = 256"

text \<open>
  The library: \<^verbatim>\<open>json.Encoder\<close> without HTML escaping and without its final newline (\<open>None\<close>: it refuses
  the value), RFC 3339 times, and the stored creation time of an event.
\<close>

record history_host =
  hh_encode :: "jobj \<Rightarrow> string option"
  hh_fmt_time :: "timestamp \<Rightarrow> string"
  hh_created_at :: "string \<Rightarrow> nat \<Rightarrow> timestamp"

record historyArgs =
  ha_operation :: string
  ha_query :: "string option"
  ha_seq :: "int option"
  ha_chunkSeq :: "int option"
  ha_fromSeq :: "int option"
  ha_afterSeq :: "int option"
  ha_contentOffset :: "int option"
  ha_limit :: nat

text \<open>A field that is absent, or of the wanted type, or refused (\<open>Inl\<close>).\<close>

definition getStr :: "jobj \<Rightarrow> string \<Rightarrow> err + string option" where
  "getStr m k = (case map_of m k of
     None \<Rightarrow> Inr None
   | Some (JStr s) \<Rightarrow> Inr (Some s)
   | Some _ \<Rightarrow> Inl (ErrBadRequest (k @ '' must be a string'')))"

definition whole_number :: "rat \<Rightarrow> bool" where
  "whole_number f \<longleftrightarrow> f = of_int (go_int64 f)"

definition getInt :: "jobj \<Rightarrow> string \<Rightarrow> err + int option" where
  "getInt m k = (case map_of m k of
     None \<Rightarrow> Inr None
   | Some (JNum f) \<Rightarrow> if whole_number f then Inr (Some (go_int64 f)) else Inl (ErrBadRequest (k @ '' must be an integer''))
   | Some _ \<Rightarrow> Inl (ErrBadRequest (k @ '' must be an integer'')))"

definition getLimit :: "jobj \<Rightarrow> err + nat" where
  "getLimit m = (let bad = Inl (ErrBadRequest ''limit must be an integer in [1, 20]'') in
     case map_of m ''limit'' of
       None \<Rightarrow> Inr 5
     | Some (JNum f) \<Rightarrow> if whole_number f \<and> 1 \<le> f \<and> f \<le> 20 then Inr (nat (go_int64 f)) else bad
     | Some _ \<Rightarrow> bad)"

definition check_args :: "historyArgs \<Rightarrow> err + unit" where
  "check_args a =
     (let op = ha_operation a; given = (\<lambda>x. x \<noteq> None) in
      rbind (guard (op = ''search'' \<or> op = ''read'') (ErrBadRequest ''operation must be search or read'')) (\<lambda>_.
      rbind (guard ((op = ''search'') = (ha_query a \<noteq> None))
               (ErrBadRequest ''search requires query and read must not carry one'')) (\<lambda>_.
      rbind (guard (ha_query a \<noteq> Some []) (ErrBadRequest ''search query must not be empty'')) (\<lambda>_.
      rbind (guard (ha_contentOffset a \<noteq> None \<longrightarrow> op = ''read'' \<and> ha_seq a \<noteq> None)
               (ErrBadRequest ''content_offset is only valid with read + seq'')) (\<lambda>_.
      rbind (guard (length (filter given [ha_seq a, ha_chunkSeq a, ha_fromSeq a]) \<le> 1)
               (ErrBadRequest ''seq, chunk_seq and from_seq are alternative locators'')) (\<lambda>_.
      guard (ha_seq a = None \<or> ha_afterSeq a = None) (ErrBadRequest ''seq cannot combine with after_seq'')))))))"

definition parseHistoryArgs :: "jobj \<Rightarrow> err + historyArgs" where
  "parseHistoryArgs req =
     rbind (getStr req ''query'') (\<lambda>query.
     rbind (getInt req ''seq'') (\<lambda>sq.
     rbind (getInt req ''chunk_seq'') (\<lambda>chunk.
     rbind (getInt req ''from_seq'') (\<lambda>frm.
     rbind (getInt req ''after_seq'') (\<lambda>aft.
     rbind (getInt req ''content_offset'') (\<lambda>off.
     rbind (getLimit req) (\<lambda>cap.
       let a = \<lparr>ha_operation = str_field req ''operation'', ha_query = query, ha_seq = sq, ha_chunkSeq = chunk,
                ha_fromSeq = frm, ha_afterSeq = aft, ha_contentOffset = off, ha_limit = cap\<rparr> in
       rbind (check_args a) (\<lambda>_. Inr a))))))))"

section \<open>One record\<close>

text \<open>The encoder writes the keys of a map in order.\<close>

definition event_doc :: "history_host \<Rightarrow> event_row \<Rightarrow> jobj" where
  "event_doc hh e = [(''created_at'', JStr (hh_fmt_time hh (hh_created_at hh (e_persona_id e) (e_seq e)))),
     (''kind'', JStr (e_kind e)), (''payload'', JObj (e_payload e)), (''seq'', jnat (e_seq e)), (''turn_id'', JStr (e_turn_id e))]"

definition journalEventJSON :: "history_host \<Rightarrow> event_row \<Rightarrow> err + string" where
  "journalEventJSON hh e = require (hh_encode hh (event_doc hh e)) (ErrStorage ''render journal event'')"

text \<open>\<^verbatim>\<open>strings.Index\<close>: the byte position of the first occurrence.\<close>

fun str_index :: "string \<Rightarrow> string \<Rightarrow> nat option" where
  "str_index [] sub = (if sub = [] then Some 0 else None)"
| "str_index (c # cs) sub = (if has_prefix (c # cs) sub then Some 0 else map_option Suc (str_index cs sub))"

definition str_contains :: "string \<Rightarrow> string \<Rightarrow> bool" where
  "str_contains s sub \<longleftrightarrow> str_index s sub \<noteq> None"

definition indexOf :: "string \<Rightarrow> string \<Rightarrow> int" where
  "indexOf s sub = (case str_index s sub of None \<Rightarrow> - 1 | Some n \<Rightarrow> int (length (runes (take n s))))"

text \<open>\<^verbatim>\<open>string(rs[a:b])\<close> of the runes of a text; a byte that was no part of a rune is U+FFFD by then.\<close>

definition rune_slice :: "string \<Rightarrow> nat \<Rightarrow> nat \<Rightarrow> string" where
  "rune_slice s a b = concat (map json_text (take (b - a) (drop a (runes s))))"

record searchHit =
  sh_event :: event_row
  sh_text :: string
  sh_source :: string

definition event_text :: "event_row \<Rightarrow> string option" where
  "event_text e = (case map_of (e_payload e) ''text'' of Some (JStr t) \<Rightarrow> Some t | _ \<Rightarrow> None)"

definition matchRecord :: "history_host \<Rightarrow> event_row \<Rightarrow> string \<Rightarrow> err + searchHit option" where
  "matchRecord hh e q =
     (let in_json = rbind (journalEventJSON hh e) (\<lambda>s. Inr
            (if str_contains s q then Some \<lparr>sh_event = e, sh_text = s, sh_source = journalEventFormat\<rparr> else None)) in
      case event_text e of
        Some t \<Rightarrow> if str_contains t q then Inr (Some \<lparr>sh_event = e, sh_text = t, sh_source = ''text''\<rparr>) else in_json
      | None \<Rightarrow> in_json)"

section \<open>Search\<close>

abbreviation seq_int :: "event_row \<Rightarrow> int" where
  "seq_int e \<equiv> int (e_seq e)"

record scan =
  sc_cursor :: int
  sc_hits :: "searchHit list"
  sc_scanned :: nat
  sc_budget :: bool

text \<open>One batch; the flag is \<^verbatim>\<open>break scan\<close>.\<close>

fun scan_batch :: "history_host \<Rightarrow> string \<Rightarrow> nat \<Rightarrow> event_row list \<Rightarrow> scan \<Rightarrow> err + scan \<times> bool" where
  "scan_batch hh q cap [] s = Inr (s, False)"
| "scan_batch hh q cap (e # es) s =
     (if historySearchScanRecords \<le> sc_scanned s then Inr (s\<lparr>sc_budget := True\<rparr>, True)
      else let s1 = s\<lparr>sc_scanned := sc_scanned s + 1, sc_cursor := seq_int e\<rparr> in
        case matchRecord hh e q of
          Inl x \<Rightarrow> Inl x
        | Inr None \<Rightarrow> scan_batch hh q cap es s1
        | Inr (Some h) \<Rightarrow>
            (let s2 = s1\<lparr>sc_hits := sc_hits s1 @ [h]\<rparr> in
             if cap < length (sc_hits s2) then Inr (s2, True) else scan_batch hh q cap es s2))"

definition history_batch :: "'d db \<Rightarrow> string \<Rightarrow> int \<Rightarrow> event_row list" where
  "history_batch db p c = page historySearchBatch seq_int (events_of db p) c"

lemma scan_batch_ConsE:
  assumes "scan_batch hh q cap (e # es) s = Inr (s', False)"
  obtains s1 where "sc_cursor s1 = seq_int e" "scan_batch hh q cap es s1 = Inr (s', False)"
proof (cases "matchRecord hh e q")
  case (Inl x)
  with assms show thesis by (simp add: Let_def split: if_splits)
next
  case (Inr h)
  then show thesis using assms by (cases h) (auto simp: Let_def split: if_splits intro: that [rotated])
qed

lemma scan_batch_cursor:
  "scan_batch hh q cap es s = Inr (s', False) \<Longrightarrow> sc_cursor s' = (if es = [] then sc_cursor s else seq_int (last es))"
proof (induction es arbitrary: s)
  case (Cons e es)
  from Cons.prems obtain s1 where "sc_cursor s1 = seq_int e" "scan_batch hh q cap es s1 = Inr (s', False)"
    by (rule scan_batch_ConsE)
  with Cons.IH show ?case by simp
qed simp

function scan_loop :: "history_host \<Rightarrow> 'd db \<Rightarrow> string \<Rightarrow> string \<Rightarrow> nat \<Rightarrow> scan \<Rightarrow> err + scan" where
  "scan_loop hh db p q cap s =
     (let b = history_batch db p (sc_cursor s) in
      case scan_batch hh q cap b s of
        Inl e \<Rightarrow> Inl e
      | Inr (s', stop) \<Rightarrow> if stop \<or> length b < historySearchBatch then Inr s' else scan_loop hh db p q cap s')"
  by pat_completeness auto

termination
proof (relation "measure (\<lambda>(hh, db, p, q, cap, s). length (after (sc_cursor s) seq_int (events_of db p)))", simp)
  fix hh db p q cap s b r s' stop
  assume b: "b = history_batch db p (sc_cursor s)" and r: "scan_batch hh q cap b s = Inr r" "(s', stop) = r"
    and go: "\<not> (stop \<or> length b < historySearchBatch)"
  from go have "b \<noteq> []" by (auto simp: historySearchBatch_def)
  moreover have "scan_batch hh q cap b s = Inr (s', False)" using r go by auto
  ultimately have "sc_cursor s' = seq_int (last b)" "b \<noteq> []" using scan_batch_cursor by fastforce+
  then show "((hh, db, p, q, cap, s'), (hh, db, p, q, cap, s))
      \<in> measure (\<lambda>(hh, db, p, q, cap, s). length (after (sc_cursor s) seq_int (events_of db p)))"
    using page_moves [of historySearchBatch seq_int "events_of db p" "sc_cursor s"]
    by (simp add: b history_batch_def)
qed

declare scan_loop.simps [simp del]

record search_page =
  sp_hits :: "searchHit list"
  sp_next :: "int option"
  sp_scanned :: nat
  sp_budget :: bool

definition historySearch :: "history_host \<Rightarrow> 'd db \<Rightarrow> string \<Rightarrow> historyArgs \<Rightarrow> err + search_page" where
  "historySearch hh db p a =
     (let c = (case ha_afterSeq a of None \<Rightarrow> 0 | Some n \<Rightarrow> n); cap = ha_limit a in
      rbind (scan_loop hh db p (the (ha_query a)) cap \<lparr>sc_cursor = c, sc_hits = [], sc_scanned = 0, sc_budget = False\<rparr>) (\<lambda>s.
        let (hits, nxt) =
              (if cap < length (sc_hits s)
               then (take cap (sc_hits s), Some (seq_int (sh_event (sc_hits s ! (cap - 1)))))
               else if sc_budget s then (sc_hits s, Some (sc_cursor s)) else (sc_hits s, None)) in
        Inr \<lparr>sp_hits = hits, sp_next = nxt, sp_scanned = sc_scanned s, sp_budget = sc_budget s\<rparr>))"

definition source_json :: "event_row \<Rightarrow> json" where
  "source_json e = JObj [(''seq'', jnat (e_seq e)), (''turn_id'', JStr (e_turn_id e)), (''kind'', JStr (e_kind e))]"

definition snippet_start :: "searchHit \<Rightarrow> string \<Rightarrow> nat" where
  "snippet_start h q = nat (max 0 (max 0 (indexOf (sh_text h) q) - 80))"

definition snippet_end :: "searchHit \<Rightarrow> string \<Rightarrow> nat" where
  "snippet_end h q = min (snippet_start h q + 500) (length (runes (sh_text h)))"

definition hit_json :: "history_host \<Rightarrow> string \<Rightarrow> searchHit \<Rightarrow> json" where
  "hit_json hh q h =
     (let e = sh_event h; a = snippet_start h q; b = snippet_end h q in
      JObj [(''source'', source_json e),
        (''timestamp'', JStr (hh_fmt_time hh (hh_created_at hh (e_persona_id e) (e_seq e)))),
        (''snippet'', JStr (rune_slice (sh_text h) a b)), (''snippet_source'', JStr (sh_source h)),
        (''snippet_char_start'', jnat a), (''snippet_truncated'', JBool (0 < a \<or> b < length (runes (sh_text h))))])"

section \<open>Read\<close>

datatype read_msg =
    Whole event_row string
  | Fragment event_row string nat nat nat

record read_page =
  rp_messages :: "read_msg list"
  rp_next_after :: "int option"
  rp_next_read :: "(nat \<times> nat) option"

text \<open>\<^verbatim>\<open>upper IS NULL OR seq <= upper\<close>.\<close>

definition upto_seq :: "int option \<Rightarrow> event_row \<Rightarrow> bool" where
  "upto_seq upper e \<longleftrightarrow> (case upper of None \<Rightarrow> True | Some u \<Rightarrow> seq_int e \<le> u)"

definition range_rows :: "'d db \<Rightarrow> string \<Rightarrow> int \<Rightarrow> int option \<Rightarrow> event_row list" where
  "range_rows db p frm upper = filter (\<lambda>e. frm \<le> seq_int e \<and> upto_seq upper e) (sort_key seq_int (events_of db p))"

text \<open>The first and the last row a chunk names, then the row the other locators start from.\<close>

definition chunk_range :: "'d db \<Rightarrow> string \<Rightarrow> historyArgs \<Rightarrow> err + int \<times> int option" where
  "chunk_range db p a = (case ha_chunkSeq a of
     None \<Rightarrow> Inr (1, None)
   | Some n \<Rightarrow> (case chunk_at db p n of
       None \<Rightarrow> Inl (ErrBadRequest (''memory chunk '' @ go_int n @ '' not found''))
     | Some c \<Rightarrow> Inr (int (mc_first_seq c), Some (int (mc_last_seq c)))))"

definition read_from :: "historyArgs \<Rightarrow> int \<Rightarrow> int" where
  "read_from a first =
     (let frm = (case ha_fromSeq a of None \<Rightarrow> first | Some n \<Rightarrow> n) in
      case ha_afterSeq a of None \<Rightarrow> frm | Some n \<Rightarrow> if frm < i64 (n + 1) then i64 (n + 1) else frm)"

definition read_range :: "'d db \<Rightarrow> string \<Rightarrow> historyArgs \<Rightarrow> err + int \<times> int option" where
  "read_range db p a = rbind (chunk_range db p a) (\<lambda>(first, upper). Inr (read_from a first, upper))"

definition exact_event :: "'d db \<Rightarrow> string \<Rightarrow> int \<Rightarrow> err + event_row" where
  "exact_event db p n = require (find (\<lambda>e. seq_int e = n) (events_of db p)) (ErrBadRequest ''journal event not found'')"

definition read_rows :: "'d db \<Rightarrow> string \<Rightarrow> historyArgs \<Rightarrow> err + event_row list \<times> int option" where
  "read_rows db p a = (case ha_seq a of
     Some n \<Rightarrow> rbind (exact_event db p n) (\<lambda>e. Inr ([e], None))
   | None \<Rightarrow> rbind (read_range db p a) (\<lambda>(frm, upper). Inr (take (ha_limit a + 1) (range_rows db p frm upper), upper)))"

text \<open>A fragment of one record: from the offset, as much as a page holds. A negative offset is out of the slice's bounds.\<close>

definition fragment_of :: "event_row \<Rightarrow> string \<Rightarrow> int \<Rightarrow> err + read_msg \<times> (nat \<times> nat) option" where
  "fragment_of e s off =
     (let total = length (runes s); stop = min (off + int maxReadJSONChars) (int total) in
      if off < 0 then Inl (ErrPanic ''slice bounds out of range'')
      else Inr (Fragment e (rune_slice s (nat off) (nat stop)) (nat off) (nat stop) total,
                if stop < int total then Some (e_seq e, nat stop) else None))"

fun read_loop :: "history_host \<Rightarrow> 'd db \<Rightarrow> string \<Rightarrow> historyArgs \<Rightarrow> int option \<Rightarrow> nat \<Rightarrow> event_row list
     \<Rightarrow> read_msg list \<Rightarrow> nat \<Rightarrow> nat option \<Rightarrow> err + read_page" where
  "read_loop hh db p a upper i [] msgs chars done' = Inr \<lparr>rp_messages = msgs, rp_next_after = None, rp_next_read = None\<rparr>"
| "read_loop hh db p a upper i (e # es) msgs chars done' =
     rbind (journalEventJSON hh e) (\<lambda>s.
       let total = length (runes s); off = (case ha_contentOffset a of None \<Rightarrow> 0 | Some n \<Rightarrow> n) in
       if int total < off then
         Inl (ErrBadRequest (''content_offset '' @ go_int off @ '' beyond record length '' @ itoa total))
       else if ha_limit a \<le> i \<or> (off = 0 \<and> msgs \<noteq> [] \<and> maxReadJSONChars < chars + total) then
         Inr \<lparr>rp_messages = msgs, rp_next_after = map_option int done', rp_next_read = None\<rparr>
       else if off = 0 \<and> chars + total \<le> maxReadJSONChars then
         read_loop hh db p a upper (i + 1) es (msgs @ [Whole e s]) (chars + total) (Some (e_seq e))
       else rbind (fragment_of e s off) (\<lambda>(m, cont).
         let more = es \<noteq> [] \<or> (ha_seq a = None \<and> range_rows db p (seq_int e + 1) upper \<noteq> []) in
         Inr \<lparr>rp_messages = msgs @ [m], rp_next_after = (if more then Some (seq_int e) else None), rp_next_read = cont\<rparr>))"

definition historyRead :: "history_host \<Rightarrow> 'd db \<Rightarrow> string \<Rightarrow> historyArgs \<Rightarrow> err + read_page" where
  "historyRead hh db p a = rbind (read_rows db p a) (\<lambda>(es, upper). read_loop hh db p a upper 0 es [] 0 None)"

text \<open>The messages as they are reported; a whole event is embedded as the document it encodes.\<close>

definition read_json :: "history_host \<Rightarrow> read_msg \<Rightarrow> json" where
  "read_json hh m = (case m of
     Whole e s \<Rightarrow> JObj [(''source'', source_json e), (''event'', JObj (event_doc hh e)), (''content_complete'', JBool True)]
   | Fragment e f a b n \<Rightarrow>
       JObj [(''source'', source_json e),
         (''timestamp'', JStr (hh_fmt_time hh (hh_created_at hh (e_persona_id e) (e_seq e)))),
         (''event_json_fragment'', JStr f),
         (''event_json_range'', JObj [(''start_char'', jnat a), (''end_char'', jnat b), (''total_chars'', jnat n),
            (''ends_event'', JBool (b = n))]),
         (''content_complete'', JBool False), (''resume_after_seq'', jnat (e_seq e))])"

section \<open>The tool\<close>

definition content_complete_meaning :: string where
  "content_complete_meaning =
     ''entire stored event representation returned in this call; does not imply provider vision support''"

definition fragment_continuation :: string where
  "fragment_continuation = ''follow next_read to the end of this event before resuming the original query with ''
     @ ''after_seq=resume_after_seq; concatenated fragments form the journal_event_v1 JSON''"

definition search_coverage :: string where
  "search_coverage = ''literal case-sensitive substring of each record's stored text field or of its journal_event_v1 JSON ''
     @ ''exactly as read returns it (sorted keys, no added spaces); at most 2000 records are scanned per call, ''
     @ ''continue with next_after_seq; no match is not proof that a record is absent''"

definition historyDetails :: "historyArgs \<Rightarrow> json list \<Rightarrow> int option \<Rightarrow> (nat \<times> nat) option \<Rightarrow> jobj" where
  "historyDetails a msgs nxt cont =
     [(''operation'', JStr (ha_operation a)), (''scope'', JStr ''your_conversation_history''), (''messages'', JArr msgs),
      (''next_after_seq'', (case nxt of None \<Rightarrow> JNull | Some n \<Rightarrow> jint n)),
      (''next_read'', (case cont of None \<Rightarrow> JNull
         | Some (n, off) \<Rightarrow> JObj [(''operation'', JStr ''read''), (''seq'', jnat n), (''content_offset'', jnat off)])),
      (''has_more'', JBool (nxt \<noteq> None \<or> cont \<noteq> None)), (''journal_event_format'', JStr journalEventFormat),
      (''content_complete_meaning'', JStr content_complete_meaning),
      (''fragment_continuation'', JStr fragment_continuation), (''search_coverage'', JStr search_coverage)]"

definition conversationHistory :: "history_host \<Rightarrow> 'd db \<Rightarrow> string \<Rightarrow> jobj \<Rightarrow> err + jobj" where
  "conversationHistory hh db p req =
     rbind (parseHistoryArgs req) (\<lambda>a.
       if ha_operation a = ''search'' then
         rbind (historySearch hh db p a) (\<lambda>r. Inr
           (historyDetails a (map (hit_json hh (the (ha_query a))) (sp_hits r)) (sp_next r) None
            @ [(''scanned_records'', jnat (sp_scanned r)), (''scan_budget_reached'', JBool (sp_budget r))]))
       else rbind (historyRead hh db p a) (\<lambda>r. Inr
         (historyDetails a (map (read_json hh) (rp_messages r)) (rp_next_after r) (rp_next_read r))))"

end
