(* ===== verification/Core_Tools.thy ===== *)
theory Core_Tools
  imports Core_History
begin

text \<open>
  What the store can execute (\<^verbatim>\<open>store.go\<close>: the \<^verbatim>\<open>Store\<close> and \<^verbatim>\<open>ToolEffect\<close> types,
  \<^verbatim>\<open>RegisterEffect\<close>, \<^verbatim>\<open>claimableTool\<close>, \<^verbatim>\<open>ClaimableTools\<close>, \<^verbatim>\<open>internalToolResponse\<close>,
  \<^verbatim>\<open>operationReadOnly\<close>). The tools with their effect in this file (schedule.set, journal.note,
  message.send), the job tools (\<^verbatim>\<open>jobs.go\<close>: \<^verbatim>\<open>internalJobTool\<close>) and the terminal tools
  (\<^verbatim>\<open>terminal.go\<close>: \<^verbatim>\<open>internalTerminalTool\<close>), memory.resume (\<^verbatim>\<open>memory_recovery.go\<close>) and
  conversation_history (\<^verbatim>\<open>history.go\<close>) are written out; the delegated effects of other packages are
  the store's fields, functions of the database that may change the state they own and submit jobs,
  and nothing else.
\<close>

section \<open>The store\<close>

text \<open>
  How an effect ends: with a response; refused by the tool's own checks, the statements it ran so
  far standing; or with a failed statement, after which PostgreSQL accepts no further statement of
  the transaction.
\<close>

text \<open>A job an effect inserts: id, kind, request, creator.\<close>

type_synonym job_spec = "string \<times> string \<times> jobj \<times> string"

datatype 'd effect_result =
    EffOk "'d \<times> job_spec list" "jobj option"
  | EffRefused err "'d \<times> job_spec list"
  | EffAborted err

record 'd tool_effect =
  te_validate :: "(jobj \<Rightarrow> err option) option"
  te_apply :: "string \<Rightarrow> string \<Rightarrow> jobj \<Rightarrow> 'd db \<Rightarrow> 'd effect_result"
  te_read_only :: "(jobj \<Rightarrow> bool) option"

text \<open>
  The process: the host library (time rendering and parsing in nanoseconds, \<^verbatim>\<open>fmt.Sprint\<close>,
  \<^verbatim>\<open>json.Marshal\<close>, SHA-256), the registered effects, and the handlers of the other files.
\<close>

record 'd store =
  st_fmt_time :: "timestamp \<Rightarrow> string"
  st_parse_time :: "string \<Rightarrow> int option"
  st_sprint :: "json \<Rightarrow> string"
  st_marshal :: "jobj \<Rightarrow> string"
  st_sha :: "string \<Rightarrow> string"
  st_effects :: "(string \<times> 'd tool_effect) list"
  st_jobs :: job_host
  st_terminals :: term_host
  st_memory :: mem_host
  st_history :: history_host

definition effect_of :: "'d store \<Rightarrow> string \<Rightarrow> 'd tool_effect option" where
  "effect_of st tool = map_of (st_effects st) tool"

text \<open>An effect without \<^verbatim>\<open>Apply\<close> is \<open>None\<close>.\<close>

definition RegisterEffect :: "string \<Rightarrow> 'd tool_effect option \<Rightarrow> 'd store \<Rightarrow> err + 'd store" where
  "RegisterEffect tool e st = (case e of
     None \<Rightarrow> Inl (ErrBadRequest ''tool effect requires a name and Apply'')
   | Some eff \<Rightarrow>
       if tool = [] then Inl (ErrBadRequest ''tool effect requires a name and Apply'')
       else if isInternalTool tool then Inl (ErrBadRequest (tool @ '' is a built-in internal tool''))
       else Inr (st\<lparr>st_effects := (tool, eff) # filter (\<lambda>kv. fst kv \<noteq> tool) (st_effects st)\<rparr>))"

definition claimableTool :: "'d store \<Rightarrow> string \<Rightarrow> bool" where
  "claimableTool st tool \<longleftrightarrow> isInternalTool tool \<or> effect_of st tool \<noteq> None"

definition terminalServed :: "'d store \<Rightarrow> bool" where
  "terminalServed st \<longleftrightarrow> terminalBackendDefault (st_terminals st) \<in> set (th_available (st_terminals st))"

definition ClaimableTools :: "'d store \<Rightarrow> string list" where
  "ClaimableTools st = sort
     (map fst (filter (\<lambda>(name, info). ti_internal info \<and> \<not> (has_prefix name ''terminal.'' \<and> \<not> terminalServed st))
        toolAuthority_list)
      @ map fst (st_effects st))"

definition operationReadOnly :: "'d store \<Rightarrow> string \<Rightarrow> jobj \<Rightarrow> bool" where
  "operationReadOnly st tool req =
     (if isInternalTool tool then (case toolAuthority tool of None \<Rightarrow> False | Some i \<Rightarrow> ti_read_only i)
      else case effect_of st tool of
        None \<Rightarrow> False
      | Some e \<Rightarrow> (case te_read_only e of None \<Rightarrow> False | Some f \<Rightarrow> f req))"

section \<open>Effects\<close>

text \<open>The outcome of a tool in the claim's transaction; the flag is \<^verbatim>\<open>internal\<close>.\<close>

datatype 'd tool_outcome =
    Ran "'d db" "jobj option" bool
  | Refused err "'d db"
  | Aborted err

fun insert_jobs :: "timestamp \<Rightarrow> string \<Rightarrow> job_spec list \<Rightarrow> 'd db \<Rightarrow> err + 'd db" where
  "insert_jobs now p [] db = Inr db"
| "insert_jobs now p ((x, kind, m, by) # js) db =
     (if job_of db p x \<noteq> None then Inl (ErrStorage ''core_jobs_pkey'')
      else insert_jobs now p js (db\<lparr>jobs := jobs db @ [new_job now p x kind m by]\<rparr>))"

definition effect_outcome :: "timestamp \<Rightarrow> string \<Rightarrow> bool \<Rightarrow> 'd effect_result \<Rightarrow> 'd db \<Rightarrow> 'd tool_outcome" where
  "effect_outcome now p needs_response r db = (case r of
     EffOk (d, js) resp \<Rightarrow> (case insert_jobs now p js (db\<lparr>domain := d\<rparr>) of
         Inl e \<Rightarrow> Aborted e
       | Inr db1 \<Rightarrow> Ran db1 resp (\<not> needs_response \<or> resp \<noteq> None))
   | EffRefused e (d, js) \<Rightarrow> (case insert_jobs now p js (db\<lparr>domain := d\<rparr>) of
         Inl e' \<Rightarrow> Aborted e'
       | Inr db1 \<Rightarrow> Refused e db1)
   | EffAborted e \<Rightarrow> Aborted e)"

definition of_statement :: "err + ('d db \<times> jobj) \<Rightarrow> 'd tool_outcome" where
  "of_statement r = (case r of Inl e \<Rightarrow> Aborted (dataErr e) | Inr (db, resp) \<Rightarrow> Ran db (Some resp) True)"

definition sched_status_name :: "sched_status \<Rightarrow> string" where
  "sched_status_name s = (case s of SPending \<Rightarrow> ''pending'' | SClaimed \<Rightarrow> ''claimed'' | SFired \<Rightarrow> ''fired''
     | SCancelled \<Rightarrow> ''cancelled'' | SExpired \<Rightarrow> ''expired'')"

text \<open>The schedule as the tool reports it: the two claim columns are not read and marshal to null.\<close>

definition schedule_json :: "(timestamp \<Rightarrow> string) \<Rightarrow> sched_row \<Rightarrow> jobj" where
  "schedule_json ft s =
     [(''persona_id'', JStr (s_persona_id s)), (''schedule_id'', JStr (s_schedule_id s)),
      (''wake_at'', JStr (ft (s_wake_at s))), (''payload'', JObj (s_payload s)),
      (''miss_policy'', JStr (s_miss_policy s)), (''status'', JStr (sched_status_name (s_status s))),
      (''claimed_generation'', JNull), (''created_at'', JStr (ft (s_created_at s))), (''fired_at'', JNull)]"

definition is_sched :: "string \<Rightarrow> string \<Rightarrow> sched_row \<Rightarrow> bool" where
  "is_sched p i s \<longleftrightarrow> s_persona_id s = p \<and> s_schedule_id s = i"

text \<open>
  \<^verbatim>\<open>wake_at\<close> is parsed with nanoseconds and stored with microseconds (the driver truncates); a
  taken id is compared with the parsed value.
\<close>

definition schedule_existing :: "(timestamp \<Rightarrow> string) \<Rightarrow> int \<Rightarrow> jobj \<Rightarrow> string \<Rightarrow> sched_row \<Rightarrow> 'd db \<Rightarrow> 'd tool_outcome" where
  "schedule_existing ft ns payload policy s db =
     (if \<not> (s_wake_at s * 1000 = ns \<and> s_miss_policy s = policy \<and> jsonb_eq (JObj (s_payload s)) (JObj payload))
      then Refused (ErrBadRequest (''schedule.set schedule_id already exists with different contents'')) db
      else if s_status s \<noteq> SPending
      then Refused (ErrBadRequest (''schedule.set schedule_id is already '' @ sched_status_name (s_status s))) db
      else Ran db (Some [(''schedule'', JObj (schedule_json ft s))]) True)"

definition scheduleSet ::
  "'d store \<Rightarrow> timestamp \<Rightarrow> nat \<Rightarrow> string \<Rightarrow> jobj \<Rightarrow> 'd db \<Rightarrow> 'd tool_outcome" where
  "scheduleSet st now clock p req db =
     (let sid = (if str_field req ''schedule_id'' = [] then ''sch-'' @ itoa clock else str_field req ''schedule_id'');
          payload = or_empty (obj_field req ''payload'');
          policy = missPolicy_of req in
      case st_parse_time st (str_field req ''wake_at'') of
        None \<Rightarrow> Refused (ErrBadRequest ''schedule.set requires RFC3339 wake_at'') db
      | Some ns \<Rightarrow>
          if policy \<notin> set miss_policies
          then Refused (ErrBadRequest
            ''schedule.set miss_policy must be fire_late, coalesce, expire, or report_missed'') db
          else if NUL \<in> set sid \<or> \<not> storable (JObj payload)
          then Aborted (ErrBadRequest ''invalid schedule data'')
          else case find (is_sched p sid) (schedules db) of
            Some s \<Rightarrow> schedule_existing (st_fmt_time st) ns payload policy s db
          | None \<Rightarrow>
              (let s = \<lparr>s_persona_id = p, s_schedule_id = sid, s_wake_at = ns div 1000, s_payload = payload,
                        s_miss_policy = policy, s_status = SPending, s_claimed_generation = None,
                        s_created_at = now, s_fired_at = None\<rparr>
               in Ran (db\<lparr>schedules := schedules db @ [s]\<rparr>)
                    (Some [(''schedule'', JObj (schedule_json (st_fmt_time st) s))]) True))"

definition journalNote :: "'d store \<Rightarrow> string \<Rightarrow> string \<Rightarrow> string \<Rightarrow> jobj \<Rightarrow> 'd db \<Rightarrow> 'd tool_outcome" where
  "journalNote st p t i req db =
     (if str_field req ''text'' = [] then Refused (ErrBadRequest ''journal.note requires text'') db
      else of_statement
        (rbind (ensureInputReceived (st_fmt_time st) p i t db) (\<lambda>db1.
         rbind (appendEvent p t ''note'' [(''text'', JStr (str_field req ''text''))] db1) (\<lambda>(db2, s).
           Inr (db2, [(''seq'', jnat s), (''kind'', JStr ''note'')])))))"

definition messageSend :: "string \<Rightarrow> string \<Rightarrow> jobj \<Rightarrow> 'd db \<Rightarrow> 'd tool_outcome" where
  "messageSend p t req db =
     (if str_field req ''text'' = [] then Refused (ErrBadRequest ''message.send requires text'') db
      else of_statement
        (rbind (appendOutbox p ''secretary_message'' [(''text'', JStr (str_field req ''text'')), (''turn_id'', JStr t)] db)
           (\<lambda>(db1, s). Inr (db1, [(''seq'', jnat s), (''kind'', JStr ''secretary_message'')]))))"

text \<open>The job the tool answers with, over the outcome of its statements.\<close>

definition job_answer :: "(timestamp \<Rightarrow> string) \<Rightarrow> err + ('d db \<times> job_row) \<Rightarrow> 'd db \<Rightarrow> 'd tool_outcome" where
  "job_answer ft r db = (case r of
     Inr (db', j) \<Rightarrow> Ran db' (Some [(''job'', JObj (job_json ft j))]) True
   | Inl e \<Rightarrow> if e = ErrJobNotFound then Refused (jobToolErr e) db else Aborted (jobToolErr e))"

text \<open>A tool of the family without a case answers nothing, which the caller takes for no effect.\<close>

definition internalJobTool ::
  "'d store \<Rightarrow> timestamp \<Rightarrow> timestamp \<Rightarrow> string \<Rightarrow> string \<Rightarrow> string \<Rightarrow> string \<Rightarrow> nat \<Rightarrow> jobj \<Rightarrow> 'd db \<Rightarrow> 'd tool_outcome" where
  "internalJobTool st now wall p t i tool idx req db =
     (let jh = st_jobs st; x = str_field req ''job_id'';
          with_id = (\<lambda>f. if x = [] then Refused (ErrBadRequest (tool @ '' requires job_id'')) db
             else if NUL \<in> set x then Refused (ErrBadRequest ''job_id contains a NUL byte'') db
             else job_answer (st_fmt_time st) f db) in
      if tool = ''job.start'' \<or> tool = ''script.start'' then
        (let kind = (if tool = ''script.start'' then ''script'' else ''subprocess'') in
         case validateJobRequest jh kind req of
           Inl e \<Rightarrow> Refused e db
         | Inr _ \<Rightarrow>
             if hasNUL (JObj req) then Refused (ErrBadRequest (tool @ '' request contains a NUL byte jsonb cannot store'')) db
             else if str_field (stamped jh kind req) ''backend'' = ''cloud'' \<and> ''cloud'' \<notin> set (jh_available jh)
             then Refused (ErrBadRequest ''cloud job backend is not running in this deployment'') db
             else job_answer (st_fmt_time st)
               (rbind (submitJobTx jh now p (tool_job_id i idx) kind req (''tool:'' @ t @ '':'' @ itoa idx) db)
                  (\<lambda>(db', j, _). Inr (db', j))) db)
      else if tool = ''job.status'' then with_id (rbind (require (job_of db p x) ErrJobNotFound) (\<lambda>j. Inr (db, j)))
      else if tool = ''job.cancel'' then with_id (cancelJobTx jh now wall p x db)
      else Ran db None False)"

text \<open>
  A terminal tool. A definite refusal leaves the transaction usable; a failed statement (a session id
  that is no uuid, an input or a row the table refuses) does not.
\<close>

definition with_session :: "string \<Rightarrow> string \<Rightarrow> 'd db \<Rightarrow> (session_row \<Rightarrow> 'd tool_outcome) \<Rightarrow> 'd tool_outcome" where
  "with_session p x db f = (case lockTerminalSessionTx db p x of
     Inr t \<Rightarrow> f t
   | Inl e \<Rightarrow> if list_all uuidv7_match [p, x] then Refused (terminalToolErr e) db else Aborted (terminalToolErr e))"

definition terminal_read :: "'d store \<Rightarrow> string \<Rightarrow> string \<Rightarrow> jobj \<Rightarrow> 'd db \<Rightarrow> 'd tool_outcome" where
  "terminal_read st p x req db = with_session p x db (\<lambda>t.
     let cursor = tool_cursor req t; evc = int_field req ''event_cursor'' 0 in
     case read_chunks db x cursor evc (read_limit (int_field req ''limit'' 32)) of
       Inl e \<Rightarrow> Aborted (dataErr e)
     | Inr ks \<Rightarrow> Ran db (Some (read_response (st_fmt_time st) t cursor evc ks)) True)"

definition terminal_write :: "'d store \<Rightarrow> timestamp \<Rightarrow> nat \<Rightarrow> string \<Rightarrow> string \<Rightarrow> string \<Rightarrow> jobj \<Rightarrow> 'd db \<Rightarrow> 'd tool_outcome" where
  "terminal_write st now clock p x tool req db = with_session p x db (\<lambda>t.
     let wall = int clock div 1000; (kind, m) = tool_input tool req in
     case rbind (admits_input wall ''agent'' t) (\<lambda>_. validateTerminalInput kind m) of
       Inl e \<Rightarrow> Refused (terminalToolErr e) db
     | Inr _ \<Rightarrow> (case submitTerminalInputTx now wall (th_uuid (st_terminals st) clock) p x ''agent'' kind m db of
         Inl e \<Rightarrow> Aborted (terminalToolErr e)
       | Inr (db', n) \<Rightarrow> Ran db' (Some [(''input'', JObj (tinput_json (st_fmt_time st) n))]) True))"

definition terminal_open :: "'d store \<Rightarrow> timestamp \<Rightarrow> nat \<Rightarrow> string \<Rightarrow> jobj \<Rightarrow> 'd db \<Rightarrow> 'd tool_outcome" where
  "terminal_open st now clock p req db =
     (case createTerminalSessionTx (st_terminals st) now (th_uuid (st_terminals st) clock) p (str_field req ''name'')
             ''agent'' ''tool:terminal.open'' db of
        Inr (db', t) \<Rightarrow> Ran db' (Some [(''session'', JObj (session_json (st_fmt_time st) t))]) True
      | Inl e \<Rightarrow> (case e of ErrData _ \<Rightarrow> Aborted e | ErrStorage _ \<Rightarrow> Aborted e | _ \<Rightarrow> Refused e db))"

definition terminal_list :: "'d store \<Rightarrow> string \<Rightarrow> 'd db \<Rightarrow> 'd tool_outcome" where
  "terminal_list st p db = (case ListTerminalSessions db p of
     Inl e \<Rightarrow> Aborted e
   | Inr ts \<Rightarrow> Ran db (Some [(''sessions'', json_list (map (JObj \<circ> session_json (st_fmt_time st)) ts))]) True)"

definition terminal_inputs :: "'d store \<Rightarrow> string \<Rightarrow> string \<Rightarrow> jobj \<Rightarrow> 'd db \<Rightarrow> 'd tool_outcome" where
  "terminal_inputs st p x req db = with_session p x db (\<lambda>t.
     case ListTerminalInputs db p x (int_field req ''after_seq'' 0) terminalInputListMax of
       Inl e \<Rightarrow> Aborted e
     | Inr ns \<Rightarrow> Ran db (Some [(''session'', JObj (session_json (st_fmt_time st) t)),
         (''inputs'', json_list (map (JObj \<circ> tinput_json (st_fmt_time st)) ns))]) True)"

definition terminal_close :: "'d store \<Rightarrow> timestamp \<Rightarrow> nat \<Rightarrow> string \<Rightarrow> string \<Rightarrow> 'd db \<Rightarrow> 'd tool_outcome" where
  "terminal_close st now clock p x db = with_session p x db (\<lambda>_.
     case CloseTerminalSession (st_terminals st) now (int clock div 1000) p x [] db of
       Inl e \<Rightarrow> Aborted e
     | Inr (db', t) \<Rightarrow> Ran db' (Some [(''session'', JObj (session_json (st_fmt_time st) t))]) True)"

definition internalTerminalTool ::
  "'d store \<Rightarrow> timestamp \<Rightarrow> nat \<Rightarrow> string \<Rightarrow> string \<Rightarrow> jobj \<Rightarrow> 'd db \<Rightarrow> 'd tool_outcome" where
  "internalTerminalTool st now clock p tool req db =
     (let x = str_field req ''session_id'';
          with_id = (\<lambda>r. if x = [] then Refused (ErrBadRequest (tool @ '' requires session_id'')) db else r) in
      if tool = ''terminal.open'' then terminal_open st now clock p req db
      else if tool = ''terminal.list'' then terminal_list st p db
      else if tool = ''terminal.read'' then with_id (terminal_read st p x req db)
      else if tool = ''terminal.inputs'' then with_id (terminal_inputs st p x req db)
      else if tool \<in> set [''terminal.write'', ''terminal.resize'', ''terminal.signal'', ''terminal.eof'']
      then with_id (terminal_write st now clock p x tool req db)
      else if tool = ''terminal.close'' then with_id (terminal_close st now clock p x db)
      else Ran db None False)"

definition memory_resume :: "'d store \<Rightarrow> timestamp \<Rightarrow> nat \<Rightarrow> string \<Rightarrow> jobj \<Rightarrow> 'd db \<Rightarrow> 'd tool_outcome" where
  "memory_resume st now clock p req db = (case resumeMemory (st_memory st) now (int clock) p req db of
     Inl e \<Rightarrow> Refused e db | Inr (db', resp) \<Rightarrow> Ran db' (Some resp) True)"

text \<open>The history tool reads and never writes.\<close>

definition history_tool :: "'d store \<Rightarrow> string \<Rightarrow> jobj \<Rightarrow> 'd db \<Rightarrow> 'd tool_outcome" where
  "history_tool st p req db = (case conversationHistory (st_history st) db p req of
     Inl e \<Rightarrow> Refused e db | Inr resp \<Rightarrow> Ran db (Some resp) True)"

definition internalToolResponse ::
  "'d store \<Rightarrow> timestamp \<Rightarrow> nat \<Rightarrow> string \<Rightarrow> string \<Rightarrow> string \<Rightarrow> string \<Rightarrow> nat \<Rightarrow> string \<Rightarrow> jobj \<Rightarrow> 'd db
     \<Rightarrow> 'd tool_outcome" where
  "internalToolResponse st now clock p t i tool idx key req db =
     (if has_prefix tool ''job.'' \<or> tool = ''script.start''
      then internalJobTool st now (int clock div 1000) p t i tool idx req db
      else if has_prefix tool ''terminal.'' then internalTerminalTool st now clock p tool req db
      else if tool = ''schedule.set'' then scheduleSet st now clock p req db
      else if tool = ''memory.resume'' then memory_resume st now clock p req db
      else if tool = ''journal.note'' then journalNote st p t i req db
      else if tool = ''message.send'' then messageSend p t req db
      else if tool = ''conversation_history'' then history_tool st p req db
      else case effect_of st tool of
        None \<Rightarrow> Ran db None False
      | Some e \<Rightarrow> effect_outcome now p False (te_apply e p key req db) db)"

section \<open>Lemmas\<close>

text \<open>The tables no tool effect writes.\<close>

definition ledger :: "'d db \<Rightarrow> op_row list \<times> approval_row list \<times> turn_row list \<times> plan_row list \<times> persona_row list
   \<times> lease_row list \<times> budget_row list \<times> fact_row list \<times> reservation_row list \<times> wait_row list" where
  "ledger db = (operations db, approvals db, turns db, plans db, personas db, leases db, budgets db, facts db,
     reservations db, waits db)"

text \<open>The tables tool effects write besides the journal.\<close>

definition effect_state ::
  "'d db \<Rightarrow> 'd \<times> chunk_row list \<times> branch_row list \<times> job_row list \<times> term_state \<times> sched_row list \<times> outbox_row list" where
  "effect_state db = (domain db, chunks db, branches db, jobs db, terminals db, schedules db, outbox db)"

definition outcome_db :: "'d tool_outcome \<Rightarrow> 'd db option" where
  "outcome_db r = (case r of Ran db _ _ \<Rightarrow> Some db | Refused _ db \<Rightarrow> Some db | Aborted _ \<Rightarrow> None)"

lemma appendEventsTx_ledger:
  assumes "appendEventsTx p t es db = Inr db'"
  shows "ledger db' = ledger db" "effect_state db' = effect_state db"
  using appendEventsTx_ok(1) [OF assms] by (simp_all add: ledger_def effect_state_def)

lemma ensureInputReceived_ledger:
  assumes "ensureInputReceived ft p i t db = Inr db'"
  shows "ledger db' = ledger db" "effect_state db' = effect_state db"
  using assms by (cases rule: ensureInputReceived_cases; simp add: ledger_def effect_state_def)+

lemma appendEvent_ledger:
  assumes "appendEvent p t k m db = Inr (db', s)"
  shows "ledger db' = ledger db" "effect_state db' = effect_state db"
  using appendEvent_as_rows(1) [OF assms] by (simp_all add: ledger_def effect_state_def)

lemma journalExperienceTx_ledger:
  assumes "journalExperienceTx ft p t i es db = Inr db'"
  shows "ledger db' = ledger db" "effect_state db' = effect_state db"
proof -
  from assms obtain db1 where "ensureInputReceived ft p i t db = Inr db1"
    "appendEventsTx p t (withoutJournaledExperience db1 p i es) db1 = Inr db'"
    by (auto simp: journalExperienceTx_def res_simps)
  then show "ledger db' = ledger db" "effect_state db' = effect_state db"
    by (simp_all add: ensureInputReceived_ledger appendEventsTx_ledger)
qed

lemma journalOutcomeTx_ledger:
  assumes "journalOutcomeTx ft sp p t i c op a db = Inr db'"
  shows "ledger db' = ledger db" "effect_state db' = effect_state db"
  using assms by (auto simp: journalOutcomeTx_def journalExperienceTx_ledger split: option.splits)

lemma job_frame_ledger: "job_frame db db' \<Longrightarrow> ledger db' = ledger db"
  by (auto simp: job_frame_def ledger_def)

text \<open>The jobs an effect submits are new and queued.\<close>

definition new_jobs :: "timestamp \<Rightarrow> string \<Rightarrow> 'd db \<Rightarrow> 'd db \<Rightarrow> bool" where
  "new_jobs now p db db' \<longleftrightarrow> (\<exists>js. db' = db\<lparr>jobs := jobs db @ js\<rparr>
     \<and> list_all (\<lambda>j. \<exists>x kind m by. j = new_job now p x kind m by) js
     \<and> (keyed job_key (jobs db) \<longrightarrow> keyed job_key (jobs db')))"

lemma insert_jobs_new: "insert_jobs now p js db = Inr db' \<Longrightarrow> new_jobs now p db db'"
proof (induction js arbitrary: db)
  case Nil
  then show ?case by (auto simp: new_jobs_def intro!: exI [of _ "[]"])
next
  case (Cons s js)
  obtain x kind m c where s: "s = (x, kind, m, c)" by (cases s)
  let ?j = "new_job now p x kind m c"
  have none: "job_of db p x = None" and i: "insert_jobs now p js (db\<lparr>jobs := jobs db @ [?j]\<rparr>) = Inr db'"
    using Cons.prems by (auto simp: s split: if_splits)
  have "keyed job_key (jobs db) \<Longrightarrow> keyed job_key (jobs db @ [?j])"
    using none by (auto simp: job_of_def find_None_iff keyed_snoc is_job_def new_job_def)
  with Cons.IH [OF i] show ?case unfolding new_jobs_def
    by (elim exE conjE) (rule exI [of _ "?j # _"], auto)
qed

text \<open>An effect of another package: the state it owns, and new jobs.\<close>

lemma effect_outcome_new:
  assumes "outcome_db (effect_outcome now p b r db) = Some db'"
  shows "\<exists>d. new_jobs now p (db\<lparr>domain := d\<rparr>) db'"
  using assms by (auto simp: effect_outcome_def outcome_db_def split: effect_result.splits sum.splits dest!: insert_jobs_new)

text \<open>A job tool: a submission, a cancellation, or nothing.\<close>

lemma internalJobTool_cases:
  assumes "outcome_db (internalJobTool st now wall p t i tool idx req db) = Some db'"
  obtains (same) "db' = db"
    | (submitted) kind c j fresh where "submitJobTx (st_jobs st) now p (tool_job_id i idx) kind req c db = Inr (db', j, fresh)"
    | (cancelled) x j where "cancelJobTx (st_jobs st) now wall p x db = Inr (db', j)"
  using assms
  by (auto simp: internalJobTool_def job_answer_def outcome_db_def Let_def rbind_eq_Inr rbind_eq_Inl split: if_splits sum.splits)

lemma internalJobTool_frame:
  "outcome_db (internalJobTool st now wall p t i tool idx req db) = Some db' \<Longrightarrow> job_frame db db'"
  by (auto elim: internalJobTool_cases dest: submitJobTx_frame cancelJobTx_frame)

text \<open>A terminal tool: a new session, an input, a close, or nothing.\<close>

lemma with_session_db:
  assumes "outcome_db (with_session p x db f) = Some db'"
  obtains (same) "db' = db" | (run) t where "lockTerminalSessionTx db p x = Inr t" "outcome_db (f t) = Some db'"
  using assms by (auto simp: with_session_def outcome_db_def split: sum.splits if_splits)

lemma internalTerminalTool_cases:
  assumes "outcome_db (internalTerminalTool st now clock p tool req db) = Some db'"
  obtains (same) "db' = db"
    | (created) x name t where "createTerminalSessionTx (st_terminals st) now x p name ''agent'' ''tool:terminal.open'' db = Inr (db', t)"
    | (typed) nid x kind m n where "submitTerminalInputTx now (int clock div 1000) nid p x ''agent'' kind m db = Inr (db', n)"
    | (closed) x t where "CloseTerminalSession (st_terminals st) now (int clock div 1000) p x [] db = Inr (db', t)"
proof -
  let ?x = "str_field req ''session_id''" and ?r = "internalTerminalTool st now clock p tool req db"
  have made: thesis if "outcome_db (terminal_open st now clock p req db) = Some db'"
    using that created same by (auto simp: terminal_open_def outcome_db_def split: sum.splits err.splits)
  have wrote: thesis if "outcome_db (terminal_write st now clock p ?x tool req db) = Some db'"
    using that typed same
    by (auto simp: terminal_write_def Let_def elim!: with_session_db) (auto simp: outcome_db_def split: sum.splits prod.splits)
  have shut: thesis if "outcome_db (terminal_close st now clock p ?x db) = Some db'"
    using that closed same
    by (auto simp: terminal_close_def elim!: with_session_db) (auto simp: outcome_db_def split: sum.splits)
  have reads: "db' = db" if "outcome_db r = Some db'"
    "r \<in> {terminal_list st p db, terminal_read st p ?x req db, terminal_inputs st p ?x req db, Refused e db, Ran db None False}" for r e
    using that by (auto simp: terminal_list_def terminal_read_def terminal_inputs_def Let_def elim!: with_session_db)
      (auto simp: outcome_db_def split: sum.splits)
  have "?r = terminal_open st now clock p req db \<or> ?r = terminal_write st now clock p ?x tool req db
      \<or> ?r = terminal_close st now clock p ?x db
      \<or> (\<exists>e. ?r \<in> {terminal_list st p db, terminal_read st p ?x req db, terminal_inputs st p ?x req db, Refused e db, Ran db None False})"
    unfolding internalTerminalTool_def Let_def by (simp split: if_split)
  then show thesis using assms made wrote shut reads same by (elim disjE exE) (metis+)
qed

lemma internalTerminalTool_frame:
  "outcome_db (internalTerminalTool st now clock p tool req db) = Some db' \<Longrightarrow> term_frame db db'"
  by (auto elim: internalTerminalTool_cases dest: terminal_tool_frames)

lemma term_frame_ledger: "term_frame db db' \<Longrightarrow> ledger db' = ledger db"
  by (auto simp: term_frame_def ledger_def)

lemma history_tool_db: "outcome_db (history_tool st p req db) = Some db' \<Longrightarrow> db' = db"
  by (auto simp: history_tool_def outcome_db_def split: sum.splits)

lemma internalToolResponse_ledger:
  assumes "outcome_db (internalToolResponse st now clock p t i tool idx key req db) = Some db'"
  shows "ledger db' = ledger db"
proof -
  have eff: "outcome_db (effect_outcome now p b r db) = Some db' \<Longrightarrow> ledger db' = ledger db" for b r
    by (auto simp: new_jobs_def ledger_def dest!: effect_outcome_new)
  have job: "outcome_db (internalJobTool st now (int clock div 1000) p t i tool idx req db) = Some db' \<Longrightarrow> ledger db' = ledger db"
    by (rule job_frame_ledger) (rule internalJobTool_frame)
  have trm: "outcome_db (internalTerminalTool st now clock p tool req db) = Some db' \<Longrightarrow> ledger db' = ledger db"
    by (rule term_frame_ledger) (rule internalTerminalTool_frame)
  have mem: "outcome_db (memory_resume st now clock p req db) = Some db' \<Longrightarrow> ledger db' = ledger db"
    by (auto simp: memory_resume_def outcome_db_def ledger_def split: sum.splits dest!: resumeMemory_frame)
  have sch: "outcome_db (scheduleSet st now clock p req db) = Some db' \<Longrightarrow> ledger db' = ledger db"
    by (auto simp: scheduleSet_def schedule_existing_def outcome_db_def ledger_def Let_def split: option.splits if_splits)
  have note': "outcome_db (journalNote st p t i req db) = Some db' \<Longrightarrow> ledger db' = ledger db"
    by (auto simp: journalNote_def of_statement_def outcome_db_def rbind_def ensureInputReceived_ledger
        appendEvent_ledger split: sum.splits prod.splits if_splits)
  have msg: "outcome_db (messageSend p t req db) = Some db' \<Longrightarrow> ledger db' = ledger db"
    by (auto simp: messageSend_def of_statement_def appendOutbox_def outcome_db_def rbind_def ledger_def Let_def
        split: sum.splits prod.splits if_splits)
  show ?thesis
    using assms eff sch note' msg job trm mem
    by (auto simp: internalToolResponse_def dest: history_tool_db split: if_splits option.splits) (simp add: outcome_db_def)
qed

section \<open>Properties\<close>

definition registry_ok :: "'d store \<Rightarrow> bool" where
  "registry_ok st \<longleftrightarrow> list_all (\<lambda>kv. \<not> isInternalTool (fst kv)) (st_effects st)"

lemma RegisterEffect_registry:
  "RegisterEffect tool e st = Inr st' \<Longrightarrow> registry_ok st \<Longrightarrow> registry_ok st'"
  by (auto simp: RegisterEffect_def registry_ok_def list_all_iff split: option.splits if_splits)

text \<open>
  What is offered can be claimed: the advertised tools are exactly the claimable ones, save
  the terminal tools while no runner serves the default terminal backend, and registering an
  effect adds its tool and nothing else.
\<close>

lemma advertised_tools_claimable:
  assumes "registry_ok st"
  shows "(tool \<in> set (ClaimableTools st) \<longleftrightarrow>
      claimableTool st tool \<and> (isInternalTool tool \<and> has_prefix tool ''terminal.'' \<longrightarrow> terminalServed st))
    \<and> (RegisterEffect name e st = Inr st' \<longrightarrow> registry_ok st' \<and>
        set (ClaimableTools st') = insert name (set (ClaimableTools st)))"
proof -
  have dist: "distinct (map fst toolAuthority_list)" by code_simp
  have internal: "(\<exists>i. (t, i) \<in> set toolAuthority_list \<and> ti_internal i) \<longleftrightarrow> isInternalTool t" for t
    unfolding map_of_eq_Some_iff [OF dist, symmetric] by (simp add: isInternalTool_def toolAuthority_def split: option.splits)
  have adv: "t \<in> set (ClaimableTools s) \<longleftrightarrow>
      isInternalTool t \<and> (has_prefix t ''terminal.'' \<longrightarrow> terminalServed s) \<or> t \<in> fst ` set (st_effects s)" for t s
    unfolding internal [symmetric] by (force simp: ClaimableTools_def)
  have eff: "effect_of s t \<noteq> None \<longleftrightarrow> t \<in> fst ` set (st_effects s)" for s t
    by (simp add: effect_of_def map_of_eq_None_iff)
  have "t \<in> fst ` set (st_effects st) \<Longrightarrow> \<not> isInternalTool t" for t
    using assms by (auto simp: registry_ok_def list_all_iff)
  then have 1: "tool \<in> set (ClaimableTools st) \<longleftrightarrow>
      claimableTool st tool \<and> (isInternalTool tool \<and> has_prefix tool ''terminal.'' \<longrightarrow> terminalServed st)"
    unfolding adv claimableTool_def eff by blast
  have 2: "registry_ok st' \<and> set (ClaimableTools st') = insert name (set (ClaimableTools st))"
    if r: "RegisterEffect name e st = Inr st'"
  proof -
    from r obtain eff where "st' = st\<lparr>st_effects := (name, eff) # filter (\<lambda>kv. fst kv \<noteq> name) (st_effects st)\<rparr>"
      by (auto simp: RegisterEffect_def split: option.splits if_splits)
    then have "terminalServed st' = terminalServed st" "fst ` set (st_effects st') = insert name (fst ` set (st_effects st))"
      by (auto simp: terminalServed_def terminalBackendDefault_def)
    then have "set (ClaimableTools st') = insert name (set (ClaimableTools st))"
      unfolding set_eq_iff adv insert_iff by blast
    with RegisterEffect_registry [OF r assms] show ?thesis by blast
  qed
  from 1 2 show ?thesis by blast
qed

definition demo_mem_host :: mem_host where
  "demo_mem_host = \<lparr>mh_marshal = (\<lambda>_. ''{}''), mh_sprint = (\<lambda>_. ''1''), mh_sha = (\<lambda>s. s), mh_pg_text = (\<lambda>_. ''v''),
     mh_parse_time = (\<lambda>_. Some 0), mh_fmt_time = (\<lambda>_. ''t'')\<rparr>"

definition demo_history_host :: history_host where
  "demo_history_host = \<lparr>hh_encode = (\<lambda>_. Some ''{}''), hh_fmt_time = (\<lambda>_. ''t''), hh_created_at = (\<lambda>_ _. 0)\<rparr>"

definition demo_store :: "unit store" where
  "demo_store = \<lparr>st_fmt_time = (\<lambda>_. ''t''), st_parse_time = (\<lambda>s. if s = [] then None else Some 1234567890),
     st_sprint = (\<lambda>_. ''v''), st_marshal = (\<lambda>_. ''{}''), st_sha = (\<lambda>s. s), st_effects = [],
     st_jobs = demo_host,
     st_terminals = \<lparr>th_backend = [], th_available = [], th_quote = (\<lambda>s. s), th_uuid = (\<lambda>_. [])\<rparr>,
     st_memory = demo_mem_host, st_history = demo_history_host\<rparr>"

text \<open>
  Setting the same wake twice: a \<^verbatim>\<open>schedule.set\<close> repeated with the same id and contents is
  answered with the stored schedule exactly when its parsed time has no part below a microsecond;
  otherwise the stored, truncated time differs from the request's and the identical request is
  refused.
\<close>

lemma schedule_set_again:
  assumes "st_parse_time st (str_field req ''wake_at'') = Some ns"
    and "scheduleSet st now clock p req db = Ran db1 resp True"
    and "str_field req ''schedule_id'' \<noteq> []" and "find (is_sched p (str_field req ''schedule_id'')) (schedules db) = None"
  shows "scheduleSet st now' clock' p req db1 =
    (if ns mod 1000 = 0 then Ran db1 resp True
     else Refused (ErrBadRequest ''schedule.set schedule_id already exists with different contents'') db1)"
proof -
  let ?sid = "str_field req ''schedule_id''"
  let ?s = "\<lparr>s_persona_id = p, s_schedule_id = ?sid, s_wake_at = ns div 1000, s_payload = or_empty (obj_field req ''payload''),
             s_miss_policy = missPolicy_of req, s_status = SPending, s_claimed_generation = None,
             s_created_at = now, s_fired_at = None\<rparr>"
  from assms have pol: "missPolicy_of req \<in> set miss_policies" "NUL \<notin> set ?sid"
      "storable (JObj (or_empty (obj_field req ''payload'')))"
    and d: "db1 = db\<lparr>schedules := schedules db @ [?s]\<rparr>"
      "resp = Some [(''schedule'', JObj (schedule_json (st_fmt_time st) ?s))]"
    by (auto simp: scheduleSet_def Let_def split: if_splits)
  have f: "find (is_sched p ?sid) (schedules db1) = Some ?s"
    using assms(4) by (simp add: d(1) find_append is_sched_def)
  have "ns div 1000 * 1000 = ns \<longleftrightarrow> ns mod 1000 = 0"
    by (subst minus_mod_eq_div_mult [symmetric]) simp
  with assms(1,3) pol f d(2) show ?thesis by (simp add: scheduleSet_def Let_def schedule_existing_def)
qed

end
