(* ===== verification/Core_Operations.thy ===== *)
theory Core_Operations
  imports Core_Tools
begin

text \<open>
  The operation ledger (\<^verbatim>\<open>store.go\<close>: \<^verbatim>\<open>ClaimOperation\<close>, \<^verbatim>\<open>claimOperation\<close>, \<^verbatim>\<open>claimGated\<close>,
  \<^verbatim>\<open>operationByKey\<close>, \<^verbatim>\<open>CompleteOperation\<close>, \<^verbatim>\<open>InputMayHaveCommittedEffects\<close>). A claim names a
  position of the recorded plan; its effect, its receipt and its journal records are one
  transaction, keyed by the input and the position. The lemmas show that a settled operation never
  runs again, that an elevated call runs only on a grant it consumes, and that a denied or
  blocked call runs nothing.
\<close>

section \<open>The claim\<close>

definition operationByKey :: "'d db \<Rightarrow> string \<Rightarrow> string \<Rightarrow> string \<Rightarrow> op_row option" where
  "operationByKey db p tool key = find (op_keyed p tool key) (operations db)"

definition effect_key :: "string \<Rightarrow> nat \<Rightarrow> string" where
  "effect_key i n = i @ '':tool:'' @ itoa n"

text \<open>What the checks of a claim establish: the live turn's input and the planned call.\<close>

record claim_ctx =
  cx_input :: string
  cx_pos :: call_experience
  cx_index :: nat

definition claim_check ::
  "'d store \<Rightarrow> string \<Rightarrow> string \<Rightarrow> int \<Rightarrow> string \<Rightarrow> int \<Rightarrow> jobj \<Rightarrow> 'd db \<Rightarrow> err + claim_ctx" where
  "claim_check st p t gen tool idx req db =
     rbind (guard (claimableTool st tool) (ErrUnknownTool tool)) (\<lambda>_.
     rbind (guard (\<not> hasNUL (JObj req)) (ErrBadRequest (tool @ '' request contains a NUL byte jsonb cannot store''))) (\<lambda>_.
     rbind (requireGeneration db p gen) (\<lambda>_.
     rbind (live_turn db p t gen) (\<lambda>tr.
     rbind (guard (0 \<le> idx) (ErrBadRequest ''call_index must be >= 0'')) (\<lambda>_.
       let plan = planForInput db p (t_input_id tr); n = nat idx; flat = flat_calls plan in
       if n < length flat \<and> pc_tool (flat ! n) = tool \<and> jsonb_eq (JObj (pc_request (flat ! n))) (JObj req)
       then rbind (require (planPosition plan n) ErrTurnConflict) (\<lambda>pos.
              Inr \<lparr>cx_input = t_input_id tr, cx_pos = pos, cx_index = n\<rparr>)
       else Inl ErrTurnConflict)))))"

definition cx_route :: "claim_ctx \<Rightarrow> string" where
  "cx_route cx = pc_route (ce_call (cx_pos cx))"

text \<open>
  \<^verbatim>\<open>INSERT INTO core_operations .. ON CONFLICT (persona_id, tool, idempotency_key) DO NOTHING\<close>; a
  duplicate operation id under another key is a duplicate key error.
\<close>

definition claim_insert ::
  "timestamp \<Rightarrow> string \<Rightarrow> string \<Rightarrow> int \<Rightarrow> string \<Rightarrow> string \<Rightarrow> string \<Rightarrow> jobj \<Rightarrow> op_status \<Rightarrow> 'd db
     \<Rightarrow> err + ('d db \<times> op_row \<times> bool)" where
  "claim_insert now p t gen opid tool key req status db =
     rbind (with_dataErr (text_params [opid])) (\<lambda>_.
     rbind (with_dataErr (jsonb_param (JObj req))) (\<lambda>_.
       case operationByKey db p tool key of
         Some o0 \<Rightarrow> Inr (db, o0, False)
       | None \<Rightarrow>
           if find (is_op p opid) (operations db) \<noteq> None then Inl (ErrStorage ''core_operations_pkey'')
           else
             let o' = \<lparr>o_persona_id = p, o_operation_id = opid, o_turn_id = t, o_tool = tool,
                       o_idempotency_key = key, o_request = req, o_status = status, o_response = None,
                       o_claimed_generation = gen, o_created_at = now, o_completed_at = None\<rparr>
             in Inr (db\<lparr>operations := operations db @ [o']\<rparr>, o', True)))"

text \<open>\<^verbatim>\<open>UPDATE core_operations SET status, response, completed_at .. RETURNING\<close>.\<close>

definition settled_row :: "timestamp \<Rightarrow> op_status \<Rightarrow> jobj option \<Rightarrow> op_row \<Rightarrow> op_row" where
  "settled_row now status resp o' = o'\<lparr>o_status := status, o_response := resp, o_completed_at := Some now\<rparr>"

definition finish_op ::
  "timestamp \<Rightarrow> (op_row \<Rightarrow> bool) \<Rightarrow> op_status \<Rightarrow> jobj option \<Rightarrow> 'd db \<Rightarrow> err + ('d db \<times> op_row)" where
  "finish_op now P status resp db =
     rbind (with_dataErr (jsonb_param (case resp of None \<Rightarrow> JNull | Some m \<Rightarrow> JObj m))) (\<lambda>_.
     rbind (require (find P (operations db)) (ErrStorage ''no rows'')) (\<lambda>o0.
       Inr (db\<lparr>operations := upd P (settled_row now status resp) (operations db)\<rparr>, settled_row now status resp o0)))"

type_synonym 'd claim_result = "err + ('d db \<times> op_row \<times> approval_row option \<times> bool)"

text \<open>Journal the outcome and commit.\<close>

definition journal_claim ::
  "'d store \<Rightarrow> string \<Rightarrow> string \<Rightarrow> claim_ctx \<Rightarrow> op_row \<Rightarrow> approval_row option \<Rightarrow> approval_row option \<Rightarrow> bool \<Rightarrow> 'd db
     \<Rightarrow> 'd claim_result" where
  "journal_claim st p t cx op ja a fresh db =
     rbind (journalOutcomeTx (st_fmt_time st) (st_sprint st) p t (cx_input cx) (cx_pos cx) op ja db)
       (\<lambda>db'. Inr (db', op, a, fresh))"

section \<open>Gated calls\<close>

definition gate_validation :: "'d store \<Rightarrow> op_row \<Rightarrow> err option" where
  "gate_validation st op =
     (case validateToolRequest (st_parse_time st) (o_tool op) (o_request op) of
        Inl e \<Rightarrow> Some e
      | Inr _ \<Rightarrow> (case effect_of st (o_tool op) of
          None \<Rightarrow> None
        | Some e \<Rightarrow> (case te_validate e of None \<Rightarrow> None | Some f \<Rightarrow> f (o_request op))))"

definition new_approval :: "'d store \<Rightarrow> timestamp \<Rightarrow> string \<Rightarrow> claim_ctx \<Rightarrow> op_row \<Rightarrow> string \<Rightarrow> approval_row" where
  "new_approval st now p cx op required_by =
     \<lparr>a_approval_id = approvalID (st_sha st) p (cx_input cx) (cx_index cx), a_persona_id = p,
      a_input_id = cx_input cx, a_call_index = cx_index cx, a_operation_id = o_operation_id op,
      a_turn_id = o_turn_id op, a_tool = o_tool op, a_route = cx_route cx, a_required_by = required_by,
      a_request = o_request op,
      a_action_digest = ActionDigest (st_sha st) (st_marshal st) (o_tool op) (cx_route cx) (o_request op),
      a_status = APending, a_decision = None, a_decision_id = None, a_decided_by_kind = None,
      a_decided_by_id = None, a_provenance = None, a_decided_at = None, a_consumed_at = None,
      a_created_at = now\<rparr>"

text \<open>\<^verbatim>\<open>INSERT INTO core_tool_approvals .. ON CONFLICT (persona_id, input_id, call_index) DO NOTHING\<close>.\<close>

definition insert_approval :: "approval_row \<Rightarrow> 'd db \<Rightarrow> err + 'd db" where
  "insert_approval a db =
     (if approvalForCall db (a_persona_id a) (a_input_id a) (a_call_index a) \<noteq> None then Inr db
      else if find (is_appr (a_persona_id a) (a_approval_id a)) (approvals db) \<noteq> None
      then Inl (ErrStorage ''core_tool_approvals_pkey'')
      else Inr (db\<lparr>approvals := approvals db @ [a]\<rparr>))"

definition consume_grant :: "timestamp \<Rightarrow> string \<Rightarrow> approval_row \<Rightarrow> 'd db \<Rightarrow> 'd db" where
  "consume_grant now p a db = db\<lparr>approvals := upd
     (\<lambda>x. is_appr p (a_approval_id a) x \<and> a_consumed_at x = None) (\<lambda>x. x\<lparr>a_consumed_at := Some now\<rparr>) (approvals db)\<rparr>"

definition awaits :: "string \<Rightarrow> op_row \<Rightarrow> op_row \<Rightarrow> bool" where
  "awaits p op x \<longleftrightarrow> is_op p (o_operation_id op) x \<and> o_status x = OAwaitingApproval"

text \<open>
  The approved call: the grant is consumed, the call journaled, the effect run. A deterministic
  refusal spends the grant and settles the operation failed, in the same transaction and over the
  statements the effect had run; after an aborted statement no further statement succeeds.
\<close>

definition run_approved ::
  "'d store \<Rightarrow> timestamp \<Rightarrow> nat \<Rightarrow> string \<Rightarrow> string \<Rightarrow> claim_ctx \<Rightarrow> op_row \<Rightarrow> approval_row \<Rightarrow> 'd db \<Rightarrow> 'd claim_result" where
  "run_approved st now clock p t cx op a db =
     (let a' = a\<lparr>a_consumed_at := Some now\<rparr>;
          fail = (\<lambda>e db2. if (case e of ErrBadRequest _ \<Rightarrow> False | _ \<Rightarrow> True) then Inl e
             else rbind (finish_op now (awaits p op) OFailed (Some [(''error'', JStr (errorText e))]) db2)
                    (\<lambda>(db3, op'). journal_claim st p t cx op' (Some a') (Some a') True db3)) in
      rbind (journalExperienceTx (st_fmt_time st) p t (cx_input cx) (decided (cx_pos cx)) (consume_grant now p a db)) (\<lambda>db1.
        case internalToolResponse st now clock p (o_turn_id op) (cx_input cx) (o_tool op) (cx_index cx)
               (o_idempotency_key op) (o_request op) db1 of
          Ran db2 resp True \<Rightarrow>
            rbind (finish_op now (awaits p op) ODone resp db2) (\<lambda>(db3, op').
              journal_claim st p t cx op' (Some a') (Some a') True db3)
        | Ran db2 resp False \<Rightarrow> fail (ErrBadRequest (o_tool op @ '' has no registered effect to run after approval'')) db2
        | Refused e db2 \<Rightarrow> fail e db2
        | Aborted e \<Rightarrow> Inl (if (case e of ErrBadRequest _ \<Rightarrow> True | _ \<Rightarrow> False)
                        then ErrStorage ''current transaction is aborted'' else e)))"

definition claim_decided ::
  "'d store \<Rightarrow> timestamp \<Rightarrow> nat \<Rightarrow> string \<Rightarrow> string \<Rightarrow> claim_ctx \<Rightarrow> op_row \<Rightarrow> bool \<Rightarrow> 'd db \<Rightarrow> 'd claim_result" where
  "claim_decided st now clock p t cx op fresh db =
     rbind (require (approvalForCall db p (cx_input cx) (cx_index cx)) (ErrStorage ''approval record missing'')) (\<lambda>a.
       case a_status a of
         APending \<Rightarrow>
           rbind (journalExperienceTx (st_fmt_time st) p t (cx_input cx) (awaiting (cx_pos cx) a) db)
             (\<lambda>db'. Inr (db', op, Some a, fresh))
       | AApproved \<Rightarrow>
           if a_consumed_at a \<noteq> None then journal_claim st p t cx op (Some a) (Some a) False db
           else run_approved st now clock p t cx op a db
       | ADenied \<Rightarrow> journal_claim st p t cx op (Some a) (Some a) False db)"

definition claimGated ::
  "'d store \<Rightarrow> timestamp \<Rightarrow> nat \<Rightarrow> string \<Rightarrow> string \<Rightarrow> claim_ctx \<Rightarrow> op_row \<Rightarrow> string \<Rightarrow> bool \<Rightarrow> 'd db \<Rightarrow> 'd claim_result" where
  "claimGated st now clock p t cx op required_by fresh db =
     (if o_status op \<noteq> OAwaitingApproval then
        (let a = approvalForCall db p (cx_input cx) (cx_index cx) in journal_claim st p t cx op a a False db)
      else if \<not> fresh then claim_decided st now clock p t cx op False db
      else case gate_validation st op of
        Some verr \<Rightarrow>
          rbind (finish_op now (is_op p (o_operation_id op)) OFailed (Some [(''error'', JStr (errorText verr))]) db)
            (\<lambda>(db1, op'). journal_claim st p t cx op' None None True db1)
      | None \<Rightarrow>
          rbind (insert_approval (new_approval st now p cx op required_by) db) (\<lambda>db1.
            claim_decided st now clock p t cx op True db1))"

section \<open>The operation\<close>

text \<open>A stored row under the key, with the reclaim of a fenced generation's running row.\<close>

definition claim_existing ::
  "'d store \<Rightarrow> string \<Rightarrow> string \<Rightarrow> int \<Rightarrow> string \<Rightarrow> string \<Rightarrow> jobj \<Rightarrow> op_row \<Rightarrow> 'd db
     \<Rightarrow> err + ('d db \<times> op_row \<times> bool)" where
  "claim_existing st p t gen tool key req o0 db =
     (if \<not> jsonb_eq (JObj (o_request o0)) (JObj req) then Inl ErrTurnConflict
      else if o_status o0 = ORunning \<and> o_claimed_generation o0 \<noteq> gen then
        (let f = (\<lambda>x. x\<lparr>o_claimed_generation := gen, o_turn_id := t\<rparr>) in
         Inr (db\<lparr>operations := upd (\<lambda>x. op_keyed p tool key x \<and> o_status x = ORunning) f (operations db)\<rparr>, f o0, True))
      else if (has_prefix tool ''job.'' \<or> tool = ''script.start'') \<and> o_status o0 = ODone then
        rbind (withCurrentJobTx (st_fmt_time st) db p (o_response o0)) (\<lambda>resp. Inr (db, o0\<lparr>o_response := resp\<rparr>, False))
      else Inr (db, o0, False))"

definition blocked_response :: "string \<Rightarrow> jobj" where
  "blocked_response tool = [(''error'', JStr ''blocked''), (''blocked'', JStr ''elevated_route_required''),
     (''detail'', JStr (tool @
        '' only runs as an elevated call the human approves; a normal call asks no one and is never re-routed''))]"

text \<open>A fresh normal-route claim: an identical denial, the elevated-only block, or the effect.\<close>

definition claim_fresh ::
  "'d store \<Rightarrow> timestamp \<Rightarrow> nat \<Rightarrow> string \<Rightarrow> string \<Rightarrow> int \<Rightarrow> claim_ctx \<Rightarrow> op_row \<Rightarrow> 'd db \<Rightarrow> 'd claim_result" where
  "claim_fresh st now clock p t gen cx op db =
     (case deniedIdenticalCall db p (cx_input cx) (o_tool op) (o_request op) of
        Some a \<Rightarrow>
          rbind (finish_op now (is_op p (o_operation_id op)) OFailed (Some (denialResponse a)) db) (\<lambda>(db1, op').
            journal_claim st p t cx op' (Some a) (Some a) True db1)
      | None \<Rightarrow>
          if elevatedOnlyTool (o_tool op) \<and> cx_route cx \<noteq> ''elevated'' then
            rbind (finish_op now (is_op p (o_operation_id op)) OFailed (Some (blocked_response (o_tool op))) db)
              (\<lambda>(db1, op'). journal_claim st p t cx op' None None True db1)
          else
            rbind (journalExperienceTx (st_fmt_time st) p t (cx_input cx) (decided (cx_pos cx)) db) (\<lambda>db1.
              case internalToolResponse st now clock p t (cx_input cx) (o_tool op) (cx_index cx)
                     (o_idempotency_key op) (o_request op) db1 of
                Ran db2 resp True \<Rightarrow>
                  rbind (finish_op now (\<lambda>x. is_op p (o_operation_id op) x \<and> o_claimed_generation x = gen) ODone resp db2)
                    (\<lambda>(db3, op'). journal_claim st p t cx op' None None True db3)
              | Ran _ _ False \<Rightarrow> Inl (ErrBadRequest (o_tool op @ '' has no registered effect to run''))
              | Refused e _ \<Rightarrow> Inl e
              | Aborted e \<Rightarrow> Inl e))"

definition claimOperation ::
  "'d store \<Rightarrow> timestamp \<Rightarrow> nat \<Rightarrow> string \<Rightarrow> string \<Rightarrow> int \<Rightarrow> string \<Rightarrow> string \<Rightarrow> int \<Rightarrow> jobj option \<Rightarrow> 'd db
     \<Rightarrow> 'd claim_result" where
  "claimOperation st now clock p t gen opid tool idx req0 db =
     (let req = or_empty req0 in
      rbind (claim_check st p t gen tool idx req db) (\<lambda>cx.
        let key = effect_key (cx_input cx) (cx_index cx);
            required_by = approvalRequirement tool (cx_route cx) in
        rbind (claim_insert now p t gen opid tool key req
                 (if required_by \<noteq> [] then OAwaitingApproval else ORunning) db) (\<lambda>(db1, op, fresh).
          if fresh then
            (if required_by \<noteq> [] then claimGated st now clock p t cx op required_by True db1
             else claim_fresh st now clock p t gen cx op db1)
          else
            rbind (claim_existing st p t gen tool key req op db1) (\<lambda>(db2, op2, reclaimed).
              if reclaimed then Inr (db2, op2, None, True)
              else if required_by \<noteq> [] then claimGated st now clock p t cx op2 required_by False db2
              else journal_claim st p t cx op2 None None False db2))))"

text \<open>The claim, and the journaling of its rejection in a transaction of its own.\<close>

definition ClaimOperation ::
  "'d store \<Rightarrow> timestamp \<Rightarrow> nat \<Rightarrow> string \<Rightarrow> string \<Rightarrow> int \<Rightarrow> string \<Rightarrow> string \<Rightarrow> int \<Rightarrow> jobj option \<Rightarrow> 'd db
     \<Rightarrow> 'd db \<times> (err + (op_row \<times> approval_row option \<times> bool))" where
  "ClaimOperation st now clock p t gen opid tool idx req db =
     (case run_tx (claimOperation st now clock p t gen opid tool idx req) db of
        (db1, Inr r) \<Rightarrow> (db1, Inr r)
      | (db1, Inl e) \<Rightarrow>
          if claimRejected e then
            (case run_tx (journalRejectedClaim (st_fmt_time st) p t gen idx tool req e) db1 of
               (db2, Inl e') \<Rightarrow> (db2, Inl e')
             | (db2, Inr _) \<Rightarrow> (db2, Inl e))
          else (db1, Inl e))"

definition CompleteOperation ::
  "'d store \<Rightarrow> timestamp \<Rightarrow> string \<Rightarrow> string \<Rightarrow> int \<Rightarrow> jobj option \<Rightarrow> bool \<Rightarrow> 'd db \<Rightarrow> err + ('d db \<times> op_row)" where
  "CompleteOperation st now p opid gen resp failed db =
     rbind (requireGeneration db p gen) (\<lambda>_.
       let P = (\<lambda>x. is_op p opid x \<and> o_claimed_generation x = gen \<and> o_status x = ORunning);
           status = (if failed then OFailed else ODone) in
       rbind (text_params [opid]) (\<lambda>_.
       rbind (jsonb_param (case resp of None \<Rightarrow> JNull | Some m \<Rightarrow> JObj m)) (\<lambda>_.
         case find P (operations db) of
           Some o0 \<Rightarrow>
             rbind (journalCompletedTx (st_fmt_time st) (st_sprint st) p (settled_row now status resp o0)
                (db\<lparr>operations := upd P (settled_row now status resp) (operations db)\<rparr>))
               (\<lambda>db'. Inr (db', settled_row now status resp o0))
         | None \<Rightarrow>
             (case find (is_op p opid) (operations db) of
                None \<Rightarrow> Inl ErrOpNotFound
              | Some x \<Rightarrow> if o_status x \<noteq> ORunning then Inr (db, x) else Inl ErrGenerationFence))))"

definition InputMayHaveCommittedEffects :: "'d store \<Rightarrow> 'd db \<Rightarrow> string \<Rightarrow> string \<Rightarrow> bool" where
  "InputMayHaveCommittedEffects st db p i \<longleftrightarrow>
     list_ex (\<lambda>x. o_persona_id x = p \<and> o_status x \<noteq> OFailed
        \<and> (case turn_of db p (o_turn_id x) of None \<Rightarrow> False | Some t \<Rightarrow> t_input_id t = i)
        \<and> \<not> operationReadOnly st (o_tool x) (o_request x)) (operations db)"

section \<open>Lemmas\<close>

lemma approvalRequirement_elevated: "approvalRequirement tool route \<noteq> [] \<longleftrightarrow> route = ''elevated''"
  using toolAuthority_no_intrinsic by (auto simp: approvalRequirement_def split: option.splits)

lemma ledger_eq:
  "ledger db' = ledger db \<longleftrightarrow> operations db' = operations db \<and> approvals db' = approvals db \<and> turns db' = turns db
     \<and> plans db' = plans db \<and> personas db' = personas db \<and> leases db' = leases db \<and> budgets db' = budgets db
     \<and> facts db' = facts db \<and> reservations db' = reservations db \<and> waits db' = waits db"
  by (auto simp: ledger_def)

lemma journal_claim_ok:
  assumes "journal_claim st p t cx op ja a fresh db = Inr (db', op', a', fresh')"
  shows "op' = op" "a' = a" "fresh' = fresh" "operations db' = operations db" "approvals db' = approvals db"
    "effect_state db' = effect_state db"
proof -
  from assms obtain db1 where j: "journalOutcomeTx (st_fmt_time st) (st_sprint st) p t (cx_input cx) (cx_pos cx) op ja db = Inr db1"
    and "Inr (db1, op, a, fresh) = (Inr (db', op', a', fresh') :: 'a claim_result)"
    unfolding journal_claim_def rbind_eq_Inr by blast
  then have r: "db' = db1" "op' = op" "a' = a" "fresh' = fresh" by simp_all
  from journalOutcomeTx_ledger [OF j] r show "op' = op" "a' = a" "fresh' = fresh" "operations db' = operations db"
    "approvals db' = approvals db" "effect_state db' = effect_state db" by (simp_all add: ledger_eq)
qed

lemma finish_op_ok:
  assumes "finish_op now P s r db = Inr (db', x)"
  shows "operations db' = upd P (settled_row now s r) (operations db)" "approvals db' = approvals db"
    "effect_state db' = effect_state db" "\<exists>o0. find P (operations db) = Some o0 \<and> x = settled_row now s r o0"
  using assms by (auto simp: finish_op_def res_simps effect_state_def)

abbreviation settled :: "op_row \<Rightarrow> bool" where
  "settled x \<equiv> o_status x \<in> {ODone, OFailed}"

text \<open>What a claim did: nothing to the ledger, or settled the operation.\<close>

definition untouched :: "'d db \<Rightarrow> 'd db \<Rightarrow> bool" where
  "untouched db db' \<longleftrightarrow> operations db' = operations db \<and> approvals db' = approvals db \<and> effect_state db' = effect_state db"

lemma untouched_journal:
  "journal_claim st p t cx op ja a fresh db = Inr (db', op', a', fresh') \<Longrightarrow> untouched db db'"
  by (auto simp: untouched_def dest: journal_claim_ok)

lemma run_approved_ok:
  assumes "run_approved st now clock p t cx op a db = Inr (db', op', a', fresh)"
  shows "\<exists>s r. s \<in> {ODone, OFailed} \<and> operations db' = upd (awaits p op) (settled_row now s r) (operations db)"
    "approvals db' = approvals (consume_grant now p a db)" "fresh"
proof -
  let ?a' = "a\<lparr>a_consumed_at := Some now\<rparr>"
  from assms obtain db1 where j: "journalExperienceTx (st_fmt_time st) p t (cx_input cx) (decided (cx_pos cx)) (consume_grant now p a db) = Inr db1"
    by (auto simp: run_approved_def Let_def res_simps)
  have 1: "operations db1 = operations db" "approvals db1 = approvals (consume_grant now p a db)"
    using journalExperienceTx_ledger(1) [OF j] by (simp_all add: ledger_eq consume_grant_def)
  let ?out = "internalToolResponse st now clock p (o_turn_id op) (cx_input cx) (o_tool op) (cx_index cx)
               (o_idempotency_key op) (o_request op) db1"
  have fin: "\<exists>db2 s r db3 x. outcome_db ?out = Some db2 \<and> s \<in> {ODone, OFailed} \<and>
      finish_op now (awaits p op) s r db2 = Inr (db3, x) \<and>
      journal_claim st p t cx x (Some ?a') (Some ?a') True db3 = Inr (db', op', a', fresh)"
    using assms j
    by (auto simp: run_approved_def Let_def res_simps outcome_db_def split: tool_outcome.splits bool.splits if_splits err.splits)
  then obtain db2 s r db3 x where o: "outcome_db ?out = Some db2" "s \<in> {ODone, OFailed}"
      "finish_op now (awaits p op) s r db2 = Inr (db3, x)"
      "journal_claim st p t cx x (Some ?a') (Some ?a') True db3 = Inr (db', op', a', fresh)" by blast
  have 2: "operations db2 = operations db1" "approvals db2 = approvals db1"
    using internalToolResponse_ledger [OF o(1)] by (simp_all add: ledger_eq)
  note f = finish_op_ok [OF o(3)] and jc = journal_claim_ok [OF o(4)]
  show "\<exists>s r. s \<in> {ODone, OFailed} \<and> operations db' = upd (awaits p op) (settled_row now s r) (operations db)"
    using o(2) f(1) jc(4) 1 2 by auto
  show "approvals db' = approvals (consume_grant now p a db)" "fresh" using f(2) jc(3,5) 1 2 by auto
qed

lemma claim_decided_cases:
  assumes "claim_decided st now clock p t cx op fresh db = Inr (db', op', a', fresh')"
  obtains (idle) "untouched db db'" "op' = op" "fresh' \<longrightarrow> fresh"
    | (ran) a where "approvalForCall db p (cx_input cx) (cx_index cx) = Some a" "a_status a = AApproved"
        "a_consumed_at a = None" "run_approved st now clock p t cx op a db = Inr (db', op', a', fresh')"
proof -
  from assms obtain a where a: "approvalForCall db p (cx_input cx) (cx_index cx) = Some a"
    by (auto simp: claim_decided_def res_simps)
  show thesis
  proof (cases "a_status a = AApproved \<and> a_consumed_at a = None")
    case True
    with assms a have "run_approved st now clock p t cx op a db = Inr (db', op', a', fresh')"
      by (simp add: claim_decided_def)
    with a True ran show thesis by blast
  next
    case False
    have "untouched db db' \<and> op' = op \<and> (fresh' \<longrightarrow> fresh)"
    proof (cases "a_status a")
      case APending
      with assms a obtain db1 where j: "journalExperienceTx (st_fmt_time st) p t (cx_input cx) (awaiting (cx_pos cx) a) db = Inr db1"
        and "db' = db1" "op' = op" "fresh' = fresh"
        by (auto simp: claim_decided_def res_simps)
      with journalExperienceTx_ledger [OF j] show ?thesis by (simp add: untouched_def ledger_eq)
    next
      case AApproved
      with assms a False have "journal_claim st p t cx op (Some a) (Some a) False db = Inr (db', op', a', fresh')"
        by (simp add: claim_decided_def)
      from journal_claim_ok [OF this] untouched_journal [OF this] show ?thesis by simp
    next
      case ADenied
      with assms a have "journal_claim st p t cx op (Some a) (Some a) False db = Inr (db', op', a', fresh')"
        by (simp add: claim_decided_def)
      from journal_claim_ok [OF this] untouched_journal [OF this] show ?thesis by simp
    qed
    with idle show thesis by blast
  qed
qed

text \<open>The shape of every ledger change of a claim: some rows of one operation settled.\<close>

definition settles :: "timestamp \<Rightarrow> (op_row \<Rightarrow> bool) \<Rightarrow> op_row list \<Rightarrow> op_row list \<Rightarrow> bool" where
  "settles now P rs rs' \<longleftrightarrow> rs' = rs \<or> (\<exists>s r. s \<in> {ODone, OFailed} \<and> rs' = upd P (settled_row now s r) rs)"

lemma settles_mono:
  assumes "settles now P rs rs'" "x \<in> set rs" "\<not> P x"
  shows "x \<in> set rs'"
  using assms by (auto simp: settles_def set_upd)

lemma claimGated_ok:
  assumes "claimGated st now clock p t cx op rb fresh db = Inr (db', op', a', fresh')"
  shows "\<exists>P. settles now P (operations db) (operations db') \<and>
       (\<forall>x. P x \<longrightarrow> is_op p (o_operation_id op) x \<and> (fresh \<or> o_status x = OAwaitingApproval))"
    and "effect_state db' \<noteq> effect_state db \<Longrightarrow>
       o_status op = OAwaitingApproval \<and>
       (\<exists>s r. s \<in> {ODone, OFailed} \<and> operations db' = upd (awaits p op) (settled_row now s r) (operations db)) \<and>
       (\<exists>a. approvalForCall db p (cx_input cx) (cx_index cx) = Some a \<and> a_status a = AApproved
          \<and> a_consumed_at a = None \<and> approvals db' = approvals (consume_grant now p a db))"
proof -
  let ?P = "\<lambda>x. is_op p (o_operation_id op) x \<and> (fresh \<or> o_status x = OAwaitingApproval)"
  let ?ran = "\<lambda>d. o_status op = OAwaitingApproval \<and>
       (\<exists>s r. s \<in> {ODone, OFailed} \<and> operations db' = upd (awaits p op) (settled_row now s r) (operations d)) \<and>
       (\<exists>a. approvalForCall d p (cx_input cx) (cx_index cx) = Some a \<and> a_status a = AApproved
          \<and> a_consumed_at a = None \<and> approvals db' = approvals (consume_grant now p a d))"
  have dec: "(\<exists>P. settles now P (operations d) (operations db') \<and> (\<forall>x. P x \<longrightarrow> ?P x)) \<and>
      (effect_state db' \<noteq> effect_state d \<longrightarrow> ?ran d)"
    if "claim_decided st now clock p t cx op f d = Inr (db', op', a', fresh')" "o_status op = OAwaitingApproval" for d f
    using that(1)
  proof (cases rule: claim_decided_cases)
    case idle
    then show ?thesis by (auto simp: untouched_def settles_def intro!: exI [of _ "\<lambda>_. False"])
  next
    case (ran a)
    note ok = run_approved_ok [OF ran(4)]
    have "settles now (awaits p op) (operations d) (operations db')" using ok(1) by (auto simp: settles_def)
    moreover have "awaits p op x \<longrightarrow> ?P x" for x by (simp add: awaits_def)
    ultimately show ?thesis using ok ran that(2) by blast
  qed
  consider (replay) "o_status op \<noteq> OAwaitingApproval"
    | (again) "o_status op = OAwaitingApproval" "\<not> fresh"
    | (invalid) e where "o_status op = OAwaitingApproval" "fresh" "gate_validation st op = Some e"
    | (park) "o_status op = OAwaitingApproval" "fresh" "gate_validation st op = None" by blast
  then have "(\<exists>P. settles now P (operations db) (operations db') \<and> (\<forall>x. P x \<longrightarrow> ?P x)) \<and>
      (effect_state db' \<noteq> effect_state db \<longrightarrow> ?ran db)"
  proof cases
    case replay
    let ?a = "approvalForCall db p (cx_input cx) (cx_index cx)"
    have "journal_claim st p t cx op ?a ?a False db = Inr (db', op', a', fresh')"
      using assms replay by (simp add: claimGated_def Let_def)
    from untouched_journal [OF this] show ?thesis
      by (auto simp: untouched_def settles_def intro!: exI [of _ "\<lambda>_. False"])
  next
    case again
    with assms have "claim_decided st now clock p t cx op False db = Inr (db', op', a', fresh')"
      by (simp add: claimGated_def)
    from dec [OF this again(1)] show ?thesis .
  next
    case (invalid e)
    with assms obtain db1 x where f: "finish_op now (is_op p (o_operation_id op)) OFailed (Some [(''error'', JStr (errorText e))]) db = Inr (db1, x)"
      and j: "journal_claim st p t cx x None None True db1 = Inr (db', op', a', fresh')"
      by (auto simp: claimGated_def rbind_eq_Inr)
    have "settles now (is_op p (o_operation_id op)) (operations db) (operations db')"
      using finish_op_ok(1) [OF f] journal_claim_ok(4) [OF j] by (auto simp: settles_def)
    moreover have "effect_state db' = effect_state db"
      using finish_op_ok(3) [OF f] journal_claim_ok(6) [OF j] by simp
    ultimately show ?thesis using invalid(2) by blast
  next
    case park
    with assms obtain db1 where i: "insert_approval (new_approval st now p cx op rb) db = Inr db1"
      and d: "claim_decided st now clock p t cx op True db1 = Inr (db', op', a', fresh')"
      by (auto simp: claimGated_def rbind_eq_Inr)
    have same: "operations db1 = operations db" "effect_state db1 = effect_state db"
      using i by (auto simp: insert_approval_def effect_state_def split: if_splits)
    have new: "approvalForCall db1 p (cx_input cx) (cx_index cx) = Some (new_approval st now p cx op rb)"
      if "db1 \<noteq> db"
      using i that by (auto simp: insert_approval_def new_approval_def approvalForCall_def find_append appr_call_def
          split: if_splits)
    have "db1 = db" if r: "?ran db1"
    proof (rule ccontr)
      from r obtain a where "approvalForCall db1 p (cx_input cx) (cx_index cx) = Some a" "a_status a = AApproved" by blast
      moreover assume "db1 \<noteq> db"
      moreover have "a_status (new_approval st now p cx op rb) = APending" by (simp add: new_approval_def)
      ultimately show False using new by simp
    qed
    note eq = this and dec1 = dec [OF d park(1)]
    have "\<exists>P. settles now P (operations db) (operations db') \<and> (\<forall>x. P x \<longrightarrow> ?P x)"
      using dec1 unfolding same(1) by blast
    moreover have "?ran db" if "effect_state db' \<noteq> effect_state db"
    proof -
      have "?ran db1" using dec1 that same(2) by simp
      moreover from eq [OF this] have "db1 = db" .
      ultimately show ?thesis by simp
    qed
    ultimately show ?thesis by blast
  qed
  then show "\<exists>P. settles now P (operations db) (operations db') \<and> (\<forall>x. P x \<longrightarrow> ?P x)"
    and "effect_state db' \<noteq> effect_state db \<Longrightarrow> ?ran db" by blast+
qed

lemma claim_fresh_ok:
  assumes "claim_fresh st now clock p t gen cx op db = Inr (db', op', a', fresh')"
  shows "\<exists>P s r. s \<in> {ODone, OFailed} \<and> operations db' = upd P (settled_row now s r) (operations db) \<and>
      (\<forall>x. P x \<longrightarrow> is_op p (o_operation_id op) x) \<and> (is_op p (o_operation_id op) op \<and> o_claimed_generation op = gen \<longrightarrow> P op)"
    and "effect_state db' \<noteq> effect_state db \<Longrightarrow>
      deniedIdenticalCall db p (cx_input cx) (o_tool op) (o_request op) = None \<and>
      (elevatedOnlyTool (o_tool op) \<longrightarrow> cx_route cx = ''elevated'')"
    and "approvals db' = approvals db"
proof -
  let ?op = "is_op p (o_operation_id op)"
  let ?ops = "\<exists>P s r. s \<in> {ODone, OFailed} \<and> operations db' = upd P (settled_row now s r) (operations db) \<and>
      (\<forall>x. P x \<longrightarrow> ?op x) \<and> (?op op \<and> o_claimed_generation op = gen \<longrightarrow> P op)"
  have fin: "?ops \<and> effect_state db' = effect_state d \<and> approvals db' = approvals d"
    if f: "finish_op now P s r d = Inr (d', x)" and j: "journal_claim st p t cx x ja a f' d' = Inr (db', op', a', fresh')"
      and "operations d = operations db" "s \<in> {ODone, OFailed}" "\<forall>x. P x \<longrightarrow> ?op x"
      "?op op \<and> o_claimed_generation op = gen \<longrightarrow> P op" for P s r d d' x ja a f'
  proof -
    have "operations db' = upd P (settled_row now s r) (operations db)"
      using finish_op_ok(1) [OF f] journal_claim_ok(4) [OF j] that(3) by simp
    with that finish_op_ok(2,3) [OF f] journal_claim_ok(5,6) [OF j] show ?thesis by auto
  qed
  consider (denied) a where "deniedIdenticalCall db p (cx_input cx) (o_tool op) (o_request op) = Some a"
    | (blocked) "deniedIdenticalCall db p (cx_input cx) (o_tool op) (o_request op) = None"
        "elevatedOnlyTool (o_tool op) \<and> cx_route cx \<noteq> ''elevated''"
    | (run) "deniedIdenticalCall db p (cx_input cx) (o_tool op) (o_request op) = None"
        "elevatedOnlyTool (o_tool op) \<longrightarrow> cx_route cx = ''elevated''"
    by (cases "deniedIdenticalCall db p (cx_input cx) (o_tool op) (o_request op)") auto
  then have "?ops \<and> approvals db' = approvals db \<and> (effect_state db' \<noteq> effect_state db \<longrightarrow>
      deniedIdenticalCall db p (cx_input cx) (o_tool op) (o_request op) = None \<and>
      (elevatedOnlyTool (o_tool op) \<longrightarrow> cx_route cx = ''elevated''))"
  proof cases
    case (denied a)
    with assms obtain d' x where "finish_op now ?op OFailed (Some (denialResponse a)) db = Inr (d', x)"
      "journal_claim st p t cx x (Some a) (Some a) True d' = Inr (db', op', a', fresh')"
      by (auto simp: claim_fresh_def rbind_eq_Inr)
    from fin [OF this] show ?thesis by blast
  next
    case blocked
    with assms obtain d' x where "finish_op now ?op OFailed (Some (blocked_response (o_tool op))) db = Inr (d', x)"
      "journal_claim st p t cx x None None True d' = Inr (db', op', a', fresh')"
      by (auto simp: claim_fresh_def rbind_eq_Inr)
    from fin [OF this] show ?thesis by blast
  next
    case run
    let ?out = "internalToolResponse st now clock p t (cx_input cx) (o_tool op) (cx_index cx) (o_idempotency_key op) (o_request op)"
    from assms run obtain db1 where j: "journalExperienceTx (st_fmt_time st) p t (cx_input cx) (decided (cx_pos cx)) db = Inr db1"
      by (auto simp: claim_fresh_def rbind_eq_Inr)
    obtain d resp where ran: "?out db1 = Ran d resp True"
    proof (cases "?out db1")
      case (Ran d resp internal)
      with assms run j that show thesis by (cases internal) (auto simp: claim_fresh_def)
    qed (use assms run j in \<open>auto simp: claim_fresh_def\<close>)
    with assms run j have "rbind (finish_op now (\<lambda>x. ?op x \<and> o_claimed_generation x = gen) ODone resp d)
        (\<lambda>(db3, op'). journal_claim st p t cx op' None None True db3) = Inr (db', op', a', fresh')"
      by (auto simp: claim_fresh_def)
    then obtain d' x where "finish_op now (\<lambda>x. ?op x \<and> o_claimed_generation x = gen) ODone resp d = Inr (d', x)"
      "journal_claim st p t cx x None None True d' = Inr (db', op', a', fresh')" by (auto simp: rbind_eq_Inr)
    note o = ran this
    have "outcome_db (?out db1) = Some d" using o(1) by (simp add: outcome_db_def)
    from internalToolResponse_ledger [OF this] journalExperienceTx_ledger(1) [OF j]
    have same: "operations d = operations db" "approvals d = approvals db" by (simp_all add: ledger_eq)
    have "?ops \<and> approvals db' = approvals db"
      using fin [OF o(2,3) same(1)] same(2) by simp
    with run show ?thesis by blast
  qed
  then show ?ops and "effect_state db' \<noteq> effect_state db \<Longrightarrow>
      deniedIdenticalCall db p (cx_input cx) (o_tool op) (o_request op) = None \<and>
      (elevatedOnlyTool (o_tool op) \<longrightarrow> cx_route cx = ''elevated'')"
    and "approvals db' = approvals db" by blast+
qed

text \<open>The claim as a whole.\<close>

lemma claimOperation_cases:
  assumes "claimOperation st now clock p t gen opid tool idx req db = Inr (db', op', a', fresh')"
  obtains (gated) cx op db1 where "claim_check st p t gen tool idx (or_empty req) db = Inr cx"
      "operationByKey db p tool (effect_key (cx_input cx) (cx_index cx)) = None" "cx_route cx = ''elevated''"
      "find (is_op p opid) (operations db) = None" "db1 = db\<lparr>operations := operations db @ [op]\<rparr>"
      "is_op p opid op" "o_operation_id op = opid" "op_keyed p tool (effect_key (cx_input cx) (cx_index cx)) op"
      "o_status op = OAwaitingApproval"
      "claimGated st now clock p t cx op (approvalRequirement tool (cx_route cx)) True db1 = Inr (db', op', a', fresh')"
    | (normal) cx op db1 where "claim_check st p t gen tool idx (or_empty req) db = Inr cx"
      "operationByKey db p tool (effect_key (cx_input cx) (cx_index cx)) = None" "cx_route cx \<noteq> ''elevated''"
      "find (is_op p opid) (operations db) = None" "db1 = db\<lparr>operations := operations db @ [op]\<rparr>"
      "is_op p opid op" "o_operation_id op = opid" "op_keyed p tool (effect_key (cx_input cx) (cx_index cx)) op"
      "o_claimed_generation op = gen" "o_tool op = tool" "o_request op = or_empty req"
      "claim_fresh st now clock p t gen cx op db1 = Inr (db', op', a', fresh')"
    | (reclaimed) cx o0 where "claim_check st p t gen tool idx (or_empty req) db = Inr cx"
      "operationByKey db p tool (effect_key (cx_input cx) (cx_index cx)) = Some o0" "o_status o0 = ORunning" "fresh'"
      "db' = db\<lparr>operations := upd (\<lambda>x. op_keyed p tool (effect_key (cx_input cx) (cx_index cx)) x \<and> o_status x = ORunning)
          (\<lambda>x. x\<lparr>o_claimed_generation := gen, o_turn_id := t\<rparr>) (operations db)\<rparr>"
    | (replayed) cx o0 resp where "claim_check st p t gen tool idx (or_empty req) db = Inr cx"
      "operationByKey db p tool (effect_key (cx_input cx) (cx_index cx)) = Some o0"
      "if cx_route cx = ''elevated''
       then claimGated st now clock p t cx (o0\<lparr>o_response := resp\<rparr>) (approvalRequirement tool (cx_route cx)) False db
              = Inr (db', op', a', fresh')
       else journal_claim st p t cx (o0\<lparr>o_response := resp\<rparr>) None None False db = Inr (db', op', a', fresh')"
proof -
  let ?req = "or_empty req"
  from assms obtain cx where cx: "claim_check st p t gen tool idx ?req db = Inr cx"
    by (auto simp: claimOperation_def Let_def rbind_eq_Inr)
  let ?key = "effect_key (cx_input cx) (cx_index cx)" and ?rb = "approvalRequirement tool (cx_route cx)"
  have rb: "?rb \<noteq> [] \<longleftrightarrow> cx_route cx = ''elevated''" by (simp add: approvalRequirement_elevated)
  from assms cx obtain db1 op fr where ins: "claim_insert now p t gen opid tool ?key ?req
        (if ?rb \<noteq> [] then OAwaitingApproval else ORunning) db = Inr (db1, op, fr)"
    by (auto simp: claimOperation_def Let_def rbind_eq_Inr)
  show thesis
  proof (cases "operationByKey db p tool ?key")
    case None
    with ins have fr: "fr" and no: "find (is_op p opid) (operations db) = None"
      and d1: "db1 = db\<lparr>operations := operations db @ [op]\<rparr>"
      and op: "is_op p opid op" "o_operation_id op = opid" "op_keyed p tool ?key op" "o_claimed_generation op = gen"
        "o_tool op = tool" "o_request op = ?req" "o_status op = (if ?rb \<noteq> [] then OAwaitingApproval else ORunning)"
      by (auto simp: claim_insert_def res_simps Let_def is_op_def op_keyed_def split: if_splits)
    show thesis
    proof (cases "cx_route cx = ''elevated''")
      case True
      with assms cx ins fr rb have "claimGated st now clock p t cx op ?rb True db1 = Inr (db', op', a', fresh')"
        by (simp add: claimOperation_def Let_def)
      moreover have "o_status op = OAwaitingApproval" using op(7) rb True by simp
      ultimately show thesis using gated [OF cx None True no d1 op(1-3)] by blast
    next
      case False
      with assms cx ins fr rb have "claim_fresh st now clock p t gen cx op db1 = Inr (db', op', a', fresh')"
        by (simp add: claimOperation_def Let_def)
      with cx None False no d1 op show thesis by (intro normal) simp_all
    qed
  next
    case (Some o0)
    with ins have e: "db1 = db" "op = o0" "\<not> fr" by (auto simp: claim_insert_def res_simps)
    with assms cx ins obtain db2 op2 rc where ex: "claim_existing st p t gen tool ?key ?req o0 db = Inr (db2, op2, rc)"
      by (auto simp: claimOperation_def Let_def rbind_eq_Inr)
    show thesis
    proof (cases rc)
      case True
      with assms cx ins e ex have r: "db' = db2" "fresh'" by (auto simp: claimOperation_def Let_def)
      from ex True have "o_status o0 = ORunning" "db2 = db\<lparr>operations := upd (\<lambda>x. op_keyed p tool ?key x \<and> o_status x = ORunning)
          (\<lambda>x. x\<lparr>o_claimed_generation := gen, o_turn_id := t\<rparr>) (operations db)\<rparr>"
        by (auto simp: claim_existing_def rbind_eq_Inr Let_def split: if_splits)
      with cx Some r show thesis by (intro reclaimed) simp_all
    next
      case False
      from ex False have "db2 = db" "\<exists>resp. op2 = o0\<lparr>o_response := resp\<rparr>"
        by (auto simp: claim_existing_def rbind_eq_Inr Let_def split: if_splits intro: exI [of _ "o_response o0"])
      then obtain resp where o2: "db2 = db" "op2 = o0\<lparr>o_response := resp\<rparr>" by blast
      have "if cx_route cx = ''elevated''
        then claimGated st now clock p t cx op2 ?rb False db = Inr (db', op', a', fresh')
        else journal_claim st p t cx op2 None None False db = Inr (db', op', a', fresh')"
      proof (cases "cx_route cx = ''elevated''")
        case True
        with assms cx ins e ex False rb o2(1) show ?thesis by (simp add: claimOperation_def Let_def)
      next
        case no: False
        with assms cx ins e ex False rb o2(1) show ?thesis by (simp add: claimOperation_def Let_def)
      qed
      then show thesis unfolding o2(2) by (rule replayed [OF cx Some])
    qed
  qed
qed


lemma op_keyed_settled [simp]: "op_keyed p tool k (settled_row now s r x) = op_keyed p tool k x"
  by (simp add: op_keyed_def settled_row_def)

lemma find_settled:
  "find (op_keyed p tool k) (upd P (settled_row now s r) rs)
     = map_option (\<lambda>x. if P x then settled_row now s r x else x) (find (op_keyed p tool k) rs)"
  by (rule find_upd) simp

lemma approvalForCall_consumed:
  assumes "approvalForCall db p i n = Some a" "a_consumed_at a = None"
  shows "approvalForCall (consume_grant now p a db) p i n = Some (a\<lparr>a_consumed_at := Some now\<rparr>)"
proof -
  let ?P = "\<lambda>x. is_appr p (a_approval_id a) x \<and> a_consumed_at x = None" and ?f = "\<lambda>x. x\<lparr>a_consumed_at := Some now\<rparr>"
  have "find (appr_call p i n) (upd ?P ?f (approvals db))
      = map_option (\<lambda>x. if ?P x then ?f x else x) (find (appr_call p i n) (approvals db))"
    by (rule find_upd) (simp add: appr_call_def)
  moreover have "is_appr p (a_approval_id a) a"
    using assms(1) by (auto simp: approvalForCall_def appr_call_def is_appr_def dest: find_SomeD)
  ultimately show ?thesis using assms by (simp add: approvalForCall_def consume_grant_def)
qed

lemma approvalForCall_cong: "approvals db' = approvals db \<Longrightarrow> approvalForCall db' p i n = approvalForCall db p i n"
  by (simp add: approvalForCall_def)

lemma deniedIdenticalCall_cong:
  "approvals db' = approvals db \<Longrightarrow> deniedIdenticalCall db' p i tool req = deniedIdenticalCall db p i tool req"
  by (simp add: deniedIdenticalCall_def)

text \<open>What had to hold for a claim to run an effect, and what it leaves.\<close>

definition effect_ran :: "timestamp \<Rightarrow> string \<Rightarrow> string \<Rightarrow> claim_ctx \<Rightarrow> jobj \<Rightarrow> 'd db \<Rightarrow> 'd db \<Rightarrow> bool" where
  "effect_ran now p tool cx req db db' \<longleftrightarrow>
     (let key = effect_key (cx_input cx) (cx_index cx) in
      (case operationByKey db p tool key of None \<Rightarrow> True | Some o0 \<Rightarrow> o_status o0 = OAwaitingApproval)
      \<and> (case operationByKey db' p tool key of None \<Rightarrow> False | Some o1 \<Rightarrow> settled o1)
      \<and> (if cx_route cx = ''elevated'' then
           (case approvalForCall db p (cx_input cx) (cx_index cx) of
              None \<Rightarrow> False
            | Some a \<Rightarrow> a_status a = AApproved \<and> a_consumed_at a = None \<and>
                approvalForCall db' p (cx_input cx) (cx_index cx) = Some (a\<lparr>a_consumed_at := Some now\<rparr>))
         else \<not> elevatedOnlyTool tool \<and> deniedIdenticalCall db p (cx_input cx) tool req = None))"

lemma gated_effect_ran:
  assumes "claimGated st now clock p t cx op rb fresh db1 = Inr (db', op', a', fresh')"
    and "effect_state db' \<noteq> effect_state db1" and "approvals db1 = approvals db" and "cx_route cx = ''elevated''"
    and "find (op_keyed p tool (effect_key (cx_input cx) (cx_index cx))) (operations db1) = Some o1"
    and "o_operation_id o1 = o_operation_id op" "o_status o1 = OAwaitingApproval"
    and "\<And>o0. operationByKey db p tool (effect_key (cx_input cx) (cx_index cx)) = Some o0 \<Longrightarrow> o_status o0 = OAwaitingApproval"
  shows "effect_ran now p tool cx req db db'"
proof -
  let ?k = "effect_key (cx_input cx) (cx_index cx)"
  from claimGated_ok(2) [OF assms(1,2)] obtain s r a where s: "s \<in> {ODone, OFailed}"
    and ops: "operations db' = upd (awaits p op) (settled_row now s r) (operations db1)"
    and a: "approvalForCall db1 p (cx_input cx) (cx_index cx) = Some a" "a_status a = AApproved" "a_consumed_at a = None"
    and ap: "approvals db' = approvals (consume_grant now p a db1)" by blast
  have "awaits p op o1" using find_SomeD [OF assms(5)] assms(6,7) by (simp add: awaits_def is_op_def op_keyed_def)
  then have "operationByKey db' p tool ?k = Some (settled_row now s r o1)"
    using assms(5) by (simp add: operationByKey_def ops find_settled)
  moreover have "settled (settled_row now s r o1)" using s by (simp add: settled_row_def)
  moreover have "approvalForCall db' p (cx_input cx) (cx_index cx) = Some (a\<lparr>a_consumed_at := Some now\<rparr>)"
    using approvalForCall_consumed [OF a(1,3)] approvalForCall_cong [OF ap] by simp
  moreover have "approvalForCall db p (cx_input cx) (cx_index cx) = Some a"
    using a(1) assms(3) by (simp add: approvalForCall_def)
  ultimately show ?thesis using a assms(4,8) by (simp add: effect_ran_def Let_def split: option.split)
qed

lemma claimOperation_effect:
  assumes "claimOperation st now clock p t gen opid tool idx req db = Inr (db', op', a', fresh')"
    and "effect_state db' \<noteq> effect_state db"
  shows "\<exists>cx. claim_check st p t gen tool idx (or_empty req) db = Inr cx \<and> effect_ran now p tool cx (or_empty req) db db'"
  using assms(1)
proof (cases rule: claimOperation_cases)
  case (gated cx op db1)
  have "effect_ran now p tool cx (or_empty req) db db'"
    by (rule gated_effect_ran [OF gated(10), where ?o1.0 = op])
      (use gated assms(2) in \<open>simp_all add: effect_state_def operationByKey_def find_append\<close>)
  with gated(1) show ?thesis by blast
next
  case (normal cx op db1)
  let ?k = "effect_key (cx_input cx) (cx_index cx)"
  have eff: "effect_state db' \<noteq> effect_state db1" using assms(2) normal(5) by (simp add: effect_state_def)
  note ok = claim_fresh_ok [OF normal(12)]
  from ok(1) normal(6-9) obtain P s r where s: "s \<in> {ODone, OFailed}"
    and ops: "operations db' = upd P (settled_row now s r) (operations db1)" and op: "P op" by blast
  have "operationByKey db' p tool ?k = Some (settled_row now s r op)"
    using normal(2,5,8) op by (simp add: operationByKey_def ops find_settled find_append del: upd_append)
  moreover have "settled (settled_row now s r op)" using s by (simp add: settled_row_def)
  moreover have "\<not> elevatedOnlyTool tool" "deniedIdenticalCall db1 p (cx_input cx) tool (or_empty req) = None"
    using ok(2) [OF eff] normal(3,10,11) by simp_all
  moreover have "deniedIdenticalCall db1 p (cx_input cx) tool (or_empty req) = deniedIdenticalCall db p (cx_input cx) tool (or_empty req)"
    by (rule deniedIdenticalCall_cong) (simp add: normal(5))
  ultimately have "effect_ran now p tool cx (or_empty req) db db'"
    using normal(2,3) by (simp add: effect_ran_def Let_def)
  with normal(1) show ?thesis by blast
next
  case (reclaimed cx o0)
  with assms(2) show ?thesis by (simp add: effect_state_def)
next
  case (replayed cx o0 resp)
  show ?thesis
  proof (cases "cx_route cx = ''elevated''")
    case True
    with replayed(3) have g: "claimGated st now clock p t cx (o0\<lparr>o_response := resp\<rparr>) (approvalRequirement tool (cx_route cx))
        False db = Inr (db', op', a', fresh')" by simp
    have aw: "o_status o0 = OAwaitingApproval" using claimGated_ok(2) [OF g assms(2)] by simp
    have "effect_ran now p tool cx (or_empty req) db db'"
      by (rule gated_effect_ran [OF g assms(2) refl True, where ?o1.0 = o0])
        (use replayed(2) aw in \<open>simp_all add: operationByKey_def\<close>)
    with replayed(1) show ?thesis by blast
  next
    case False
    with replayed(3) have "journal_claim st p t cx (o0\<lparr>o_response := resp\<rparr>) None None False db = Inr (db', op', a', fresh')"
      by simp
    from journal_claim_ok(6) [OF this] assms(2) show ?thesis by simp
  qed
qed

lemma claimOperation_keeps_settled:
  assumes "claimOperation st now clock p t gen opid tool idx req db = Inr (db', op', a', fresh')"
    and "x \<in> set (operations db)" "settled x"
  shows "x \<in> set (operations db')"
  using assms(1)
proof (cases rule: claimOperation_cases)
  case (gated cx op db1)
  obtain P where "settles now P (operations db1) (operations db')"
    "\<forall>y. P y \<longrightarrow> is_op p (o_operation_id op) y \<and> (True \<or> o_status y = OAwaitingApproval)"
    using claimGated_ok(1) [OF gated(10)] by blast
  moreover have "\<not> is_op p opid x" using gated(4) assms(2) by (rule find_None_notin)
  ultimately show ?thesis using settles_mono assms(2) gated(5,7) by fastforce
next
  case (normal cx op db1)
  obtain P s r where "operations db' = upd P (settled_row now s r) (operations db1)"
    "\<forall>y. P y \<longrightarrow> is_op p (o_operation_id op) y"
    using claim_fresh_ok(1) [OF normal(12)] by blast
  moreover have "\<not> is_op p opid x" using normal(4) assms(2) by (rule find_None_notin)
  ultimately show ?thesis using assms(2) normal(5,7) by (auto simp: set_upd)
next
  case (reclaimed cx o0)
  with assms(2,3) show ?thesis by (auto simp: set_upd)
next
  case (replayed cx o0 resp)
  show ?thesis
  proof (cases "cx_route cx = ''elevated''")
    case True
    with replayed(3) have "claimGated st now clock p t cx (o0\<lparr>o_response := resp\<rparr>) (approvalRequirement tool (cx_route cx))
        False db = Inr (db', op', a', fresh')" by simp
    from claimGated_ok(1) [OF this] obtain P where "settles now P (operations db) (operations db')"
      "\<forall>y. P y \<longrightarrow> o_status y = OAwaitingApproval" by blast
    then show ?thesis using settles_mono assms(2,3) by fastforce
  next
    case False
    with replayed(3) have "journal_claim st p t cx (o0\<lparr>o_response := resp\<rparr>) None None False db = Inr (db', op', a', fresh')"
      by simp
    from journal_claim_ok(4) [OF this] assms(2) show ?thesis by simp
  qed
qed

lemma journalRejectedClaim_ledger:
  assumes "journalRejectedClaim ft p t gen idx tool req e db = Inr (db', u)"
  shows "ledger db' = ledger db" "effect_state db' = effect_state db"
proof -
  have "db' = db \<or> (\<exists>t i es. journalExperienceTx ft p t i es db = Inr db')"
    using assms unfolding journalRejectedClaim_def rbind_eq_Inr
    by (auto simp: rbind_eq_Inr split: option.splits if_splits)
  then show "ledger db' = ledger db" "effect_state db' = effect_state db"
    using journalExperienceTx_ledger by metis+
qed

lemma ClaimOperation_cases:
  assumes "ClaimOperation st now clock p t gen opid tool idx req db = (db', r)"
  obtains (claimed) op' a' fresh' where "r = Inr (op', a', fresh')"
      "claimOperation st now clock p t gen opid tool idx req db = Inr (db', op', a', fresh')"
    | (refused) e where "r = Inl e" "operations db' = operations db" "approvals db' = approvals db"
      "effect_state db' = effect_state db"
proof (cases "claimOperation st now clock p t gen opid tool idx req db")
  case (Inl e)
  let ?j = "journalRejectedClaim (st_fmt_time st) p t gen idx tool req e"
  show thesis
  proof (cases "claimRejected e")
    case True
    show thesis
    proof (cases "?j db")
      case (Inl e')
      with True \<open>claimOperation _ _ _ _ _ _ _ _ _ _ _ = Inl e\<close> assms show thesis
        by (intro refused) (auto simp: ClaimOperation_def run_tx_def)
    next
      case (Inr y)
      then obtain d u where j: "?j db = Inr (d, u)" by (cases y) auto
      with True Inl assms have "db' = d" "\<exists>e. r = Inl e" by (auto simp: ClaimOperation_def run_tx_def)
      with journalRejectedClaim_ledger [OF j] show thesis by (auto simp: ledger_eq intro: refused)
    qed
  next
    case False
    with Inl assms show thesis by (intro refused) (auto simp: ClaimOperation_def run_tx_def)
  qed
next
  case (Inr y)
  then obtain d op a f where "claimOperation st now clock p t gen opid tool idx req db = Inr (d, op, a, f)" by (cases y) auto
  with assms show thesis by (intro claimed) (auto simp: ClaimOperation_def run_tx_def)
qed

lemma ClaimOperation_keeps_settled:
  assumes "x \<in> set (operations db)" "settled x"
  shows "x \<in> set (operations (fst (ClaimOperation st now clock p t gen opid tool idx req db)))"
proof -
  obtain d r where c: "ClaimOperation st now clock p t gen opid tool idx req db = (d, r)" by (rule prod.exhaust)
  then have "x \<in> set (operations d)"
  proof (cases rule: ClaimOperation_cases)
    case (claimed op' a' fresh')
    show ?thesis by (rule claimOperation_keeps_settled [OF claimed(2) assms])
  next
    case refused
    with assms(1) show ?thesis by simp
  qed
  with c show ?thesis by simp
qed

lemma CompleteOperation_keeps_settled:
  assumes "CompleteOperation st now p opid gen resp failed db = Inr (db', op)" "x \<in> set (operations db)" "settled x"
  shows "x \<in> set (operations db')"
proof -
  have journal: "operations d' = operations d" if "journalCompletedTx ft sp p o' d = Inr d'" for ft sp o' and d d' :: "'a db"
    using that by (auto simp: journalCompletedTx_def ledger_eq dest!: journalOutcomeTx_ledger(1)
        split: option.splits if_splits)
  let ?P = "\<lambda>y. is_op p opid y \<and> o_claimed_generation y = gen \<and> o_status y = ORunning"
  have "operations db' = operations db \<or> (\<exists>s. operations db' = upd ?P (settled_row now s resp) (operations db))"
    using assms(1) unfolding CompleteOperation_def Let_def rbind_eq_Inr
    by (auto simp: rbind_eq_Inr split: option.splits if_splits dest!: journal)
  then show ?thesis using assms(2,3) by (auto simp: set_upd)
qed

section \<open>Properties\<close>

text \<open>
  A settled operation is final: whatever is claimed next, by whichever generation, and
  whatever result is reported for whichever operation, every operation recorded done or failed
  stays in the ledger with the same request, response and completion time.
\<close>

theorem settled_operation_is_final:
  assumes "x \<in> set (operations db)" and "settled x"
  shows "x \<in> set (operations (fst (ClaimOperation st now clock p t gen opid tool idx req db)))
    \<and> (CompleteOperation st now p opid gen resp failed db = Inr (db', op) \<longrightarrow> x \<in> set (operations db'))"
  using ClaimOperation_keeps_settled [OF assms] CompleteOperation_keeps_settled [OF _ assms] by blast

text \<open>A recorded plan of two calls: a message on the normal route, the same message elevated.\<close>

definition demo_planned :: "unit db" where
  "demo_planned = demo_running\<lparr>plans := [\<lparr>pl_persona_id = ''p1'', pl_input_id = ''in-1'', pl_turn_id = ''t1'',
     pl_generation = 4, pl_plan = [\<lparr>d_text = ''sending'', d_calls =
       [\<lparr>pc_call_id = ''c1'', pc_tool = ''message.send'', pc_route = ''elevated'', pc_request = [(''text'', JStr ''hello'')]\<rparr>,
        \<lparr>pc_call_id = ''c2'', pc_tool = ''message.send'', pc_route = ''normal'', pc_request = [(''text'', JStr ''hello'')]\<rparr>],
       d_usage = [], d_continuation = None\<rparr>], pl_created_at = 30\<rparr>]\<rparr>"

definition demo_settled :: "unit db" where
  "demo_settled = demo_planned\<lparr>operations := [demo_op\<lparr>o_status := ODone\<rparr>]\<rparr>"

definition demo_granted :: "unit db" where
  "demo_granted = demo_planned\<lparr>operations := [demo_op], approvals := [demo_approval\<lparr>a_status := AApproved\<rparr>]\<rparr>"

definition demo_refused :: "unit db" where
  "demo_refused = demo_planned\<lparr>approvals := [demo_approval\<lparr>a_status := ADenied\<rparr>]\<rparr>"

text \<open>
  C1. An effect runs at most once, and only with the consent its route needs: when a claim
  changes anything a tool effect writes (Messaging, jobs, terminals, memory, schedules, outbox),
  the claim is of a call of the recorded plan whose operation did not exist or was still waiting,
  and the operation is settled by the same transaction. If the call was planned on the elevated
  route, the human's approval of this very call existed, had not been used, and is used up now;
  if it was planned on the normal route, the tool is not reserved to the elevated route and the
  human has not denied the identical call of this input.
\<close>

theorem effect_at_most_once_with_consent:
  assumes "ClaimOperation st now clock p t gen opid tool idx req db = (db', r)"
    and "effect_state db' \<noteq> effect_state db"
  shows "\<exists>cx res. r = Inr res \<and> claim_check st p t gen tool idx (or_empty req) db = Inr cx
    \<and> effect_ran now p tool cx (or_empty req) db db'"
  using assms(1)
proof (cases rule: ClaimOperation_cases)
  case (claimed op' a' fresh')
  with claimOperation_effect [OF claimed(2) assms(2)] show ?thesis by blast
next
  case refused
  with assms(2) show ?thesis by simp
qed

theorem effect_at_most_once_with_consent_witness:
  "\<exists>cx. claim_check demo_store ''p1'' ''t1'' 4 ''message.send'' 0 [(''text'', JStr ''hello'')] demo_granted = Inr cx
     \<and> effect_ran 60 ''p1'' ''message.send'' cx [(''text'', JStr ''hello'')] demo_granted
         (fst (ClaimOperation demo_store 60 0 ''p1'' ''t1'' 4 ''op-2'' ''message.send'' 0
            (Some [(''text'', JStr ''hello'')]) demo_granted))"
proof -
  let ?c = "ClaimOperation demo_store 60 0 ''p1'' ''t1'' 4 ''op-2'' ''message.send'' 0
            (Some [(''text'', JStr ''hello'')]) demo_granted"
  have "effect_state (fst ?c) \<noteq> effect_state demo_granted" by code_simp
  from effect_at_most_once_with_consent [OF prod.collapse [symmetric] this]
  show ?thesis by (auto simp: or_empty_def)
qed

text \<open>
  C2. A denial stands: once the human denied a call of an input, planning the identical call on
  the normal route runs nothing. The ledger gains one row, the operation of this call, stored as
  failed with the denial as its response, and every later claim of the same key reads that row;
  the other operations, the approvals and every effect table stay as they were.
\<close>

theorem denied_call_is_not_retried:
  assumes "ClaimOperation st now clock p t gen opid tool idx req db = (db', Inr (op', a', fresh'))"
    and "claim_check st p t gen tool idx (or_empty req) db = Inr cx" and "cx_route cx \<noteq> ''elevated''"
    and "operationByKey db p tool (effect_key (cx_input cx) (cx_index cx)) = None"
    and "deniedIdenticalCall db p (cx_input cx) tool (or_empty req) = Some a"
  shows "effect_state db' = effect_state db \<and> approvals db' = approvals db \<and> a' = Some a
    \<and> o_status op' = OFailed \<and> o_response op' = Some (denialResponse a) \<and> operations db' = operations db @ [op']
    \<and> operationByKey db' p tool (effect_key (cx_input cx) (cx_index cx)) = Some op'"
proof -
  from assms(1) have c: "claimOperation st now clock p t gen opid tool idx req db = Inr (db', op', a', fresh')"
    by (cases rule: ClaimOperation_cases) auto
  then show ?thesis
  proof (cases rule: claimOperation_cases)
    case (normal cx' op db1)
    have [simp]: "cx' = cx" using normal(1) assms(2) by simp
    have "deniedIdenticalCall db1 p (cx_input cx) tool (or_empty req) = Some a"
      using assms(5) deniedIdenticalCall_cong [of db1 db] normal(5) by simp
    with normal(10-12) obtain d x where f: "finish_op now (is_op p (o_operation_id op)) OFailed (Some (denialResponse a)) db1 = Inr (d, x)"
      and j: "journal_claim st p t cx x (Some a) (Some a) True d = Inr (db', op', a', fresh')"
      by (auto simp: claim_fresh_def rbind_eq_Inr)
    have "effect_state db1 = effect_state db" by (simp add: normal(5) effect_state_def)
    moreover have own: "is_op p (o_operation_id op) op" using normal(6,7) by simp
    with finish_op_ok(4) [OF f] normal(4,5,7) journal_claim_ok(1) [OF j]
    have op': "op' = settled_row now OFailed (Some (denialResponse a)) op" by (auto simp: find_append)
    moreover have "operations db' = operations db @ [op']"
      using finish_op_ok(1) [OF f] journal_claim_ok(4) [OF j] normal(4,5,7) own op' by (auto simp: upd_id find_None_iff)
    moreover from this have "operationByKey db' p tool (effect_key (cx_input cx) (cx_index cx)) = Some op'"
      using normal(2,8) op' by (simp add: operationByKey_def find_append op_keyed_def settled_row_def)
    ultimately show ?thesis using finish_op_ok(2,3) [OF f] journal_claim_ok(2,5,6) [OF j] normal(5) by (auto simp: settled_row_def)
  qed (use assms(2-4) in auto)
qed

theorem denied_call_is_not_retried_witness:
  "\<exists>d op a f. ClaimOperation demo_store 60 0 ''p1'' ''t1'' 4 ''op-2'' ''message.send'' 1
      (Some [(''text'', JStr ''hello'')]) demo_refused = (d, Inr (op, a, f))
    \<and> outbox d = [] \<and> operations d = operations demo_refused @ [op] \<and> o_status op = OFailed"
proof -
  let ?req = "[(''text'', JStr ''hello'')]" and ?a = "demo_approval\<lparr>a_status := ADenied\<rparr>"
  let ?c = "ClaimOperation demo_store 60 0 ''p1'' ''t1'' 4 ''op-2'' ''message.send'' 1 (Some ?req) demo_refused"
  let ?cx = "projr (claim_check demo_store ''p1'' ''t1'' 4 ''message.send'' 1 ?req demo_refused)"
  have ok: "isl (snd ?c) = False" "isl (claim_check demo_store ''p1'' ''t1'' 4 ''message.send'' 1 ?req demo_refused) = False"
    "cx_route ?cx \<noteq> ''elevated''"
    "operationByKey demo_refused ''p1'' ''message.send'' (effect_key (cx_input ?cx) (cx_index ?cx)) = None"
    "deniedIdenticalCall demo_refused ''p1'' (cx_input ?cx) ''message.send'' ?req = Some ?a"
    by code_simp+
  obtain d op a f where c: "?c = (d, Inr (op, a, f))" using ok(1) by (cases ?c; cases "snd ?c") auto
  have cx: "claim_check demo_store ''p1'' ''t1'' 4 ''message.send'' 1 (or_empty (Some ?req)) demo_refused = Inr ?cx"
    using ok(2) by (cases "claim_check demo_store ''p1'' ''t1'' 4 ''message.send'' 1 ?req demo_refused") (auto simp: or_empty_def)
  have e: "effect_state d = effect_state demo_refused" "operations d = operations demo_refused @ [op]" "o_status op = OFailed"
    using denied_call_is_not_retried [OF c cx ok(3,4)] ok(5) by (simp_all add: or_empty_def)
  moreover have "outbox d = []" using e(1) by (simp add: effect_state_def demo_refused_def demo_planned_def demo_run_defs)
  ultimately show ?thesis using c by blast
qed

text \<open>
  The identity of a job started by a tool call: the job id derived from the call's idempotency
  key is the one \<^verbatim>\<open>job.start\<close> mints for the same input and position, the input it was started for is
  read back from it, calls at different positions or for different inputs never share one, and no
  API submission may use it.
\<close>

lemma tool_job_identity:
  assumes "i \<noteq> []"
  shows "EffectJobID (effect_key i n) = Inr (tool_job_id i n) \<and> origin_input (tool_job_id i n) = Some i
    \<and> (tool_job_id i n = tool_job_id i' n' \<longrightarrow> i' = i \<and> n' = n) \<and> (\<exists>e. validJobID jh (tool_job_id i n) = Inl e)"
proof -
  have c: "CHR '':'' \<notin> set (itoa k)" for k by (rule itoa_no_colon)
  have s1: "split_last '':'' ('':'' @ itoa k) = Some ([], itoa k)" for k
    using split_last_none [OF _ c, of "'':''"] by simp
  have s2: "split_last '':tool:'' ('':tool:'' @ itoa n) = Some ([], itoa n)"
  proof -
    obtain d ds where d: "itoa n = d # ds" by (cases "itoa n") auto
    then have "d \<noteq> CHR ''t''" using itoa_digits [of n] by (auto simp: undigit_def)
    moreover have "split_last '':tool:'' (d # ds) = None" using split_last_none [OF _ c [of n], of "'':tool:''"] d by simp
    ultimately show ?thesis unfolding d by (simp del: split_last.simps(2) add: split_last.simps(2) [of _ "CHR '':''"]
      split_last.simps(2) [of _ "CHR ''t''"] split_last.simps(2) [of _ "CHR ''o''"] split_last.simps(2) [of _ "CHR ''l''"])
  qed
  have k: "EffectJobID (effect_key i n) = Inr (tool_job_id i n)"
    using split_last_shift [OF s2, of i] assms canonical_itoa [of n] by (simp add: EffectJobID_def effect_key_def tool_job_id_def)
  have o: "split_last '':'' (j @ '':'' @ itoa k) = Some (j, itoa k)" for j k using split_last_shift [OF s1] by simp
  have cut: "cut_prefix (tool_job_id j k) jobToolPrefix = j @ '':'' @ itoa k" for j k
    by (simp add: tool_job_id_def cut_prefix_def jobToolPrefix_def)
  have "i' = i \<and> n' = n" if "tool_job_id i n = tool_job_id i' n'"
    using that o [of i n] o [of i' n'] cut [of i n] cut [of i' n'] itoa_inj by auto
  moreover have "\<exists>e. validJobID jh (tool_job_id i n) = Inl e"
    by (auto simp: validJobID_def tool_job_id_def)
  ultimately show ?thesis using k o [of i n] assms by (simp add: origin_input_def cut)
qed
end
