(* ===== verification/Core_Turns.thy ===== *)
theory Core_Turns
  imports Core_Operations
begin

text \<open>
  Turns (\<^verbatim>\<open>store.go\<close>: \<^verbatim>\<open>LoadTurn\<close>, \<^verbatim>\<open>CommitTurn\<close>, \<^verbatim>\<open>recoverTerminalFailureNotice\<close>,
  \<^verbatim>\<open>retryBackoff\<close>, \<^verbatim>\<open>Recover\<close>). A turn claims the oldest due input, its commit writes the journal,
  the turn's outcome and the input's disposition in one transaction, and recovery under a fresh
  generation interrupts what older generations left running. The lemmas show that a commit can be
  resent, that the retry delay stays within its bounds for every \<^verbatim>\<open>int64\<close> hint, which input a
  turn serves, and that recovery leaves nothing claimed by a dead generation.
\<close>

section \<open>Loading\<close>

record load_result =
  lr_turn :: "turn_row option"
  lr_input :: "input_view option"
  lr_plan :: "plan_row option"
  lr_context :: rendered_context

definition is_running :: "string \<Rightarrow> turn_row \<Rightarrow> bool" where
  "is_running p t \<longleftrightarrow> t_persona_id t = p \<and> t_status t = TRunning"

definition running_turn :: "'d db \<Rightarrow> string \<Rightarrow> turn_row option" where
  "running_turn db p = find (is_running p) (turns db)"

definition due :: "timestamp \<Rightarrow> string \<Rightarrow> input_row \<Rightarrow> bool" where
  "due now p r \<longleftrightarrow> i_persona_id r = p \<and> i_status r = IQueued
     \<and> (case i_not_before r of None \<Rightarrow> True | Some n \<Rightarrow> n \<le> now)"

text \<open>\<^verbatim>\<open>ORDER BY admission_seq LIMIT 1\<close>.\<close>

definition next_input :: "timestamp \<Rightarrow> string \<Rightarrow> 'd db \<Rightarrow> input_row option" where
  "next_input now p db = (case sort_key i_admission_seq (filter (due now p) (inputs db)) of [] \<Rightarrow> None | r # _ \<Rightarrow> Some r)"

text \<open>Waiting on a person does not count as an attempt.\<close>

definition attempt_no :: "'d db \<Rightarrow> string \<Rightarrow> string \<Rightarrow> nat" where
  "attempt_no db p i = Suc (length (filter (\<lambda>t. t_persona_id t = p \<and> t_input_id t = i \<and> t_status t \<noteq> TAwaiting) (turns db)))"

definition claimed :: "int \<Rightarrow> input_row \<Rightarrow> input_row" where
  "claimed gen r = r\<lparr>i_status := IClaimed, i_claimed_generation := Some gen, i_not_before := None\<rparr>"

definition new_turn :: "timestamp \<Rightarrow> string \<Rightarrow> string \<Rightarrow> string \<Rightarrow> int \<Rightarrow> nat \<Rightarrow> turn_row" where
  "new_turn now p t i gen n =
     \<lparr>t_persona_id = p, t_turn_id = t, t_input_id = i, t_generation = gen, t_attempt = n, t_status = TRunning,
      t_started_at = now, t_finished_at = None, t_output = None, t_usage = None, t_error = None,
      t_commit_request = None\<rparr>"

text \<open>Claim the input, insert the turn (primary key), point the input at it.\<close>

definition begin_turn :: "timestamp \<Rightarrow> string \<Rightarrow> int \<Rightarrow> string \<Rightarrow> input_row \<Rightarrow> 'd db \<Rightarrow> err + ('d db \<times> turn_row \<times> input_view)" where
  "begin_turn now p gen t r db =
     (let i = i_input_id r;
          db1 = db\<lparr>inputs := upd (is_input p i) (claimed gen) (inputs db)\<rparr>;
          tr = new_turn now p t i gen (attempt_no db1 p i) in
      rbind (text_params [t]) (\<lambda>_.
      rbind (guard (turn_of db1 p t = None) (ErrStorage ''core_turns_pkey'')) (\<lambda>_.
        Inr (db1\<lparr>turns := turns db1 @ [tr],
                 inputs := upd (is_input p i) (\<lambda>x. x\<lparr>i_turn_id := Some t\<rparr>) (inputs db1)\<rparr>,
             tr, view db1 (claimed gen r)))))"

text \<open>\<open>new_id\<close> is the UUID drawn when the caller names no turn id.\<close>

definition LoadTurn ::
  "timestamp \<Rightarrow> string \<Rightarrow> string \<Rightarrow> int \<Rightarrow> string \<Rightarrow> 'd db \<Rightarrow> err + ('d db \<times> load_result)" where
  "LoadTurn now new_id p gen t db =
     rbind (requireGeneration db p gen) (\<lambda>_.
       case running_turn db p of
         Some tr \<Rightarrow>
           if t_generation tr \<noteq> gen then Inl ErrTurnConflict
           else rbind (require (input_of db p (t_input_id tr)) ErrInputNotFound) (\<lambda>r.
             rbind (renderedContext db p (i_input_id r)) (\<lambda>c.
               Inr (db, \<lparr>lr_turn = Some tr, lr_input = Some (view db r),
                         lr_plan = planForInput db p (i_input_id r), lr_context = c\<rparr>)))
       | None \<Rightarrow>
           (case next_input now p db of
              None \<Rightarrow> rbind (renderedContext db p []) (\<lambda>c.
                Inr (db, \<lparr>lr_turn = None, lr_input = None, lr_plan = None, lr_context = c\<rparr>))
            | Some r \<Rightarrow>
                rbind (begin_turn now p gen (if t = [] then new_id else t) r db) (\<lambda>(db1, tr, v).
                rbind (renderedContext db1 p (i_input_id r)) (\<lambda>c.
                  Inr (db1, \<lparr>lr_turn = Some tr, lr_input = Some v,
                             lr_plan = planForInput db1 p (i_input_id r), lr_context = c\<rparr>)))))"

section \<open>The commit request\<close>

text \<open>\<^verbatim>\<open>json.Marshal\<close> of the request: \<^verbatim>\<open>omitempty\<close> drops empty strings, zeros and nil pointers.\<close>

definition omit_str :: "string \<Rightarrow> string \<Rightarrow> jobj" where
  "omit_str k s = (if s = [] then [] else [(k, JStr s)])"

definition omit_int :: "string \<Rightarrow> int \<Rightarrow> jobj" where
  "omit_int k n = (if n = 0 then [] else [(k, jint n)])"

definition obj_or_null :: "jobj option \<Rightarrow> json" where
  "obj_or_null m = (case m of None \<Rightarrow> JNull | Some kvs \<Rightarrow> JObj kvs)"

definition funding_json :: "funding_ref \<Rightarrow> json" where
  "funding_json f = JObj ([(''kind'', JStr (f_kind f)), (''id'', JStr (f_id f))]
     @ omit_str ''version'' (f_version f) @ omit_str ''model'' (f_model f) @ omit_str ''provider'' (f_provider f))"

definition estimate_json :: "usage_estimate option \<Rightarrow> json" where
  "estimate_json e = (case e of
     None \<Rightarrow> JNull
   | Some x \<Rightarrow> JObj [(''input_tokens'', jint (est_input_tokens x)),
       (''output_tokens_bound'', case est_output_bound x of None \<Rightarrow> JNull | Some b \<Rightarrow> jint b)])"

definition wait_json :: "commit_wait \<Rightarrow> json" where
  "wait_json w = JObj [(''kind'', JStr (cw_kind w)), (''funding'', funding_json (cw_funding w)),
     (''estimate'', estimate_json (cw_estimate w))]"

definition event_json :: "event_input \<Rightarrow> json" where
  "event_json e = JObj [(''kind'', JStr (ei_kind e)), (''payload'', obj_or_null (ei_payload e))]"

definition commit_json :: "commit_request \<Rightarrow> json" where
  "commit_json r = JObj (
     [(''outcome'', JStr (cr_outcome r)),
      (''events'', case cr_events r of None \<Rightarrow> JNull | Some es \<Rightarrow> JArr (map event_json es)),
      (''output'', obj_or_null (cr_output r)), (''usage'', obj_or_null (cr_usage r)),
      (''error'', JStr (cr_error r)), (''retryable'', JBool (cr_retryable r))]
     @ omit_str ''error_kind'' (cr_error_kind r) @ omit_int ''retry_after_ms'' (cr_retry_after_ms r)
     @ (case cr_wait r of None \<Rightarrow> [] | Some w \<Rightarrow> [(''wait'', wait_json w)]))"

definition commit_events :: "commit_request \<Rightarrow> event_input list" where
  "commit_events r = (case cr_events r of None \<Rightarrow> [] | Some es \<Rightarrow> es)"

text \<open>The text of the error loses its NULs before anything is stored or compared.\<close>

definition normalized :: "commit_request \<Rightarrow> commit_request" where
  "normalized r = r\<lparr>cr_error := strip_NUL (cr_error r)\<rparr>"

section \<open>Retry pacing\<close>

text \<open>\<^verbatim>\<open>time.Duration\<close> is nanoseconds in an \<^verbatim>\<open>int64\<close>.\<close>

definition ms_ns :: int where
  "ms_ns = 1000000"

definition retryBackoff :: "int \<Rightarrow> int" where
  "retryBackoff attempt =
     (let s0 = i64 (attempt - 1); s1 = (if s0 < 0 then 0 else s0); shift = (if s1 > 8 then 8 else s1);
          d = i64 (i64 (200 * ms_ns) * 2 ^ nat shift)
      in if d > 30 * 1000 * ms_ns then 30 * 1000 * ms_ns else d)"

definition retry_delay :: "int \<Rightarrow> int \<Rightarrow> int" where
  "retry_delay attempt after_ms =
     (let delay = retryBackoff attempt; after = i64 (after_ms * ms_ns)
      in if after > delay then (if after > 2 * 60 * 1000 * ms_ns then 2 * 60 * 1000 * ms_ns else after) else delay)"

section \<open>Committing\<close>

definition set_turn :: "string \<Rightarrow> string \<Rightarrow> (turn_row \<Rightarrow> turn_row) \<Rightarrow> 'd db \<Rightarrow> 'd db" where
  "set_turn p t f db = db\<lparr>turns := upd (is_turn p t) f (turns db)\<rparr>"

definition set_input :: "string \<Rightarrow> string \<Rightarrow> (input_row \<Rightarrow> input_row) \<Rightarrow> 'd db \<Rightarrow> 'd db" where
  "set_input p i f db = db\<lparr>inputs := upd (is_input p i) f (inputs db)\<rparr>"

definition unclaimed :: "timestamp option \<Rightarrow> input_row \<Rightarrow> input_row" where
  "unclaimed not_before r = r\<lparr>i_status := IQueued, i_claimed_generation := None, i_turn_id := None,
     i_not_before := not_before\<rparr>"

definition parked_at :: "timestamp \<Rightarrow> input_row \<Rightarrow> input_row" where
  "parked_at now r = r\<lparr>i_status := IWaiting, i_waiting_since := Some now\<rparr>"

definition done_at :: "timestamp \<Rightarrow> input_row \<Rightarrow> input_row" where
  "done_at now r = r\<lparr>i_status := IDone, i_done_at := Some now\<rparr>"

definition awaiting_turn :: "timestamp \<Rightarrow> commit_request \<Rightarrow> turn_row \<Rightarrow> turn_row" where
  "awaiting_turn now req t = t\<lparr>t_status := TAwaiting, t_finished_at := Some now, t_commit_request := Some req\<rparr>"

definition wait_ok :: "commit_wait \<Rightarrow> bool" where
  "wait_ok w \<longleftrightarrow> cw_kind w = ''budget'' \<and> f_kind (cw_funding w) \<noteq> [] \<and> f_id (cw_funding w) \<noteq> []
     \<and> (case cw_estimate w of
          None \<Rightarrow> False
        | Some e \<Rightarrow> 0 \<le> est_input_tokens e \<and> (case est_output_bound e of None \<Rightarrow> True | Some b \<Rightarrow> 0 \<le> b))"

text \<open>The checks of a budget wait: stale funding, and the headroom under the budget row's lock.\<close>

definition wait_check ::
  "(string \<Rightarrow> string option) \<Rightarrow> string \<Rightarrow> commit_request \<Rightarrow> 'd db \<Rightarrow> err + (bool \<times> funding_headroom)" where
  "wait_check uuid_in p req db =
     (case (if cr_outcome req = ''await'' then cr_wait req else None) of
        None \<Rightarrow> Inr (False, \<lparr>h_budget = None, h_spent = 0, h_held = 0\<rparr>)
      | Some w \<Rightarrow>
          rbind (guard (wait_ok w) (ErrBadRequest ''wait must be a budget wait with funding and a non-negative estimate'')) (\<lambda>_.
          rbind (waitFundingStale uuid_in db p (cw_funding w)) (\<lambda>stale.
          rbind (fundingHeadroom db (f_kind (cw_funding w)) (f_id (cw_funding w))) (\<lambda>room.
            Inr (stale, room)))))"

text \<open>\<^verbatim>\<open>INSERT INTO core_budget_waits .. ON CONFLICT (persona_id, input_id) DO UPDATE\<close>.\<close>

definition upsert_wait :: "wait_row \<Rightarrow> 'd db \<Rightarrow> 'd db" where
  "upsert_wait w db =
     (if list_ex (is_wait (w_persona_id w) (w_input_id w)) (waits db)
      then db\<lparr>waits := upd (is_wait (w_persona_id w) (w_input_id w)) (\<lambda>_. w) (waits db)\<rparr>
      else db\<lparr>waits := waits db @ [w]\<rparr>)"

definition commit_budget_wait ::
  "timestamp \<Rightarrow> string \<Rightarrow> turn_row \<Rightarrow> commit_request \<Rightarrow> commit_wait \<Rightarrow> bool \<Rightarrow> funding_headroom \<Rightarrow> 'd db \<Rightarrow> err + 'd db" where
  "commit_budget_wait now p tr req w stale room db =
     (case cw_estimate w of
        None \<Rightarrow> Inl (ErrStorage ''nil estimate'')
      | Some est \<Rightarrow>
          rbind (fit room est) (\<lambda>(fits, needed).
            let i = t_input_id tr; f = cw_funding w in
            if fits \<or> stale then Inr (set_input p i (unclaimed None) db)
            else case h_budget room of
              None \<Rightarrow> Inl (ErrStorage ''nil budget'')
            | Some b \<Rightarrow>
                let wr = \<lparr>w_persona_id = p, w_input_id = i, w_turn_id = t_turn_id tr, w_funding_kind = f_kind f,
                          w_funding_id = f_id f, w_needed_minor = needed, w_currency = b_currency b,
                          w_est_input_tokens = est_input_tokens est, w_est_output_bound = est_output_bound est\<rparr> in
                rbind (with_dataErr (appendOutbox p ''budget_wait''
                   [(''turn_id'', JStr (t_turn_id tr)), (''input_id'', JStr i), (''funding_kind'', JStr (f_kind f)),
                    (''funding_id'', JStr (f_id f)), (''needed_minor'', jint needed), (''currency'', JStr (b_currency b))]
                   (upsert_wait wr (set_input p i (parked_at now) db)))) (\<lambda>(db1, _). Inr db1)))"

definition approval_json :: "approval_row \<Rightarrow> json" where
  "approval_json a = JObj [(''approval_id'', JStr (a_approval_id a)), (''tool'', JStr (a_tool a)),
     (''route'', JStr (a_route a)), (''required_by'', JStr (a_required_by a)), (''request'', JObj (a_request a)),
     (''action_digest'', JStr (a_action_digest a))]"

definition commit_approval_wait :: "timestamp \<Rightarrow> string \<Rightarrow> turn_row \<Rightarrow> 'd db \<Rightarrow> err + 'd db" where
  "commit_approval_wait now p tr db =
     (let i = t_input_id tr; pending = pendingApprovalsForInput db p i in
      if pending = [] then Inr (set_input p i (unclaimed None) db)
      else rbind (with_dataErr (appendOutbox p ''approval_requested''
             [(''turn_id'', JStr (t_turn_id tr)), (''input_id'', JStr i), (''approvals'', JArr (map approval_json pending))]
             (set_input p i (parked_at now) db))) (\<lambda>(db1, _). Inr db1))"

definition commit_complete :: "timestamp \<Rightarrow> string \<Rightarrow> turn_row \<Rightarrow> commit_request \<Rightarrow> 'd db \<Rightarrow> err + 'd db" where
  "commit_complete now p tr req db =
     rbind (with_dataErr (appendOutbox p ''turn_completed''
        [(''turn_id'', JStr (t_turn_id tr)), (''input_id'', JStr (t_input_id tr)), (''output'', obj_or_null (cr_output req))]
        (set_input p (t_input_id tr) (done_at now) db))) (\<lambda>(db1, _). Inr db1)"

definition commit_fail :: "timestamp \<Rightarrow> string \<Rightarrow> turn_row \<Rightarrow> commit_request \<Rightarrow> 'd db \<Rightarrow> err + 'd db" where
  "commit_fail now p tr req db =
     (if cr_retryable req then
        Inr (set_input p (t_input_id tr)
          (unclaimed (Some (now + go_div (retry_delay (int (t_attempt tr)) (cr_retry_after_ms req)) ms_ns * 1000))) db)
      else rbind (appendOutbox p ''turn_failed''
        [(''turn_id'', JStr (t_turn_id tr)), (''input_id'', JStr (t_input_id tr)), (''error'', JStr (cr_error req))]
        (set_input p (t_input_id tr) (done_at now) db)) (\<lambda>(db1, _). Inr db1))"

text \<open>The turn row each outcome writes.\<close>

definition finished_turn :: "timestamp \<Rightarrow> commit_request \<Rightarrow> turn_row \<Rightarrow> turn_row" where
  "finished_turn now req t =
     (if cr_outcome req = ''await'' then awaiting_turn now req t
      else if cr_outcome req = ''complete'' then
        t\<lparr>t_status := TDone, t_finished_at := Some now, t_output := cr_output req, t_usage := cr_usage req,
          t_commit_request := Some req\<rparr>
      else t\<lparr>t_status := TFailed, t_finished_at := Some now, t_error := Some (cr_error req),
             t_commit_request := Some req\<rparr>)"

definition dispose ::
  "timestamp \<Rightarrow> string \<Rightarrow> turn_row \<Rightarrow> commit_request \<Rightarrow> bool \<Rightarrow> funding_headroom \<Rightarrow> 'd db \<Rightarrow> err + 'd db" where
  "dispose now p tr req stale room db =
     (if cr_outcome req = ''await'' then
        (case cr_wait req of
           Some w \<Rightarrow> commit_budget_wait now p tr req w stale room db
         | None \<Rightarrow> commit_approval_wait now p tr db)
      else if cr_outcome req = ''complete'' then commit_complete now p tr req db
      else commit_fail now p tr req db)"

text \<open>
  The terminal-failure notice of another package: it appends to its own tables inside a savepoint
  of the commit; the first argument counts the attempts (in the commit, then once after it).
\<close>

record terminal_failure =
  tf_persona_id :: string
  tf_input_id :: string
  tf_turn_id :: string
  tf_error :: string
  tf_error_kind :: string

type_synonym 'd notice = "nat \<Rightarrow> terminal_failure \<Rightarrow> 'd db \<Rightarrow> err + 'd"

definition fire_notice ::
  "'d notice option \<Rightarrow> string \<Rightarrow> turn_row \<Rightarrow> commit_request \<Rightarrow> 'd db \<Rightarrow> 'd db \<times> terminal_failure option" where
  "fire_notice hook p tr req db =
     (case hook of
        None \<Rightarrow> (db, None)
      | Some h \<Rightarrow>
          if cr_outcome req \<noteq> ''fail'' \<or> cr_retryable req then (db, None)
          else let f = \<lparr>tf_persona_id = p, tf_input_id = t_input_id tr, tf_turn_id = t_turn_id tr,
                        tf_error = cr_error req, tf_error_kind = cr_error_kind req\<rparr> in
            (case h 0 f db of Inl _ \<Rightarrow> (db, Some f) | Inr d \<Rightarrow> (db\<lparr>domain := d\<rparr>, None)))"

definition recoverTerminalFailureNotice :: "'d notice option \<Rightarrow> terminal_failure \<Rightarrow> 'd db \<Rightarrow> 'd db" where
  "recoverTerminalFailureNotice hook f db =
     (case hook of
        None \<Rightarrow> db
      | Some h \<Rightarrow> (case h 1 f db of Inl _ \<Rightarrow> db | Inr d \<Rightarrow> db\<lparr>domain := d\<rparr>))"

definition commit_replay ::
  "'d notice option \<Rightarrow> string \<Rightarrow> int \<Rightarrow> turn_row \<Rightarrow> commit_request \<Rightarrow> 'd db
     \<Rightarrow> err + ('d db \<times> turn_row \<times> terminal_failure option)" where
  "commit_replay hook p gen tr req db =
     (if t_generation tr \<noteq> gen then Inl ErrTurnConflict
      else rbind (jsonb_param (commit_json req)) (\<lambda>_.
        if (case t_commit_request tr of None \<Rightarrow> False | Some r \<Rightarrow> jsonb_eq (commit_json r) (commit_json req))
        then let (db1, retry) = fire_notice hook p tr req db in Inr (db1, tr, retry)
        else Inl ErrTurnConflict))"

definition commit_fresh ::
  "(string \<Rightarrow> string option) \<Rightarrow> 'd notice option \<Rightarrow> timestamp \<Rightarrow> string \<Rightarrow> turn_row \<Rightarrow> commit_request \<Rightarrow> 'd db
     \<Rightarrow> err + ('d db \<times> turn_row \<times> terminal_failure option)" where
  "commit_fresh uuid_in hook now p tr req db =
     (let db1 = reconcileHeldReservations p (t_turn_id tr) None db in
      rbind (wait_check uuid_in p req db1) (\<lambda>(stale, room).
      rbind (journalCommit p (t_turn_id tr) (t_input_id tr) (commit_events req) db1) (\<lambda>db2.
      rbind (with_dataErr (jsonb_param (commit_json req))) (\<lambda>_.
      rbind (dispose now p tr req stale room (set_turn p (t_turn_id tr) (finished_turn now req) db2)) (\<lambda>db3.
        let (db4, retry) = fire_notice hook p tr req db3 in Inr (db4, finished_turn now req tr, retry))))))"

definition commitTurn ::
  "(string \<Rightarrow> string option) \<Rightarrow> 'd notice option \<Rightarrow> timestamp \<Rightarrow> string \<Rightarrow> string \<Rightarrow> int \<Rightarrow> commit_request \<Rightarrow> 'd db
     \<Rightarrow> err + ('d db \<times> turn_row \<times> terminal_failure option)" where
  "commitTurn uuid_in hook now p t gen req0 db =
     rbind (guard (cr_outcome req0 \<in> {''complete'', ''fail'', ''await''})
              (ErrBadRequest ''outcome must be complete, fail, or await'')) (\<lambda>_.
     rbind (requireGeneration db p gen) (\<lambda>_.
     rbind (require (turn_of db p t) ErrTurnNotFound) (\<lambda>tr.
       let req = normalized req0 in
       if t_status tr \<noteq> TRunning then commit_replay hook p gen tr req db
       else if t_generation tr \<noteq> gen then Inl ErrTurnConflict
       else commit_fresh uuid_in hook now p tr req db)))"

definition CommitTurn ::
  "(string \<Rightarrow> string option) \<Rightarrow> 'd notice option \<Rightarrow> timestamp \<Rightarrow> string \<Rightarrow> string \<Rightarrow> int \<Rightarrow> commit_request \<Rightarrow> 'd db
     \<Rightarrow> 'd db \<times> (err + turn_row)" where
  "CommitTurn uuid_in hook now p t gen req db =
     (case run_tx (commitTurn uuid_in hook now p t gen req) db of
        (db1, Inl e) \<Rightarrow> (db1, Inl e)
      | (db1, Inr (tr, None)) \<Rightarrow> (db1, Inr tr)
      | (db1, Inr (tr, Some f)) \<Rightarrow> (recoverTerminalFailureNotice hook f db1, Inr tr))"

section \<open>Recovery\<close>

record recover_result =
  rr_interrupted :: "string list"
  rr_requeued :: "string list"
  rr_released :: "string list"

definition stale_turn :: "string \<Rightarrow> int \<Rightarrow> turn_row \<Rightarrow> bool" where
  "stale_turn p gen t \<longleftrightarrow> t_persona_id t = p \<and> t_status t = TRunning \<and> t_generation t \<noteq> gen"

fun mark_all :: "string \<Rightarrow> turn_row list \<Rightarrow> 'd db \<Rightarrow> err + 'd db" where
  "mark_all p [] db = Inr db"
| "mark_all p (t # ts) db = rbind (markInterruptedTx p (t_turn_id t) (t_input_id t) db) (\<lambda>db1. mark_all p ts db1)"

definition stale_claim :: "string \<Rightarrow> int \<Rightarrow> string list \<Rightarrow> input_row \<Rightarrow> bool" where
  "stale_claim p gen ids r \<longleftrightarrow> i_persona_id r = p \<and> i_status r = IClaimed
     \<and> ((case i_claimed_generation r of None \<Rightarrow> False | Some g \<Rightarrow> g \<noteq> gen) \<or> i_input_id r \<in> set ids)"

definition stale_schedule :: "string \<Rightarrow> int \<Rightarrow> sched_row \<Rightarrow> bool" where
  "stale_schedule p gen s \<longleftrightarrow> s_persona_id s = p \<and> s_status s = SClaimed \<and> s_claimed_generation s \<noteq> Some gen"

definition Recover :: "timestamp \<Rightarrow> string \<Rightarrow> int \<Rightarrow> 'd db \<Rightarrow> err + ('d db \<times> recover_result)" where
  "Recover now p gen db =
     rbind (requireGeneration db p gen) (\<lambda>_.
       let ts = filter (stale_turn p gen) (turns db);
           db1 = db\<lparr>turns := upd (stale_turn p gen) (\<lambda>t. t\<lparr>t_status := TInterrupted, t_finished_at := Some now\<rparr>) (turns db)\<rparr> in
       rbind (mark_all p ts db1) (\<lambda>db2.
         let ids = map t_input_id ts;
             ins = filter (stale_claim p gen ids) (inputs db2);
             ss = filter (stale_schedule p gen) (schedules db2);
             db3 = db2\<lparr>inputs := upd (stale_claim p gen ids)
                 (\<lambda>r. r\<lparr>i_status := IQueued, i_claimed_generation := None, i_turn_id := None\<rparr>) (inputs db2),
               schedules := upd (stale_schedule p gen)
                 (\<lambda>s. s\<lparr>s_status := SPending, s_claimed_generation := None\<rparr>) (schedules db2)\<rparr>
         in Inr (reconcileHeldReservations p [] (Some gen) db3,
                 \<lparr>rr_interrupted = map t_turn_id ts, rr_requeued = map i_input_id ins,
                  rr_released = map s_schedule_id ss\<rparr>)))"

section \<open>Lemmas\<close>

text \<open>What each part of a commit leaves alone, as the fields it writes.\<close>

lemma set_defs: "set_turn p t f db = db\<lparr>turns := upd (is_turn p t) f (turns db)\<rparr>"
    "set_input p i g db = db\<lparr>inputs := upd (is_input p i) g (inputs db)\<rparr>"
  by (simp_all add: set_turn_def set_input_def)

lemma appendOutbox_frame: "appendOutbox p k m db = Inr (db', s) \<Longrightarrow> \<exists>b. db' = db\<lparr>outbox := b\<rparr>"
  unfolding appendOutbox_def rbind_eq_Inr Let_def by blast

lemma upsert_wait_frame: "\<exists>w'. upsert_wait w db = db\<lparr>waits := w'\<rparr>"
  by (auto simp: upsert_wait_def)

lemma outbox_step:
  assumes "rbind (appendOutbox p k m d) (\<lambda>(db1, _). Inr db1) = Inr db'"
  obtains b where "db' = d\<lparr>outbox := b\<rparr>"
proof -
  from assms obtain x where "appendOutbox p k m d = Inr (db', x)" by (auto simp: rbind_eq_Inr)
  from appendOutbox_frame [OF this] that show thesis by blast
qed

lemma outbox_step_dataErr:
  assumes "rbind (with_dataErr (appendOutbox p k m d)) (\<lambda>(db1, _). Inr db1) = Inr db'"
  obtains b where "db' = d\<lparr>outbox := b\<rparr>"
proof -
  from assms obtain x where "appendOutbox p k m d = Inr (db', x)" by (auto simp: rbind_eq_Inr with_dataErr_eq_Inr)
  from appendOutbox_frame [OF this] that show thesis by blast
qed

lemma set_input_frame: "set_input p i g db = db\<lparr>inputs := upd (is_input p i) g (inputs db), outbox := outbox db, waits := waits db\<rparr>"
  by (simp add: set_defs)

lemma upsert_wait_here: "list_ex (is_wait (w_persona_id w) (w_input_id w)) (waits (upsert_wait w db))"
proof (cases "list_ex (is_wait (w_persona_id w) (w_input_id w)) (waits db)")
  case True
  then obtain x where "x \<in> set (waits db)" "is_wait (w_persona_id w) (w_input_id w) x" by (auto simp: list_ex_iff)
  then have "w \<in> set (waits (upsert_wait w db))" using True by (auto simp: upsert_wait_def set_upd)
  then show ?thesis by (auto simp: list_ex_iff is_wait_def)
next
  case False
  then show ?thesis by (simp add: upsert_wait_def is_wait_def)
qed

lemma upsert_wait_others:
  "(p', i') \<noteq> (w_persona_id w, w_input_id w) \<Longrightarrow> list_ex (is_wait p' i') (waits db) \<Longrightarrow>
     list_ex (is_wait p' i') (waits (upsert_wait w db))"
proof -
  assume ne: "(p', i') \<noteq> (w_persona_id w, w_input_id w)" and "list_ex (is_wait p' i') (waits db)"
  then obtain x where x: "x \<in> set (waits db)" "is_wait p' i' x" by (auto simp: list_ex_iff)
  then have "\<not> is_wait (w_persona_id w) (w_input_id w) x" using ne by (auto simp: is_wait_def)
  then have "x \<in> set (waits (upsert_wait w db))" using x(1) by (auto simp: upsert_wait_def set_upd)
  with x(2) show ?thesis by (auto simp: list_ex_iff)
qed

text \<open>Where a commit sends the input it served.\<close>

definition disposition :: "timestamp \<Rightarrow> turn_row \<Rightarrow> commit_request \<Rightarrow> bool \<Rightarrow> input_row \<Rightarrow> input_row" where
  "disposition now tr req park =
     (if cr_outcome req = ''await'' then (if park then parked_at now else unclaimed None)
      else if cr_outcome req = ''complete'' \<or> \<not> cr_retryable req then done_at now
      else unclaimed (Some (now + go_div (retry_delay (int (t_attempt tr)) (cr_retry_after_ms req)) ms_ns * 1000)))"

lemma budget_wait_ok:
  assumes "commit_budget_wait now p tr req w stale room db = Inr db'" "cr_outcome req = ''await''"
  shows "\<exists>park b c. db' = db\<lparr>inputs := upd (is_input p (t_input_id tr)) (disposition now tr req park) (inputs db),
      outbox := b, waits := c\<rparr> \<and> (park \<longrightarrow> list_ex (is_wait p (t_input_id tr)) c)
      \<and> (\<forall>p' i'. (p', i') \<noteq> (p, t_input_id tr) \<longrightarrow> list_ex (is_wait p' i') (waits db) \<longrightarrow> list_ex (is_wait p' i') c)"
proof -
  let ?i = "t_input_id tr"
  from assms(1) obtain est where est: "cw_estimate w = Some est"
    by (cases "cw_estimate w") (auto simp: commit_budget_wait_def)
  from assms(1) est obtain fits needed where f: "fit room est = Inr (fits, needed)"
    by (auto simp: commit_budget_wait_def rbind_eq_Inr)
  show ?thesis
  proof (cases "fits \<or> stale")
    case True
    with assms est f have "db' = set_input p ?i (unclaimed None) db" by (simp add: commit_budget_wait_def Let_def)
    moreover have "unclaimed None = disposition now tr req False" using assms(2) by (simp add: disposition_def)
    ultimately show ?thesis using set_input_frame by metis
  next
    case False
    with assms(1) est f obtain b where b: "h_budget room = Some b"
      by (cases "h_budget room") (auto simp: commit_budget_wait_def Let_def)
    let ?wr = "\<lparr>w_persona_id = p, w_input_id = ?i, w_turn_id = t_turn_id tr, w_funding_kind = f_kind (cw_funding w),
                w_funding_id = f_id (cw_funding w), w_needed_minor = needed, w_currency = b_currency b,
                w_est_input_tokens = est_input_tokens est, w_est_output_bound = est_output_bound est\<rparr>"
    from assms(1) est f b False obtain k m where
      "rbind (with_dataErr (appendOutbox p k m (upsert_wait ?wr (set_input p ?i (parked_at now) db)))) (\<lambda>(db1, _). Inr db1) = Inr db'"
      by (auto simp: commit_budget_wait_def Let_def)
    then obtain ob where d: "db' = (upsert_wait ?wr (set_input p ?i (parked_at now) db))\<lparr>outbox := ob\<rparr>"
      by (rule outbox_step_dataErr)
    let ?c = "waits (upsert_wait ?wr (set_input p ?i (parked_at now) db))"
    obtain c where c: "upsert_wait ?wr (set_input p ?i (parked_at now) db) = (set_input p ?i (parked_at now) db)\<lparr>waits := c\<rparr>"
      using upsert_wait_frame by blast
    have here: "list_ex (is_wait p ?i) ?c"
      using upsert_wait_here [of ?wr] by simp
    have others: "list_ex (is_wait p' i') (waits db) \<longrightarrow> list_ex (is_wait p' i') ?c" if "(p', i') \<noteq> (p, ?i)" for p' i'
      using upsert_wait_others [of p' i' ?wr "set_input p ?i (parked_at now) db"] that by (auto simp: set_defs)
    have "parked_at now = disposition now tr req True" using assms(2) by (simp add: disposition_def)
    with d c have "db' = db\<lparr>inputs := upd (is_input p ?i) (disposition now tr req True) (inputs db), outbox := ob, waits := ?c\<rparr>"
      by (simp add: set_defs)
    with here others show ?thesis by blast
  qed
qed

lemma approval_wait_ok:
  assumes "commit_approval_wait now p tr db = Inr db'" "cr_outcome req = ''await''"
  shows "\<exists>park b. db' = db\<lparr>inputs := upd (is_input p (t_input_id tr)) (disposition now tr req park) (inputs db), outbox := b\<rparr>
      \<and> (park \<longrightarrow> approval_pending db p (t_input_id tr))"
proof (cases "pendingApprovalsForInput db p (t_input_id tr)")
  case Nil
  with assms(1) have d: "set_input p (t_input_id tr) (unclaimed None) db = db'" by (simp add: commit_approval_wait_def)
  have "unclaimed None = disposition now tr req False" using assms(2) by (simp add: disposition_def)
  with d have "db' = db\<lparr>inputs := upd (is_input p (t_input_id tr)) (disposition now tr req False) (inputs db), outbox := outbox db\<rparr>"
    unfolding d [symmetric] by (simp add: set_defs)
  then show ?thesis by blast
next
  case (Cons a as)
  with assms(1) obtain k m where "rbind (with_dataErr (appendOutbox p k m (set_input p (t_input_id tr) (parked_at now) db)))
      (\<lambda>(db1, _). Inr db1) = Inr db'"
    by (auto simp: commit_approval_wait_def Let_def)
  then obtain b where "db' = (set_input p (t_input_id tr) (parked_at now) db)\<lparr>outbox := b\<rparr>" by (rule outbox_step_dataErr)
  then have "db' = db\<lparr>inputs := upd (is_input p (t_input_id tr)) (disposition now tr req True) (inputs db), outbox := b\<rparr>"
    using assms(2) by (simp add: set_defs disposition_def)
  moreover have "a \<in> set (pendingApprovalsForInput db p (t_input_id tr))" using Cons by simp
  then have "approval_pending db p (t_input_id tr)"
    by (auto simp: approval_pending_def list_ex_iff pendingApprovalsForInput_def)
  ultimately show ?thesis by blast
qed

definition parks :: "commit_request \<Rightarrow> bool \<Rightarrow> bool" where
  "parks req park \<longleftrightarrow> park \<and> cr_outcome req = ''await''"

lemma dispose_ok:
  assumes "dispose now p tr req stale room db = Inr db'"
  shows "\<exists>park b c. db' = db\<lparr>inputs := upd (is_input p (t_input_id tr)) (disposition now tr req park) (inputs db),
      outbox := b, waits := c\<rparr>
    \<and> (parks req park \<longrightarrow> list_ex (is_wait p (t_input_id tr)) c \<or> approval_pending db p (t_input_id tr))
    \<and> (\<forall>p' i'. (p', i') \<noteq> (p, t_input_id tr) \<longrightarrow> list_ex (is_wait p' i') (waits db) \<longrightarrow> list_ex (is_wait p' i') c)"
proof -
  let ?i = "t_input_id tr"
  have settle: ?thesis if "\<not> cr_outcome req = ''await''" "db' = (set_input p ?i (disposition now tr req False) db)\<lparr>outbox := b\<rparr>" for b
    using that by (intro exI [of _ False] exI [of _ b] exI [of _ "waits db"]) (simp add: set_defs parks_def)
  consider (budget) w where "cr_outcome req = ''await''" "cr_wait req = Some w" "commit_budget_wait now p tr req w stale room db = Inr db'"
    | (approval) "cr_outcome req = ''await''" "commit_approval_wait now p tr db = Inr db'"
    | (complete) "cr_outcome req = ''complete''" "commit_complete now p tr req db = Inr db'"
    | (fail) "cr_outcome req \<noteq> ''await''" "cr_outcome req \<noteq> ''complete''" "commit_fail now p tr req db = Inr db'"
    using assms by (auto simp: dispose_def split: if_splits option.splits)
  then show ?thesis
  proof cases
    case budget
    from budget_wait_ok [OF budget(3,1)] obtain park b c where
      d: "db' = db\<lparr>inputs := upd (is_input p ?i) (disposition now tr req park) (inputs db), outbox := b, waits := c\<rparr>"
      and w: "park \<longrightarrow> list_ex (is_wait p ?i) c"
      "\<forall>p' i'. (p', i') \<noteq> (p, ?i) \<longrightarrow> list_ex (is_wait p' i') (waits db) \<longrightarrow> list_ex (is_wait p' i') c" by blast
    show ?thesis by (rule exI [of _ park], rule exI [of _ b], rule exI [of _ c]) (use d w in \<open>simp add: parks_def\<close>)
  next
    case approval
    from approval_wait_ok [OF approval(2,1)] obtain park b where
      "db' = db\<lparr>inputs := upd (is_input p ?i) (disposition now tr req park) (inputs db), outbox := b\<rparr>"
      "park \<longrightarrow> approval_pending db p ?i" by blast
    then show ?thesis
      by (intro exI [of _ park] exI [of _ b] exI [of _ "waits db"]) (simp add: parks_def)
  next
    case complete
    from complete(2) obtain b where "db' = (set_input p ?i (done_at now) db)\<lparr>outbox := b\<rparr>"
      unfolding commit_complete_def by (rule outbox_step_dataErr)
    moreover have "done_at now = disposition now tr req False" using complete(1) by (simp add: disposition_def)
    ultimately show ?thesis by (intro settle) (simp_all add: complete(1))
  next
    case fail
    show ?thesis
    proof (cases "cr_retryable req")
      case True
      have "disposition now tr req False =
          unclaimed (Some (now + go_div (retry_delay (int (t_attempt tr)) (cr_retry_after_ms req)) ms_ns * 1000))"
        using fail(1,2) True by (simp add: disposition_def)
      with fail(3) True have d: "set_input p ?i (disposition now tr req False) db = db'" by (simp add: commit_fail_def)
      have "db' = (set_input p ?i (disposition now tr req False) db)\<lparr>outbox := outbox db\<rparr>"
        unfolding d [symmetric] by (simp add: set_defs)
      with fail(1) show ?thesis by (intro settle) simp_all
    next
      case False
      with fail(3) have "rbind (appendOutbox p ''turn_failed''
        [(''turn_id'', JStr (t_turn_id tr)), (''input_id'', JStr ?i), (''error'', JStr (cr_error req))]
        (set_input p ?i (done_at now) db)) (\<lambda>(db1, _). Inr db1) = Inr db'" by (simp add: commit_fail_def)
      then obtain b where "db' = (set_input p ?i (done_at now) db)\<lparr>outbox := b\<rparr>" by (rule outbox_step)
      moreover have "done_at now = disposition now tr req False" using fail False by (simp add: disposition_def)
      ultimately show ?thesis using fail(1) by (intro settle) simp_all
    qed
  qed
qed

lemma journalCommit_frame:
  assumes "journalCommit p t i es db = Inr db'"
  shows "\<exists>a b g. db' = db\<lparr>events := a, inputs := b\<rparr> \<and> b = map g (inputs db)
    \<and> (\<forall>r. (i_persona_id (g r), i_input_id (g r), i_status (g r), input_face (g r)) = (i_persona_id r, i_input_id r, i_status r, input_face r))"
proof -
  from journalCommit_ok [OF assms] obtain es2 db1 where a: "appendEventsTx p t es2 db = Inr db1"
    and d: "db' = linkReceipts p (last_seq db p) db1" by blast
  from appendEventsTx_ok(1) [OF a] obtain e where e: "db1 = db\<lparr>events := e\<rparr>" by blast
  let ?P = "\<lambda>r. i_persona_id r = p \<and> i_received_seq r = None \<and> new_receipt db1 p (last_seq db p) (i_input_id r) \<noteq> None"
  let ?f = "\<lambda>r. r\<lparr>i_received_seq := new_receipt db1 p (last_seq db p) (i_input_id r)\<rparr>"
  have "db' = db\<lparr>events := e, inputs := map (\<lambda>r. if ?P r then ?f r else r) (inputs db)\<rparr>"
    unfolding d linkReceipts_def upd_def by (simp add: e)
  then show ?thesis
    by (intro exI [of _ e] exI [of _ "map (\<lambda>r. if ?P r then ?f r else r) (inputs db)"] exI [of _ "\<lambda>r. if ?P r then ?f r else r"])
      simp
qed

lemma reconcile_frame: "\<exists>a b. reconcileHeldReservations p t below db = db\<lparr>facts := a, reservations := b\<rparr>"
  by (auto simp: reconcileHeldReservations_def set_reservations_def)

lemma fire_notice_frame: "fire_notice hook p tr req db = (db', retry) \<Longrightarrow> \<exists>d. db' = db\<lparr>domain := d\<rparr>"
  by (auto simp: fire_notice_def Let_def split: option.splits if_splits sum.splits intro: exI [of _ "domain db"])

text \<open>A committed turn: the row it wrote, and the input it disposed of.\<close>

lemma commit_fresh_ok:
  assumes "commit_fresh u hook now p tr req db = Inr (db', tr', retry)"
  shows "tr' = finished_turn now req tr" "storable (commit_json req)"
    "\<exists>ts js ob ws es fs rs d g park. db' = db\<lparr>turns := ts, inputs := js, outbox := ob, waits := ws, events := es,
        facts := fs, reservations := rs, domain := d\<rparr>
      \<and> ts = upd (is_turn p (t_turn_id tr)) (finished_turn now req) (turns db)
      \<and> js = upd (is_input p (t_input_id tr)) (disposition now tr req park) (map g (inputs db))
      \<and> (\<forall>r. (i_persona_id (g r), i_input_id (g r), i_status (g r), input_face (g r)) = (i_persona_id r, i_input_id r, i_status r, input_face r))
      \<and> (parks req park \<longrightarrow> list_ex (is_wait p (t_input_id tr)) ws \<or> approval_pending db p (t_input_id tr))
      \<and> (\<forall>p' i'. (p', i') \<noteq> (p, t_input_id tr) \<longrightarrow> list_ex (is_wait p' i') (waits db) \<longrightarrow> list_ex (is_wait p' i') ws)"
proof -
  let ?db1 = "reconcileHeldReservations p (t_turn_id tr) None db"
  have unfold: "rbind (wait_check u p req ?db1) (\<lambda>(stale, room).
      rbind (journalCommit p (t_turn_id tr) (t_input_id tr) (commit_events req) ?db1) (\<lambda>db2.
      rbind (with_dataErr (jsonb_param (commit_json req))) (\<lambda>_.
      rbind (dispose now p tr req stale room (set_turn p (t_turn_id tr) (finished_turn now req) db2)) (\<lambda>db3.
        let (db4, retry) = fire_notice hook p tr req db3 in Inr (db4, finished_turn now req tr, retry))))) = Inr (db', tr', retry)"
    using assms unfolding commit_fresh_def by (simp only: Let_def)
  then obtain stale room where w: "wait_check u p req ?db1 = Inr (stale, room)"
    by (cases "wait_check u p req ?db1") auto
  note unfold = unfold [unfolded w rbind_Inr prod.case]
  then obtain db2 where j: "journalCommit p (t_turn_id tr) (t_input_id tr) (commit_events req) ?db1 = Inr db2"
    by (cases "journalCommit p (t_turn_id tr) (t_input_id tr) (commit_events req) ?db1") auto
  note unfold = unfold [unfolded j rbind_Inr]
  have st: "storable (commit_json req)"
    using unfold by (cases "storable (commit_json req)") (simp_all add: jsonb_param_def)
  note unfold = unfold [unfolded jsonb_param_simps [OF st] with_dataErr_simps rbind_Inr]
  then obtain db3 where d: "dispose now p tr req stale room (set_turn p (t_turn_id tr) (finished_turn now req) db2) = Inr db3"
    by (cases "dispose now p tr req stale room (set_turn p (t_turn_id tr) (finished_turn now req) db2)") auto
  note n = unfold [unfolded d rbind_Inr]
  obtain db4 rt where fn: "fire_notice hook p tr req db3 = (db4, rt)" by fastforce
  with n have r: "db' = db4" "tr' = finished_turn now req tr" by simp_all
  show "tr' = finished_turn now req tr" "storable (commit_json req)" by (fact r st)+
  obtain fs rs where 1: "?db1 = db\<lparr>facts := fs, reservations := rs\<rparr>" using reconcile_frame by blast
  obtain es js g where 2: "db2 = ?db1\<lparr>events := es, inputs := js\<rparr>" "js = map g (inputs ?db1)"
    "\<forall>r. (i_persona_id (g r), i_input_id (g r), i_status (g r), input_face (g r)) = (i_persona_id r, i_input_id r, i_status r, input_face r)"
    using journalCommit_frame [OF j] by blast
  let ?db3 = "set_turn p (t_turn_id tr) (finished_turn now req) db2"
  obtain park ob ws where 3: "db3 = ?db3\<lparr>inputs := upd (is_input p (t_input_id tr)) (disposition now tr req park) (inputs ?db3),
      outbox := ob, waits := ws\<rparr>"
    "parks req park \<longrightarrow> list_ex (is_wait p (t_input_id tr)) ws \<or> approval_pending ?db3 p (t_input_id tr)"
    "\<forall>p' i'. (p', i') \<noteq> (p, t_input_id tr) \<longrightarrow> list_ex (is_wait p' i') (waits ?db3) \<longrightarrow> list_ex (is_wait p' i') ws"
    using dispose_ok [OF d] by blast
  obtain dm where 4: "db' = db3\<lparr>domain := dm\<rparr>" using fire_notice_frame [OF fn] r(1) by blast
  have same: "approval_pending ?db3 p (t_input_id tr) = approval_pending db p (t_input_id tr)" "waits ?db3 = waits db"
    by (simp_all add: approval_pending_def set_defs 2(1) 1)
  show "\<exists>ts js ob ws es fs rs d g park. db' = db\<lparr>turns := ts, inputs := js, outbox := ob, waits := ws, events := es,
        facts := fs, reservations := rs, domain := d\<rparr>
      \<and> ts = upd (is_turn p (t_turn_id tr)) (finished_turn now req) (turns db)
      \<and> js = upd (is_input p (t_input_id tr)) (disposition now tr req park) (map g (inputs db))
      \<and> (\<forall>r. (i_persona_id (g r), i_input_id (g r), i_status (g r), input_face (g r)) = (i_persona_id r, i_input_id r, i_status r, input_face r))
      \<and> (parks req park \<longrightarrow> list_ex (is_wait p (t_input_id tr)) ws \<or> approval_pending db p (t_input_id tr))
      \<and> (\<forall>p' i'. (p', i') \<noteq> (p, t_input_id tr) \<longrightarrow> list_ex (is_wait p' i') (waits db) \<longrightarrow> list_ex (is_wait p' i') ws)"
  proof (intro exI conjI)
    show "db' = db\<lparr>turns := upd (is_turn p (t_turn_id tr)) (finished_turn now req) (turns db),
        inputs := upd (is_input p (t_input_id tr)) (disposition now tr req park) (map g (inputs db)), outbox := ob,
        waits := ws, events := es, facts := fs, reservations := rs, domain := dm\<rparr>"
      unfolding 4 3(1) set_defs 2(1,2) 1 by simp
  qed (use 2(3) 3(2,3) same in simp_all)
qed

lemma recoverNotice_frame: "\<exists>d. recoverTerminalFailureNotice hook f db = db\<lparr>domain := d\<rparr>"
  by (auto simp: recoverTerminalFailureNotice_def split: option.splits sum.splits intro: exI [of _ "domain db"])

lemma CommitTurn_tx:
  assumes "CommitTurn u hook now p t gen req db = (db', Inr tr')"
  shows "\<exists>db1 retry d. commitTurn u hook now p t gen req db = Inr (db1, tr', retry) \<and> db' = db1\<lparr>domain := d\<rparr>"
proof (cases "commitTurn u hook now p t gen req db")
  case (Inl e)
  with assms show ?thesis by (simp add: CommitTurn_def run_tx_def)
next
  case (Inr y)
  obtain db1 tr1 retry where y: "y = (db1, tr1, retry)" by (rule prod_cases3)
  show ?thesis
  proof (cases retry)
    case None
    with assms Inr y have "db1 = db'" "tr1 = tr'" by (simp_all add: CommitTurn_def run_tx_def)
    with Inr y show ?thesis by (intro exI [of _ db1] exI [of _ retry] exI [of _ "domain db1"]) simp
  next
    case (Some f)
    with assms Inr y have "recoverTerminalFailureNotice hook f db1 = db'" "tr1 = tr'" by (simp_all add: CommitTurn_def run_tx_def)
    with recoverNotice_frame [of hook f db1] Inr y show ?thesis by auto
  qed
qed

lemma CommitTurn_rollback: "CommitTurn u hook now p t gen req db = (db', Inl e) \<Longrightarrow> db' = db"
  by (auto simp: CommitTurn_def run_tx_def split: sum.splits prod.splits option.splits)

lemma commitTurn_checks:
  assumes "commitTurn u hook now p t gen req db = Inr r"
  obtains tr where "requireGeneration db p gen = Inr ()" "turn_of db p t = Some tr" "t_generation tr = gen"
    "t_status tr \<noteq> TRunning \<Longrightarrow> commit_replay hook p gen tr (normalized req) db = Inr r"
    "t_status tr = TRunning \<Longrightarrow> commit_fresh u hook now p tr (normalized req) db = Inr r"
proof -
  from assms have g: "requireGeneration db p gen = Inr ()"
    by (auto simp: commitTurn_def rbind_eq_Inr)
  from assms g obtain tr where t: "turn_of db p t = Some tr"
    by (cases "turn_of db p t") (auto simp: commitTurn_def rbind_eq_Inr)
  from assms g t have "if t_status tr \<noteq> TRunning then commit_replay hook p gen tr (normalized req) db = Inr r
      else t_generation tr = gen \<and> commit_fresh u hook now p tr (normalized req) db = Inr r"
    by (auto simp: commitTurn_def rbind_eq_Inr Let_def split: if_splits)
  moreover have "commit_replay hook p gen tr (normalized req) db = Inr r \<Longrightarrow> t_generation tr = gen"
    by (auto simp: commit_replay_def split: if_splits)
  ultimately show thesis using g t by (intro that) (auto split: if_splits)
qed

lemma commit_replay_ok:
  assumes "commit_replay hook p gen tr req db = Inr (db', tr', retry)"
  shows "tr' = tr" "\<exists>d. db' = db\<lparr>domain := d\<rparr>" "storable (commit_json req)" "t_generation tr = gen"
    "\<exists>r. t_commit_request tr = Some r \<and> jsonb_eq (commit_json r) (commit_json req)"
  using assms fire_notice_frame
  by (auto simp: commit_replay_def res_simps Let_def split: if_splits option.splits prod.splits)

lemma commit_replay_answer:
  assumes "t_generation tr = gen" "t_commit_request tr = Some r" "jsonb_eq (commit_json r) (commit_json req)" "storable (commit_json req)"
  shows "\<exists>d retry. commit_replay hook p gen tr req db = Inr (db\<lparr>domain := d\<rparr>, tr, retry)"
proof -
  obtain db1 retry where f: "fire_notice hook p tr req db = (db1, retry)" by fastforce
  with fire_notice_frame [OF f] assms show ?thesis by (auto simp: commit_replay_def)
qed

lemma finished_turn_simps [simp]:
  "t_persona_id (finished_turn now req t) = t_persona_id t" "t_turn_id (finished_turn now req t) = t_turn_id t"
  "t_input_id (finished_turn now req t) = t_input_id t" "t_generation (finished_turn now req t) = t_generation t"
  "t_commit_request (finished_turn now req t) = Some req" "t_status (finished_turn now req t) \<noteq> TRunning"
  by (simp_all add: finished_turn_def awaiting_turn_def)

lemma normalized_idem [simp]: "normalized (normalized req) = normalized req" "cr_outcome (normalized req) = cr_outcome req"
  by (simp_all add: normalized_def)

lemma turn_of_SomeD: "turn_of db p t = Some tr \<Longrightarrow> is_turn p t tr \<and> tr \<in> set (turns db)"
  by (auto simp: turn_of_def dest: find_SomeD)

text \<open>What a successful commit leaves behind for its repetition.\<close>

lemma committed_turn:
  assumes "CommitTurn u hook now p t gen req db = (db', Inr tr')"
  shows "turn_of db' p t = Some tr'" "t_status tr' \<noteq> TRunning" "t_generation tr' = gen" "storable (commit_json (normalized req))"
    "\<exists>r. t_commit_request tr' = Some r \<and> jsonb_eq (commit_json r) (commit_json (normalized req))"
    "requireGeneration db' p gen = Inr ()"
proof -
  from CommitTurn_tx [OF assms] obtain db1 retry d where c: "commitTurn u hook now p t gen req db = Inr (db1, tr', retry)"
    and d: "db' = db1\<lparr>domain := d\<rparr>" by blast
  from commitTurn_checks [OF c] obtain tr where g: "requireGeneration db p gen = Inr ()" and t: "turn_of db p t = Some tr"
    and tg: "t_generation tr = gen"
    and rep: "t_status tr \<noteq> TRunning \<Longrightarrow> commit_replay hook p gen tr (normalized req) db = Inr (db1, tr', retry)"
    and fr: "t_status tr = TRunning \<Longrightarrow> commit_fresh u hook now p tr (normalized req) db = Inr (db1, tr', retry)" by blast
  have all: "turn_of db' p t = Some tr' \<and> t_status tr' \<noteq> TRunning \<and> t_generation tr' = gen \<and> storable (commit_json (normalized req))
      \<and> (\<exists>r. t_commit_request tr' = Some r \<and> jsonb_eq (commit_json r) (commit_json (normalized req)))
      \<and> personas db' = personas db \<and> leases db' = leases db"
  proof (cases "t_status tr = TRunning")
    case False
    note ok = commit_replay_ok [OF rep [OF False]]
    from ok(2) obtain d1 where "db1 = db\<lparr>domain := d1\<rparr>" by blast
    with ok False t show ?thesis by (auto simp: d turn_of_def)
  next
    case True
    note ok = commit_fresh_ok [OF fr [OF True]]
    from ok(3) obtain js ob ws es fs rs dm where "db1 = db\<lparr>turns := upd (is_turn p (t_turn_id tr)) (finished_turn now (normalized req)) (turns db),
        inputs := js, outbox := ob, waits := ws, events := es, facts := fs, reservations := rs, domain := dm\<rparr>" by blast
    moreover have "is_turn p t tr" using turn_of_SomeD [OF t] by simp
    then have id: "t_turn_id tr = t" by (simp add: is_turn_def)
    moreover have "find (is_turn p t) (upd (is_turn p t) (finished_turn now (normalized req)) (turns db))
        = Some (finished_turn now (normalized req) tr)"
      using t \<open>is_turn p t tr\<close> by (subst find_upd) (simp_all add: turn_of_def is_turn_def)
    ultimately show ?thesis using ok(1,2) tg by (simp add: d turn_of_def)
  qed
  then show "turn_of db' p t = Some tr'" "t_status tr' \<noteq> TRunning" "t_generation tr' = gen" "storable (commit_json (normalized req))"
    "\<exists>r. t_commit_request tr' = Some r \<and> jsonb_eq (commit_json r) (commit_json (normalized req))" by blast+
  from all g show "requireGeneration db' p gen = Inr ()" by (simp add: requireGeneration_def lease_of_def persona_of_def)
qed

text \<open>The backoff without wrap-around, and the delay it bounds from below.\<close>

lemma retryBackoff_closed:
  "retryBackoff a = min (30000 * ms_ns) (200 * ms_ns * 2 ^ nat (min 8 (max 0 (i64 (a - 1)))))"
proof -
  let ?k = "nat (min 8 (max 0 (i64 (a - 1))))"
  have k: "(if (if i64 (a - 1) < 0 then 0 else i64 (a - 1)) > 8 then 8 else (if i64 (a - 1) < 0 then 0 else i64 (a - 1)))
      = min 8 (max 0 (i64 (a - 1)))" by (simp add: min_def max_def)
  have "(2::int) ^ ?k \<le> 2 ^ 8" by (rule power_increasing) simp_all
  moreover have "in_i64 (200 * ms_ns * m)" if "0 \<le> m" "m \<le> 2 ^ 8" for m
    using that by (simp add: in_i64_def MaxInt64_def ms_ns_def)
  ultimately have "in_i64 (200 * ms_ns * 2 ^ ?k)" by simp
  moreover have "in_i64 (200 * ms_ns)" by (simp add: in_i64_def MaxInt64_def ms_ns_def)
  ultimately have "i64 (i64 (200 * ms_ns) * 2 ^ ?k) = 200 * ms_ns * 2 ^ ?k" by (simp add: i64_id)
  then show ?thesis unfolding retryBackoff_def Let_def k by (simp add: min_def)
qed

lemma retryBackoff_bounds: "200 * ms_ns \<le> retryBackoff a" "retryBackoff a \<le> 30000 * ms_ns"
proof -
  have "(1::int) \<le> 2 ^ nat (min 8 (max 0 (i64 (a - 1))))" by simp
  then show "200 * ms_ns \<le> retryBackoff a" by (simp add: retryBackoff_closed ms_ns_def)
  show "retryBackoff a \<le> 30000 * ms_ns" by (simp add: retryBackoff_closed)
qed

lemma next_input_Some:
  assumes "next_input now p db = Some r"
  shows "r \<in> set (inputs db)" "due now p r" "\<forall>y \<in> set (inputs db). due now p y \<longrightarrow> i_admission_seq r \<le> i_admission_seq y"
proof -
  let ?xs = "sort_key i_admission_seq (filter (due now p) (inputs db))"
  obtain rs where xs: "?xs = r # rs" using assms by (auto simp: next_input_def split: list.splits)
  have "set ?xs = set (filter (due now p) (inputs db))" by simp
  then have mem: "y \<in> set (r # rs) \<longleftrightarrow> y \<in> set (inputs db) \<and> due now p y" for y unfolding xs by auto
  from mem [of r] show "r \<in> set (inputs db)" "due now p r" by simp_all
  have "sorted (map i_admission_seq ?xs)" by simp
  then have "\<forall>y \<in> set rs. i_admission_seq r \<le> i_admission_seq y" unfolding xs by simp
  then show "\<forall>y \<in> set (inputs db). due now p y \<longrightarrow> i_admission_seq r \<le> i_admission_seq y"
    using mem by (metis set_ConsD order_refl)
qed

lemma next_input_None: "next_input now p db = None \<longleftrightarrow> (\<forall>r \<in> set (inputs db). \<not> due now p r)"
proof -
  have "next_input now p db = None \<longleftrightarrow> sort_key i_admission_seq (filter (due now p) (inputs db)) = []"
    by (auto simp: next_input_def split: list.splits)
  also have "\<dots> \<longleftrightarrow> filter (due now p) (inputs db) = []" by (metis set_empty set_sort)
  finally show ?thesis by (simp add: filter_empty_conv)
qed

lemma begin_turn_ok:
  assumes "begin_turn now p gen t r db = Inr (db', tr, v)"
  shows "tr = new_turn now p t (i_input_id r) gen (attempt_no db p (i_input_id r))"
    "turns db' = turns db @ [tr]" "turn_of db p t = None"
    "\<exists>is. db' = db\<lparr>turns := turns db @ [tr], inputs := is\<rparr>
      \<and> is = upd (is_input p (i_input_id r)) (\<lambda>x. (claimed gen x)\<lparr>i_turn_id := Some t\<rparr>) (inputs db)"
proof -
  let ?i = "i_input_id r"
  have u: "upd (is_input p ?i) (\<lambda>x. x\<lparr>i_turn_id := Some t\<rparr>) (upd (is_input p ?i) (claimed gen) xs)
      = upd (is_input p ?i) (\<lambda>x. (claimed gen x)\<lparr>i_turn_id := Some t\<rparr>) xs" for xs
    by (induction xs) (auto simp: is_input_def claimed_def)
  have "attempt_no (db\<lparr>inputs := x\<rparr>) p ?i = attempt_no db p ?i" "turn_of (db\<lparr>inputs := x\<rparr>) p t = turn_of db p t" for x
    by (simp_all add: attempt_no_def turn_of_def)
  with assms u show "tr = new_turn now p t ?i gen (attempt_no db p ?i)" "turns db' = turns db @ [tr]" "turn_of db p t = None"
    "\<exists>is. db' = db\<lparr>turns := turns db @ [tr], inputs := is\<rparr>
      \<and> is = upd (is_input p ?i) (\<lambda>x. (claimed gen x)\<lparr>i_turn_id := Some t\<rparr>) (inputs db)"
    by (auto simp: begin_turn_def Let_def res_simps)
qed

lemma LoadTurn_cases:
  assumes "LoadTurn now nid p gen t db = Inr (db', res)"
  obtains (running) tr where "running_turn db p = Some tr" "t_generation tr = gen" "db' = db" "lr_turn res = Some tr"
    | (idle) "running_turn db p = None" "next_input now p db = None" "db' = db" "lr_turn res = None"
    | (begun) r tr v where "running_turn db p = None" "next_input now p db = Some r"
        "begin_turn now p gen (if t = [] then nid else t) r db = Inr (db', tr, v)" "lr_turn res = Some tr" "lr_input res = Some v"
proof (cases "running_turn db p")
  case (Some tr)
  with assms show thesis by (intro running [of tr]) (auto simp: LoadTurn_def res_simps split: if_splits)
next
  case None
  show thesis
  proof (cases "next_input now p db")
    case N: None
    with assms None show thesis by (intro idle) (auto simp: LoadTurn_def res_simps)
  next
    case (Some r)
    with assms None obtain tr v where "begin_turn now p gen (if t = [] then nid else t) r db = Inr (db', tr, v)"
      "lr_turn res = Some tr" "lr_input res = Some v"
      by (auto simp: LoadTurn_def rbind_eq_Inr simp del: if_split)
    with None Some begun show thesis by blast
  qed
qed

lemma mark_all_frame: "mark_all p ts db = Inr db' \<Longrightarrow> \<exists>e. db' = db\<lparr>events := e\<rparr>"
proof (induction ts arbitrary: db)
  case Nil
  then show ?case by (intro exI [of _ "events db"]) simp
next
  case (Cons t ts)
  from Cons.prems obtain db1 where m: "markInterruptedTx p (t_turn_id t) (t_input_id t) db = Inr db1"
    and r: "mark_all p ts db1 = Inr db'" by (auto simp: rbind_eq_Inr)
  have "\<exists>e1. db1 = db\<lparr>events := e1\<rparr>"
  proof (cases "db1 = db")
    case True
    then show ?thesis by (intro exI [of _ "events db"]) simp
  next
    case False
    with m have "appendEventsTx p (t_turn_id t) [ev ''turn_paused'' [(''reason'', JStr ''interrupted'')]] db = Inr db1"
      by (auto simp: markInterruptedTx_def split: if_splits)
    from appendEventsTx_ok(1) [OF this] show ?thesis by blast
  qed
  then obtain e1 where "db1 = db\<lparr>events := e1\<rparr>" by blast
  with Cons.IH [OF r] show ?case by auto
qed

lemma Recover_frame:
  assumes "Recover now p gen db = Inr (db', res)"
  shows "\<exists>es fs rs. db' = db\<lparr>turns := upd (stale_turn p gen) (\<lambda>t. t\<lparr>t_status := TInterrupted, t_finished_at := Some now\<rparr>) (turns db),
      inputs := upd (stale_claim p gen (map t_input_id (filter (stale_turn p gen) (turns db))))
        (\<lambda>r. r\<lparr>i_status := IQueued, i_claimed_generation := None, i_turn_id := None\<rparr>) (inputs db),
      schedules := upd (stale_schedule p gen) (\<lambda>s. s\<lparr>s_status := SPending, s_claimed_generation := None\<rparr>) (schedules db),
      events := es, facts := fs, reservations := rs\<rparr>"
    and "reservations db' = upd (reconciled p [] (Some gen)) (\<lambda>r. r\<lparr>r_status := RSettled\<rparr>) (reservations db)"
    and "rr_requeued res = map i_input_id (filter (stale_claim p gen (map t_input_id (filter (stale_turn p gen) (turns db)))) (inputs db))"
proof -
  let ?ts = "filter (stale_turn p gen) (turns db)" and ?f = "\<lambda>t. t\<lparr>t_status := TInterrupted, t_finished_at := Some now\<rparr>"
  let ?db1 = "db\<lparr>turns := upd (stale_turn p gen) ?f (turns db)\<rparr>" and ?ids = "map t_input_id ?ts"
  from assms have "requireGeneration db p gen = Inr ()" by (auto simp: Recover_def rbind_eq_Inr)
  with assms obtain db2 where m: "mark_all p ?ts ?db1 = Inr db2"
    by (cases "mark_all p ?ts ?db1") (auto simp: Recover_def Let_def)
  from mark_all_frame [OF m] obtain e where e: "db2 = ?db1\<lparr>events := e\<rparr>" by blast
  let ?db3 = "db2\<lparr>inputs := upd (stale_claim p gen ?ids)
                 (\<lambda>r. r\<lparr>i_status := IQueued, i_claimed_generation := None, i_turn_id := None\<rparr>) (inputs db2),
               schedules := upd (stale_schedule p gen)
                 (\<lambda>s. s\<lparr>s_status := SPending, s_claimed_generation := None\<rparr>) (schedules db2)\<rparr>"
  have d: "db' = reconcileHeldReservations p [] (Some gen) ?db3"
    and r: "rr_requeued res = map i_input_id (filter (stale_claim p gen ?ids) (inputs db2))"
    using assms m \<open>requireGeneration db p gen = Inr ()\<close> by (auto simp: Recover_def Let_def)
  obtain fs rs where "db' = ?db3\<lparr>facts := fs, reservations := rs\<rparr>" using d reconcile_frame by blast
  then show "\<exists>es fs rs. db' = db\<lparr>turns := upd (stale_turn p gen) ?f (turns db),
      inputs := upd (stale_claim p gen ?ids) (\<lambda>r. r\<lparr>i_status := IQueued, i_claimed_generation := None, i_turn_id := None\<rparr>) (inputs db),
      schedules := upd (stale_schedule p gen) (\<lambda>s. s\<lparr>s_status := SPending, s_claimed_generation := None\<rparr>) (schedules db),
      events := es, facts := fs, reservations := rs\<rparr>"
    by (intro exI [of _ e] exI [of _ fs] exI [of _ rs]) (simp add: e)
  show "reservations db' = upd (reconciled p [] (Some gen)) (\<lambda>r. r\<lparr>r_status := RSettled\<rparr>) (reservations db)"
    unfolding d reconcileHeldReservations_def set_reservations_def by (simp add: e)
  show "rr_requeued res = map i_input_id (filter (stale_claim p gen ?ids) (inputs db))"
    using r by (simp add: e)
qed

section \<open>Properties\<close>

text \<open>
  C31. A commit can be resent: once a turn's commit succeeded, sending the identical request again
  (its response was lost) answers with the same turn and changes no table of the core; only the
  terminal-failure notice of the domain may be completed. A different request under the same turn
  is refused and changes nothing at all.
\<close>

theorem commit_resend:
  assumes "CommitTurn u hook now p t gen req db = (db', Inr tr)"
  shows "(\<exists>d. CommitTurn u' hook' now' p t gen req db' = (db'\<lparr>domain := d\<rparr>, Inr tr))
    \<and> (\<not> jsonb_eq (commit_json (normalized req')) (commit_json (normalized req)) \<longrightarrow>
        (\<exists>e. CommitTurn u' hook' now' p t gen req' db' = (db', Inl e)))"
proof (intro conjI impI)
  note c = committed_turn [OF assms]
  have valid: "cr_outcome req \<in> {''complete'', ''fail'', ''await''}"
    using CommitTurn_tx [OF assms] by (auto simp: commitTurn_def res_simps)
  from c(5) obtain r where r: "t_commit_request tr = Some r" "jsonb_eq (commit_json r) (commit_json (normalized req))" by blast
  obtain d retry where rep: "commit_replay hook' p gen tr (normalized req) db' = Inr (db'\<lparr>domain := d\<rparr>, tr, retry)"
    using commit_replay_answer [OF c(3) r c(4), of hook' p db'] by blast
  have "commitTurn u' hook' now' p t gen req db' = Inr (db'\<lparr>domain := d\<rparr>, tr, retry)"
    using valid c(1,2,6) rep by (simp add: commitTurn_def)
  then show "\<exists>d. CommitTurn u' hook' now' p t gen req db' = (db'\<lparr>domain := d\<rparr>, Inr tr)"
    using recoverNotice_frame [of hook' _ "db'\<lparr>domain := d\<rparr>"]
    by (cases retry) (fastforce simp: CommitTurn_def run_tx_def)+
  assume ne: "\<not> jsonb_eq (commit_json (normalized req')) (commit_json (normalized req))"
  have "\<not> jsonb_eq (commit_json r) (commit_json (normalized req'))"
    using ne r(2) by (auto dest: jsonb_eq_sym jsonb_eq_trans)
  then have "\<exists>e. commitTurn u' hook' now' p t gen req' db' = Inl e"
    using c(1,2,3,6) r(1) by (auto simp: commitTurn_def commit_replay_def rbind_def guard_def Let_def split: sum.split)
  then show "\<exists>e. CommitTurn u' hook' now' p t gen req' db' = (db', Inl e)"
    by (auto simp: CommitTurn_def run_tx_def)
qed

text \<open>A committed turn of the running example: the provider failed and may be retried.\<close>

definition demo_commit :: commit_request where
  "demo_commit = \<lparr>cr_outcome = ''fail'', cr_events = None, cr_output = None, cr_usage = None, cr_error = ''provider'',
     cr_retryable = True, cr_error_kind = [], cr_retry_after_ms = 1500, cr_wait = None\<rparr>"

lemma demo_committed:
  "isl (snd (CommitTurn (\<lambda>_. None) None 50 ''p1'' ''t1'' 4 demo_commit demo_running)) = False"
  by code_simp

theorem commit_resend_witness:
  "\<exists>db' tr. CommitTurn (\<lambda>_. None) None 50 ''p1'' ''t1'' 4 demo_commit demo_running = (db', Inr tr)
     \<and> (\<exists>e. CommitTurn (\<lambda>_. None) None 70 ''p1'' ''t1'' 4 (demo_commit\<lparr>cr_outcome := ''complete''\<rparr>) db' = (db', Inl e))"
proof -
  let ?no = "\<lambda>_ :: string. None :: string option"
  obtain db' tr where c: "CommitTurn ?no None 50 ''p1'' ''t1'' 4 demo_commit demo_running = (db', Inr tr)"
    using demo_committed by (cases "CommitTurn ?no None 50 ''p1'' ''t1'' 4 demo_commit demo_running";
        cases "snd (CommitTurn ?no None 50 ''p1'' ''t1'' 4 demo_commit demo_running)") auto
  have "\<not> jsonb_eq (commit_json (normalized (demo_commit\<lparr>cr_outcome := ''complete''\<rparr>))) (commit_json (normalized demo_commit))"
    by code_simp
  with commit_resend [OF c, of ?no None 70 "demo_commit\<lparr>cr_outcome := ''complete''\<rparr>"] c show ?thesis by blast
qed

text \<open>
  The retry delay: for every attempt number and every hint an \<^verbatim>\<open>int64\<close> can hold, a
  retryable failure waits at least the attempt's backoff (never below 200 ms, never above 30 s)
  and at most two minutes; a hint whose nanoseconds fit an \<^verbatim>\<open>int64\<close> is honoured within those
  bounds exactly.
\<close>

lemma retry_delay_bounds:
  "retryBackoff a \<le> retry_delay a h \<and> 200 * ms_ns \<le> retry_delay a h \<and> retry_delay a h \<le> 120000 * ms_ns
   \<and> retryBackoff a \<le> 30000 * ms_ns
   \<and> (in_i64 (h * ms_ns) \<longrightarrow> retry_delay a h = max (retryBackoff a) (min (120000 * ms_ns) (h * ms_ns)))"
proof (intro conjI impI)
  note b = retryBackoff_bounds [of a]
  have ms: "0 < ms_ns" by (simp add: ms_ns_def)
  show "retryBackoff a \<le> 30000 * ms_ns" by (fact b)
  show "retryBackoff a \<le> retry_delay a h" using b ms by (simp add: retry_delay_def Let_def)
  then show "200 * ms_ns \<le> retry_delay a h" using b by linarith
  show "retry_delay a h \<le> 120000 * ms_ns" using b ms by (simp add: retry_delay_def Let_def)
  assume "in_i64 (h * ms_ns)"
  then have "i64 (h * ms_ns) = h * ms_ns" by (rule i64_id)
  then have "retry_delay a h = (if h * ms_ns > retryBackoff a
      then if h * ms_ns > 120000 * ms_ns then 120000 * ms_ns else h * ms_ns else retryBackoff a)"
    unfolding retry_delay_def Let_def by (simp only:) simp
  with b show "retry_delay a h = max (retryBackoff a) (min (120000 * ms_ns) (h * ms_ns))"
    unfolding ms_ns_def max_def min_def by auto
qed

text \<open>
  A hint beyond the \<^verbatim>\<open>int64\<close> nanosecond range is not clamped to two minutes but lost: the
  product wraps to a negative duration and the retry waits only its backoff.
\<close>

lemma retry_hint_wraps:
  "retry_delay a 9223372036855 = retryBackoff a"
proof -
  have "i64 (9223372036855 * ms_ns) < 0" by (simp add: i64_def ms_ns_def)
  then show ?thesis using retryBackoff_bounds(1) [of a] by (simp add: retry_delay_def Let_def ms_ns_def)
qed

text \<open>
  Which input a turn serves: with no turn running, loading claims the due input admitted
  first, begins its turn under the caller's generation as the persona's running turn, and numbers
  the attempt by the turns of that input that did not park; with nothing due it changes nothing.
\<close>

lemma load_turn_serves_oldest:
  assumes "LoadTurn now nid p gen t db = Inr (db', res)" and "running_turn db p = None"
  shows "case lr_turn res of
      None \<Rightarrow> db' = db \<and> (\<forall>r \<in> set (inputs db). \<not> due now p r)
    | Some tr \<Rightarrow> running_turn db' p = Some tr \<and> t_generation tr = gen \<and>
        (\<exists>r \<in> set (inputs db). due now p r \<and> t_input_id tr = i_input_id r
          \<and> (\<forall>y \<in> set (inputs db). due now p y \<longrightarrow> i_admission_seq r \<le> i_admission_seq y)
          \<and> t_attempt tr = attempt_no db p (i_input_id r)
          \<and> (\<forall>y \<in> set (inputs db'). is_input p (i_input_id r) y \<longrightarrow>
               i_status y = IClaimed \<and> i_claimed_generation y = Some gen \<and> i_turn_id y = Some (t_turn_id tr)))"
  using assms(1)
proof (cases rule: LoadTurn_cases)
  case (running tr)
  with assms(2) show ?thesis by simp
next
  case idle
  then show ?thesis by (simp add: next_input_None)
next
  case (begun r tr v)
  note n = next_input_Some [OF begun(2)] and b = begin_turn_ok [OF begun(3)]
  have "running_turn db' p = Some tr"
    using assms(2) b(1) by (simp add: running_turn_def b(2) find_append is_running_def new_turn_def)
  moreover have "i_status y = IClaimed \<and> i_claimed_generation y = Some gen \<and> i_turn_id y = Some (t_turn_id tr)"
    if "y \<in> set (inputs db')" "is_input p (i_input_id r) y" for y
  proof -
    from b(4) that(1) have "y \<in> set (upd (is_input p (i_input_id r))
        (\<lambda>x. (claimed gen x)\<lparr>i_turn_id := Some (if t = [] then nid else t)\<rparr>) (inputs db))" by auto
    then show ?thesis by (rule in_upd_cases) (use that(2) b(1) in \<open>auto simp: claimed_def new_turn_def\<close>)
  qed
  ultimately show ?thesis using n b(1) begun(4) by (auto simp: new_turn_def)
qed

definition demo_queued :: "unit db" where
  "demo_queued = demo_db\<lparr>inputs := [demo_input]\<rparr>"

text \<open>Loading a turn with a fresh id succeeds whenever some input is due and the context can be rendered.\<close>

lemma load_turn_begins:
  assumes "requireGeneration db p gen = Inr ()" "running_turn db p = None" "r \<in> set (inputs db)" "due now p r"
    "t \<noteq> []" "NUL \<notin> set t" "turn_of db p t = None" "renderable db p"
  shows "\<exists>db' res tr. LoadTurn now nid p gen t db = Inr (db', res) \<and> lr_turn res = Some tr \<and> t_turn_id tr = t
    \<and> t_status tr = TRunning \<and> turn_of db' p t = Some tr"
proof -
  from assms(3,4) have "next_input now p db \<noteq> None" by (auto simp: next_input_None)
  then obtain x where x: "next_input now p db = Some x" by blast
  let ?db1 = "db\<lparr>inputs := upd (is_input p (i_input_id x)) (claimed gen) (inputs db)\<rparr>"
  have "turn_of ?db1 p t = None" using assms(7) by (simp add: turn_of_def)
  then obtain db' tr v where b: "begin_turn now p gen t x db = Inr (db', tr, v)"
    using assms(6) by (simp add: begin_turn_def Let_def text_params_def)
  note ok = begin_turn_ok [OF b]
  have "renderable db' p" using assms(8) ok(4) by (auto simp: renderable_def chunks_of_def)
  then obtain c where "renderedContext db' p (i_input_id x) = Inr c" using renderable_context by blast
  with assms(1,2,5) x b have "LoadTurn now nid p gen t db = Inr (db', \<lparr>lr_turn = Some tr, lr_input = Some v,
      lr_plan = planForInput db' p (i_input_id x), lr_context = c\<rparr>)" by (simp add: LoadTurn_def)
  moreover have "t_turn_id tr = t" "t_status tr = TRunning" "turn_of db' p t = Some tr"
    using ok(1,3) by (simp_all add: turn_of_def ok(2) find_append is_turn_def new_turn_def)
  ultimately show ?thesis by simp
qed

text \<open>
  Recovery under a fresh generation leaves nothing behind: no turn of the persona runs under
  another generation, no input is claimed by another generation or by an interrupted turn, every
  such input is queued again and reported, no held reservation of an older generation keeps
  budget, and what belongs to other personas is untouched.
\<close>

lemma recover_leaves_nothing_stale:
  assumes "Recover now p gen db = Inr (db', res)"
  shows "(\<forall>t \<in> set (turns db'). \<not> stale_turn p gen t)
    \<and> (\<forall>r \<in> set (inputs db'). i_persona_id r = p \<and> i_status r = IClaimed \<longrightarrow>
         i_claimed_generation r \<in> {None, Some gen} \<and>
         (\<forall>t \<in> set (turns db). stale_turn p gen t \<longrightarrow> t_input_id t \<noteq> i_input_id r))
    \<and> (\<forall>t r. t \<in> set (turns db) \<and> stale_turn p gen t \<and> r \<in> set (inputs db) \<and> is_input p (t_input_id t) r
         \<and> i_status r = IClaimed \<longrightarrow> t_input_id t \<in> set (rr_requeued res) \<and>
           r\<lparr>i_status := IQueued, i_claimed_generation := None, i_turn_id := None\<rparr> \<in> set (inputs db'))
    \<and> (\<forall>r \<in> set (reservations db'). r_persona_id r = p \<and> r_status r = RHeld \<longrightarrow> gen \<le> r_generation r)
    \<and> (\<forall>q. q \<noteq> p \<longrightarrow> filter (\<lambda>t. t_persona_id t = q) (turns db') = filter (\<lambda>t. t_persona_id t = q) (turns db)
         \<and> filter (\<lambda>r. i_persona_id r = q) (inputs db') = filter (\<lambda>r. i_persona_id r = q) (inputs db))"
proof -
  let ?ids = "map t_input_id (filter (stale_turn p gen) (turns db))"
  let ?q = "\<lambda>r. r\<lparr>i_status := IQueued, i_claimed_generation := None, i_turn_id := None\<rparr>"
  let ?f = "\<lambda>t. t\<lparr>t_status := TInterrupted, t_finished_at := Some now\<rparr>"
  from Recover_frame(1) [OF assms] have t: "turns db' = upd (stale_turn p gen) ?f (turns db)"
    and i: "inputs db' = upd (stale_claim p gen ?ids) ?q (inputs db)" by auto
  have 1: "\<not> stale_turn p gen x" if "x \<in> set (turns db')" for x
    using that unfolding t by (rule in_upd_cases) (auto simp: stale_turn_def)
  have 2: "i_claimed_generation x \<in> {None, Some gen} \<and> (\<forall>t \<in> set (turns db). stale_turn p gen t \<longrightarrow> t_input_id t \<noteq> i_input_id x)"
    if "x \<in> set (inputs db')" "i_persona_id x = p \<and> i_status x = IClaimed" for x
    using that(1) unfolding i by (rule in_upd_cases) (use that(2) in \<open>auto simp: stale_claim_def image_iff split: option.splits\<close>)
  have 3: "t_input_id x \<in> set (rr_requeued res) \<and> ?q r \<in> set (inputs db')"
    if h: "x \<in> set (turns db) \<and> stale_turn p gen x \<and> r \<in> set (inputs db) \<and> is_input p (t_input_id x) r \<and> i_status r = IClaimed" for x r
  proof -
    have "stale_claim p gen ?ids r" using h by (auto simp: stale_claim_def is_input_def)
    moreover have "i_input_id r = t_input_id x" using h by (simp add: is_input_def)
    ultimately show ?thesis using h unfolding i Recover_frame(3) [OF assms] by (auto simp: set_upd image_iff)
  qed
  have 4: "gen \<le> r_generation x" if "x \<in> set (reservations db')" "r_persona_id x = p \<and> r_status x = RHeld" for x
    using that(1) unfolding Recover_frame(2) [OF assms]
    by (rule in_upd_cases) (use that(2) in \<open>auto simp: reconciled_def\<close>)
  have 5: "filter (\<lambda>t. t_persona_id t = q) (turns db') = filter (\<lambda>t. t_persona_id t = q) (turns db)"
    "filter (\<lambda>r. i_persona_id r = q) (inputs db') = filter (\<lambda>r. i_persona_id r = q) (inputs db)" if "q \<noteq> p" for q
    unfolding t i using that by (auto intro!: filter_upd_outside simp: stale_turn_def stale_claim_def)
  from 1 2 3 4 5 show ?thesis by blast
qed

text \<open>
  C32. What a commit does with its input: a completed or terminally failed turn ends the input, a
  retryable failure queues it again not before the delay of its attempt, and a turn that awaits
  queues it or parks it, and it is parked only behind a recorded budget wait or an approval still
  pending.
\<close>

theorem commit_disposes_input:
  assumes "CommitTurn u hook now p t gen req db = (db', Inr tr')"
    and "turn_of db p t = Some tr" and "t_status tr = TRunning"
    and "r \<in> set (inputs db')" and "is_input p (t_input_id tr) r"
  shows "(cr_outcome req = ''complete'' \<longrightarrow> i_status r = IDone)
    \<and> (cr_outcome req = ''fail'' \<and> \<not> cr_retryable req \<longrightarrow> i_status r = IDone)
    \<and> (cr_outcome req = ''fail'' \<and> cr_retryable req \<longrightarrow> i_status r = IQueued \<and> i_claimed_generation r = None \<and>
         i_not_before r = Some (now + go_div (retry_delay (int (t_attempt tr)) (cr_retry_after_ms req)) ms_ns * 1000))
    \<and> (cr_outcome req = ''await'' \<longrightarrow> i_status r = IQueued \<or> i_status r = IWaiting \<and>
         (list_ex (is_wait p (t_input_id tr)) (waits db') \<or> approval_pending db' p (t_input_id tr)))"
proof -
  let ?req = "normalized req"
  from CommitTurn_tx [OF assms(1)] obtain db1 retry d where c: "commitTurn u hook now p t gen req db = Inr (db1, tr', retry)"
    and d: "db' = db1\<lparr>domain := d\<rparr>" by blast
  have fr: "commit_fresh u hook now p tr ?req db = Inr (db1, tr', retry)"
    using c by (rule commitTurn_checks) (use assms(2,3) in auto)
  from commit_fresh_ok(3) [OF fr] obtain js ob ws es fs rs dm g park where
    d1: "db1 = db\<lparr>turns := upd (is_turn p (t_turn_id tr)) (finished_turn now ?req) (turns db), inputs := js, outbox := ob,
        waits := ws, events := es, facts := fs, reservations := rs, domain := dm\<rparr>"
    and js: "js = upd (is_input p (t_input_id tr)) (disposition now tr ?req park) (map g (inputs db))"
    and pk: "parks ?req park \<longrightarrow> list_ex (is_wait p (t_input_id tr)) ws \<or> approval_pending db p (t_input_id tr)" by blast
  have "r \<in> set js" using assms(4) by (simp add: d d1)
  then obtain r0 where r: "r = disposition now tr ?req park r0"
    unfolding js by (rule in_upd_cases) (use assms(5) in auto)
  have wait: "waits db' = ws" "approval_pending db' p (t_input_id tr) = approval_pending db p (t_input_id tr)"
    by (simp_all add: d d1 approval_pending_def)
  have n: "cr_retryable ?req = cr_retryable req" "cr_retry_after_ms ?req = cr_retry_after_ms req" by (simp_all add: normalized_def)
  show ?thesis
  proof (intro conjI impI)
    assume "cr_outcome req = ''await''"
    then show "i_status r = IQueued \<or> i_status r = IWaiting \<and>
         (list_ex (is_wait p (t_input_id tr)) (waits db') \<or> approval_pending db' p (t_input_id tr))"
      using pk unfolding wait r by (cases park) (simp_all add: disposition_def parks_def parked_at_def unclaimed_def)
  qed (simp_all add: r disposition_def n done_at_def unclaimed_def)
qed

theorem commit_disposes_input_witness:
  "\<exists>db' tr'. CommitTurn (\<lambda>_. None) None 50 ''p1'' ''t1'' 4 demo_commit demo_running = (db', Inr tr')
     \<and> (\<forall>r \<in> set (inputs db'). is_input ''p1'' ''in-1'' r \<longrightarrow> i_status r = IQueued)"
proof -
  let ?no = "\<lambda>_ :: string. None :: string option"
  obtain db' tr where c: "CommitTurn ?no None 50 ''p1'' ''t1'' 4 demo_commit demo_running = (db', Inr tr)"
    using demo_committed by (cases "CommitTurn ?no None 50 ''p1'' ''t1'' 4 demo_commit demo_running";
        cases "snd (CommitTurn ?no None 50 ''p1'' ''t1'' 4 demo_commit demo_running)") auto
  have t: "turn_of demo_running ''p1'' ''t1'' = Some demo_turn" "t_status demo_turn = TRunning" "t_input_id demo_turn = ''in-1''"
    by (simp_all add: turn_of_def is_turn_def demo_run_defs)
  have "cr_outcome demo_commit = ''fail''" "cr_retryable demo_commit" by (simp_all add: demo_commit_def)
  with commit_disposes_input [OF c t(1,2)] t(3) c show ?thesis by auto
qed

end
