(* ===== verification/Core_Schedules.thy ===== *)
theory Core_Schedules
  imports Core_Turns
begin

text \<open>
  Schedule dispatch (\<^verbatim>\<open>store.go\<close>: \<^verbatim>\<open>DispatchDueSchedules\<close>): due schedules become wake inputs whose
  id is derived from the schedule's. The lemmas show that a dispatch fires exactly the schedules it
  reports, that each of them has its wake input afterwards and no second one, and that nothing
  fires before its time.
\<close>

definition wake_id :: "string \<Rightarrow> string" where
  "wake_id sid = schedInputPrefix @ sid"

definition wake_input :: "timestamp \<Rightarrow> nat \<Rightarrow> sched_row \<Rightarrow> input_row" where
  "wake_input now sq s =
     \<lparr>i_persona_id = s_persona_id s, i_input_id = wake_id (s_schedule_id s), i_kind = ''wake'', i_payload = s_payload s,
      i_actor_kind = ''schedule'', i_actor_id = s_schedule_id s, i_source_surface = ''core_schedules'', i_thread_id = [],
      i_occurred_at = None, i_attention = ''reply'', i_status = IQueued, i_claimed_generation = None, i_turn_id = None,
      i_created_at = now, i_done_at = None, i_not_before = None, i_received_seq = None, i_admission_seq = sq,
      i_waiting_since = None, i_waited_ms = 0\<rparr>"

definition sched_due :: "timestamp \<Rightarrow> timestamp \<Rightarrow> string \<Rightarrow> sched_row \<Rightarrow> bool" where
  "sched_due now hint p s \<longleftrightarrow> s_persona_id s = p \<and> s_status s = SPending \<and> s_wake_at s \<le> min now hint"

text \<open>\<^verbatim>\<open>ORDER BY wake_at, schedule_id LIMIT n\<close>.\<close>

definition due_schedules :: "timestamp \<Rightarrow> timestamp \<Rightarrow> string \<Rightarrow> nat \<Rightarrow> 'd db \<Rightarrow> sched_row list" where
  "due_schedules now hint p n db = take n (sort_key s_wake_at (sort_key s_schedule_id
     (filter (sched_due now hint p) (schedules db))))"

text \<open>
  The insert draws an admission number even when the row exists; a row under the wake id that is
  not this schedule's own wake fails the dispatch.
\<close>

definition enqueue_wake :: "timestamp \<Rightarrow> sched_row \<Rightarrow> 'd db \<Rightarrow> err + 'd db" where
  "enqueue_wake now s db =
     (let sq = admission_next db; db1 = db\<lparr>admission_next := Suc sq\<rparr> in
      case input_of db (s_persona_id s) (wake_id (s_schedule_id s)) of
        None \<Rightarrow> Inr (db1\<lparr>inputs := inputs db @ [wake_input now sq s]\<rparr>)
      | Some r \<Rightarrow> if i_kind r \<noteq> ''wake'' \<or> i_actor_id r \<noteq> s_schedule_id s then Inl ErrTurnConflict else Inr db1)"

definition fired :: "timestamp \<Rightarrow> int \<Rightarrow> sched_row \<Rightarrow> sched_row" where
  "fired now gen s = s\<lparr>s_status := SFired, s_fired_at := Some now, s_claimed_generation := Some gen\<rparr>"

fun dispatch_loop :: "timestamp \<Rightarrow> int \<Rightarrow> sched_row list \<Rightarrow> 'd db \<Rightarrow> err + ('d db \<times> sched_row list)" where
  "dispatch_loop now gen [] db = Inr (db, [])"
| "dispatch_loop now gen (s # ss) db =
     rbind (enqueue_wake now s db) (\<lambda>db1.
       let db2 = db1\<lparr>schedules := upd (is_sched (s_persona_id s) (s_schedule_id s)) (fired now gen) (schedules db1)\<rparr> in
       rbind (dispatch_loop now gen ss db2) (\<lambda>(db3, out). Inr (db3, fired now gen s # out)))"

definition DispatchDueSchedules ::
  "timestamp \<Rightarrow> string \<Rightarrow> int \<Rightarrow> timestamp \<Rightarrow> int \<Rightarrow> 'd db \<Rightarrow> err + ('d db \<times> sched_row list)" where
  "DispatchDueSchedules now p gen hint limit db =
     rbind (requireGeneration db p gen) (\<lambda>_.
       dispatch_loop now gen (due_schedules now hint p (nat (clampLimit limit 16 256)) db) db)"

section \<open>Lemmas\<close>

lemma wake_id_inj: "wake_id a = wake_id b \<longleftrightarrow> a = b"
  by (simp add: wake_id_def)

lemma set_due_schedules: "s \<in> set (due_schedules now hint p n db) \<Longrightarrow> s \<in> set (schedules db) \<and> sched_due now hint p s"
  by (auto simp: due_schedules_def dest: in_set_takeD)

lemma length_due_schedules: "length (due_schedules now hint p n db) \<le> n"
  by (simp add: due_schedules_def)

text \<open>A wake is there: the input under the wake id is the schedule's own.\<close>

definition has_wake :: "'d db \<Rightarrow> sched_row \<Rightarrow> bool" where
  "has_wake db s \<longleftrightarrow> (case input_of db (s_persona_id s) (wake_id (s_schedule_id s)) of
     None \<Rightarrow> False | Some r \<Rightarrow> i_kind r = ''wake'' \<and> i_actor_id r = s_schedule_id s)"

lemma has_wake_alt:
  "has_wake db s \<longleftrightarrow> (\<exists>r. input_of db (s_persona_id s) (wake_id (s_schedule_id s)) = Some r
     \<and> i_kind r = ''wake'' \<and> i_actor_id r = s_schedule_id s)"
  by (auto simp: has_wake_def split: option.splits)

lemma enqueue_wake_ok:
  assumes "enqueue_wake now s db = Inr db'"
  shows "has_wake db' s" "schedules db' = schedules db"
    "\<exists>news n. db' = db\<lparr>admission_next := n, inputs := inputs db @ news\<rparr>
       \<and> (\<forall>r \<in> set news. i_status r = IQueued \<and> i_persona_id r = s_persona_id s \<and> i_input_id r = wake_id (s_schedule_id s))
       \<and> (keyed input_key (inputs db) \<longrightarrow> keyed input_key (inputs db'))
       \<and> (admission_inv db \<longrightarrow> admission_inv db')"
proof -
  let ?r = "wake_input now (admission_next db) s"
  show "has_wake db' s"
    using assms by (auto simp: enqueue_wake_def Let_def has_wake_alt input_of_def find_append is_input_def wake_input_def
        split: option.splits if_splits)
  show "schedules db' = schedules db"
    using assms by (auto simp: enqueue_wake_def Let_def split: option.splits if_splits)
  show "\<exists>news n. db' = db\<lparr>admission_next := n, inputs := inputs db @ news\<rparr>
       \<and> (\<forall>r \<in> set news. i_status r = IQueued \<and> i_persona_id r = s_persona_id s \<and> i_input_id r = wake_id (s_schedule_id s))
       \<and> (keyed input_key (inputs db) \<longrightarrow> keyed input_key (inputs db'))
       \<and> (admission_inv db \<longrightarrow> admission_inv db')"
  proof (cases "input_of db (s_persona_id s) (wake_id (s_schedule_id s))")
    case None
    with assms have d: "db' = db\<lparr>admission_next := Suc (admission_next db), inputs := inputs db @ [?r]\<rparr>"
      by (simp add: enqueue_wake_def Let_def)
    have "input_key ?r \<notin> input_key ` set (inputs db)"
      using None by (auto simp: input_of_def find_None_iff is_input_def wake_input_def)
    then show ?thesis
      by (intro exI [of _ "[?r]"] exI [of _ "Suc (admission_next db)"])
        (auto simp: d keyed_snoc wake_input_def admission_inv_def less_Suc_eq)
  next
    case (Some r)
    with assms have "db' = db\<lparr>admission_next := Suc (admission_next db)\<rparr>"
      by (simp add: enqueue_wake_def Let_def split: if_splits)
    then show ?thesis
      by (intro exI [of _ "[]"] exI [of _ "Suc (admission_next db)"]) (auto simp: admission_inv_def less_Suc_eq)
  qed
qed

lemma has_wake_append: "inputs db' = inputs db @ news \<Longrightarrow> has_wake db s \<Longrightarrow> has_wake db' s"
  by (auto simp: has_wake_alt input_of_def find_append)

text \<open>What a run of the loop leaves: queued wakes appended, the schedules of the list fired.\<close>

lemma dispatch_loop_ok:
  assumes "dispatch_loop now gen ss db = Inr (db', out)"
  shows "out = map (fired now gen) ss \<and> (\<forall>s \<in> set ss. has_wake db' s)
    \<and> (\<exists>news n. db' = db\<lparr>admission_next := n, inputs := inputs db @ news, schedules := schedules db'\<rparr>
         \<and> (\<forall>r \<in> set news. i_status r = IQueued \<and> (\<exists>s \<in> set ss. i_persona_id r = s_persona_id s \<and> i_input_id r = wake_id (s_schedule_id s))))
    \<and> schedules db' = upd (\<lambda>x. \<exists>s \<in> set ss. is_sched (s_persona_id s) (s_schedule_id s) x) (fired now gen) (schedules db)
    \<and> (keyed input_key (inputs db) \<longrightarrow> keyed input_key (inputs db'))
    \<and> (admission_inv db \<longrightarrow> admission_inv db')"
  using assms
proof (induction ss arbitrary: db out)
  case Nil
  then have d: "db' = db" "out = []" by simp_all
  have "\<exists>news n. db = db\<lparr>admission_next := n, inputs := inputs db @ news, schedules := schedules db\<rparr> \<and> news = []"
    by (intro exI [of _ "[]"] exI [of _ "admission_next db"]) simp
  then show ?case unfolding d by (auto simp: upd_id)
next
  case (Cons s ss)
  let ?P = "is_sched (s_persona_id s) (s_schedule_id s)"
  from Cons.prems obtain db1 where e: "enqueue_wake now s db = Inr db1"
    by (cases "enqueue_wake now s db") auto
  let ?db2 = "db1\<lparr>schedules := upd ?P (fired now gen) (schedules db1)\<rparr>"
  from Cons.prems e obtain out1 where l: "dispatch_loop now gen ss ?db2 = Inr (db', out1)" and out: "out = fired now gen s # out1"
    by (auto simp: rbind_eq_Inr Let_def)
  note IH = Cons.IH [OF l] and ok = enqueue_wake_ok [OF e]
  from ok(3) obtain n1 m1 where 1: "db1 = db\<lparr>admission_next := m1, inputs := inputs db @ n1\<rparr>"
    "\<forall>r \<in> set n1. i_status r = IQueued \<and> i_persona_id r = s_persona_id s \<and> i_input_id r = wake_id (s_schedule_id s)"
    "keyed input_key (inputs db) \<longrightarrow> keyed input_key (inputs db1)" "admission_inv db \<longrightarrow> admission_inv db1" by blast
  from IH obtain n2 m2 where 2: "db' = ?db2\<lparr>admission_next := m2, inputs := inputs ?db2 @ n2, schedules := schedules db'\<rparr>"
    "\<forall>r \<in> set n2. i_status r = IQueued \<and> (\<exists>s \<in> set ss. i_persona_id r = s_persona_id s \<and> i_input_id r = wake_id (s_schedule_id s))"
    by blast
  have inp: "inputs db' = inputs db1 @ n2" by (subst 2(1)) simp
  have "has_wake db' s" using has_wake_append [OF inp] ok(1) by blast
  then have w: "\<forall>x \<in> set (s # ss). has_wake db' x" using IH by simp
  have frame: "db' = db\<lparr>admission_next := m2, inputs := inputs db @ (n1 @ n2), schedules := schedules db'\<rparr>"
    by (subst 2(1)) (simp add: 1(1))
  have news: "\<forall>r \<in> set (n1 @ n2). i_status r = IQueued \<and>
      (\<exists>x \<in> set (s # ss). i_persona_id r = s_persona_id x \<and> i_input_id r = wake_id (s_schedule_id x))"
    using 1(2) 2(2) by auto
  let ?Q = "\<lambda>x. \<exists>s \<in> set ss. is_sched (s_persona_id s) (s_schedule_id s) x"
  have "?Q (fired now gen x) = ?Q x" "fired now gen (fired now gen x) = fired now gen x" for x
    by (simp_all add: is_sched_def fired_def)
  then have "upd ?Q (fired now gen) (upd ?P (fired now gen) xs) = upd (\<lambda>x. ?P x \<or> ?Q x) (fired now gen) xs" for xs
    by (induction xs) auto
  moreover have "schedules db' = upd ?Q (fired now gen) (schedules ?db2)" using IH by blast
  ultimately have sch: "schedules db' = upd (\<lambda>x. \<exists>s \<in> set (s # ss). is_sched (s_persona_id s) (s_schedule_id s) x)
      (fired now gen) (schedules db)"
    using ok(2) by simp
  have keep: "keyed input_key (inputs db) \<longrightarrow> keyed input_key (inputs db')" "admission_inv db \<longrightarrow> admission_inv db'"
    using IH 1(3,4) by (auto simp: admission_inv_def)
  have "out = map (fired now gen) (s # ss)" using IH out by simp
  with w frame news sch keep show ?case by blast
qed

section \<open>Properties\<close>

text \<open>
  A wake is neither lost nor doubled nor early: a dispatch reports at most the bounded number
  of schedules, each of them pending and due by the database's clock whatever the caller's clock
  said, marks exactly those fired, and leaves for each the one input that wakes the persona for
  it; input ids stay unique, so firing a schedule again can never wake twice.
\<close>

lemma dispatch_fires_once:
  assumes "DispatchDueSchedules now p gen hint limit db = Inr (db', out)" and "keyed input_key (inputs db)"
    and "keyed sched_key (schedules db)"
  shows "length out \<le> 256
    \<and> (\<forall>s \<in> set out. has_wake db' s \<and> s \<in> set (schedules db') \<and> s_status s = SFired \<and> s_wake_at s \<le> now
         \<and> (\<exists>s0 \<in> set (schedules db). s_status s0 = SPending \<and> s = fired now gen s0))
    \<and> (\<forall>s \<in> set (schedules db). s \<in> set (schedules db') \<or> fired now gen s \<in> set out)
    \<and> keyed input_key (inputs db')"
proof -
  let ?ss = "due_schedules now hint p (nat (clampLimit limit 16 256)) db"
  from assms(1) have l: "dispatch_loop now gen ?ss db = Inr (db', out)" by (auto simp: DispatchDueSchedules_def rbind_eq_Inr)
  note ok = dispatch_loop_ok [OF l]
  have out: "out = map (fired now gen) ?ss" and w: "\<forall>s \<in> set ?ss. has_wake db' s"
    and sch: "schedules db' = upd (\<lambda>x. \<exists>s \<in> set ?ss. is_sched (s_persona_id s) (s_schedule_id s) x) (fired now gen) (schedules db)"
    and k: "keyed input_key (inputs db')" using ok assms(2) by blast+
  have mem: "s \<in> set (schedules db)" "sched_due now hint p s" if "s \<in> set ?ss" for s
    using set_due_schedules [OF that] by simp_all
  have sel: "(\<exists>s \<in> set ?ss. is_sched (s_persona_id s) (s_schedule_id s) x) \<longleftrightarrow> x \<in> set ?ss" if "x \<in> set (schedules db)" for x
  proof
    assume "\<exists>s \<in> set ?ss. is_sched (s_persona_id s) (s_schedule_id s) x"
    then obtain s where s: "s \<in> set ?ss" "sched_key x = sched_key s" by (auto simp: is_sched_def)
    with keyed_inj [OF assms(3) that mem(1) [OF s(1)]] show "x \<in> set ?ss" by simp
  qed (auto simp: is_sched_def)
  have "length ?ss \<le> nat (clampLimit limit 16 256)" by (rule length_due_schedules)
  also have "\<dots> \<le> 256" by (auto simp: clampLimit_def)
  finally have n: "length out \<le> 256" by (simp add: out)
  have 1: "has_wake db' s \<and> s \<in> set (schedules db') \<and> s_status s = SFired \<and> s_wake_at s \<le> now
      \<and> (\<exists>s0 \<in> set (schedules db). s_status s0 = SPending \<and> s = fired now gen s0)" if h: "s \<in> set out" for s
  proof -
    from h obtain s0 where s0: "s0 \<in> set ?ss" "s = fired now gen s0" by (auto simp: out)
    then have "has_wake db' s" using w by (simp add: has_wake_alt fired_def)
    moreover have "s \<in> set (schedules db')"
      unfolding sch set_upd using s0 sel [OF mem(1) [OF s0(1)]] mem(1) [OF s0(1)] by (intro image_eqI [of _ _ s0]) simp_all
    ultimately show ?thesis using mem [OF s0(1)] s0(2) by (auto simp: fired_def sched_due_def)
  qed
  have 2: "s \<in> set (schedules db') \<or> fired now gen s \<in> set out" if "s \<in> set (schedules db)" for s
    using that sel [OF that] unfolding sch set_upd out by (auto simp: image_iff)
  from n 1 2 k show ?thesis by blast
qed

definition demo_scheduled :: "unit db" where
  "demo_scheduled = demo_db\<lparr>schedules := [\<lparr>s_persona_id = ''p1'', s_schedule_id = ''s1'', s_wake_at = 40, s_payload = [],
     s_miss_policy = ''fire_late'', s_status = SPending, s_claimed_generation = None, s_created_at = 10, s_fired_at = None\<rparr>]\<rparr>"

end
