(* ===== verification/Job_Discovery.thy ===== *)
theory Job_Discovery
  imports Core_Jobs Paging
begin

text \<open>
  Kind-filtered discovery of jobs (\<^verbatim>\<open>job_discovery.go\<close>): which personas have work or claims, the
  expiry sweep on its own, and the cursor pages a reconcile loop walks. Text columns are compared
  bytewise.
\<close>

definition job_page :: "int \<Rightarrow> int \<Rightarrow> nat" where
  "job_page limit d = nat (if limit \<le> 0 \<or> 500 < limit then d else limit)"

definition active :: "'d db \<Rightarrow> string \<Rightarrow> bool" where
  "active db p = (case persona_of db p of None \<Rightarrow> False | Some r \<Rightarrow> p_authority r = Active)"

definition runnable :: "'d db \<Rightarrow> string list \<Rightarrow> job_row \<Rightarrow> bool" where
  "runnable db kinds j \<longleftrightarrow> active db (j_persona_id j) \<and> j_status j = JQueued \<and> j_kind j \<in> set kinds"

definition PersonasWithRunnableJobs :: "'d db \<Rightarrow> string list \<Rightarrow> int \<Rightarrow> string \<Rightarrow> err + string list" where
  "PersonasWithRunnableJobs db kinds limit cursor =
     (if kinds = [] then Inl (ErrBadRequest ''kinds required'')
      else rbind (text_params (cursor # kinds)) (\<lambda>_.
        Inr (take (job_page limit 200) (rotated cursor (remdups (map j_persona_id (filter (runnable db kinds) (jobs db))))))))"

definition holds_claim :: "string \<Rightarrow> string list \<Rightarrow> job_row \<Rightarrow> bool" where
  "holds_claim runner kinds j \<longleftrightarrow> owned_by runner j \<and> j_kind j \<in> set kinds \<and> (job_live j \<or> j_status j = JLost)"

definition PersonasWithClaimedJobs :: "'d db \<Rightarrow> string \<Rightarrow> string list \<Rightarrow> int \<Rightarrow> string \<Rightarrow> err + string list" where
  "PersonasWithClaimedJobs db runner kinds limit cursor =
     (if runner = [] then Inl (ErrBadRequest ''runner_id required'')
      else if kinds = [] then Inl (ErrBadRequest ''kinds required'')
      else rbind (text_params (runner # cursor # kinds)) (\<lambda>_.
        Inr (take (job_page limit 200) (rotated cursor (remdups (map j_persona_id (filter (holds_claim runner kinds) (jobs db))))))))"

text \<open>The page of a sweep: the expired jobs of the kinds, oldest expiry first.\<close>

definition expired_page :: "timestamp \<Rightarrow> string list \<Rightarrow> int \<Rightarrow> 'd db \<Rightarrow> job_row list" where
  "expired_page now kinds limit db = take (job_page limit 64)
     (sort_key (\<lambda>j. case j_claim_expires_at j of None \<Rightarrow> 0 | Some e \<Rightarrow> e) (sort_key job_key
        (filter (\<lambda>j. expired now j \<and> j_kind j \<in> set kinds) (jobs db))))"

definition SweepExpiredJobs ::
  "job_host \<Rightarrow> timestamp \<Rightarrow> timestamp \<Rightarrow> string list \<Rightarrow> int \<Rightarrow> 'd db \<Rightarrow> err + ('d db \<times> job_row list)" where
  "SweepExpiredJobs jh now wall kinds limit db =
     (if kinds = [] then Inl (ErrBadRequest ''kinds required'')
      else rbind (text_params kinds) (\<lambda>_. sweep jh now wall (expired_page now kinds limit db) db))"

text \<open>A claim that still needs its runner: live, or lost without an observed outcome.\<close>

definition needs_attention :: "string \<Rightarrow> string list \<Rightarrow> job_row \<Rightarrow> bool" where
  "needs_attention runner kinds j \<longleftrightarrow> owned_by runner j \<and> j_kind j \<in> set kinds
     \<and> (job_live j \<or> j_status j = JLost \<and> map_of (or_empty (j_result j)) ''observed_outcome'' = None)"

definition ClaimJobsNeedingAttention ::
  "'d db \<Rightarrow> string \<Rightarrow> string list \<Rightarrow> int \<Rightarrow> string \<times> string \<Rightarrow> err + job_row list" where
  "ClaimJobsNeedingAttention db runner kinds limit cursor =
     (if runner = [] then Inl (ErrBadRequest ''runner_id required'')
      else if kinds = [] then Inl (ErrBadRequest ''kinds required'')
      else rbind (text_params (runner # fst cursor # snd cursor # kinds)) (\<lambda>_.
        Inr (page (job_page limit 64) job_key (filter (needs_attention runner kinds) (jobs db)) cursor)))"

definition RunnableJobs :: "'d db \<Rightarrow> string list \<Rightarrow> int \<Rightarrow> string \<times> string \<Rightarrow> err + job_row list" where
  "RunnableJobs db kinds limit cursor =
     (if kinds = [] then Inl (ErrBadRequest ''kinds required'')
      else rbind (text_params (fst cursor # snd cursor # kinds)) (\<lambda>_.
        Inr (page (job_page limit 64) job_key (filter (runnable db kinds) (jobs db)) cursor)))"

section \<open>Walking the pages\<close>

lemma job_page_pos: "0 < job_page limit 64"
  by (simp add: job_page_def)

lemma attention_page:
  "ClaimJobsNeedingAttention db runner kinds limit c = Inr js \<Longrightarrow>
     js = page (job_page limit 64) job_key (filter (needs_attention runner kinds) (jobs db)) c"
  by (auto simp: ClaimJobsNeedingAttention_def rbind_eq_Inr split: if_splits)

lemma full_page_moves:
  assumes "ClaimJobsNeedingAttention db runner kinds limit c = Inr js" "\<not> length js < job_page limit 64"
  shows "length (after (job_key (last js)) job_key (filter (needs_attention runner kinds) (jobs db)))
       < length (after c job_key (filter (needs_attention runner kinds) (jobs db)))"
proof -
  have "js \<noteq> []" using assms(2) job_page_pos [of limit] by auto
  then show ?thesis unfolding attention_page [OF assms(1)] by (rule page_moves)
qed

text \<open>
  Consecutive calls as the reconcile loop makes them: the cursor moves to the last row of a full
  page and a short page ends the round.
\<close>

declare rbind_cong [fundef_cong]

function attention_walk ::
  "'d db \<Rightarrow> string \<Rightarrow> string list \<Rightarrow> int \<Rightarrow> string \<times> string \<Rightarrow> err + job_row list" where
  "attention_walk db runner kinds limit cursor =
     rbind (ClaimJobsNeedingAttention db runner kinds limit cursor) (\<lambda>js.
       if length js < job_page limit 64 then Inr js
       else rbind (attention_walk db runner kinds limit (job_key (last js))) (\<lambda>rest. Inr (js @ rest)))"
  by pat_completeness auto

termination
  by (relation "measure (\<lambda>(db, runner, kinds, limit, c). length (after c job_key (filter (needs_attention runner kinds) (jobs db))))")
     (simp_all add: full_page_moves)

declare attention_walk.simps [simp del]

text \<open>Stored text and the parameters of a query have no NUL byte.\<close>

definition plain_ids :: "job_row list \<Rightarrow> bool" where
  "plain_ids js \<longleftrightarrow> list_all (\<lambda>j. NUL \<notin> set (j_persona_id j) \<and> NUL \<notin> set (j_job_id j)) js"

lemma attention_walk_all:
  assumes k: "keyed job_key (jobs db)" and p: "plain_ids (jobs db)" and r: "runner \<noteq> []" "kinds \<noteq> []" "text_params (runner # kinds) = Inr ()"
    and c: "text_params [fst c, snd c] = Inr ()"
  shows "attention_walk db runner kinds limit c = Inr (after c job_key (filter (needs_attention runner kinds) (jobs db)))"
  using assms
proof (induction db runner kinds limit c rule: attention_walk.induct)
  case (1 db runner kinds limit c)
  let ?rs = "filter (needs_attention runner kinds) (jobs db)" and ?n = "job_page limit 64"
  let ?pg = "page ?n job_key ?rs c"
  have call: "ClaimJobsNeedingAttention db runner kinds limit c = Inr ?pg"
    using 1(4-7) by (auto simp: ClaimJobsNeedingAttention_def text_params_def guard_eq_Inr)
  show ?case
  proof (cases "length ?pg < ?n")
    case True
    then have "?pg = after c job_key ?rs" by (auto simp: page_def)
    with True call show ?thesis by (simp add: attention_walk.simps [of db])
  next
    case False
    then have ne: "?pg \<noteq> []" using job_page_pos [of limit] by auto
    have "set ?pg \<subseteq> set (jobs db)" by (auto simp: page_def after_def dest!: in_set_takeD)
    then have "last ?pg \<in> set (jobs db)" using last_in_set [OF ne] by blast
    then have "text_params [fst (job_key (last ?pg)), snd (job_key (last ?pg))] = Inr ()"
      using 1(3) by (simp add: plain_ids_def list_all_iff text_params_def)
    from 1(1) [OF call False 1(2-6) this] call False show ?thesis
      using page_next [OF keyed_filter [OF 1(2)] ne] by (simp add: attention_walk.simps [of db _ _ _ c])
  qed
qed

section \<open>Properties\<close>

text \<open>
  A runner's pages miss nothing: walking the cursor from the start until a short page ends,
  and what it returns is exactly the runner's unresolved jobs of its kinds, each once, ordered by
  persona and job id, whatever the page size.
\<close>

lemma attention_walk_complete:
  assumes "keyed job_key (jobs db)" and "plain_ids (jobs db)" and "list_all (\<lambda>j. j_persona_id j \<noteq> []) (jobs db)"
    and "runner \<noteq> []" and "kinds \<noteq> []" and "text_params (runner # kinds) = Inr ()"
  shows "\<exists>js. attention_walk db runner kinds limit ([], []) = Inr js \<and> distinct js \<and> sorted (map job_key js)
    \<and> set js = {j \<in> set (jobs db). needs_attention runner kinds j}"
proof -
  let ?rs = "filter (needs_attention runner kinds) (jobs db)"
  have "attention_walk db runner kinds limit ([], []) = Inr (after ([], []) job_key ?rs)"
    by (rule attention_walk_all [OF assms(1,2,4,5,6)]) (simp add: text_params_def)
  moreover have "distinct (after ([], []) job_key ?rs)"
    using keyed_filter [OF assms(1), of "needs_attention runner kinds"] by (simp add: after_def keyed_def distinct_map)
  moreover have "sorted (map job_key (after ([], []) job_key ?rs))" by (rule after_sorted)
  moreover have "([], []) < job_key j" if "j \<in> set (jobs db)" for j
    using assms(3) that by (auto simp: list_all_iff less_prod_def neq_Nil_conv)
  then have "set (after ([], []) job_key ?rs) = {j \<in> set (jobs db). needs_attention runner kinds j}"
    by (auto simp: after_def)
  ultimately show ?thesis by blast
qed

definition demo_claimed :: "string \<Rightarrow> job_row" where
  "demo_claimed x = claimed_row 10 ''r1'' 60 (new_job 0 ''p1'' x ''subprocess'' [] ''api'')"

end
