(* ===== verification/Job_Lifecycle.thy ===== *)
theory Job_Lifecycle
  imports Job_Discovery
begin

text \<open>
  The life of a job. \<open>job_step\<close> lists every change a transaction makes to a stored row; the
  commands of \<^verbatim>\<open>jobs.go\<close> and \<^verbatim>\<open>job_discovery.go\<close> are sequences of such steps, at most one per row.
  On top of it: the well-formedness of rows, what a row keeps for ever (\<open>job_moved\<close>), the state
  machine of status and owner (\<open>life\<close>), and the agreement of ended jobs with notification inputs.
\<close>

section \<open>Steps of a row\<close>

definition stamp :: "timestamp \<Rightarrow> job_row \<Rightarrow> job_row" where
  "stamp now j = j\<lparr>j_notified_at := Some now\<rparr>"

definition withdrawn :: "timestamp \<Rightarrow> job_row \<Rightarrow> job_row" where
  "withdrawn now j = j\<lparr>j_status := JCancelled, j_cancel_requested_at := Some now, j_finished_at := Some now\<rparr>"

definition asked :: "timestamp \<Rightarrow> job_row \<Rightarrow> job_row" where
  "asked now j = j\<lparr>j_status := JCancelRequested, j_cancel_requested_at := Some now\<rparr>"

definition renewed :: "timestamp \<Rightarrow> job_row \<Rightarrow> job_row" where
  "renewed expiry j = j\<lparr>j_claim_expires_at := Some expiry\<rparr>"

definition cleared :: "job_row \<Rightarrow> job_row" where
  "cleared j = j\<lparr>j_result := map_option (jdel runnerWaitKey) (j_result j)\<rparr>"

inductive job_step :: "timestamp \<Rightarrow> string \<Rightarrow> job_row \<Rightarrow> job_row \<Rightarrow> bool" for now w where
  claim: "j_status j = JQueued \<Longrightarrow> 0 < lease \<Longrightarrow> job_step now w j (claimed_row now w lease j)"
| withdraw: "j_status j = JQueued \<Longrightarrow> job_step now w j (stamp now (withdrawn now j))"
| ask: "j_status j = JRunning \<Longrightarrow> job_step now w j (asked now j)"
| lose: "expired now j \<Longrightarrow> job_step now w j (stamp now (lost_row now j))"
| renew: "job_live j \<Longrightarrow> owned_by w j \<Longrightarrow> 0 < lease \<Longrightarrow> job_step now w j (renewed (now + lease) j)"
| wait: "job_live j \<Longrightarrow> owned_by w j \<Longrightarrow> 0 < lease \<Longrightarrow> job_step now w j (noted jh now lease cause j)"
| clear: "job_live j \<or> j_status j = JLost \<Longrightarrow> owned_by w j \<Longrightarrow> job_step now w j (cleared j)"
| finish: "job_live j \<Longrightarrow> owned_by w j \<Longrightarrow> s \<in> {JDone, JFailed, JCancelled}
    \<Longrightarrow> job_step now w j (stamp now (completed now s result e j))"
| observe: "j_status j = JLost \<Longrightarrow> owned_by w j \<Longrightarrow> map_of (or_empty (j_result j)) ''observed_outcome'' = None
    \<Longrightarrow> job_step now w j (observed outcome j)"

lemmas row_defs = stamp_def withdrawn_def asked_def renewed_def cleared_def claimed_row_def lost_row_def noted_def
  completed_def observed_def

lemma row_status [simp]:
  "j_status (stamp now j) = j_status j" "j_status (withdrawn now j) = JCancelled" "j_status (asked now j) = JCancelRequested"
  "j_status (renewed e j) = j_status j" "j_status (cleared j) = j_status j" "j_status (claimed_row now w l j) = JRunning"
  "j_status (lost_row now j) = JLost" "j_status (noted jh now l c j) = j_status j" "j_status (completed now s m t j) = s"
  "j_status (observed m j) = j_status j"
  by (simp_all add: row_defs)

lemma map_of_jput [simp]: "map_of (jput k v m) k' = (if k' = k then Some v else map_of m k')"
  by (induction m) (auto simp: jput_def)

lemma map_of_jdel [simp]: "map_of (jdel k m) k' = (if k' = k then None else map_of m k')"
  by (induction m) (auto simp: jdel_def)

lemma or_empty_simps [simp]: "or_empty None = []" "or_empty (Some m) = m"
  by (simp_all add: or_empty_def)

lemma or_empty_jdel [simp]: "or_empty (map_option (jdel k) r) = jdel k (or_empty r)"
  by (cases r) (simp_all add: jdel_def)

section \<open>Well-formed rows\<close>

text \<open>The columns a status fixes.\<close>

definition job_wf :: "job_row \<Rightarrow> bool" where
  "job_wf j = (case j_status j of
     JQueued \<Rightarrow> j_claimed_by j = None \<and> j_claim_expires_at j = None \<and> j_started_at j = None \<and> j_finished_at j = None
       \<and> j_cancel_requested_at j = None \<and> j_result j = None \<and> j_error j = None \<and> j_notified_at j = None
   | JRunning \<Rightarrow> j_claimed_by j \<noteq> None \<and> j_claim_expires_at j \<noteq> None \<and> j_started_at j \<noteq> None \<and> j_finished_at j = None
       \<and> j_cancel_requested_at j = None \<and> j_error j = None \<and> j_notified_at j = None
   | JCancelRequested \<Rightarrow> j_claimed_by j \<noteq> None \<and> j_claim_expires_at j \<noteq> None \<and> j_started_at j \<noteq> None \<and> j_finished_at j = None
       \<and> j_cancel_requested_at j \<noteq> None \<and> j_error j = None \<and> j_notified_at j = None
   | JLost \<Rightarrow> j_claimed_by j \<noteq> None \<and> j_started_at j \<noteq> None \<and> j_finished_at j \<noteq> None \<and> j_notified_at j \<noteq> None
       \<and> j_error j \<noteq> None \<and> map_of (or_empty (j_result j)) ''reason'' = Some (JStr ''claim_expired'')
   | JCancelled \<Rightarrow> (j_claimed_by j = None \<longleftrightarrow> j_started_at j = None) \<and> (j_claimed_by j = None \<longrightarrow> j_cancel_requested_at j \<noteq> None)
       \<and> (j_claimed_by j = None \<longleftrightarrow> j_result j = None) \<and> j_finished_at j \<noteq> None \<and> j_notified_at j \<noteq> None
   | _ \<Rightarrow> j_claimed_by j \<noteq> None \<and> j_started_at j \<noteq> None \<and> j_finished_at j \<noteq> None \<and> j_notified_at j \<noteq> None
       \<and> j_result j \<noteq> None)"

lemma new_job_wf [simp]: "job_wf (new_job now p x kind m c)"
  by (simp add: job_wf_def new_job_def)

lemma job_step_wf: "job_step now w j j' \<Longrightarrow> job_wf j \<Longrightarrow> job_wf j'"
  by (induction rule: job_step.induct)
     (auto simp: job_wf_def row_defs job_live_def expired_def owned_by_def runnerWaitKey_def split: option.splits)

section \<open>What a row keeps\<close>

definition job_cols :: "job_row \<Rightarrow> string \<times> string \<times> string \<times> jobj \<times> string \<times> timestamp" where
  "job_cols j = (j_persona_id j, j_job_id j, j_kind j, j_request j, j_created_by j, j_created_at j)"

definition result_field :: "job_row \<Rightarrow> string \<Rightarrow> json option" where
  "result_field j k = map_of (or_empty (j_result j)) k"

definition outcome_of :: "job_row \<Rightarrow> json option" where
  "outcome_of j = result_field j ''observed_outcome''"

text \<open>
  A claim is never handed on, a request to cancel is never withdrawn, a reported outcome is never
  rewritten. Of a lost job only the result changes: it gains, once, the outcome its runner observed,
  and loses the note of a wait.
\<close>

definition lost_kept :: "job_row \<Rightarrow> job_row \<Rightarrow> bool" where
  "lost_kept a b \<longleftrightarrow> (\<exists>r. b = a\<lparr>j_result := r\<rparr>)
     \<and> (\<forall>k. k \<noteq> ''observed_outcome'' \<and> k \<noteq> runnerWaitKey \<longrightarrow> result_field b k = result_field a k)
     \<and> (outcome_of a \<noteq> None \<longrightarrow> outcome_of b = outcome_of a)
     \<and> (result_field b runnerWaitKey = None \<or> result_field b runnerWaitKey = result_field a runnerWaitKey)"

definition job_moved :: "job_row \<Rightarrow> job_row \<Rightarrow> bool" where
  "job_moved a b \<longleftrightarrow> job_cols b = job_cols a
     \<and> (j_status a \<noteq> JQueued \<longrightarrow> j_status b \<noteq> JQueued \<and> j_claimed_by b = j_claimed_by a \<and> j_started_at b = j_started_at a)
     \<and> (j_status a = JCancelRequested \<longrightarrow> j_status b \<noteq> JRunning \<and> j_cancel_requested_at b = j_cancel_requested_at a)
     \<and> (j_status a \<in> {JDone, JFailed, JCancelled} \<longrightarrow> b = a)
     \<and> (j_status a = JLost \<longrightarrow> lost_kept a b)"

lemma lost_kept_refl: "lost_kept a a"
  unfolding lost_kept_def by (intro conjI exI [of _ "j_result a"]) simp_all

lemma lost_kept_cols:
  "lost_kept a b \<Longrightarrow> j_status b = j_status a \<and> j_cancel_requested_at b = j_cancel_requested_at a \<and> job_cols b = job_cols a
     \<and> j_claimed_by b = j_claimed_by a \<and> j_started_at b = j_started_at a"
  by (auto simp: lost_kept_def job_cols_def)

lemma lost_kept_trans:
  assumes "lost_kept a b" "lost_kept b c"
  shows "lost_kept a c"
proof -
  from assms obtain r r' where "b = a\<lparr>j_result := r\<rparr>" "c = b\<lparr>j_result := r'\<rparr>" unfolding lost_kept_def by blast
  then have "c = a\<lparr>j_result := r'\<rparr>" by simp
  with assms show ?thesis unfolding lost_kept_def by metis
qed

lemma job_moved_refl: "job_moved a a"
  by (simp add: job_moved_def lost_kept_refl)

lemma job_moved_trans:
  assumes "job_moved a b" "job_moved b c"
  shows "job_moved a c"
proof -
  have lost: "lost_kept a c" if l: "j_status a = JLost"
  proof -
    from assms(1) l have b: "lost_kept a b" by (simp add: job_moved_def)
    then have "j_status b = JLost" using l by (simp add: lost_kept_cols)
    with assms(2) have "lost_kept b c" by (simp add: job_moved_def)
    with b show ?thesis by (rule lost_kept_trans)
  qed
  have "j_status b \<noteq> JQueued \<Longrightarrow> j_status b \<noteq> JRunning \<Longrightarrow> j_status c \<noteq> JRunning"
    using assms(2) by (cases "j_status b") (auto simp: job_moved_def dest: lost_kept_cols)
  moreover have "j_cancel_requested_at c = j_cancel_requested_at b" if "j_status b \<noteq> JQueued" "j_status b \<noteq> JRunning"
    using assms(2) that by (cases "j_status b") (auto simp: job_moved_def dest: lost_kept_cols)
  ultimately show ?thesis using assms lost unfolding job_moved_def [of a b] job_moved_def [of b c]
    by (simp add: job_moved_def)
qed

interpretation job_rows: row_evolution job_moved "\<lambda>_. True"
  by unfold_locales (simp_all add: job_moved_refl job_moved_trans)

lemma job_moved_queued: "j_status a = JQueued \<Longrightarrow> job_cols b = job_cols a \<Longrightarrow> job_moved a b"
  by (simp add: job_moved_def)

lemma job_moved_live:
  assumes "job_live a" "job_cols b = job_cols a" "j_claimed_by b = j_claimed_by a" "j_started_at b = j_started_at a" "j_status b \<noteq> JQueued"
    "j_status a = JCancelRequested \<Longrightarrow> j_status b \<noteq> JRunning \<and> j_cancel_requested_at b = j_cancel_requested_at a"
  shows "job_moved a b"
  using assms by (auto simp: job_moved_def job_live_def)

lemma job_moved_lost: "j_status a = JLost \<Longrightarrow> lost_kept a b \<Longrightarrow> job_moved a b"
  by (simp add: job_moved_def lost_kept_cols)

lemma job_step_moved:
  assumes "job_step now w j j'"
  shows "job_moved j j'"
  using assms
proof cases
  case clear
  have "lost_kept j (cleared j)"
    by (auto simp: lost_kept_def outcome_of_def result_field_def cleared_def runnerWaitKey_def)
  with clear show ?thesis
    by (elim disjE) (auto intro: job_moved_live job_moved_lost simp: cleared_def job_cols_def job_live_def)
next
  case (observe outcome)
  then have "lost_kept j (observed outcome j)"
    by (auto simp: lost_kept_def outcome_of_def result_field_def observed_def runnerWaitKey_def)
  with observe show ?thesis by (auto intro: job_moved_lost)
next
  case claim
  show ?thesis by (rule job_moved_queued) (use claim in \<open>simp_all add: row_defs job_cols_def\<close>)
next
  case withdraw
  show ?thesis by (rule job_moved_queued) (use withdraw in \<open>simp_all add: row_defs job_cols_def\<close>)
qed (rule job_moved_live; auto simp: row_defs job_cols_def job_live_def expired_def)+

lemma job_step_key: "job_step now w j j' \<Longrightarrow> job_key j' = job_key j"
  by (drule job_step_moved) (simp add: job_moved_def job_cols_def)

section \<open>The state machine of status and owner\<close>

type_synonym standing_of = "job_status \<times> string option"

definition sig :: "job_row \<Rightarrow> standing_of" where
  "sig j = (j_status j, j_claimed_by j)"

inductive life :: "string \<Rightarrow> standing_of \<Rightarrow> standing_of \<Rightarrow> bool" for w where
  taken: "life w (JQueued, None) (JRunning, Some w)"
| dropped: "life w (JQueued, None) (JCancelled, None)"
| told: "life w (JRunning, Some v) (JCancelRequested, Some v)"
| reported: "s \<in> {JRunning, JCancelRequested} \<Longrightarrow> t \<in> {JDone, JFailed, JCancelled} \<Longrightarrow> life w (s, Some w) (t, Some w)"
| vanished: "s \<in> {JRunning, JCancelRequested} \<Longrightarrow> life w (s, Some v) (JLost, Some v)"

inductive_simps life_simps: "life w (s, v) (t, u)"

lemma job_step_life: "job_step now w j j' \<Longrightarrow> job_wf j \<Longrightarrow> sig j' = sig j \<or> life w (sig j) (sig j')"
  by (induction rule: job_step.induct)
     (auto simp: sig_def life_simps job_wf_def row_defs job_live_def expired_def owned_by_def)

text \<open>From every state the machine reaches an end, and no step leaves one.\<close>

lemma life_ends: "life w (s, v) (t, u) \<Longrightarrow> \<not> jobTerminal s"
  by (auto simp: life_simps jobTerminal_def)

section \<open>Commands\<close>

datatype job_cmd =
    JSubmit string string string "jobj option" string
  | JCancel string string
  | JClaim string string "string list" int int string
  | JHeartbeat string string string int
  | JNoteWait string string string int string
  | JClearWait string string string
  | JComplete string string string string "jobj option" string
  | JAttach string string string "jobj option"
  | JSweep "string list" int

definition exec_job :: "job_host \<Rightarrow> timestamp \<Rightarrow> timestamp \<Rightarrow> job_cmd \<Rightarrow> 'd db \<Rightarrow> err + 'd db" where
  "exec_job jh now wall c db = (case c of
     JSubmit p x kind m from \<Rightarrow> rbind (SubmitJob jh now p x kind m from db) (\<lambda>(db', _). Inr db')
   | JCancel p x \<Rightarrow> rbind (cancelJobTx jh now wall p x db) (\<lambda>(db', _). Inr db')
   | JClaim p w kinds lease limit backend \<Rightarrow> rbind (ClaimJobs jh now wall p w kinds lease limit backend db) (\<lambda>(db', _). Inr db')
   | JHeartbeat p x w lease \<Rightarrow> rbind (HeartbeatJob now p x w lease db) (\<lambda>(db', _). Inr db')
   | JNoteWait p x w lease cause \<Rightarrow> rbind (NoteWait jh now p x w lease cause db) (\<lambda>(db', _). Inr db')
   | JClearWait p x w \<Rightarrow> rbind (ClearWait p x w db) (\<lambda>(db', _). Inr db')
   | JComplete p x w status result e \<Rightarrow> rbind (CompleteJob jh now wall p x w status result e db) (\<lambda>(db', _). Inr db')
   | JAttach p x w outcome \<Rightarrow> rbind (AttachLostOutcome jh p x w outcome db) (\<lambda>(db', _). Inr db')
   | JSweep kinds limit \<Rightarrow> rbind (SweepExpiredJobs jh now wall kinds limit db) (\<lambda>(db', _). Inr db'))"

text \<open>The runner a command speaks for.\<close>

definition runner_of :: "job_cmd \<Rightarrow> string" where
  "runner_of c = (case c of JClaim _ w _ _ _ _ \<Rightarrow> w | JHeartbeat _ _ w _ \<Rightarrow> w | JNoteWait _ _ w _ _ \<Rightarrow> w
     | JClearWait _ _ w \<Rightarrow> w | JComplete _ _ w _ _ _ \<Rightarrow> w | JAttach _ _ w _ \<Rightarrow> TrimSpace w | _ \<Rightarrow> [])"

section \<open>Notifications\<close>

text \<open>The jobs with a notification input, and the jobs that have ended.\<close>

definition noted_of :: "input_row list \<Rightarrow> (string \<times> string) set" where
  "noted_of rs = {(p, x) | p x. \<exists>r \<in> set rs. i_persona_id r = p \<and> i_input_id r = jobInputPrefix @ x}"

definition ended_of :: "job_row list \<Rightarrow> (string \<times> string) set" where
  "ended_of js = job_key ` {j \<in> set js. jobTerminal (j_status j)}"

definition jobs_ok :: "'d db \<Rightarrow> bool" where
  "jobs_ok db \<longleftrightarrow> keyed job_key (jobs db) \<and> list_all job_wf (jobs db) \<and> noted_of (inputs db) = ended_of (jobs db)"

lemma noted_of_append [simp]: "noted_of (rs @ ss) = noted_of rs \<union> noted_of ss"
  by (auto simp: noted_of_def)

lemma noted_of_Nil [simp]: "noted_of [] = {}"
  by (simp add: noted_of_def)

lemma noted_of_job_input [simp]: "noted_of [job_input now sq p x m] = {(p, x)}"
  by (auto simp: noted_of_def job_input_def)

lemma noted_of_input: "(p, x) \<in> noted_of (inputs db) \<longleftrightarrow> input_of db p (jobInputPrefix @ x) \<noteq> None"
  by (auto simp: noted_of_def input_of_def find_None_iff is_input_def)

lemma ended_of_append [simp]: "ended_of (js @ ks) = ended_of js \<union> ended_of ks"
  by (auto simp: ended_of_def)

lemma ended_of_Cons [simp]: "ended_of (j # js) = (if jobTerminal (j_status j) then {job_key j} else {}) \<union> ended_of js"
  by (auto simp: ended_of_def)

lemma ended_of_Nil [simp]: "ended_of [] = {}"
  by (simp add: ended_of_def)

lemma ended_of_new [simp]: "ended_of [new_job now p x kind m c] = {}"
  by (simp add: new_job_def jobTerminal_def)

lemma ended_upd_same:
  assumes "\<And>r. r \<in> set js \<Longrightarrow> P r \<Longrightarrow> job_key (f r) = job_key r \<and> jobTerminal (j_status (f r)) = jobTerminal (j_status r)"
  shows "ended_of (upd P f js) = ended_of js"
  using assms by (induction js) (simp_all del: prod.inject)

lemma ended_upd_ends:
  assumes "\<And>r. r \<in> set js \<Longrightarrow> P r \<Longrightarrow> job_key (f r) = job_key r \<and> jobTerminal (j_status (f r))"
  shows "ended_of (upd P f js) = ended_of js \<union> job_key ` {r \<in> set js. P r}"
  using assms
proof (induction js)
  case (Cons j js)
  have "{r \<in> set (j # js). P r} = (if P j then {j} else {}) \<union> {r \<in> set js. P r}" by auto
  with Cons show ?case by (simp only: image_Un upd_Cons ended_of_Cons) auto
qed simp

lemma notify_noted:
  assumes "notifyJobTerminalTx jh now wall j db = Inr (db', j')"
  shows "noted_of (inputs db') = insert (job_key j) (noted_of (inputs db))"
    "ended_of (jobs db') = ended_of (jobs db)"
proof -
  obtain sq m where i: "inputs db' = inputs db @ (if input_of db (j_persona_id j) (jobInputPrefix @ j_job_id j) = None
      then [job_input now sq (j_persona_id j) (j_job_id j) m] else [])"
    using notifyJobTerminalTx_eq(3) [OF assms] by blast
  show "noted_of (inputs db') = insert (job_key j) (noted_of (inputs db))"
    using noted_of_input [of "j_persona_id j" "j_job_id j" db] by (auto simp: i)
  show "ended_of (jobs db') = ended_of (jobs db)"
    unfolding notifyJobTerminalTx_eq(1) [OF assms] by (rule ended_upd_same) simp
qed

lemma upd_upd:
  "(\<And>r. r \<in> set rs \<Longrightarrow> P r \<Longrightarrow> Q (f r)) \<Longrightarrow> (\<And>r. r \<in> set rs \<Longrightarrow> Q r \<Longrightarrow> P r) \<Longrightarrow> upd Q g (upd P f rs) = upd P (\<lambda>r. g (f r)) rs"
  by (induction rs) auto

lemma notify_all_noted:
  assumes "notify_all jh now wall js db = Inr (db', out)"
  shows "jobs db' = upd (\<lambda>r. job_key r \<in> job_key ` set js) (stamp now) (jobs db)"
    "noted_of (inputs db') = noted_of (inputs db) \<union> job_key ` set js" "ended_of (jobs db') = ended_of (jobs db)"
proof -
  show "jobs db' = upd (\<lambda>r. job_key r \<in> job_key ` set js) (stamp now) (jobs db)"
    using assms
  proof (induction js arbitrary: db out)
    case Nil
    then show ?case by (simp add: upd_def)
  next
    case (Cons j js)
    then obtain db1 j' out' where n: "notifyJobTerminalTx jh now wall j db = Inr (db1, j')" "notify_all jh now wall js db1 = Inr (db', out')"
      by (auto simp: rbind_eq_Inr)
    show ?case unfolding Cons.IH [OF n(2)] notifyJobTerminalTx_eq(1) [OF n(1)]
      by (auto simp: upd_def stamp_def is_job_def image_iff)
  qed
  show "noted_of (inputs db') = noted_of (inputs db) \<union> job_key ` set js"
    using assms by (induction js arbitrary: db out) (auto simp: rbind_eq_Inr notify_noted)
  show "ended_of (jobs db') = ended_of (jobs db)"
    using assms by (induction js arbitrary: db out) (auto simp: rbind_eq_Inr notify_noted)
qed

text \<open>A sweep of expired rows of the table marks each of them lost and announces it.\<close>

lemma sweep_effect:
  assumes "sweep jh now wall js db = Inr (db', out)" "keyed job_key (jobs db)" "\<forall>j \<in> set js. j \<in> set (jobs db) \<and> expired now j"
  defines "S \<equiv> \<lambda>r. job_key r \<in> job_key ` set js"
  shows "jobs db' = upd S (\<lambda>r. stamp now (lost_row now r)) (jobs db)" "\<And>r. r \<in> set (jobs db) \<Longrightarrow> S r \<Longrightarrow> expired now r"
    "noted_of (inputs db) = ended_of (jobs db) \<Longrightarrow> noted_of (inputs db') = ended_of (jobs db')"
proof -
  show ex: "expired now r" if "r \<in> set (jobs db)" "S r" for r
  proof -
    from that(2) obtain j where "j \<in> set js" "job_key r = job_key j" unfolding S_def by auto
    with that(1) assms(2,3) show ?thesis using keyed_inj [of job_key "jobs db" r j] by auto
  qed
  let ?P = "\<lambda>r. expired now r \<and> job_key r \<in> set (map job_key js)"
  let ?d = "db\<lparr>jobs := upd ?P (lost_row now) (jobs db)\<rparr>"
  have n: "notify_all jh now wall (map (lost_row now) js) ?d = Inr (db', out)" using assms(1) by (simp add: sweep_def)
  have k: "job_key ` set (map (lost_row now) js) = job_key ` set js" by (auto simp: lost_row_def image_iff)
  have "jobs db' = upd S (stamp now) (upd ?P (lost_row now) (jobs db))"
    using notify_all_noted(1) [OF n] by (simp only: k S_def) simp
  also have "\<dots> = upd ?P (\<lambda>r. stamp now (lost_row now r)) (jobs db)"
    by (rule upd_upd) (auto simp: S_def lost_row_def intro: ex [unfolded S_def])
  also have "\<dots> = upd S (\<lambda>r. stamp now (lost_row now r)) (jobs db)"
    using ex by (auto simp: upd_def S_def)
  finally show "jobs db' = upd S (\<lambda>r. stamp now (lost_row now r)) (jobs db)" .
  have "ended_of (upd ?P (lost_row now) (jobs db)) = ended_of (jobs db) \<union> job_key ` {r \<in> set (jobs db). ?P r}"
    by (rule ended_upd_ends) (simp add: lost_row_def jobTerminal_def)
  moreover have "job_key ` {r \<in> set (jobs db). ?P r} = job_key ` set js"
    using assms(3) by (auto simp: image_iff)
  ultimately show "noted_of (inputs db) = ended_of (jobs db) \<Longrightarrow> noted_of (inputs db') = ended_of (jobs db')"
    using notify_all_noted(2,3) [OF n] k by simp
qed

section \<open>Every command is a step of each row\<close>

text \<open>At most one step per row, or a new queued row; ended jobs stay the announced ones.\<close>

definition steps :: "timestamp \<Rightarrow> string \<Rightarrow> job_row list \<Rightarrow> job_row list \<Rightarrow> bool" where
  "steps now w js js' \<longleftrightarrow> list_all2 (\<lambda>a b. a = b \<or> job_step now w a b) js js'"

definition progress :: "timestamp \<Rightarrow> string \<Rightarrow> 'd db \<Rightarrow> 'd db \<Rightarrow> bool" where
  "progress now w db db' \<longleftrightarrow>
     (steps now w (jobs db) (jobs db')
      \<or> (\<exists>p x kind m c. jobs db' = jobs db @ [new_job now p x kind m c] \<and> job_of db p x = None))
     \<and> (noted_of (inputs db) = ended_of (jobs db) \<longrightarrow> noted_of (inputs db') = ended_of (jobs db'))"

lemma steps_refl [simp]: "steps now w js js"
  by (simp add: steps_def list_all2_refl)

lemma steps_upd: "(\<And>r. r \<in> set js \<Longrightarrow> P r \<Longrightarrow> job_step now w r (f r)) \<Longrightarrow> steps now w js (upd P f js)"
  by (simp add: steps_def upd_def list_all2_map2 list_all2_same)

lemma progress_refl [simp]: "progress now w db db"
  by (simp add: progress_def)

text \<open>A command that rewrites one job and neither ends it nor touches the inputs.\<close>

lemma progress_upd:
  assumes "\<And>r. r \<in> set (jobs db) \<Longrightarrow> P r \<Longrightarrow> job_step now w r (f r) \<and> jobTerminal (j_status (f r)) = jobTerminal (j_status r)"
  shows "progress now w db (db\<lparr>jobs := upd P f (jobs db)\<rparr>)"
proof -
  have "ended_of (upd P f (jobs db)) = ended_of (jobs db)"
    by (rule ended_upd_same) (use assms job_step_key in blast)
  then show ?thesis using assms by (auto simp: progress_def intro: steps_upd)
qed

text \<open>A command that ends one job and announces it.\<close>

lemma progress_end:
  assumes n: "notifyJobTerminalTx jh now wall j1 (db\<lparr>jobs := upd P f (jobs db)\<rparr>) = Inr (db', j')"
    and j: "j \<in> set (jobs db)" "P j" "job_key j1 = job_key j" "keyed job_key (jobs db)" "\<And>r. P r \<Longrightarrow> job_key r = job_key j"
    and f: "job_key (f j) = job_key j" "jobTerminal (j_status (f j))" "job_step now w j (stamp now (f j))"
  shows "progress now w db db'"
proof -
  have P: "r = j" if "r \<in> set (jobs db)" "P r" for r
    using keyed_inj [OF j(4) that(1) j(1)] j(5) [OF that(2)] .
  have k: "j_persona_id j1 = j_persona_id j" "j_job_id j1 = j_job_id j" using j(3) by simp_all
  have js: "jobs db' = upd P (\<lambda>r. stamp now (f r)) (jobs db)"
  proof -
    have "jobs db' = upd (is_job (j_persona_id j) (j_job_id j)) (stamp now) (upd P f (jobs db))"
      using notifyJobTerminalTx_eq(1) [OF n] by (simp add: k stamp_def [abs_def])
    also have "\<dots> = upd P (\<lambda>r. stamp now (f r)) (jobs db)"
    proof (rule upd_upd)
      show "is_job (j_persona_id j) (j_job_id j) (f r)" if "r \<in> set (jobs db)" "P r" for r
        using P [OF that] f(1) by (simp add: is_job_def)
      show "P r" if "r \<in> set (jobs db)" "is_job (j_persona_id j) (j_job_id j) r" for r
        using keyed_inj [OF j(4) that(1) j(1)] that(2) j(2) by (simp add: is_job_def)
    qed
    finally show ?thesis .
  qed
  have "ended_of (upd P f (jobs db)) = ended_of (jobs db) \<union> job_key ` {r \<in> set (jobs db). P r}"
    using P f(1,2) by (intro ended_upd_ends) auto
  moreover have "{r \<in> set (jobs db). P r} = {j}" using P j(1,2) by blast
  ultimately have "ended_of (jobs db') = insert (job_key j) (ended_of (jobs db))" using notify_noted(2) [OF n] by simp
  moreover have "noted_of (inputs db') = insert (job_key j) (noted_of (inputs db))" using notify_noted(1) [OF n] j(3) by simp
  moreover have "steps now w (jobs db) (jobs db')" unfolding js by (rule steps_upd) (use P f(3) in blast)
  ultimately show ?thesis by (simp add: progress_def)
qed

lemma job_of_in: "job_of db p x = Some j \<Longrightarrow> j \<in> set (jobs db) \<and> is_job p x j"
  unfolding job_of_def by (rule find_SomeD)

lemma job_of_unique: "jobs_ok db \<Longrightarrow> job_of db p x = Some j \<Longrightarrow> r \<in> set (jobs db) \<Longrightarrow> is_job p x r \<Longrightarrow> r = j"
  by (drule job_of_in) (auto simp: is_job_def jobs_ok_def intro: keyed_inj)

lemma progress_new:
  assumes "job_of db p x = None"
  shows "progress now w db (db\<lparr>jobs := jobs db @ [new_job now p x kind m c]\<rparr>)"
proof -
  have "ended_of (jobs db @ [new_job now p x kind m c]) = ended_of (jobs db)" by (simp add: new_job_def jobTerminal_def)
  moreover have "\<exists>p' x' kind' m' c'. jobs db @ [new_job now p x kind m c] = jobs db @ [new_job now p' x' kind' m' c'] \<and> job_of db p' x' = None"
    using assms by blast
  ultimately show ?thesis by (simp add: progress_def del: append1_eq_conv same_append_eq)
qed

lemma submitJobTx_progress:
  assumes "submitJobTx jh now p x kind m c db = Inr (db', j, fresh)"
  shows "progress now w db db'"
  using assms by (cases rule: submitJobTx_cases) (simp_all add: progress_new)

lemma SubmitJob_progress:
  assumes "SubmitJob jh now p x kind m c db = Inr (db', j, fresh)"
  shows "progress now w db db'"
proof -
  from assms obtain m' c' where "submitJobTx jh now p x kind m' c' db = Inr (db', j, fresh)"
    by (auto simp: SubmitJob_def rbind_eq_Inr Let_def)
  then show ?thesis by (rule submitJobTx_progress)
qed

lemma cancelJobTx_progress:
  assumes "cancelJobTx jh now wall p x db = Inr (db', j')" "jobs_ok db"
  shows "progress now w db db'"
  using assms(1)
proof (cases rule: cancelJobTx_cases)
  case (withdrawn j)
  note j = job_of_in [OF withdrawn(1)]
  from withdrawn(3) show ?thesis unfolding withdrawn_def [symmetric]
    by (rule progress_end [where j = j])
       (use j assms(2) withdrawn(2) in \<open>auto simp: is_job_def jobs_ok_def job_step.withdraw,
         auto simp: withdrawn_def jobTerminal_def\<close>)
next
  case (asked j)
  have d: "db' = db\<lparr>jobs := upd (is_job p x) (Job_Lifecycle.asked now) (jobs db)\<rparr>"
    using asked(3) by (simp add: Job_Lifecycle.asked_def [abs_def])
  show ?thesis unfolding d using job_of_unique [OF assms(2) asked(1)] asked(2)
    by (intro progress_upd) (auto intro!: job_step.ask simp: jobTerminal_def)
qed simp

lemma wf_owned_live: "job_wf j \<Longrightarrow> owned_by w j \<Longrightarrow> \<not> jobTerminal (j_status j) \<Longrightarrow> job_live j"
  by (auto simp: job_wf_def owned_by_def jobTerminal_def job_live_def split: job_status.splits)

lemma HeartbeatJob_progress:
  assumes "HeartbeatJob now p x w lease db = Inr (db', j)" "jobs_ok db"
  shows "progress now w db db'"
proof -
  let ?P = "\<lambda>r. is_job p x r \<and> owned_by w r"
  from assms(1) have l: "0 < lease" and j: "job_of db p x = Some j" "\<not> jobTerminal (j_status j)"
    and d: "db' = db\<lparr>jobs := upd ?P (renewed (now + lease)) (jobs db)\<rparr>"
    by (auto simp: HeartbeatJob_def rbind_eq_Inr require_eq_Inr renewed_def [abs_def] split: if_splits)
  show ?thesis unfolding d using job_of_unique [OF assms(2) j(1)] j(2) l assms(2)
    by (intro progress_upd) (auto simp: jobs_ok_def list_all_iff intro!: job_step.renew wf_owned_live)
qed

lemma NoteWait_progress:
  assumes "NoteWait jh now p x w lease cause db = Inr (db', j)"
  shows "progress now w db db'"
proof -
  from assms have "0 < lease" "db' = db\<lparr>jobs := upd (\<lambda>r. is_job p x r \<and> owned_by w r \<and> job_live r) (noted jh now lease cause) (jobs db)\<rparr>"
    by (auto simp: NoteWait_def rbind_eq_Inr Let_def split: if_splits option.splits)
  then show ?thesis by (auto intro!: progress_upd job_step.wait)
qed

lemma ClearWait_progress:
  assumes "ClearWait p x w db = Inr (db', u)"
  shows "progress now w db db'"
  using assms by (auto simp: ClearWait_def rbind_eq_Inr cleared_def [abs_def, symmetric] intro!: progress_upd job_step.clear)

lemma CompleteJob_progress:
  assumes "CompleteJob jh now wall p x w status result e db = Inr (db', j')" "jobs_ok db"
  shows "progress now w db db'"
proof -
  from assms(1) obtain s j where s: "complete_status status = Some s" and j: "job_of db p x = Some j"
    and c: "jobTerminal (j_status j) \<Longrightarrow> db' = db" "\<not> jobTerminal (j_status j) \<Longrightarrow> owned_by w j \<and>
      notifyJobTerminalTx jh now wall (completed now s (or_empty result) e j)
        (db\<lparr>jobs := upd (\<lambda>r. is_job p x r \<and> owned_by w r) (completed now s (or_empty result) e) (jobs db)\<rparr>) = Inr (db', j')"
    by (auto simp: CompleteJob_def rbind_eq_Inr require_eq_Inr Let_def split: if_splits option.splits)
  have st: "s \<in> {JDone, JFailed, JCancelled}" using s by (auto simp: complete_status_def split: if_splits)
  note ji = job_of_in [OF j]
  show ?thesis
  proof (cases "jobTerminal (j_status j)")
    case True
    with c show ?thesis by simp
  next
    case False
    with c have o: "owned_by w j" and n: "notifyJobTerminalTx jh now wall (completed now s (or_empty result) e j)
        (db\<lparr>jobs := upd (\<lambda>r. is_job p x r \<and> owned_by w r) (completed now s (or_empty result) e) (jobs db)\<rparr>) = Inr (db', j')" by blast+
    have live: "job_live j" using ji assms(2) o False by (auto simp: jobs_ok_def list_all_iff intro: wf_owned_live)
    have step: "job_step now w j (stamp now (completed now s (or_empty result) e j))" by (rule job_step.finish [OF live o st])
    have key: "job_key (completed now s (or_empty result) e j) = job_key j" "jobTerminal (j_status (completed now s (or_empty result) e j))"
      using st by (auto simp: completed_def jobTerminal_def)
    from n show ?thesis
      by (rule progress_end [where j = j]) (use ji o key step assms(2) in \<open>auto simp: is_job_def jobs_ok_def\<close>)
  qed
qed

lemma AttachLostOutcome_progress:
  assumes "AttachLostOutcome jh p x w outcome db = Inr (db', j')" "jobs_ok db"
  shows "progress now (TrimSpace w) db db'"
proof -
  let ?p = "TrimSpace p" and ?x = "TrimSpace x" and ?w = "TrimSpace w"
  let ?P = "\<lambda>r. is_job ?p ?x r \<and> j_status r = JLost \<and> owned_by ?w r"
  from assms(1) obtain j o' where j: "job_of db ?p ?x = Some j"
    and c: "db' = db \<or> map_of (or_empty (j_result j)) ''observed_outcome'' = None \<and> db' = db\<lparr>jobs := upd ?P (observed o') (jobs db)\<rparr>"
    by (auto simp: AttachLostOutcome_def rbind_eq_Inr require_eq_Inr Let_def split: if_splits option.splits)
  from c show ?thesis
  proof (elim disjE conjE)
    assume n: "map_of (or_empty (j_result j)) ''observed_outcome'' = None" and d: "db' = db\<lparr>jobs := upd ?P (observed o') (jobs db)\<rparr>"
    show ?thesis unfolding d using job_of_unique [OF assms(2) j] n
      by (intro progress_upd) (auto intro!: job_step.observe)
  qed simp
qed

lemma SweepExpiredJobs_progress:
  assumes "SweepExpiredJobs jh now wall kinds limit db = Inr (db', out)" "jobs_ok db"
  shows "progress now w db db'"
proof -
  let ?js = "expired_page now kinds limit db"
  have s: "sweep jh now wall ?js db = Inr (db', out)" using assms(1) by (auto simp: SweepExpiredJobs_def rbind_eq_Inr split: if_splits)
  have e: "\<forall>j \<in> set ?js. j \<in> set (jobs db) \<and> expired now j"
    by (auto simp: expired_page_def dest!: in_set_takeD)
  from assms(2) have k: "keyed job_key (jobs db)" by (simp add: jobs_ok_def)
  show ?thesis unfolding progress_def
    using sweep_effect [OF s k e] by (auto intro!: steps_upd job_step.lose)
qed

text \<open>A claim pass: the sweep loses only live rows, the claim takes only queued ones.\<close>

lemma ClaimJobs_progress:
  assumes "ClaimJobs jh now wall p w kinds lease limit backend db = Inr (db', out)" "jobs_ok db"
  shows "progress now w db db'"
proof -
  let ?sw = "filter (\<lambda>j. j_persona_id j = p \<and> expired now j) (jobs db)"
  let ?S = "\<lambda>r. job_key r \<in> job_key ` set ?sw"
  let ?lose = "\<lambda>r. stamp now (lost_row now r)" and ?take = "claimed_row now w lease"
  have k: "keyed job_key (jobs db)" using assms(2) by (simp add: jobs_ok_def)
  let ?js = "\<lambda>d. take (nat (clampLimit limit 1 32)) (sort_key j_created_at (sort_key j_job_id (filter (claimable_job d p kinds backend) (jobs d))))"
  from assms(1) obtain db1 swept where l: "0 < lease" and s: "sweep jh now wall ?sw db = Inr (db1, swept)"
    and d: "db' = db1\<lparr>jobs := upd (\<lambda>r. job_key r \<in> set (map job_key (?js db1))) ?take (jobs db1)\<rparr>"
    by (auto simp: ClaimJobs_def rbind_eq_Inr Let_def simp del: set_map split: if_splits)
  define js where "js = ?js db1"
  note d = d [folded js_def]
  have js: "j \<in> set (jobs db1) \<and> j_status j = JQueued" if "j \<in> set js" for j
    using in_set_takeD [OF that [unfolded js_def]] by (simp add: claimable_job_def)
  have e: "\<forall>j \<in> set ?sw. j \<in> set (jobs db) \<and> expired now j" by simp
  note sw = sweep_effect [OF s k e]
  let ?Q = "\<lambda>r. job_key r \<in> set (map job_key js)"
  have k1: "keyed job_key (jobs db1)" unfolding sw(1) using k by (subst keyed_upd) (simp_all add: row_defs)
  have Q: "j_status r = JQueued" if "r \<in> set (jobs db1)" "?Q r" for r
    using that js keyed_inj [OF k1 that(1)] by auto
  have keep: "ended_of (jobs db') = ended_of (jobs db1)" "inputs db' = inputs db1"
    using Q by (auto simp: d jobTerminal_def intro!: ended_upd_same) (simp_all add: claimed_row_def)
  have step: "job_step now w r (if ?S r then ?lose r else ?take r)" if r: "r \<in> set (jobs db)" "?S r \<or> ?Q r" for r
  proof (cases "?S r")
    case True
    then show ?thesis using sw(2) [OF r(1)] by (simp add: job_step.lose)
  next
    case False
    then have "r \<in> set (jobs db1)" using r(1) by (auto simp: sw(1) set_upd image_iff intro!: bexI [of _ r])
    with Q False r(2) l show ?thesis by (simp add: job_step.claim)
  qed
  have js': "jobs db' = upd (\<lambda>r. ?S r \<or> ?Q r) (\<lambda>r. if ?S r then ?lose r else ?take r) (jobs db)"
  proof -
    have "\<not> ?Q (?lose r)" if "r \<in> set (jobs db)" "?S r" for r
      using Q [of "?lose r"] that by (auto simp: sw(1) set_upd)
    then show ?thesis unfolding d sw(1) by (auto simp: upd_def)
  qed
  have "steps now w (jobs db) (jobs db')" unfolding js' by (rule steps_upd) (rule step)
  then show ?thesis unfolding progress_def using sw(3) keep by simp
qed

lemma exec_job_progress:
  assumes "exec_job jh now wall c db = Inr db'" "jobs_ok db"
  shows "progress now (runner_of c) db db'"
  using assms
  by (cases c) (auto simp: exec_job_def runner_of_def rbind_eq_Inr intro: SubmitJob_progress cancelJobTx_progress
      ClaimJobs_progress HeartbeatJob_progress NoteWait_progress ClearWait_progress CompleteJob_progress
      AttachLostOutcome_progress SweepExpiredJobs_progress)

text \<open>Hence the laws of the table.\<close>

definition job_lawful :: "'d db \<Rightarrow> 'd db \<Rightarrow> bool" where
  "job_lawful db db' \<longleftrightarrow> (jobs_ok db \<longrightarrow> jobs_ok db' \<and> grows job_moved (\<lambda>_. True) (jobs db) (jobs db'))"

lemma job_lawful_refl [simp]: "job_lawful db db"
  by (simp add: job_lawful_def job_rows.grows_refl)

lemma job_lawful_trans: "job_lawful a b \<Longrightarrow> job_lawful b c \<Longrightarrow> job_lawful a c"
  by (auto simp: job_lawful_def intro: job_rows.grows_trans)

lemma job_lawful_same: "jobs db' = jobs db \<Longrightarrow> noted_of (inputs db') = noted_of (inputs db) \<Longrightarrow> job_lawful db db'"
  by (simp add: job_lawful_def jobs_ok_def job_rows.grows_refl)

lemma steps_keys: "steps now w js js' \<Longrightarrow> map job_key js' = map job_key js"
  unfolding steps_def by (induction rule: list_all2_induct) (auto dest: job_step_key)

lemma steps_wf: "steps now w js js' \<Longrightarrow> list_all job_wf js \<Longrightarrow> list_all job_wf js'"
  unfolding steps_def by (induction rule: list_all2_induct) (auto dest: job_step_wf)

lemma steps_moved: "steps now w js js' \<Longrightarrow> list_all2 job_moved js js'"
  unfolding steps_def by (erule list_all2_mono) (auto simp: job_moved_refl dest: job_step_moved)

lemma progress_lawful: "progress now w db db' \<Longrightarrow> job_lawful db db'"
  unfolding job_lawful_def
proof
  assume p: "progress now w db db'" and ok: "jobs_ok db"
  from p consider (steps) "steps now w (jobs db) (jobs db')"
    | (new) q x kind m c where "jobs db' = jobs db @ [new_job now q x kind m c]" "job_of db q x = None"
    unfolding progress_def by blast
  then show "jobs_ok db' \<and> grows job_moved (\<lambda>_. True) (jobs db) (jobs db')"
  proof cases
    case steps
    with ok p show ?thesis
      using list_all2_lengthD [OF steps_moved [OF steps]]
      by (simp add: jobs_ok_def keyed_def steps_keys steps_wf [OF steps] progress_def grows_def steps_moved)
  next
    case new
    have "job_key (new_job now q x kind m c) \<notin> job_key ` set (jobs db)"
      using new(2) by (auto simp: job_of_def find_None_iff is_job_def new_job_def)
    with ok p new(1) show ?thesis by (simp add: jobs_ok_def keyed_snoc progress_def job_rows.grows_snoc)
  qed
qed

lemma job_lawfulI: "(jobs_ok db \<Longrightarrow> progress now w db db') \<Longrightarrow> job_lawful db db'"
  using progress_lawful [of now w db db'] by (auto simp: job_lawful_def)

lemma submitJobTx_lawful: "submitJobTx jh now p x kind m c db = Inr (db', j, fresh) \<Longrightarrow> job_lawful db db'"
  by (rule progress_lawful) (rule submitJobTx_progress)

lemma cancelJobTx_lawful: "cancelJobTx jh now wall p x db = Inr (db', j) \<Longrightarrow> job_lawful db db'"
  by (rule job_lawfulI) (rule cancelJobTx_progress)

lemma exec_job_lawful: "exec_job jh now wall c db = Inr db' \<Longrightarrow> job_lawful db db'"
  by (rule job_lawfulI) (rule exec_job_progress)

lemma exec_job_frame: "exec_job jh now wall c db = Inr db' \<Longrightarrow> job_frame db db'"
proof (cases c)
  case (JSubmit p x kind m u)
  assume "exec_job jh now wall c db = Inr db'"
  then show ?thesis by (auto simp: exec_job_def JSubmit SubmitJob_def rbind_eq_Inr Let_def dest!: submitJobTx_frame)
next
  case (JClaim p w kinds lease limit backend)
  assume "exec_job jh now wall c db = Inr db'"
  then obtain js db1 swept js' where "sweep jh now wall js db = Inr (db1, swept)" "db' = db1\<lparr>jobs := js'\<rparr>"
    by (auto simp: exec_job_def JClaim ClaimJobs_def rbind_eq_Inr Let_def split: if_splits)
  then show ?thesis using job_frame_trans [OF sweep_frame job_frame_jobs] by blast
next
  case (JComplete p x w status result e)
  assume "exec_job jh now wall c db = Inr db'"
  then have "db' = db \<or> (\<exists>j js j'. notifyJobTerminalTx jh now wall j (db\<lparr>jobs := js\<rparr>) = Inr (db', j'))"
    by (auto simp: exec_job_def JComplete CompleteJob_def rbind_eq_Inr Let_def split: if_splits option.splits)
  then show ?thesis using job_frame_trans [OF job_frame_jobs notifyJobTerminalTx_eq(4)] by blast
qed (auto simp: exec_job_def rbind_eq_Inr HeartbeatJob_def NoteWait_def ClearWait_def AttachLostOutcome_def SweepExpiredJobs_def
      Let_def split: if_splits option.splits dest!: sweep_frame cancelJobTx_frame)

section \<open>Sweeping page by page\<close>

text \<open>Callers repeat the sweep while a full page comes back.\<close>

definition overdue :: "timestamp \<Rightarrow> string list \<Rightarrow> job_row \<Rightarrow> bool" where
  "overdue now kinds j \<longleftrightarrow> expired now j \<and> j_kind j \<in> set kinds"

lemma notify_all_length: "notify_all jh now wall js db = Inr (db', out) \<Longrightarrow> length out = length js"
  by (induction js arbitrary: db out) (auto simp: rbind_eq_Inr)

lemma expired_page_set: "set (expired_page now kinds limit db) \<subseteq> {j \<in> set (jobs db). overdue now kinds j}"
  by (auto simp: expired_page_def overdue_def dest!: in_set_takeD)

lemma swept_jobs:
  assumes "SweepExpiredJobs jh now wall kinds limit db = Inr (db', out)"
  shows "length out = length (expired_page now kinds limit db)"
    "jobs db' = upd (\<lambda>r. job_key r \<in> job_key ` set (expired_page now kinds limit db)) (stamp now)
       (upd (\<lambda>r. expired now r \<and> job_key r \<in> job_key ` set (expired_page now kinds limit db)) (lost_row now) (jobs db))"
proof -
  let ?js = "expired_page now kinds limit db"
  have n: "notify_all jh now wall (map (lost_row now) ?js)
      (db\<lparr>jobs := upd (\<lambda>r. expired now r \<and> job_key r \<in> job_key ` set ?js) (lost_row now) (jobs db)\<rparr>) = Inr (db', out)"
    using assms by (auto simp: SweepExpiredJobs_def sweep_def rbind_eq_Inr split: if_splits)
  show "length out = length ?js" using notify_all_length [OF n] by simp
  have k: "job_key ` set (map (lost_row now) ?js) = job_key ` set ?js" by (auto simp: lost_row_def image_iff)
  show "jobs db' = upd (\<lambda>r. job_key r \<in> job_key ` set ?js) (stamp now)
       (upd (\<lambda>r. expired now r \<and> job_key r \<in> job_key ` set ?js) (lost_row now) (jobs db))"
    using notify_all_noted(1) [OF n] by (simp only: k) simp
qed

lemma sweep_shrinks:
  assumes "SweepExpiredJobs jh now wall kinds limit db = Inr r" "\<not> length (snd r) < job_page limit 64"
  shows "length (filter (overdue now kinds) (jobs (fst r))) < length (filter (overdue now kinds) (jobs db))"
proof -
  obtain db' out where r: "r = (db', out)" by (cases r)
  let ?js = "expired_page now kinds limit db"
  let ?K = "\<lambda>r. job_key r \<in> job_key ` set ?js"
  note sj = swept_jobs [OF assms(1) [unfolded r]]
  have still: "overdue now kinds (if ?K x then stamp now (if expired now x then lost_row now x else x) else x)
      = (overdue now kinds x \<and> \<not> ?K x)" for x
    by (auto simp: overdue_def expired_def job_live_def stamp_def lost_row_def)
  have row: "jobs db' = map (\<lambda>x. if ?K x then stamp now (if expired now x then lost_row now x else x) else x) (jobs db)"
    unfolding sj(2) by (auto simp: upd_def lost_row_def)
  have "length (filter (overdue now kinds) (jobs db')) = length (filter (\<lambda>x. overdue now kinds x \<and> \<not> ?K x) (jobs db))"
    unfolding row filter_map comp_def still by simp
  also have "\<dots> < length (filter (overdue now kinds) (jobs db))"
  proof -
    from assms(2) sj(1) r have "?js \<noteq> []" using job_page_pos [of limit] by auto
    then obtain j where "j \<in> set ?js" by (cases ?js) auto
    then have j: "j \<in> set (filter (overdue now kinds) (jobs db))" "?K j" using expired_page_set by fastforce+
    have e: "filter (\<lambda>x. overdue now kinds x \<and> \<not> ?K x) (jobs db) = filter (\<lambda>x. \<not> ?K x) (filter (overdue now kinds) (jobs db))"
      by (simp add: conj_commute)
    show ?thesis unfolding e by (rule length_filter_less [OF j(1)]) (simp add: j(2))
  qed
  finally show ?thesis by (simp add: r)
qed

function sweep_all :: "job_host \<Rightarrow> timestamp \<Rightarrow> timestamp \<Rightarrow> string list \<Rightarrow> int \<Rightarrow> 'd db \<Rightarrow> err + 'd db" where
  "sweep_all jh now wall kinds limit db =
     rbind (SweepExpiredJobs jh now wall kinds limit db) (\<lambda>r.
       if length (snd r) < job_page limit 64 then Inr (fst r) else sweep_all jh now wall kinds limit (fst r))"
  by pat_completeness auto

termination
  by (relation "measure (\<lambda>(jh, now, wall, kinds, limit, db). length (filter (overdue now kinds) (jobs db)))")
     (simp_all add: sweep_shrinks)

declare sweep_all.simps [simp del]

text \<open>One page under the primary key: its rows are lost and announced, no other row changes.\<close>

lemma sweep_page:
  assumes "SweepExpiredJobs jh now wall kinds limit db = Inr (db', out)" "keyed job_key (jobs db)"
  defines "K \<equiv> \<lambda>r. job_key r \<in> job_key ` set (expired_page now kinds limit db)"
  shows "jobs db' = upd K (\<lambda>r. stamp now (lost_row now r)) (jobs db)"
    "\<And>r. r \<in> set (jobs db) \<Longrightarrow> K r \<Longrightarrow> overdue now kinds r" "keyed job_key (jobs db')"
    "length out < job_page limit 64 \<Longrightarrow> r \<in> set (jobs db) \<Longrightarrow> overdue now kinds r \<Longrightarrow> K r"
proof -
  let ?js = "expired_page now kinds limit db"
  show od: "overdue now kinds r" if "r \<in> set (jobs db)" "K r" for r
  proof -
    from that(2) obtain j where j: "j \<in> set ?js" "job_key r = job_key j" unfolding K_def by auto
    then have "j \<in> set (jobs db)" "overdue now kinds j" using expired_page_set [of now kinds limit db] by auto
    with j(2) that(1) show ?thesis using keyed_inj [OF assms(2) that(1), of j] by simp
  qed
  have "jobs db' = upd K (stamp now) (upd (\<lambda>r. expired now r \<and> K r) (lost_row now) (jobs db))"
    using swept_jobs(2) [OF assms(1)] by (simp only: K_def)
  also have "\<dots> = upd K (\<lambda>r. stamp now (lost_row now r)) (jobs db)"
    using od by (auto simp: upd_def K_def lost_row_def overdue_def)
  finally show js: "jobs db' = upd K (\<lambda>r. stamp now (lost_row now r)) (jobs db)" .
  show "keyed job_key (jobs db')" unfolding js using assms(2) by (subst keyed_upd) (simp_all add: row_defs)
  show "K r" if "length out < job_page limit 64" "r \<in> set (jobs db)" "overdue now kinds r"
  proof -
    let ?all = "sort_key (\<lambda>j. case j_claim_expires_at j of None \<Rightarrow> 0 | Some e \<Rightarrow> e)
      (sort_key job_key (filter (\<lambda>j. expired now j \<and> j_kind j \<in> set kinds) (jobs db)))"
    have p: "?js = take (job_page limit 64) ?all" by (simp add: expired_page_def)
    have "length ?js < job_page limit 64" using that(1) swept_jobs(1) [OF assms(1)] by simp
    then have "?js = ?all" using p by simp
    then have "r \<in> set ?js" using that(2,3) by (simp add: overdue_def)
    then show ?thesis by (simp add: K_def)
  qed
qed

section \<open>Properties\<close>

text \<open>
  C30. Repeating the bounded sweep ends, and page by page it does what one unbounded sweep would:
  when the last page comes back short, every expired claim of the kinds has been given its verdict
  and announced, and no other job has changed.
\<close>

theorem sweep_pages_exact:
  assumes "keyed job_key (jobs db)" and "sweep_all jh now wall kinds limit db = Inr db'"
  shows "jobs db' = upd (overdue now kinds) (\<lambda>r. stamp now (lost_row now r)) (jobs db)"
  using assms
proof (induction jh now wall kinds limit db rule: sweep_all.induct)
  case (1 jh now wall kinds limit db)
  let ?f = "\<lambda>r. stamp now (lost_row now r)"
  from 1(3) obtain db1 out where s: "SweepExpiredJobs jh now wall kinds limit db = Inr (db1, out)"
    and r: "if length out < job_page limit 64 then db' = db1 else sweep_all jh now wall kinds limit db1 = Inr db'"
    by (subst (asm) sweep_all.simps) (auto simp: rbind_eq_Inr split: if_splits)
  note pg = sweep_page [OF s 1(2)]
  show ?case
  proof (cases "length out < job_page limit 64")
    case True
    with r pg(1,2,4) show ?thesis by (auto simp: upd_def)
  next
    case False
    with r have "jobs db' = upd (overdue now kinds) ?f (jobs db1)" using 1(1) [OF s _ _ ] pg(3) by simp
    moreover have "\<not> overdue now kinds (?f x)" for x
      by (simp add: overdue_def expired_def job_live_def stamp_def lost_row_def)
    ultimately show ?thesis using pg(2) unfolding pg(1) by (auto simp: upd_def)
  qed
qed

definition demo_expired :: "unit db" where
  "demo_expired = demo_db\<lparr>jobs := [demo_claimed ''b'', demo_claimed ''a'', new_job 0 ''p1'' ''c'' ''subprocess'' [] ''api'']\<rparr>"

theorem sweep_pages_exact_witness:
  "\<exists>d. sweep_all demo_host 100 100 [''subprocess''] 1 demo_expired = Inr d
     \<and> map j_status (jobs d) = [JLost, JLost, JQueued]"
proof -
  have k: "keyed job_key (jobs demo_expired)" by code_simp
  have "\<not> isl (sweep_all demo_host 100 100 [''subprocess''] 1 demo_expired)" by code_simp
  then obtain d where d: "sweep_all demo_host 100 100 [''subprocess''] 1 demo_expired = Inr d"
    by (cases "sweep_all demo_host 100 100 [''subprocess''] 1 demo_expired") auto
  have "map j_status (upd (overdue 100 [''subprocess'']) (\<lambda>r. stamp 100 (lost_row 100 r)) (jobs demo_expired)) = [JLost, JLost, JQueued]"
    by code_simp
  with d sweep_pages_exact [OF k d] show ?thesis by simp
qed

text \<open>The state of a job as its clients see it: status and owner, if it is known.\<close>

definition book :: "'d db \<Rightarrow> string \<Rightarrow> string \<Rightarrow> standing_of option" where
  "book db p x = map_option sig (job_of db p x)"

lemma steps_find:
  "steps now w js js' \<Longrightarrow> (case find (is_job p x) js of
     None \<Rightarrow> find (is_job p x) js' = None
   | Some j \<Rightarrow> \<exists>j'. find (is_job p x) js' = Some j' \<and> (j' = j \<or> job_step now w j j'))"
  unfolding steps_def
proof (induction rule: list_all2_induct)
  case (Cons a js b js')
  then have "is_job p x b = is_job p x a" by (auto simp: is_job_def dest: job_step_key)
  with Cons show ?case by (auto split: option.splits)
qed simp

text \<open>
  C28. The job commands implement the lifecycle: seen through status and owner, a command leaves a
  job as it is, creates it queued and unowned, or takes exactly one step of the lifecycle machine,
  in which only the runner that holds the claim reports an outcome, a claim is never passed on, and
  nothing leaves an end state.
\<close>

theorem jobs_refine_lifecycle:
  assumes "jobs_ok db" and "exec_job jh now wall c db = Inr db'"
  shows "book db' p x = book db p x
    \<or> book db p x = None \<and> book db' p x = Some (JQueued, None)
    \<or> (\<exists>s t. book db p x = Some s \<and> book db' p x = Some t \<and> life (runner_of c) s t)"
proof -
  from exec_job_progress [OF assms(2,1)] consider (steps) "steps now (runner_of c) (jobs db) (jobs db')"
    | (new) q y kind m u where "jobs db' = jobs db @ [new_job now q y kind m u]" "job_of db q y = None"
    unfolding progress_def by blast
  then show ?thesis
  proof cases
    case steps
    show ?thesis
    proof (cases "job_of db p x")
      case None
      with steps_find [OF steps, of p x] show ?thesis by (simp add: book_def job_of_def)
    next
      case (Some j)
      with steps_find [OF steps, of p x] obtain j' where j': "job_of db' p x = Some j'" "j' = j \<or> job_step now (runner_of c) j j'"
        by (auto simp: job_of_def)
      have "job_wf j" using job_of_in [OF Some] assms(1) by (auto simp: jobs_ok_def list_all_iff)
      with j'(2) have "sig j' = sig j \<or> life (runner_of c) (sig j) (sig j')" using job_step_life by blast
      with Some j'(1) show ?thesis by (auto simp: book_def)
    qed
  next
    case new
    have "job_of db' p x = (case job_of db p x of None \<Rightarrow> (if q = p \<and> y = x then Some (new_job now q y kind m u) else None) | Some j \<Rightarrow> Some j)"
      by (auto simp: job_of_def new(1) find_append is_job_def new_job_def split: option.splits)
    then show ?thesis by (auto simp: book_def sig_def new_job_def split: option.splits if_splits)
  qed
qed

theorem jobs_refine_lifecycle_witness:
  "\<exists>d. exec_job demo_host 20 20 (JClaim ''p1'' ''r2'' [''subprocess''] 60 1 ''local'') demo_expired = Inr d
     \<and> life ''r2'' (JQueued, None) (JRunning, Some ''r2'') \<and> book d ''p1'' ''c'' = Some (JRunning, Some ''r2'')"
proof -
  let ?c = "JClaim ''p1'' ''r2'' [''subprocess''] 60 1 ''local''"
  have "keyed job_key (jobs demo_expired)" "list_all job_wf (jobs demo_expired)" by code_simp+
  moreover have "noted_of (inputs demo_expired) = ended_of (jobs demo_expired)"
    by (simp add: demo_expired_def demo_claimed_def demo_defs noted_of_def jobInputPrefix_def claimed_row_def new_job_def jobTerminal_def)
  ultimately have ok: "jobs_ok demo_expired" by (simp add: jobs_ok_def)
  have "case_sum (\<lambda>_. False) (\<lambda>d. book d ''p1'' ''c'' = Some (JRunning, Some ''r2'')) (exec_job demo_host 20 20 ?c demo_expired)"
    "book demo_expired ''p1'' ''c'' = Some (JQueued, None)" by code_simp+
  moreover then obtain d where d: "exec_job demo_host 20 20 ?c demo_expired = Inr d"
    by (cases "exec_job demo_host 20 20 ?c demo_expired") auto
  ultimately show ?thesis using jobs_refine_lifecycle [OF ok d, of "''p1''" "''c''"] by (auto simp: runner_of_def)
qed

end
