(* ===== verification/Terminal_Ledger.thy ===== *)
theory Terminal_Ledger
  imports Core_Terminal
begin

text \<open>
  The life of terminal sessions and of their input ledger. \<open>term_step\<close> lists the changes the
  transactions of \<^verbatim>\<open>terminal.go\<close> make to the three tables; each operation is a sequence of such
  steps. On top of it: the invariant of the tables (\<open>terms_ok\<close>), what a session and an input keep for
  ever (\<open>sess_moved\<close>, \<open>tin_moved\<close>), and the agreement of ended sessions with their notices.
\<close>

section \<open>What a session keeps\<close>

definition sess_cols :: "session_row \<Rightarrow> string \<times> string \<times> string \<times> string \<times> string \<times> string \<times> string \<times> timestamp" where
  "sess_cols t = (tm_session_id t, tm_persona_id t, tm_name t, tm_mode t, tm_backend t, tm_requested_by t, tm_created_by t,
     tm_created_at t)"

text \<open>
  The epoch, the bytes and the base only grow; an ended session keeps every column; a session asked to
  end is never taken for a running one again; a claim changes hands only with a new epoch.
\<close>

definition sess_moved :: "session_row \<Rightarrow> session_row \<Rightarrow> bool" where
  "sess_moved a b \<longleftrightarrow> sess_cols b = sess_cols a \<and> tm_epoch a \<le> tm_epoch b
     \<and> tm_output_bytes a \<le> tm_output_bytes b \<and> tm_output_base a \<le> tm_output_base b
     \<and> (terminalOver (tm_status a) \<longrightarrow> b = a)
     \<and> (tm_status a = TmEnding \<longrightarrow> tm_status b = TmEnding \<or> terminalOver (tm_status b))
     \<and> (tm_status b = TmRequested \<longrightarrow> tm_status a = TmRequested)
     \<and> (tm_epoch b = tm_epoch a \<and> tm_claimed_by b \<noteq> None \<longrightarrow> tm_claimed_by b = tm_claimed_by a)"

lemma sess_moved_refl [simp]: "sess_moved a a"
  by (simp add: sess_moved_def)

lemma sess_moved_trans:
  assumes "sess_moved a b" "sess_moved b c"
  shows "sess_moved a c"
proof -
  note A = assms(1) [unfolded sess_moved_def] and B = assms(2) [unfolded sess_moved_def]
  have e: "tm_epoch a \<le> tm_epoch b" "tm_epoch b \<le> tm_epoch c" using A B by blast+
  have "tm_claimed_by c = tm_claimed_by a" if "tm_epoch c = tm_epoch a" "tm_claimed_by c \<noteq> None"
  proof -
    have "tm_epoch b = tm_epoch a" "tm_epoch c = tm_epoch b" using that(1) e by linarith+
    with that(2) A B show ?thesis by metis
  qed
  moreover have "tm_status c = TmEnding \<or> terminalOver (tm_status c)" if "tm_status a = TmEnding" using that A B by metis
  moreover have "c = a" if "terminalOver (tm_status a)" using that A B by metis
  moreover have "sess_cols c = sess_cols a" using A B by metis
  moreover have "tm_status a = TmRequested" if "tm_status c = TmRequested" using that A B by metis
  moreover have "tm_output_bytes a \<le> tm_output_bytes c" "tm_output_base a \<le> tm_output_base c" "tm_epoch a \<le> tm_epoch c"
    using A B by (meson order.trans)+
  ultimately show ?thesis unfolding sess_moved_def by blast
qed

interpretation sess_rows: row_evolution sess_moved "\<lambda>_. True"
  by unfold_locales (auto intro: sess_moved_trans)

section \<open>What an input keeps\<close>

definition tin_cols :: "tinput_row \<Rightarrow> string \<times> string \<times> nat \<times> string \<times> jobj \<times> string \<times> timestamp" where
  "tin_cols n = (n_input_id n, n_session_id n, n_seq n, n_kind n, n_payload n, n_source n, n_created_at n)"

definition open_input :: "tinput_row \<Rightarrow> bool" where
  "open_input n \<longleftrightarrow> n_status n = NIntended \<or> n_status n = NDequeued"

text \<open>
  An input handed out is never on offer again and stays with the epoch it was handed out under; what
  happened to it, once recorded, is never rewritten, and it never expires.
\<close>

definition tin_moved :: "tinput_row \<Rightarrow> tinput_row \<Rightarrow> bool" where
  "tin_moved a b \<longleftrightarrow> tin_cols b = tin_cols a \<and> n_session_epoch a \<le> n_session_epoch b
     \<and> (n_status a \<noteq> NIntended \<longrightarrow> n_session_epoch b = n_session_epoch a \<and> n_status b \<noteq> NIntended)
     \<and> (n_status a = NDequeued \<longrightarrow> n_status b \<in> {NDequeued, NWritten, NFailed, NUnknown})
     \<and> (\<not> open_input a \<longrightarrow> b = a)"

lemma tin_moved_refl [simp]: "tin_moved a a"
  by (simp add: tin_moved_def)

lemma tin_moved_trans: "tin_moved a b \<Longrightarrow> tin_moved b c \<Longrightarrow> tin_moved a c"
  unfolding tin_moved_def open_input_def by (cases "n_status b") auto

interpretation tin_rows: row_evolution tin_moved "\<lambda>_. True"
  by unfold_locales (auto intro: tin_moved_trans)

section \<open>Well-formed tables\<close>

text \<open>The columns a status fixes.\<close>

definition sess_wf :: "session_row \<Rightarrow> bool" where
  "sess_wf t \<longleftrightarrow> (tm_claimed_by t = None \<longleftrightarrow> tm_claim_expires_at t = None)
     \<and> (case tm_status t of
          TmRequested \<Rightarrow> tm_epoch t = 0 \<and> tm_claimed_by t = None
        | TmClaimed \<Rightarrow> 0 < tm_epoch t \<and> tm_claimed_by t \<noteq> None
        | TmActive \<Rightarrow> 0 < tm_epoch t \<and> tm_claimed_by t \<noteq> None
        | TmEnding \<Rightarrow> 0 < tm_epoch t
        | TmInterrupted \<Rightarrow> 0 < tm_epoch t \<and> tm_claimed_by t = None
        | _ \<Rightarrow> 0 \<le> tm_epoch t \<and> tm_claimed_by t = None)
     \<and> (terminalOver (tm_status t) \<longleftrightarrow> tm_ended_at t \<noteq> None) \<and> (terminalOver (tm_status t) \<longrightarrow> tm_end_reason t \<noteq> None)"

text \<open>
  An input on offer or handed out belongs to a session that has not ended, under the session's present
  epoch: the runner that holds the claim is the one that sees it.
\<close>

definition input_placed :: "session_row list \<Rightarrow> tinput_row \<Rightarrow> bool" where
  "input_placed ss n \<longleftrightarrow> (\<exists>t \<in> set ss. tm_session_id t = n_session_id n
     \<and> (open_input n \<longrightarrow> n_session_epoch n = tm_epoch t \<and> \<not> terminalOver (tm_status t)))"

definition live_count :: "string \<Rightarrow> session_row list \<Rightarrow> nat" where
  "live_count p ss = length (filter (\<lambda>r. tm_persona_id r = p \<and> terminalLive (tm_status r)) ss)"

text \<open>Output rows are numbered per session, and a session retains no more than the cap.\<close>

abbreviation out_key :: "output_row \<Rightarrow> string \<times> nat" where
  "out_key k \<equiv> (k_session_id k, k_seq k)"

definition out_ok :: "output_row list \<Rightarrow> bool" where
  "out_ok ks \<longleftrightarrow> keyed out_key ks \<and> (\<forall>x. retained x ks \<le> terminalScrollbackCap)"

definition ts_ok :: "term_state \<Rightarrow> bool" where
  "ts_ok ts \<longleftrightarrow> keyed tm_session_id (sessions ts) \<and> (\<forall>t \<in> set (sessions ts). sess_wf t)
     \<and> keyed n_input_id (tinputs ts) \<and> keyed (\<lambda>n. (n_session_id n, n_seq n)) (tinputs ts)
     \<and> (\<forall>n \<in> set (tinputs ts). input_placed (sessions ts) n)
     \<and> (\<forall>p. live_count p (sessions ts) \<le> terminalMaxSessions)
     \<and> out_ok (toutput ts)"

section \<open>Steps\<close>

text \<open>A change of a running session that neither claims nor ends it.\<close>

definition sess_touch :: "session_row \<Rightarrow> session_row \<Rightarrow> bool" where
  "sess_touch a b \<longleftrightarrow> sess_moved a b \<and> tm_epoch b = tm_epoch a \<and> terminalLive (tm_status a) \<and> terminalLive (tm_status b)
     \<and> (sess_wf a \<longrightarrow> sess_wf b)"

definition fenced_inputs :: "timestamp \<Rightarrow> string \<Rightarrow> int \<Rightarrow> tinput_row list \<Rightarrow> tinput_row list" where
  "fenced_inputs now x e ns =
     upd (\<lambda>n. of_session x n \<and> n_session_epoch n < e \<and> n_status n = NIntended) (\<lambda>n. n\<lparr>n_session_epoch := e, n_updated_at := now\<rparr>)
       (upd (\<lambda>n. of_session x n \<and> n_session_epoch n < e \<and> n_status n = NDequeued) (\<lambda>n. n\<lparr>n_status := NUnknown, n_updated_at := now\<rparr>) ns)"

definition settled_inputs :: "timestamp \<Rightarrow> string \<Rightarrow> tinput_row list \<Rightarrow> tinput_row list" where
  "settled_inputs now x ns =
     upd (\<lambda>n. of_session x n \<and> n_status n = NDequeued) (\<lambda>n. n\<lparr>n_status := NUnknown, n_updated_at := now\<rparr>)
       (upd (\<lambda>n. of_session x n \<and> n_status n = NIntended) (\<lambda>n. n\<lparr>n_status := NExpired, n_updated_at := now\<rparr>) ns)"

inductive term_step :: "term_state \<Rightarrow> term_state \<Rightarrow> bool" where
  create: "x \<notin> tm_session_id ` set (sessions ts) \<Longrightarrow> live_count p (sessions ts) < terminalMaxSessions
    \<Longrightarrow> term_step ts (ts\<lparr>sessions := sessions ts @ [new_session now x p name backend rb cb]\<rparr>)"
| touch: "(\<And>r. r \<in> set (sessions ts) \<Longrightarrow> P r \<Longrightarrow> sess_touch r (f r)) \<Longrightarrow> term_step ts (ts\<lparr>sessions := upd P f (sessions ts)\<rparr>)"
| claim: "t \<in> set (sessions ts) \<Longrightarrow> is_session p x t \<Longrightarrow> claimable w t \<Longrightarrow> e = tm_epoch t + 1
    \<Longrightarrow> term_step ts (ts\<lparr>sessions := upd (\<lambda>r. is_session p x r \<and> claimable w r) (claim_session now w lease e) (sessions ts),
          tinputs := fenced_inputs now x e (tinputs ts)\<rparr>)"
| finish: "t \<in> set (sessions ts) \<Longrightarrow> is_session p x t \<Longrightarrow> \<not> terminalOver (tm_status t) \<Longrightarrow> terminalOver s
    \<Longrightarrow> term_step ts (ts\<lparr>sessions := upd (is_session p x) (\<lambda>r. (ended_session wall s reason code signal r)\<lparr>tm_updated_at := wall\<rparr>) (sessions ts),
          tinputs := settled_inputs now x (tinputs ts)\<rparr>)"
| accept: "t \<in> set (sessions ts) \<Longrightarrow> \<not> terminalOver (tm_status t) \<Longrightarrow> nid \<notin> n_input_id ` set (tinputs ts)
    \<Longrightarrow> term_step ts (ts\<lparr>tinputs := tinputs ts @ [new_tinput now nid t source kind m (tinputs ts)]\<rparr>)"
| dispose: "(\<And>n. n \<in> set (tinputs ts) \<Longrightarrow> P n \<Longrightarrow> open_input n) \<Longrightarrow> s \<in> {NDequeued, NWritten, NFailed, NUnknown}
    \<Longrightarrow> term_step ts (ts\<lparr>tinputs := upd P (\<lambda>n. n\<lparr>n_status := s, n_detail := d n, n_updated_at := now\<rparr>) (tinputs ts)\<rparr>)"
| drain: "out_ok ks \<Longrightarrow> term_step ts (ts\<lparr>toutput := ks\<rparr>)"

lemmas status_defs = terminalOver_def terminalClaimed_def terminalLive_def

lemma claimable_live: "claimable w t \<Longrightarrow> terminalLive (tm_status t)"
  by (auto simp: claimable_def status_defs)

lemma over_not_live: "terminalOver s \<longleftrightarrow> \<not> terminalLive s"
  by (cases s) (simp_all add: status_defs)

lemma sess_touchI:
  assumes "sess_cols b = sess_cols a" "tm_epoch b = tm_epoch a" "tm_output_bytes a \<le> tm_output_bytes b" "tm_output_base a \<le> tm_output_base b"
    "terminalLive (tm_status a)" "terminalLive (tm_status b)" "tm_status a = TmEnding \<Longrightarrow> tm_status b = TmEnding"
    "tm_status b = TmRequested \<Longrightarrow> tm_status a = TmRequested" "tm_claimed_by b \<noteq> None \<Longrightarrow> tm_claimed_by b = tm_claimed_by a"
    "sess_wf a \<Longrightarrow> sess_wf b"
  shows "sess_touch a b"
  using assms by (auto simp: sess_touch_def sess_moved_def over_not_live)

lemma sess_touch_same:
  assumes "sess_cols b = sess_cols a" "tm_status b = tm_status a" "tm_epoch b = tm_epoch a" "tm_claimed_by b = tm_claimed_by a"
    "tm_claim_expires_at b = None \<longleftrightarrow> tm_claim_expires_at a = None" "tm_ended_at b = tm_ended_at a" "tm_end_reason b = tm_end_reason a"
    "tm_output_bytes a \<le> tm_output_bytes b" "tm_output_base a \<le> tm_output_base b" "terminalLive (tm_status a)"
  shows "sess_touch a b"
proof -
  have "sess_wf b = sess_wf a" unfolding sess_wf_def assms(2-7) ..
  with assms show ?thesis by (intro sess_touchI) simp_all
qed

lemma claim_session_moved:
  assumes "claimable w t" "e = tm_epoch t + 1" "sess_wf t"
  shows "sess_moved t (claim_session now w lease e t)" "sess_wf (claim_session now w lease e t)"
    "terminalLive (tm_status (claim_session now w lease e t))"
  using assms claimable_live [OF assms(1)]
  by (auto simp: claim_session_def sess_moved_def sess_cols_def sess_wf_def over_not_live terminalLive_def split: term_status.splits)

lemma ended_session_moved:
  assumes "\<not> terminalOver (tm_status t)" "terminalOver s" "sess_wf t"
  shows "sess_moved t ((ended_session wall s reason code signal t)\<lparr>tm_updated_at := wall\<rparr>)"
    "sess_wf ((ended_session wall s reason code signal t)\<lparr>tm_updated_at := wall\<rparr>)"
  using assms by (auto simp: ended_session_def sess_moved_def sess_cols_def sess_wf_def terminalOver_def split: term_status.splits)

lemma fenced_moved: "grows tin_moved (\<lambda>_. True) ns (fenced_inputs now x e ns)"
  unfolding fenced_inputs_def
  by (rule tin_rows.grows_trans [OF tin_rows.grows_upd tin_rows.grows_upd])
     (auto simp: tin_moved_def tin_cols_def open_input_def)

lemma settled_moved: "grows tin_moved (\<lambda>_. True) ns (settled_inputs now x ns)"
  unfolding settled_inputs_def
  by (rule tin_rows.grows_trans [OF tin_rows.grows_upd tin_rows.grows_upd])
     (auto simp: tin_moved_def tin_cols_def open_input_def)

lemma step_moved:
  assumes "term_step ts ts'" "ts_ok ts"
  shows "grows sess_moved (\<lambda>_. True) (sessions ts) (sessions ts') \<and> grows tin_moved (\<lambda>_. True) (tinputs ts) (tinputs ts')"
  using assms
proof (induction rule: term_step.induct)
  case (create x ts p now name backend rb cb)
  show ?case by (simp add: sess_rows.grows_snoc tin_rows.grows_refl)
next
  case (touch ts P f)
  then show ?case by (simp add: tin_rows.grows_refl) (rule sess_rows.grows_upd, simp add: sess_touch_def)
next
  case (claim t ts p x w e now lease)
  have "sess_moved r (claim_session now w lease e r)" if r: "r \<in> set (sessions ts)" "is_session p x r \<and> claimable w r" for r
  proof -
    have "r = t" using keyed_inj [of tm_session_id "sessions ts" r t] r claim by (simp add: ts_ok_def is_session_def)
    with claim show ?thesis by (intro claim_session_moved) (auto simp: ts_ok_def)
  qed
  then show ?case by (simp add: fenced_moved sess_rows.grows_upd)
next
  case (finish t ts p x s now wall reason code signal)
  have "sess_moved r ((ended_session wall s reason code signal r)\<lparr>tm_updated_at := wall\<rparr>)" if r: "r \<in> set (sessions ts)" "is_session p x r" for r
  proof -
    have "r = t" using keyed_inj [of tm_session_id "sessions ts" r t] r finish by (simp add: ts_ok_def is_session_def)
    with finish show ?thesis by (intro ended_session_moved) (auto simp: ts_ok_def)
  qed
  then show ?case by (simp add: settled_moved sess_rows.grows_upd)
next
  case (accept t ts nid now source kind m)
  show ?case by (simp add: sess_rows.grows_refl tin_rows.grows_snoc)
next
  case (dispose ts P s now d)
  have "tin_moved n (n\<lparr>n_status := s, n_detail := d n, n_updated_at := now\<rparr>)" if "n \<in> set (tinputs ts)" "P n" for n
    using dispose(1) [OF that] dispose(2) by (auto simp: tin_moved_def tin_cols_def open_input_def)
  then show ?case by (simp add: sess_rows.grows_refl tin_rows.grows_upd)
next
  case (drain ks ts)
  then show ?case by (simp add: sess_rows.grows_refl tin_rows.grows_refl)
qed

section \<open>The invariant\<close>

lemma live_count_upd:
  "(\<And>r. r \<in> set ss \<Longrightarrow> P r \<Longrightarrow> tm_persona_id (f r) = tm_persona_id r \<and> (terminalLive (tm_status (f r)) \<longrightarrow> terminalLive (tm_status r)))
   \<Longrightarrow> live_count p (upd P f ss) \<le> live_count p ss"
proof (induction ss)
  case (Cons r ss)
  then have "live_count p (upd P f ss) \<le> live_count p ss" by simp
  with Cons.prems [of r] show ?case by (auto simp: live_count_def)
qed (simp add: live_count_def)

lemma moved_id: "sess_moved a b \<Longrightarrow> tm_session_id b = tm_session_id a \<and> tm_persona_id b = tm_persona_id a"
  by (simp add: sess_moved_def sess_cols_def)

lemma keyed_moved:
  assumes "\<And>r. r \<in> set ss \<Longrightarrow> P r \<Longrightarrow> sess_moved r (f r)" "keyed tm_session_id ss"
  shows "keyed tm_session_id (upd P f ss)"
proof -
  have "map tm_session_id (upd P f ss) = map tm_session_id ss"
    using assms(1) moved_id by (auto simp: upd_def)
  with assms(2) show ?thesis by (simp add: keyed_def)
qed

lemma placed_upd:
  assumes "\<And>r. r \<in> set ss \<Longrightarrow> P r \<Longrightarrow> sess_moved r (f r) \<and> tm_epoch (f r) = tm_epoch r \<and> terminalLive (tm_status (f r))"
    and "input_placed ss n"
  shows "input_placed (upd P f ss) n"
proof -
  from assms(2) obtain t where t: "t \<in> set ss" "tm_session_id t = n_session_id n"
    "open_input n \<longrightarrow> n_session_epoch n = tm_epoch t \<and> \<not> terminalOver (tm_status t)" by (auto simp: input_placed_def)
  let ?t = "if P t then f t else t"
  have "?t \<in> set (upd P f ss)" using t(1) by (auto simp: set_upd)
  moreover have "tm_session_id ?t = n_session_id n \<and> (open_input n \<longrightarrow> n_session_epoch n = tm_epoch ?t \<and> \<not> terminalOver (tm_status ?t))"
    using assms(1) [OF t(1)] t(2,3) moved_id by (auto simp: over_not_live)
  ultimately show ?thesis unfolding input_placed_def by blast
qed

text \<open>An input of another session is where it was; an input no longer open only needs its session.\<close>

lemma placed_other:
  assumes "\<And>r. r \<in> set ss \<Longrightarrow> P r \<Longrightarrow> sess_moved r (f r) \<and> tm_session_id r = x" "input_placed ss n"
    "n_session_id n \<noteq> x \<or> \<not> open_input m" "n_session_id m = n_session_id n" "n_session_id n \<noteq> x \<Longrightarrow> m = n"
  shows "input_placed (upd P f ss) m"
proof -
  from assms(2) obtain t where t: "t \<in> set ss" "tm_session_id t = n_session_id n"
    "open_input n \<longrightarrow> n_session_epoch n = tm_epoch t \<and> \<not> terminalOver (tm_status t)" by (auto simp: input_placed_def)
  let ?t = "if P t then f t else t"
  have "?t \<in> set (upd P f ss)" using t(1) by (auto simp: set_upd)
  moreover have "tm_session_id ?t = n_session_id m" using assms(1) [OF t(1)] assms(4) t(2) moved_id by auto
  moreover have "open_input m \<longrightarrow> n_session_epoch m = tm_epoch ?t \<and> \<not> terminalOver (tm_status ?t)"
    using assms(1) [OF t(1)] assms(3,5) t(2,3) by auto
  ultimately show ?thesis unfolding input_placed_def by blast
qed

lemma keyed_upd_tin:
  "(\<And>n. tin_cols (f n) = tin_cols n) \<Longrightarrow> keyed n_input_id (upd P f ns) = keyed n_input_id ns"
  "(\<And>n. tin_cols (f n) = tin_cols n) \<Longrightarrow> keyed (\<lambda>n. (n_session_id n, n_seq n)) (upd P f ns) = keyed (\<lambda>n. (n_session_id n, n_seq n)) ns"
  by (rule keyed_upd, simp add: tin_cols_def)+

lemma ledger_keys:
  "keyed n_input_id (fenced_inputs now x e ns) = keyed n_input_id ns"
  "keyed (\<lambda>n. (n_session_id n, n_seq n)) (fenced_inputs now x e ns) = keyed (\<lambda>n. (n_session_id n, n_seq n)) ns"
  "keyed n_input_id (settled_inputs now x ns) = keyed n_input_id ns"
  "keyed (\<lambda>n. (n_session_id n, n_seq n)) (settled_inputs now x ns) = keyed (\<lambda>n. (n_session_id n, n_seq n)) ns"
  by (simp_all add: fenced_inputs_def settled_inputs_def keyed_upd_tin tin_cols_def)

lemma in_fenced:
  assumes "m \<in> set (fenced_inputs now x e ns)" "\<And>n. n \<in> set ns \<Longrightarrow> open_input n \<Longrightarrow> n_session_id n = x \<Longrightarrow> n_session_epoch n < e"
  obtains n where "n \<in> set ns" "n_session_id m = n_session_id n" "n_session_id n \<noteq> x \<longrightarrow> m = n"
    "n_session_id n = x \<and> open_input m \<longrightarrow> open_input n \<and> n_session_epoch m = e"
proof -
  from assms(1) obtain n where n: "n \<in> set ns" and m: "m = (let n1 = (if of_session x n \<and> n_session_epoch n < e \<and> n_status n = NDequeued
      then n\<lparr>n_status := NUnknown, n_updated_at := now\<rparr> else n) in
    if of_session x n1 \<and> n_session_epoch n1 < e \<and> n_status n1 = NIntended then n1\<lparr>n_session_epoch := e, n_updated_at := now\<rparr> else n1)"
    by (auto simp: fenced_inputs_def set_upd Let_def)
  show thesis
  proof (cases "n_session_id n = x \<and> open_input n")
    case True
    with assms(2) [OF n] have "n_session_epoch n < e" by simp
    with True m show thesis
      by (intro that [OF n]) (cases "n_status n"; simp add: Let_def of_session_def open_input_def)+
  next
    case False
    then have "m = n" using m by (auto simp: Let_def of_session_def open_input_def)
    with False n show thesis by (intro that [OF n]) auto
  qed
qed

lemma in_settled:
  assumes "m \<in> set (settled_inputs now x ns)"
  obtains n where "n \<in> set ns" "n_session_id m = n_session_id n" "n_session_id n \<noteq> x \<longrightarrow> m = n" "n_session_id n = x \<longrightarrow> \<not> open_input m"
proof -
  from assms obtain n where n: "n \<in> set ns" and m: "m = (let n1 = (if of_session x n \<and> n_status n = NIntended
      then n\<lparr>n_status := NExpired, n_updated_at := now\<rparr> else n) in
    if of_session x n1 \<and> n_status n1 = NDequeued then n1\<lparr>n_status := NUnknown, n_updated_at := now\<rparr> else n1)"
    by (auto simp: settled_inputs_def set_upd Let_def)
  show thesis by (rule that [OF n]) (auto simp: m Let_def of_session_def open_input_def)
qed

lemma sessions_upd_ok:
  assumes "ts_ok ts" "\<And>r. r \<in> set (sessions ts) \<Longrightarrow> P r \<Longrightarrow> sess_moved r (f r) \<and> sess_wf (f r) \<and> terminalLive (tm_status r)"
  shows "keyed tm_session_id (upd P f (sessions ts))" "\<forall>t \<in> set (upd P f (sessions ts)). sess_wf t"
    "live_count p (upd P f (sessions ts)) \<le> terminalMaxSessions"
proof -
  show "keyed tm_session_id (upd P f (sessions ts))" by (rule keyed_moved) (use assms in \<open>auto simp: ts_ok_def\<close>)
  show "\<forall>t \<in> set (upd P f (sessions ts)). sess_wf t" using assms by (auto simp: set_upd ts_ok_def)
  have "live_count p (upd P f (sessions ts)) \<le> live_count p (sessions ts)"
    by (rule live_count_upd) (use assms(2) moved_id in blast)
  with assms(1) show "live_count p (upd P f (sessions ts)) \<le> terminalMaxSessions" by (auto simp: ts_ok_def intro: order.trans)
qed

lemma create_ok:
  assumes "ts_ok ts" "x \<notin> tm_session_id ` set (sessions ts)" "live_count p (sessions ts) < terminalMaxSessions"
  shows "ts_ok (ts\<lparr>sessions := sessions ts @ [new_session now x p name backend rb cb]\<rparr>)"
proof -
  let ?r = "new_session now x p name backend rb cb"
  have "input_placed (sessions ts @ [?r]) n" if "n \<in> set (tinputs ts)" for n
    using assms(1) that by (auto simp: ts_ok_def input_placed_def)
  moreover have "sess_wf ?r" by (simp add: sess_wf_def new_session_def terminalOver_def)
  moreover have "live_count q (sessions ts @ [?r]) \<le> terminalMaxSessions" for q
    using assms(1,3) by (auto simp: ts_ok_def live_count_def new_session_def)
  ultimately show ?thesis using assms(1,2) by (auto simp: ts_ok_def keyed_snoc) (simp add: new_session_def)
qed

lemma claim_ok:
  assumes ok: "ts_ok ts" and t: "t \<in> set (sessions ts)" "is_session p x t" "claimable w t" and e: "e = tm_epoch t + 1"
  shows "ts_ok (ts\<lparr>sessions := upd (\<lambda>r. is_session p x r \<and> claimable w r) (claim_session now w lease e) (sessions ts),
      tinputs := fenced_inputs now x e (tinputs ts)\<rparr>)"
proof -
  let ?P = "\<lambda>r. is_session p x r \<and> claimable w r" and ?f = "claim_session now w lease e"
  let ?ss = "upd ?P ?f (sessions ts)"
  have only: "r = t" if "r \<in> set (sessions ts)" "tm_session_id r = x" for r
    using keyed_inj [of tm_session_id "sessions ts" r t] that t ok by (simp add: ts_ok_def is_session_def)
  have row: "sess_moved r (?f r) \<and> sess_wf (?f r) \<and> terminalLive (tm_status r) \<and> tm_session_id r = x" if "r \<in> set (sessions ts)" "?P r" for r
  proof -
    have "r = t" using only that by (simp add: is_session_def)
    moreover have "sess_wf t" using ok t(1) by (simp add: ts_ok_def)
    ultimately show ?thesis using claim_session_moved [of w t e] t e by (auto simp: is_session_def dest: claimable_live)
  qed
  have old: "n_session_epoch n < e" if "n \<in> set (tinputs ts)" "open_input n" "n_session_id n = x" for n
    using that ok only e by (auto simp: ts_ok_def input_placed_def)
  have "?f t \<in> set ?ss" using t by (auto simp: set_upd)
  moreover have "tm_session_id (?f t) = x" "tm_epoch (?f t) = e" "\<not> terminalOver (tm_status (?f t))"
    using t by (auto simp: claim_session_def is_session_def terminalOver_def)
  ultimately have here: "input_placed ?ss m" if "n_session_id m = x" "open_input m \<longrightarrow> n_session_epoch m = e" for m
    using that unfolding input_placed_def by metis
  have "input_placed ?ss m" if "m \<in> set (fenced_inputs now x e (tinputs ts))" for m
  proof -
    from in_fenced [OF that old] obtain n where n: "n \<in> set (tinputs ts)" "n_session_id m = n_session_id n" "n_session_id n \<noteq> x \<longrightarrow> m = n"
      "n_session_id n = x \<and> open_input m \<longrightarrow> open_input n \<and> n_session_epoch m = e" by blast
    show ?thesis
    proof (cases "n_session_id n = x")
      case True
      with n show ?thesis by (intro here) auto
    next
      case False
      with n ok row show ?thesis by (intro placed_other [of "sessions ts" ?P ?f x n m]) (auto simp: ts_ok_def)
    qed
  qed
  then show ?thesis
    using sessions_upd_ok [OF ok, of ?P ?f] row ok by (simp add: ts_ok_def ledger_keys)
qed

lemma finish_ok:
  assumes ok: "ts_ok ts" and t: "t \<in> set (sessions ts)" "is_session p x t" "\<not> terminalOver (tm_status t)" and s: "terminalOver s"
  shows "ts_ok (ts\<lparr>sessions := upd (is_session p x) (\<lambda>r. (ended_session wall s reason code signal r)\<lparr>tm_updated_at := wall\<rparr>) (sessions ts),
      tinputs := settled_inputs now x (tinputs ts)\<rparr>)"
proof -
  let ?f = "\<lambda>r. (ended_session wall s reason code signal r)\<lparr>tm_updated_at := wall\<rparr>"
  have row: "sess_moved r (?f r) \<and> sess_wf (?f r) \<and> terminalLive (tm_status r) \<and> tm_session_id r = x" if "r \<in> set (sessions ts)" "is_session p x r" for r
  proof -
    have "r = t" using keyed_inj [of tm_session_id "sessions ts" r t] that t ok by (simp add: ts_ok_def is_session_def)
    moreover have "sess_wf t" using ok t(1) by (simp add: ts_ok_def)
    ultimately show ?thesis using ended_session_moved [of t s] t s by (auto simp: is_session_def over_not_live)
  qed
  have "input_placed (upd (is_session p x) ?f (sessions ts)) m" if "m \<in> set (settled_inputs now x (tinputs ts))" for m
  proof -
    from in_settled [OF that] obtain n where n: "n \<in> set (tinputs ts)" "n_session_id m = n_session_id n" "n_session_id n \<noteq> x \<longrightarrow> m = n"
      "n_session_id n = x \<longrightarrow> \<not> open_input m" by blast
    with ok row show ?thesis by (intro placed_other [of "sessions ts" "is_session p x" ?f x n m]) (auto simp: ts_ok_def)
  qed
  then show ?thesis
    using sessions_upd_ok [OF ok, of "is_session p x" ?f] row ok by (simp add: ts_ok_def ledger_keys)
qed

lemma accept_ok:
  assumes ok: "ts_ok ts" and t: "t \<in> set (sessions ts)" "\<not> terminalOver (tm_status t)" and n: "nid \<notin> n_input_id ` set (tinputs ts)"
  shows "ts_ok (ts\<lparr>tinputs := tinputs ts @ [new_tinput now nid t source kind m (tinputs ts)]\<rparr>)"
proof -
  let ?n = "new_tinput now nid t source kind m (tinputs ts)"
  have "input_placed (sessions ts) ?n" using t by (auto simp: input_placed_def new_tinput_def)
  moreover have "(n_session_id q, n_seq q) \<noteq> (n_session_id ?n, n_seq ?n)" if "q \<in> set (tinputs ts)" for q
  proof (cases "n_session_id q = tm_session_id t")
    case True
    with that have "n_seq q \<in> set (map n_seq (filter (of_session (tm_session_id t)) (tinputs ts)))" by (simp add: of_session_def)
    from maxl_ge [OF this] show ?thesis by (simp add: new_tinput_def)
  qed (simp add: new_tinput_def)
  then have "(n_session_id ?n, n_seq ?n) \<notin> (\<lambda>n. (n_session_id n, n_seq n)) ` set (tinputs ts)" by force
  moreover have "n_input_id ?n \<notin> n_input_id ` set (tinputs ts)" using n by (simp add: new_tinput_def)
  ultimately show ?thesis using ok by (simp add: ts_ok_def keyed_snoc)
qed

lemma tin_dispose_ok:
  assumes ok: "ts_ok ts" and P: "\<And>n. n \<in> set (tinputs ts) \<Longrightarrow> P n \<Longrightarrow> open_input n" and s: "s \<in> {NDequeued, NWritten, NFailed, NUnknown}"
  shows "ts_ok (ts\<lparr>tinputs := upd P (\<lambda>n. n\<lparr>n_status := s, n_detail := d n, n_updated_at := now\<rparr>) (tinputs ts)\<rparr>)"
proof -
  let ?f = "\<lambda>n. n\<lparr>n_status := s, n_detail := d n, n_updated_at := now\<rparr>"
  have "input_placed (sessions ts) (?f n)" if "n \<in> set (tinputs ts)" "P n" for n
  proof -
    from ok that have "input_placed (sessions ts) n" by (simp add: ts_ok_def)
    with P [OF that] show ?thesis by (simp add: input_placed_def) blast
  qed
  then show ?thesis using ok by (auto simp: ts_ok_def set_upd keyed_upd_tin tin_cols_def)
qed

lemma touch_ok:
  assumes ok: "ts_ok ts" and P: "\<And>r. r \<in> set (sessions ts) \<Longrightarrow> P r \<Longrightarrow> sess_touch r (f r)"
  shows "ts_ok (ts\<lparr>sessions := upd P f (sessions ts)\<rparr>)"
proof -
  have "sess_moved r (f r) \<and> sess_wf (f r) \<and> terminalLive (tm_status r)" if "r \<in> set (sessions ts)" "P r" for r
    using P [OF that] ok that(1) by (simp add: sess_touch_def ts_ok_def)
  moreover have "input_placed (upd P f (sessions ts)) n" if "n \<in> set (tinputs ts)" for n
    by (rule placed_upd) (use P ok that in \<open>auto simp: sess_touch_def ts_ok_def\<close>)
  ultimately show ?thesis using sessions_upd_ok [OF ok, of P f] ok by (simp add: ts_ok_def)
qed

lemma step_ok: "term_step ts ts' \<Longrightarrow> ts_ok ts \<Longrightarrow> ts_ok ts'"
  by (induction rule: term_step.induct)
     (blast intro: create_ok touch_ok claim_ok finish_ok accept_ok tin_dispose_ok | simp add: ts_ok_def)+

interpretation term_inv: guarded_evolution term_step ts_ok
  by unfold_locales (rule step_ok)

lemma term_steps_moved:
  assumes "rtranclp term_step ts ts'" "ts_ok ts"
  shows "grows sess_moved (\<lambda>_. True) (sessions ts) (sessions ts') \<and> grows tin_moved (\<lambda>_. True) (tinputs ts) (tinputs ts')"
  using assms
proof (induction rule: rtranclp_induct)
  case base
  then show ?case by (simp add: sess_rows.grows_refl tin_rows.grows_refl)
next
  case (step u v)
  have "ts_ok u" by (rule term_inv.reach_I [OF step.hyps(1) step.prems])
  from step_moved [OF step.hyps(2) this] step.IH [OF step.prems] show ?case
    by (blast intro: sess_rows.grows_trans tin_rows.grows_trans)
qed

section \<open>Every operation is a sequence of steps\<close>

text \<open>Every ended session has its notice.\<close>

definition announced :: "'d db \<Rightarrow> bool" where
  "announced db \<longleftrightarrow> (\<forall>t \<in> set (sessions (terminals db)). terminalOver (tm_status t)
     \<longrightarrow> input_of db (tm_persona_id t) (terminalInputPrefix @ tm_session_id t) \<noteq> None)"

definition terms_ok :: "'d db \<Rightarrow> bool" where
  "terms_ok db \<longleftrightarrow> ts_ok (terminals db) \<and> announced db"

lemma no_terminals_ok: "terminals db = \<lparr>sessions = [], tinputs = [], toutput = []\<rparr> \<Longrightarrow> terms_ok db"
  by (simp add: terms_ok_def ts_ok_def announced_def out_ok_def live_count_def retained_def data_of_def terminalScrollbackCap_def)

text \<open>The notice of an ended session, and inputs added that are such notices.\<close>

definition notice_face :: "term_host \<Rightarrow> session_row \<Rightarrow> string \<times> string \<times> string \<times> string \<times> string \<times> string \<times> jobj" where
  "notice_face th t = (tm_persona_id t, terminalInputPrefix @ tm_session_id t, ''terminal_ended'', ''terminal'', tm_session_id t,
     ''reply'', terminal_payload th t)"

definition told :: "'d db \<Rightarrow> string \<times> string \<times> string \<times> string \<times> string \<times> string \<times> jobj \<Rightarrow> bool" where
  "told db f \<longleftrightarrow> (\<exists>th. \<exists>t \<in> set (sessions (terminals db)). terminalOver (tm_status t) \<and> f = notice_face th t)"

definition news_told :: "'d db \<Rightarrow> 'd db \<Rightarrow> bool" where
  "news_told db db' \<longleftrightarrow> (\<exists>news. inputs db' = inputs db @ news \<and> (\<forall>r \<in> set news. told db' (input_face r)))"

lemma told_later: "grows sess_moved N (sessions (terminals a)) (sessions (terminals b)) \<Longrightarrow> told a f \<Longrightarrow> told b f"
  unfolding told_def by (metis grows_old sess_moved_def)

lemma news_told_same [simp]: "inputs db' = inputs db \<Longrightarrow> news_told db db'"
  by (simp add: news_told_def)

definition term_progress :: "'d db \<Rightarrow> 'd db \<Rightarrow> bool" where
  "term_progress db db' \<longleftrightarrow> (terms_ok db \<longrightarrow> rtranclp term_step (terminals db) (terminals db') \<and> announced db' \<and> news_told db db')"

lemma progress_ok: "term_progress db db' \<Longrightarrow> terms_ok db \<Longrightarrow> terms_ok db'"
  using term_inv.reach_I by (auto simp: term_progress_def terms_ok_def)

lemma term_progress_refl [simp]: "term_progress db db"
  by (simp add: term_progress_def terms_ok_def news_told_same)

lemma term_progress_trans:
  assumes "term_progress a b" "term_progress b c"
  shows "term_progress a c"
  unfolding term_progress_def
proof (intro impI conjI)
  assume a: "terms_ok a"
  then have b: "terms_ok b" by (rule progress_ok [OF assms(1)])
  from assms a b have st: "rtranclp term_step (terminals a) (terminals b)" "rtranclp term_step (terminals b) (terminals c)"
    and n: "announced c" "news_told a b" "news_told b c" by (simp_all add: term_progress_def)
  from st show "rtranclp term_step (terminals a) (terminals c)" by (rule rtranclp_trans)
  show "announced c" by (rule n)
  have "grows sess_moved (\<lambda>_. True) (sessions (terminals b)) (sessions (terminals c))"
    using term_steps_moved [OF st(2)] b by (simp add: terms_ok_def)
  from told_later [OF this] n(2,3) show "news_told a c" unfolding news_told_def by fastforce
qed

lemma announced_kept:
  assumes "announced db" "inputs db' = inputs db"
    "\<And>t. t \<in> set (sessions (terminals db')) \<Longrightarrow> terminalOver (tm_status t) \<Longrightarrow> t \<in> set (sessions (terminals db))"
  shows "announced db'"
  using assms by (simp add: announced_def input_of_def)

lemma touch_progress:
  assumes "terms_ok db \<Longrightarrow> (\<And>r. r \<in> set (sessions (terminals db)) \<Longrightarrow> P r \<Longrightarrow> sess_touch r (f r))"
  shows "term_progress db (set_sessions P f db)"
  unfolding term_progress_def
proof (intro impI conjI)
  assume ok: "terms_ok db"
  note t = assms [OF ok]
  have "term_step (terminals db) ((terminals db)\<lparr>sessions := upd P f (sessions (terminals db))\<rparr>)" by (rule term_step.touch) (rule t)
  then show "rtranclp term_step (terminals db) (terminals (set_sessions P f db))" by (simp add: set_sessions_def)
  show "announced (set_sessions P f db)"
    by (rule announced_kept [of db]) (use ok t in \<open>auto simp: terms_ok_def set_upd sess_touch_def over_not_live split: if_splits\<close>)
  show "news_told db (set_sessions P f db)" by (rule news_told_same) simp
qed

lemma tables_progress:
  assumes "terms_ok db \<Longrightarrow> term_step (terminals db) (terminals db')" "sessions (terminals db') = sessions (terminals db)" "inputs db' = inputs db"
  shows "term_progress db db'"
  using assms by (auto simp: term_progress_def terms_ok_def intro: announced_kept news_told_same)

lemma lock_only:
  assumes "terms_ok db" "lockTerminalSessionTx db p x = Inr t" "r \<in> set (sessions (terminals db))" "is_session p x r"
  shows "r = t" "sess_wf r"
proof -
  show "r = t"
    using keyed_inj [of tm_session_id "sessions (terminals db)" r t] lock_cases [OF assms(2)] assms(1,3,4)
    by (simp add: terms_ok_def ts_ok_def is_session_def)
  show "sess_wf r" using assms(1,3) by (simp add: terms_ok_def ts_ok_def)
qed

text \<open>A statement on the locked session.\<close>

lemma locked_progress:
  assumes "lockTerminalSessionTx db p x = Inr t" "\<And>r. P r \<Longrightarrow> is_session p x r" "sess_wf t \<Longrightarrow> sess_touch t (f t)"
  shows "term_progress db (set_sessions P f db)"
proof (rule touch_progress)
  fix r assume ok: "terms_ok db" and r: "r \<in> set (sessions (terminals db))" "P r"
  from lock_only [OF ok assms(1) r(1) assms(2) [OF r(2)]] assms(3) show "sess_touch r (f r)" by blast
qed

lemma create_progress:
  assumes "createTerminalSessionTx th now x p name rb cb db = Inr (db', t)"
  shows "term_progress db db'"
  unfolding term_progress_def
proof (intro impI conjI)
  assume ok: "terms_ok db"
  note c = createTerminalSessionTx_cases [OF assms]
  have "term_step (terminals db) (terminals db')"
    unfolding c(2) c(1) using c(3,4) by (simp add: live_sessions_def live_count_def term_step.create)
  then show "rtranclp term_step (terminals db) (terminals db')" by simp
  show "announced db'"
    by (rule announced_kept [of db]) (use ok in \<open>auto simp: terms_ok_def c(1,2) new_session_def terminalOver_def\<close>)
  show "news_told db db'" by (rule news_told_same) (simp add: c(2))
qed

lemma submit_progress:
  assumes "submitTerminalInputTx now wall nid p x source kind m db = Inr (db', n)"
  shows "term_progress db db'"
  using assms
proof (cases rule: submitTerminalInputTx_cases)
  case (1 t)
  have "\<not> terminalOver (tm_status t)" using 1(2) by (auto simp: admits_input_def split: if_splits)
  with lock_cases(2) [OF 1(1)] 1(5) have "term_step (terminals db) (terminals db')"
    unfolding 1(4,6) by (simp add: term_step.accept)
  then show ?thesis by (rule tables_progress) (simp_all add: 1(6))
qed

lemma control_progress:
  assumes "SetTerminalControl now p x hold lease db = Inr (db', t')"
  shows "term_progress db db'"
proof -
  let ?f = "\<lambda>r. if hold then r\<lparr>tm_control_holder := Some ''human'', tm_control_until := Some (now + control_secs lease * 10 ^ 6), tm_updated_at := now\<rparr>
    else r\<lparr>tm_control_holder := None, tm_control_until := None, tm_updated_at := now\<rparr>"
  from assms obtain t where t: "lockTerminalSessionTx db p x = Inr t" "\<not> terminalOver (tm_status t)"
    and d: "db' = set_sessions (is_session p x) ?f db"
    by (auto simp: SetTerminalControl_def Let_def rbind_eq_Inr split: if_splits)
  show ?thesis unfolding d
    by (rule locked_progress [OF t(1)]) (use t(2) in \<open>auto intro!: sess_touchI simp: sess_cols_def sess_wf_def over_not_live split: term_status.splits\<close>)
qed

lemma end_progress:
  assumes "endTerminalSessionTx th now wall t s reason code signal db = Inr (db', t')" "lockTerminalSessionTx db p x = Inr t"
    "\<not> terminalOver (tm_status t)" "terminalOver s"
  shows "term_progress db db'"
  unfolding term_progress_def
proof (intro impI conjI)
  assume ok: "terms_ok db"
  note l = lock_cases [OF assms(2)] and e = endTerminalSessionTx_eq [OF assms(1)]
  let ?f = "\<lambda>r. (ended_session wall s reason code signal r)\<lparr>tm_updated_at := wall\<rparr>"
  have "terminals db' = (terminals db)\<lparr>sessions := upd (is_session p x) ?f (sessions (terminals db)),
      tinputs := settled_inputs now x (tinputs (terminals db))\<rparr>"
    by (simp add: e(1) l(4,5) settled_inputs_def)
  then show "rtranclp term_step (terminals db) (terminals db')"
    using term_step.finish [OF l(2,3) assms(3,4)] by auto
  from e(2) obtain news where "inputs db' = inputs db @ news" by (auto simp: term_frame_def)
  then have kept: "input_of db' q i \<noteq> None" if "input_of db q i \<noteq> None" for q i
    using that by (auto simp: input_of_def find_append)
  show "announced db'" unfolding announced_def
  proof (intro ballI impI)
    fix r assume r: "r \<in> set (sessions (terminals db'))" "terminalOver (tm_status r)"
    show "input_of db' (tm_persona_id r) (terminalInputPrefix @ tm_session_id r) \<noteq> None"
    proof (cases "is_session p x r")
      case True
      then show ?thesis using e(4) by (simp add: is_session_def l(4,5))
    next
      case False
      with r(1) have "r \<in> set (sessions (terminals db))"
        by (auto simp: e(1) l(4,5) set_upd is_session_def ended_session_def)
      with r(2) ok show ?thesis by (intro kept) (simp add: terms_ok_def announced_def)
    qed
  qed
  have "?f t \<in> set (sessions (terminals db'))" using l(2,3) by (auto simp: e(1) l(4,5) set_upd image_iff)
  moreover have "terminal_payload th (?f t) = terminal_payload th (ended_session wall s reason code signal t)" by (simp add: terminal_payload_def)
  ultimately have "told db' (input_face r)" if "r = terminal_input now sq p x (terminal_payload th (ended_session wall s reason code signal t))" for r sq
    unfolding told_def using assms(4) l(4,5) that
    by (intro exI [of _ th] bexI [of _ "?f t"]) (simp_all add: notice_face_def input_face_def terminal_input_def ended_session_def)
  with e(5) show "news_told db db'" unfolding news_told_def l(4,5) by (auto split: if_splits)
qed

lemma close_progress:
  assumes "CloseTerminalSession th now wall p x reason db = Inr (db', t')"
  shows "term_progress db db'"
  using assms
proof (cases rule: CloseTerminalSession_cases)
  case (asked t)
  show ?thesis unfolding asked(4)
    by (rule locked_progress [OF asked(1)]) (use asked(2) in \<open>auto intro!: sess_touchI simp: sess_cols_def sess_wf_def status_defs split: term_status.splits\<close>)
next
  case (ended t r)
  then show ?thesis by (intro end_progress [OF ended(3) ended(1)]) (simp_all add: terminalOver_def)
next
  case (freed t)
  show ?thesis unfolding freed(4)
    by (rule locked_progress [OF freed(1)]) (use freed(2,3) in \<open>auto intro!: sess_touchI simp: sess_cols_def sess_wf_def status_defs split: term_status.splits\<close>)
qed simp

text \<open>The sweep: claims are released, closing sessions stay closing.\<close>

lemma released_touch:
  assumes "terminalClaimed (tm_status t)"
  shows "sess_touch t (released now t)"
  using assms by (intro sess_touchI) (auto simp: released_def sess_cols_def sess_wf_def status_defs split: term_status.splits)

lemma sweep_progress:
  assumes "sweepTerminalExpiredTx now p backend db = Inr (db', out)"
  shows "term_progress db db'"
proof -
  let ?run = "\<lambda>t. sweepable now p backend t \<and> (tm_status t = TmClaimed \<or> tm_status t = TmActive)"
  let ?cls = "\<lambda>t. sweepable now p backend t \<and> tm_status t = TmEnding"
  have d: "db' = set_sessions ?cls (released now) (set_sessions ?run (released now) db)"
    using assms by (auto simp: sweepTerminalExpiredTx_def Let_def rbind_eq_Inr)
  have "term_progress db (set_sessions ?run (released now) db)"
    "term_progress (set_sessions ?run (released now) db) db'" unfolding d
    by (rule touch_progress, rule released_touch, simp add: terminalClaimed_def, blast?)+
  then show ?thesis by (rule term_progress_trans)
qed

text \<open>The claim of one session, and of the candidates in turn.\<close>

lemma claim_one_progress:
  assumes "t \<in> set (sessions (terminals db))" "is_session p x t" "claimable w t" "e = tm_epoch t + 1"
    and db1_def: "db1 = fence_inputs now x e (set_sessions (\<lambda>r. is_session p x r \<and> claimable w r) (claim_session now w lease e) db)"
  shows "term_progress db db1"
  unfolding term_progress_def
proof (intro impI conjI)
  assume ok: "terms_ok db"
  have d: "terminals db1 = (terminals db)\<lparr>sessions := upd (\<lambda>r. is_session p x r \<and> claimable w r) (claim_session now w lease e) (sessions (terminals db)),
      tinputs := fenced_inputs now x e (tinputs (terminals db))\<rparr>"
    by (simp add: db1_def fence_inputs_def fenced_inputs_def set_sessions_def set_tinputs_def)
  show "rtranclp term_step (terminals db) (terminals db1)" unfolding d
    using term_step.claim [OF assms(1-4)] by auto
  show "announced db1"
    by (rule announced_kept [of db])
       (use ok in \<open>auto simp: terms_ok_def d set_upd claim_session_def terminalOver_def db1_def fence_inputs_def split: if_splits\<close>)
  show "news_told db db1" by (rule news_told_same) (simp add: db1_def fence_inputs_def)
qed

lemma claim_one_rows:
  "sessions (terminals (fence_inputs now x e (set_sessions P f db))) = upd P f (sessions (terminals db))"
  by (simp add: fence_inputs_def)

lemma claim_each_progress:
  assumes "claim_each now p w lease ts db = Inr (db', out)" "distinct (map tm_session_id ts)" "terms_ok db"
    "\<And>t. t \<in> set ts \<Longrightarrow> t \<in> set (sessions (terminals db)) \<and> tm_persona_id t = p"
  shows "term_progress db db'"
  using assms
proof (induction ts arbitrary: db out)
  case Nil
  then show ?case by simp
next
  case (Cons t ts)
  let ?x = "tm_session_id t" and ?e = "tm_epoch t + 1"
  let ?P = "\<lambda>r. is_session p ?x r \<and> claimable w r"
  let ?db1 = "fence_inputs now ?x ?e (set_sessions ?P (claim_session now w lease ?e) db)"
  have t: "t \<in> set (sessions (terminals db))" "is_session p ?x t" using Cons.prems(4) [of t] by (auto simp: is_session_def)
  show ?case
  proof (cases "list_ex ?P (sessions (terminals db))")
    case False
    then show ?thesis using Cons by (auto simp: Let_def)
  next
    case True
    then obtain r where r: "r \<in> set (sessions (terminals db))" "?P r" by (auto simp: list_ex_iff)
    have "r = t" using keyed_inj [of tm_session_id "sessions (terminals db)" r t] r t(1) Cons.prems(3)
      by (simp add: terms_ok_def ts_ok_def is_session_def)
    with r have one: "term_progress db ?db1" by (intro claim_one_progress [OF t _ refl refl]) simp_all
    from Cons.prems(1) True obtain out' where rest: "claim_each now p w lease ts ?db1 = Inr (db', out')"
      by (auto simp: Let_def rbind_eq_Inr)
    have "s \<in> set (sessions (terminals ?db1)) \<and> tm_persona_id s = p" if s: "s \<in> set ts" for s
    proof -
      have "tm_session_id s \<noteq> ?x" using Cons.prems(2) s by (metis distinct.simps(2) image_eqI list.set_map list.simps(9))
      then have "\<not> ?P s" by (simp add: is_session_def)
      then show ?thesis using Cons.prems(4) [of s] s by (auto simp: claim_one_rows set_upd)
    qed
    with Cons.IH [OF rest] Cons.prems(2) progress_ok [OF one Cons.prems(3)] have "term_progress ?db1 db'" by simp
    with one show ?thesis by (rule term_progress_trans)
  qed
qed

lemma distinct_sorted_filter: "keyed k rs \<Longrightarrow> distinct (map k (take n (sort_key h (filter P rs))))"
proof -
  assume "keyed k rs"
  then have "inj_on k (set (filter P rs))" "distinct (filter P rs)"
    by (auto simp: keyed_def distinct_map intro: inj_on_subset)
  then have "distinct (map k (sort_key h (filter P rs)))" by (simp add: distinct_map)
  then show ?thesis by (simp add: take_map [symmetric])
qed

lemma claim_progress:
  assumes "ClaimTerminalSessions now p w backend lease limit db = Inr (db', claimed, swept)"
  shows "term_progress db db'"
proof (cases "terms_ok db \<and> db' \<noteq> db")
  case True
  with assms obtain db1 where s: "sweepTerminalExpiredTx now p backend db = Inr (db1, swept)"
    and c: "claim_each now p w lease (claim_candidates db1 p w backend limit) db1 = Inr (db', claimed)"
    by (auto simp: ClaimTerminalSessions_def rbind_eq_Inr require_eq_Inr split: if_splits)
  note one = sweep_progress [OF s]
  have ok: "terms_ok db1" using True progress_ok [OF one] by simp
  have "distinct (map tm_session_id (claim_candidates db1 p w backend limit))" unfolding claim_candidates_def
    by (rule distinct_sorted_filter) (use ok in \<open>simp add: terms_ok_def ts_ok_def\<close>)
  moreover have "t \<in> set (sessions (terminals db1)) \<and> tm_persona_id t = p" if "t \<in> set (claim_candidates db1 p w backend limit)" for t
    using that by (auto simp: claim_candidates_def dest!: in_set_takeD)
  ultimately have "term_progress db1 db'" by (intro claim_each_progress [OF c _ ok])
  with one show ?thesis by (rule term_progress_trans)
next
  case False
  then show ?thesis by (auto simp: term_progress_def terms_ok_def)
qed

section \<open>Under a claim\<close>

lemma terminalClaimTx_cases:
  assumes "terminalClaimTx wall p x w e f db = Inr (db', a, fresh)"
  obtains t where "lockTerminalSessionTx db p x = Inr t" "claim_live wall w e t" "f t db = Inr (db', a)"
    "lockTerminalSessionTx db' p x = Inr fresh"
  using assms by (auto simp: terminalClaimTx_def rbind_eq_Inr split: if_splits)

lemma heartbeat_progress:
  assumes "HeartbeatTerminalSession now wall p x w e lease db = Inr (db', u, t')"
  shows "term_progress db db'"
proof -
  from assms obtain t where t: "lockTerminalSessionTx db p x = Inr t" "claim_live wall w e t"
    and d: "db' = set_sessions (\<lambda>r. is_session p x r \<and> tm_claimed_by r = Some w)
        (\<lambda>r. r\<lparr>tm_claim_expires_at := Some (now + lease * 1000), tm_updated_at := now\<rparr>) db"
      "list_ex (\<lambda>r. is_session p x r \<and> tm_claimed_by r = Some w) (sessions (terminals db))"
    unfolding HeartbeatTerminalSession_def by (elim terminalClaimTx_cases) (auto simp: Let_def rbind_eq_Inr split: if_splits)
  show ?thesis unfolding d(1)
  proof (rule touch_progress)
    fix r assume ok: "terms_ok db" and r: "r \<in> set (sessions (terminals db))" "is_session p x r \<and> tm_claimed_by r = Some w"
    from lock_only [OF ok t(1) r(1)] r(2) t(2) show "sess_touch r (r\<lparr>tm_claim_expires_at := Some (now + lease * 1000), tm_updated_at := now\<rparr>)"
      by (intro sess_touchI) (auto simp: sess_cols_def sess_wf_def claim_live_def status_defs split: term_status.splits)
  qed
qed

lemma pending_same:
  "PendingTerminalInputs wall p x w e db = Inr (db', ns, t') \<Longrightarrow> db' = db"
  unfolding PendingTerminalInputs_def by (elim terminalClaimTx_cases) simp

lemma resolve_progress:
  assumes "ResolveDequeuedTerminalInputs now wall p x w e db = Inr (db', k, t')"
  shows "term_progress db db'"
proof -
  let ?P = "\<lambda>n. of_session x n \<and> n_session_epoch n = e \<and> n_status n = NDequeued"
  have d: "db' = set_tinputs ?P (\<lambda>n. n\<lparr>n_status := NUnknown, n_updated_at := now\<rparr>) db"
    using assms unfolding ResolveDequeuedTerminalInputs_def by (elim terminalClaimTx_cases) (auto simp: Let_def)
  have "term_step (terminals db) (terminals db')"
    using term_step.dispose [where ts = "terminals db" and P = ?P and s = NUnknown and d = n_detail and now = now] by (auto simp: d set_tinputs_def open_input_def)
  then show ?thesis by (rule tables_progress) (simp_all add: d)
qed

lemma disposition_progress:
  assumes "ReportTerminalInputDisposition now wall p x nid w e status detail db = Inr (db', n, t')"
  shows "term_progress db db'"
proof -
  let ?P = "\<lambda>n. n_input_id n = nid \<and> of_session x n \<and> n_session_epoch n = e \<and> n_status n \<in> {NIntended, NDequeued}"
  from assms obtain s where s: "input_disposition status = Some s" by (auto simp: ReportTerminalInputDisposition_def split: option.splits)
  then have d: "db' = set_tinputs ?P (\<lambda>n. n\<lparr>n_status := s, n_detail := detail, n_updated_at := now\<rparr>) db"
    using assms unfolding ReportTerminalInputDisposition_def
    by (simp, elim terminalClaimTx_cases) (auto simp: Let_def rbind_eq_Inr)
  have "s \<in> {NDequeued, NWritten, NFailed, NUnknown}" using s by (auto simp: input_disposition_def split: if_splits)
  then have "term_step (terminals db) (terminals db')"
    using term_step.dispose [where ts = "terminals db" and P = ?P and s = s and d = "\<lambda>_. detail" and now = now] by (auto simp: d set_tinputs_def open_input_def)
  then show ?thesis by (rule tables_progress) (simp_all add: d)
qed

lemma status_progress:
  assumes "ReportTerminalStatus th now wall p x w e status reason code signal opid db = Inr (db', u, t')"
  shows "term_progress db db'"
proof -
  let ?f = "\<lambda>r. r\<lparr>tm_status := (if tm_status r = TmEnding then TmEnding else TmActive), tm_operation_id := Some opid, tm_updated_at := now\<rparr>"
  from assms obtain s where s: "report_status status = Some s" by (auto simp: ReportTerminalStatus_def split: option.splits)
  with assms obtain t where t: "lockTerminalSessionTx db p x = Inr t" "claim_live wall w e t"
    and d: "s = TmActive \<and> db' = set_sessions (is_session p x) ?f db
      \<or> s \<noteq> TmActive \<and> (\<exists>u. endTerminalSessionTx th now wall t s reason code signal db = Inr (db', u))"
    unfolding ReportTerminalStatus_def
    by (simp, elim terminalClaimTx_cases) (auto simp: rbind_eq_Inr split: if_splits)
  have "s = TmActive \<or> terminalOver s" using s by (auto simp: report_status_def terminalOver_def split: if_splits)
  from d show ?thesis
  proof (elim disjE conjE exE)
    assume "db' = set_sessions (is_session p x) ?f db"
    then show ?thesis
      using t(2) by (simp, intro locked_progress [OF t(1)])
        (auto intro!: sess_touchI simp: claim_live_def sess_cols_def sess_wf_def status_defs split: term_status.splits)
  next
    fix u assume "s \<noteq> TmActive" "endTerminalSessionTx th now wall t s reason code signal db = Inr (db', u)"
    then show ?thesis
      using \<open>s = TmActive \<or> terminalOver s\<close> t(2) by (intro end_progress [OF _ t(1)]) (auto simp: claim_live_def status_defs)
  qed
qed

section \<open>Output\<close>

lemma data_of_simps [simp]:
  "data_of x (ks @ ls) = data_of x ks @ data_of x ls" "data_of x [] = []"
  "data_of x (k # ks) = (if chunk_of x k \<and> k_kind k = OutData then k # data_of x ks else data_of x ks)"
  by (simp_all add: data_of_def)

lemma retained_simps [simp]:
  "retained x (ks @ ls) = retained x ks + retained x ls" "retained x [] = 0"
  "retained x (k # ks) = (if chunk_of x k \<and> k_kind k = OutData then int (length (k_data k)) else 0) + retained x ks"
  by (simp_all add: retained_def)

lemma new_output_sel [simp]:
  "k_session_id (new_output now x sq kind base to data) = x" "k_seq (new_output now x sq kind base to data) = sq"
  "k_kind (new_output now x sq kind base to data) = kind" "k_base (new_output now x sq kind base to data) = base"
  "k_gap_to (new_output now x sq kind base to data) = to" "k_data (new_output now x sq kind base to data) = data"
  by (simp_all add: new_output_def)

lemma insert_output_cases:
  assumes "insert_output k ks = Inr ks'"
  shows "ks' = ks \<or> ks' = ks @ [k]"
  using assms by (auto simp: insert_output_def split: if_splits)

text \<open>Appending adds rows of this session only, numbered above the counter.\<close>

lemma append_chunks_step:
  assumes "append_chunks now x (c # cs) sq high ks = Inr r"
  obtains (skipped) "append_chunks now x cs (Suc sq) high ks = Inr r"
    | (stored) kind base to data ks1 high1 where "insert_output (new_output now x (Suc sq) kind base to data) ks = Inr ks1"
      "append_chunks now x cs (Suc sq) high1 ks1 = Inr r" "high \<le> high1"
proof (cases "dc_kind c = ''gap''")
  case True
  let ?to = "case dc_gap_to c of None \<Rightarrow> dc_base c | Some g \<Rightarrow> g"
  from assms True obtain ks1 where "insert_output (new_output now x (Suc sq) OutGap (dc_base c) (Some ?to) []) ks = Inr ks1"
    "append_chunks now x cs (Suc sq) (if high < ?to then ?to else high) ks1 = Inr r" by (auto simp: Let_def rbind_eq_Inr)
  then show thesis by (rule stored) simp
next
  case False
  define over skip data base stop where "over = (dc_base c < high)" and "skip = i64 (high - dc_base c)"
    and "data = (if over then drop (nat skip) (dc_data c) else dc_data c)" and "base = (if over then high else dc_base c)"
    and "stop = i64 (base + int (length data))"
  note defs = over_def skip_def data_def base_def stop_def
  show thesis
  proof (cases "over \<and> int (length (dc_data c)) \<le> skip \<or> data = []")
    case True
    with assms False have "append_chunks now x cs (Suc sq) high ks = Inr r" by (auto simp: Let_def defs split: if_splits)
    then show thesis by (rule skipped)
  next
    case F: False
    with assms False obtain ks1 where "insert_output (new_output now x (Suc sq) OutData base None data) ks = Inr ks1"
      "append_chunks now x cs (Suc sq) (if high < stop then stop else high) ks1 = Inr r"
      by (auto simp: Let_def defs rbind_eq_Inr split: if_splits)
    then show thesis by (rule stored) simp
  qed
qed

lemma append_chunks_rows:
  assumes "append_chunks now x cs sq high ks = Inr (high', ks')" "\<And>k. k \<in> set ks \<Longrightarrow> k_session_id k = x \<Longrightarrow> k_seq k \<le> sq" "keyed out_key ks"
  shows "keyed out_key ks' \<and> high \<le> high' \<and> (\<exists>ls. ks' = ks @ ls \<and> list_all (chunk_of x) ls)"
  using assms
proof (induction cs arbitrary: sq high ks)
  case Nil
  then show ?case by simp
next
  case (Cons c cs)
  have step: "keyed out_key ks' \<and> high \<le> high' \<and> (\<exists>ls. ks' = ks @ ls \<and> list_all (chunk_of x) ls)"
    if "insert_output (new_output now x (Suc sq) kind base to data) ks = Inr ks1"
      "append_chunks now x cs (Suc sq) high1 ks1 = Inr (high', ks')" "high \<le> high1" for kind base to data ks1 high1
  proof -
    let ?k = "new_output now x (Suc sq) kind base to data"
    have "out_key k \<noteq> (x, Suc sq)" if "k \<in> set ks" for k
      using Cons.prems(2) [OF that] by auto
    then have "(x, Suc sq) \<notin> out_key ` set ks" by (metis (no_types, lifting) imageE)
    then have "keyed out_key (ks @ [?k])" using Cons.prems(3) by (simp add: keyed_snoc)
    with insert_output_cases [OF that(1)] Cons.prems(3) have k1: "keyed out_key ks1" by auto
    have "k_seq k \<le> Suc sq" if "k \<in> set ks1" "k_session_id k = x" for k
    proof -
      have "k \<in> set ks \<or> k = ?k" using insert_output_cases [OF \<open>insert_output ?k ks = Inr ks1\<close>] that(1) by auto
      then show ?thesis
      proof
        assume "k = ?k"
        then have "k_seq k = k_seq ?k" by (rule arg_cong)
        then show ?thesis by simp
      qed (use Cons.prems(2) that(2) in \<open>auto simp: le_SucI\<close>)
    qed
    from Cons.IH [OF that(2) this k1] obtain ls where "keyed out_key ks'" "high1 \<le> high'" "ks' = ks1 @ ls" "list_all (chunk_of x) ls"
      by blast
    with insert_output_cases [OF that(1)] that(3) show ?thesis by (auto simp: chunk_of_def)
  qed
  have skip: "keyed out_key ks' \<and> high \<le> high' \<and> (\<exists>ls. ks' = ks @ ls \<and> list_all (chunk_of x) ls)"
    if "append_chunks now x cs (Suc sq) high ks = Inr (high', ks')"
    by (rule Cons.IH [OF that]) (use Cons.prems in \<open>auto simp: le_SucI\<close>)
  from Cons.prems(1) show ?case
  proof (cases rule: append_chunks_step)
    case skipped
    then show ?thesis by (rule skip)
  next
    case (stored kind base to data ks1 high1)
    then show ?thesis by (rule step)
  qed
qed

lemma one_chunk:
  assumes "keyed out_key ks" "c \<in> set ks" "k_session_id c = x"
  obtains as bs where "ks = as @ c # bs" "\<And>k. k \<in> set (as @ bs) \<Longrightarrow> \<not> nth_chunk x (k_seq c) k"
proof -
  from assms(2) obtain as bs where ks: "ks = as @ c # bs" by (meson split_list)
  have "\<not> nth_chunk x (k_seq c) k" if "k \<in> set (as @ bs)" for k
    using assms(1,3) that by (force simp: ks keyed_def nth_chunk_def chunk_of_def image_iff)
  with ks that show thesis by blast
qed

lemma drop_chunk:
  assumes "keyed out_key ks" "c \<in> set (data_of x ks)"
  shows "retained x (filter (\<lambda>k. \<not> nth_chunk x (k_seq c) k) ks) = retained x ks - int (length (k_data c))"
proof -
  have c: "c \<in> set ks" "k_session_id c = x" "k_kind c = OutData" using assms(2) by (auto simp: data_of_def chunk_of_def)
  from one_chunk [OF assms(1) c(1,2)] obtain as bs where ks: "ks = as @ c # bs" "\<And>k. k \<in> set (as @ bs) \<Longrightarrow> \<not> nth_chunk x (k_seq c) k" by blast
  then have "filter (\<lambda>k. \<not> nth_chunk x (k_seq c) k) ks = as @ bs"
    using c by (simp add: nth_chunk_def chunk_of_def filter_id_conv)
  then show ?thesis using c by (simp add: ks(1) chunk_of_def)
qed

lemma trim_chunk:
  assumes "keyed out_key ks" "c \<in> set (data_of x ks)" "0 \<le> n" "n \<le> int (length (k_data c))"
  shows "retained x (upd (nth_chunk x (k_seq c)) (trimmed n) ks) = retained x ks - n"
proof -
  have c: "c \<in> set ks" "k_session_id c = x" "k_kind c = OutData" using assms(2) by (auto simp: data_of_def chunk_of_def)
  from one_chunk [OF assms(1) c(1,2)] obtain as bs where ks: "ks = as @ c # bs" "\<And>k. k \<in> set (as @ bs) \<Longrightarrow> \<not> nth_chunk x (k_seq c) k" by blast
  have "upd (nth_chunk x (k_seq c)) (trimmed n) ks = as @ trimmed n c # bs"
    using ks c by (simp add: upd_id nth_chunk_def chunk_of_def)
  then show ?thesis using c assms(3,4) by (simp add: ks(1) chunk_of_def trimmed_def)
qed

text \<open>Pruning removes exactly what it set out to.\<close>

lemma prune_chunks_retained:
  assumes "prune_chunks x target cs removed nb ks = Inr (nb', ks')" "keyed out_key ks" "distinct (map k_seq cs)"
    "set cs \<subseteq> set (data_of x ks)" "removed \<le> target" "target - removed \<le> sum_list (map (\<lambda>k. int (length (k_data k))) cs)"
  shows "retained x ks' = retained x ks - (target - removed) \<and> keyed out_key ks'
    \<and> (\<forall>y. y \<noteq> x \<longrightarrow> data_of y ks' = data_of y ks)"
  using assms
proof (induction cs arbitrary: removed nb ks)
  case Nil
  then show ?case by simp
next
  case (Cons c cs)
  let ?sz = "int (length (k_data c))" and ?trim = "target - removed"
  have c: "c \<in> set (data_of x ks)" using Cons.prems(4) by simp
  show ?case
  proof (cases "target \<le> removed")
    case True
    with Cons.prems show ?thesis by simp
  next
    case False
    have cs: "k_seq k \<noteq> k_seq c" if "k \<in> set cs" for k using that Cons.prems(3) by (metis distinct.simps(2) image_eqI list.set_map list.simps(9))
    show ?thesis
    proof (cases "removed + ?sz \<le> target")
      case True
      let ?ks = "filter (\<lambda>k. \<not> nth_chunk x (k_seq c) k) ks"
      have p: "prune_chunks x target cs (removed + ?sz) (i64 (k_base c + ?sz)) ?ks = Inr (nb', ks')"
        using Cons.prems(1) False True by (simp add: Let_def)
      have sub: "set cs \<subseteq> set (data_of x ?ks)"
        using Cons.prems(4) cs by (auto simp: data_of_def nth_chunk_def)
      have "retained x ks' = retained x ?ks - (target - (removed + ?sz)) \<and> keyed out_key ks' \<and> (\<forall>y. y \<noteq> x \<longrightarrow> data_of y ks' = data_of y ?ks)"
        by (rule Cons.IH [OF p _ _ sub]) (use Cons.prems True in \<open>auto simp: keyed_filter\<close>)
      moreover have "data_of y ?ks = data_of y ks" if "y \<noteq> x" for y
        using that by (auto simp: data_of_def nth_chunk_def chunk_of_def intro: filter_cong)
      ultimately show ?thesis using drop_chunk [OF Cons.prems(2) c] by simp
    next
      case F: False
      let ?ks = "upd (nth_chunk x (k_seq c)) (trimmed ?trim) ks"
      have p: "prune_chunks x target cs (removed + ?trim) (i64 (k_base c + ?trim)) ?ks = Inr (nb', ks')"
        using Cons.prems(1) False F by (simp add: Let_def split: if_splits)
      have key: "out_key (trimmed n k) = out_key k" for n k by (simp add: trimmed_def)
      have sub: "set cs \<subseteq> set (data_of x ?ks)"
      proof
        fix k assume k: "k \<in> set cs"
        with Cons.prems(4) have "k \<in> set ks" "chunk_of x k" "k_kind k = OutData" by (auto simp: data_of_def)
        with cs [OF k] show "k \<in> set (data_of x ?ks)" by (auto simp: data_of_def set_upd nth_chunk_def image_iff)
      qed
      have nn: "0 \<le> sum_list (map (\<lambda>k. int (length (k_data k))) cs)" by (induction cs) simp_all
      have "retained x ks' = retained x ?ks - (target - (removed + ?trim)) \<and> keyed out_key ks' \<and> (\<forall>y. y \<noteq> x \<longrightarrow> data_of y ks' = data_of y ?ks)"
        by (rule Cons.IH [OF p _ _ sub]) (use Cons.prems False nn in \<open>simp_all add: keyed_upd key\<close>)
      moreover have "data_of y ?ks = data_of y ks" if "y \<noteq> x" for y
        unfolding data_of_def by (rule filter_upd_outside) (use that in \<open>auto simp: nth_chunk_def chunk_of_def trimmed_def\<close>)
      moreover have "retained x ?ks = retained x ks - ?trim"
        by (rule trim_chunk [OF Cons.prems(2) c]) (use False F in auto)
      ultimately show ?thesis by simp
    qed
  qed
qed

text \<open>A prune leaves at most the cap, and the rows of the other sessions as they were.\<close>

lemma prune_progress:
  assumes "pruneTerminalOutputTx t db = Inr db'" "keyed out_key (toutput (terminals db))"
  shows "keyed out_key (toutput (terminals db'))" "retained (tm_session_id t) (toutput (terminals db')) \<le> terminalScrollbackCap"
    "y \<noteq> tm_session_id t \<Longrightarrow> data_of y (toutput (terminals db')) = data_of y (toutput (terminals db))"
    "\<exists>nb. terminals db' = (terminals db)\<lparr>sessions := upd (is_session (tm_persona_id t) (tm_session_id t))
       (\<lambda>r. r\<lparr>tm_output_base := max (tm_output_base r) nb\<rparr>) (sessions (terminals db)), toutput := toutput (terminals db')\<rparr>
      \<or> terminals db' = terminals db"
    "inputs db' = inputs db"
proof -
  let ?x = "tm_session_id t" and ?ks = "toutput (terminals db)"
  let ?cs = "sort_key k_base (data_of ?x ?ks)" and ?target = "retained ?x ?ks - terminalScrollbackKeep"
  have keep: "0 \<le> terminalScrollbackKeep" "terminalScrollbackKeep \<le> terminalScrollbackCap"
    by (simp_all add: terminalScrollbackKeep_def terminalScrollbackCap_def)
  consider (small) "retained ?x ?ks \<le> terminalScrollbackCap" "db' = db"
    | (big) nb ks1 where "retained ?x ?ks > terminalScrollbackCap" "prune_chunks ?x ?target ?cs 0 (tm_output_base t) ?ks = Inr (nb, ks1)"
      "db' = set_sessions (is_session (tm_persona_id t) ?x) (\<lambda>r. r\<lparr>tm_output_base := max (tm_output_base r) nb\<rparr>) (set_toutput ks1 db)"
    using assms(1) by (auto simp: pruneTerminalOutputTx_def Let_def rbind_eq_Inr split: if_splits)
  then have "keyed out_key (toutput (terminals db')) \<and> retained ?x (toutput (terminals db')) \<le> terminalScrollbackCap
      \<and> (\<forall>y. y \<noteq> ?x \<longrightarrow> data_of y (toutput (terminals db')) = data_of y ?ks)
      \<and> (\<exists>nb. terminals db' = (terminals db)\<lparr>sessions := upd (is_session (tm_persona_id t) ?x)
           (\<lambda>r. r\<lparr>tm_output_base := max (tm_output_base r) nb\<rparr>) (sessions (terminals db)), toutput := toutput (terminals db')\<rparr>
          \<or> terminals db' = terminals db) \<and> inputs db' = inputs db"
  proof cases
    case small
    with assms(2) show ?thesis by simp
  next
    case big
    have "inj_on k_seq (set (data_of ?x ?ks))"
      using keyed_inj [OF assms(2)] by (auto simp: data_of_def chunk_of_def intro!: inj_onI)
    moreover have "distinct (data_of ?x ?ks)" using assms(2) by (simp add: keyed_def distinct_map data_of_def)
    ultimately have "distinct (map k_seq ?cs)" by (simp add: distinct_map)
    moreover have "sum_list (map (\<lambda>k. int (length (k_data k))) ?cs) = retained ?x ?ks"
      using \<open>distinct (data_of ?x ?ks)\<close> by (simp add: retained_def sum_list_distinct_conv_sum_set)
    ultimately have p: "retained ?x ks1 = retained ?x ?ks - (?target - 0) \<and> keyed out_key ks1 \<and> (\<forall>y. y \<noteq> ?x \<longrightarrow> data_of y ks1 = data_of y ?ks)"
      by (intro prune_chunks_retained [OF big(2) assms(2)]) (use big(1) keep in auto)
    have "terminals db' = (terminals db)\<lparr>sessions := upd (is_session (tm_persona_id t) ?x)
           (\<lambda>r. r\<lparr>tm_output_base := max (tm_output_base r) nb\<rparr>) (sessions (terminals db)), toutput := toutput (terminals db')\<rparr>"
      "toutput (terminals db') = ks1" "inputs db' = inputs db" by (simp_all add: big(3) set_sessions_def set_toutput_def)
    with keep p show ?thesis by auto
  qed
  then show "keyed out_key (toutput (terminals db'))" "retained ?x (toutput (terminals db')) \<le> terminalScrollbackCap"
    "y \<noteq> ?x \<Longrightarrow> data_of y (toutput (terminals db')) = data_of y ?ks"
    "\<exists>nb. terminals db' = (terminals db)\<lparr>sessions := upd (is_session (tm_persona_id t) ?x)
       (\<lambda>r. r\<lparr>tm_output_base := max (tm_output_base r) nb\<rparr>) (sessions (terminals db)), toutput := toutput (terminals db')\<rparr>
      \<or> terminals db' = terminals db"
    "inputs db' = inputs db" by blast+
qed

lemma append_progress:
  assumes "AppendTerminalOutput now wall p x w e cs db = Inr (db', u, t')"
  shows "term_progress db db'"
proof (cases "terms_ok db")
  case False
  then show ?thesis by (simp add: term_progress_def)
next
  case ok: True
  let ?ks = "toutput (terminals db)" and ?sq = "maxl (map k_seq (filter (chunk_of x) (toutput (terminals db))))"
  from assms obtain t high ks1 where t: "lockTerminalSessionTx db p x = Inr t" "claim_live wall w e t"
    and a: "append_chunks now x cs ?sq (tm_output_bytes t) ?ks = Inr (high, ks1)"
    and pr: "pruneTerminalOutputTx t (set_sessions (is_session p x) (\<lambda>r. r\<lparr>tm_output_bytes := max (tm_output_bytes r) high, tm_updated_at := now\<rparr>)
        (set_toutput ks1 db)) = Inr db'"
    unfolding AppendTerminalOutput_def by (elim terminalClaimTx_cases) (auto simp: Let_def rbind_eq_Inr)
  have x: "tm_session_id t = x" "tm_persona_id t = p" using lock_cases [OF t(1)] by simp_all
  have "k_seq k \<le> ?sq" if "k \<in> set ?ks" "k_session_id k = x" for k
    by (rule maxl_ge) (use that in \<open>auto simp: chunk_of_def\<close>)
  then have k1: "keyed out_key ks1" "\<exists>ls. ks1 = ?ks @ ls \<and> list_all (chunk_of x) ls"
    using append_chunks_rows [OF a] ok by (auto simp: terms_ok_def ts_ok_def out_ok_def)
  then have other: "data_of y ks1 = data_of y ?ks" if "y \<noteq> x" for y
    using that by (auto simp: data_of_def list_all_iff chunk_of_def filter_empty_conv)
  let ?db1 = "set_sessions (is_session p x) (\<lambda>r. r\<lparr>tm_output_bytes := max (tm_output_bytes r) high, tm_updated_at := now\<rparr>) (set_toutput ks1 db)"
  have k1': "keyed out_key (toutput (terminals ?db1))" using k1 by simp
  note pp = prune_progress [OF pr k1']
  have "out_ok (toutput (terminals db'))" unfolding out_ok_def
  proof (intro conjI allI)
    show "keyed out_key (toutput (terminals db'))" by (rule pp(1))
    fix y show "retained y (toutput (terminals db')) \<le> terminalScrollbackCap"
    proof (cases "y = x")
      case True
      with pp(2) x show ?thesis by simp
    next
      case False
      with pp(3) [of y] other [OF False] x ok show ?thesis by (simp add: retained_def terms_ok_def ts_ok_def out_ok_def)
    qed
  qed
  then have s1: "term_progress db (set_toutput (toutput (terminals db')) db)"
    by (intro tables_progress) (simp_all add: set_toutput_def term_step.drain)
  let ?bytes = "\<lambda>r. r\<lparr>tm_output_bytes := max (tm_output_bytes r) high, tm_updated_at := now\<rparr>"
  let ?A = "set_toutput (toutput (terminals db')) db"
  let ?B = "set_sessions (is_session p x) ?bytes ?A"
  have only: "terminalLive (tm_status r)" if "r \<in> set (sessions (terminals db))" "is_session p x r" for r
    using lock_only [OF ok t(1) that] t(2) by (auto simp: claim_live_def status_defs)
  have s2: "term_progress ?A ?B"
  proof (rule touch_progress)
    fix r assume "r \<in> set (sessions (terminals ?A))" "is_session p x r"
    then have "terminalLive (tm_status r)" by (intro only) simp_all
    then show "sess_touch r (?bytes r)" by (intro sess_touch_same) (simp_all add: sess_cols_def)
  qed
  have s3: "term_progress ?B (set_sessions (is_session p x) (\<lambda>r. r\<lparr>tm_output_base := max (tm_output_base r) nb\<rparr>) ?B)" for nb
  proof (rule touch_progress)
    fix r assume r: "r \<in> set (sessions (terminals ?B))" "is_session p x r"
    from r(1) have "r \<in> set (upd (is_session p x) ?bytes (sessions (terminals db)))" by simp
    then have "terminalLive (tm_status r)"
    proof (cases rule: in_upd_cases)
      case kept
      with r(2) show ?thesis by (intro only)
    next
      case (changed q)
      from only [OF changed(1,2)] show ?thesis by (simp add: changed(3))
    qed
    then show "sess_touch r (r\<lparr>tm_output_base := max (tm_output_base r) nb\<rparr>)" by (intro sess_touch_same) (simp_all add: sess_cols_def)
  qed
  have cong: "term_progress db db'" if "term_progress db d" "terminals db' = terminals d" "inputs d = inputs db" for d
    using that pp(5) by (simp add: term_progress_def announced_def input_of_def news_told_same)
  from pp(4) x show ?thesis
  proof (elim exE disjE)
    assume a: "terminals db' = terminals ?db1"
    have o: "toutput (terminals db') = ks1" unfolding a by simp
    have "terminals db' = terminals ?B" unfolding o by (rule a)
    then show ?thesis by (rule cong [OF term_progress_trans [OF s1 s2]]) simp
  next
    fix nb assume a: "terminals db' = (terminals ?db1)\<lparr>sessions := upd (is_session (tm_persona_id t) (tm_session_id t))
       (\<lambda>r. r\<lparr>tm_output_base := max (tm_output_base r) nb\<rparr>) (sessions (terminals ?db1)), toutput := toutput (terminals db')\<rparr>"
    have "terminals db' = terminals (set_sessions (is_session p x) (\<lambda>r. r\<lparr>tm_output_base := max (tm_output_base r) nb\<rparr>) ?B)"
      by (rule trans [OF a]) (simp add: set_sessions_def set_toutput_def x)
    then show ?thesis by (rule cong [OF term_progress_trans [OF term_progress_trans [OF s1 s2] s3]]) simp
  qed
qed

section \<open>Commands\<close>

datatype term_cmd =
    TCreate string string string string string
  | TInput string string string string string jobj
  | TControl string string bool int
  | TClose string string string
  | TClaim string string string int int
  | TSweep string
  | THeartbeat string string string int int
  | TResolve string string string int
  | TDispose string string string string int string "jobj option"
  | TAppend string string string int "drained list"
  | TReport string string string int string string "int option" string string

definition exec_term :: "term_host \<Rightarrow> timestamp \<Rightarrow> timestamp \<Rightarrow> term_cmd \<Rightarrow> 'd db \<Rightarrow> err + 'd db" where
  "exec_term th now wall c db = (case c of
     TCreate x p name rb cb \<Rightarrow> rbind (CreateTerminalSession th now x p name rb cb db) (\<lambda>(db', _). Inr db')
   | TInput nid p x source kind m \<Rightarrow> rbind (SubmitTerminalInput now wall nid p x source kind m db) (\<lambda>(db', _). Inr db')
   | TControl p x hold lease \<Rightarrow> rbind (SetTerminalControl now p x hold lease db) (\<lambda>(db', _). Inr db')
   | TClose p x reason \<Rightarrow> rbind (CloseTerminalSession th now wall p x reason db) (\<lambda>(db', _). Inr db')
   | TClaim p w backend lease limit \<Rightarrow> rbind (ClaimTerminalSessions now p w backend lease limit db) (\<lambda>(db', _). Inr db')
   | TSweep p \<Rightarrow> rbind (SweepExpiredTerminalClaims now p db) (\<lambda>(db', _). Inr db')
   | THeartbeat p x w e lease \<Rightarrow> rbind (HeartbeatTerminalSession now wall p x w e lease db) (\<lambda>(db', _). Inr db')
   | TResolve p x w e \<Rightarrow> rbind (ResolveDequeuedTerminalInputs now wall p x w e db) (\<lambda>(db', _). Inr db')
   | TDispose p x nid w e status detail \<Rightarrow>
       rbind (ReportTerminalInputDisposition now wall p x nid w e status detail db) (\<lambda>(db', _). Inr db')
   | TAppend p x w e cs \<Rightarrow> rbind (AppendTerminalOutput now wall p x w e cs db) (\<lambda>(db', _). Inr db')
   | TReport p x w e status reason code signal opid \<Rightarrow>
       rbind (ReportTerminalStatus th now wall p x w e status reason code signal opid db) (\<lambda>(db', _). Inr db'))"

lemma exec_term_progress: "exec_term th now wall c db = Inr db' \<Longrightarrow> term_progress db db'"
  by (cases c)
     (auto simp: exec_term_def rbind_eq_Inr CreateTerminalSession_def SubmitTerminalInput_def SweepExpiredTerminalClaims_def split: if_splits
       intro: create_progress submit_progress control_progress close_progress claim_progress sweep_progress heartbeat_progress
         resolve_progress disposition_progress append_progress status_progress)

lemma claim_each_frame: "claim_each now p w lease ts db = Inr (db', out) \<Longrightarrow> term_frame db db'"
proof (induction ts arbitrary: db out)
  case (Cons t ts)
  have f: "term_frame db (fence_inputs now x e (set_sessions P f db))" for x e P f
    unfolding fence_inputs_def by (meson set_frame term_frame_trans)
  from Cons show ?case by (auto simp: Let_def rbind_eq_Inr split: if_splits intro: term_frame_trans [OF f])
qed simp

lemma sweep_term_frame: "sweepTerminalExpiredTx now p backend db = Inr (db', out) \<Longrightarrow> term_frame db db'"
  by (auto simp: sweepTerminalExpiredTx_def Let_def rbind_eq_Inr intro: term_frame_trans [OF set_frame(1) set_frame(1)])

lemma prune_frame: "pruneTerminalOutputTx t db = Inr db' \<Longrightarrow> term_frame db db'"
  by (auto simp: pruneTerminalOutputTx_def Let_def rbind_eq_Inr split: if_splits intro: term_frame_trans [OF set_frame(3) set_frame(1)])

lemma claim_tx_frame:
  assumes "terminalClaimTx wall p x w e f db = Inr (db', a, fresh)" "\<And>t d b. f t db = Inr (d, b) \<Longrightarrow> term_frame db d"
  shows "term_frame db db'"
  using assms by (elim terminalClaimTx_cases) blast

lemma exec_term_frame: "exec_term th now wall c db = Inr db' \<Longrightarrow> term_frame db db'"
proof (cases c)
  case TClaim
  assume "exec_term th now wall c db = Inr db'"
  with TClaim show ?thesis
    by (auto simp: exec_term_def rbind_eq_Inr ClaimTerminalSessions_def require_eq_Inr split: if_splits
        dest!: sweep_term_frame claim_each_frame intro: term_frame_trans)
next
  case TAppend
  assume "exec_term th now wall c db = Inr db'"
  with TAppend show ?thesis
    by (auto simp: exec_term_def rbind_eq_Inr AppendTerminalOutput_def Let_def elim!: claim_tx_frame dest!: prune_frame
        intro: term_frame_trans [OF term_frame_trans [OF set_frame(3) set_frame(1)]])
next
  case TReport
  assume "exec_term th now wall c db = Inr db'"
  with TReport show ?thesis
    by (auto simp: exec_term_def rbind_eq_Inr ReportTerminalStatus_def elim!: claim_tx_frame split: option.splits if_splits
        dest: endTerminalSessionTx_eq(2))
next
  case TDispose
  assume "exec_term th now wall c db = Inr db'"
  with TDispose show ?thesis
    by (auto simp: exec_term_def rbind_eq_Inr ReportTerminalInputDisposition_def Let_def elim!: claim_tx_frame split: option.splits)
qed (auto simp: exec_term_def rbind_eq_Inr CreateTerminalSession_def SubmitTerminalInput_def SweepExpiredTerminalClaims_def
    SetTerminalControl_def HeartbeatTerminalSession_def ResolveDequeuedTerminalInputs_def Let_def split: if_splits
    elim!: claim_tx_frame dest: terminal_tool_frames sweep_term_frame)

text \<open>What every transaction respects that has to do with terminals.\<close>

definition term_lawful :: "'d db \<Rightarrow> 'd db \<Rightarrow> bool" where
  "term_lawful db db' \<longleftrightarrow> (terms_ok db \<longrightarrow> terms_ok db'
     \<and> grows sess_moved (\<lambda>_. True) (sessions (terminals db)) (sessions (terminals db'))
     \<and> grows tin_moved (\<lambda>_. True) (tinputs (terminals db)) (tinputs (terminals db')))"

lemma term_progress_lawful: "term_progress db db' \<Longrightarrow> term_lawful db db'"
  unfolding term_lawful_def using progress_ok term_steps_moved by (auto simp: term_progress_def terms_ok_def)

lemma term_lawful_trans: "term_lawful a b \<Longrightarrow> term_lawful b c \<Longrightarrow> term_lawful a c"
  unfolding term_lawful_def by (blast intro: sess_rows.grows_trans tin_rows.grows_trans)

text \<open>A transaction apart from the terminals keeps every input of the inbox.\<close>

lemma term_lawful_same:
  assumes "terminals db' = terminals db" "input_key ` set (inputs db) \<subseteq> input_key ` set (inputs db')"
  shows "term_lawful db db'"
proof -
  have m: "input_of d q i \<noteq> None \<longleftrightarrow> (q, i) \<in> input_key ` set (inputs d)" for d :: "'a db" and q i
    by (auto simp: input_of_def find_None_iff is_input_def)
  have "input_of db' q i \<noteq> None" if "input_of db q i \<noteq> None" for q i
    unfolding m by (rule subsetD [OF assms(2)]) (rule that [unfolded m])
  then have "announced db \<Longrightarrow> announced db'" unfolding announced_def assms(1) by blast
  then show ?thesis unfolding term_lawful_def terms_ok_def assms(1) by (simp add: sess_rows.grows_refl tin_rows.grows_refl)
qed

section \<open>The fence of a claim\<close>

text \<open>The claim a command speaks under.\<close>

definition speaks :: "term_cmd \<Rightarrow> (string \<times> string \<times> string \<times> int) option" where
  "speaks c = (case c of THeartbeat p x w e _ \<Rightarrow> Some (p, x, w, e) | TResolve p x w e \<Rightarrow> Some (p, x, w, e)
     | TDispose p x _ w e _ _ \<Rightarrow> Some (p, x, w, e) | TAppend p x w e _ \<Rightarrow> Some (p, x, w, e)
     | TReport p x w e _ _ _ _ _ \<Rightarrow> Some (p, x, w, e) | _ \<Rightarrow> None)"

lemma claim_tx_refused:
  assumes "\<And>t. session_of db p x = Some t \<Longrightarrow> \<not> claim_live wall w e t"
  shows "\<exists>er. rbind (terminalClaimTx wall p x w e f db) g = Inl er"
proof (cases "lockTerminalSessionTx db p x")
  case (Inl er)
  then show ?thesis by (simp add: terminalClaimTx_def)
next
  case (Inr t)
  with assms [OF lock_cases(1) [OF Inr]] show ?thesis by (simp add: terminalClaimTx_def)
qed

lemma unclaimed_refused:
  assumes "speaks c = Some (p, x, w, e)" "\<And>t. session_of db p x = Some t \<Longrightarrow> \<not> claim_live wall w e t"
  shows "\<exists>er. exec_term th now wall c db = Inl er"
proof -
  note refused = claim_tx_refused [of db p x wall w e, OF assms(2)]
  from assms(1) show ?thesis
  proof (cases c)
    case (TDispose p' x' nid w' e' status detail)
    with assms(1) show ?thesis
      by (cases "input_disposition status") (auto simp: speaks_def exec_term_def ReportTerminalInputDisposition_def intro: refused)
  next
    case (TReport p' x' w' e' status reason code signal opid)
    with assms(1) show ?thesis
      by (cases "report_status status") (auto simp: speaks_def exec_term_def ReportTerminalStatus_def intro: refused)
  qed (auto simp: speaks_def exec_term_def HeartbeatTerminalSession_def ResolveDequeuedTerminalInputs_def AppendTerminalOutput_def
      intro: refused)
qed

end
