(* ===== verification/Memory_Shelf.thy ===== *)
theory Memory_Shelf
  imports Core_Branch
begin

text \<open>
  The abstract specification of the memory layer. A fragment is a range of the journal that is raw
  (its events render), shown (its replacement renders in their place) or folded (an upper fragment
  renders in its place). The shelf of fragments moves by four steps: a fresh range is sealed, a leaf
  is shown, a target over shown neighbours is laid out, and a target is folded over its sources.
  \<open>shelf_ok\<close> is what every step keeps, and what it means for the rendered context.
\<close>

datatype stand = Raw | Shown | Folded

record frag =
  fr_persona :: string
  fr_seq :: nat
  fr_layer :: nat
  fr_sources :: "nat list option"
  fr_first :: nat
  fr_last :: nat
  fr_stand :: stand

definition fr_key :: "frag \<Rightarrow> string \<times> nat" where
  "fr_key f = (fr_persona f, fr_seq f)"

definition ext :: "frag \<Rightarrow> nat set" where
  "ext f = {fr_first f .. fr_last f}"

text \<open>The fragments a target names.\<close>

definition named_by :: "frag \<Rightarrow> frag \<Rightarrow> bool" where
  "named_by t f \<longleftrightarrow> fr_persona f = fr_persona t \<and> (\<exists>ss. fr_sources t = Some ss \<and> fr_seq f \<in> set ss)"

definition wf_frag :: "frag list \<Rightarrow> frag \<Rightarrow> bool" where
  "wf_frag fs f \<longleftrightarrow> 1 \<le> fr_first f \<and> fr_first f \<le> fr_last f
     \<and> (fr_layer f = 1 \<and> fr_sources f = None
        \<or> fr_layer f = 2 \<and> (\<exists>ss. fr_sources f = Some ss \<and> (\<forall>n \<in> set ss. n < fr_seq f))
          \<and> ext f = (\<Union>s \<in> {s \<in> set fs. named_by f s}. ext s))"

definition shown_at :: "frag list \<Rightarrow> string \<Rightarrow> nat set" where
  "shown_at fs p = (\<Union>f \<in> {f \<in> set fs. fr_persona f = p \<and> fr_stand f = Shown}. ext f)"

definition leaves_at :: "frag list \<Rightarrow> string \<Rightarrow> nat set" where
  "leaves_at fs p = (\<Union>f \<in> {f \<in> set fs. fr_persona f = p \<and> fr_layer f = 1 \<and> fr_stand f \<noteq> Raw}. ext f)"

definition apart_in :: "(frag \<Rightarrow> bool) \<Rightarrow> frag list \<Rightarrow> bool" where
  "apart_in P fs \<longleftrightarrow> (\<forall>f \<in> set fs. \<forall>g \<in> set fs. P f \<longrightarrow> P g \<longrightarrow> fr_persona f = fr_persona g \<longrightarrow> f \<noteq> g \<longrightarrow> ext f \<inter> ext g = {})"

definition shelf_ok :: "frag list \<Rightarrow> bool" where
  "shelf_ok fs \<longleftrightarrow> keyed fr_key fs \<and> (\<forall>f \<in> set fs. wf_frag fs f)
     \<and> apart_in (\<lambda>f. fr_layer f = 1) fs \<and> apart_in (\<lambda>f. fr_stand f = Shown) fs
     \<and> (\<forall>f \<in> set fs. fr_stand f = Folded \<longrightarrow> ext f \<subseteq> shown_at fs (fr_persona f))
     \<and> (\<forall>f \<in> set fs. fr_stand f \<noteq> Raw \<longrightarrow> ext f \<subseteq> leaves_at fs (fr_persona f))"

section \<open>Steps\<close>

definition beyond :: "frag list \<Rightarrow> frag \<Rightarrow> bool" where
  "beyond fs f \<longleftrightarrow> (\<forall>g \<in> set fs. fr_persona g = fr_persona f \<longrightarrow> fr_seq g < fr_seq f)"

definition show_leaf :: "frag \<Rightarrow> frag list \<Rightarrow> frag list" where
  "show_leaf f = upd (\<lambda>g. fr_key g = fr_key f) (\<lambda>g. g\<lparr>fr_stand := Shown\<rparr>)"

definition fold_target :: "frag \<Rightarrow> frag list \<Rightarrow> frag list" where
  "fold_target t fs = show_leaf t (upd (named_by t) (\<lambda>g. g\<lparr>fr_stand := Folded\<rparr>) fs)"

inductive shelf_step :: "frag list \<Rightarrow> frag list \<Rightarrow> bool" where
  seal: "fr_layer f = 1 \<Longrightarrow> fr_sources f = None \<Longrightarrow> fr_stand f = Raw \<Longrightarrow> 1 \<le> fr_first f \<Longrightarrow> fr_first f \<le> fr_last f
    \<Longrightarrow> beyond fs f \<Longrightarrow> \<forall>g \<in> set fs. fr_persona g = fr_persona f \<longrightarrow> fr_last g < fr_first f \<Longrightarrow> shelf_step fs (fs @ [f])"
| shown: "f \<in> set fs \<Longrightarrow> fr_layer f = 1 \<Longrightarrow> fr_stand f = Raw \<Longrightarrow> shelf_step fs (show_leaf f fs)"
| target: "fr_layer t = 2 \<Longrightarrow> fr_sources t = Some ss \<Longrightarrow> \<forall>n \<in> set ss. n < fr_seq t \<Longrightarrow> fr_stand t = Raw \<Longrightarrow> 1 \<le> fr_first t \<Longrightarrow> fr_first t \<le> fr_last t
    \<Longrightarrow> beyond fs t \<Longrightarrow> ext t = (\<Union>s \<in> {s \<in> set fs. named_by t s}. ext s) \<Longrightarrow> shelf_step fs (fs @ [t])"
| folded: "t \<in> set fs \<Longrightarrow> fr_layer t = 2 \<Longrightarrow> fr_stand t = Raw \<Longrightarrow> \<forall>s \<in> set fs. named_by t s \<longrightarrow> fr_stand s = Shown
    \<Longrightarrow> shelf_step fs (fold_target t fs)"

inductive_cases shelf_stepE: "shelf_step fs fs'"

section \<open>The invariant\<close>

text \<open>What a step leaves of a fragment.\<close>

definition cols :: "frag \<Rightarrow> frag" where
  "cols f = f\<lparr>fr_stand := Raw\<rparr>"

lemma cols_eq:
  "cols f = cols g \<Longrightarrow> fr_persona f = fr_persona g \<and> fr_seq f = fr_seq g \<and> fr_layer f = fr_layer g \<and> fr_sources f = fr_sources g
     \<and> fr_first f = fr_first g \<and> fr_last f = fr_last g"
  by (cases f; cases g) (simp add: cols_def)

lemma cols_stand [simp]: "cols (f\<lparr>fr_stand := s\<rparr>) = cols f" "ext (f\<lparr>fr_stand := s\<rparr>) = ext f" "fr_key (f\<lparr>fr_stand := s\<rparr>) = fr_key f"
  by (simp_all add: cols_def ext_def fr_key_def)

lemma cols_of: "cols f = cols g \<Longrightarrow> ext f = ext g" "cols f = cols g \<Longrightarrow> fr_key f = fr_key g"
  by (drule cols_eq, simp add: ext_def fr_key_def)+

lemma named_cols: "cols f = cols g \<Longrightarrow> cols s = cols t \<Longrightarrow> named_by f s = named_by g t"
  by (drule cols_eq, drule cols_eq) (simp add: named_by_def)

lemma cols_image:
  assumes "map cols fs' = map cols fs" "f \<in> set fs"
  shows "\<exists>f' \<in> set fs'. cols f' = cols f"
proof -
  have "cols f \<in> set (map cols fs')" unfolding assms(1) using assms(2) by simp
  then show ?thesis by auto
qed

lemma named_union_cols:
  assumes "map cols fs' = map cols fs" "cols f' = cols f"
  shows "(\<Union>s \<in> {s \<in> set fs'. named_by f' s}. ext s) = (\<Union>s \<in> {s \<in> set fs. named_by f s}. ext s)"
proof -
  have "(\<Union>s \<in> {s \<in> set hs. named_by h s}. ext s) \<subseteq> (\<Union>s \<in> {s \<in> set gs. named_by g s}. ext s)"
    if m: "map cols gs = map cols hs" and c: "cols g = cols h" for g h gs hs
  proof
    fix x assume "x \<in> (\<Union>s \<in> {s \<in> set hs. named_by h s}. ext s)"
    then obtain s where s: "s \<in> set hs" "named_by h s" "x \<in> ext s" by blast
    from cols_image [OF m s(1)] obtain s' where s': "s' \<in> set gs" "cols s' = cols s" by blast
    then have "named_by g s'" "x \<in> ext s'" using s named_cols [OF c s'(2)] cols_of(1) [OF s'(2)] by simp_all
    with s'(1) show "x \<in> (\<Union>s \<in> {s \<in> set gs. named_by g s}. ext s)" by blast
  qed
  from this [OF assms] this [OF assms(1) [symmetric] assms(2) [symmetric]] show ?thesis by blast
qed

lemma wf_cols: "map cols fs' = map cols fs \<Longrightarrow> cols f' = cols f \<Longrightarrow> wf_frag fs' f' = wf_frag fs f"
  using named_union_cols [of fs' fs f' f] cols_eq [of f' f] cols_of(1) [of f' f] by (simp add: wf_frag_def)

lemma wf_all_cols:
  assumes "map cols fs' = map cols fs" "\<forall>f \<in> set fs. wf_frag fs f"
  shows "\<forall>f \<in> set fs'. wf_frag fs' f"
proof
  fix f' assume "f' \<in> set fs'"
  from cols_image [OF assms(1) [symmetric] this] obtain f where "f \<in> set fs" "cols f = cols f'" by blast
  with assms wf_cols show "wf_frag fs' f'" by metis
qed

lemma keyed_cols: "map cols fs' = map cols fs \<Longrightarrow> keyed fr_key fs' = keyed fr_key fs"
proof -
  have k: "map fr_key gs = map fr_key (map cols gs)" for gs by (simp add: fr_key_def cols_def)
  show "keyed fr_key fs' = keyed fr_key fs" if "map cols fs' = map cols fs"
    unfolding keyed_def by (subst (1 2) k) (simp only: that)
qed

lemma apart_cols:
  assumes "map cols fs' = map cols fs" "keyed fr_key fs" "apart_in (\<lambda>f. fr_layer f = 1) fs"
  shows "apart_in (\<lambda>f. fr_layer f = 1) fs'"
  unfolding apart_in_def
proof (intro ballI impI)
  fix f' g' assume f': "f' \<in> set fs'" and g': "g' \<in> set fs'" and l: "fr_layer f' = 1" "fr_layer g' = 1" and p: "fr_persona f' = fr_persona g'"
    and n: "f' \<noteq> g'"
  obtain f g where f: "f \<in> set fs" "cols f = cols f'" and g: "g \<in> set fs" "cols g = cols g'"
    using cols_image [OF assms(1) [symmetric] f'] cols_image [OF assms(1) [symmetric] g'] by blast
  have "f \<noteq> g"
  proof
    assume "f = g"
    then have "fr_key f' = fr_key g'" using f g cols_of(2) by metis
    moreover have "keyed fr_key fs'" using keyed_cols [OF assms(1)] assms(2) by simp
    ultimately show False using keyed_inj f' g' n by metis
  qed
  then have "ext f \<inter> ext g = {}"
    using assms(3) f g l p cols_eq [OF f(2)] cols_eq [OF g(2)] unfolding apart_in_def by metis
  then show "ext f' \<inter> ext g' = {}" using f g cols_of(1) by metis
qed

lemma cols_show [simp]: "map cols (show_leaf f fs) = map cols fs"
  by (simp add: show_leaf_def upd_def o_def if_distrib cong: if_cong)

lemma cols_fold [simp]: "map cols (fold_target t fs) = map cols fs"
  by (simp add: fold_target_def) (simp add: upd_def o_def if_distrib cong: if_cong)

lemma ext_finite_nonempty: "wf_frag fs f \<Longrightarrow> ext f \<noteq> {}"
  by (auto simp: wf_frag_def ext_def)

lemma shelf_leaves: "shelf_ok fs \<Longrightarrow> f \<in> set fs \<Longrightarrow> fr_stand f \<noteq> Raw \<Longrightarrow> ext f \<subseteq> leaves_at fs (fr_persona f)"
  and shelf_shown: "shelf_ok fs \<Longrightarrow> f \<in> set fs \<Longrightarrow> fr_stand f = Folded \<Longrightarrow> ext f \<subseteq> shown_at fs (fr_persona f)"
  by (simp_all add: shelf_ok_def)

text \<open>Adding a raw fragment that no target names.\<close>

lemma named_snoc:
  assumes "shelf_ok fs" "beyond fs f" "t \<in> set fs"
  shows "\<not> named_by t f"
proof
  assume "named_by t f"
  moreover have "wf_frag fs t" using assms(1,3) by (simp add: shelf_ok_def)
  ultimately have "fr_persona f = fr_persona t" "fr_seq f < fr_seq t" by (auto simp: named_by_def wf_frag_def)
  moreover have "fr_persona t = fr_persona f \<Longrightarrow> fr_seq t < fr_seq f" using assms(2,3) unfolding beyond_def by blast
  ultimately show False by simp
qed

lemma snoc_ok:
  assumes "shelf_ok fs" "beyond fs f" "fr_stand f = Raw" "wf_frag (fs @ [f]) f"
    "fr_layer f = 1 \<Longrightarrow> \<forall>g \<in> set fs. fr_persona g = fr_persona f \<longrightarrow> fr_last g < fr_first f"
  shows "shelf_ok (fs @ [f])"
proof -
  have key: "keyed fr_key (fs @ [f])"
    using assms(1,2) by (auto simp: shelf_ok_def keyed_snoc beyond_def fr_key_def)
  have "wf_frag (fs @ [f]) g" if "g \<in> set fs" for g
  proof -
    have "{s \<in> set (fs @ [f]). named_by g s} = {s \<in> set fs. named_by g s}" using named_snoc [OF assms(1,2) that] by auto
    moreover have "wf_frag fs g" using assms(1) that by (simp add: shelf_ok_def)
    ultimately show ?thesis by (simp add: wf_frag_def)
  qed
  with assms(4) have wf: "\<forall>g \<in> set (fs @ [f]). wf_frag (fs @ [f]) g" by simp
  have leaf: "apart_in (\<lambda>f. fr_layer f = 1) (fs @ [f])"
    using assms(1,5) by (fastforce simp: shelf_ok_def apart_in_def ext_def)
  have s: "shown_at (fs @ [f]) p = shown_at fs p" "leaves_at (fs @ [f]) p = leaves_at fs p" for p
    using assms(3) by (auto simp: shown_at_def leaves_at_def)
  have shown: "apart_in (\<lambda>f. fr_stand f = Shown) (fs @ [f])" using assms(1,3) by (auto simp: shelf_ok_def apart_in_def)
  show ?thesis using assms(1,3) key wf leaf shown unfolding shelf_ok_def s by simp
qed

text \<open>Rewriting in place: what of the invariant is left to show.\<close>

lemma in_place_ok:
  assumes "shelf_ok fs" "map cols fs' = map cols fs" "apart_in (\<lambda>f. fr_stand f = Shown) fs'"
    "\<And>f. f \<in> set fs' \<Longrightarrow> fr_stand f = Folded \<Longrightarrow> ext f \<subseteq> shown_at fs' (fr_persona f)"
    "\<And>f. f \<in> set fs' \<Longrightarrow> fr_stand f \<noteq> Raw \<Longrightarrow> ext f \<subseteq> leaves_at fs' (fr_persona f)"
  shows "shelf_ok fs'"
  using assms keyed_cols [OF assms(2)] wf_all_cols [OF assms(2)] apart_cols [OF assms(2)] unfolding shelf_ok_def by simp

lemma ext_stand_eq: "f = g\<lparr>fr_stand := s\<rparr> \<Longrightarrow> ext f = ext g"
  by simp

lemma set_show_leaf:
  assumes "keyed fr_key fs" "f \<in> set fs"
  shows "set (show_leaf f fs) = insert (f\<lparr>fr_stand := Shown\<rparr>) (set fs - {f})"
proof -
  have "fr_key g = fr_key f \<longleftrightarrow> g = f" if "g \<in> set fs" for g using keyed_inj [OF assms(1) that assms(2)] by auto
  with assms(2) show ?thesis by (auto simp: show_leaf_def set_upd)
qed

lemma show_ok:
  assumes ok: "shelf_ok fs" and f: "f \<in> set fs" "fr_layer f = 1" "fr_stand f = Raw"
  shows "shelf_ok (show_leaf f fs)"
proof (rule in_place_ok [OF ok cols_show])
  let ?fs = "show_leaf f fs" and ?f = "f\<lparr>fr_stand := Shown\<rparr>"
  have set: "set ?fs = insert ?f (set fs - {f})" by (rule set_show_leaf) (use ok f in \<open>simp_all add: shelf_ok_def\<close>)
  have grow: "shown_at fs p \<subseteq> shown_at ?fs p" "leaves_at fs p \<subseteq> leaves_at ?fs p" for p
    unfolding shown_at_def leaves_at_def set using f(3) by fastforce+
  have new: "ext f \<inter> ext g = {}" if g: "g \<in> set fs" "fr_stand g = Shown" "fr_persona g = fr_persona f" for g
  proof -
    have "ext f \<inter> ext h = {}" if h: "h \<in> set fs" "fr_persona h = fr_persona f" "fr_layer h = 1" "fr_stand h \<noteq> Raw" for h
      using ok f h unfolding shelf_ok_def apart_in_def by (metis (mono_tags, lifting))
    then have "ext f \<inter> leaves_at fs (fr_persona f) = {}" by (auto simp: leaves_at_def)
    moreover have "ext g \<subseteq> leaves_at fs (fr_persona g)" by (rule shelf_leaves [OF ok g(1)]) (simp add: g(2))
    ultimately show ?thesis using g(3) by auto
  qed
  show "apart_in (\<lambda>f. fr_stand f = Shown) ?fs"
    unfolding apart_in_def set
  proof (intro ballI impI)
    fix g h assume g: "g \<in> insert ?f (set fs - {f})" and h: "h \<in> insert ?f (set fs - {f})" and s: "fr_stand g = Shown" "fr_stand h = Shown"
      and p: "fr_persona g = fr_persona h" and n: "g \<noteq> h"
    have old: "apart_in (\<lambda>f. fr_stand f = Shown) fs" using ok by (simp add: shelf_ok_def)
    consider "g = ?f" "h \<in> set fs" | "h = ?f" "g \<in> set fs" | "g \<in> set fs" "h \<in> set fs" using g h n by blast
    then show "ext g \<inter> ext h = {}"
    proof cases
      case 1
      with new [of h] s p show ?thesis by simp
    next
      case 2
      with new [of g] s p show ?thesis by (simp add: Int_commute)
    next
      case 3
      with old s p n show ?thesis by (simp add: apart_in_def)
    qed
  qed
  show "ext g \<subseteq> shown_at ?fs (fr_persona g)" if "g \<in> set ?fs" "fr_stand g = Folded" for g
  proof -
    from that set have "g \<in> set fs" by auto
    with ok that have "ext g \<subseteq> shown_at fs (fr_persona g)" by (simp add: shelf_ok_def)
    with grow(1) show ?thesis by blast
  qed
  show "ext g \<subseteq> leaves_at ?fs (fr_persona g)" if g: "g \<in> set ?fs" "fr_stand g \<noteq> Raw" for g
  proof (cases "g = ?f")
    case True
    then show ?thesis using f(2) unfolding leaves_at_def set by auto
  next
    case False
    with g set have "g \<in> set fs" by auto
    then have "ext g \<subseteq> leaves_at fs (fr_persona g)" using shelf_leaves [OF ok _ g(2)] by blast
    with grow(2) show ?thesis by blast
  qed
qed

lemma fold_ok:
  assumes ok: "shelf_ok fs" and t: "t \<in> set fs" "fr_layer t = 2" "fr_stand t = Raw"
    and src: "\<forall>s \<in> set fs. named_by t s \<longrightarrow> fr_stand s = Shown"
  shows "shelf_ok (fold_target t fs)"
proof (rule in_place_ok [OF ok cols_fold])
  let ?g = "upd (named_by t) (\<lambda>g. g\<lparr>fr_stand := Folded\<rparr>) fs" and ?fs = "fold_target t fs"
  let ?t = "t\<lparr>fr_stand := Shown\<rparr>" and ?p = "fr_persona t"
  have nt: "\<not> named_by t t" using src t by auto
  have "set ?fs = insert ?t (set ?g - {t})"
    unfolding fold_target_def using ok t nt
    by (intro set_show_leaf) (auto simp: shelf_ok_def keyed_upd set_upd image_iff)
  moreover have "set ?g = {f \<in> set fs. \<not> named_by t f} \<union> {f\<lparr>fr_stand := Folded\<rparr> | f. f \<in> set fs \<and> named_by t f}"
    by (auto simp: set_upd)
  moreover have "t \<notin> {f\<lparr>fr_stand := Folded\<rparr> | f. f \<in> set fs \<and> named_by t f}" using t(3) by auto
  ultimately have set: "set ?fs = insert ?t ({f \<in> set fs. \<not> named_by t f \<and> f \<noteq> t} \<union> {f\<lparr>fr_stand := Folded\<rparr> | f. f \<in> set fs \<and> named_by t f})"
    by blast
  have "wf_frag fs t" using ok t by (simp add: shelf_ok_def)
  with t(2) have un: "ext t = (\<Union>s \<in> {s \<in> set fs. named_by t s}. ext s)" by (simp add: wf_frag_def)
  have new: "ext t \<inter> ext g = {}" if g: "g \<in> set fs" "fr_stand g = Shown" "fr_persona g = ?p" "\<not> named_by t g" for g
  proof -
    have "ext s \<inter> ext g = {}" if s: "s \<in> set fs" "named_by t s" for s
    proof -
      have "s \<noteq> g" "fr_stand s = Shown" "fr_persona s = fr_persona g" using g s src by (auto simp: named_by_def)
      with ok g s show ?thesis by (simp add: shelf_ok_def apart_in_def)
    qed
    with un show ?thesis by auto
  qed
  have keep: "shown_at fs p \<subseteq> shown_at ?fs p" for p
  proof
    fix x assume "x \<in> shown_at fs p"
    then obtain f where f: "f \<in> set fs" "fr_persona f = p" "fr_stand f = Shown" "x \<in> ext f" by (auto simp: shown_at_def)
    show "x \<in> shown_at ?fs p"
    proof (cases "named_by t f")
      case True
      then have "x \<in> ext ?t" "fr_persona ?t = p" using un f by (auto simp: named_by_def)
      then show ?thesis unfolding shown_at_def set by fastforce
    next
      case False
      moreover have "f \<noteq> t" using f t by auto
      ultimately show ?thesis using f unfolding shown_at_def set by blast
    qed
  qed
  have leaves: "leaves_at fs p \<subseteq> leaves_at ?fs p" for p
  proof
    fix x assume "x \<in> leaves_at fs p"
    then obtain f where f: "f \<in> set fs" "fr_persona f = p" "fr_layer f = 1" "fr_stand f \<noteq> Raw" "x \<in> ext f" by (auto simp: leaves_at_def)
    have "f \<noteq> t" using f t by auto
    show "x \<in> leaves_at ?fs p"
    proof (cases "named_by t f")
      case True
      then have "f\<lparr>fr_stand := Folded\<rparr> \<in> set ?fs" unfolding set using f by blast
      then show ?thesis unfolding leaves_at_def using f by fastforce
    next
      case False
      then show ?thesis using f \<open>f \<noteq> t\<close> unfolding leaves_at_def set by blast
    qed
  qed
  show "apart_in (\<lambda>f. fr_stand f = Shown) ?fs"
    unfolding apart_in_def
  proof (intro ballI impI)
    fix g h assume gh: "g \<in> set ?fs" "h \<in> set ?fs" and s: "fr_stand g = Shown" "fr_stand h = Shown"
      and p: "fr_persona g = fr_persona h" and n: "g \<noteq> h"
    have in': "f = ?t \<or> f \<in> set fs \<and> \<not> named_by t f" if "f \<in> set ?fs" "fr_stand f = Shown" for f
      using that unfolding set by auto
    consider "g = ?t" "h \<in> set fs" "\<not> named_by t h" | "h = ?t" "g \<in> set fs" "\<not> named_by t g" | "g \<in> set fs" "h \<in> set fs"
      using in' [OF gh(1) s(1)] in' [OF gh(2) s(2)] n by blast
    then show "ext g \<inter> ext h = {}"
    proof cases
      case 1
      with new [of h] s p show ?thesis by simp
    next
      case 2
      with new [of g] s p show ?thesis by (simp add: Int_commute)
    next
      case 3
      with ok s p n show ?thesis by (simp add: shelf_ok_def apart_in_def)
    qed
  qed
  show "ext f \<subseteq> shown_at ?fs (fr_persona f)" if f: "f \<in> set ?fs" "fr_stand f = Folded" for f
  proof -
    consider "f \<in> set fs" | h where "h \<in> set fs" "named_by t h" "f = h\<lparr>fr_stand := Folded\<rparr>" using f unfolding set by auto
    then show ?thesis
    proof cases
      case 1
      with ok f have "ext f \<subseteq> shown_at fs (fr_persona f)" by (simp add: shelf_ok_def)
      with keep show ?thesis by blast
    next
      case 2
      then have "ext f \<subseteq> shown_at fs (fr_persona f)" using src unfolding shown_at_def by auto
      with keep show ?thesis by blast
    qed
  qed
  show "ext f \<subseteq> leaves_at ?fs (fr_persona f)" if f: "f \<in> set ?fs" "fr_stand f \<noteq> Raw" for f
  proof -
    have old: "ext h \<subseteq> leaves_at fs (fr_persona h)" if "h \<in> set fs" "fr_stand h \<noteq> Raw" for h
      by (rule shelf_leaves [OF ok that])
    have srcs: "ext h \<subseteq> leaves_at fs ?p" if "h \<in> set fs" "named_by t h" for h
      using old [OF that(1)] src that by (auto simp: named_by_def)
    consider "f = ?t" | "f \<in> set fs" | h where "h \<in> set fs" "named_by t h" "f = h\<lparr>fr_stand := Folded\<rparr>" using f unfolding set by auto
    then have "ext f \<subseteq> leaves_at fs (fr_persona f)"
    proof cases
      case 1
      then show ?thesis using un srcs by auto
    next
      case 2
      with old f(2) show ?thesis by blast
    next
      case 3
      then show ?thesis using srcs by (auto simp: named_by_def)
    qed
    with leaves show ?thesis by blast
  qed
qed

text \<open>The invariant holds along every sequence of steps.\<close>

interpretation shelf: guarded_evolution shelf_step shelf_ok
proof
  show "shelf_ok fs'" if "shelf_step fs fs'" "shelf_ok fs" for fs fs'
    using that
  proof (induction rule: shelf_step.induct)
    case (seal f fs)
    then show ?case by (intro snoc_ok) (simp_all add: wf_frag_def)
  next
    case (shown f fs)
    then show ?case by (intro show_ok) simp_all
  next
    case (target t ss fs)
    have "\<not> named_by t t" using target(2,3) by (auto simp: named_by_def)
    then have "{s \<in> set (fs @ [t]). named_by t s} = {s \<in> set fs. named_by t s}" by auto
    with target show ?case by (intro snoc_ok) (simp_all add: wf_frag_def)
  next
    case (folded t fs)
    then show ?case by (intro fold_ok) simp_all
  qed
qed

text \<open>What it says: a position something represents is in exactly one shown fragment.\<close>

lemma represented_once:
  assumes "shelf_ok fs" "f \<in> set fs" "fr_persona f = p" "fr_stand f \<noteq> Raw" "x \<in> ext f"
  shows "\<exists>!g. g \<in> set fs \<and> fr_persona g = p \<and> fr_stand g = Shown \<and> x \<in> ext g"
proof -
  have "\<exists>g. g \<in> set fs \<and> fr_persona g = p \<and> fr_stand g = Shown \<and> x \<in> ext g"
  proof (cases "fr_stand f")
    case Folded
    with assms have "x \<in> shown_at fs p" by (auto simp: shelf_ok_def)
    then show ?thesis by (auto simp: shown_at_def)
  qed (use assms in auto)
  moreover have "g = h" if "g \<in> set fs \<and> fr_persona g = p \<and> fr_stand g = Shown \<and> x \<in> ext g"
    "h \<in> set fs \<and> fr_persona h = p \<and> fr_stand h = Shown \<and> x \<in> ext h" for g h
  proof (rule ccontr)
    assume "g \<noteq> h"
    with that assms(1) have "ext g \<inter> ext h = {}" by (simp add: shelf_ok_def apart_in_def)
    with that show False by blast
  qed
  ultimately show ?thesis by (metis (no_types, lifting))
qed

end
