(* ===== verification/Memory_Ledger.thy ===== *)
theory Memory_Ledger
  imports Memory_Shelf
begin

text \<open>
  Memory maintenance against the shelf. The seal walk partitions the unsealed journal into windows
  and a live tail, cuts only where no tool call waits and no round is open, and every write of
  \<open>maintainTx\<close>, \<open>ClaimMemoryBranch\<close>, \<open>SaveMemoryBranch\<close> and \<open>resumeMemory\<close> is a sequence of shelf steps.
  \<open>mem_ok\<close> is the invariant of the two tables.
\<close>

section \<open>The seal walk\<close>

definition window_est :: "mem_host \<Rightarrow> event_row list \<Rightarrow> int" where
  "window_est mh es = sum_list (map (\<lambda>e. estPayloadTokens mh (e_kind e) (e_payload e)) es)"

definition window_range :: "mem_host \<Rightarrow> event_row list \<Rightarrow> nat \<times> nat \<times> int" where
  "window_range mh es = (e_seq (hd es), e_seq (last es), window_est mh es)"

definition pending_calls :: "event_row list \<Rightarrow> string list" where
  "pending_calls es = fold track_call es []"

text \<open>A position where the walk may cut: no call pending before it, no round open across it.\<close>

definition cut_safe :: "mem_host \<Rightarrow> (string \<Rightarrow> nat option) \<Rightarrow> event_row list \<Rightarrow> nat \<Rightarrow> bool" where
  "cut_safe mh ends es k \<longleftrightarrow> k < length es \<and> pending_calls (take k es) = []
     \<and> (\<forall>e \<in> set (take k es). roundKey mh e \<noteq> [] \<longrightarrow> (\<forall>n. ends (roundKey mh e) = Some n \<longrightarrow> n < e_seq (es ! k)))"

definition walk_inv :: "mem_host \<Rightarrow> (string \<Rightarrow> nat option) \<Rightarrow> event_row list \<Rightarrow> event_row list list \<Rightarrow> seal_state \<Rightarrow> bool" where
  "walk_inv mh ends es ws w \<longleftrightarrow> concat ws @ wk_window w = es \<and> [] \<notin> set ws \<and> wk_sealed w = map (window_range mh) ws
     \<and> wk_est w = window_est mh (wk_window w)
     \<and> wk_start w = (case wk_window w of [] \<Rightarrow> -1 | e # _ \<Rightarrow> int (e_seq e))
     \<and> wk_pending w = pending_calls es
     \<and> (\<forall>e \<in> set es. roundKey mh e \<noteq> [] \<longrightarrow> (\<forall>n. ends (roundKey mh e) = Some n \<longrightarrow> int n \<le> wk_round_end w))
     \<and> (\<forall>us v vs. ws = us @ v # vs \<longrightarrow> cut_safe mh ends es (length (concat us @ v)))"

lemma cut_safe_snoc: "cut_safe mh ends es k \<Longrightarrow> cut_safe mh ends (es @ [e]) k"
  by (auto simp: cut_safe_def nth_append)

lemma walk_inv_0: "walk_inv mh ends [] [] walk0"
  by (simp add: walk_inv_def walk0_def window_est_def pending_calls_def)

lemma walk_join:
  assumes "walk_inv mh ends es ws w" "k = roundKey mh e" "r = (case ends k of None \<Rightarrow> 0 | Some s \<Rightarrow> int s)"
  shows "walk_inv mh ends (es @ [e]) ws
    (w\<lparr>wk_start := (if wk_start w < 0 then int (e_seq e) else wk_start w), wk_window := wk_window w @ [e],
       wk_est := wk_est w + estPayloadTokens mh (e_kind e) (e_payload e), wk_pending := track_call e (wk_pending w),
       wk_round_end := (if k \<noteq> [] \<and> wk_round_end w < r then r else wk_round_end w), wk_prev := e_kind e\<rparr>)"
  using assms unfolding walk_inv_def
  by (auto simp: window_est_def pending_calls_def cut_safe_snoc split: list.splits option.splits)

text \<open>The window is sealed just before the event that follows it.\<close>

lemma walk_cut_parts:
  assumes "walk_inv mh ends es ws w" "cuts e w"
  shows "wk_window w \<noteq> []" "pending_calls es = []"
    "\<forall>x \<in> set es. roundKey mh x \<noteq> [] \<longrightarrow> (\<forall>n. ends (roundKey mh x) = Some n \<longrightarrow> n < e_seq e)"
  using assms unfolding walk_inv_def cuts_def by (auto split: list.splits)

lemma walk_step_inv:
  assumes inv: "walk_inv mh ends es ws w"
  shows "\<exists>ws'. walk_inv mh ends (es @ [e]) ws' (walk_step mh ends e w)"
proof (cases "cuts e w")
  case False
  then show ?thesis
    using walk_join [OF inv refl refl, of e] by (auto simp: walk_step_def Let_def)
next
  case True
  note cp = walk_cut_parts [OF inv True]
  let ?ws = "ws @ [wk_window w]" and ?w = "walk_step mh ends e w"
  have es: "concat ws @ wk_window w = es" using inv by (simp add: walk_inv_def)
  have cut: "cut_safe mh ends (es @ [e]) (length es)" using cp(2,3) by (auto simp: cut_safe_def)
  have all: "cut_safe mh ends (es @ [e]) (length (concat us @ v))" if v: "?ws = us @ v # vs" for us v vs
  proof (cases vs rule: rev_cases)
    case Nil
    with v es cut show ?thesis by auto
  next
    case (snoc vs' y)
    with v have "ws = us @ v # vs'" by simp
    with inv have "cut_safe mh ends es (length (concat us @ v))" unfolding walk_inv_def by blast
    then show ?thesis by (rule cut_safe_snoc)
  qed
  have "walk_inv mh ends (es @ [e]) ?ws ?w"
    unfolding walk_inv_def
  proof (intro conjI)
    show "\<forall>us v vs. ?ws = us @ v # vs \<longrightarrow> cut_safe mh ends (es @ [e]) (length (concat us @ v))" using all by blast
    show "wk_sealed ?w = map (window_range mh) ?ws"
      using inv True cp(1)
      by (auto simp: walk_inv_def walk_step_def Let_def seal_window_def window_range_def split: list.splits)
    show "concat ?ws @ wk_window ?w = es @ [e]" using es True by (simp add: walk_step_def Let_def seal_window_def)
    show "[] \<notin> set ?ws" using inv cp(1) by (auto simp: walk_inv_def)
    show "\<forall>x \<in> set (es @ [e]). roundKey mh x \<noteq> [] \<longrightarrow> (\<forall>n. ends (roundKey mh x) = Some n \<longrightarrow> int n \<le> wk_round_end ?w)"
      using inv True by (auto simp: walk_inv_def walk_step_def Let_def seal_window_def)
  qed (use inv True in \<open>simp_all add: walk_inv_def walk_step_def Let_def seal_window_def window_est_def pending_calls_def\<close>)
  then show ?thesis by blast
qed

lemma walk_run: "\<exists>ws. walk_inv mh ends es ws (foldl (\<lambda>w e. walk_step mh ends e w) walk0 es)"
proof (induction es rule: rev_induct)
  case Nil
  show ?case using walk_inv_0 by auto
next
  case (snoc e es)
  then show ?case using walk_step_inv by fastforce
qed

lemma seal_walk_inv:
  obtains ws where "walk_inv mh (roundEnds mh es) es ws (seal_walk mh es)"
  using walk_run [of mh "roundEnds mh es" es] by (auto simp: seal_walk_def)

text \<open>A call before a safe cut has its result before it.\<close>

definition call_id :: "event_row \<Rightarrow> string option" where
  "call_id e = (case map_of (e_payload e) ''call_id'' of Some (JStr x) \<Rightarrow> Some x | _ \<Rightarrow> None)"

lemma track_call_alt:
  "set (track_call e pend) =
     (if e_kind e = ''tool_call'' then (case call_id e of Some x \<Rightarrow> if x = [] then set pend else insert x (set pend) | None \<Rightarrow> set pend)
      else if e_kind e = ''tool_result'' then (case call_id e of Some x \<Rightarrow> set pend - {x} | None \<Rightarrow> set pend)
      else set pend)"
  by (auto simp: track_call_def call_id_def split: option.splits json.splits)

lemma pending_answered:
  assumes "x \<in> set pend" "x \<notin> set (fold track_call es pend)"
  shows "\<exists>r \<in> set es. e_kind r = ''tool_result'' \<and> call_id r = Some x"
  using assms
proof (induction es arbitrary: pend)
  case (Cons e es)
  show ?case
  proof (cases "x \<in> set (track_call e pend)")
    case True
    with Cons show ?thesis by auto
  next
    case False
    with Cons.prems(1) show ?thesis by (auto simp: track_call_alt split: if_splits option.splits)
  qed
qed simp

lemma call_answered:
  assumes "pending_calls es = []" "es = us @ e # vs" "e_kind e = ''tool_call''" "call_id e = Some x" "x \<noteq> []"
  shows "\<exists>r \<in> set vs. e_kind r = ''tool_result'' \<and> call_id r = Some x"
proof (rule pending_answered)
  show "x \<in> set (track_call e (fold track_call us []))" using assms(3-5) by (simp add: track_call_alt)
  show "x \<notin> set (fold track_call vs (track_call e (fold track_call us [])))" using assms(1,2) by (simp add: pending_calls_def)
qed

text \<open>The recorded end of a round is the last of its positions.\<close>

lemma roundEnds_ge:
  assumes "sorted (map e_seq es)" "e \<in> set es" "roundKey mh e \<noteq> []"
  shows "\<exists>n. roundEnds mh es (roundKey mh e) = Some n \<and> e_seq e \<le> n"
  using assms
proof (induction es rule: rev_induct)
  case (snoc x es)
  then show ?case
    by (cases "e \<in> set es") (auto simp: roundEnds_def sorted_append)
qed simp

section \<open>The tables as a shelf\<close>

definition stand_of :: "chunk_status \<Rightarrow> stand" where
  "stand_of s = (case s of CApplied \<Rightarrow> Shown | CSuperseded \<Rightarrow> Folded | _ \<Rightarrow> Raw)"

definition frag_of :: "chunk_row \<Rightarrow> frag" where
  "frag_of c = \<lparr>fr_persona = mc_persona_id c, fr_seq = mc_chunk_seq c, fr_layer = mc_layer c, fr_sources = mc_sources c,
     fr_first = mc_first_seq c, fr_last = mc_last_seq c, fr_stand = stand_of (mc_status c)\<rparr>"

lemma frag_of_simps [simp]:
  "fr_persona (frag_of c) = mc_persona_id c" "fr_seq (frag_of c) = mc_chunk_seq c" "fr_layer (frag_of c) = mc_layer c"
  "fr_sources (frag_of c) = mc_sources c" "fr_first (frag_of c) = mc_first_seq c" "fr_last (frag_of c) = mc_last_seq c"
  "fr_stand (frag_of c) = stand_of (mc_status c)" "fr_key (frag_of c) = chunk_key c"
  by (simp_all add: frag_of_def fr_key_def)

lemma frag_of_status [simp]: "frag_of (c\<lparr>mc_status := s\<rparr>) = (frag_of c)\<lparr>fr_stand := stand_of s\<rparr>"
  by (simp add: frag_of_def)

lemma stand_of_simps [simp]: "stand_of CApplied = Shown" "stand_of CSuperseded = Folded" "stand_of CSealed = Raw"
  "stand_of CPreparing = Raw" "stand_of CPrepared = Raw" "stand_of CKept = Raw" "stand_of CFailed = Raw"
  by (simp_all add: stand_of_def)

lemma stand_of_iff: "stand_of s = Shown \<longleftrightarrow> s = CApplied" "stand_of s = Folded \<longleftrightarrow> s = CSuperseded"
  by (cases s; simp)+

text \<open>A chunk with an accepted text, and what may become of a chunk.\<close>

definition texted :: "chunk_row \<Rightarrow> bool" where
  "texted c \<longleftrightarrow> (mc_status c \<in> {CPrepared, CApplied, CSuperseded} \<longrightarrow> mc_replacement c \<noteq> None \<and> mc_replacement_est_tokens c \<noteq> None)"

definition chunk_cols :: "chunk_row \<Rightarrow> string \<times> nat \<times> nat \<times> nat list option \<times> nat \<times> nat \<times> int" where
  "chunk_cols c = (mc_persona_id c, mc_chunk_seq c, mc_layer c, mc_sources c, mc_first_seq c, mc_last_seq c, mc_est_tokens c)"

definition chunk_moved :: "chunk_row \<Rightarrow> chunk_row \<Rightarrow> bool" where
  "chunk_moved c d \<longleftrightarrow> chunk_cols d = chunk_cols c
     \<and> (mc_status c \<in> {CPrepared, CApplied, CSuperseded, CFailed} \<longrightarrow> mc_status d \<in> {CPrepared, CApplied, CSuperseded, CFailed}
          \<and> mc_replacement d = mc_replacement c \<and> mc_replacement_est_tokens d = mc_replacement_est_tokens c)
     \<and> (mc_status c = CApplied \<longrightarrow> mc_status d \<in> {CApplied, CSuperseded})
     \<and> (mc_status c \<in> {CSuperseded, CFailed} \<longrightarrow> mc_status d = mc_status c)"

definition ends_by :: "(string \<Rightarrow> nat) \<Rightarrow> chunk_row \<Rightarrow> bool" where
  "ends_by b c \<longleftrightarrow> mc_last_seq c \<le> b (mc_persona_id c)"

interpretation moved: row_evolution chunk_moved "ends_by b"
proof
  show "chunk_moved c c" for c by (simp add: chunk_moved_def)
  show "chunk_moved c e" if "chunk_moved c d" "chunk_moved d e" for c d e
    using that unfolding chunk_moved_def by (cases "mc_status c"; cases "mc_status d"; simp)
  show "ends_by b d" if "ends_by b c" "chunk_moved c d" for c d
    using that by (simp add: chunk_moved_def chunk_cols_def ends_by_def)
qed

definition preparing :: "chunk_row list \<Rightarrow> (string \<times> nat) set" where
  "preparing cs = chunk_key ` {c \<in> set cs. mc_status c = CPreparing}"

text \<open>A change of the chunk table: shelf steps, texts kept, nothing taken into or out of preparation.\<close>

definition mem_step :: "(string \<Rightarrow> nat) \<Rightarrow> chunk_row list \<Rightarrow> chunk_row list \<Rightarrow> bool" where
  "mem_step b cs ds \<longleftrightarrow> rtranclp shelf_step (map frag_of cs) (map frag_of ds) \<and> grows chunk_moved (ends_by b) cs ds
     \<and> (list_all texted cs \<longrightarrow> list_all texted ds) \<and> preparing ds = preparing cs"

lemma mem_step_refl: "mem_step b cs cs"
  by (simp add: mem_step_def moved.grows_refl)

lemma mem_step_trans: "mem_step b cs ds \<Longrightarrow> mem_step b ds es \<Longrightarrow> mem_step b cs es"
  unfolding mem_step_def using moved.grows_trans rtranclp_trans by metis

lemma frag_upd:
  assumes "\<And>c. c \<in> set cs \<Longrightarrow> P c = Q (frag_of c)" "\<And>c. c \<in> set cs \<Longrightarrow> P c \<Longrightarrow> frag_of (f c) = g (frag_of c)"
  shows "map frag_of (upd P f cs) = upd Q g (map frag_of cs)"
  using assms by (auto simp: upd_def)

lemma frag_upd_same:
  assumes "\<And>c. P c \<Longrightarrow> c \<in> set cs \<Longrightarrow> frag_of (f c) = frag_of c"
  shows "map frag_of (upd P f cs) = map frag_of cs"
  using assms by (auto simp: upd_def)

lemma keyed_frags: "keyed fr_key (map frag_of cs) = keyed chunk_key cs"
  by (simp add: keyed_def o_def)

text \<open>A row rewritten in place, in and out of preparation alike.\<close>

lemma mem_step_upd:
  assumes "rtranclp shelf_step (map frag_of cs) (map frag_of (upd P f cs))"
    "\<And>c. c \<in> set cs \<Longrightarrow> P c \<Longrightarrow> chunk_moved c (f c) \<and> (texted c \<longrightarrow> texted (f c)) \<and> mc_status c \<noteq> CPreparing \<and> mc_status (f c) \<noteq> CPreparing"
  shows "mem_step b cs (upd P f cs)"
proof -
  have "grows chunk_moved (ends_by b) cs (upd P f cs)" using assms(2) by (intro moved.grows_upd) blast
  moreover have "list_all texted cs \<longrightarrow> list_all texted (upd P f cs)" using assms(2) by (auto simp: list_all_iff set_upd)
  moreover have "{c \<in> set (upd P f cs). mc_status c = CPreparing} = {c \<in> set cs. mc_status c = CPreparing}"
    using assms(2) by (force simp: set_upd)
  then have "preparing (upd P f cs) = preparing cs" by (simp add: preparing_def)
  ultimately show ?thesis using assms(1) by (simp add: mem_step_def)
qed

text \<open>Showing one prepared leaf.\<close>

lemma apply_chunk_frags:
  assumes "keyed chunk_key (chunks db)" "c \<in> set (chunks db)" "mc_status c = CPrepared" "mc_persona_id c = p"
  shows "map frag_of (chunks (apply_chunk now p (mc_chunk_seq c) db)) = show_leaf (frag_of c) (map frag_of (chunks db))"
    "set (chunks (apply_chunk now p (mc_chunk_seq c) db))
       = insert (c\<lparr>mc_status := CApplied, mc_applied_at := Some now\<rparr>) (set (chunks db) - {c})"
proof -
  have i: "prepared_in p (mc_chunk_seq c) d \<longleftrightarrow> d = c" if "d \<in> set (chunks db)" for d
    using keyed_inj [OF assms(1) that assms(2)] assms(3,4) by (auto simp: prepared_in_def)
  have k: "(fr_key (frag_of d) = fr_key (frag_of c)) = (d = c)" if "d \<in> set (chunks db)" for d
    using keyed_inj [OF assms(1) that assms(2)] by auto
  show "map frag_of (chunks (apply_chunk now p (mc_chunk_seq c) db)) = show_leaf (frag_of c) (map frag_of (chunks db))"
    unfolding apply_chunk_def show_leaf_def
    by (simp del: frag_of_simps(8), rule frag_upd) (use i k in \<open>auto simp: frag_of_def\<close>)
  show "set (chunks (apply_chunk now p (mc_chunk_seq c) db))
       = insert (c\<lparr>mc_status := CApplied, mc_applied_at := Some now\<rparr>) (set (chunks db) - {c})"
    using i assms(2) by (auto simp: apply_chunk_def set_upd)
qed

lemma apply_chunk_moves:
  assumes "rtranclp shelf_step (map frag_of (chunks db)) (map frag_of (chunks (apply_chunk now p s db)))"
  shows "mem_step b (chunks db) (chunks (apply_chunk now p s db))"
proof -
  have "mem_step b (chunks db) (upd (prepared_in p s) (\<lambda>c. c\<lparr>mc_status := CApplied, mc_applied_at := Some now\<rparr>) (chunks db))"
    using assms by (intro mem_step_upd) (auto simp: apply_chunk_def prepared_in_def chunk_moved_def chunk_cols_def texted_def)
  then show ?thesis by (simp add: apply_chunk_def)
qed

lemma grows_keyed:
  assumes "mem_step b cs ds" "shelf_ok (map frag_of cs)"
  shows "keyed chunk_key ds" "shelf_ok (map frag_of ds)"
proof -
  have "rtranclp shelf_step (map frag_of cs) (map frag_of ds)" using assms(1) by (simp add: mem_step_def)
  from shelf.reach_I [OF this assms(2)] show "shelf_ok (map frag_of ds)" .
  then show "keyed chunk_key ds" by (simp add: shelf_ok_def keyed_frags)
qed

lemma apply_prepared_step:
  assumes "shelf_ok (map frag_of (chunks db))" "\<forall>c \<in> set cs. c \<in> set (chunks db) \<and> mc_persona_id c = p \<and> mc_layer c = 1 \<and> mc_status c = CPrepared"
    "distinct cs"
  shows "mem_step b (chunks db) (chunks (apply_prepared now p cs live db))"
  using assms
proof (induction cs arbitrary: live db)
  case (Cons c cs)
  show ?case
  proof (cases "live \<le> L0LiveLimitTokens")
    case True
    then show ?thesis by (simp add: mem_step_refl)
  next
    case False
    let ?d = "apply_chunk now p (mc_chunk_seq c) db"
    have k: "keyed chunk_key (chunks db)" using Cons.prems(1) by (simp add: shelf_ok_def keyed_frags)
    have c: "c \<in> set (chunks db)" "mc_persona_id c = p" "mc_layer c = 1" "mc_status c = CPrepared" using Cons.prems(2) by simp_all
    note f = apply_chunk_frags [OF k c(1,4,2), of now]
    have "shelf_step (map frag_of (chunks db)) (show_leaf (frag_of c) (map frag_of (chunks db)))"
      using c by (intro shelf_step.shown) simp_all
    then have s: "mem_step b (chunks db) (chunks ?d)" unfolding f(1) [symmetric] by (intro apply_chunk_moves) blast
    have rest: "\<forall>d \<in> set cs. d \<in> set (chunks ?d) \<and> mc_persona_id d = p \<and> mc_layer d = 1 \<and> mc_status d = CPrepared"
      using Cons.prems(2,3) unfolding f(2) by auto
    have "mem_step b (chunks ?d) (chunks (apply_prepared now p cs (live - mc_est_tokens c) ?d))"
      using Cons.prems(3) by (intro Cons.IH rest grows_keyed(2) [OF s Cons.prems(1)]) simp
    with s False show ?thesis by (auto intro: mem_step_trans)
  qed
qed (simp add: mem_step_refl)

lemma preparedChunks_rows:
  assumes "keyed chunk_key (chunks db)"
  shows "\<forall>c \<in> set (preparedChunks db p lay). c \<in> set (chunks db) \<and> mc_persona_id c = p \<and> lay (mc_layer c) \<and> mc_status c = CPrepared"
    "distinct (preparedChunks db p lay)"
  using assms by (auto simp: preparedChunks_def chunks_of_def keyed_def distinct_map)

lemma apply_live_step:
  assumes "shelf_ok (map frag_of (chunks db))"
  shows "mem_step b (chunks db) (chunks (apply_live now p est db))"
proof -
  have "keyed chunk_key (chunks db)" using assms by (simp add: shelf_ok_def keyed_frags)
  from preparedChunks_rows [OF this, of p "\<lambda>l. l = 1"] assms show ?thesis
    by (auto simp: apply_live_def Let_def mem_step_refl intro!: apply_prepared_step)
qed

section \<open>Sealing\<close>

lemma mem_step_snoc:
  assumes "shelf_step (map frag_of cs) (map frag_of cs @ [frag_of c])" "ends_by b c" "mc_status c = CSealed"
  shows "mem_step b cs (cs @ [c])"
proof -
  have "{d \<in> set (cs @ [c]). mc_status d = CPreparing} = {d \<in> set cs. mc_status d = CPreparing}" using assms(3) by auto
  then show ?thesis
    using assms by (auto simp: mem_step_def texted_def preparing_def intro: moved.grows_snoc)
qed

lemma sealed_windows_step:
  assumes "[] \<notin> set ws" "sorted_wrt (<) (map e_seq (concat ws))" "\<forall>e \<in> set (concat ws). bnd < e_seq e \<and> e_seq e \<le> b p"
    "\<forall>c \<in> set cs. mc_persona_id c = p \<longrightarrow> mc_last_seq c \<le> bnd \<and> mc_chunk_seq c \<le> s"
  shows "mem_step b cs (cs @ number_sealed now p s (map (window_range mh) ws))"
  using assms
proof (induction ws arbitrary: cs bnd s)
  case (Cons v ws)
  let ?c = "new_chunk now p (Suc s) 1 None (e_seq (hd v)) (e_seq (last v)) (window_est mh v)"
  have v: "v \<noteq> []" using Cons.prems(1) by auto
  have in_v: "hd v \<in> set v" "last v \<in> set v" using v by simp_all
  have le: "e_seq (hd v) \<le> e_seq (last v)"
  proof (cases v)
    case (Cons e es)
    show ?thesis
    proof (cases "es = []")
      case False
      then have "last v \<in> set es" by (simp add: Cons)
      then have "e_seq e < e_seq (last v)" using Cons.prems(2) by (simp add: Cons sorted_wrt_append)
      then show ?thesis by (simp add: Cons)
    qed (simp add: Cons)
  qed (simp add: v)
  have hd: "bnd < e_seq (hd v)" and lt: "e_seq (last v) \<le> b p" using Cons.prems(3) in_v by auto
  have "shelf_step (map frag_of cs) (map frag_of cs @ [frag_of ?c])"
    using Cons.prems(4) hd le by (intro shelf_step.seal) (fastforce simp: new_chunk_def beyond_def)+
  then have one: "mem_step b cs (cs @ [?c])" using lt by (intro mem_step_snoc) (simp_all add: new_chunk_def ends_by_def)
  have after: "e_seq (last v) < e_seq e" if "e \<in> set (concat ws)" for e
    using Cons.prems(2) in_v(2) that by (auto simp: sorted_wrt_append)
  have "mem_step b (cs @ [?c]) ((cs @ [?c]) @ number_sealed now p (Suc s) (map (window_range mh) ws))"
  proof (rule Cons.IH [where bnd = "e_seq (last v)"])
    show "\<forall>e \<in> set (concat ws). e_seq (last v) < e_seq e \<and> e_seq e \<le> b p" using after Cons.prems(3) by auto
    show "\<forall>c \<in> set (cs @ [?c]). mc_persona_id c = p \<longrightarrow> mc_last_seq c \<le> e_seq (last v) \<and> mc_chunk_seq c \<le> Suc s"
      using Cons.prems(4) hd le by (auto simp: new_chunk_def)
  qed (use Cons.prems in \<open>auto simp: sorted_wrt_append\<close>)
  then have "mem_step b (cs @ [?c]) (cs @ number_sealed now p s (map (window_range mh) (v # ws)))" by (simp add: window_range_def [of mh v])
  with one show ?case by (rule mem_step_trans)
qed (simp add: mem_step_refl)

text \<open>The unsealed journal in order.\<close>

lemma events_sorted:
  assumes "gapless db p"
  shows "sorted_wrt (<) (map e_seq (filter P (events_of db p)))"
proof -
  have "sorted_wrt (<) (map e_seq (events_of db p))" using assms by (simp add: gapless_def events_of_def del: upt_Suc)
  then show ?thesis by (simp add: sorted_wrt_map sorted_wrt_filter)
qed

lemma unsealedTail_eq:
  assumes "gapless db p"
  shows "unsealedTail db p s = filter (\<lambda>e. s < e_seq e) (events_of db p)"
proof -
  have "sorted (map e_seq (filter (\<lambda>e. s < e_seq e) (events_of db p)))"
    using events_sorted [OF assms] by (rule strict_sorted_imp_sorted)
  then show ?thesis by (simp add: unsealedTail_def sort_key_id_if_sorted)
qed

lemma events_of_last: "e \<in> set (events_of db p) \<Longrightarrow> e_seq e \<le> last_seq db p"
  by (auto simp: events_of_def last_seq_def intro: maxl_ge)

lemma chunks_of_bounds:
  "c \<in> set (chunks db) \<Longrightarrow> mc_persona_id c = p \<Longrightarrow> mc_last_seq c \<le> coveredSeq db p \<and> mc_chunk_seq c \<le> lastChunkSeq db p"
  by (auto simp: coveredSeq_def lastChunkSeq_def chunks_of_def intro: maxl_ge)

lemma seal_tail_step:
  assumes "gapless db p"
  shows "mem_step (last_seq db) (chunks db) (chunks (fst (seal_tail mh now p db)))"
proof -
  let ?t = "unsealedTail db p (coveredSeq db p)"
  obtain ws where "walk_inv mh (roundEnds mh ?t) ?t ws (seal_walk mh ?t)" by (rule seal_walk_inv)
  then have w: "concat ws @ wk_window (seal_walk mh ?t) = ?t" "[] \<notin> set ws" "wk_sealed (seal_walk mh ?t) = map (window_range mh) ws"
    by (simp_all add: walk_inv_def)
  have "sorted_wrt (<) (map e_seq ?t)" unfolding unsealedTail_eq [OF assms] by (rule events_sorted [OF assms])
  then have "sorted_wrt (<) (map e_seq (concat ws))" using w(1) by (metis map_append sorted_wrt_append)
  moreover have "\<forall>e \<in> set (concat ws). coveredSeq db p < e_seq e \<and> e_seq e \<le> last_seq db p"
  proof
    fix e assume "e \<in> set (concat ws)"
    then have "e \<in> set ?t" by (subst w(1) [symmetric]) simp
    then show "coveredSeq db p < e_seq e \<and> e_seq e \<le> last_seq db p"
      using events_of_last [of e db p] unfolding unsealedTail_eq [OF assms] by simp
  qed
  ultimately have "mem_step (last_seq db) (chunks db) (chunks db @ number_sealed now p (lastChunkSeq db p) (map (window_range mh) ws))"
    using w(2) chunks_of_bounds by (intro sealed_windows_step) blast+
  then show ?thesis by (simp add: seal_tail_def Let_def w(3))
qed

section \<open>Folding\<close>

lemma scan_sources_applied: "scan_sources cs (l, st) = (l', False) \<Longrightarrow> \<not> st \<and> (\<forall>c \<in> set cs. mc_status c = CApplied)"
proof (induction cs arbitrary: l st)
  case (Cons c cs)
  from Cons.prems have "scan_sources cs (if l = 0 then mc_layer c else l, st \<or> mc_status c \<noteq> CApplied \<or> (l \<noteq> 0 \<and> mc_layer c \<noteq> l)) = (l', False)"
    by (simp only: scan_sources.simps)
  from Cons.IH [OF this] show ?case by simp
qed simp

lemma named_frags:
  "named_by (frag_of t) (frag_of c) \<longleftrightarrow> mc_persona_id c = mc_persona_id t \<and> mc_chunk_seq c \<in> set (sources_of t)"
  by (cases "mc_sources t") (auto simp: named_by_def sources_of_def)

text \<open>The rows a target names, and the three ways its application ends.\<close>

definition selected_by :: "string \<Rightarrow> chunk_row \<Rightarrow> chunk_row \<Rightarrow> bool" where
  "selected_by p t c \<longleftrightarrow> mc_persona_id c = p \<and> mc_chunk_seq c \<in> set (sources_of t) \<and> mc_status c = CApplied"

definition fold_sources :: "string \<Rightarrow> chunk_row \<Rightarrow> 'd db \<Rightarrow> 'd db" where
  "fold_sources p t db = db\<lparr>chunks := upd (selected_by p t) (\<lambda>c. c\<lparr>mc_status := CSuperseded\<rparr>) (chunks db)\<rparr>"

definition fail_target :: "string \<Rightarrow> chunk_row \<Rightarrow> 'd db \<Rightarrow> 'd db" where
  "fail_target p t db = db\<lparr>chunks := upd (prepared_in p (mc_chunk_seq t))
     (\<lambda>c. c\<lparr>mc_status := CFailed, mc_last_error := Some staleTargetError\<rparr>) (chunks db)\<rparr>"

lemma applyUpperTarget_cases:
  assumes a: "applyUpperTarget now p t db = Inr db'"
  obtains (failed) "db' = fail_target p t db"
    | (shelved) "db' = db"
    | (folded) "\<forall>c \<in> set (chunks db). mc_persona_id c = p \<longrightarrow> mc_chunk_seq c \<in> set (sources_of t) \<longrightarrow> mc_status c = CApplied"
        "db' = apply_chunk now p (mc_chunk_seq t) (fold_sources p t db)"
proof -
  define srcs where "srcs = filter (\<lambda>c. mc_chunk_seq c \<in> set (sources_of t)) (chunks_of db p)"
  obtain l st where sc: "scan_sources srcs (0, length srcs \<noteq> length (sources_of t)) = (l, st)" by fastforce
  have sel: "(\<lambda>c. mc_persona_id c = p \<and> mc_chunk_seq c \<in> set (sources_of t) \<and> mc_status c = CApplied) = selected_by p t"
    by (simp add: selected_by_def fun_eq_iff)
  have a': "(if st \<or> (l \<noteq> 1 \<and> l \<noteq> 2) then Inr (fail_target p t db)
      else if appliedLayerTokens db p l \<le> (if l = 1 then L1LimitTokens else L2LimitTokens) then Inr db
      else if length (filter (selected_by p t) (chunks db)) \<noteq> length (sources_of t) then Inl (ErrMemoryConflict ''upper target lost sources mid-apply'')
      else Inr (apply_chunk now p (mc_chunk_seq t) (fold_sources p t db))) = Inr db'"
    using a unfolding applyUpperTarget_def Let_def srcs_def [symmetric] sc sel fail_target_def fold_sources_def by simp
  show thesis
  proof (cases "st \<or> (l \<noteq> 1 \<and> l \<noteq> 2)")
    case True
    with a' have "db' = fail_target p t db" by simp
    then show thesis by (rule failed)
  next
    case False
    show thesis
    proof (cases "appliedLayerTokens db p l \<le> (if l = 1 then L1LimitTokens else L2LimitTokens)")
      case True
      with a' have "db' = db" unfolding if_not_P [OF False] if_P [OF True] by simp
      then show thesis by (rule shelved)
    next
      case over: False
      from a' have "db' = apply_chunk now p (mc_chunk_seq t) (fold_sources p t db)"
        unfolding if_not_P [OF False] if_not_P [OF over]
        by (cases "length (filter (selected_by p t) (chunks db)) \<noteq> length (sources_of t)") simp_all
      moreover have "scan_sources srcs (0, length srcs \<noteq> length (sources_of t)) = (l, False)" using sc False by simp
      from scan_sources_applied [OF this]
      have "\<forall>c \<in> set (chunks db). mc_persona_id c = p \<longrightarrow> mc_chunk_seq c \<in> set (sources_of t) \<longrightarrow> mc_status c = CApplied"
        by (simp add: srcs_def chunks_of_def)
      ultimately show thesis by (intro folded) auto
    qed
  qed
qed

lemma fail_target_step:
  assumes "keyed chunk_key (chunks db)" "t \<in> set (chunks db)" "mc_persona_id t = p"
  shows "mem_step b (chunks db) (chunks (fail_target p t db))" "map chunk_key (chunks (fail_target p t db)) = map chunk_key (chunks db)"
    "\<And>d. d \<in> set (chunks db) \<Longrightarrow> d \<noteq> t \<Longrightarrow> d \<in> set (chunks (fail_target p t db))"
proof -
  let ?f = "\<lambda>c. c\<lparr>mc_status := CFailed, mc_last_error := Some staleTargetError\<rparr>" and ?P = "prepared_in p (mc_chunk_seq t)"
  have "map frag_of (upd ?P ?f (chunks db)) = map frag_of (chunks db)"
    by (rule frag_upd_same) (auto simp: prepared_in_def frag_of_def)
  then have "mem_step b (chunks db) (upd ?P ?f (chunks db))"
    by (intro mem_step_upd) (auto simp: prepared_in_def chunk_moved_def chunk_cols_def texted_def)
  then show "mem_step b (chunks db) (chunks (fail_target p t db))" by (simp add: fail_target_def)
  show "map chunk_key (chunks (fail_target p t db)) = map chunk_key (chunks db)" by (simp add: fail_target_def map_upd_key)
  show "d \<in> set (chunks (fail_target p t db))" if d: "d \<in> set (chunks db)" "d \<noteq> t" for d
  proof -
    have "\<not> ?P d" using keyed_inj [OF assms(1) d(1) assms(2)] d assms(3) by (auto simp: prepared_in_def)
    with d show ?thesis by (force simp: fail_target_def set_upd)
  qed
qed

lemma fold_step:
  assumes ok: "shelf_ok (map frag_of (chunks db))" and t: "t \<in> set (chunks db)" "mc_persona_id t = p" "2 \<le> mc_layer t" "mc_status t = CPrepared"
    and src: "\<forall>c \<in> set (chunks db). mc_persona_id c = p \<longrightarrow> mc_chunk_seq c \<in> set (sources_of t) \<longrightarrow> mc_status c = CApplied"
    and db': "db' = apply_chunk now p (mc_chunk_seq t) (fold_sources p t db)"
  shows "mem_step b (chunks db) (chunks db')" "map chunk_key (chunks db') = map chunk_key (chunks db)"
    "\<And>d. d \<in> set (chunks db) \<Longrightarrow> mc_status d = CPrepared \<Longrightarrow> d \<noteq> t \<Longrightarrow> d \<in> set (chunks db')"
proof -
  let ?db1 = "fold_sources p t db" and ?P = "prepared_in p (mc_chunk_seq t)"
  have kept: "d \<in> set (chunks ?db1)" if "d \<in> set (chunks db)" "mc_status d = CPrepared" for d
    using that by (force simp: fold_sources_def set_upd selected_by_def)
  note t1 = kept [OF t(1,4)]
  have "keyed chunk_key (chunks db)" using ok by (simp add: shelf_ok_def keyed_frags)
  then have k1: "keyed chunk_key (chunks ?db1)" by (simp add: fold_sources_def keyed_upd)
  note ap = apply_chunk_frags [OF k1 t1 t(4,2), of now]
  have fr1: "map frag_of (chunks ?db1) = upd (named_by (frag_of t)) (\<lambda>f. f\<lparr>fr_stand := Folded\<rparr>) (map frag_of (chunks db))"
    unfolding fold_sources_def using src t by (simp, intro frag_upd) (auto simp: named_frags selected_by_def)
  have "wf_frag (map frag_of (chunks db)) (frag_of t)" using ok t by (simp add: shelf_ok_def)
  then have "mc_layer t = 2" using t(3) by (auto simp: wf_frag_def)
  then have "shelf_step (map frag_of (chunks db)) (fold_target (frag_of t) (map frag_of (chunks db)))"
    using t src by (intro shelf_step.folded) (auto simp: named_frags)
  then have "shelf_step (map frag_of (chunks db)) (map frag_of (chunks db'))"
    unfolding db' ap(1) fr1 fold_target_def .
  moreover have g1: "grows chunk_moved (ends_by b) (chunks db) (chunks ?db1)"
    unfolding fold_sources_def by (simp, intro moved.grows_upd) (auto simp: chunk_moved_def chunk_cols_def selected_by_def)
  moreover have g2: "grows chunk_moved (ends_by b) (chunks ?db1) (chunks db')"
    unfolding db' apply_chunk_def by (simp, intro moved.grows_upd) (auto simp: prepared_in_def chunk_moved_def chunk_cols_def)
  moreover have "list_all texted (chunks db) \<longrightarrow> list_all texted (chunks ?db1)"
    by (auto simp: list_all_iff fold_sources_def set_upd texted_def selected_by_def)
  moreover have "list_all texted (chunks ?db1) \<longrightarrow> list_all texted (chunks db')"
    unfolding db' ap(2) list_all_iff
  proof
    assume a: "\<forall>c \<in> set (chunks ?db1). texted c"
    then have "texted (t\<lparr>mc_status := CApplied, mc_applied_at := Some now\<rparr>)" using t1 t(4) by (simp add: texted_def)
    with a show "\<forall>c \<in> insert (t\<lparr>mc_status := CApplied, mc_applied_at := Some now\<rparr>) (set (chunks ?db1) - {t}). texted c" by blast
  qed
  moreover have "{c \<in> set (chunks ?db1). mc_status c = CPreparing} = {c \<in> set (chunks db). mc_status c = CPreparing}"
    by (force simp: fold_sources_def set_upd selected_by_def)
  moreover have "{c \<in> set (chunks db'). mc_status c = CPreparing} = {c \<in> set (chunks ?db1). mc_status c = CPreparing}"
    unfolding db' ap(2) using t(4) by auto
  ultimately show "mem_step b (chunks db) (chunks db')"
    using moved.grows_trans [OF g1 g2] by (auto simp: mem_step_def preparing_def)
  show "map chunk_key (chunks db') = map chunk_key (chunks db)"
    by (simp add: db' apply_chunk_def fold_sources_def map_upd_key)
  show "d \<in> set (chunks db')" if "d \<in> set (chunks db)" "mc_status d = CPrepared" "d \<noteq> t" for d
    using kept [OF that(1,2)] that(3) unfolding db' ap(2) by simp
qed

lemma applyUpperTarget_step:
  assumes ok: "shelf_ok (map frag_of (chunks db))" and t: "t \<in> set (chunks db)" "mc_persona_id t = p" "2 \<le> mc_layer t" "mc_status t = CPrepared"
    and a: "applyUpperTarget now p t db = Inr db'"
  shows "mem_step b (chunks db) (chunks db') \<and> map chunk_key (chunks db') = map chunk_key (chunks db)
    \<and> (\<forall>d \<in> set (chunks db). mc_status d = CPrepared \<longrightarrow> d \<noteq> t \<longrightarrow> d \<in> set (chunks db'))"
proof -
  have k: "keyed chunk_key (chunks db)" using ok by (simp add: shelf_ok_def keyed_frags)
  from a show ?thesis
  proof (cases rule: applyUpperTarget_cases)
    case failed
    with fail_target_step [OF k t(1,2)] show ?thesis by auto
  next
    case shelved
    then show ?thesis by (simp add: mem_step_refl)
  next
    case folded
    with fold_step [OF ok t folded] show ?thesis by auto
  qed
qed

lemma chunks_same: "\<exists>cs. db = db\<lparr>chunks := cs\<rparr>"
  by (rule exI [of _ "chunks db"]) simp

lemma apply_upper_step:
  assumes "shelf_ok (map frag_of (chunks db))"
    "\<forall>c \<in> set ts. c \<in> set (chunks db) \<and> mc_persona_id c = p \<and> 2 \<le> mc_layer c \<and> mc_status c = CPrepared" "distinct ts"
    "apply_upper now p ts db = Inr db'"
  shows "mem_step b (chunks db) (chunks db') \<and> map chunk_key (chunks db') = map chunk_key (chunks db)"
  using assms
proof (induction ts arbitrary: db)
  case Nil
  then show ?case by (simp add: mem_step_refl)
next
  case (Cons t ts)
  from Cons.prems(4) obtain db1 where a: "applyUpperTarget now p t db = Inr db1" and r: "apply_upper now p ts db1 = Inr db'"
    by (auto simp: rbind_eq_Inr)
  have t: "t \<in> set (chunks db)" "mc_persona_id t = p" "2 \<le> mc_layer t" "mc_status t = CPrepared" using Cons.prems(2) by simp_all
  note st = applyUpperTarget_step [OF Cons.prems(1) t a, of b]
  then have m: "mem_step b (chunks db) (chunks db1)" by blast
  have rest: "\<forall>c \<in> set ts. c \<in> set (chunks db1) \<and> mc_persona_id c = p \<and> 2 \<le> mc_layer c \<and> mc_status c = CPrepared"
    using Cons.prems(2,3) st by auto
  have "mem_step b (chunks db1) (chunks db') \<and> map chunk_key (chunks db') = map chunk_key (chunks db1)"
    using Cons.prems(3) by (intro Cons.IH [OF grows_keyed(2) [OF m Cons.prems(1)] rest _ r]) simp
  with st m show ?case using mem_step_trans [OF m] by auto
qed

section \<open>Upper targets\<close>

definition adjoining :: "chunk_row list \<Rightarrow> bool" where
  "adjoining g \<longleftrightarrow> successively (\<lambda>a b. mc_first_seq b = Suc (mc_last_seq a)) g"

lemma extend_group_props:
  assumes "extend_group whole excess g consumed fs = (g', c', fs')" "g \<noteq> []" "adjoining g"
  shows "g' \<noteq> [] \<and> adjoining g' \<and> set g' \<subseteq> set g \<union> set fs \<and> set fs' \<subseteq> set fs"
  using assms
proof (induction fs arbitrary: g consumed)
  case (Cons f fs)
  show ?case
  proof (cases "mc_first_seq f = mc_last_seq (last g) + 1 \<and> (whole \<or> consumed < excess)")
    case True
    then have e: "extend_group whole excess (g @ [f]) (consumed + rest_tokens f) fs = (g', c', fs')" using Cons.prems(1) by simp
    have "adjoining (g @ [f])" using Cons.prems(2,3) True by (simp add: adjoining_def successively_append_iff)
    from Cons.IH [OF e _ this] show ?thesis by auto
  next
    case False
    with Cons.prems show ?thesis by auto
  qed
qed simp

lemma pick_group_props:
  "pick_group judged whole excess fs = Some (g, consumed) \<Longrightarrow> g \<noteq> [] \<and> adjoining g \<and> set g \<subseteq> set fs \<and> \<not> judged (map mc_chunk_seq g)"
proof (induction judged whole excess fs arbitrary: g consumed rule: pick_group.induct)
  case (2 judged whole excess f fs)
  obtain h c rest where e: "extend_group whole excess [f] (rest_tokens f) fs = (h, c, rest)" by (metis prod_cases3)
  have p: "h \<noteq> [] \<and> adjoining h \<and> set h \<subseteq> set [f] \<union> set fs \<and> set rest \<subseteq> set fs"
    using extend_group_props [OF e] by (simp add: adjoining_def)
  show ?case
  proof (cases "judged (map mc_chunk_seq h)")
    case True
    with "2.prems" e have "pick_group judged whole excess rest = Some (g, consumed)" by simp
    with "2.IH" [OF e [symmetric] refl True] p show ?thesis by auto
  next
    case False
    with "2.prems" e p show ?thesis by auto
  qed
qed simp

lemma adjoining_span:
  assumes "g \<noteq> []" "adjoining g" "\<forall>c \<in> set g. mc_first_seq c \<le> mc_last_seq c"
  shows "(\<Union>c \<in> set g. {mc_first_seq c .. mc_last_seq c}) = {mc_first_seq (hd g) .. mc_last_seq (last g)} \<and> mc_first_seq (hd g) \<le> mc_last_seq (last g)"
  using assms
proof (induction g rule: rev_nonempty_induct)
  case (single c)
  then show ?case by simp
next
  case (snoc c g)
  have a: "adjoining g" "mc_first_seq c = Suc (mc_last_seq (last g))"
    using snoc.prems(1) snoc.hyps by (simp_all add: adjoining_def successively_append_iff)
  have le: "mc_first_seq c \<le> mc_last_seq c" using snoc.prems(2) by simp
  have IH: "(\<Union>c \<in> set g. {mc_first_seq c .. mc_last_seq c}) = {mc_first_seq (hd g) .. mc_last_seq (last g)}" "mc_first_seq (hd g) \<le> mc_last_seq (last g)"
    using snoc.IH a(1) snoc.prems(2) by simp_all
  have "(\<Union>c \<in> set (g @ [c]). {mc_first_seq c .. mc_last_seq c}) = {mc_first_seq (hd g) .. mc_last_seq (last g)} \<union> {Suc (mc_last_seq (last g)) .. mc_last_seq c}"
    using IH(1) by (auto simp: a(2))
  also have "\<dots> = {mc_first_seq (hd g) .. mc_last_seq c}" using IH(2) le a(2) by auto
  finally show ?case using snoc.hyps IH(2) le a(2) by (simp add: hd_append)
qed

lemma select_layer_rows:
  assumes "select_layer now p s layer limit dropTo whole db = Inr (Some t)"
  obtains g consumed where "t = target_of now p (Suc s) g consumed" "g \<noteq> []" "adjoining g"
    "\<forall>c \<in> set g. c \<in> set (chunks db) \<and> mc_persona_id c = p \<and> mc_status c = CApplied \<and> mc_layer c = layer"
    "\<not> settled_target db p (map mc_chunk_seq g)" "limit < appliedLayerTokens db p layer"
proof -
  from assms obtain g consumed where t: "t = target_of now p (Suc s) g consumed" and l: "limit < appliedLayerTokens db p layer"
    and g: "pick_group (settled_target db p) whole (appliedLayerTokens db p layer - dropTo) (appliedFragments db p layer) = Some (g, consumed)"
    by (auto simp: select_layer_def Let_def split: if_splits)
  have "\<forall>c \<in> set (appliedFragments db p layer). c \<in> set (chunks db) \<and> mc_persona_id c = p \<and> mc_status c = CApplied \<and> mc_layer c = layer"
    by (auto simp: appliedFragments_def chunks_of_def)
  with pick_group_props [OF g] t l show thesis by (intro that) blast+
qed

lemma target_step:
  assumes ok: "shelf_ok (map frag_of (chunks db))" and ends: "\<forall>c \<in> set (chunks db). ends_by b c"
    and s: "\<forall>c \<in> set (chunks db). mc_persona_id c = p \<longrightarrow> mc_chunk_seq c \<le> s"
    and t: "select_layer now p s layer limit dropTo whole db = Inr (Some t)"
  shows "mem_step b (chunks db) (chunks db @ [t])"
proof -
  from t obtain g consumed where t: "t = target_of now p (Suc s) g consumed" "g \<noteq> []" "adjoining g"
    and g: "\<forall>c \<in> set g. c \<in> set (chunks db) \<and> mc_persona_id c = p \<and> mc_status c = CApplied \<and> mc_layer c = layer"
    by (rule select_layer_rows)
  have k: "keyed chunk_key (chunks db)" using ok by (simp add: shelf_ok_def keyed_frags)
  have wf: "mc_first_seq c \<le> mc_last_seq c" "1 \<le> mc_first_seq c" if "c \<in> set (chunks db)" for c
    using ok that by (auto simp: shelf_ok_def wf_frag_def)
  note span = adjoining_span [OF t(2,3)]
  have sp: "(\<Union>c \<in> set g. ext (frag_of c)) = ext (frag_of t)" "mc_first_seq (hd g) \<le> mc_last_seq (last g)"
    using span wf g by (auto simp: ext_def t(1) target_of_def new_chunk_def)
  have "c \<in> set g" if c: "c \<in> set (chunks db)" "mc_persona_id c = p" "mc_chunk_seq c \<in> mc_chunk_seq ` set g" for c
  proof -
    from c(3) obtain d where d: "d \<in> set g" "mc_chunk_seq c = mc_chunk_seq d" by blast
    with g c have "c = d" using keyed_inj [OF k c(1), of d] by auto
    with d show ?thesis by simp
  qed
  then have "{f \<in> set (map frag_of (chunks db)). named_by (frag_of t) f} = frag_of ` set g"
    using g by (auto simp: named_frags t(1) target_of_def new_chunk_def sources_of_def)
  then have un: "ext (frag_of t) = (\<Union>f \<in> {f \<in> set (map frag_of (chunks db)). named_by (frag_of t) f}. ext f)" using sp(1) by simp
  have hd: "hd g \<in> set (chunks db)" "last g \<in> set (chunks db)" using g t(2) by simp_all
  have "shelf_step (map frag_of (chunks db)) (map frag_of (chunks db) @ [frag_of t])"
  proof (rule shelf_step.target [where ss = "map mc_chunk_seq g"])
    show "\<forall>n \<in> set (map mc_chunk_seq g). n < fr_seq (frag_of t)"
      using g s by (auto simp: t(1) target_of_def new_chunk_def less_Suc_eq_le)
    show "beyond (map frag_of (chunks db)) (frag_of t)"
      using s by (auto simp: beyond_def t(1) target_of_def new_chunk_def less_Suc_eq_le)
    show "ext (frag_of t) = (\<Union>f \<in> {f \<in> set (map frag_of (chunks db)). named_by (frag_of t) f}. ext f)" by (rule un)
  qed (use wf [OF hd(1)] sp(2) in \<open>simp_all add: t(1) target_of_def new_chunk_def\<close>)
  moreover have "mc_persona_id (last g) = p" using g t(2) by simp
  then have "ends_by b t" using ends hd(2) by (auto simp: ends_by_def t(1) target_of_def new_chunk_def)
  ultimately show ?thesis by (rule mem_step_snoc) (simp add: t(1) target_of_def new_chunk_def)
qed

lemma prepareUpperTarget_cases:
  assumes "prepareUpperTarget now p s db = Inr db'"
  obtains (none) "db' = db"
    | (laid) t layer limit dropTo whole where "db' = db\<lparr>chunks := chunks db @ [t]\<rparr>"
        "select_layer now p s layer limit dropTo whole db = Inr (Some t)"
proof -
  let ?sel = "\<lambda>layer limit dropTo whole. select_layer now p s layer limit dropTo whole db"
  have sel: "db' = db \<or> (\<exists>t. db' = db\<lparr>chunks := chunks db @ [t]\<rparr> \<and> (\<exists>layer limit dropTo whole. ?sel layer limit dropTo whole = Inr (Some t)))"
  proof (cases "upper_busy db p")
    case True
    with assms show ?thesis by (simp add: prepareUpperTarget_def)
  next
    case False
    with assms obtain t1 where t1: "?sel 1 L1LimitTokens L1DropToTokens False = Inr t1"
      and r: "(case t1 of Some t \<Rightarrow> Inr (db\<lparr>chunks := chunks db @ [t]\<rparr>)
        | None \<Rightarrow> rbind (?sel 2 L2LimitTokens L2LimitTokens True) (\<lambda>t2.
            case t2 of Some t \<Rightarrow> Inr (db\<lparr>chunks := chunks db @ [t]\<rparr>) | None \<Rightarrow> Inr db)) = Inr db'"
      by (auto simp: prepareUpperTarget_def rbind_eq_Inr)
    show ?thesis
    proof (cases t1)
      case (Some t)
      with r have "db' = db\<lparr>chunks := chunks db @ [t]\<rparr>" by simp
      with t1 Some show ?thesis by blast
    next
      case None
      from r [unfolded None option.case rbind_eq_Inr] obtain t2 where t2: "?sel 2 L2LimitTokens L2LimitTokens True = Inr t2"
        "(case t2 of Some t \<Rightarrow> Inr (db\<lparr>chunks := chunks db @ [t]\<rparr>) | None \<Rightarrow> Inr db) = (Inr db' :: err + 'a db)" by blast
      show ?thesis
      proof (cases t2)
        case (Some t)
        with t2 have "db' = db\<lparr>chunks := chunks db @ [t]\<rparr>" by simp
        with t2 Some show ?thesis by blast
      next
        case None
        with t2 show ?thesis by simp
      qed
    qed
  qed
  then show thesis using none laid by blast
qed

lemma prepareUpperTarget_step:
  assumes "shelf_ok (map frag_of (chunks db))" "\<forall>c \<in> set (chunks db). ends_by b c"
    "\<forall>c \<in> set (chunks db). mc_persona_id c = p \<longrightarrow> mc_chunk_seq c \<le> s" "prepareUpperTarget now p s db = Inr db'"
  shows "mem_step b (chunks db) (chunks db')"
  using assms(4)
proof (cases rule: prepareUpperTarget_cases)
  case none
  then show ?thesis by (simp add: mem_step_refl)
next
  case laid
  with target_step [OF assms(1-3) laid(2)] show ?thesis by simp
qed

lemma prepareUpperTarget_frame: "prepareUpperTarget now p s db = Inr db' \<Longrightarrow> \<exists>cs. db' = db\<lparr>chunks := cs\<rparr>"
  using chunks_same by (auto elim!: prepareUpperTarget_cases)

lemma applyUpperTarget_frame: "applyUpperTarget now p t db = Inr db' \<Longrightarrow> \<exists>cs. db' = db\<lparr>chunks := cs\<rparr>"
proof (elim applyUpperTarget_cases)
  show "db' = db \<Longrightarrow> \<exists>cs. db' = db\<lparr>chunks := cs\<rparr>" using chunks_same by blast
qed (auto simp: fail_target_def fold_sources_def apply_chunk_def)

lemma apply_upper_frame: "apply_upper now p ts db = Inr db' \<Longrightarrow> \<exists>cs. db' = db\<lparr>chunks := cs\<rparr>"
proof (induction ts arbitrary: db)
  case Nil
  then have "db' = db" by simp
  with chunks_same [of db] show ?case by simp
next
  case (Cons t ts)
  from Cons.prems obtain db1 where a: "applyUpperTarget now p t db = Inr db1" and r: "apply_upper now p ts db1 = Inr db'"
    by (auto simp: rbind_eq_Inr)
  from applyUpperTarget_frame [OF a] Cons.IH [OF r] show ?case by auto
qed

section \<open>The invariant of the tables\<close>

definition one_preparing :: "chunk_row list \<Rightarrow> bool" where
  "one_preparing cs \<longleftrightarrow> (\<forall>k \<in> preparing cs. \<forall>l \<in> preparing cs. fst k = fst l \<longrightarrow> k = l)"

definition mem_ok :: "'d db \<Rightarrow> bool" where
  "mem_ok db \<longleftrightarrow> shelf_ok (map frag_of (chunks db)) \<and> list_all texted (chunks db) \<and> list_all (ends_by (last_seq db)) (chunks db)
     \<and> (\<forall>p. gapless db p) \<and> keyed branch_key (branches db)
     \<and> preparing (chunks db) \<subseteq> branch_key ` set (branches db) \<and> one_preparing (chunks db)"

definition mem_lawful :: "'d db \<Rightarrow> 'd db \<Rightarrow> bool" where
  "mem_lawful db db' \<longleftrightarrow> (mem_ok db \<longrightarrow> mem_ok db' \<and> grows chunk_moved (\<lambda>_. True) (chunks db) (chunks db'))"

interpretation drift: row_evolution chunk_moved "\<lambda>_. True"
  by unfold_locales (auto intro: moved.R_refl moved.R_trans)

lemma mem_lawful_refl [simp]: "mem_lawful db db"
  by (simp add: mem_lawful_def drift.grows_refl)

lemma mem_lawful_trans: "mem_lawful a b \<Longrightarrow> mem_lawful b c \<Longrightarrow> mem_lawful a c"
  unfolding mem_lawful_def using drift.grows_trans by blast

lemma grows_any: "grows R N xs ys \<Longrightarrow> grows R (\<lambda>_. True) xs ys"
  by (simp add: grows_def list.pred_True)

lemma mem_okD:
  assumes "mem_ok db"
  shows "keyed chunk_key (chunks db)" "shelf_ok (map frag_of (chunks db))" "gapless db p"
  using assms by (simp_all add: mem_ok_def shelf_ok_def keyed_frags)

text \<open>A deployment that has journaled nothing has no memory to keep.\<close>

lemma no_memory_ok: "chunks db = [] \<Longrightarrow> branches db = [] \<Longrightarrow> events db = [] \<Longrightarrow> mem_ok db"
  by (simp add: mem_ok_def shelf_ok_def gapless_def one_preparing_def preparing_def keyed_def apart_in_def)

lemma last_seq_events: "events db' = events db \<Longrightarrow> last_seq db' = last_seq db"
  by (simp add: last_seq_def fun_eq_iff)

lemma gapless_same_events: "events db' = events db \<Longrightarrow> gapless db' p = gapless db p"
  by (simp add: gapless_def)

lemma grows_ends:
  assumes "grows chunk_moved (ends_by b) cs ds" "list_all (ends_by b) cs"
  shows "list_all (ends_by b) ds"
proof -
  have "ends_by b d" if "d \<in> set ds" for d
    using grows_new [OF assms(1) that] assms(2) moved.N_stable by (auto simp: list_all_iff)
  then show ?thesis by (simp add: list_all_iff)
qed

text \<open>A change of the chunk table alone.\<close>

lemma mem_step_lawful:
  assumes "mem_step (last_seq db) (chunks db) (chunks db')" "events db' = events db" "branches db' = branches db"
  shows "mem_lawful db db'"
  unfolding mem_lawful_def
proof
  assume ok: "mem_ok db"
  from assms(1) have m: "grows chunk_moved (ends_by (last_seq db)) (chunks db) (chunks db')"
    "list_all texted (chunks db) \<longrightarrow> list_all texted (chunks db')" "preparing (chunks db') = preparing (chunks db)"
    by (simp_all add: mem_step_def)
  have "shelf_ok (map frag_of (chunks db'))" by (rule grows_keyed(2) [OF assms(1) mem_okD(2) [OF ok]])
  moreover have "list_all (ends_by (last_seq db')) (chunks db')"
    using grows_ends [OF m(1)] ok by (simp add: mem_ok_def last_seq_events [OF assms(2)])
  ultimately show "mem_ok db' \<and> grows chunk_moved (\<lambda>_. True) (chunks db) (chunks db')"
    using ok m(2,3) grows_any [OF m(1)] by (simp add: mem_ok_def assms(3) one_preparing_def gapless_same_events [OF assms(2)])
qed

text \<open>Rows rewritten where they stand on the shelf, with branches of any content.\<close>

lemma mem_lawful_in_place:
  assumes c: "chunks db' = upd P f (chunks db)"
    and f: "mem_ok db \<Longrightarrow> (\<And>c. c \<in> set (chunks db) \<Longrightarrow> P c \<Longrightarrow> chunk_moved c (f c) \<and> frag_of (f c) = frag_of c \<and> (texted c \<longrightarrow> texted (f c)))"
    and e: "events db' = events db"
    and b: "mem_ok db \<Longrightarrow> keyed branch_key (branches db') \<and> preparing (chunks db') \<subseteq> branch_key ` set (branches db') \<and> one_preparing (chunks db')"
  shows "mem_lawful db db'"
  unfolding mem_lawful_def
proof
  assume ok: "mem_ok db"
  note f = f [OF ok] and b = b [OF ok]
  have fr: "map frag_of (chunks db') = map frag_of (chunks db)" unfolding c by (rule frag_upd_same) (use f in blast)
  have g: "grows chunk_moved (ends_by (last_seq db)) (chunks db) (chunks db')" unfolding c by (rule moved.grows_upd) (use f in blast)
  have "list_all texted (chunks db')" using ok f unfolding c mem_ok_def by (auto simp: list_all_iff set_upd)
  moreover have "list_all (ends_by (last_seq db')) (chunks db')" using grows_ends [OF g] ok by (simp add: mem_ok_def last_seq_events [OF e])
  ultimately show "mem_ok db' \<and> grows chunk_moved (\<lambda>_. True) (chunks db) (chunks db')"
    using ok fr b grows_any [OF g] by (simp add: mem_ok_def gapless_same_events [OF e])
qed

lemma mem_lawful_branches:
  assumes "chunks db' = chunks db" "events db' = events db" "map branch_key (branches db') = map branch_key (branches db)"
  shows "mem_lawful db db'"
proof -
  have k: "branch_key ` set (branches db') = branch_key ` set (branches db)" using assms(3) by (metis set_map)
  have "chunks db' = upd (\<lambda>_. False) id (chunks db)" by (simp add: assms(1) upd_def)
  then show ?thesis
    by (rule mem_lawful_in_place) (use assms k in \<open>auto simp: mem_ok_def keyed_def\<close>)
qed

text \<open>Neither the journal growing at its end nor a chunk's backoff matters.\<close>

definition reparked :: "chunk_row \<Rightarrow> chunk_row \<Rightarrow> bool" where
  "reparked c d \<longleftrightarrow> (\<exists>t. d = c\<lparr>mc_not_before := t\<rparr>)"

lemma reparked_refl: "reparked c c"
  unfolding reparked_def by (rule exI [of _ "mc_not_before c"]) simp

lemma reparked_trans: "reparked c d \<Longrightarrow> reparked d e \<Longrightarrow> reparked c e"
  by (auto simp: reparked_def)

definition mem_idle :: "'d db \<Rightarrow> 'd db \<Rightarrow> bool" where
  "mem_idle db db' \<longleftrightarrow> list_all2 reparked (chunks db) (chunks db')
     \<and> map branch_key (branches db') = map branch_key (branches db)"

lemma mem_idle_same: "chunks db' = chunks db \<Longrightarrow> branches db' = branches db \<Longrightarrow> mem_idle db db'"
  by (simp add: mem_idle_def list_all2_same reparked_refl)

lemma mem_idle_trans:
  assumes "mem_idle a b" "mem_idle b c"
  shows "mem_idle a c"
proof -
  from assms have "list_all2 reparked (chunks a) (chunks b)" "list_all2 reparked (chunks b) (chunks c)" by (simp_all add: mem_idle_def)
  from list_all2_trans [OF reparked_trans this] have "list_all2 reparked (chunks a) (chunks c)" .
  with assms show ?thesis by (simp add: mem_idle_def)
qed

lemma last_seq_prefix: "events db' = events db @ es \<Longrightarrow> last_seq db p \<le> last_seq db' p"
  by (simp add: last_seq_def)

lemma mem_idle_lawful:
  assumes i: "mem_idle db db'" and e: "events db' = events db @ es" and g: "\<forall>p. gapless db p \<longrightarrow> gapless db' p"
  shows "mem_lawful db db'"
  unfolding mem_lawful_def
proof
  assume ok: "mem_ok db"
  from i have l: "list_all2 reparked (chunks db) (chunks db')" and b: "map branch_key (branches db') = map branch_key (branches db)"
    by (simp_all add: mem_idle_def)
  have fr: "map frag_of (chunks db') = map frag_of (chunks db)"
    using l by (induction rule: list_all2_induct) (auto simp: frag_of_def reparked_def)
  have p: "map (\<lambda>c. (chunk_key c, mc_status c)) (chunks db') = map (\<lambda>c. (chunk_key c, mc_status c)) (chunks db)"
    using l by (induction rule: list_all2_induct) (auto simp: reparked_def)
  have "preparing cs = fst ` {x \<in> set (map (\<lambda>c. (chunk_key c, mc_status c)) cs). snd x = CPreparing}" for cs
    by (force simp: preparing_def)
  then have pr: "preparing (chunks db') = preparing (chunks db)" by (simp only: p)
  have tx: "list_all texted (chunks db) \<Longrightarrow> list_all texted (chunks db')"
    using l by (induction rule: list_all2_induct) (auto simp: texted_def reparked_def)
  have gr: "grows chunk_moved (\<lambda>_. True) (chunks db) (chunks db')"
    unfolding grows_alt
    by (intro exI [of _ "chunks db'"] exI [of _ "[]"]) (use l in \<open>auto elim!: list_all2_mono simp: reparked_def chunk_moved_def chunk_cols_def\<close>)
  have "ends_by (last_seq db') d" if d: "d \<in> set (chunks db')" for d
  proof -
    from list_all2_new [OF l d] obtain c t where c: "c \<in> set (chunks db)" "d = c\<lparr>mc_not_before := t\<rparr>" unfolding reparked_def by blast
    then have "mc_last_seq c \<le> last_seq db (mc_persona_id c)" using ok by (simp add: mem_ok_def list_all_iff ends_by_def)
    with c(2) last_seq_prefix [OF e, of "mc_persona_id c"] show ?thesis by (simp add: ends_by_def)
  qed
  moreover have "branch_key ` set (branches db') = branch_key ` set (branches db)" using b by (metis set_map)
  moreover have "keyed branch_key (branches db') = keyed branch_key (branches db)" using b by (simp add: keyed_def)
  ultimately show "mem_ok db' \<and> grows chunk_moved (\<lambda>_. True) (chunks db) (chunks db')"
    using ok fr pr tx gr g by (simp add: mem_ok_def list_all_iff one_preparing_def)
qed

section \<open>Maintenance keeps the invariant\<close>

text \<open>What a transaction of the memory layer touches.\<close>

definition memory_notice :: "input_row \<Rightarrow> bool" where
  "memory_notice r \<longleftrightarrow> i_status r = IQueued \<and> has_prefix (i_input_id r) ''memory:''"

definition mem_frame :: "'d db \<Rightarrow> 'd db \<Rightarrow> bool" where
  "mem_frame db db' \<longleftrightarrow> (\<exists>cs bs n news. db' = db\<lparr>chunks := cs, branches := bs, admission_next := n, inputs := inputs db @ news\<rparr>
     \<and> list_all memory_notice news)"

lemma mem_frameI:
  "db' = db\<lparr>chunks := cs, branches := bs\<rparr> \<Longrightarrow> mem_frame db db'"
  unfolding mem_frame_def by (intro exI [of _ cs] exI [of _ bs] exI [of _ "admission_next db"] exI [of _ "[]"]) simp

lemma apply_prepared_frame: "\<exists>cs. apply_prepared now p ts live db = db\<lparr>chunks := cs\<rparr>"
proof (induction ts arbitrary: live db)
  case Nil
  show ?case using chunks_same [of db] by (simp only: apply_prepared.simps)
next
  case (Cons t ts)
  have "\<exists>cs. apply_prepared now p ts l (apply_chunk now p s db) = db\<lparr>chunks := cs\<rparr>" for l s
    using Cons.IH [of l "apply_chunk now p s db"] by (auto simp: apply_chunk_def)
  then show ?case using chunks_same [of db] by (cases "live \<le> L0LiveLimitTokens") (simp_all only: apply_prepared.simps if_True if_False)
qed

lemma apply_live_frame: "\<exists>cs. apply_live now p est db = db\<lparr>chunks := cs\<rparr>"
  using apply_prepared_frame [of now p _ _ db] chunks_same [of db]
  by (simp only: apply_live_def Let_def split: if_split) blast

lemma apply_prepared_keys: "map chunk_key (chunks (apply_prepared now p ts live db)) = map chunk_key (chunks db)"
  by (induction ts arbitrary: live db) (simp_all add: apply_chunk_def map_upd_key)

lemma apply_live_keys: "map chunk_key (chunks (apply_live now p est db)) = map chunk_key (chunks db)"
  by (simp add: apply_live_def Let_def apply_prepared_keys)

lemma seq_bound_keys:
  assumes "map chunk_key cs = map chunk_key ds" "\<forall>c \<in> set ds. mc_persona_id c = p \<longrightarrow> mc_chunk_seq c \<le> s"
  shows "\<forall>c \<in> set cs. mc_persona_id c = p \<longrightarrow> mc_chunk_seq c \<le> s"
proof (intro ballI impI)
  fix c assume "c \<in> set cs" and "mc_persona_id c = p"
  have "chunk_key c \<in> set (map chunk_key ds)" using \<open>c \<in> set cs\<close> unfolding assms(1) [symmetric] by simp
  then obtain d where "d \<in> set ds" "chunk_key d = chunk_key c" by auto
  with assms(2) \<open>mc_persona_id c = p\<close> show "mc_chunk_seq c \<le> s" by auto
qed

lemma maintainTx_parts:
  assumes "maintainTx mh now p gen db = Inr (db', u)"
  obtains db1 est db2 db3 where "seal_tail mh now p db = (db1, est)" "db2 = apply_live now p est db1"
    "apply_upper now p (preparedChunks db2 p (\<lambda>l. 2 \<le> l)) db2 = Inr db3" "prepareUpperTarget now p (lastChunkSeq db1 p) db3 = Inr db'"
    "requireGeneration db p gen = Inr ()"
  using assms by (auto simp: maintainTx_def rbind_eq_Inr Let_def split: prod.splits)

lemma maintainTx_step:
  assumes "maintainTx mh now p gen db = Inr (db', u)" "mem_ok db"
  shows "mem_step (last_seq db) (chunks db) (chunks db')"
proof -
  from assms(1) obtain db1 est db2 db3 where a: "seal_tail mh now p db = (db1, est)" and b: "db2 = apply_live now p est db1"
    and c: "apply_upper now p (preparedChunks db2 p (\<lambda>l. 2 \<le> l)) db2 = Inr db3" and d: "prepareUpperTarget now p (lastChunkSeq db1 p) db3 = Inr db'"
    by (rule maintainTx_parts)
  let ?b = "last_seq db"
  have m1: "mem_step ?b (chunks db) (chunks db1)" using seal_tail_step [OF mem_okD(3) [OF assms(2)], where p = p and mh = mh and now = now] a by simp
  note ok1 = grows_keyed [OF m1 mem_okD(2) [OF assms(2)]]
  have m2: "mem_step ?b (chunks db1) (chunks db2)" unfolding b by (rule apply_live_step [OF ok1(2)])
  note ok2 = grows_keyed [OF m2 ok1(2)]
  have m3: "mem_step ?b (chunks db2) (chunks db3) \<and> map chunk_key (chunks db3) = map chunk_key (chunks db2)"
    by (rule apply_upper_step [OF ok2(2) preparedChunks_rows [OF ok2(1)] c])
  then have m3': "mem_step ?b (chunks db2) (chunks db3)" by blast
  note ok3 = grows_keyed [OF m3' ok2(2)]
  have m13: "mem_step ?b (chunks db) (chunks db3)" by (rule mem_step_trans [OF mem_step_trans [OF m1 m2] m3'])
  have "list_all (ends_by ?b) (chunks db3)" using m13 assms(2) by (auto simp: mem_step_def mem_ok_def intro: grows_ends)
  moreover have "\<forall>x \<in> set (chunks db3). mc_persona_id x = p \<longrightarrow> mc_chunk_seq x \<le> lastChunkSeq db1 p"
  proof (rule seq_bound_keys)
    show "map chunk_key (chunks db3) = map chunk_key (chunks db1)" using m3 apply_live_keys unfolding b by metis
    show "\<forall>x \<in> set (chunks db1). mc_persona_id x = p \<longrightarrow> mc_chunk_seq x \<le> lastChunkSeq db1 p" using chunks_of_bounds by blast
  qed
  ultimately have "mem_step ?b (chunks db3) (chunks db')"
    using d by (intro prepareUpperTarget_step [OF ok3(2)]) (simp_all add: list_all_iff)
  with m13 show "mem_step ?b (chunks db) (chunks db')" by (blast intro: mem_step_trans)
qed

lemma maintainTx_frame:
  assumes "maintainTx mh now p gen db = Inr (db', u)"
  shows "\<exists>cs. db' = db\<lparr>chunks := cs\<rparr>"
proof -
  from assms obtain db1 est db2 db3 where a: "seal_tail mh now p db = (db1, est)" and b: "db2 = apply_live now p est db1"
    and c: "apply_upper now p (preparedChunks db2 p (\<lambda>l. 2 \<le> l)) db2 = Inr db3" and d: "prepareUpperTarget now p (lastChunkSeq db1 p) db3 = Inr db'"
    by (rule maintainTx_parts)
  obtain c1 where "db1 = db\<lparr>chunks := c1\<rparr>" using a by (auto simp: seal_tail_def Let_def)
  moreover obtain c2 where "db2 = db1\<lparr>chunks := c2\<rparr>" using apply_live_frame [of now p est db1] b by blast
  moreover obtain c3 where "db3 = db2\<lparr>chunks := c3\<rparr>" using apply_upper_frame [OF c] by blast
  moreover obtain c4 where "db' = db3\<lparr>chunks := c4\<rparr>" using prepareUpperTarget_frame [OF d] by blast
  ultimately show ?thesis by auto
qed

lemma maintainTx_lawful: "maintainTx mh now p gen db = Inr (db', u) \<Longrightarrow> mem_lawful db db'"
proof -
  assume a: "maintainTx mh now p gen db = Inr (db', u)"
  then obtain cs where d: "db' = db\<lparr>chunks := cs\<rparr>" using maintainTx_frame by blast
  show ?thesis
  proof (cases "mem_ok db")
    case True
    from maintainTx_step [OF a True] show ?thesis by (rule mem_step_lawful) (simp_all add: d)
  qed (simp add: mem_lawful_def)
qed

end
