(* ===== verification/Branch_Ledger.thy ===== *)
theory Branch_Ledger
  imports Memory_Ledger
begin

text \<open>
  Claims, checkpoints and recoveries of memory branches keep the memory tables' invariant: at most
  one chunk of a persona is in preparation, it has a branch, and only a confirmed candidate leaves
  preparation with a text.
\<close>

section \<open>Frames\<close>

lemma mem_frame_refl: "mem_frame db db"
  by (rule mem_frameI [where cs = "chunks db" and bs = "branches db"]) simp

lemma mem_frame_trans:
  assumes "mem_frame a b" "mem_frame b c"
  shows "mem_frame a c"
proof -
  from assms obtain cs bs n news cs' bs' n' news' where
    "b = a\<lparr>chunks := cs, branches := bs, admission_next := n, inputs := inputs a @ news\<rparr>" "list_all memory_notice news"
    "c = b\<lparr>chunks := cs', branches := bs', admission_next := n', inputs := inputs b @ news'\<rparr>" "list_all memory_notice news'"
    unfolding mem_frame_def by blast
  then show ?thesis
    unfolding mem_frame_def by (intro exI [of _ cs'] exI [of _ bs'] exI [of _ n'] exI [of _ "news @ news'"]) simp
qed

text \<open>A transaction of the memory layer that keeps its invariant.\<close>

definition mem_tx :: "'d db \<Rightarrow> 'd db \<Rightarrow> bool" where
  "mem_tx db db' \<longleftrightarrow> mem_frame db db' \<and> mem_lawful db db'"

lemma mem_tx_refl [simp]: "mem_tx db db"
  by (simp add: mem_tx_def mem_frame_refl)

lemma mem_tx_trans: "mem_tx a b \<Longrightarrow> mem_tx b c \<Longrightarrow> mem_tx a c"
  unfolding mem_tx_def using mem_frame_trans mem_lawful_trans by blast

lemma upd_branch_tx:
  assumes "\<And>b. branch_key (f b) = branch_key b"
  shows "mem_tx db (upd_branch p s f db)"
  unfolding mem_tx_def
  by (intro conjI mem_frameI [where cs = "chunks db" and bs = "upd (is_branch p s) f (branches db)"] mem_lawful_branches)
     (simp_all add: upd_branch_def map_upd_key assms del: prod.inject)

lemma archive_tx: "mem_tx db (archiveMemoryAttempt p b db)"
  unfolding archiveMemoryAttempt_def by (rule upd_branch_tx) simp

lemma upd_chunk_frame: "mem_frame db (upd_chunk p s f db)"
  by (rule mem_frameI [where cs = "upd (is_chunk p s) f (chunks db)" and bs = "branches db"]) (simp add: upd_chunk_def)

text \<open>The row of a chunk is the only one under its key.\<close>

lemma chunk_row_unique: "mem_ok db \<Longrightarrow> c \<in> set (chunks db) \<Longrightarrow> d \<in> set (chunks db) \<Longrightarrow> is_chunk p s c \<Longrightarrow> is_chunk p s d \<Longrightarrow> c = d"
  by (rule keyed_inj [OF mem_okD(1)]) (auto simp: is_chunk_def)

text \<open>One chunk rewritten where it stands; the branches are untouched.\<close>

lemma upd_chunk_lawful:
  assumes "\<And>c. mem_ok db \<Longrightarrow> c \<in> set (chunks db) \<Longrightarrow> is_chunk p s c \<Longrightarrow>
      chunk_moved c (f c) \<and> frag_of (f c) = frag_of c \<and> (texted c \<longrightarrow> texted (f c))"
    "mem_ok db \<Longrightarrow> preparing (chunks (upd_chunk p s f db)) \<subseteq> branch_key ` set (branches db) \<and> one_preparing (chunks (upd_chunk p s f db))"
  shows "mem_tx db (upd_chunk p s f db)"
  unfolding mem_tx_def
proof (intro conjI upd_chunk_frame)
  show "mem_lawful db (upd_chunk p s f db)"
    by (rule mem_lawful_in_place [where P = "is_chunk p s" and f = f]) (use assms in \<open>auto simp: upd_chunk_def mem_ok_def\<close>)
qed

lemma preparing_left:
  assumes "\<And>c. mc_status (f c) \<noteq> CPreparing" "\<And>c. chunk_key (f c) = chunk_key c"
  shows "preparing (upd P f cs) \<subseteq> preparing cs"
  using assms(1) by (auto simp: preparing_def set_upd split: if_splits)

lemma leave_preparation:
  assumes "\<And>c. mc_status (f c) \<noteq> CPreparing" "\<And>c. chunk_key (f c) = chunk_key c"
    "\<And>c. mem_ok db \<Longrightarrow> c \<in> set (chunks db) \<Longrightarrow> is_chunk p s c \<Longrightarrow>
      chunk_moved c (f c) \<and> frag_of (f c) = frag_of c \<and> (texted c \<longrightarrow> texted (f c))"
  shows "mem_tx db (upd_chunk p s f db)"
proof (rule upd_chunk_lawful)
  assume ok: "mem_ok db"
  have "preparing (chunks (upd_chunk p s f db)) \<subseteq> preparing (chunks db)" using preparing_left [OF assms(1,2)] by (simp add: upd_chunk_def)
  moreover have "preparing (chunks db) \<subseteq> branch_key ` set (branches db)" "one_preparing (chunks db)" using ok by (simp_all add: mem_ok_def)
  ultimately show "preparing (chunks (upd_chunk p s f db)) \<subseteq> branch_key ` set (branches db) \<and> one_preparing (chunks (upd_chunk p s f db))"
    unfolding one_preparing_def by blast
qed (rule assms(3))

section \<open>Claims\<close>

lemma restart_tx: "restartRequestedMemory mh now p s db = Inr db' \<Longrightarrow> mem_tx db db'"
proof -
  have u: "mem_tx db (upd_branch p q (restarted now snap) (archiveMemoryAttempt p b db))" for q snap b
    by (rule mem_tx_trans [OF archive_tx upd_branch_tx]) (simp add: restarted_def)
  assume "restartRequestedMemory mh now p s db = Inr db'"
  then have "db' = db \<or> (\<exists>q snap b. db' = upd_branch p q (restarted now snap) (archiveMemoryAttempt p b db))"
    by (auto simp: restartRequestedMemory_def rbind_eq_Inr split: option.splits if_splits)
  with u show ?thesis by auto
qed

lemma kept_unique:
  assumes "mem_ok db" "kept_at db p n" "c \<in> set (chunks db)" "is_chunk p (int n) c"
  shows "mc_status c = CKept"
proof -
  from assms(2) obtain d where "d \<in> set (chunks db)" "mc_persona_id d = p" "mc_chunk_seq d = n" "mc_status d = CKept"
    by (auto simp: kept_at_def list_ex_iff chunks_of_def)
  moreover from this have "c = d" using chunk_row_unique [OF assms(1,3)] assms(4) by (auto simp: is_chunk_def)
  ultimately show ?thesis by simp
qed

lemma reseal_tx:
  assumes "kept_at db p n"
  shows "mem_tx db (upd_chunk p (int n) (\<lambda>c. c\<lparr>mc_status := CSealed, mc_prepared_at := None\<rparr>) db)"
proof (rule leave_preparation)
  fix c assume "mem_ok db" "c \<in> set (chunks db)" "is_chunk p (int n) c"
  from kept_unique [OF this(1) assms this(2,3)]
  show "chunk_moved c (c\<lparr>mc_status := CSealed, mc_prepared_at := None\<rparr>) \<and> frag_of (c\<lparr>mc_status := CSealed, mc_prepared_at := None\<rparr>) = frag_of c
      \<and> (texted c \<longrightarrow> texted (c\<lparr>mc_status := CSealed, mc_prepared_at := None\<rparr>))"
    by (simp add: chunk_moved_def chunk_cols_def frag_of_def texted_def)
qed simp_all

lemma archive_kept [simp]: "kept_at (archiveMemoryAttempt p b db) q n = kept_at db q n" "chunks (archiveMemoryAttempt p b db) = chunks db"
  by (simp_all add: archiveMemoryAttempt_def upd_branch_def kept_at_def chunks_of_def)

lemma reconsider_loop_tx:
  "reconsider_loop p snap rs db = Inr db' \<Longrightarrow> \<forall>r \<in> set rs. kept_at db p (br_chunk_seq r) \<Longrightarrow>
     mem_tx db db' \<and> preparing (chunks db') \<subseteq> preparing (chunks db)"
proof (induction rs)
  case (Cons r rs)
  let ?f = "\<lambda>c. c\<lparr>mc_status := CSealed, mc_prepared_at := None\<rparr>" and ?n = "br_chunk_seq r"
  from Cons.prems(1) obtain b ok where
    r: "(if \<not> ok \<or> added_tokens (mbr_snapshot b) snap < L0ChunkMinTokens then reconsider_loop p snap rs db
         else Inr (upd_chunk p (int ?n) ?f (archiveMemoryAttempt p b db))) = Inr db'"
    by (auto simp: rbind_eq_Inr)
  show ?case
  proof (cases "\<not> ok \<or> added_tokens (mbr_snapshot b) snap < L0ChunkMinTokens")
    case True
    with Cons r show ?thesis by simp
  next
    case False
    with r have d: "db' = upd_chunk p (int ?n) ?f (archiveMemoryAttempt p b db)" by simp
    have "mem_tx (archiveMemoryAttempt p b db) db'" unfolding d using Cons.prems(2) by (intro reseal_tx) simp
    moreover have "preparing (chunks db') \<subseteq> preparing (chunks db)" unfolding d upd_chunk_def by (simp, intro preparing_left) simp_all
    ultimately show ?thesis using archive_tx mem_tx_trans by blast
  qed
qed simp

lemma reconsider_tx:
  "reconsiderKeptMemory p snap db = Inr db' \<Longrightarrow> mem_tx db db' \<and> preparing (chunks db') \<subseteq> preparing (chunks db)"
  by (auto simp: reconsiderKeptMemory_def split: if_splits dest!: reconsider_loop_tx)

lemma upsert_tx: "mem_tx db (upsert_branch now p n snap db)"
proof (cases "branch_of db p (int n) = None")
  case False
  show ?thesis unfolding upsert_branch_def if_not_P [OF False] by (rule upd_branch_tx) simp
next
  case True
  let ?d = "db\<lparr>branches := branches db @ [new_branch now p n snap]\<rparr>"
  have fresh: "(p, n) \<notin> branch_key ` set (branches db)"
    using True by (auto simp: branch_of_def find_None_iff is_branch_def)
  have "mem_lawful db ?d"
    by (rule mem_lawful_in_place [where P = "\<lambda>_. False" and f = id])
       (use fresh in \<open>auto simp: upd_def mem_ok_def keyed_snoc new_branch_def\<close>)
  moreover have "mem_frame db ?d" by (rule mem_frameI [where cs = "chunks db" and bs = "branches db @ [new_branch now p n snap]"]) simp
  ultimately show ?thesis using True by (simp add: mem_tx_def upsert_branch_def)
qed

lemma begin_preparing_tx:
  assumes b: "begin_preparing now p gen n db = Inr (db', r)"
    and st: "\<And>c. mem_ok db \<Longrightarrow> c \<in> set (chunks db) \<Longrightarrow> is_chunk p (int n) c \<Longrightarrow> mc_status c \<in> {CSealed, CPreparing}"
    and one: "\<And>k. mem_ok db \<Longrightarrow> k \<in> preparing (chunks db) \<Longrightarrow> fst k = p \<Longrightarrow> k = (p, n)"
  shows "mem_tx db db'"
proof -
  let ?f = "\<lambda>c. c\<lparr>mc_status := CPreparing, mc_claimed_generation := Some gen, mc_claimed_at := Some now, mc_not_before := None\<rparr>"
  from b obtain m where d: "db' = upd_chunk p (int n) ?f db" and m: "readMemoryBranch db' p (int n) = Inr m"
    by (auto simp: begin_preparing_def Let_def rbind_eq_Inr)
  from m obtain br where "branch_of db' p (int n) = Some br" by (auto simp: readMemoryBranch_def rbind_eq_Inr require_eq_Inr)
  then have "br \<in> set (branches db)" "is_branch p (int n) br"
    unfolding d branch_of_def upd_chunk_def by (auto dest: find_SomeD)
  then have bk: "(p, n) \<in> branch_key ` set (branches db)" by (force simp: is_branch_def)
  have new: "preparing (chunks (upd_chunk p (int n) ?f db)) \<subseteq> insert (p, n) (preparing (chunks db))"
    by (auto simp: upd_chunk_def preparing_def set_upd is_chunk_def split: if_splits)
  show ?thesis
    unfolding d
  proof (rule upd_chunk_lawful)
    fix c assume "mem_ok db" "c \<in> set (chunks db)" "is_chunk p (int n) c"
    from st [OF this] show "chunk_moved c (?f c) \<and> frag_of (?f c) = frag_of c \<and> (texted c \<longrightarrow> texted (?f c))"
      by (auto simp: chunk_moved_def chunk_cols_def frag_of_def texted_def)
  next
    assume ok: "mem_ok db"
    have "k = l" if kl: "k \<in> insert (p, n) (preparing (chunks db))" "l \<in> insert (p, n) (preparing (chunks db))" "fst k = fst l" for k l
    proof (cases "fst k = p")
      case True
      with kl(3) have "fst l = p" by simp
      with True have "k = (p, n)" "l = (p, n)" using kl(1,2) one [OF ok, of k] one [OF ok, of l] by blast+
      then show ?thesis by simp
    next
      case False
      then have "k \<in> preparing (chunks db)" "l \<in> preparing (chunks db)" using kl by auto
      with ok kl(3) show ?thesis by (simp add: mem_ok_def one_preparing_def)
    qed
    then have "one_preparing (chunks (upd_chunk p (int n) ?f db))" using new unfolding one_preparing_def by blast
    moreover have "preparing (chunks db) \<subseteq> branch_key ` set (branches db)" using ok by (simp add: mem_ok_def)
    ultimately show "preparing (chunks (upd_chunk p (int n) ?f db)) \<subseteq> branch_key ` set (branches db)
        \<and> one_preparing (chunks (upd_chunk p (int n) ?f db))"
      using new bk by blast
  qed
qed

lemma openBranches_preparing:
  "b \<in> set (openBranches db p) \<Longrightarrow> (p, br_chunk_seq b) \<in> preparing (chunks db)"
  by (force simp: openBranches_def preparing_at_def list_ex_iff chunks_of_def preparing_def)

lemma first_branch_in: "first_branch f bs = Inr (Some b) \<Longrightarrow> b \<in> set bs"
  by (induction bs) (auto simp: rbind_eq_Inr split: if_splits)

lemma first_match_in: "first_match db p snap cs = Inr (Some n) \<Longrightarrow> \<exists>c \<in> set cs. mc_chunk_seq c = n"
  by (induction cs) (auto simp: rbind_eq_Inr split: if_splits)

lemma some_preparing_none: "\<not> some_preparing db p \<Longrightarrow> k \<in> preparing (chunks db) \<Longrightarrow> fst k \<noteq> p"
  by (auto simp: some_preparing_def list_ex_iff chunks_of_def preparing_def)

lemma preparing_status:
  assumes "mem_ok db" "(p, n) \<in> preparing (chunks db)" "c \<in> set (chunks db)" "is_chunk p (int n) c"
  shows "mc_status c = CPreparing"
proof -
  from assms(2) obtain d where d: "d \<in> set (chunks db)" "is_chunk p (int n) d" "mc_status d = CPreparing"
    by (auto simp: preparing_def is_chunk_def)
  with chunk_row_unique [OF assms(1,3) d(1) assms(4) d(2)] show ?thesis by simp
qed

lemma upsert_chunks [simp]: "chunks (upsert_branch now p n snap db) = chunks db"
  by (simp add: upsert_branch_def upd_branch_def)

lemma ClaimMemoryBranch_cases:
  assumes "ClaimMemoryBranch mh now p gen s policy db = Inr (db', r)"
  obtains (idle) "db' = db" "r = None"
    | (resumed) db1 b where "restartRequestedMemory mh now p s db = Inr db1" "b \<in> set (openBranches db1 p)"
        "begin_preparing now p gen (br_chunk_seq b) db1 = Inr (db', r)"
    | (claimed) db1 snap db2 c where "restartRequestedMemory mh now p s db = Inr db1" "s = Some snap" "\<not> some_preparing db1 p"
        "reconsiderKeptMemory p snap db1 = Inr db2" "c \<in> set (claimCandidates db2 now p snap)"
        "begin_preparing now p gen (mc_chunk_seq c) (upsert_branch now p (mc_chunk_seq c) snap db2) = Inr (db', r)"
proof -
  from assms obtain db1 x where rs: "restartRequestedMemory mh now p s db = Inr db1"
    and f: "first_branch (resumable mh now policy (selectedFingerprint s)) (openBranches db1 p) = Inr x"
    and rest: "(case x of Some b \<Rightarrow> begin_preparing now p gen (br_chunk_seq b) db1
       | None \<Rightarrow> if some_preparing db1 p then Inr (db, None)
           else (case s of None \<Rightarrow> Inr (db, None)
             | Some snap \<Rightarrow> rbind (validateBranchSnapshot s) (\<lambda>_.
                 rbind (reconsiderKeptMemory p snap db1) (\<lambda>db2.
                 rbind (first_match db2 p snap (claimCandidates db2 now p snap)) (\<lambda>m. case m of
                     None \<Rightarrow> Inr (db, None)
                   | Some n \<Rightarrow> begin_preparing now p gen n (upsert_branch now p n snap db2)))))) = Inr (db', r)"
    unfolding ClaimMemoryBranch_def rbind_eq_Inr by blast
  show thesis
  proof (cases x)
    case (Some b)
    with rest have "begin_preparing now p gen (br_chunk_seq b) db1 = Inr (db', r)" by simp
    with rs first_branch_in [OF f [unfolded Some]] show thesis by (rule resumed)
  next
    case None
    note rest = rest [unfolded None option.case]
    show thesis
    proof (cases "some_preparing db1 p \<or> s = None")
      case True
      with rest have "db' = db" "r = None" by (auto split: if_splits)
      then show thesis by (rule idle)
    next
      case False
      then obtain snap where s: "s = Some snap" by auto
      have "rbind (validateBranchSnapshot s) (\<lambda>_. rbind (reconsiderKeptMemory p snap db1) (\<lambda>db2.
          rbind (first_match db2 p snap (claimCandidates db2 now p snap)) (\<lambda>m. case m of None \<Rightarrow> Inr (db, None)
            | Some n \<Rightarrow> begin_preparing now p gen n (upsert_branch now p n snap db2)))) = Inr (db', r)"
        using rest False by (simp add: s)
      then obtain db2 m where k: "reconsiderKeptMemory p snap db1 = Inr db2"
        and fm: "first_match db2 p snap (claimCandidates db2 now p snap) = Inr m"
        and e: "(case m of None \<Rightarrow> Inr (db, None) | Some n \<Rightarrow> begin_preparing now p gen n (upsert_branch now p n snap db2)) = Inr (db', r)"
        unfolding rbind_eq_Inr by blast
      show thesis
      proof (cases m)
        case None
        with e have "db' = db" "r = None" by auto
        then show thesis by (rule idle)
      next
        case (Some n)
        from first_match_in [OF fm [unfolded Some]] obtain c where "c \<in> set (claimCandidates db2 now p snap)" "mc_chunk_seq c = n" by blast
        with e Some False rs s k show thesis by (intro claimed [of db1 snap db2 c]) simp_all
      qed
    qed
  qed
qed

lemma ClaimMemoryBranch_tx:
  assumes "ClaimMemoryBranch mh now p gen s policy db = Inr (db', r)"
  shows "mem_tx db db'"
  using assms
proof (cases rule: ClaimMemoryBranch_cases)
  case (resumed db1 b)
  note pr = openBranches_preparing [OF resumed(2)]
  have "mem_tx db1 db'"
  proof (rule begin_preparing_tx [OF resumed(3)])
    fix k assume "mem_ok db1" "k \<in> preparing (chunks db1)" "fst k = p"
    with pr show "k = (p, br_chunk_seq b)" unfolding mem_ok_def one_preparing_def by (metis fst_conv)
  qed (use preparing_status [OF _ pr] in auto)
  with restart_tx [OF resumed(1)] show ?thesis by (rule mem_tx_trans)
next
  case (claimed db1 snap db2 c)
  let ?d = "upsert_branch now p (mc_chunk_seq c) snap db2"
  note rc = reconsider_tx [OF claimed(4)]
  have c: "c \<in> set (chunks db2)" "is_chunk p (int (mc_chunk_seq c)) c" "mc_status c = CSealed"
    using claimed(5) by (auto simp: claimCandidates_def claimable_chunk_def chunks_of_def is_chunk_def)
  have "mem_tx ?d db'"
  proof (rule begin_preparing_tx [OF claimed(6)])
    fix x assume "mem_ok ?d" "x \<in> set (chunks ?d)" "is_chunk p (int (mc_chunk_seq c)) x"
    with c have "x = c" using chunk_row_unique [of ?d x c] by simp
    with c show "mc_status x \<in> {CSealed, CPreparing}" by simp
  next
    fix k assume "k \<in> preparing (chunks ?d)" "fst k = p"
    with rc have "k \<in> preparing (chunks db1)" by auto
    with some_preparing_none [OF claimed(3)] \<open>fst k = p\<close> show "k = (p, mc_chunk_seq c)" by blast
  qed
  with restart_tx [OF claimed(1)] rc upsert_tx mem_tx_trans show ?thesis by metis
qed simp

section \<open>Checkpoints\<close>

lemma notice_tx: "memoryBranchNotice now p s rn tr i db = Inr db' \<Longrightarrow> mem_tx db db' \<and> chunks db' = chunks db \<and> branches db' = branches db"
proof -
  assume a: "memoryBranchNotice now p s rn tr i db = Inr db'"
  let ?x = "notice_id s rn tr" and ?n = "Suc (admission_next db)"
  let ?news = "if input_of db p ?x = None then [memory_input now (admission_next db) p ?x (notice_payload s tr i)] else []"
  from a have d: "db' = db\<lparr>admission_next := ?n, inputs := inputs db @ ?news\<rparr>"
    by (auto simp: memoryBranchNotice_def Let_def rbind_eq_Inr)
  have nn: "list_all memory_notice ?news" by (simp add: memory_notice_def memory_input_def notice_id_def)
  have "mem_frame db db'"
    unfolding mem_frame_def
    by (intro exI [of _ "chunks db"] exI [of _ "branches db"] exI [of _ ?n] exI [of _ ?news]) (simp add: d nn)
  moreover have "mem_lawful db db'" by (rule mem_lawful_branches) (simp_all add: d)
  ultimately show ?thesis by (simp add: mem_tx_def d)
qed

lemma issue_notice_tx:
  "issue_notice now p s rn was is db = Inr db' \<Longrightarrow> mem_tx db db' \<and> chunks db' = chunks db \<and> branches db' = branches db"
  by (auto simp: issue_notice_def split: if_splits option.splits dest!: notice_tx)

lemma complete_chunk_tx:
  assumes c: "complete_chunk now p s st c0 old nx db = Inr db'"
    and st: "\<And>c. mem_ok db \<Longrightarrow> c \<in> set (chunks db) \<Longrightarrow> is_chunk p s c \<Longrightarrow> mc_status c = CPreparing"
  shows "mem_tx db db' \<and> branches db' = branches db"
proof -
  consider "db' = db" | d where "db' = upd_chunk p s (shelve_candidate now d) db" | "db' = upd_chunk p s (keep_unchanged now) db"
    using c by (auto simp: complete_chunk_def rbind_eq_Inr split: if_splits option.splits)
  then show ?thesis
  proof cases
    case (2 d)
    have "mem_tx db (upd_chunk p s (shelve_candidate now d) db)"
      by (rule leave_preparation) (use st in \<open>auto simp: shelve_candidate_def chunk_moved_def chunk_cols_def frag_of_def texted_def\<close>)
    with 2 show ?thesis by (simp add: upd_chunk_def)
  next
    case 3
    have "mem_tx db (upd_chunk p s (keep_unchanged now) db)"
      by (rule leave_preparation) (use st in \<open>auto simp: keep_unchanged_def chunk_moved_def chunk_cols_def frag_of_def texted_def\<close>)
    with 3 show ?thesis by (simp add: upd_chunk_def)
  qed simp
qed

text \<open>How a checkpoint ends: replayed, or stored behind its chunk and its notice.\<close>

lemma SaveMemoryBranch_cases:
  assumes "SaveMemoryBranch mh now p gen s expected body db = Inr (db', b')"
  obtains raw nx st b row where "body = Some raw" "decodeCheckpoint mh raw = Some nx" "check_checkpoint mh nx = Inr st"
    "readMemoryBranch db p s = Inr b" "branch_of db p s = Some row"
    "mbr_revision b = expected + 1 \<and> branchHash mh (canonicalBranchJSON mh raw) = br_checkpoint_hash row \<and> db' = db \<and> b' = b
     \<or> mbr_revision b = expected \<and> mc_status (mbr_chunk b) = CPreparing \<and> saveNext mh now p s expected raw st nx b db = Inr (db', b')"
  using assms unfolding SaveMemoryBranch_def
  by (auto simp: rbind_eq_Inr require_eq_Inr split: if_splits)

lemma saveNext_parts:
  assumes "saveNext mh now p s expected raw st nx b db = Inr (db', b')"
  obtains old db1 db2 where
    "mbr_state b = None \<and> old = zero_checkpoint \<or> (\<exists>v. mbr_state b = Some v \<and> decodeCheckpoint mh v = Some old)"
    "check_progress old nx = Inr ()" "complete_chunk now p s st (mbr_chunk b) old nx db = Inr db1"
    "issue_notice now p s (expected + 1) (standing_issue mh b old) (cp_issue nx) db1 = Inr db2"
    "db' = upd_branch p s (saved now raw (branchHash mh (canonicalBranchJSON mh raw)) st nx) db2" "readMemoryBranch db' p s = Inr b'"
  using assms unfolding saveNext_def
  by (auto simp: rbind_eq_Inr require_eq_Inr Let_def split: option.splits)

lemma readMemoryBranch_rows:
  assumes "readMemoryBranch db p s = Inr b"
  obtains row where "branch_of db p s = Some row" "chunk_at db p s = Some (mbr_chunk b)" "mbr_state b = br_state row"
    "mbr_revision b = br_revision row" "mbr_snapshot b = br_snapshot row" "mbr_previous b = last_attempt row"
    "mbr_chunk b \<in> set (chunks db)" "is_chunk p s (mbr_chunk b)"
proof -
  from assms obtain row where r: "branch_of db p s = Some row" "chunk_at db p s = Some (mbr_chunk b)" "mbr_state b = br_state row"
    "mbr_revision b = br_revision row" "mbr_snapshot b = br_snapshot row" "mbr_previous b = last_attempt row"
    by (auto simp: readMemoryBranch_def rbind_eq_Inr require_eq_Inr)
  moreover from r(2) have "mbr_chunk b \<in> set (chunks db)" "is_chunk p s (mbr_chunk b)" by (simp_all add: chunk_at_def find_SomeD)
  ultimately show thesis by (rule that)
qed

lemma SaveMemoryBranch_tx:
  assumes "SaveMemoryBranch mh now p gen s expected body db = Inr (db', b')"
  shows "mem_tx db db'"
proof -
  from assms obtain raw nx st b row where b: "readMemoryBranch db p s = Inr b"
    and c: "db' = db \<or> mc_status (mbr_chunk b) = CPreparing \<and> saveNext mh now p s expected raw st nx b db = Inr (db', b')"
    by (rule SaveMemoryBranch_cases) blast
  show ?thesis
  proof (cases "db' = db")
    case False
    with c have pr: "mc_status (mbr_chunk b) = CPreparing" and n: "saveNext mh now p s expected raw st nx b db = Inr (db', b')" by auto
    from b have r: "mbr_chunk b \<in> set (chunks db)" "is_chunk p s (mbr_chunk b)" by (rule readMemoryBranch_rows, blast)+
    from n obtain old db1 db2 where cc: "complete_chunk now p s st (mbr_chunk b) old nx db = Inr db1"
      and nt: "issue_notice now p s (expected + 1) (standing_issue mh b old) (cp_issue nx) db1 = Inr db2"
      and d: "db' = upd_branch p s (saved now raw (branchHash mh (canonicalBranchJSON mh raw)) st nx) db2"
      by (rule saveNext_parts)
    have st: "mc_status c = CPreparing" if "mem_ok db" "c \<in> set (chunks db)" "is_chunk p s c" for c
      using chunk_row_unique [OF that(1,2) r(1) that(3) r(2)] pr by simp
    from complete_chunk_tx [OF cc st] have t1: "mem_tx db db1" by simp
    have t2: "mem_tx db1 db2" using issue_notice_tx [OF nt] by blast
    have "mem_tx db2 db'" unfolding d by (rule upd_branch_tx) (simp add: saved_def)
    with t1 t2 show ?thesis by (meson mem_tx_trans)
  qed simp
qed

lemma maintain_tx: "maintainTx mh now p gen db = Inr (db', u) \<Longrightarrow> mem_tx db db'"
proof -
  assume a: "maintainTx mh now p gen db = Inr (db', u)"
  then obtain cs where "db' = db\<lparr>chunks := cs\<rparr>" using maintainTx_frame by blast
  then have "mem_frame db db'" by (intro mem_frameI [where cs = cs and bs = "branches db"]) simp
  with maintainTx_lawful [OF a] show ?thesis by (simp add: mem_tx_def)
qed

lemma MemoryMaintain_tx: "mem_tx db (fst (MemoryMaintain mh now p gen db))"
  by (auto simp: MemoryMaintain_def run_tx_def split: sum.splits intro: maintain_tx)

lemma resumeMemory_tx: "resumeMemory mh now ns p req db = Inr (db', resp) \<Longrightarrow> mem_tx db db'"
  by (erule resumeMemory_branch) (simp add: upd_branch_tx)

end
