(* ===== verification/Core_Frames.thy ===== *)
theory Core_Frames
  imports Core_Schedules Job_Lifecycle Terminal_Ledger Branch_Ledger "HOL-Library.Sublist"
begin

text \<open>
  What each operation leaves alone. A journaling transaction is \<open>quiet\<close>: the journal and the
  outbox grow at the end and stay gapless, no stored input moves and inputs added are queued, no
  turn, lease or wait moves, approvals are only asked for or spent, and jobs, terminals and memory
  chunks only take the steps of their lifecycles.
\<close>

section \<open>The journal only grows\<close>

definition journal_grows :: "'d db \<Rightarrow> 'd db \<Rightarrow> bool" where
  "journal_grows db db' \<longleftrightarrow> prefix (events db) (events db') \<and> prefix (outbox db) (outbox db')
     \<and> (\<forall>p. gapless db p \<longrightarrow> gapless db' p) \<and> (\<forall>p. out_gapless db p \<longrightarrow> out_gapless db' p)"

text \<open>What identifies an input and says where it is.\<close>

definition phase :: "input_row \<Rightarrow> string \<times> string \<times> input_status" where
  "phase r = (i_persona_id r, i_input_id r, i_status r)"

text \<open>
  What a claim may do to the approvals: the grants it finds are spent at most once and otherwise
  kept as they are, and the rows it adds are pending.
\<close>

definition spent_at_most :: "approval_row \<Rightarrow> approval_row \<Rightarrow> bool" where
  "spent_at_most a a' \<longleftrightarrow> a' = a \<or> a_consumed_at a = None \<and> (\<exists>w. a' = a\<lparr>a_consumed_at := w\<rparr>)"

definition consents :: "approval_row list \<Rightarrow> approval_row list \<Rightarrow> bool" where
  "consents as as' \<longleftrightarrow> (\<exists>bs cs. as' = bs @ cs \<and> list_all2 spent_at_most as bs \<and> (\<forall>a \<in> set cs. a_status a = APending))
     \<and> (keyed appr_key as \<longrightarrow> keyed appr_key as')"

definition queued_phase :: "string \<times> string \<times> input_status \<Rightarrow> bool" where
  "queued_phase f \<longleftrightarrow> snd (snd f) = IQueued"

interpretation phases: row_evolution "(=)" queued_phase
  by unfold_locales auto

text \<open>A transaction that journals and asks for consent, and moves no input, turn, lease or wait.\<close>

definition standing :: "'d db \<Rightarrow> turn_row list \<times> lease_row list \<times> persona_row list \<times> wait_row list" where
  [simp]: "standing db = (turns db, leases db, personas db, waits db)"

text \<open>
  The inbox keeps what its inputs say, and an input that appears under a terminal's notice id is
  the notice of a session that is over.
\<close>

definition inbox_told :: "'d db \<Rightarrow> 'd db \<Rightarrow> bool" where
  "inbox_told db db' \<longleftrightarrow> faces_kept (inputs db) (inputs db')
     \<and> (terms_ok db \<longrightarrow> (\<forall>r \<in> set (inputs db'). has_prefix (i_input_id r) terminalInputPrefix \<longrightarrow>
          input_face r \<in> input_face ` set (inputs db) \<or> told db' (input_face r)))"

lemma inbox_told_same:
  assumes "map input_face (inputs db') = map input_face (inputs db)"
  shows "inbox_told db db'"
proof -
  have "input_face ` set (inputs db') = input_face ` set (inputs db)" using arg_cong [OF assms, of set] by (simp only: set_map)
  then show ?thesis using faces_kept_map [OF assms] by (auto simp: inbox_told_def)
qed

lemma inbox_told_other:
  "inputs db' = inputs db @ news \<Longrightarrow> \<forall>r \<in> set news. \<not> has_prefix (i_input_id r) terminalInputPrefix \<Longrightarrow> inbox_told db db'"
  by (auto simp: inbox_told_def)

lemma inbox_told_trans:
  assumes "inbox_told a b" "inbox_told b c" "term_lawful a b" "term_lawful b c"
  shows "inbox_told a c"
  unfolding inbox_told_def
proof (intro conjI impI ballI)
  show "faces_kept (inputs a) (inputs c)"
    by (rule faces_kept_trans [of _ "inputs b"]) (use assms(1,2) in \<open>simp_all add: inbox_told_def\<close>)
  fix r assume ok: "terms_ok a" and r: "r \<in> set (inputs c)" "has_prefix (i_input_id r) terminalInputPrefix"
  have b: "terms_ok b" "grows sess_moved (\<lambda>_. True) (sessions (terminals b)) (sessions (terminals c))"
    using assms(3,4) ok by (simp_all add: term_lawful_def)
  from assms(2) b(1) r consider "told c (input_face r)" | x where "x \<in> set (inputs b)" "input_face r = input_face x"
    unfolding inbox_told_def by blast
  then show "input_face r \<in> input_face ` set (inputs a) \<or> told c (input_face r)"
  proof cases
    case (2 x)
    have "has_prefix (i_input_id x) terminalInputPrefix" using r(2) face_key [OF 2(2)] by simp
    with assms(1) ok 2 have "input_face r \<in> input_face ` set (inputs a) \<or> told b (input_face r)" unfolding inbox_told_def by auto
    with told_later [OF b(2)] show ?thesis by blast
  qed simp
qed

definition quiet :: "'d db \<Rightarrow> 'd db \<Rightarrow> bool" where
  "quiet db db' \<longleftrightarrow> journal_grows db db' \<and> grows (=) queued_phase (map phase (inputs db)) (map phase (inputs db'))
     \<and> standing db' = standing db \<and> consents (approvals db) (approvals db') \<and> job_lawful db db'
     \<and> term_lawful db db' \<and> mem_lawful db db' \<and> inbox_told db db'"

lemma spent_at_most_simps [simp]: "spent_at_most a a"
  by (simp add: spent_at_most_def)

lemma consents_refl [simp]: "consents as as"
  unfolding consents_def by (intro conjI exI [of _ as] exI [of _ "[]"]) (simp_all add: list_all2_refl)

lemma spent_at_most_trans: "spent_at_most a b \<Longrightarrow> spent_at_most b c \<Longrightarrow> spent_at_most a c"
  by (auto simp: spent_at_most_def)

lemma spent_at_most_status: "spent_at_most a b \<Longrightarrow> a_status b = a_status a"
  by (auto simp: spent_at_most_def)

lemma consents_trans:
  assumes "consents as bs" "consents bs cs"
  shows "consents as cs"
proof -
  from assms obtain b1 b2 c1 c2 where b: "bs = b1 @ b2" "list_all2 spent_at_most as b1" "\<forall>a \<in> set b2. a_status a = APending"
    and c: "cs = c1 @ c2" "list_all2 spent_at_most bs c1" "\<forall>a \<in> set c2. a_status a = APending"
    unfolding consents_def by blast
  from c(2) b(1) obtain d1 d2 where d: "c1 = d1 @ d2" "list_all2 spent_at_most b1 d1" "list_all2 spent_at_most b2 d2"
    by (auto simp: list_all2_append1)
  have "list_all2 spent_at_most as d1" using list_all2_trans [OF spent_at_most_trans b(2) d(2)] .
  moreover have "a_status y = APending" if "y \<in> set d2" for y
  proof -
    from that d(3) obtain x where "x \<in> set b2" "spent_at_most x y" by (metis list_all2_conv_all_nth in_set_conv_nth)
    with b(3) show ?thesis using spent_at_most_status by fastforce
  qed
  then have "\<forall>a \<in> set (d2 @ c2). a_status a = APending" using c(3) by auto
  moreover have "cs = d1 @ (d2 @ c2)" by (simp add: c(1) d(1))
  moreover have "keyed appr_key as \<longrightarrow> keyed appr_key cs" using assms unfolding consents_def by blast
  ultimately show ?thesis unfolding consents_def by blast
qed

lemma consents_spend: "(\<And>a. P a \<Longrightarrow> a_consumed_at a = None) \<Longrightarrow> consents as (upd P (\<lambda>a. a\<lparr>a_consumed_at := w\<rparr>) as)"
  unfolding consents_def
  by (intro conjI exI [of _ "upd P (\<lambda>a. a\<lparr>a_consumed_at := w\<rparr>) as"] exI [of _ "[]"])
     (auto simp: upd_def list_all2_map2 list.rel_refl_strong spent_at_most_def keyed_def o_def if_distrib cong: if_cong intro!: list_all2_all_nthI)

lemma consents_ask: "a_status a = APending \<Longrightarrow> find (is_appr (a_persona_id a) (a_approval_id a)) as = None \<Longrightarrow> consents as (as @ [a])"
  unfolding consents_def
  by (intro conjI exI [of _ as] exI [of _ "[a]"]) (auto simp: list_all2_refl keyed_snoc find_None_iff is_appr_def)

lemma journal_grows_refl [simp]: "journal_grows db db"
  by (simp add: journal_grows_def)

lemma journal_grows_trans: "journal_grows a b \<Longrightarrow> journal_grows b c \<Longrightarrow> journal_grows a c"
  unfolding journal_grows_def by (meson prefix_order.trans)

lemma journal_grows_same: "events db' = events db \<Longrightarrow> outbox db' = outbox db \<Longrightarrow> journal_grows db db'"
  by (simp add: journal_grows_def gapless_def out_gapless_def)

lemma quiet_trans: "quiet a b \<Longrightarrow> quiet b c \<Longrightarrow> quiet a c"
  by (auto simp: quiet_def intro: journal_grows_trans consents_trans phases.grows_trans job_lawful_trans term_lawful_trans mem_lawful_trans inbox_told_trans)

lemma noted_of_phase: "map phase rs = map phase ss \<Longrightarrow> noted_of rs = noted_of ss"
proof -
  have "noted_of rs = {(p, x) | p x. \<exists>f \<in> set (map phase rs). fst f = p \<and> fst (snd f) = jobInputPrefix @ x}" for rs
    by (auto simp: noted_of_def phase_def)
  then show "map phase rs = map phase ss \<Longrightarrow> noted_of rs = noted_of ss" by (simp del: set_map)
qed

lemma keys_of_phase: "map phase rs = map phase ss \<Longrightarrow> input_key ` set rs = input_key ` set ss"
proof -
  have k: "input_key ` set rs = (\<lambda>f. (fst f, fst (snd f))) ` set (map phase rs)" for rs
    by (simp add: image_image phase_def)
  show "input_key ` set rs = input_key ` set ss" if "map phase rs = map phase ss" by (simp only: k that)
qed

lemma journal_idle_lawful: "journal_grows db db' \<Longrightarrow> mem_idle db db' \<Longrightarrow> mem_lawful db db'"
  by (auto simp: journal_grows_def prefix_def intro: mem_idle_lawful)

lemma quietI:
  assumes "journal_grows db db'" "map phase (inputs db') = map phase (inputs db)" "jobs db' = jobs db" "terminals db' = terminals db"
    "standing db' = standing db" "consents (approvals db) (approvals db')" "chunks db' = chunks db" "branches db' = branches db"
    "map input_face (inputs db') = map input_face (inputs db)"
  shows "quiet db db'"
  using assms inbox_told_same [OF assms(9)] noted_of_phase [OF assms(2)] keys_of_phase [OF assms(2)] journal_idle_lawful [OF assms(1)] mem_idle_same [OF assms(7,8)]
  by (simp add: quiet_def phases.grows_refl job_lawful_same term_lawful_same)

lemma quiet_refl [simp]: "quiet db db"
  by (rule quietI) simp_all

lemma quiet_same:
  assumes "events db' = events db" "outbox db' = outbox db" "inputs db' = inputs db" "jobs db' = jobs db" "terminals db' = terminals db"
    "standing db' = standing db" "consents (approvals db) (approvals db')" "chunks db' = chunks db" "branches db' = branches db"
  shows "quiet db db'"
  using assms by (intro quietI) (simp_all add: journal_grows_same)

text \<open>A job transaction under the lifecycle is quiet.\<close>

lemma job_frame_quiet:
  assumes "job_frame db db'" "job_lawful db db'"
  shows "quiet db db'"
proof -
  from assms(1) obtain js n news where d: "db' = db\<lparr>jobs := js, admission_next := n, inputs := inputs db @ news\<rparr>"
    "list_all (\<lambda>r. i_status r = IQueued \<and> has_prefix (i_input_id r) jobInputPrefix) news" by (auto simp: job_frame_def)
  have "grows (=) queued_phase (map phase (inputs db)) (map phase (inputs db'))"
    using d by (simp add: grows_def list_all2_refl list_all_iff queued_phase_def phase_def)
  moreover have "term_lawful db db'" by (rule term_lawful_same) (auto simp: d(1))
  moreover have "mem_lawful db db'" by (rule mem_lawful_branches) (simp_all add: d(1))
  moreover have "inbox_told db db'"
    by (rule inbox_told_other [where news = news])
      (use d in \<open>auto simp: list_all_iff jobInputPrefix_def terminalInputPrefix_def dest!: has_prefixE\<close>)
  ultimately show ?thesis using assms(2) by (simp add: quiet_def d(1) journal_grows_same)
qed

text \<open>So is a transaction of the terminals.\<close>

lemma term_frame_quiet:
  assumes "term_frame db db'" "term_progress db db'"
  shows "quiet db db'"
proof -
  from assms(1) obtain ts n news where d: "db' = db\<lparr>terminals := ts, admission_next := n, inputs := inputs db @ news\<rparr>"
    "list_all end_notice news" by (auto simp: term_frame_def)
  have "grows (=) queued_phase (map phase (inputs db)) (map phase (inputs db'))"
    using d by (simp add: grows_def list_all2_refl list_all_iff queued_phase_def phase_def end_notice_def)
  moreover have "noted_of news = {}"
    using d(2) by (auto simp: noted_of_def list_all_iff end_notice_def terminalInputPrefix_def jobInputPrefix_def)
  then have "job_lawful db db'" by (intro job_lawful_same) (simp_all add: d(1))
  moreover have "mem_lawful db db'" by (rule mem_lawful_branches) (simp_all add: d(1))
  moreover have "inbox_told db db'"
    using assms(2) by (auto simp: inbox_told_def term_progress_def news_told_def d(1))
  ultimately show ?thesis using term_progress_lawful [OF assms(2)] by (simp add: quiet_def d(1) journal_grows_same)
qed

text \<open>And one of the memory layer.\<close>

lemma mem_tx_quiet:
  assumes "mem_tx db db'"
  shows "quiet db db'"
proof -
  from assms obtain cs bs n news where d: "db' = db\<lparr>chunks := cs, branches := bs, admission_next := n, inputs := inputs db @ news\<rparr>"
    "list_all memory_notice news" and l: "mem_lawful db db'" by (auto simp: mem_tx_def mem_frame_def)
  have "grows (=) queued_phase (map phase (inputs db)) (map phase (inputs db'))"
    using d by (simp add: grows_def list_all2_refl list_all_iff queued_phase_def phase_def memory_notice_def)
  moreover have "noted_of news = {}"
    using d(2) by (auto simp: noted_of_def list_all_iff memory_notice_def jobInputPrefix_def)
  then have "job_lawful db db'" by (intro job_lawful_same) (simp_all add: d(1))
  moreover have "term_lawful db db'" by (rule term_lawful_same) (auto simp: d(1))
  moreover have "inbox_told db db'"
    by (rule inbox_told_other [where news = news])
      (use d in \<open>auto simp: list_all_iff memory_notice_def terminalInputPrefix_def dest!: has_prefixE\<close>)
  ultimately show ?thesis using l by (simp add: quiet_def d(1) journal_grows_same)
qed

lemma events_appended:
  assumes "events db' = events db @ event_rows p t (last_seq db p) es" "outbox db' = outbox db"
  shows "journal_grows db db'"
proof -
  let ?d = "db\<lparr>events := events db @ event_rows p t (last_seq db p) es\<rparr>"
  have g: "gapless db' q = gapless ?d q" "out_gapless db' q = out_gapless db q" for q
    using assms by (simp_all add: gapless_def out_gapless_def)
  moreover have "gapless db q \<Longrightarrow> gapless ?d q" for q
    by (cases "q = p") (simp_all add: gapless_append gapless_other)
  ultimately show ?thesis using assms by (simp add: journal_grows_def)
qed

lemma outbox_appended:
  assumes "appendOutbox p k m db = Inr (db', s)"
  shows "journal_grows db db'" "\<exists>os. db' = db\<lparr>outbox := os\<rparr>"
proof -
  from assms have s: "s = Suc (out_last db p)"
    and d: "db' = db\<lparr>outbox := outbox db @ [\<lparr>ob_persona_id = p, ob_seq = s, ob_kind = k, ob_payload = m, ob_delivered_at = None\<rparr>]\<rparr>"
    by (auto simp: appendOutbox_def res_simps Let_def)
  have "out_gapless db' q" if "out_gapless db q" for q
  proof (cases "q = p")
    case True
    let ?n = "length (filter (\<lambda>x. ob_persona_id x = p) (outbox db))"
    have "out_last db p = ?n" using that True by (simp add: out_gapless_def out_last_def maxl_upto del: upt_Suc)
    then show ?thesis using that True by (simp add: out_gapless_def d s)
  next
    case False
    then show ?thesis using that by (simp add: out_gapless_def d)
  qed
  then show "journal_grows db db'" by (simp add: journal_grows_def gapless_def d)
  show "\<exists>os. db' = db\<lparr>outbox := os\<rparr>" using d by blast
qed

lemma phase_upd: "(\<And>r. phase (f r) = phase r) \<Longrightarrow> map phase (upd P f rs) = map phase rs"
  by (rule map_upd_key)

lemma appendEventsTx_quiet: "appendEventsTx p t es db = Inr db' \<Longrightarrow> quiet db db'"
  by (drule appendEventsTx_ok(1)) (auto intro!: quietI intro: events_appended)

lemma consume_quiet: "quiet db (consume_grant now p a db)"
  by (rule quiet_same) (auto simp: consume_grant_def intro: consents_spend)

lemma insert_approval_quiet: "insert_approval a db = Inr db' \<Longrightarrow> a_status a = APending \<Longrightarrow> quiet db db'"
  by (auto simp: insert_approval_def split: if_splits intro!: quiet_same consents_ask)

lemma ensureInputReceived_quiet:
  assumes "ensureInputReceived ft p i t db = Inr db'"
  shows "quiet db db'"
  using assms
proof (cases rule: ensureInputReceived_cases)
  case (journaled r tr m)
  have "journal_grows db db'"
    by (rule events_appended [of db' db p t "[ev ''input_received'' m]"]) (simp_all add: journaled(5) del: event_rows.simps)
  moreover have "map phase (inputs db') = map phase (inputs db)"
    by (simp add: journaled(5) phase_upd phase_def)
  moreover have "map input_face (inputs db') = map input_face (inputs db)" by (simp add: journaled(5) map_upd_key)
  ultimately show ?thesis by (intro quietI) (simp_all add: journaled(5))
qed simp

lemma journalExperienceTx_quiet: "journalExperienceTx ft p t i es db = Inr db' \<Longrightarrow> quiet db db'"
  unfolding journalExperienceTx_def rbind_eq_Inr
  by (blast intro: quiet_trans ensureInputReceived_quiet appendEventsTx_quiet)

lemma journalOutcomeTx_quiet: "journalOutcomeTx ft sp p t i c op a db = Inr db' \<Longrightarrow> quiet db db'"
  by (auto simp: journalOutcomeTx_def split: option.splits intro: journalExperienceTx_quiet)

lemma journalCompletedTx_quiet: "journalCompletedTx ft sp p op db = Inr db' \<Longrightarrow> quiet db db'"
  by (auto simp: journalCompletedTx_def split: option.splits if_splits intro: journalOutcomeTx_quiet)

lemma journalRejectedClaim_quiet: "journalRejectedClaim ft p t gen idx tool req e db = Inr (db', u) \<Longrightarrow> quiet db db'"
  unfolding journalRejectedClaim_def rbind_eq_Inr
  by (auto simp: rbind_eq_Inr split: option.splits if_splits intro: journalExperienceTx_quiet)

lemma journal_claim_quiet: "journal_claim st p t cx op ja a fresh db = Inr (db', op', a', fresh') \<Longrightarrow> quiet db db'"
  unfolding journal_claim_def rbind_eq_Inr by (auto intro: journalOutcomeTx_quiet)

lemma finish_op_quiet: "finish_op now P s r db = Inr (db', x) \<Longrightarrow> quiet db db'"
  by (auto simp: finish_op_def res_simps intro!: quiet_same)

lemma new_jobs_lawful: "new_jobs now p db db' \<Longrightarrow> job_lawful db db'"
  unfolding job_lawful_def
proof
  assume n: "new_jobs now p db db'" and ok: "jobs_ok db"
  from n obtain js where d: "db' = db\<lparr>jobs := jobs db @ js\<rparr>" and k: "keyed job_key (jobs db) \<longrightarrow> keyed job_key (jobs db')"
    and new: "list_all (\<lambda>j. \<exists>x kind m c. j = new_job now p x kind m c) js" by (auto simp: new_jobs_def)
  have "j_status j = JQueued \<and> job_wf j" if "j \<in> set js" for j
    using new that new_job_wf by (fastforce simp: list_all_iff new_job_def)
  then have "ended_of js = {}" "list_all job_wf js" by (auto simp: ended_of_def list_all_iff jobTerminal_def)
  then show "jobs_ok db' \<and> grows job_moved (\<lambda>_. True) (jobs db) (jobs db')"
    using ok k by (simp add: jobs_ok_def d grows_def list_all2_refl job_moved_refl list.pred_True)
qed

lemma internalToolResponse_quiet:
  assumes "outcome_db (internalToolResponse st now clock p t i tool idx key req db) = Some db'"
  shows "quiet db db'"
proof -
  have eff: "quiet db db'" if "outcome_db (effect_outcome now p b r db) = Some db'" for b r
  proof -
    from effect_outcome_new [OF that] obtain d where n: "new_jobs now p (db\<lparr>domain := d\<rparr>) db'" by blast
    then have "job_lawful (db\<lparr>domain := d\<rparr>) db'" by (rule new_jobs_lawful)
    with n have "quiet (db\<lparr>domain := d\<rparr>) db'" by (auto simp: new_jobs_def intro!: job_frame_quiet)
    moreover have "quiet db (db\<lparr>domain := d\<rparr>)" by (rule quiet_same) simp_all
    ultimately show ?thesis by (rule quiet_trans [rotated])
  qed
  have job: "quiet db db'" if r: "outcome_db (internalJobTool st now (int clock div 1000) p t i tool idx req db) = Some db'"
  proof (rule job_frame_quiet [OF internalJobTool_frame [OF r]])
    from r show "job_lawful db db'"
      by (cases rule: internalJobTool_cases)
         (auto intro: submitJobTx_lawful cancelJobTx_lawful)
  qed
  have trm: "quiet db db'" if r: "outcome_db (internalTerminalTool st now clock p tool req db) = Some db'"
  proof (rule term_frame_quiet [OF internalTerminalTool_frame [OF r]])
    from r show "term_progress db db'"
      by (cases rule: internalTerminalTool_cases)
         (auto intro: create_progress submit_progress close_progress)
  qed
  have sch: "outcome_db (scheduleSet st now clock p req db) = Some db' \<Longrightarrow> quiet db db'"
    by (auto simp: scheduleSet_def schedule_existing_def outcome_db_def Let_def split: option.splits if_splits
        intro!: quiet_same)
  have note': "quiet db db'" if "outcome_db (journalNote st p t i req db) = Some db'"
  proof (cases "str_field req ''text'' = []")
    case True
    with that show ?thesis by (simp add: journalNote_def outcome_db_def)
  next
    case False
    with that obtain db1 s where e: "ensureInputReceived (st_fmt_time st) p i t db = Inr db1"
      and a: "appendEvent p t ''note'' [(''text'', JStr (str_field req ''text''))] db1 = Inr (db', s)"
      by (auto simp: journalNote_def of_statement_def outcome_db_def rbind_def split: sum.splits prod.splits)
    from appendEvent_as_rows(1) [OF a] have "quiet db1 db'"
      by (auto intro!: quietI intro: events_appended simp del: event_rows.simps)
    with ensureInputReceived_quiet [OF e] show ?thesis by (rule quiet_trans)
  qed
  have msg: "quiet db db'" if "outcome_db (messageSend p t req db) = Some db'"
  proof (cases "str_field req ''text'' = []")
    case True
    with that show ?thesis by (simp add: messageSend_def outcome_db_def)
  next
    case False
    with that obtain m s where "appendOutbox p ''secretary_message'' m db = Inr (db', s)"
      by (auto simp: messageSend_def of_statement_def outcome_db_def rbind_def split: sum.splits prod.splits)
    from outbox_appended [OF this] show ?thesis by (auto intro!: quietI)
  qed
  have mem: "outcome_db (memory_resume st now clock p req db) = Some db' \<Longrightarrow> quiet db db'"
    by (auto simp: memory_resume_def outcome_db_def split: sum.splits dest!: resumeMemory_tx intro: mem_tx_quiet)
  have hist: "outcome_db (history_tool st p req db) = Some db' \<Longrightarrow> quiet db db'"
    by (drule history_tool_db) simp
  have none: "outcome_db (Ran db r f) = Some db' \<Longrightarrow> quiet db db'" for r f
    by (simp add: outcome_db_def)
  show ?thesis
    using assms unfolding internalToolResponse_def
    by (auto split: if_splits option.splits intro: eff job trm sch note' msg mem hist none)
qed

lemma run_approved_quiet:
  assumes "run_approved st now clock p t cx op a db = Inr (db', op', a', fresh)"
  shows "quiet db db'"
proof -
  let ?a' = "a\<lparr>a_consumed_at := Some now\<rparr>"
  from assms obtain db1 where j: "journalExperienceTx (st_fmt_time st) p t (cx_input cx) (decided (cx_pos cx)) (consume_grant now p a db) = Inr db1"
    by (auto simp: run_approved_def Let_def rbind_eq_Inr)
  let ?out = "internalToolResponse st now clock p (o_turn_id op) (cx_input cx) (o_tool op) (cx_index cx)
               (o_idempotency_key op) (o_request op) db1"
  from assms j obtain db2 s r db3 x where o: "outcome_db ?out = Some db2" "finish_op now (awaits p op) s r db2 = Inr (db3, x)"
      "journal_claim st p t cx x (Some ?a') (Some ?a') True db3 = Inr (db', op', a', fresh)"
    by (auto simp: run_approved_def Let_def rbind_eq_Inr outcome_db_def split: tool_outcome.splits bool.splits if_splits err.splits)
  with j o show ?thesis
    by (meson consume_quiet quiet_trans journalExperienceTx_quiet internalToolResponse_quiet finish_op_quiet journal_claim_quiet)
qed

lemma claim_decided_quiet:
  assumes "claim_decided st now clock p t cx op fresh db = Inr (db', op', a', fresh')"
  shows "quiet db db'"
proof -
  from assms obtain a where a: "approvalForCall db p (cx_input cx) (cx_index cx) = Some a"
    by (auto simp: claim_decided_def res_simps)
  show ?thesis
  proof (cases "a_status a = AApproved \<and> a_consumed_at a = None")
    case True
    with assms a show ?thesis by (intro run_approved_quiet) (auto simp: claim_decided_def)
  next
    case False
    with assms a have "(\<exists>es. journalExperienceTx (st_fmt_time st) p t (cx_input cx) es db = Inr db')
        \<or> journal_claim st p t cx op (Some a) (Some a) False db = Inr (db', op', a', fresh')"
      by (cases "a_status a") (auto simp: claim_decided_def rbind_eq_Inr split: if_splits)
    then show ?thesis using journalExperienceTx_quiet journal_claim_quiet by blast
  qed
qed

lemma claimGated_quiet:
  assumes "claimGated st now clock p t cx op rb fresh db = Inr (db', op', a', fresh')"
  shows "quiet db db'"
proof -
  consider (replay) a where "journal_claim st p t cx op a a False db = Inr (db', op', a', fresh')"
    | (again) "claim_decided st now clock p t cx op False db = Inr (db', op', a', fresh')"
    | (invalid) r db1 x where "finish_op now (is_op p (o_operation_id op)) OFailed r db = Inr (db1, x)"
        "journal_claim st p t cx x None None True db1 = Inr (db', op', a', fresh')"
    | (park) a db1 where "insert_approval a db = Inr db1" "a_status a = APending" "claim_decided st now clock p t cx op True db1 = Inr (db', op', a', fresh')"
    using assms by (auto simp: claimGated_def new_approval_def Let_def rbind_eq_Inr split: if_splits option.splits)
  then show ?thesis
  proof cases
    case replay
    then show ?thesis by (rule journal_claim_quiet)
  next
    case again
    then show ?thesis by (rule claim_decided_quiet)
  next
    case invalid
    then show ?thesis by (meson quiet_trans finish_op_quiet journal_claim_quiet)
  next
    case park
    then show ?thesis by (meson insert_approval_quiet quiet_trans claim_decided_quiet)
  qed
qed

lemma claim_fresh_quiet:
  assumes "claim_fresh st now clock p t gen cx op db = Inr (db', op', a', fresh')"
  shows "quiet db db'"
proof -
  have fin: "quiet d db'" if "rbind (finish_op now P s r d) (\<lambda>(db1, op'). journal_claim st p t cx op' ja a f db1) = Inr (db', op', a', fresh')"
    for P s r d ja a f
    using that unfolding rbind_eq_Inr by (auto intro: quiet_trans finish_op_quiet journal_claim_quiet)
  consider (denied) a where "deniedIdenticalCall db p (cx_input cx) (o_tool op) (o_request op) = Some a"
    | (blocked) "deniedIdenticalCall db p (cx_input cx) (o_tool op) (o_request op) = None"
        "elevatedOnlyTool (o_tool op) \<and> cx_route cx \<noteq> ''elevated''"
    | (run) "deniedIdenticalCall db p (cx_input cx) (o_tool op) (o_request op) = None"
        "\<not> (elevatedOnlyTool (o_tool op) \<and> cx_route cx \<noteq> ''elevated'')"
    by (cases "deniedIdenticalCall db p (cx_input cx) (o_tool op) (o_request op)") auto
  then show ?thesis
  proof cases
    case denied
    with assms show ?thesis by (auto simp: claim_fresh_def intro: fin)
  next
    case blocked
    with assms show ?thesis by (auto simp: claim_fresh_def intro: fin)
  next
    case run
    let ?out = "internalToolResponse st now clock p t (cx_input cx) (o_tool op) (cx_index cx) (o_idempotency_key op) (o_request op)"
    from assms run obtain db1 where j: "journalExperienceTx (st_fmt_time st) p t (cx_input cx) (decided (cx_pos cx)) db = Inr db1"
      by (auto simp: claim_fresh_def rbind_eq_Inr)
    from assms run j obtain d resp where ran: "?out db1 = Ran d resp True"
      by (cases "?out db1") (auto simp: claim_fresh_def split: bool.splits)
    with assms run j have "quiet d db'" by (intro fin) (auto simp: claim_fresh_def)
    moreover have "outcome_db (?out db1) = Some d" by (simp add: ran outcome_db_def)
    then have "quiet db1 d" by (rule internalToolResponse_quiet)
    ultimately show ?thesis using journalExperienceTx_quiet [OF j] by (meson quiet_trans)
  qed
qed

lemma claimOperation_quiet:
  assumes "claimOperation st now clock p t gen opid tool idx req db = Inr (db', op', a', fresh')"
  shows "quiet db db'"
  using assms
proof (cases rule: claimOperation_cases)
  case (gated cx op db1)
  have "quiet db db1" by (simp add: gated(5) quiet_same)
  with claimGated_quiet [OF gated(10)] show ?thesis by (rule quiet_trans [rotated])
next
  case (normal cx op db1)
  have "quiet db db1" by (simp add: normal(5) quiet_same)
  with claim_fresh_quiet [OF normal(12)] show ?thesis by (rule quiet_trans [rotated])
next
  case (reclaimed cx o0)
  then show ?thesis by (simp add: quiet_same)
next
  case (replayed cx o0 resp)
  then show ?thesis by (auto split: if_splits intro: claimGated_quiet journal_claim_quiet)
qed

end
