(* ===== verification/Core_Account.thy ===== *)
theory Core_Account
  imports Core_Frames
begin

text \<open>
  Where every input is. The inbox is \<open>accounted\<close>: an input that is neither queued nor done is
  claimed by a running turn, or waits for a pending approval or a budget. The lemmas show that
  every operation keeps it so; the usage operations are \<open>releases\<close>, which touch nothing but the
  usage tables and the inputs they free.
\<close>

section \<open>The invariant\<close>

definition reason :: "'d db \<Rightarrow> string \<Rightarrow> string \<Rightarrow> bool" where
  "reason db p i \<longleftrightarrow> approval_pending db p i \<or> list_ex (is_wait p i) (waits db)"

definition in_hand :: "'d db \<Rightarrow> string \<Rightarrow> string \<Rightarrow> bool" where
  "in_hand db p i \<longleftrightarrow> list_ex (\<lambda>t. is_running p t \<and> t_input_id t = i) (turns db)"

definition placed :: "'d db \<Rightarrow> input_row \<Rightarrow> bool" where
  "placed db r = (case i_status r of
      IQueued \<Rightarrow> True
    | IDone \<Rightarrow> True
    | IWaiting \<Rightarrow> reason db (i_persona_id r) (i_input_id r)
    | IClaimed \<Rightarrow> in_hand db (i_persona_id r) (i_input_id r))"

definition accounted :: "'d db \<Rightarrow> bool" where
  "accounted db \<longleftrightarrow> list_all (placed db) (inputs db)"

lemma accounted_iff: "accounted db \<longleftrightarrow> (\<forall>r \<in> set (inputs db). placed db r)"
  by (simp add: accounted_def list_all_iff)

lemma placed_phase: "phase r' = phase r \<Longrightarrow> placed db r' = placed db r"
  by (auto simp: placed_def phase_def split: input_status.splits)

lemma placed_by_phase: "list_all (placed d) rs \<longleftrightarrow> list_all (\<lambda>(p, i, s). case s of IQueued \<Rightarrow> True | IDone \<Rightarrow> True
    | IWaiting \<Rightarrow> reason d p i | IClaimed \<Rightarrow> in_hand d p i) (map phase rs)"
  by (simp add: list.pred_map placed_def [abs_def] phase_def comp_def)

lemma grows_placed:
  assumes "grows (=) queued_phase (map phase rs) (map phase rs')" "list_all (placed d) rs"
  shows "list_all (placed d) rs'"
proof -
  from assms(1) obtain news where n: "map phase rs' = map phase rs @ news" "list_all queued_phase news"
    by (auto simp: grows_alt list_all2_eq [symmetric])
  have "list_all (\<lambda>(p, i, s). case s of IQueued \<Rightarrow> True | IDone \<Rightarrow> True | IWaiting \<Rightarrow> reason d p i | IClaimed \<Rightarrow> in_hand d p i) news"
    using n(2) by (auto simp: list_all_iff queued_phase_def)
  with assms(2) n(1) show ?thesis unfolding placed_by_phase by simp
qed

lemma consents_pending: "consents (approvals db) (approvals db') \<Longrightarrow> approval_pending db p i \<Longrightarrow> approval_pending db' p i"
proof -
  assume "consents (approvals db) (approvals db')" and "approval_pending db p i"
  then obtain bs cs a where as: "approvals db' = bs @ cs" "list_all2 spent_at_most (approvals db) bs"
    and a: "a \<in> set (approvals db)" "a_persona_id a = p" "a_input_id a = i" "a_status a = APending"
    by (auto simp: consents_def approval_pending_def list_ex_iff)
  from as(2) a(1) obtain b where "b \<in> set bs" "spent_at_most a b"
    by (metis list_all2_conv_all_nth in_set_conv_nth)
  with a have "a_persona_id b = p" "a_input_id b = i" "a_status b = APending" by (auto simp: spent_at_most_def)
  with as(1) \<open>b \<in> set bs\<close> show "approval_pending db' p i" by (auto simp: approval_pending_def list_ex_iff)
qed

lemma quiet_accounted:
  assumes "quiet db db'" "accounted db"
  shows "accounted db'"
proof -
  have "placed db r \<Longrightarrow> placed db' r" for r
    using assms(1) consents_pending [of db db']
    by (auto simp: quiet_def placed_def reason_def in_hand_def split: input_status.splits)
  moreover have "list_all (placed db) (inputs db')"
    using assms by (auto simp: quiet_def accounted_def intro: grows_placed)
  ultimately show ?thesis by (auto simp: accounted_def list_all_iff)
qed

text \<open>
  A transaction apart from jobs, terminals and memory: none moves, no job notification comes or
  goes, no input goes or says something else.
\<close>

definition apart :: "'d db \<Rightarrow> 'd db \<Rightarrow> bool" where
  "apart db db' \<longleftrightarrow> jobs db' = jobs db \<and> noted_of (inputs db') = noted_of (inputs db) \<and> terminals db' = terminals db
     \<and> faces_kept (inputs db) (inputs db') \<and> mem_idle db db'"

lemma apart_lawful: "apart db db' \<Longrightarrow> job_lawful db db'" "apart db db' \<Longrightarrow> term_lawful db db'"
  by (simp add: apart_def job_lawful_same) (simp only: apart_def term_lawful_same faces_kept_keys)

lemma apart_mem: "apart db db' \<Longrightarrow> journal_grows db db' \<Longrightarrow> mem_lawful db db'"
  by (simp add: apart_def journal_idle_lawful)

lemma apart_refl [simp]: "apart db db"
  by (simp add: apart_def mem_idle_same)

lemma apart_trans:
  assumes "apart a b" "apart b c"
  shows "apart a c"
proof -
  have "faces_kept (inputs a) (inputs c)"
    by (rule faces_kept_trans [of _ "inputs b"]) (use assms in \<open>simp_all only: apart_def\<close>)
  with assms show ?thesis using mem_idle_trans [of a b c] by (simp add: apart_def)
qed

lemma noted_of_keys: "map input_key rs = map input_key ss \<Longrightarrow> noted_of rs = noted_of ss"
proof -
  assume m: "map input_key rs = map input_key ss"
  have n: "(p, x) \<in> noted_of qs \<longleftrightarrow> (p, jobInputPrefix @ x) \<in> set (map input_key qs)" for p x qs
    by (auto simp: noted_of_def image_iff)
  show ?thesis by (rule set_eqI) (simp only: n m split_paired_all)
qed

lemma apart_idle:
  assumes "jobs db' = jobs db" "terminals db' = terminals db" "map input_face (inputs db') = map input_face (inputs db)" "mem_idle db db'"
  shows "apart db db'"
proof -
  have "map input_key rs = map (\<lambda>f. (fst f, fst (snd f))) (map input_face rs)" for rs by (simp add: input_face_def)
  then have "map input_key (inputs db') = map input_key (inputs db)" by (simp only: assms(3))
  from noted_of_keys [OF this] assms(1,2,4) faces_kept_map [OF assms(3)] show ?thesis by (simp add: apart_def)
qed

lemmas apartI = apart_idle [OF _ _ _ mem_idle_same]

section \<open>The usage operations\<close>

definition releases :: "'d db \<Rightarrow> 'd db \<Rightarrow> bool" where
  "releases db db' \<longleftrightarrow> (\<exists>fs rs bs ws is cs. db' = db\<lparr>facts := fs, reservations := rs, budgets := bs, waits := ws, inputs := is, chunks := cs\<rparr>)
     \<and> (accounted db \<longrightarrow> accounted db') \<and> apart db db'"

lemma placed_same:
  assumes "approvals db' = approvals db" "waits db' = waits db" "turns db' = turns db"
  shows "placed db' = placed db"
  using assms by (simp add: fun_eq_iff placed_def reason_def in_hand_def approval_pending_def split: input_status.splits)

lemma list_ex_upd: "(\<And>x. Q (f x) = Q x) \<Longrightarrow> list_ex Q (upd P f xs) = list_ex Q xs"
  by (induction xs) auto

lemma releases_trans:
  assumes "releases a b" "releases b c"
  shows "releases a c"
proof -
  from assms have "\<exists>fs rs bs ws is cs. c = a\<lparr>facts := fs, reservations := rs, budgets := bs, waits := ws, inputs := is, chunks := cs\<rparr>"
    unfolding releases_def by force
  with assms show ?thesis unfolding releases_def by (blast intro: apart_trans)
qed

lemma releases_usage:
  assumes "list_all2 reparked (chunks db) cs"
  shows "releases db (db\<lparr>facts := fs, reservations := rs, budgets := bs, chunks := cs\<rparr>)"
proof -
  let ?d = "db\<lparr>facts := fs, reservations := rs, budgets := bs, chunks := cs\<rparr>"
  have "?d = db\<lparr>facts := fs, reservations := rs, budgets := bs, waits := waits db, inputs := inputs db, chunks := cs\<rparr>" by simp
  moreover have "accounted ?d = accounted db" by (simp add: accounted_def placed_same [of ?d db])
  moreover have "apart db ?d" by (rule apart_idle) (simp_all add: mem_idle_def assms)
  ultimately show ?thesis unfolding releases_def by blast
qed

lemma releases_fields:
  "releases db (db\<lparr>facts := fs\<rparr>)" "releases db (db\<lparr>reservations := rs\<rparr>)" "releases db (db\<lparr>budgets := bs\<rparr>)"
  "list_all2 reparked (chunks db) cs \<Longrightarrow> releases db (db\<lparr>chunks := cs\<rparr>)" "releases db db"
  using releases_usage [where db = db and fs = fs and rs = "reservations db" and bs = "budgets db" and cs = "chunks db"]
    releases_usage [where db = db and fs = "facts db" and rs = rs and bs = "budgets db" and cs = "chunks db"]
    releases_usage [where db = db and fs = "facts db" and rs = "reservations db" and bs = bs and cs = "chunks db"]
    releases_usage [where db = db and fs = "facts db" and rs = "reservations db" and bs = "budgets db" and cs = cs]
    releases_usage [where db = db and fs = "facts db" and rs = "reservations db" and bs = "budgets db" and cs = "chunks db"]
  by (simp_all add: list_all2_same reparked_refl)

lemma requeued_phase: "phase (requeued now r) = (i_persona_id r, i_input_id r, IQueued)"
  by (simp add: requeued_def phase_def)

text \<open>Dropping one input's wait and requeueing it, as the resume pass does.\<close>

lemma free_one:
  assumes "requeue_parked now p i (delete_wait p i db) = (db', n)"
  shows "releases db db'"
proof -
  let ?d = "delete_wait p i db"
  have d': "db' = ?d\<lparr>inputs := upd (parked ?d p i) (requeued now) (inputs db)\<rparr>"
    using assms by (auto simp: requeue_parked_def delete_wait_def)
  have "db' = db\<lparr>facts := facts db, reservations := reservations db, budgets := budgets db,
      waits := filter (\<lambda>w. \<not> is_wait p i w) (waits db), inputs := upd (parked ?d p i) (requeued now) (inputs db), chunks := chunks db\<rparr>"
    by (simp add: d' delete_wait_def)
  moreover have "accounted db'" if acc: "accounted db"
    unfolding accounted_iff
  proof
    fix r' assume "r' \<in> set (inputs db')"
    then obtain r where r: "r \<in> set (inputs db)" "r' = (if parked ?d p i r then requeued now r else r)"
      by (auto simp: d' set_upd)
    have keep: "list_ex (is_wait q j) (waits db) \<Longrightarrow> (q, j) \<noteq> (p, i) \<Longrightarrow> list_ex (is_wait q j) (waits db')" for q j
      by (auto simp: d' delete_wait_def list_ex_iff is_wait_def)
    have ap: "approval_pending db' = approval_pending db" "approval_pending ?d = approval_pending db"
      by (rule approval_pending_cong, simp add: d' delete_wait_def)+
    have ih: "in_hand db' = in_hand db" by (simp add: d' delete_wait_def in_hand_def fun_eq_iff)
    show "placed db' r'"
    proof (cases "parked ?d p i r")
      case True
      with r show ?thesis by (simp add: placed_def requeued_def)
    next
      case False
      with r acc have "placed db r" "r' = r" by (auto simp: accounted_iff)
      with False keep [of "i_persona_id r" "i_input_id r"] show ?thesis
        by (auto simp: placed_def reason_def ap ih parked_def is_input_def split: input_status.splits)
    qed
  qed
  moreover have "apart db db'"
    by (rule apartI) (simp_all add: d' delete_wait_def map_upd_key requeued_def)
  ultimately show ?thesis unfolding releases_def by blast
qed

lemma releases_waits:
  assumes "\<And>p i. list_ex (is_wait p i) ws = list_ex (is_wait p i) (waits db)"
  shows "releases db (db\<lparr>waits := ws\<rparr>)"
proof -
  let ?d = "db\<lparr>waits := ws\<rparr>"
  have "?d = db\<lparr>facts := facts db, reservations := reservations db, budgets := budgets db, waits := ws, inputs := inputs db, chunks := chunks db\<rparr>" by simp
  moreover have "placed ?d = placed db"
    using assms by (simp add: fun_eq_iff placed_def reason_def in_hand_def approval_pending_def split: input_status.splits)
  then have "accounted ?d = accounted db" by (simp add: accounted_def)
  moreover have "apart db ?d" by (rule apartI) simp_all
  ultimately show ?thesis unfolding releases_def by blast
qed

lemma resume_loop_releases: "resume_loop now room ws db = (db', n) \<Longrightarrow> releases db db'"
proof (induction ws arbitrary: db n)
  case Nil
  then show ?case by (simp add: releases_fields)
next
  case (Cons w ws)
  consider (bad) e where "fit room (wait_estimate w) = Inl e"
    | (fits) m where "fit room (wait_estimate w) = Inr (True, m)"
    | (short) m where "fit room (wait_estimate w) = Inr (False, m)"
    by (cases "fit room (wait_estimate w)") auto
  then show ?case
  proof cases
    case bad
    with Cons show ?thesis by simp
  next
    case fits
    obtain db1 k m2 where a: "requeue_parked now (w_persona_id w) (w_input_id w) (delete_wait (w_persona_id w) (w_input_id w) db) = (db1, k)"
      and b: "resume_loop now room ws db1 = (db', m2)" using Cons.prems fits by (auto split: prod.splits)
    from free_one [OF a] Cons.IH [OF b] show ?thesis by (rule releases_trans)
  next
    case (short m)
    let ?f = "\<lambda>x. x\<lparr>w_needed_minor := m, w_currency := (case h_budget room of None \<Rightarrow> [] | Some b \<Rightarrow> b_currency b)\<rparr>"
    have "is_wait q j (?f x) = is_wait q j x" for q j x by (simp add: is_wait_def)
    then have "releases db (db\<lparr>waits := upd (is_wait (w_persona_id w) (w_input_id w)) ?f (waits db)\<rparr>)"
      by (intro releases_waits list_ex_upd)
    moreover have "releases (db\<lparr>waits := upd (is_wait (w_persona_id w) (w_input_id w)) ?f (waits db)\<rparr>) db'"
      using Cons.prems short by (intro Cons.IH [of _ n]) simp
    ultimately show ?thesis by (rule releases_trans)
  qed
qed


lemma unparkChunks_releases: "releases db (unparkChunks hs db)"
  unfolding unparkChunks_def
  by (rule releases_fields(4)) (auto simp: upd_def list_all2_map2 list_all2_same reparked_refl, unfold reparked_def, blast)

lemma resumeFundingWaitsTx_releases:
  assumes "resumeFundingWaitsTx u now k i db = Inr (db', n)"
  shows "releases db db'"
proof -
  from assms obtain room db1 hs where "resume_loop now room (funding_waits db k i) db = (db1, n)"
    "db' = (if hs = [] then db1 else unparkChunks hs db1)"
    by (auto simp: resumeFundingWaitsTx_def rbind_eq_Inr case_prod_beta prod_eq_iff)
  then show ?thesis using resume_loop_releases unparkChunks_releases releases_trans by metis
qed

lemma resume_fundings_releases: "resume_fundings u now fs db = Inr db' \<Longrightarrow> releases db db'"
proof (induction fs arbitrary: db)
  case (Cons f fs)
  then obtain k i db1 n where "resumeFundingWaitsTx u now k i db = Inr (db1, n)" "resume_fundings u now fs db1 = Inr db'"
    by (cases f) (auto simp: rbind_eq_Inr)
  then show ?case using Cons.IH resumeFundingWaitsTx_releases releases_trans by blast
qed (simp add: releases_fields)

lemma ResumeWaitsForFunding_releases: "releases db (fst (ResumeWaitsForFunding u now k i db))"
  using resumeFundingWaitsTx_releases
  by (auto simp: ResumeWaitsForFunding_def run_tx_def releases_fields split: sum.splits)

lemma requeue_all_inputs:
  assumes "requeue_all now ws db = (db', n)"
  shows "\<exists>is. db' = db\<lparr>inputs := is\<rparr> \<and> (\<forall>r \<in> set is. i_status r = IQueued \<or> r \<in> set (inputs db) \<and>
     (i_status r = IWaiting \<longrightarrow> list_ex (is_wait (i_persona_id r) (i_input_id r)) ws \<longrightarrow>
        approval_pending db (i_persona_id r) (i_input_id r)))"
  using assms
proof (induction ws arbitrary: db n)
  case Nil
  then show ?case by (intro exI [of _ "inputs db"]) simp
next
  case (Cons w ws)
  let ?p = "w_persona_id w" and ?i = "w_input_id w"
  define db1 where "db1 = db\<lparr>inputs := upd (parked db ?p ?i) (requeued now) (inputs db)\<rparr>"
  obtain m where "requeue_all now ws db1 = (db', m)"
    using Cons.prems by (auto simp: requeue_parked_def db1_def split: prod.splits)
  from Cons.IH [OF this] obtain js where js: "db' = db1\<lparr>inputs := js\<rparr>"
    "\<forall>r \<in> set js. i_status r = IQueued \<or> r \<in> set (inputs db1) \<and>
     (i_status r = IWaiting \<longrightarrow> list_ex (is_wait (i_persona_id r) (i_input_id r)) ws \<longrightarrow>
        approval_pending db1 (i_persona_id r) (i_input_id r))" by blast
  have ap: "approval_pending db1 = approval_pending db" by (rule approval_pending_cong) (simp add: db1_def)
  have one: "i_status r = IQueued \<or> r \<in> set (inputs db) \<and> \<not> parked db ?p ?i r" if "r \<in> set (inputs db1)" for r
    using that by (auto simp: db1_def set_upd requeued_def)
  have "i_status r = IQueued \<or> r \<in> set (inputs db) \<and>
     (i_status r = IWaiting \<longrightarrow> list_ex (is_wait (i_persona_id r) (i_input_id r)) (w # ws) \<longrightarrow>
        approval_pending db (i_persona_id r) (i_input_id r))" if "r \<in> set js" for r
    using js(2) that one [of r] by (auto simp: ap parked_def is_input_def is_wait_def)
  with js(1) show ?case by (auto simp: db1_def)
qed

lemma requeue_all_apart: "requeue_all now ws db = (db', n) \<Longrightarrow> apart db db'"
proof (induction ws arbitrary: db n)
  case (Cons w ws)
  let ?d = "db\<lparr>inputs := upd (parked db (w_persona_id w) (w_input_id w)) (requeued now) (inputs db)\<rparr>"
  obtain m where "requeue_all now ws ?d = (db', m)"
    using Cons.prems by (auto simp: requeue_parked_def split: prod.splits)
  moreover have "apart db ?d" by (rule apartI) (simp_all add: map_upd_key requeued_def)
  ultimately show ?case using Cons.IH apart_trans by blast
qed simp

lemma ResumeWaitsForHuman_releases:
  assumes "ResumeWaitsForHuman now h db = Inr (db', n)"
  shows "releases db db'"
proof -
  define mine where "mine = (\<lambda>w :: wait_row. w_persona_id w \<in> set (human_personas db h))"
  define d where "d = db\<lparr>waits := filter (\<lambda>w. \<not> mine w) (waits db)\<rparr>"
  obtain db1 where q: "requeue_all now (filter mine (waits db)) d = (db1, n)" and d': "db' = unparkChunks [h] db1"
    using assms by (auto simp: ResumeWaitsForHuman_def mine_def d_def Let_def split: prod.splits)
  from requeue_all_inputs [OF q] obtain js where js: "db1 = d\<lparr>inputs := js\<rparr>"
    "\<forall>r \<in> set js. i_status r = IQueued \<or> r \<in> set (inputs db) \<and>
     (i_status r = IWaiting \<longrightarrow> list_ex (is_wait (i_persona_id r) (i_input_id r)) (filter mine (waits db)) \<longrightarrow>
        approval_pending d (i_persona_id r) (i_input_id r))" by (auto simp: d_def)
  have "releases db db1"
    unfolding releases_def
  proof (intro conjI impI)
    show "\<exists>fs rs bs ws is cs. db1 = db\<lparr>facts := fs, reservations := rs, budgets := bs, waits := ws, inputs := is, chunks := cs\<rparr>"
      by (rule exI [of _ "facts db"], rule exI [of _ "reservations db"], rule exI [of _ "budgets db"],
          rule exI [of _ "waits d"], rule exI [of _ js], rule exI [of _ "chunks db"]) (simp add: js d_def)
    show "apart db db1"
      by (rule apart_trans [OF _ requeue_all_apart [OF q]]) (rule apartI, simp_all add: d_def)
    assume acc: "accounted db"
    have ap: "approval_pending db1 = approval_pending db" "approval_pending d = approval_pending db"
      by (rule approval_pending_cong, simp add: js d_def)+
    have kept: "list_ex (is_wait p i) (waits db) \<Longrightarrow> list_ex (is_wait p i) (filter mine (waits db)) \<or> list_ex (is_wait p i) (waits db1)" for p i
      by (auto simp: js d_def list_ex_iff)
    have "placed db1 r" if "r \<in> set js" for r
    proof (cases "i_status r = IQueued")
      case True
      then show ?thesis by (simp add: placed_def)
    next
      case False
      with that js(2) acc have "placed db r" by (auto simp: accounted_iff)
      moreover have "in_hand db1 = in_hand db" by (simp add: js d_def in_hand_def fun_eq_iff)
      ultimately show ?thesis using False that js(2) kept [of "i_persona_id r" "i_input_id r"]
        by (auto simp: placed_def reason_def ap split: input_status.splits)
    qed
    then show "accounted db1" by (simp add: accounted_iff js)
  qed
  then show ?thesis unfolding d' by (rule releases_trans [OF _ unparkChunks_releases])
qed

lemma set_reservations_releases: "releases db (set_reservations P st db)"
  by (simp add: set_reservations_def releases_fields)

lemma RecordUsage_releases:
  assumes "RecordUsage u now p q db = Inr (db', f, fresh)"
  shows "releases db db'"
proof -
  have ex: "releases db db'" if r: "record_existing u now p q res c f0 db = Inr (db', f, fresh)" for res c f0
  proof (cases "lattice f0 q")
    case Upgrade
    let ?d = "db\<lparr>facts := upd (is_fact p (rq_fact_id q)) (upgraded q c) (facts db)\<rparr>"
    let ?d2 = "if rq_status q = ''not_sent'' then set_reservations (is_res p (rq_fact_id q)) RReleased ?d else ?d"
    from Upgrade r have "resume_fundings u now (upgrade_fundings f0 res) ?d2 = Inr db'"
      by (auto simp: record_existing_def rbind_eq_Inr Let_def)
    then have "releases ?d2 db'" by (rule resume_fundings_releases)
    moreover have "releases db ?d" by (rule releases_fields)
    moreover have "releases ?d ?d2" by (simp add: set_reservations_releases releases_fields)
    ultimately show ?thesis by (meson releases_trans)
  qed (use r in \<open>auto simp: record_existing_def releases_fields\<close>)
  have fr: "releases db db'" if r: "record_fresh u now p q res c db = Inr (db', f, fresh)" for res c
  proof -
    let ?s = "set_reservations (\<lambda>r. is_res p (rq_fact_id q) r \<and> r_status r = RHeld)
       (if rq_status q = ''not_sent'' then RReleased else RSettled) (db\<lparr>facts := facts db @ [new_fact p q c]\<rparr>)"
    have s: "releases db ?s" by (rule releases_trans [OF releases_fields(1) set_reservations_releases])
    show ?thesis
    proof (cases res)
      case None
      with r s show ?thesis by (auto simp: record_fresh_def Let_def)
    next
      case (Some x)
      with r obtain n where "resumeFundingWaitsTx u now (f_kind (r_funding x)) (f_id (r_funding x)) ?s = Inr (db', n)"
        by (auto simp: record_fresh_def Let_def rbind_eq_Inr)
      with s show ?thesis using resumeFundingWaitsTx_releases releases_trans by blast
    qed
  qed
  show ?thesis
    using assms by (auto simp: RecordUsage_def rbind_eq_Inr Let_def split: option.splits intro: ex fr)
qed

lemma AdmitUsage_releases:
  assumes "AdmitUsage u p q db = Inr (db', r)"
  shows "releases db db'"
proof -
  have ins: "releases db d'" if "insert_reservation p q cd n d = Inr (d', x)" "d = db" for cd n d d' x
    using that by (auto simp: insert_reservation_def rbind_eq_Inr Let_def releases_fields)
  have rep: "d' = d" if "admit_replay q x d = Inr (d', y)" for x y d d' using that by (auto simp: admit_replay_def rbind_eq_Inr split: if_splits)
  have cap: "releases db db'" if "admit_capped p q b db = Inr (db', r)" for b
    using that ins by (auto simp: admit_capped_def rbind_eq_Inr Let_def releases_fields split: if_splits)
  show ?thesis
  proof (cases "res_of db p (aq_fact_id q)")
    case None
    with assms ins cap show ?thesis by (auto simp: AdmitUsage_def rbind_eq_Inr Let_def split: option.splits if_splits)
  next
    case (Some x)
    with assms have "admit_replay q x db = Inr (db', r)" by (auto simp: AdmitUsage_def rbind_eq_Inr Let_def split: if_splits)
    with rep show ?thesis using releases_fields(5) by blast
  qed
qed

lemma write_budget_releases: "releases db (fst (write_budget u now k i b db))"
proof -
  have up: "releases db db1" if "upsert_budget x db = Inr db1" for x db1
    using that by (auto simp: upsert_budget_def rbind_eq_Inr releases_fields split: if_splits)
  let ?b = "b\<lparr>b_funding_kind := k, b_funding_id := i\<rparr>"
  show ?thesis
  proof (cases "upsert_budget ?b db")
    case (Inr db1)
    then have "fst (write_budget u now k i b db) = db \<or> fst (write_budget u now k i b db) = fst (ResumeWaitsForFunding u now k i db1)"
      by (auto simp: write_budget_def Let_def split: prod.splits sum.splits)
    then show ?thesis
      using releases_trans [OF up [OF Inr] ResumeWaitsForFunding_releases [of db1 u now k i]] releases_fields(5) [of db] by auto
  qed (auto simp: write_budget_def Let_def releases_fields)
qed

lemma clearBudget_releases: "releases db (fst (clearBudget u now k i db))"
proof -
  let ?d = "db\<lparr>budgets := filter (\<lambda>b. \<not> is_budget k i b) (budgets db)\<rparr>"
  have "fst (clearBudget u now k i db) = db \<or> fst (clearBudget u now k i db) = fst (ResumeWaitsForFunding u now k i ?d)"
    by (auto simp: clearBudget_def split: prod.splits sum.splits)
  then show ?thesis
    using releases_trans [OF releases_fields(3) ResumeWaitsForFunding_releases [of ?d u now k i]] releases_fields(5) [of db] by auto
qed

lemma budget_commands_release:
  "releases db (fst (SetBudget u now h k i b db))" "releases db (fst (SetBudgetAdmin u now k i b db))"
  "releases db (fst (ClearBudget u now h k i db))" "releases db (fst (ClearBudgetAdmin u now k i db))"
  by (auto simp: SetBudget_def SetBudgetAdmin_def ClearBudget_def ClearBudgetAdmin_def releases_fields
      write_budget_releases clearBudget_releases split: sum.splits)

lemma reconcile_releases: "releases db (reconcileHeldReservations p t below db)"
  unfolding reconcileHeldReservations_def by (rule releases_trans [OF releases_fields(1) set_reservations_releases])

section \<open>Turns, wakes and decisions\<close>

definition one_running :: "'d db \<Rightarrow> bool" where
  "one_running db \<longleftrightarrow> (\<forall>p. length (filter (is_running p) (turns db)) \<le> 1)"

lemma one_running_unique:
  assumes "one_running db" "t \<in> set (turns db)" "u \<in> set (turns db)" "is_running p t" "is_running p u"
  shows "t = u"
proof -
  have "t \<in> set (filter (is_running p) (turns db))" "u \<in> set (filter (is_running p) (turns db))" using assms by auto
  moreover have "length (filter (is_running p) (turns db)) \<le> 1" using assms(1) by (simp add: one_running_def)
  ultimately show ?thesis by (cases "filter (is_running p) (turns db)") auto
qed

lemma filter_upd_le:
  "(\<And>x. P x \<Longrightarrow> \<not> Q (f x) \<or> (Q (f x) = Q x)) \<Longrightarrow> length (filter Q (upd P f xs)) \<le> length (filter Q xs)"
  by (induction xs) (auto intro: le_SucI)

lemma one_running_upd:
  assumes "one_running db" "turns db' = upd P f (turns db)" "\<And>t. t_status (f t) \<noteq> TRunning"
  shows "one_running db'"
  unfolding one_running_def
proof
  fix p
  have "length (filter (is_running p) (upd P f (turns db))) \<le> length (filter (is_running p) (turns db))"
    by (rule filter_upd_le) (simp add: assms(3) is_running_def)
  also have "\<dots> \<le> 1" using assms(1) by (simp add: one_running_def)
  finally show "length (filter (is_running p) (turns db')) \<le> 1" by (simp add: assms(2))
qed

lemma SubmitInput_accounted:
  assumes "SubmitInput now q db = Inr (db', v, fresh)" "accounted db"
  shows "accounted db'"
  using assms(1)
proof (cases rule: SubmitInput_cases)
  case (stored q')
  have "placed db' = placed db" by (rule placed_same) (simp_all add: stored(4))
  then show ?thesis using assms(2) by (simp add: accounted_def stored(4)) (simp add: placed_def new_input_def)
next
  case (replayed r)
  have "placed db' = placed db" using replayed(6) by (intro placed_same) auto
  then show ?thesis using assms(2) by (simp add: accounted_def replayed(2))
qed

lemma LoadTurn_accounted:
  assumes "LoadTurn now nid p gen t db = Inr (db', res)"
  shows "one_running db \<Longrightarrow> one_running db'" "accounted db \<Longrightarrow> accounted db'"
proof -
  show "one_running db \<Longrightarrow> one_running db'"
    using assms
  proof (cases rule: LoadTurn_cases)
    case (begun r tr v)
    assume o: "one_running db"
    from begin_turn_ok [OF begun(3)] have t: "turns db' = turns db @ [tr]" and tr: "is_running p tr"
      by (auto simp: new_turn_def is_running_def)
    from begun(1) have none: "filter (is_running p) (turns db) = []"
      by (auto simp: running_turn_def find_None_iff filter_empty_conv)
    have "is_running q tr \<longleftrightarrow> q = p" for q using tr by (auto simp: is_running_def)
    with o none show ?thesis by (auto simp: one_running_def t)
  qed auto
  show "accounted db \<Longrightarrow> accounted db'"
    using assms
  proof (cases rule: LoadTurn_cases)
    case (begun r tr v)
    assume acc: "accounted db"
    let ?t = "if t = [] then nid else t"
    let ?is = "upd (is_input p (i_input_id r)) (\<lambda>x. (claimed gen x)\<lparr>i_turn_id := Some ?t\<rparr>) (inputs db)"
    from begin_turn_ok [OF begun(3)] have d: "db' = db\<lparr>turns := turns db @ [tr], inputs := ?is\<rparr>"
      and tr: "is_running p tr" "t_input_id tr = i_input_id r"
      by (auto simp: new_turn_def is_running_def)
    have old: "placed db x \<Longrightarrow> placed db' x" for x
      by (auto simp: placed_def reason_def in_hand_def approval_pending_def d split: input_status.splits)
    have "placed db' ((claimed gen x)\<lparr>i_turn_id := Some ?t\<rparr>)" if "is_input p (i_input_id r) x" for x
      using that tr by (auto simp: placed_def claimed_def in_hand_def d is_input_def)
    with old acc show ?thesis by (auto simp: accounted_iff d set_upd)
  qed auto
qed

lemma disposition_phase: "phase (disposition now tr req park r) = (i_persona_id r, i_input_id r,
    if parks req park then IWaiting else if cr_outcome req = ''complete'' \<or> cr_outcome req \<noteq> ''await'' \<and> \<not> cr_retryable req then IDone else IQueued)"
  by (auto simp: disposition_def parks_def phase_def parked_at_def unclaimed_def done_at_def)

lemma commit_fresh_accounted:
  assumes "commit_fresh u hook now p tr req db = Inr (db', tr', retry)" "accounted db" "one_running db"
    and "tr \<in> set (turns db)" "is_running p tr"
  shows "accounted db'"
proof -
  from commit_fresh_ok(3) [OF assms(1)] obtain ts js ob ws es fs rs d g park where
    d': "db' = db\<lparr>turns := ts, inputs := js, outbox := ob, waits := ws, events := es, facts := fs, reservations := rs, domain := d\<rparr>"
    and ts: "ts = upd (is_turn p (t_turn_id tr)) (finished_turn now req) (turns db)"
    and js: "js = upd (is_input p (t_input_id tr)) (disposition now tr req park) (map g (inputs db))"
    and g: "\<forall>r. (i_persona_id (g r), i_input_id (g r), i_status (g r), input_face (g r)) = (i_persona_id r, i_input_id r, i_status r, input_face r)"
    and park: "parks req park \<longrightarrow> list_ex (is_wait p (t_input_id tr)) ws \<or> approval_pending db p (t_input_id tr)"
    and keep: "\<forall>p' i'. (p', i') \<noteq> (p, t_input_id tr) \<longrightarrow> list_ex (is_wait p' i') (waits db) \<longrightarrow> list_ex (is_wait p' i') ws"
    by (elim exE conjE) (rule that)
  have ap: "approval_pending db' = approval_pending db" by (rule approval_pending_cong) (simp add: d')
  have hand: "in_hand db' q i" if h: "in_hand db q i" and ne: "(q, i) \<noteq> (p, t_input_id tr)" for q i
  proof -
    from h obtain t where t: "t \<in> set (turns db)" "is_running q t" "t_input_id t = i" by (auto simp: in_hand_def list_ex_iff)
    have "\<not> is_turn p (t_turn_id tr) t"
    proof
      assume "is_turn p (t_turn_id tr) t"
      with t(2) have "is_running p t" by (auto simp: is_turn_def is_running_def)
      then have "t = tr" by (rule one_running_unique [OF assms(3) t(1) assms(4) _ assms(5)])
      with t(2,3) assms(5) ne show False by (auto simp: is_running_def)
    qed
    with t show ?thesis by (auto simp: in_hand_def list_ex_iff d' ts set_upd)
  qed
  have "placed db' r'" if r': "r' \<in> set js" for r'
  proof -
    from r' obtain r where r: "r \<in> set (inputs db)"
      "r' = (if is_input p (t_input_id tr) (g r) then disposition now tr req park (g r) else g r)" by (auto simp: js set_upd)
    show ?thesis
    proof (cases "is_input p (t_input_id tr) (g r)")
      case True
      with r have "phase r' = phase (disposition now tr req park (g r))" by simp
      then have st: "i_persona_id r' = p" "i_input_id r' = t_input_id tr" "i_status r' \<in> {IQueued, IDone} \<or> parks req park \<and> i_status r' = IWaiting"
        using True unfolding disposition_phase by (auto simp: phase_def is_input_def split: if_splits)
      have "reason db' p (t_input_id tr)" if "parks req park" using park that by (auto simp: reason_def ap) (simp_all add: d')
      with st show ?thesis by (auto simp: placed_def)
    next
      case False
      with r g [rule_format, of r] have ph: "phase r' = phase r" "(i_persona_id r, i_input_id r) \<noteq> (p, t_input_id tr)"
        by (auto simp: phase_def is_input_def)
      from assms(2) r(1) have "placed db r" by (simp add: accounted_iff)
      then have "placed db' r" using hand [OF _ ph(2)] keep [rule_format, OF ph(2)] ap
        by (auto simp: placed_def reason_def d' split: input_status.splits)
      then show ?thesis by (simp add: placed_phase [OF ph(1)])
    qed
  qed
  then show ?thesis by (simp add: accounted_iff d')
qed

lemma domain_accounted [simp]: "accounted (db\<lparr>domain := d\<rparr>) = accounted db"
proof -
  have "placed (db\<lparr>domain := d\<rparr>) = placed db" by (rule placed_same) simp_all
  then show ?thesis by (simp add: accounted_def)
qed

lemma commitTurn_one_running:
  assumes "commitTurn u hook now p t gen req db = Inr (db1, tr', retry)" "one_running db"
  shows "one_running db1"
  using assms(1)
proof (cases rule: commitTurn_checks)
  case (1 tr)
  show ?thesis
  proof (cases "t_status tr = TRunning")
    case True
    have "turns db1 = upd (is_turn p (t_turn_id tr)) (finished_turn now (normalized req)) (turns db)"
      using commit_fresh_ok(3) [OF 1(5) [OF True]] by auto
    then show ?thesis
      by (rule one_running_upd [OF assms(2)]) (simp add: finished_turn_def awaiting_turn_def)
  next
    case False
    from commit_replay_ok(2) [OF 1(4) [OF False]] assms(2) show ?thesis by (auto simp: one_running_def)
  qed
qed

lemma commitTurn_accounted:
  assumes "commitTurn u hook now p t gen req db = Inr (db1, tr', retry)" "accounted db" "one_running db"
  shows "accounted db1"
  using assms(1)
proof (cases rule: commitTurn_checks)
  case (1 tr)
  have tr: "tr \<in> set (turns db)" "is_turn p t tr" using 1(2) find_SomeD by (fastforce simp: turn_of_def)+
  show ?thesis
  proof (cases "t_status tr = TRunning")
    case True
    show ?thesis
      by (rule commit_fresh_accounted [OF 1(5) [OF True] assms(2,3) tr(1)]) (use tr True in \<open>simp add: is_running_def is_turn_def\<close>)
  next
    case False
    from commit_replay_ok(2) [OF 1(4) [OF False]] assms(2) show ?thesis by auto
  qed
qed

lemma CommitTurn_accounted:
  assumes "accounted db" "one_running db"
  shows "accounted (fst (CommitTurn u hook now p t gen req db))"
proof (cases "snd (CommitTurn u hook now p t gen req db)")
  case (Inl e)
  then have "fst (CommitTurn u hook now p t gen req db) = db" by (metis CommitTurn_rollback prod.collapse)
  with assms show ?thesis by simp
next
  case (Inr tr')
  then have "CommitTurn u hook now p t gen req db = (fst (CommitTurn u hook now p t gen req db), Inr tr')" by (metis prod.collapse)
  from CommitTurn_tx [OF this] show ?thesis using commitTurn_accounted [OF _ assms] by auto
qed

lemma Recover_accounted:
  assumes "Recover now p gen db = Inr (db', res)" "accounted db" "one_running db"
  shows "accounted db'" "one_running db'"
proof -
  let ?ids = "map t_input_id (filter (stale_turn p gen) (turns db))"
  let ?f = "\<lambda>t. t\<lparr>t_status := TInterrupted, t_finished_at := Some now\<rparr>"
  let ?g = "\<lambda>r. r\<lparr>i_status := IQueued, i_claimed_generation := None, i_turn_id := None\<rparr>"
  from Recover_frame(1) [OF assms(1)] obtain es fs rs where
    d: "db' = db\<lparr>turns := upd (stale_turn p gen) ?f (turns db), inputs := upd (stale_claim p gen ?ids) ?g (inputs db),
      schedules := upd (stale_schedule p gen) (\<lambda>s. s\<lparr>s_status := SPending, s_claimed_generation := None\<rparr>) (schedules db),
      events := es, facts := fs, reservations := rs\<rparr>" by (elim exE) (rule that)
  show "one_running db'" by (rule one_running_upd [OF assms(3), of _ "stale_turn p gen" ?f]) (simp_all add: d)
  have rs: "reason db' = reason db" by (simp add: fun_eq_iff reason_def approval_pending_def d)
  have hand: "in_hand db' q i" if h: "in_hand db q i" and s: "\<not> (q = p \<and> i \<in> set ?ids)" for q i
  proof -
    from h obtain t where t: "t \<in> set (turns db)" "is_running q t" "t_input_id t = i" by (auto simp: in_hand_def list_ex_iff)
    have "\<not> stale_turn p gen t" using t s by (auto simp: stale_turn_def is_running_def)
    with t show ?thesis by (auto simp: in_hand_def list_ex_iff d set_upd)
  qed
  have "placed db' r'" if "r' \<in> set (inputs db')" for r'
  proof -
    from that obtain r where r: "r \<in> set (inputs db)" "r' = (if stale_claim p gen ?ids r then ?g r else r)"
      by (auto simp: d set_upd)
    show ?thesis
    proof (cases "stale_claim p gen ?ids r")
      case True
      with r(2) show ?thesis by (simp add: placed_def)
    next
      case False
      with r assms(2) have "placed db r" "r' = r" by (auto simp: accounted_iff)
      with False hand [of "i_persona_id r" "i_input_id r"] show ?thesis
        by (auto simp: placed_def rs stale_claim_def split: input_status.splits)
    qed
  qed
  then show "accounted db'" by (simp add: accounted_iff)
qed

lemma Dispatch_accounted:
  assumes "DispatchDueSchedules now p gen hint limit db = Inr (db', out)"
  shows "accounted db \<Longrightarrow> accounted db'"
    "\<exists>news n ss. db' = db\<lparr>admission_next := n, inputs := inputs db @ news, schedules := ss\<rparr> \<and> (\<forall>r \<in> set news. i_status r = IQueued)"
proof -
  from assms obtain gs where l: "dispatch_loop now gen gs db = Inr (db', out)"
    by (auto simp: DispatchDueSchedules_def rbind_eq_Inr Let_def split: if_splits)
  then show frame: "\<exists>news n ss. db' = db\<lparr>admission_next := n, inputs := inputs db @ news, schedules := ss\<rparr> \<and> (\<forall>r \<in> set news. i_status r = IQueued)"
    using dispatch_loop_ok [OF l] by blast
  then obtain news n ss where d: "db' = db\<lparr>admission_next := n, inputs := inputs db @ news, schedules := ss\<rparr>"
    "\<forall>r \<in> set news. i_status r = IQueued" by blast
  have "placed db' = placed db" by (rule placed_same) (simp_all add: d)
  then show "accounted db \<Longrightarrow> accounted db'"
    using d(2) by (auto simp: accounted_iff d(1)) (simp add: placed_def)
qed

lemma ResolveApproval_accounted:
  assumes "ResolveApproval now p x q db = Inr (db', a')" "accounted db" "keyed appr_key (approvals db)"
  shows "accounted db'"
  using assms(1)
proof (cases rule: ResolveApproval_cases)
  case replayed
  with assms(2) show ?thesis by simp
next
  case (decided a)
  note dp = decide_pending_ok [OF decided(3)]
  have a: "a \<in> set (approvals db)" "is_appr p x a"
    using decided(1) find_SomeD by (fastforce simp: GetApproval_def require_def split: option.splits)+
  have in': "inputs db' = upd (\<lambda>r. is_input p (a_input_id a) r \<and> i_status r = IWaiting) (requeued now) (inputs db)"
    using dp(4) by (simp add: requeue_waiting_def)
  have wt: "waits db' = waits db" "turns db' = turns db" by (subst dp(6), simp)+
  have ap: "approval_pending db' u i" if ap: "approval_pending db u i" and ne: "(u, i) \<noteq> (p, a_input_id a)" for u i
  proof -
    from ap obtain b where b: "b \<in> set (approvals db)" "a_persona_id b = u" "a_input_id b = i" "a_status b = APending"
      by (auto simp: approval_pending_def list_ex_iff)
    have "\<not> is_appr p (a_approval_id a) b"
    proof
      assume "is_appr p (a_approval_id a) b"
      with a(2) have "appr_key b = appr_key a" by (simp add: is_appr_def)
      then have "b = a" by (rule keyed_inj [OF assms(3) b(1) a(1)])
      with b a(2) ne show False by (simp add: is_appr_def)
    qed
    with b show ?thesis by (auto simp: approval_pending_def list_ex_iff dp(2) set_upd)
  qed
  have "placed db' r'" if "r' \<in> set (inputs db')" for r'
  proof -
    from that obtain r where r: "r \<in> set (inputs db)"
      "r' = (if is_input p (a_input_id a) r \<and> i_status r = IWaiting then requeued now r else r)"
      by (auto simp: in' set_upd)
    show ?thesis
    proof (cases "is_input p (a_input_id a) r \<and> i_status r = IWaiting")
      case True
      with r(2) show ?thesis by (simp add: placed_def requeued_def)
    next
      case False
      with r assms(2) have "placed db r" "r' = r" by (auto simp: accounted_iff)
      with False ap [of "i_persona_id r" "i_input_id r"] wt show ?thesis
        by (auto simp: placed_def reason_def in_hand_def is_input_def split: input_status.splits)
    qed
  qed
  then show ?thesis by (simp add: accounted_iff)
qed

section \<open>Operations apart from jobs and terminals\<close>

lemma noted_of_append_plain:
  "(\<And>r. r \<in> set news \<Longrightarrow> \<not> has_prefix (i_input_id r) jobInputPrefix) \<Longrightarrow> noted_of (rs @ news) = noted_of rs"
  unfolding noted_of_append by (fastforce simp: noted_of_def)

lemma SubmitInput_apart:
  assumes "SubmitInput now q db = Inr (db', v, fresh)"
  shows "apart db db'"
  using assms
proof (cases rule: SubmitInput_cases)
  case (stored q')
  have "\<not> has_prefix (sr_input_id q') jobInputPrefix"
    using assms by (auto simp: stored(1) SubmitInput_def with_defaults_def Let_def split: if_splits)
  then have "noted_of (inputs db @ [new_input now (admission_next db) q']) = noted_of (inputs db)"
    by (intro noted_of_append_plain) (simp add: new_input_def)
  then show ?thesis by (auto simp: apart_def stored(4) mem_idle_same simp del: noted_of_append)
next
  case (replayed r)
  then show ?thesis by (auto simp: apart_def mem_idle_same)
qed

lemma LoadTurn_apart:
  assumes "LoadTurn now nid p gen t db = Inr (db', res)"
  shows "apart db db'"
  using assms
proof (cases rule: LoadTurn_cases)
  case (begun r tr v)
  from begin_turn_ok(4) [OF begun(3)] show ?thesis
    by (auto intro!: apartI simp: map_upd_key claimed_def)
qed auto

lemma commitTurn_apart:
  assumes "commitTurn u hook now p t gen req db = Inr (db1, tr', retry)"
  shows "apart db db1"
  using assms
proof (cases rule: commitTurn_checks)
  case (1 tr)
  show ?thesis
  proof (cases "t_status tr = TRunning")
    case True
    from commit_fresh_ok(3) [OF 1(5) [OF True]] obtain g park ts ob ws es fs rs d where
      d: "db1 = db\<lparr>turns := ts, inputs := upd (is_input p (t_input_id tr)) (disposition now tr (normalized req) park) (map g (inputs db)),
        outbox := ob, waits := ws, events := es, facts := fs, reservations := rs, domain := d\<rparr>"
      and g: "\<forall>r. (i_persona_id (g r), i_input_id (g r), i_status (g r), input_face (g r)) = (i_persona_id r, i_input_id r, i_status r, input_face r)" by auto
    have "input_face (disposition now tr (normalized req) park r) = input_face r" for r
      by (simp add: disposition_def done_at_def unclaimed_def parked_at_def)
    then show ?thesis using g by (intro apartI) (simp_all add: d map_upd_key)
  next
    case False
    from commit_replay_ok(2) [OF 1(4) [OF False]] show ?thesis by (auto simp: apart_def mem_idle_same)
  qed
qed

lemma CommitTurn_apart: "apart db (fst (CommitTurn u hook now p t gen req db))"
proof (cases "snd (CommitTurn u hook now p t gen req db)")
  case (Inl e)
  then have "fst (CommitTurn u hook now p t gen req db) = db" by (metis CommitTurn_rollback prod.collapse)
  then show ?thesis by simp
next
  case (Inr tr')
  then have "CommitTurn u hook now p t gen req db = (fst (CommitTurn u hook now p t gen req db), Inr tr')" by (metis prod.collapse)
  from CommitTurn_tx [OF this] show ?thesis using commitTurn_apart by (fastforce simp: apart_def mem_idle_def)
qed

lemma Recover_apart: "Recover now p gen db = Inr (db', res) \<Longrightarrow> apart db db'"
  by (drule Recover_frame(1)) (auto intro!: apartI simp: map_upd_key)

lemma Dispatch_apart:
  assumes "DispatchDueSchedules now p gen hint limit db = Inr (db', out)"
  shows "apart db db'"
proof -
  from assms obtain gs where l: "dispatch_loop now gen gs db = Inr (db', out)"
    by (auto simp: DispatchDueSchedules_def rbind_eq_Inr Let_def split: if_splits)
  then obtain news n where d: "db' = db\<lparr>admission_next := n, inputs := inputs db @ news, schedules := schedules db'\<rparr>"
    and w: "\<forall>r \<in> set news. \<exists>s. i_input_id r = wake_id s" using dispatch_loop_ok [OF l] by blast
  have "noted_of (inputs db @ news) = noted_of (inputs db)"
    using w by (intro noted_of_append_plain) (auto simp: wake_id_def schedInputPrefix_def jobInputPrefix_def)
  moreover have "jobs db' = jobs db" "terminals db' = terminals db" "inputs db' = inputs db @ news" "chunks db' = chunks db" "branches db' = branches db"
    by (subst d, simp)+
  ultimately show ?thesis by (auto simp: apart_def mem_idle_same simp del: noted_of_append)
qed

lemma ResolveApproval_apart:
  assumes "ResolveApproval now p x q db = Inr (db', a')"
  shows "apart db db'"
  using assms
proof (cases rule: ResolveApproval_cases)
  case (decided a)
  note dp = decide_pending_ok [OF decided(3)]
  have same: "jobs db' = jobs db" "terminals db' = terminals db" "chunks db' = chunks db" "branches db' = branches db" by (subst dp(6), simp)+
  then show ?thesis by (intro apartI) (simp_all add: dp(4) requeue_waiting_def map_upd_key requeued_def)
qed simp

lemma SavePlan_apart: "SavePlan now p t gen rnd rd db = Inr (db', r, fresh) \<Longrightarrow> apart db db'"
  by (elim SavePlan_cases) (auto simp: apart_def mem_idle_same)

end
