(* ===== verification/Core_Protocol.thy ===== *)
theory Core_Protocol
  imports Core_Account
begin

text \<open>
  The service as a whole: every operation that writes the state as a command, histories of
  commands from any hosts in any order, and what holds along every history. The locales of the
  prelude (\<open>evolution\<close>, \<open>guarded_evolution\<close>, \<open>fencing\<close>) are interpreted on the commands of the
  store.
\<close>

section \<open>Commands\<close>

text \<open>The process the commands run in: the store, PostgreSQL's uuid input, the notice hook.\<close>

record 'd env =
  en_store :: "'d store"
  en_uuid :: "string \<Rightarrow> string option"
  en_notice :: "'d notice option"

datatype cmd =
    EnsurePersonaC timestamp string "string option" string
  | BindHumanC string string
  | ClearModelIntentC string
  | AcquireWriterC timestamp string string int
  | RenewWriterC timestamp string string int int
  | ReleaseWriterC string string int
  | SubmitInputC timestamp submit_request
  | LoadTurnC timestamp string string int string
  | SavePlanC timestamp string string int int raw_decision
  | ClaimOperationC timestamp nat string string int string string int "jobj option"
  | CompleteOperationC timestamp string string int "jobj option" bool
  | CommitTurnC timestamp string string int commit_request
  | RecoverC timestamp string int
  | ResolveApprovalC timestamp string string approval_decision
  | AdmitUsageC string admit_request
  | RecordUsageC timestamp string record_request
  | SetBudgetC timestamp string string string budget_row
  | SetBudgetAdminC timestamp string string budget_row
  | ClearBudgetC timestamp string string string
  | ClearBudgetAdminC timestamp string string
  | ResumeForFundingC timestamp string string
  | ResumeForHumanC timestamp string
  | DispatchSchedulesC timestamp string int timestamp int
  | RetireC string
  | JobC timestamp timestamp job_cmd
  | TermC timestamp timestamp term_cmd
  | MemoryMaintainC timestamp string int
  | ClaimMemoryC timestamp string int "branch_snapshot option" "json option"
  | SaveMemoryC timestamp string int int int "json option"

definition tx :: "('s \<Rightarrow> 'e + ('s \<times> 'a)) \<Rightarrow> 's \<Rightarrow> 's" where
  "tx f s = fst (run_tx f s)"

fun exec :: "'d env \<Rightarrow> cmd \<Rightarrow> 'd db \<Rightarrow> 'd db" where
  "exec en (EnsurePersonaC now p h name) = tx (EnsurePersona now p h name)"
| "exec en (BindHumanC p h) = tx (bindHuman p h)"
| "exec en (ClearModelIntentC p) = tx (ClearModelIntent p)"
| "exec en (AcquireWriterC now p holder ttl) = tx (AcquireWriter now p holder ttl)"
| "exec en (RenewWriterC now p holder gen ttl) = tx (RenewWriter now p holder gen ttl)"
| "exec en (ReleaseWriterC p holder gen) = tx (ReleaseWriter p holder gen)"
| "exec en (SubmitInputC now q) = tx (SubmitInput now q)"
| "exec en (LoadTurnC now new_id p gen t) = tx (LoadTurn now new_id p gen t)"
| "exec en (SavePlanC now p t gen rnd d) = tx (SavePlan now p t gen rnd d)"
| "exec en (ClaimOperationC now clock p t gen opid tool idx req) =
     (\<lambda>db. fst (ClaimOperation (en_store en) now clock p t gen opid tool idx req db))"
| "exec en (CompleteOperationC now p opid gen resp failed) = tx (CompleteOperation (en_store en) now p opid gen resp failed)"
| "exec en (CommitTurnC now p t gen req) = (\<lambda>db. fst (CommitTurn (en_uuid en) (en_notice en) now p t gen req db))"
| "exec en (RecoverC now p gen) = tx (Recover now p gen)"
| "exec en (ResolveApprovalC now p x q) = tx (ResolveApproval now p x q)"
| "exec en (AdmitUsageC p q) = tx (AdmitUsage (en_uuid en) p q)"
| "exec en (RecordUsageC now p q) = tx (RecordUsage (en_uuid en) now p q)"
| "exec en (SetBudgetC now h k i b) = (\<lambda>db. fst (SetBudget (en_uuid en) now h k i b db))"
| "exec en (SetBudgetAdminC now k i b) = (\<lambda>db. fst (SetBudgetAdmin (en_uuid en) now k i b db))"
| "exec en (ClearBudgetC now h k i) = (\<lambda>db. fst (ClearBudget (en_uuid en) now h k i db))"
| "exec en (ClearBudgetAdminC now k i) = (\<lambda>db. fst (ClearBudgetAdmin (en_uuid en) now k i db))"
| "exec en (ResumeForFundingC now k i) = (\<lambda>db. fst (ResumeWaitsForFunding (en_uuid en) now k i db))"
| "exec en (ResumeForHumanC now h) = tx (ResumeWaitsForHuman now h)"
| "exec en (DispatchSchedulesC now p gen hint limit) = tx (DispatchDueSchedules now p gen hint limit)"
| "exec en (RetireC p) = ReconcileRetiredReservations p"
| "exec en (JobC now wall c) = tx (\<lambda>db. rbind (exec_job (st_jobs (en_store en)) now wall c db) (\<lambda>db'. Inr (db', ())))"
| "exec en (TermC now wall c) = tx (\<lambda>db. rbind (exec_term (st_terminals (en_store en)) now wall c db) (\<lambda>db'. Inr (db', ())))"
| "exec en (MemoryMaintainC now p gen) = (\<lambda>db. fst (MemoryMaintain (st_memory (en_store en)) now p gen db))"
| "exec en (ClaimMemoryC now p gen snap policy) = tx (ClaimMemoryBranch (st_memory (en_store en)) now p gen snap policy)"
| "exec en (SaveMemoryC now p gen s expected body) = tx (SaveMemoryBranch (st_memory (en_store en)) now p gen s expected body)"

definition run :: "'d env \<Rightarrow> cmd list \<Rightarrow> 'd db \<Rightarrow> 'd db" where
  "run en cs db = fold (exec en) cs db"

definition core_step :: "'d env \<Rightarrow> 'd db \<Rightarrow> 'd db \<Rightarrow> bool" where
  "core_step en db db' \<longleftrightarrow> (\<exists>c. db' = exec en c db)"

lemma run_Cons [simp]: "run en (c # cs) db = run en cs (exec en c db)" "run en [] db = db"
  by (simp_all add: run_def)

lemma run_reach: "rtranclp (core_step en) db (run en cs db)"
proof (induction cs arbitrary: db)
  case (Cons c cs)
  have "core_step en db (exec en c db)" by (auto simp: core_step_def)
  with Cons show ?case by (auto intro: converse_rtranclp_into_rtranclp)
qed simp

lemma tx_cases:
  assumes "tx f s = s'"
  obtains (rolled_back) "s' = s" | (committed) a where "f s = Inr (s', a)"
  using assms by (auto simp: tx_def run_tx_def split: sum.splits prod.splits)

lemma tx_I: "(\<And>a s'. f s = Inr (s', a) \<Longrightarrow> P s s') \<Longrightarrow> P s s \<Longrightarrow> P s (tx f s)"
  by (auto simp: tx_def run_tx_def split: sum.splits)

section \<open>What a command may do\<close>

text \<open>
  Every command is of one of five kinds. It registers (personas and leases), it claims (operations,
  approvals, journal, effects, jobs, terminals, memory), it releases (usage), it moves turns and inputs, or it resolves
  an approval.
\<close>

definition gen_no :: "'d db \<Rightarrow> string \<Rightarrow> int" where
  "gen_no db p = (case gen_of db p of None \<Rightarrow> 0 | Some g \<Rightarrow> g)"

definition registers :: "'d db \<Rightarrow> 'd db \<Rightarrow> bool" where
  "registers db db' \<longleftrightarrow> (\<exists>ps ls. db' = db\<lparr>personas := ps, leases := ls\<rparr>) \<and> (\<forall>p. gen_no db p \<le> gen_no db' p)
     \<and> (keyed l_persona_id (leases db) \<longrightarrow> keyed l_persona_id (leases db'))"

definition settled_kept :: "'d db \<Rightarrow> 'd db \<Rightarrow> bool" where
  "settled_kept db db' \<longleftrightarrow> (\<forall>x \<in> set (operations db). settled x \<longrightarrow> x \<in> set (operations db'))"

definition decided_kept :: "approval_row list \<Rightarrow> approval_row list \<Rightarrow> bool" where
  "decided_kept as as' \<longleftrightarrow> (\<forall>a \<in> set as. a_status a \<noteq> APending \<longrightarrow> (\<exists>a' \<in> set as'. spent_at_most a a'))"

text \<open>What only leases, claims and decisions write.\<close>

definition rights :: "'d db \<Rightarrow> lease_row list \<times> op_row list \<times> approval_row list" where
  "rights db = (leases db, operations db, approvals db)"

definition moves :: "'d db \<Rightarrow> 'd db \<Rightarrow> bool" where
  "moves db db' \<longleftrightarrow> rights db' = rights db \<and> journal_grows db db'
     \<and> (one_running db \<longrightarrow> one_running db' \<and> (accounted db \<longrightarrow> accounted db')) \<and> apart db db'"

definition resolves :: "'d db \<Rightarrow> 'd db \<Rightarrow> bool" where
  "resolves db db' \<longleftrightarrow> leases db' = leases db \<and> turns db' = turns db \<and> apart db db'
     \<and> journal_grows db db' \<and> settled_kept db db' \<and> decided_kept (approvals db) (approvals db')
     \<and> (keyed appr_key (approvals db) \<longrightarrow> keyed appr_key (approvals db') \<and> (accounted db \<longrightarrow> accounted db'))"

lemma decided_keptI: "(\<And>a. a \<in> set as \<Longrightarrow> a_status a \<noteq> APending \<Longrightarrow> a \<in> set as') \<Longrightarrow> decided_kept as as'"
  unfolding decided_kept_def using spent_at_most_simps by blast

lemma registersI:
  assumes "db' = db\<lparr>personas := ps, leases := ls\<rparr>" "\<And>p. gen_no db p \<le> gen_no db' p"
    "keyed l_persona_id (leases db) \<Longrightarrow> keyed l_persona_id (leases db')"
  shows "registers db db'"
  using assms unfolding registers_def by blast

lemma registers_personas: "registers db (db\<lparr>personas := ps\<rparr>)"
  by (rule registersI [where ps = ps and ls = "leases db"]) (simp_all add: gen_no_def gen_of_def lease_of_def)

lemma registers_renewed:
  assumes "\<And>l. l_persona_id (f l) = l_persona_id l" "\<And>l. l_generation (f l) = l_generation l"
  shows "registers db (db\<lparr>leases := upd P f (leases db)\<rparr>)"
  by (rule registersI [where ps = "personas db" and ls = "upd P f (leases db)"])
     (simp_all add: gen_no_def lease_upd_gen [OF assms] keyed_upd assms)

lemma persona_commands_register:
  "EnsurePersona now p h name db = Inr (db', r) \<Longrightarrow> registers db db'"
  "bindHuman p h' db = Inr (db', r') \<Longrightarrow> registers db db'"
  "ClearModelIntent p db = Inr (db', u) \<Longrightarrow> registers db db'"
proof -
  have same: "registers db db" using registers_personas [of db "personas db"] by simp
  show bind: "bindHuman p h' db = Inr (db', r') \<Longrightarrow> registers db db'" for h' r' db'
    using same by (auto simp: bindHuman_def split: if_splits option.splits intro: registers_personas)
  show "EnsurePersona now p h name db = Inr (db', r) \<Longrightarrow> registers db db'"
    using same by (auto simp: EnsurePersona_def rbind_eq_Inr Let_def split: option.splits if_splits
        intro: registers_personas bind)
  show "ClearModelIntent p db = Inr (db', u) \<Longrightarrow> registers db db'"
    using same by (auto simp: ClearModelIntent_def split: if_splits option.splits intro: registers_personas)
qed

lemma lease_commands_register:
  "AcquireWriter now p h ttl db = Inr (db', l) \<Longrightarrow> registers db db'"
  "RenewWriter now p h g ttl db = Inr (db', l) \<Longrightarrow> registers db db'"
  "ReleaseWriter p h g db = Inr (db', u) \<Longrightarrow> registers db db'"
proof -
  have fr: "db' = db\<lparr>leases := leases db'\<rparr> \<Longrightarrow> db' = db\<lparr>personas := personas db, leases := leases db'\<rparr>" by simp
  show "AcquireWriter now p h ttl db = Inr (db', l) \<Longrightarrow> registers db db'"
  proof -
    assume a: "AcquireWriter now p h ttl db = Inr (db', l)"
    have "gen_no db q \<le> gen_no db' q" for q
      using AcquireWriter_gen [OF a] AcquireWriter_lease(2) [OF a, of q]
      by (cases "q = p") (auto simp: gen_no_def gen_of_def split: option.splits)
    moreover have "keyed l_persona_id (leases db')" if "keyed l_persona_id (leases db)"
      using a that by (auto simp: AcquireWriter_def Let_def keyed_upd keyed_snoc lease_of_def find_None_iff is_lease_def
          split: option.splits if_splits)
    ultimately show ?thesis by (rule registersI [OF fr [OF AcquireWriter_frame [OF a]]])
  qed
  show "RenewWriter now p h g ttl db = Inr (db', l) \<Longrightarrow> registers db db'"
    by (auto simp: RenewWriter_def split: option.splits intro: registers_renewed)
  show "ReleaseWriter p h g db = Inr (db', u) \<Longrightarrow> registers db db'"
    by (auto simp: ReleaseWriter_def split: option.splits intro: registers_renewed)
qed

lemma ClaimOperation_quiet: "quiet db (fst (ClaimOperation st now clock p t gen opid tool idx req db))"
proof -
  have c: "quiet db (fst (run_tx (claimOperation st now clock p t gen opid tool idx req) db))"
    by (auto simp: run_tx_def split: sum.splits intro: claimOperation_quiet)
  have j: "quiet db (fst (run_tx (journalRejectedClaim ft p t gen idx tool req e) db))" for ft e
    by (auto simp: run_tx_def split: sum.splits intro: journalRejectedClaim_quiet)
  show ?thesis
  proof (cases "claimOperation st now clock p t gen opid tool idx req db")
    case (Inl e)
    with j [of "st_fmt_time st" e] show ?thesis
      by (auto simp: ClaimOperation_def run_tx_def split: prod.splits sum.splits)
  next
    case (Inr r)
    with c show ?thesis by (cases r) (auto simp: ClaimOperation_def run_tx_def)
  qed
qed

lemma CompleteOperation_quiet:
  assumes "CompleteOperation st now p opid gen resp failed db = Inr (db', op)"
  shows "quiet db db'"
proof -
  have "quiet db (db\<lparr>operations := os\<rparr>)" for os by (rule quiet_same) simp_all
  moreover have "db' = db \<or> (\<exists>ft sp o' os. journalCompletedTx ft sp p o' (db\<lparr>operations := os\<rparr>) = Inr db')"
    using assms unfolding CompleteOperation_def Let_def rbind_eq_Inr
    by (auto simp: rbind_eq_Inr split: option.splits if_splits)
  ultimately show ?thesis using journalCompletedTx_quiet quiet_trans by (metis quiet_refl)
qed

text \<open>Of an operation that appends to neither log, only the inbox needs an argument.\<close>

lemma moves_inbox:
  assumes "db' = db\<lparr>admission_next := a, inputs := js, turns := ts, plans := ps, schedules := ss\<rparr>"
    "accounted db \<Longrightarrow> accounted db'" "one_running db \<Longrightarrow> one_running db'" "apart db db'"
  shows "moves db db'"
  unfolding moves_def using assms by (auto simp: rights_def journal_grows_same)

lemma same_accounted:
  assumes "inputs db' = inputs db" "approvals db' = approvals db" "waits db' = waits db" "turns db' = turns db"
  shows "accounted db' = accounted db"
  using assms by (simp add: accounted_def placed_same [of db' db])

lemma SubmitInput_moves: "SubmitInput now q db = Inr (db', v, fresh) \<Longrightarrow> moves db db'"
proof -
  assume a: "SubmitInput now q db = Inr (db', v, fresh)"
  then have d: "db' = db\<lparr>admission_next := admission_next db', inputs := inputs db', turns := turns db, plans := plans db, schedules := schedules db\<rparr>"
    by (cases rule: SubmitInput_cases) auto
  have "turns db' = turns db" by (subst d) simp
  then have "one_running db \<Longrightarrow> one_running db'" by (simp add: one_running_def)
  with d SubmitInput_accounted [OF a] show ?thesis using SubmitInput_apart [OF a] by (rule moves_inbox)
qed

lemma SavePlan_moves: "SavePlan now p t gen rnd rd db = Inr (db', r, fresh) \<Longrightarrow> moves db db'"
proof -
  assume a: "SavePlan now p t gen rnd rd db = Inr (db', r, fresh)"
  then have d: "db' = db\<lparr>admission_next := admission_next db, inputs := inputs db, turns := turns db, plans := plans db', schedules := schedules db\<rparr>"
    by (cases rule: SavePlan_cases) auto
  have "accounted db' = accounted db" by (rule same_accounted) (subst d, simp)+
  moreover have "one_running db' = one_running db" by (subst d) (simp add: one_running_def)
  ultimately show ?thesis using SavePlan_apart [OF a] by (intro moves_inbox [OF d]) auto
qed

lemma LoadTurn_moves: "LoadTurn now nid p gen t db = Inr (db', res) \<Longrightarrow> moves db db'"
proof -
  assume a: "LoadTurn now nid p gen t db = Inr (db', res)"
  then have d: "db' = db\<lparr>admission_next := admission_next db, inputs := inputs db', turns := turns db', plans := plans db, schedules := schedules db\<rparr>"
  proof (cases rule: LoadTurn_cases)
    case (begun r tr v)
    from begin_turn_ok(4) [OF begun(3)] show ?thesis by auto
  qed auto
  show ?thesis by (rule moves_inbox [OF d LoadTurn_accounted(2) [OF a] LoadTurn_accounted(1) [OF a] LoadTurn_apart [OF a]])
qed

lemma Dispatch_moves: "DispatchDueSchedules now p gen hint limit db = Inr (db', out) \<Longrightarrow> moves db db'"
proof -
  assume a: "DispatchDueSchedules now p gen hint limit db = Inr (db', out)"
  from Dispatch_accounted(2) [OF a] have d: "db' = db\<lparr>admission_next := admission_next db', inputs := inputs db', turns := turns db,
      plans := plans db, schedules := schedules db'\<rparr>" by auto
  have "turns db' = turns db" by (subst d) simp
  then have "one_running db \<Longrightarrow> one_running db'" by (simp add: one_running_def)
  with d Dispatch_accounted(1) [OF a] show ?thesis using Dispatch_apart [OF a] by (rule moves_inbox)
qed

lemma mark_all_grows: "mark_all p ts db = Inr db' \<Longrightarrow> journal_grows db db'"
proof (induction ts arbitrary: db)
  case (Cons t ts)
  from Cons.prems obtain db1 where m: "markInterruptedTx p (t_turn_id t) (t_input_id t) db = Inr db1"
    and r: "mark_all p ts db1 = Inr db'" by (auto simp: rbind_eq_Inr)
  from m have "quiet db db1" by (auto simp: markInterruptedTx_def split: if_splits intro: appendEventsTx_quiet)
  with Cons.IH [OF r] show ?case using journal_grows_trans by (auto simp: quiet_def)
qed simp

lemma Recover_moves:
  assumes "Recover now p gen db = Inr (db', res)"
  shows "moves db db'"
proof -
  let ?f = "\<lambda>t. t\<lparr>t_status := TInterrupted, t_finished_at := Some now\<rparr>"
  let ?d = "db\<lparr>turns := upd (stale_turn p gen) ?f (turns db)\<rparr>"
  from assms obtain db2 where "mark_all p (filter (stale_turn p gen) (turns db)) ?d = Inr db2"
    and e: "events db' = events db2" "outbox db' = outbox db2"
    by (auto simp: Recover_def rbind_eq_Inr Let_def reconcileHeldReservations_def set_reservations_def)
  then have "journal_grows ?d db2" by (intro mark_all_grows)
  moreover have "journal_grows db ?d" by (simp add: journal_grows_same)
  moreover have "journal_grows db2 db'" using e by (simp add: journal_grows_same)
  ultimately have g: "journal_grows db db'" by (meson journal_grows_trans)
  have "rights db' = rights db" using Recover_frame(1) [OF assms] by (auto simp: rights_def)
  moreover have "one_running db'" if "one_running db"
    using Recover_frame(1) [OF assms] by (intro one_running_upd [OF that, of _ "stale_turn p gen" ?f]) auto
  ultimately show ?thesis using g Recover_accounted(1) [OF assms] Recover_apart [OF assms] unfolding moves_def by blast
qed

lemma dispose_grows:
  assumes "dispose now p tr req stale room db = Inr db'"
  shows "journal_grows db db'"
proof -
  have app: "journal_grows db d'" if "appendOutbox q k m d = Inr (d', n)" "journal_grows db d" for q k m d d' n
    using that outbox_appended(1) journal_grows_trans by blast
  have si: "journal_grows db (set_input q i g db)" for q i g by (simp add: set_defs journal_grows_same)
  have up: "journal_grows db (upsert_wait w (set_input q i g db))" for w q i g
    by (simp add: upsert_wait_def set_defs journal_grows_same)
  have b: "journal_grows db db'" if "commit_budget_wait now p tr req w stale room db = Inr db'" for w
    using that unfolding commit_budget_wait_def Let_def
    by (auto simp: rbind_eq_Inr with_dataErr_eq_Inr si split: option.splits if_splits intro: app [OF _ up])
  have a: "journal_grows db db'" if "commit_approval_wait now p tr db = Inr db'"
    using that unfolding commit_approval_wait_def Let_def
    by (auto simp: rbind_eq_Inr with_dataErr_eq_Inr si split: if_splits intro: app [OF _ si])
  have c: "journal_grows db db'" if "commit_complete now p tr req db = Inr db'"
    using that unfolding commit_complete_def by (auto simp: rbind_eq_Inr with_dataErr_eq_Inr intro: app [OF _ si])
  have f: "journal_grows db db'" if "commit_fail now p tr req db = Inr db'"
    using that unfolding commit_fail_def by (auto simp: rbind_eq_Inr si split: if_splits intro: app [OF _ si])
  show ?thesis using assms a b c f by (auto simp: dispose_def split: if_splits option.splits)
qed

lemma commit_fresh_grows:
  assumes "commit_fresh u hook now p tr req db = Inr (db', tr', retry)"
  shows "journal_grows db db'"
proof -
  let ?db1 = "reconcileHeldReservations p (t_turn_id tr) None db"
  from assms obtain stale room db2 db3 d where j: "journalCommit p (t_turn_id tr) (t_input_id tr) (commit_events req) ?db1 = Inr db2"
    and ds: "dispose now p tr req stale room (set_turn p (t_turn_id tr) (finished_turn now req) db2) = Inr db3"
    and d': "db' = db3\<lparr>domain := d\<rparr>"
    unfolding commit_fresh_def Let_def
    by (auto simp: rbind_eq_Inr case_prod_beta) (metis fire_notice_frame prod.collapse)
  from journalCommit_ok [OF j] obtain es d1 where a: "appendEventsTx p (t_turn_id tr) es ?db1 = Inr d1"
    and l: "db2 = linkReceipts p (last_seq ?db1 p) d1" by blast
  have "journal_grows db ?db1" by (simp add: journal_grows_same reconcileHeldReservations_def set_reservations_def)
  moreover have "journal_grows ?db1 d1" using appendEventsTx_quiet [OF a] by (simp add: quiet_def)
  moreover have "journal_grows d1 (set_turn p (t_turn_id tr) (finished_turn now req) db2)"
    by (simp add: l linkReceipts_def set_defs journal_grows_same)
  moreover have "journal_grows (set_turn p (t_turn_id tr) (finished_turn now req) db2) db3" by (rule dispose_grows [OF ds])
  moreover have "journal_grows db3 db'" by (simp add: d' journal_grows_same)
  ultimately show ?thesis by (meson journal_grows_trans)
qed

lemma commitTurn_grows:
  assumes "commitTurn u hook now p t gen req db = Inr (db1, tr', retry)"
  shows "rights db1 = rights db \<and> journal_grows db db1"
  using assms
proof (cases rule: commitTurn_checks)
  case (1 tr)
  show ?thesis
  proof (cases "t_status tr = TRunning")
    case True
    note f = 1(5) [OF True]
    have "rights db1 = rights db" using commit_fresh_ok(3) [OF f] by (auto simp: rights_def)
    with commit_fresh_grows [OF f] show ?thesis by simp
  next
    case False
    from commit_replay_ok(2) [OF 1(4) [OF False]] show ?thesis by (auto simp: rights_def journal_grows_same)
  qed
qed

lemma CommitTurn_moves: "moves db (fst (CommitTurn u hook now p t gen req db))"
proof -
  let ?r = "CommitTurn u hook now p t gen req db"
  have "rights (fst ?r) = rights db \<and> journal_grows db (fst ?r) \<and> (one_running db \<longrightarrow> one_running (fst ?r))"
  proof (cases "snd ?r")
    case (Inl e)
    then have "fst ?r = db" by (metis CommitTurn_rollback prod.collapse)
    then show ?thesis by simp
  next
    case (Inr tr')
    then have "?r = (fst ?r, Inr tr')" by (metis prod.collapse)
    from CommitTurn_tx [OF this] obtain db1 retry d where c: "commitTurn u hook now p t gen req db = Inr (db1, tr', retry)"
      and d: "fst ?r = db1\<lparr>domain := d\<rparr>" by blast
    from commitTurn_grows [OF c] journal_grows_trans [of db db1 "fst ?r"] commitTurn_one_running [OF c] show ?thesis
      by (auto simp: d rights_def journal_grows_same one_running_def)
  qed
  then show ?thesis unfolding moves_def using CommitTurn_accounted CommitTurn_apart by blast
qed

lemma ResolveApproval_resolves:
  assumes "ResolveApproval now p x q db = Inr (db', a')"
  shows "resolves db db'"
  using assms
proof (cases rule: ResolveApproval_cases)
  case replayed
  have "decided_kept (approvals db) (approvals db)" by (rule decided_keptI)
  with replayed show ?thesis by (simp add: resolves_def settled_kept_def)
next
  case (decided a)
  note dp = decide_pending_ok [OF decided(3)]
  have "journal_grows db db'" by (rule events_appended [OF dp(5)]) (subst dp(6), simp)
  moreover have "settled_kept db db'"
    by (auto simp: settled_kept_def dp(3) deny_operation_def set_upd)
  moreover have "decided_kept (approvals db) (approvals db')"
    by (rule decided_keptI) (auto simp: dp(2) set_upd)
  moreover have "keyed appr_key (approvals db')" if "keyed appr_key (approvals db)"
    using that by (simp add: dp(2) keyed_upd decided_row_key)
  moreover have "keyed appr_key (approvals db) \<Longrightarrow> accounted db \<Longrightarrow> accounted db'"
    by (rule ResolveApproval_accounted [OF assms])
  moreover have "leases db' = leases db" "turns db' = turns db" by (subst dp(6), simp)+
  ultimately show ?thesis using ResolveApproval_apart [OF assms] unfolding resolves_def by blast
qed

definition claims :: "'d db \<Rightarrow> 'd db \<Rightarrow> bool" where
  "claims db db' \<longleftrightarrow> quiet db db' \<and> settled_kept db db'"

lemma claims_refl: "claims db db"
  by (simp add: claims_def settled_kept_def)

lemma claim_commands:
  "claims db (fst (ClaimOperation st now clock p t gen opid tool idx req db))"
  "CompleteOperation st now p opid gen resp failed db = Inr (db', op) \<Longrightarrow> claims db db'"
  by (auto simp: claims_def settled_kept_def ClaimOperation_quiet ClaimOperation_keeps_settled
      intro: CompleteOperation_quiet CompleteOperation_keeps_settled)

lemma exec_job_claims: "exec_job jh now wall c db = Inr db' \<Longrightarrow> claims db db'"
proof -
  assume e: "exec_job jh now wall c db = Inr db'"
  have "operations db' = operations db" using exec_job_frame [OF e] by (auto simp: job_frame_def)
  then show ?thesis using job_frame_quiet [OF exec_job_frame [OF e] exec_job_lawful [OF e]] by (simp add: claims_def settled_kept_def)
qed

lemma exec_term_claims: "exec_term th now wall c db = Inr db' \<Longrightarrow> claims db db'"
proof -
  assume e: "exec_term th now wall c db = Inr db'"
  have "operations db' = operations db" using exec_term_frame [OF e] by (auto simp: term_frame_def)
  then show ?thesis using term_frame_quiet [OF exec_term_frame [OF e] exec_term_progress [OF e]]
    by (simp add: claims_def settled_kept_def)
qed

lemma mem_tx_claims: "mem_tx db db' \<Longrightarrow> claims db db'"
  using mem_tx_quiet [of db db'] by (auto simp: claims_def settled_kept_def mem_tx_def mem_frame_def)

lemmas memory_commands_claim = MemoryMaintain_tx [THEN mem_tx_claims] ClaimMemoryBranch_tx [THEN mem_tx_claims] SaveMemoryBranch_tx [THEN mem_tx_claims]

definition permitted :: "'d db \<Rightarrow> 'd db \<Rightarrow> bool" where
  "permitted db db' \<longleftrightarrow> registers db db' \<or> claims db db' \<or> releases db db' \<or> moves db db' \<or> resolves db db'"

lemma permitted_refl: "permitted db db"
  by (simp add: permitted_def claims_refl)

lemma permittedI:
  "registers db db' \<Longrightarrow> permitted db db'" "claims db db' \<Longrightarrow> permitted db db'" "releases db db' \<Longrightarrow> permitted db db'"
  "moves db db' \<Longrightarrow> permitted db db'" "resolves db db' \<Longrightarrow> permitted db db'"
  by (simp_all add: permitted_def)

lemma permitted_tx: "(\<And>a s'. f s = Inr (s', a) \<Longrightarrow> permitted s s') \<Longrightarrow> permitted s (tx f s)"
  by (rule tx_I) (auto intro: permitted_refl)

lemmas committed_kinds =
  persona_commands_register [THEN permittedI(1)] lease_commands_register [THEN permittedI(1)]
  claim_commands(2) [THEN permittedI(2)] SubmitInput_moves [THEN permittedI(4)] SavePlan_moves [THEN permittedI(4)]
  LoadTurn_moves [THEN permittedI(4)] Recover_moves [THEN permittedI(4)] Dispatch_moves [THEN permittedI(4)]
  ResolveApproval_resolves [THEN permittedI(5)] AdmitUsage_releases [THEN permittedI(3)]
  RecordUsage_releases [THEN permittedI(3)] ResumeWaitsForHuman_releases [THEN permittedI(3)]
  memory_commands_claim(2,3) [THEN permittedI(2)]

lemmas direct_kinds = claim_commands(1) [THEN permittedI(2)] CommitTurn_moves [THEN permittedI(4)]
  budget_commands_release [THEN permittedI(3)] ResumeWaitsForFunding_releases [THEN permittedI(3)]
  reconcile_releases [THEN permittedI(3)] memory_commands_claim(1) [THEN permittedI(2)]

lemma exec_permitted: "permitted db (exec en c db)"
  by (cases c) (auto simp: ReconcileRetiredReservations_def direct_kinds rbind_eq_Inr intro!: permitted_tx
      intro: exec_job_claims [THEN permittedI(2)] exec_term_claims [THEN permittedI(2)] dest: committed_kinds)

section \<open>Histories\<close>

text \<open>
  What no command takes back: journal and outbox entries, settled operations, decisions, what the
  inputs say, and what jobs, terminals and memory chunks have reached.
\<close>

definition history_kept :: "'d db \<Rightarrow> 'd db \<Rightarrow> bool" where
  "history_kept db db' \<longleftrightarrow> journal_grows db db' \<and> settled_kept db db' \<and> decided_kept (approvals db) (approvals db')
     \<and> job_lawful db db' \<and> term_lawful db db' \<and> mem_lawful db db' \<and> faces_kept (inputs db) (inputs db')"

lemma apart_faces: "apart db db' \<Longrightarrow> faces_kept (inputs db) (inputs db')"
  by (simp add: apart_def)

lemma consents_decided: "consents as as' \<Longrightarrow> decided_kept as as'"
proof -
  assume "consents as as'"
  then obtain bs cs where b: "as' = bs @ cs" "list_all2 spent_at_most as bs" by (auto simp: consents_def)
  show ?thesis
    unfolding decided_kept_def
  proof (intro ballI impI)
    fix a assume "a \<in> set as"
    with b(2) obtain a' where "a' \<in> set bs" "spent_at_most a a'" by (metis list_all2_conv_all_nth in_set_conv_nth)
    with b(1) show "\<exists>a' \<in> set as'. spent_at_most a a'" by auto
  qed
qed

lemma decided_kept_trans: "decided_kept as bs \<Longrightarrow> decided_kept bs cs \<Longrightarrow> decided_kept as cs"
  unfolding decided_kept_def by (metis spent_at_most_trans spent_at_most_status)

lemma history_kept_same:
  "journal_grows db db' \<Longrightarrow> operations db' = operations db \<Longrightarrow> approvals db' = approvals db \<Longrightarrow> apart db db' \<Longrightarrow> history_kept db db'"
  by (auto simp: history_kept_def settled_kept_def apart_lawful apart_mem apart_faces intro: decided_keptI)

lemma permitted_history:
  assumes "permitted db db'"
  shows "history_kept db db'"
  using assms unfolding permitted_def
proof (elim disjE)
  assume "registers db db'"
  then show ?thesis by (auto simp: registers_def intro!: history_kept_same journal_grows_same apartI)
next
  assume "releases db db'"
  then show ?thesis by (auto simp: releases_def intro!: history_kept_same journal_grows_same)
next
  assume "claims db db'"
  then show ?thesis by (auto simp: claims_def quiet_def inbox_told_def history_kept_def intro: consents_decided)
next
  assume "moves db db'"
  then show ?thesis by (auto simp: moves_def rights_def intro: history_kept_same)
next
  assume "resolves db db'"
  then show ?thesis by (simp add: resolves_def history_kept_def apart_lawful apart_mem apart_faces)
qed

interpretation hist: evolution "core_step en" history_kept for en :: "'d env"
proof
  show "history_kept s s" for s :: "'d db" by (rule history_kept_same) simp_all
  show "history_kept s u" if "history_kept s t" "history_kept t u" for s t u :: "'d db"
    using that by (auto simp: history_kept_def settled_kept_def intro: journal_grows_trans decided_kept_trans job_lawful_trans term_lawful_trans mem_lawful_trans faces_kept_trans)
  show "history_kept s t" if "core_step en s t" for s t
    using that by (auto simp: core_step_def intro: permitted_history exec_permitted)
qed

text \<open>What holds of the state at every moment.\<close>

definition sound :: "'d db \<Rightarrow> bool" where
  "sound db \<longleftrightarrow> accounted db \<and> one_running db \<and> keyed appr_key (approvals db) \<and> keyed l_persona_id (leases db) \<and> jobs_ok db
     \<and> terms_ok db \<and> mem_ok db"

lemma permitted_sound:
  assumes "permitted db db'" "sound db"
  shows "sound db'"
proof -
  have j: "jobs_ok db'" "terms_ok db'" "mem_ok db'" using permitted_history [OF assms(1)] assms(2)
    by (simp_all add: history_kept_def job_lawful_def term_lawful_def mem_lawful_def sound_def)
  from assms(1) show ?thesis unfolding permitted_def
  proof (elim disjE)
    assume r: "registers db db'"
    then have "accounted db' = accounted db" by (intro same_accounted) (auto simp: registers_def)
    with r assms(2) j show ?thesis by (auto simp: sound_def registers_def one_running_def)
  next
    assume "releases db db'"
    with assms(2) j show ?thesis by (auto simp: sound_def releases_def one_running_def)
  next
    assume c: "claims db db'"
    then have "accounted db'" using assms(2) quiet_accounted by (auto simp: claims_def sound_def)
    with c assms(2) j show ?thesis by (simp add: sound_def claims_def quiet_def consents_def one_running_def)
  next
    assume "moves db db'"
    with assms(2) j show ?thesis by (simp add: sound_def moves_def rights_def)
  next
    assume "resolves db db'"
    with assms(2) j show ?thesis by (simp add: sound_def resolves_def one_running_def)
  qed
qed

interpretation inv: guarded_evolution "core_step en" sound for en :: "'d env"
  by unfold_locales (auto simp: core_step_def intro: permitted_sound exec_permitted)

lemma permitted_gens: "permitted db db' \<Longrightarrow> gen_no db p \<le> gen_no db' p"
  unfolding permitted_def
  by (auto simp: registers_def claims_def quiet_def releases_def moves_def rights_def resolves_def gen_no_def gen_of_def lease_of_def)

lemma permitted_leases: "permitted db db' \<Longrightarrow> keyed l_persona_id (leases db) \<Longrightarrow> keyed l_persona_id (leases db')"
  unfolding permitted_def
  by (auto simp: registers_def claims_def quiet_def releases_def moves_def rights_def resolves_def)

interpretation fence: fencing "core_step en" "\<lambda>db. gen_no db p" "\<lambda>db g. requireGeneration db p g = Inr ()"
  for en :: "'d env" and p :: string
proof
  show "gen_no s p \<le> gen_no t p" if "core_step en s t" for s t
    using that by (auto simp: core_step_def intro: permitted_gens exec_permitted)
  show "g = gen_no s p" if "requireGeneration s p g = Inr ()" for s :: "'d db" and g
    using that by (simp add: requireGeneration_ok gen_no_def)
qed

text \<open>The generation a command presents, and for whom.\<close>

fun presents :: "cmd \<Rightarrow> (string \<times> int) option" where
  "presents (RenewWriterC now p holder gen ttl) = Some (p, gen)"
| "presents (ReleaseWriterC p holder gen) = Some (p, gen)"
| "presents (LoadTurnC now new_id p gen t) = Some (p, gen)"
| "presents (SavePlanC now p t gen rnd d) = Some (p, gen)"
| "presents (ClaimOperationC now clock p t gen opid tool idx req) = Some (p, gen)"
| "presents (CompleteOperationC now p opid gen resp failed) = Some (p, gen)"
| "presents (CommitTurnC now p t gen req) = Some (p, gen)"
| "presents (RecoverC now p gen) = Some (p, gen)"
| "presents (AdmitUsageC p q) = Some (p, aq_generation q)"
| "presents (DispatchSchedulesC now p gen hint limit) = Some (p, gen)"
| "presents (MemoryMaintainC now p gen) = Some (p, gen)"
| "presents (ClaimMemoryC now p gen snap policy) = Some (p, gen)"
| "presents (SaveMemoryC now p gen s expected body) = Some (p, gen)"
| "presents _ = None"

lemma tx_refused: "(\<And>r. f s \<noteq> Inr r) \<Longrightarrow> tx f s = s"
  by (cases "f s") (auto simp: tx_def run_tx_def)

lemma fenced_claim:
  assumes "requireGeneration db p g = Inl e"
  shows "fst (ClaimOperation st now clock p t g opid tool idx req db) = db"
proof -
  have c: "claimOperation st now clock p t g opid tool idx req db \<noteq> Inr r" for r
    using assms by (cases r) (auto simp: claimOperation_def claim_check_def rbind_eq_Inr Let_def)
  have "journalRejectedClaim ft p t g idx tool req x db = Inl e" for ft x
    using assms by (simp add: journalRejectedClaim_def)
  moreover from c obtain x where "claimOperation st now clock p t g opid tool idx req db = Inl x"
    by (cases "claimOperation st now clock p t g opid tool idx req db") blast+
  ultimately show ?thesis by (simp add: ClaimOperation_def run_tx_def)
qed

lemma fenced_commit:
  assumes "requireGeneration db p g = Inl e"
  shows "fst (CommitTurn u hook now p t g req db) = db"
proof -
  have "commitTurn u hook now p t g req db \<noteq> Inr r" for r
    using assms by (auto simp: commitTurn_def rbind_eq_Inr)
  then show ?thesis by (cases "commitTurn u hook now p t g req db") (auto simp: CommitTurn_def run_tx_def)
qed

lemma fenced_lease:
  assumes "keyed l_persona_id (leases db)" "g < gen_no db p"
  shows "find (held_as p g h) (leases db) = None"
proof (rule ccontr)
  assume "find (held_as p g h) (leases db) \<noteq> None"
  then obtain l where "find (held_as p g h) (leases db) = Some l" by blast
  then have l: "l \<in> set (leases db)" "held_as p g h l" by (simp_all add: find_SomeD)
  have "lease_of db p = Some l"
    unfolding lease_of_def
    by (rule keyed_find [OF assms(1) l(1)]) (use l(2) in \<open>auto simp: held_as_def is_lease_def\<close>)
  with l(2) assms(2) show False by (simp add: gen_no_def gen_of_def held_as_def)
qed

lemma fenced_inert:
  assumes "requireGeneration db p g \<noteq> Inr ()" "keyed l_persona_id (leases db)" "g < gen_no db p" "presents c = Some (p, g)"
  shows "exec en c db = db"
proof -
  from assms(1) obtain e where e: "requireGeneration db p g = Inl e" by (cases "requireGeneration db p g") auto
  show ?thesis
    using assms(4) e fenced_lease [OF assms(2,3)]
    by (cases c) (auto simp: fenced_claim fenced_commit LoadTurn_def SavePlan_def CompleteOperation_def Recover_def
        DispatchDueSchedules_def AdmitUsage_def RenewWriter_def ReleaseWriter_def
        MemoryMaintain_def maintainTx_def ClaimMemoryBranch_def SaveMemoryBranch_def requireMemoryGeneration_def run_tx_def rbind_eq_Inr split: if_splits intro!: tx_refused)
qed

section \<open>Properties\<close>

text \<open>
  C4. A fenced writer is inert for ever: once a lease was granted, a command that presents an
  earlier generation of the persona changes nothing, whatever commands of whichever hosts ran in
  between and in whatever order.
\<close>

theorem fenced_writer_is_inert:
  assumes "AcquireWriter now p h ttl db = Inr (db1, l)" and "keyed l_persona_id (leases db)"
    and "presents c = Some (p, g)" and "g < l_generation l"
  shows "exec en c (run en cs db1) = run en cs db1"
proof (rule fenced_inert [OF _ _ _ assms(3)])
  have g: "g < gen_no db1 p" using AcquireWriter_gen [OF assms(1)] assms(4) by (simp add: gen_no_def)
  show "requireGeneration (run en cs db1) p g \<noteq> Inr ()" by (rule fence.fenced [OF run_reach g])
  show "g < gen_no (run en cs db1) p" using g fence.reach_R [OF run_reach [of en db1 cs]] by (meson less_le_trans)
  have "keyed l_persona_id (leases db1)"
    using lease_commands_register(1) [OF assms(1)] assms(2) by (simp add: registers_def)
  then show "keyed l_persona_id (leases (run en cs db1))"
    by (induction cs arbitrary: db1) (auto intro: permitted_leases [OF exec_permitted])
qed

definition demo_env :: "unit env" where
  "demo_env = \<lparr>en_store = demo_store, en_uuid = (\<lambda>_. None), en_notice = None\<rparr>"

text \<open>Host h2 takes the lease over, h1 tries to go on, h2 recovers and loads the turn again.\<close>

definition demo_takeover :: "cmd list" where
  "demo_takeover = [CommitTurnC 200 ''p1'' ''t1'' 4 demo_commit, RecoverC 210 ''p1'' 5, LoadTurnC 220 ''new'' ''p1'' 5 ''t2'']"

theorem fenced_writer_is_inert_witness:
  "exec demo_env (CommitTurnC 300 ''p1'' ''t1'' 4 demo_commit)
     (run demo_env demo_takeover (fst (run_tx (AcquireWriter 100000 ''p1'' ''h2'' 60) demo_running)))
   = run demo_env demo_takeover (fst (run_tx (AcquireWriter 100000 ''p1'' ''h2'' 60) demo_running))"
proof -
  obtain l where a: "AcquireWriter 100000 ''p1'' ''h2'' 60 demo_running
      = Inr (fst (run_tx (AcquireWriter 100000 ''p1'' ''h2'' 60) demo_running), l)" and l: "l_generation l = 5"
    by (rule that [of "\<lparr>l_persona_id = ''p1'', l_generation = 5, l_holder_id = ''h2'', l_acquired_at = 100000, l_expires_at = 100060\<rparr>"]) code_simp+
  have "keyed l_persona_id (leases demo_running)" by code_simp
  from fenced_writer_is_inert [OF a this, of "CommitTurnC 300 ''p1'' ''t1'' 4 demo_commit" 4] l show ?thesis by simp
qed

text \<open>
  C6. The record only grows: along every history the journal and the outbox are extended at the
  end and never rewritten, and their numbering per persona, once without a gap, stays so.
\<close>

theorem record_only_grows:
  assumes "gapless db p" and "out_gapless db p"
  shows "prefix (events db) (events (run en cs db)) \<and> prefix (outbox db) (outbox (run en cs db))
    \<and> gapless (run en cs db) p \<and> out_gapless (run en cs db) p"
  using hist.reach_R [OF run_reach [of en db cs]] assms by (simp add: history_kept_def journal_grows_def)

theorem record_only_grows_witness:
  "gapless (run demo_env demo_takeover demo_running) ''p1'' \<and> out_gapless (run demo_env demo_takeover demo_running) ''p1''"
proof -
  have "gapless demo_running ''p1''" "out_gapless demo_running ''p1''" by code_simp+
  from record_only_grows [OF this] show ?thesis by blast
qed

text \<open>
  C5. What was settled or decided is never taken back: along every history an operation recorded
  done or failed stays as it is, and an approval once granted or denied keeps every field of the
  decision; the one change it can still see is its grant being spent, once.
\<close>

theorem verdicts_are_final:
  shows "(\<forall>x \<in> set (operations db). settled x \<longrightarrow> x \<in> set (operations (run en cs db)))
    \<and> (\<forall>a \<in> set (approvals db). a_status a \<noteq> APending \<longrightarrow> (\<exists>a' \<in> set (approvals (run en cs db)).
         a' = a \<or> a_consumed_at a = None \<and> (\<exists>w. a' = a\<lparr>a_consumed_at := w\<rparr>)))"
proof -
  have "history_kept db (run en cs db)" by (rule hist.reach_R [OF run_reach])
  then show ?thesis by (auto simp: history_kept_def settled_kept_def decided_kept_def spent_at_most_def)
qed

definition demo_verdicts :: "unit db" where
  "demo_verdicts = demo_settled\<lparr>approvals := [demo_approval\<lparr>a_status := ADenied\<rparr>]\<rparr>"

theorem verdicts_are_final_witness:
  "demo_op\<lparr>o_status := ODone\<rparr> \<in> set (operations (run demo_env demo_takeover demo_verdicts))"
proof -
  have "demo_op\<lparr>o_status := ODone\<rparr> \<in> set (operations demo_verdicts)" "settled (demo_op\<lparr>o_status := ODone\<rparr>)"
    by (simp_all add: demo_verdicts_def demo_settled_def)
  with verdicts_are_final [of demo_verdicts demo_env demo_takeover] show ?thesis by blast
qed

text \<open>
  C3. No input is ever lost: along every history from a sound state, an input is queued, or done,
  or claimed and then held by the persona's one running turn, or waiting and then a pending
  approval or a budget wait row is there to wake it.
\<close>

theorem no_input_stranded:
  assumes "sound db" and "db' = run en cs db" and "r \<in> set (inputs db')"
  shows "case i_status r of
      IQueued \<Rightarrow> True
    | IDone \<Rightarrow> True
    | IClaimed \<Rightarrow> \<exists>t. filter (is_running (i_persona_id r)) (turns db') = [t] \<and> t_input_id t = i_input_id r
    | IWaiting \<Rightarrow> approval_pending db' (i_persona_id r) (i_input_id r)
        \<or> (\<exists>w \<in> set (waits db'). w_persona_id w = i_persona_id r \<and> w_input_id w = i_input_id r)"
proof -
  have s: "sound db'" unfolding assms(2) by (rule inv.reach_I [OF run_reach assms(1)])
  with assms(3) have p: "placed db' r" by (simp add: sound_def accounted_iff)
  have one: "filter (is_running q) (turns db') = [t]" if "t \<in> set (turns db')" "is_running q t" for q t
  proof -
    have "length (filter (is_running q) (turns db')) \<le> 1" using s by (simp add: sound_def one_running_def)
    moreover have "t \<in> set (filter (is_running q) (turns db'))" using that by simp
    ultimately show ?thesis by (cases "filter (is_running q) (turns db')") auto
  qed
  show ?thesis
    using p one by (auto simp: placed_def reason_def in_hand_def list_ex_iff is_wait_def split: input_status.splits)
qed

theorem no_input_stranded_witness:
  "list_all (\<lambda>r. i_status r = IClaimed \<longrightarrow> (\<exists>t. filter (is_running ''p1'') (turns (run demo_env demo_takeover demo_running)) = [t]
       \<and> t_input_id t = i_input_id r)) (filter (\<lambda>r. i_persona_id r = ''p1'') (inputs (run demo_env demo_takeover demo_running)))"
proof -
  have "one_running demo_running"
    unfolding one_running_def by (simp add: demo_run_defs is_running_def)
  moreover have "accounted demo_running" "keyed appr_key (approvals demo_running)" "keyed l_persona_id (leases demo_running)" by code_simp+
  moreover have "jobs_ok demo_running" by (simp add: jobs_ok_def noted_of_def demo_run_defs jobInputPrefix_def)
  moreover have "terms_ok demo_running" by (rule no_terminals_ok) (simp_all add: demo_run_defs)
  moreover have "mem_ok demo_running" by (rule no_memory_ok) (simp_all add: demo_run_defs)
  ultimately have "sound demo_running" by (simp add: sound_def)
  from no_input_stranded [OF this refl, of _ demo_env demo_takeover] show ?thesis
    by (fastforce simp: list_all_iff split: input_status.splits)
qed

text \<open>A deployment with one queued job, its runner's claim, and a report from another runner and from the owner.\<close>

definition demo_with_job :: "unit db" where
  "demo_with_job = demo_running\<lparr>jobs := [new_job 0 ''p1'' ''j1'' ''subprocess'' [] ''api'']\<rparr>"

definition demo_job_run :: "cmd list" where
  "demo_job_run = [JobC 10 10 (JClaim ''p1'' ''r1'' [''subprocess''] 60 1 ''local''),
     JobC 20 20 (JComplete ''p1'' ''j1'' ''r2'' ''failed'' None ''x''), JobC 30 30 (JComplete ''p1'' ''j1'' ''r1'' ''done'' None [])]"

lemma demo_with_job_sound: "sound demo_with_job"
proof -
  have "one_running demo_with_job"
    unfolding one_running_def by (simp add: demo_with_job_def demo_run_defs is_running_def)
  moreover have "accounted demo_with_job" "keyed appr_key (approvals demo_with_job)" "keyed l_persona_id (leases demo_with_job)"
    "keyed job_key (jobs demo_with_job)" "list_all job_wf (jobs demo_with_job)" by code_simp+
  moreover have "noted_of (inputs demo_with_job) = ended_of (jobs demo_with_job)"
    by (simp add: demo_with_job_def noted_of_def demo_run_defs jobInputPrefix_def new_job_def jobTerminal_def)
  moreover have "terms_ok demo_with_job" by (rule no_terminals_ok) (simp_all add: demo_with_job_def demo_run_defs)
  moreover have "mem_ok demo_with_job" by (rule no_memory_ok) (simp_all add: demo_with_job_def demo_run_defs)
  ultimately show ?thesis by (simp add: sound_def jobs_ok_def)
qed

text \<open>
  C7. The outcome of a job reaches its persona: along every history from a sound state, the
  notification input of a job exists exactly when the job has ended, whichever of completion,
  cancellation, expiry or sweep ended it and whatever ran in between.
\<close>

theorem ended_jobs_are_announced:
  assumes "sound db" and "db' = run en cs db"
  shows "input_of db' p (jobInputPrefix @ x) \<noteq> None \<longleftrightarrow> (\<exists>j. job_of db' p x = Some j \<and> jobTerminal (j_status j))"
proof -
  have s: "sound db'" unfolding assms(2) by (rule inv.reach_I [OF run_reach assms(1)])
  then have ok: "jobs_ok db'" by (simp add: sound_def)
  then have "input_of db' p (jobInputPrefix @ x) \<noteq> None \<longleftrightarrow> (p, x) \<in> ended_of (jobs db')"
    using noted_of_input [of p x db'] by (simp add: jobs_ok_def)
  also have "\<dots> \<longleftrightarrow> (\<exists>j \<in> set (jobs db'). is_job p x j \<and> jobTerminal (j_status j))"
    by (auto simp: ended_of_def is_job_def)
  also have "\<dots> \<longleftrightarrow> (\<exists>j. job_of db' p x = Some j \<and> jobTerminal (j_status j))"
  proof
    assume "\<exists>j \<in> set (jobs db'). is_job p x j \<and> jobTerminal (j_status j)"
    then obtain j where j: "j \<in> set (jobs db')" "is_job p x j" "jobTerminal (j_status j)" by blast
    then have "job_of db' p x = Some j" unfolding job_of_def
      by (intro keyed_find [of job_key]) (use ok in \<open>auto simp: jobs_ok_def is_job_def\<close>)
    with j(3) show "\<exists>j. job_of db' p x = Some j \<and> jobTerminal (j_status j)" by blast
  next
    assume "\<exists>j. job_of db' p x = Some j \<and> jobTerminal (j_status j)"
    then show "\<exists>j \<in> set (jobs db'). is_job p x j \<and> jobTerminal (j_status j)" using job_of_in by blast
  qed
  finally show ?thesis .
qed

theorem ended_jobs_are_announced_witness:
  "input_of (run demo_env demo_job_run demo_with_job) ''p1'' (jobInputPrefix @ ''j1'') \<noteq> None"
proof -
  have "case_option False (\<lambda>j. jobTerminal (j_status j)) (job_of (run demo_env demo_job_run demo_with_job) ''p1'' ''j1'')" by code_simp
  then show ?thesis
    unfolding ended_jobs_are_announced [OF demo_with_job_sound refl] by (auto split: option.splits)
qed

text \<open>
  C8. A job's end is final: along every history from a sound state, a job reported done, failed
  or cancelled keeps every column. Of a job whose claim was lost only the result changes: every field
  of it stays, the marker of the expired claim among them, except that the outcome its runner observed
  is added, once and never rewritten, and the note of a wait may be removed.
\<close>

theorem job_ends_are_final:
  assumes "sound db" and "job_of db p x = Some j" and "jobTerminal (j_status j)"
  shows "\<exists>r. job_of (run en cs db) p x = Some (j\<lparr>j_result := r\<rparr>)
    \<and> (j_status j \<noteq> JLost \<longrightarrow> r = j_result j)
    \<and> (\<forall>k. k \<noteq> ''observed_outcome'' \<and> k \<noteq> runnerWaitKey \<longrightarrow> map_of (or_empty r) k = map_of (or_empty (j_result j)) k)
    \<and> (\<forall>v. map_of (or_empty (j_result j)) ''observed_outcome'' = Some v \<longrightarrow> map_of (or_empty r) ''observed_outcome'' = Some v)
    \<and> map_of (or_empty r) runnerWaitKey \<in> {None, map_of (or_empty (j_result j)) runnerWaitKey}
    \<and> (j_status j = JLost \<longrightarrow> map_of (or_empty r) ''reason'' = Some (JStr ''claim_expired''))"
proof -
  let ?db = "run en cs db"
  have "history_kept db ?db" by (rule hist.reach_R [OF run_reach])
  then have g: "grows job_moved (\<lambda>_. True) (jobs db) (jobs ?db)" using assms(1) by (simp add: history_kept_def job_lawful_def sound_def)
  note j = job_of_in [OF assms(2)]
  from grows_old [OF g] j obtain j' where j': "j' \<in> set (jobs ?db)" "job_moved j j'" by blast
  have "jobs_ok ?db" using inv.reach_I [OF run_reach assms(1)] by (simp add: sound_def)
  moreover have "is_job p x j'" using j'(2) j by (simp add: job_moved_def job_cols_def is_job_def)
  ultimately have f: "job_of ?db p x = Some j'" unfolding job_of_def
    by (intro keyed_find [of job_key]) (use j'(1) in \<open>auto simp: jobs_ok_def is_job_def\<close>)
  have wf: "job_wf j" using assms(1) j by (simp add: sound_def jobs_ok_def list_all_iff)
  show ?thesis
  proof (cases "j_status j = JLost")
    case True
    with j'(2) have k: "lost_kept j j'" by (simp add: job_moved_def)
    then obtain r where r: "j' = j\<lparr>j_result := r\<rparr>" unfolding lost_kept_def by blast
    from wf True have "map_of (or_empty (j_result j)) ''reason'' = Some (JStr ''claim_expired'')" by (simp add: job_wf_def)
    with k f True show ?thesis
      by (intro exI [of _ r]) (auto simp: lost_kept_def outcome_of_def result_field_def runnerWaitKey_def r)
  next
    case False
    with assms(3) j'(2) have "j' = j" by (cases "j_status j") (auto simp: job_moved_def jobTerminal_def)
    with f False show ?thesis by (intro exI [of _ "j_result j"]) simp
  qed
qed

theorem job_ends_are_final_witness:
  "\<exists>j. job_of (run demo_env demo_job_run demo_with_job) ''p1'' ''j1'' = Some j
    \<and> job_of (run demo_env [JobC 40 40 (JComplete ''p1'' ''j1'' ''r1'' ''failed'' None ''late''), JobC 50 50 (JCancel ''p1'' ''j1'')]
        (run demo_env demo_job_run demo_with_job)) ''p1'' ''j1'' = Some j"
proof -
  let ?d = "run demo_env demo_job_run demo_with_job"
  have "case_option False (\<lambda>j. j_status j = JDone) (job_of ?d ''p1'' ''j1'')" by code_simp
  then obtain j where j: "job_of ?d ''p1'' ''j1'' = Some j" "j_status j = JDone" by (auto split: option.splits)
  have "sound ?d" by (rule inv.reach_I [OF run_reach demo_with_job_sound])
  from job_ends_are_final [OF this j(1)] j show ?thesis by (auto simp: jobTerminal_def simp del: run_Cons)
qed

text \<open>
  C29. Stored jobs are well-formed: along every history from a sound state, the status of a job
  fixes which of its columns are set (a queued job has no owner, a live claim has an owner, a
  start and an expiry, an ended job has its end, its notification and, where a runner reported or
  vanished, its owner and result, while one withdrawn from the queue has neither), and no two jobs of a persona share an id.
\<close>

theorem job_rows_well_formed:
  assumes "sound db"
  shows "list_all job_wf (jobs (run en cs db)) \<and> keyed job_key (jobs (run en cs db))"
  using inv.reach_I [OF run_reach assms, of en cs] by (simp add: sound_def jobs_ok_def)

theorem job_rows_well_formed_witness:
  "list_all job_wf (jobs (run demo_env demo_job_run demo_with_job))"
  using job_rows_well_formed [OF demo_with_job_sound, of demo_env demo_job_run] by blast

section \<open>Progress\<close>

lemma sound_renderable: "sound db \<Longrightarrow> renderable db p"
  by (auto simp: sound_def mem_ok_def renderable_def chunks_of_def texted_def list_all_iff)

text \<open>
  C33. Progress: in every state a history reaches from a sound one, under the live generation, with no
  turn running and some input due, loading a turn with a fresh id succeeds. It takes the due input that
  was admitted first, stores the new turn as the persona's running one for that input under the
  caller's generation, and stores the input as claimed by that turn.
\<close>

theorem load_turn_progress:
  assumes "sound db0" and "db = run en cs db0"
    and "requireGeneration db p gen = Inr ()" and "running_turn db p = None"
    and "r \<in> set (inputs db)" and "due now p r"
    and "t \<noteq> []" and "NUL \<notin> set t" and "turn_of db p t = None"
  shows "\<exists>db' res tr x y. LoadTurn now nid p gen t db = Inr (db', res) \<and> lr_turn res = Some tr
    \<and> x \<in> set (inputs db) \<and> due now p x \<and> (\<forall>y \<in> set (inputs db). due now p y \<longrightarrow> i_admission_seq x \<le> i_admission_seq y)
    \<and> turn_of db' p t = Some tr \<and> running_turn db' p = Some tr \<and> t_status tr = TRunning \<and> t_generation tr = gen
    \<and> t_input_id tr = i_input_id x \<and> input_of db' p (i_input_id x) = Some y
    \<and> i_status y = IClaimed \<and> i_claimed_generation y = Some gen \<and> i_turn_id y = Some t"
proof -
  have "renderable db p" unfolding assms(2) by (rule sound_renderable [OF inv.reach_I [OF run_reach assms(1)]])
  with assms(3-9) obtain db' res tr where l: "LoadTurn now nid p gen t db = Inr (db', res)" "lr_turn res = Some tr"
    and t: "t_turn_id tr = t" "t_status tr = TRunning" "turn_of db' p t = Some tr" using load_turn_begins by metis
  from load_turn_serves_oldest [OF l(1) assms(4)] l(2) obtain x where x: "x \<in> set (inputs db)" "due now p x"
    "\<forall>y \<in> set (inputs db). due now p y \<longrightarrow> i_admission_seq x \<le> i_admission_seq y"
    "running_turn db' p = Some tr" "t_generation tr = gen" "t_input_id tr = i_input_id x"
    and c: "\<And>y. y \<in> set (inputs db') \<Longrightarrow> is_input p (i_input_id x) y \<Longrightarrow>
      i_status y = IClaimed \<and> i_claimed_generation y = Some gen \<and> i_turn_id y = Some (t_turn_id tr)" by auto
  have "input_key ` set (inputs db) \<subseteq> input_key ` set (inputs db')"
    by (rule faces_kept_keys) (use LoadTurn_apart [OF l(1)] in \<open>simp add: apart_def\<close>)
  then have "input_key x \<in> input_key ` set (inputs db')" using x(1) by blast
  then have "\<exists>y \<in> set (inputs db'). is_input p (i_input_id x) y" using x(2) by (auto simp: due_def is_input_def)
  then have "input_of db' p (i_input_id x) \<noteq> None" by (auto simp: input_of_def find_None_iff)
  then obtain y where y: "input_of db' p (i_input_id x) = Some y" by blast
  then have "y \<in> set (inputs db')" "is_input p (i_input_id x) y" by (auto simp: input_of_def dest: find_SomeD)
  with c t l x y show ?thesis by metis
qed

theorem load_turn_progress_witness:
  "\<exists>db' res tr y. LoadTurn 50 ''n1'' ''p1'' 4 ''t7'' demo_queued = Inr (db', res) \<and> lr_turn res = Some tr
     \<and> turn_of db' ''p1'' ''t7'' = Some tr \<and> input_of db' ''p1'' ''in-1'' = Some y \<and> i_turn_id y = Some ''t7''"
proof -
  have "accounted demo_queued" "one_running demo_queued" "keyed appr_key (approvals demo_queued)" "keyed l_persona_id (leases demo_queued)"
    by (simp_all add: demo_queued_def accounted_def placed_def one_running_def keyed_def demo_run_defs demo_defs)
  moreover have "jobs_ok demo_queued" by (simp add: jobs_ok_def noted_of_def demo_queued_def demo_run_defs demo_defs jobInputPrefix_def keyed_def)
  moreover have "terms_ok demo_queued" by (rule no_terminals_ok) (simp_all add: demo_queued_def demo_defs)
  moreover have "mem_ok demo_queued" by (rule no_memory_ok) (simp_all add: demo_queued_def demo_defs)
  ultimately have s: "sound demo_queued" by (simp add: sound_def)
  have g: "requireGeneration demo_queued ''p1'' 4 = Inr ()"
    by (simp add: requireGeneration_def lease_of_def persona_of_def is_lease_def is_persona_def demo_queued_def demo_defs)
  have t: "running_turn demo_queued ''p1'' = None" "turn_of demo_queued ''p1'' ''t7'' = None" "inputs demo_queued = [demo_input]"
    by (simp_all add: running_turn_def turn_of_def demo_queued_def demo_defs)
  have d: "due 50 ''p1'' demo_input" "i_input_id demo_input = ''in-1''" by (simp_all add: due_def demo_run_defs)
  have "demo_queued = run demo_env [] demo_queued" by simp
  from load_turn_progress [OF s this g t(1) _ d(1) _ _ t(2), of "''n1''"] show ?thesis using d(2) t(3) by fastforce
qed

end
