(* ===== verification/Terminal_Output.thy ===== *)
theory Terminal_Output
  imports Terminal_Ledger
begin

text \<open>
  The output journal against the byte stream it records. The abstract view of a session is a stream and
  a window of it; \<open>tiles\<close> relates the stored rows to that window. Appending drained chunks extends the
  window at its end, pruning advances its start, reading pages through it.
\<close>

section \<open>Rows that tile a stream\<close>

definition slice :: "string \<Rightarrow> int \<Rightarrow> int \<Rightarrow> string" where
  "slice s b h = take (nat (h - b)) (drop (nat b) s)"

fun tiles :: "string \<Rightarrow> int \<Rightarrow> int \<Rightarrow> output_row list \<Rightarrow> bool" where
  "tiles s b h [] \<longleftrightarrow> b = h \<and> 0 \<le> b \<and> h \<le> int (length s)"
| "tiles s b h (k # ks) \<longleftrightarrow> 0 \<le> b \<and> k_base k = b \<and> k_data k \<noteq> [] \<and> k_data k = slice s b (chunk_end k) \<and> tiles s (chunk_end k) h ks"

lemma slice_append: "0 \<le> a \<Longrightarrow> a \<le> b \<Longrightarrow> b \<le> c \<Longrightarrow> slice s a b @ slice s b c = slice s a c"
proof -
  assume a: "0 \<le> a" "a \<le> b" "b \<le> c"
  have "drop (nat b) s = drop (nat (b - a)) (drop (nat a) s)" "nat (c - a) = nat (b - a) + nat (c - b)"
    using a by (simp_all add: nat_add_distrib [symmetric])
  then show ?thesis unfolding slice_def by (simp only: take_add)
qed

lemma slice_same [simp]: "slice s b b = []"
  by (simp add: slice_def)

lemma slice_length: "0 \<le> b \<Longrightarrow> b \<le> h \<Longrightarrow> h \<le> int (length s) \<Longrightarrow> int (length (slice s b h)) = h - b"
  by (simp add: slice_def)

lemma slice_drop: "0 \<le> b \<Longrightarrow> b \<le> a \<Longrightarrow> a \<le> h \<Longrightarrow> drop (nat (a - b)) (slice s b h) = slice s a h"
proof -
  assume a: "0 \<le> b" "b \<le> a" "a \<le> h"
  have "nat (h - b) - nat (a - b) = nat (h - a)" "nat (a - b) + nat b = nat a" using a by simp_all
  then show ?thesis by (simp add: slice_def drop_take)
qed

lemma chunk_end_gt: "k_data k \<noteq> [] \<Longrightarrow> k_base k < chunk_end k"
  by (simp add: chunk_end_def)

lemma tiles_le: "tiles s b h ks \<Longrightarrow> 0 \<le> b \<and> b \<le> h \<and> h \<le> int (length s)"
proof (induction ks arbitrary: b)
  case (Cons k ks)
  then show ?case using chunk_end_gt [of k] by fastforce
qed simp

lemma tiles_bases: "tiles s b h ks \<Longrightarrow> k \<in> set ks \<Longrightarrow> b \<le> k_base k \<and> k_base k < chunk_end k \<and> chunk_end k \<le> h"
proof (induction ks arbitrary: b)
  case (Cons a ks)
  then show ?case using chunk_end_gt [of a] tiles_le [of s "chunk_end a" h ks] by fastforce
qed simp

lemma tiles_sorted: "tiles s b h ks \<Longrightarrow> sorted (map k_base ks)"
proof (induction ks arbitrary: b)
  case (Cons k ks)
  then show ?case using chunk_end_gt [of k] tiles_bases [of s "chunk_end k" h ks] by fastforce
qed simp

lemma tiles_append: "tiles s b h (ks @ ls) \<longleftrightarrow> (\<exists>m. tiles s b m ks \<and> tiles s m h ls)"
proof (induction ks arbitrary: b)
  case Nil
  then show ?case using tiles_le [of s b h ls] by auto
qed auto

lemma tiles_concat: "tiles s b h ks \<Longrightarrow> concat (map k_data ks) = slice s b h"
proof (induction ks arbitrary: b)
  case (Cons k ks)
  then have "concat (map k_data (k # ks)) = slice s b (chunk_end k) @ slice s (chunk_end k) h" by simp
  also have "\<dots> = slice s b h"
    using Cons.prems chunk_end_gt [of k] tiles_le [of s "chunk_end k" h ks] by (intro slice_append) auto
  finally show ?case .
qed simp

lemma tiles_retained: "tiles s b h ks \<Longrightarrow> sum_list (map (\<lambda>k. int (length (k_data k))) ks) = h - b"
  by (induction ks arbitrary: b) (auto simp: chunk_end_def)

lemma i64_within: "0 \<le> a \<Longrightarrow> a \<le> int n \<Longrightarrow> int n < 2 ^ 63 \<Longrightarrow> i64 a = a"
  by (rule i64_id) (simp add: in_i64_def MaxInt64_def)

section \<open>Appending\<close>

text \<open>What a runner drains of the stream: data chunks, each starting no later than what was stored before.\<close>

definition drained_of :: "string \<Rightarrow> drained \<Rightarrow> bool" where
  "drained_of s c \<longleftrightarrow> dc_kind c \<noteq> ''gap'' \<and> 0 \<le> dc_base c \<and> dc_base c + int (length (dc_data c)) \<le> int (length s)
     \<and> dc_data c = slice s (dc_base c) (dc_base c + int (length (dc_data c)))"

definition after_chunk :: "int \<Rightarrow> drained \<Rightarrow> int" where
  "after_chunk h c = max h (dc_base c + int (length (dc_data c)))"

fun drains :: "string \<Rightarrow> int \<Rightarrow> drained list \<Rightarrow> bool" where
  "drains s h [] \<longleftrightarrow> True"
| "drains s h (c # cs) \<longleftrightarrow> drained_of s c \<and> dc_base c \<le> h \<and> drains s (after_chunk h c) cs"

text \<open>
  A session without loss markers whose rows, in the order of their numbers, tile the stream from \<open>b\<close> to
  \<open>h\<close>.
\<close>

definition mirrors :: "string \<Rightarrow> int \<Rightarrow> int \<Rightarrow> string \<Rightarrow> output_row list \<Rightarrow> bool" where
  "mirrors s b h x ks \<longleftrightarrow> tiles s b h (data_of x ks) \<and> sorted_wrt (<) (map k_seq (data_of x ks))
     \<and> (\<forall>k \<in> set ks. chunk_of x k \<longrightarrow> k_kind k = OutData \<and> k_gap_to k = None)"

lemma append_chunks_tiles:
  assumes "mirrors s b h x ks" "drains s h cs" "int (length s) < 2 ^ 63" "\<And>k. k \<in> set (data_of x ks) \<Longrightarrow> k_seq k \<le> sq"
  shows "\<exists>ks'. append_chunks now x cs sq h ks = Inr (foldl after_chunk h cs, ks') \<and> mirrors s b (foldl after_chunk h cs) x ks'"
  using assms
proof (induction cs arbitrary: sq h ks)
  case Nil
  then show ?case by simp
next
  case (Cons c cs)
  let ?n = "int (length (dc_data c))" and ?h = "after_chunk h c"
  from Cons.prems(2) have c: "dc_kind c \<noteq> ''gap''" "0 \<le> dc_base c" "dc_base c + ?n \<le> int (length s)" "dc_base c \<le> h"
    "dc_data c = slice s (dc_base c) (dc_base c + ?n)" and ds: "drains s ?h cs" by (auto simp: drained_of_def)
  have ti: "tiles s b h (data_of x ks)" using Cons.prems(1) by (simp add: mirrors_def)
  note le = tiles_le [OF ti]
  have sk: "i64 (h - dc_base c) = h - dc_base c" by (rule i64_within [OF _ _ Cons.prems(3)]) (use c le in simp_all)
  show ?case
  proof (cases "dc_base c + ?n \<le> h")
    case True
    then have h: "?h = h" by (simp add: after_chunk_def)
    have "append_chunks now x (c # cs) sq h ks = append_chunks now x cs (Suc sq) h ks"
    proof (cases "dc_data c = []")
      case False
      then have "0 < ?n" by simp
      with True have "dc_base c < h" by linarith
      with True c sk show ?thesis by (simp add: Let_def)
    qed (use True c sk in \<open>simp add: Let_def\<close>)
    moreover have "\<exists>ks'. append_chunks now x cs (Suc sq) h ks = Inr (foldl after_chunk h cs, ks') \<and> mirrors s b (foldl after_chunk h cs) x ks'"
      by (rule Cons.IH [OF Cons.prems(1) _ Cons.prems(3)]) (use ds h Cons.prems(4) in \<open>auto simp: le_SucI\<close>)
    ultimately show ?thesis by (simp add: h)
  next
    case False
    then have h: "?h = dc_base c + ?n" by (simp add: after_chunk_def)
    let ?data = "drop (nat (h - dc_base c)) (dc_data c)"
    let ?k = "new_output now x (Suc sq) OutData h None ?data"
    have data: "?data = slice s h ?h" using slice_drop [of "dc_base c" h "dc_base c + ?n" s] c False h by simp
    have len: "int (length ?data) = ?h - h" using False c(4) h by simp
    have ne: "?data \<noteq> []" using False c(4) by simp
    have "chunk_end ?k = ?h" using len by (simp add: chunk_end_def)
    then have tk: "tiles s h ?h [?k]" using data ne le c(2,3) h by simp
    have fresh: "\<not> list_ex (\<lambda>q. k_session_id q = x \<and> k_base q = h \<and> k_kind q = OutData) ks"
      using tiles_bases [OF ti] by (fastforce simp: list_ex_iff data_of_def chunk_of_def)
    then have ins: "insert_output ?k ks = Inr (ks @ [?k])" using le by (simp add: insert_output_def)
    have "append_chunks now x (c # cs) sq h ks = append_chunks now x cs (Suc sq) ?h (ks @ [?k])"
    proof (cases "dc_base c < h")
      case True
      have "i64 (h + int (length ?data)) = ?h" unfolding len by (rule trans [OF i64_within [OF _ _ Cons.prems(3)]]) (use c le h in simp_all)
      with True False c sk ne ins h show ?thesis by (auto simp: Let_def)
    next
      case F: False
      with c(4) have e: "h = dc_base c" by simp
      have "i64 (dc_base c + ?n) = ?h" unfolding h by (rule i64_within [OF _ _ Cons.prems(3)]) (use c le in simp_all)
      with e False c ne ins h show ?thesis by (auto simp: Let_def)
    qed
    moreover have "\<exists>ks'. append_chunks now x cs (Suc sq) ?h (ks @ [?k]) = Inr (foldl after_chunk ?h cs, ks')
        \<and> mirrors s b (foldl after_chunk ?h cs) x ks'"
    proof (rule Cons.IH [OF _ ds Cons.prems(3)])
      have "tiles s b ?h (data_of x (ks @ [?k]))" using ti tk by (auto simp: tiles_append chunk_of_def simp del: tiles.simps)
      moreover have "sorted_wrt (<) (map k_seq (data_of x (ks @ [?k])))"
        using Cons.prems(1,4) by (auto simp: mirrors_def sorted_wrt_append less_Suc_eq_le)
      moreover have "\<forall>k \<in> set (ks @ [?k]). chunk_of x k \<longrightarrow> k_kind k = OutData \<and> k_gap_to k = None"
        using Cons.prems(1) by (simp add: mirrors_def)
      ultimately show "mirrors s b ?h x (ks @ [?k])" unfolding mirrors_def by blast
      show "k_seq k \<le> Suc sq" if "k \<in> set (data_of x (ks @ [?k]))" for k
        using that Cons.prems(4) by (auto simp: le_SucI split: if_splits)
    qed
    ultimately show ?thesis by simp
  qed
qed

section \<open>Pruning\<close>

lemma data_of_drop:
  assumes "keyed out_key ks" "data_of x ks = c # cs"
  shows "data_of x (filter (\<lambda>k. \<not> nth_chunk x (k_seq c) k) ks) = cs"
    "data_of x (upd (nth_chunk x (k_seq c)) (trimmed n) ks) = trimmed n c # cs"
proof -
  have c: "c \<in> set ks" "k_session_id c = x" "k_kind c = OutData" using assms(2) by (auto simp: data_of_def chunk_of_def filter_eq_Cons_iff)
  from one_chunk [OF assms(1) c(1,2)] obtain as bs
    where ks: "ks = as @ c # bs" "\<And>k. k \<in> set (as @ bs) \<Longrightarrow> \<not> nth_chunk x (k_seq c) k" by blast
  have cx: "chunk_of x c" "nth_chunk x (k_seq c) c" using c by (simp_all add: chunk_of_def nth_chunk_def)
  have "c \<notin> set as" using ks(2) [of c] cx by auto
  then have "data_of x as = []" using assms(2) ks(1) by (cases "data_of x as") (auto simp: data_of_def filter_eq_Cons_iff)
  then have d: "data_of x as = []" "data_of x bs = cs" using assms(2) ks(1) cx c(3) by simp_all
  have "filter (\<lambda>k. \<not> nth_chunk x (k_seq c) k) ks = as @ bs" using ks cx by (simp add: filter_id_conv)
  with d show "data_of x (filter (\<lambda>k. \<not> nth_chunk x (k_seq c) k) ks) = cs" by simp
  have "upd (nth_chunk x (k_seq c)) (trimmed n) ks = as @ trimmed n c # bs" using ks cx by (simp add: upd_id)
  moreover have "chunk_of x (trimmed n c)" "k_kind (trimmed n c) = OutData" using c by (simp_all add: trimmed_def chunk_of_def)
  ultimately show "data_of x (upd (nth_chunk x (k_seq c)) (trimmed n) ks) = trimmed n c # cs" using d by simp
qed

lemma trimmed_tiles:
  assumes "tiles s b h (k # ks)" "0 < n" "n < int (length (k_data k))"
  shows "tiles s (b + n) h (trimmed n k # ks)"
proof -
  have e: "chunk_end (trimmed n k) = chunk_end k" using assms by (simp add: chunk_end_def trimmed_def)
  have "drop (nat n) (k_data k) = slice s (b + n) (chunk_end k)"
    using slice_drop [of b "b + n" "chunk_end k" s] assms unfolding tiles.simps
    by (metis add_diff_cancel_left' chunk_end_def le_add_same_cancel1 less_imp_le add_le_cancel_left)
  moreover have "drop (nat n) (k_data k) \<noteq> []" using assms by simp
  ultimately show ?thesis using assms e by (simp add: trimmed_def)
qed

lemma mirrors_sub:
  assumes "mirrors s b h x ks" "data_of x ks = c # cs" "tiles s b' h (data_of x ks')"
    "map k_seq (data_of x ks') = map k_seq cs \<or> map k_seq (data_of x ks') = map k_seq (c # cs)"
    "\<And>k'. k' \<in> set ks' \<Longrightarrow> \<exists>k \<in> set ks. chunk_of x k = chunk_of x k' \<and> k_kind k = k_kind k' \<and> k_gap_to k = k_gap_to k'"
  shows "mirrors s b' h x ks'"
  unfolding mirrors_def
proof (intro conjI ballI impI)
  show "sorted_wrt (<) (map k_seq (data_of x ks'))" using assms(1,2,4) by (auto simp: mirrors_def)
  show "k_kind k' = OutData" "k_gap_to k' = None" if "k' \<in> set ks'" "chunk_of x k'" for k'
    using assms(1) assms(5) [OF that(1)] that(2) by (auto simp: mirrors_def)
qed (rule assms(3))

lemma prune_done: "target \<le> removed \<Longrightarrow> prune_chunks x target cs removed nb ks = Inr (nb, ks)"
  by (cases cs) simp_all

lemma prune_chunks_tiles:
  assumes "data_of x ks = cs" "mirrors s b h x ks" "keyed out_key ks" "int (length s) < 2 ^ 63" "removed \<le> target" "target - removed < h - b"
  shows "\<exists>ks'. prune_chunks x target cs removed b ks = Inr (b + (target - removed), ks') \<and> mirrors s (b + (target - removed)) h x ks'"
  using assms
proof (induction cs arbitrary: b removed ks)
  case Nil
  then show ?case by (auto simp: mirrors_def)
next
  case (Cons c cs)
  let ?sz = "int (length (k_data c))" and ?trim = "target - removed"
  have ti: "tiles s b h (c # cs)" using Cons.prems(1,2) unfolding mirrors_def by (simp del: tiles.simps)
  note le = tiles_le [of s "chunk_end c" h cs] and d = data_of_drop [OF Cons.prems(3,1)]
  have b: "0 \<le> b" "k_base c = b" "0 < ?sz" "b + ?sz \<le> h" "h \<le> int (length s)" using ti le by (auto simp: chunk_end_def)
  have small: "i64 a = a" "a \<le> MaxInt64" if "0 \<le> a" "a \<le> h" for a
    using i64_within [of a "length s"] that b(5) Cons.prems(4) by (auto simp: MaxInt64_def)
  show ?case
  proof (cases "target \<le> removed")
    case True
    with Cons.prems(2,5) prune_done [OF True] show ?thesis by simp
  next
    case F: False
    show ?thesis
    proof (cases "removed + ?sz \<le> target")
      case True
      let ?ks = "filter (\<lambda>k. \<not> nth_chunk x (k_seq c) k) ks"
      have "mirrors s (b + ?sz) h x ?ks"
      proof (rule mirrors_sub [OF Cons.prems(2,1)])
        show "tiles s (b + ?sz) h (data_of x ?ks)" unfolding d(1) using ti b(2) by (simp add: chunk_end_def)
      qed (use d(1) in auto)
      with Cons.IH [of ?ks "b + ?sz" "removed + ?sz"] d(1) Cons.prems(3-6) True keyed_filter
      have "\<exists>ks'. prune_chunks x target cs (removed + ?sz) (b + ?sz) ?ks = Inr (b + ?trim, ks') \<and> mirrors s (b + ?trim) h x ks'"
        by (simp add: keyed_filter)
      moreover have "i64 (k_base c + ?sz) = b + ?sz" using small(1) [of "b + ?sz"] b by simp
      ultimately show ?thesis using F True by (simp add: Let_def)
    next
      case G: False
      let ?ks = "upd (nth_chunk x (k_seq c)) (trimmed ?trim) ks"
      have m: "mirrors s (b + ?trim) h x ?ks"
      proof (rule mirrors_sub [OF Cons.prems(2,1)])
        show "tiles s (b + ?trim) h (data_of x ?ks)" unfolding d(2) by (rule trimmed_tiles [OF ti]) (use F G in auto)
        show "map k_seq (data_of x ?ks) = map k_seq cs \<or> map k_seq (data_of x ?ks) = map k_seq (c # cs)"
          unfolding d(2) by (simp add: trimmed_def)
        show "\<exists>k \<in> set ks. chunk_of x k = chunk_of x k' \<and> k_kind k = k_kind k' \<and> k_gap_to k = k_gap_to k'" if "k' \<in> set ?ks" for k'
          using that by (auto simp: set_upd trimmed_def chunk_of_def)
      qed
      have "k_base k \<noteq> b + ?trim" if "k \<in> set ks" "chunk_of x k" "k_kind k = OutData" for k
      proof -
        have "k \<in> set (data_of x ks)" using that by (simp add: data_of_def)
        then have "k \<in> set (c # cs)" unfolding Cons.prems(1) .
        then show ?thesis using tiles_bases [of s "chunk_end c" h cs k] ti F G b(2) by (auto simp: chunk_end_def)
      qed
      then have free: "\<not> list_ex (\<lambda>k. chunk_of x k \<and> k_kind k = OutData \<and> k_base k = k_base c + ?trim) ks"
        using b(2) by (auto simp: list_ex_iff)
      have "i64 (b + ?trim) = b + ?trim" "b + ?trim \<le> MaxInt64" using small [of "b + ?trim"] b F G by simp_all
      then have "prune_chunks x target (c # cs) removed b ks = Inr (b + ?trim, ?ks)"
        using F G free b(2) by (simp add: Let_def prune_done)
      with m show ?thesis by blast
    qed
  qed
qed


section \<open>The window\<close>

lemma drains_grow: "h \<le> foldl after_chunk h cs"
proof (induction cs arbitrary: h)
  case (Cons c cs)
  from Cons.IH [of "after_chunk h c"] show ?case by (simp add: after_chunk_def)
qed simp

lemma mirrors_rows:
  assumes "mirrors s b h x ks"
  shows "filter (chunk_of x) ks = data_of x ks" "sort_key k_seq (filter (chunk_of x) ks) = data_of x ks"
    "sort_key k_base (data_of x ks) = data_of x ks" "retained x ks = h - b"
proof -
  show f: "filter (chunk_of x) ks = data_of x ks"
    unfolding data_of_def by (rule filter_cong) (use assms in \<open>auto simp: mirrors_def\<close>)
  have "sorted (map k_seq (data_of x ks))" using assms by (auto simp: mirrors_def intro: strict_sorted_imp_sorted)
  then show "sort_key k_seq (filter (chunk_of x) ks) = data_of x ks" by (simp add: f sort_key_id_if_sorted)
  have ti: "tiles s b h (data_of x ks)" using assms by (simp add: mirrors_def)
  then show "sort_key k_base (data_of x ks) = data_of x ks" by (intro sort_key_id_if_sorted tiles_sorted)
  show "retained x ks = h - b" unfolding retained_def by (rule tiles_retained [OF ti])
qed

lemma prune_window:
  assumes "mirrors s (tm_output_base t) h x (toutput (terminals db))" "keyed out_key (toutput (terminals db))" "int (length s) < 2 ^ 63"
    "tm_session_id t = x" "tm_persona_id t = p"
  shows "\<exists>nb ks. pruneTerminalOutputTx t db = Inr (if retained x (toutput (terminals db)) \<le> terminalScrollbackCap then db
      else set_sessions (is_session p x) (\<lambda>r. r\<lparr>tm_output_base := max (tm_output_base r) nb\<rparr>) (set_toutput ks db))
    \<and> (terminalScrollbackCap < retained x (toutput (terminals db)) \<longrightarrow> nb = h - terminalScrollbackKeep \<and> tm_output_base t \<le> nb \<and> mirrors s nb h x ks)"
proof (cases "retained x (toutput (terminals db)) \<le> terminalScrollbackCap")
  case True
  then show ?thesis by (simp add: pruneTerminalOutputTx_def assms(4))
next
  case False
  let ?ks = "toutput (terminals db)" and ?b = "tm_output_base t"
  let ?target = "retained x ?ks - terminalScrollbackKeep"
  note m = mirrors_rows [OF assms(1)]
  have "0 \<le> ?target" "?target - 0 < h - ?b" using False m(4) by (simp_all add: terminalScrollbackCap_def terminalScrollbackKeep_def)
  moreover have e: "?b + (?target - 0) = h - terminalScrollbackKeep" using m(4) by simp
  ultimately obtain ks where
    "prune_chunks x ?target (data_of x ?ks) 0 ?b ?ks = Inr (h - terminalScrollbackKeep, ks)" "mirrors s (h - terminalScrollbackKeep) h x ks"
    using prune_chunks_tiles [OF refl assms(1-3), of 0 ?target] unfolding e by blast
  moreover have "?b \<le> h - terminalScrollbackKeep" using \<open>0 \<le> ?target\<close> m(4) by simp
  ultimately show ?thesis using False m(3)
    by (intro exI [of _ "h - terminalScrollbackKeep"] exI [of _ ks]) (simp add: pruneTerminalOutputTx_def assms(4,5))
qed

section \<open>A deployment\<close>

definition demo_owner :: string where "demo_owner = ''0190a5e0-0000-7000-8000-000000000001''"

definition demo_shell_id :: string where "demo_shell_id = ''0190a5e0-0000-7000-8000-000000000002''"

definition demo_key_id :: string where "demo_key_id = ''0190a5e0-0000-7000-8000-000000000003''"

definition demo_terms :: term_host where
  "demo_terms = \<lparr>th_backend = [], th_available = [''local''], th_quote = (\<lambda>s. s), th_uuid = (\<lambda>_. demo_key_id)\<rparr>"

definition demo_home :: "unit db" where
  "demo_home = demo_db\<lparr>personas := [demo_persona\<lparr>p_persona_id := demo_owner\<rparr>]\<rparr>"

text \<open>Runner \<^verbatim>\<open>r1\<close> holds the shell for a second, and one line waits to be written.\<close>

definition demo_row :: session_row where
  "demo_row = (new_session 0 demo_shell_id demo_owner ''sh'' ''local'' ''human'' ''h1'')\<lparr>tm_status := TmActive, tm_epoch := 1,
     tm_claimed_by := Some ''r1'', tm_claim_expires_at := Some 1000010\<rparr>"

definition demo_key :: tinput_row where
  "demo_key = new_tinput 30 demo_key_id demo_row ''agent'' ''stdin'' [(''data'', JStr ''ls'')] []"

definition demo_shell :: "unit db" where
  "demo_shell = demo_home\<lparr>terminals := \<lparr>sessions = [demo_row], tinputs = [demo_key], toutput = []\<rparr>\<rparr>"

lemma demo_uuids [simp]: "uuidv7_match demo_owner" "uuidv7_match demo_shell_id" "uuidv7_match demo_key_id"
    "NUL \<notin> set demo_key_id"
  by code_simp+

lemmas demo_shell_defs = demo_shell_def demo_row_def demo_key_def new_session_def new_tinput_def demo_home_def

lemma demo_shell_ok: "terms_ok demo_shell"
proof -
  have "sess_wf demo_row" "input_placed [demo_row] demo_key"
    by (simp_all add: sess_wf_def input_placed_def demo_shell_defs terminalOver_def)
  then show ?thesis
    by (simp add: terms_ok_def ts_ok_def announced_def out_ok_def live_count_def retained_def data_of_def terminalScrollbackCap_def
        terminalMaxSessions_def demo_shell_def)
       (simp add: demo_row_def new_session_def terminalOver_def keyed_def)
qed

lemma demo_lock: "lockTerminalSessionTx demo_shell demo_owner demo_shell_id = Inr demo_row" "claim_live 40 ''r1'' 1 demo_row"
  by (simp_all add: lockTerminalSessionTx_def uuidv7_params_def session_of_def is_session_def demo_shell_defs claim_live_def
      text_of_def terminalClaimed_def unexpired_def)

text \<open>
  C15. The output journal keeps a window of the stream: when a runner with a live claim appends chunks
  drained from the terminal's stream, each starting no later than what was stored, the append succeeds,
  and the retained rows in order are exactly the stream's bytes from the new base to the new end, at
  most four MiB of them; overlaps with an earlier drain are stored once.
\<close>

theorem append_keeps_window:
  assumes "terms_ok db" and "lockTerminalSessionTx db p x = Inr t" and "claim_live wall w e t" and "int (length s) < 2 ^ 63"
    and "mirrors s (tm_output_base t) (tm_output_bytes t) x (toutput (terminals db))" and "drains s (tm_output_bytes t) cs"
  shows "\<exists>db' t'. AppendTerminalOutput now wall p x w e cs db = Inr (db', (), t')
    \<and> tm_output_bytes t' = foldl after_chunk (tm_output_bytes t) cs \<and> tm_output_bytes t' - tm_output_base t' \<le> 4 * 1024 * 1024
    \<and> mirrors s (tm_output_base t') (tm_output_bytes t') x (toutput (terminals db'))
    \<and> concat (map k_data (sort_key k_seq (filter (chunk_of x) (toutput (terminals db'))))) = slice s (tm_output_base t') (tm_output_bytes t')"
proof -
  let ?ks = "toutput (terminals db)" and ?b = "tm_output_base t" and ?h = "foldl after_chunk (tm_output_bytes t) cs"
  let ?sq = "maxl (map k_seq (filter (chunk_of x) ?ks))"
  let ?bytes = "\<lambda>r. r\<lparr>tm_output_bytes := max (tm_output_bytes r) ?h, tm_updated_at := now\<rparr>"
  note l = lock_cases [OF assms(2)]
  have sq: "k_seq k \<le> ?sq" if "k \<in> set ?ks" "k_session_id k = x" for k
    by (rule maxl_ge) (use that in \<open>auto simp: chunk_of_def\<close>)
  then have "k_seq k \<le> ?sq" if "k \<in> set (data_of x ?ks)" for k using that by (simp add: data_of_def chunk_of_def)
  from append_chunks_tiles [OF assms(5,6,4) this] obtain ks1 where
    a: "append_chunks now x cs ?sq (tm_output_bytes t) ?ks = Inr (?h, ks1)" and m: "mirrors s ?b ?h x ks1" by blast
  have k1: "keyed out_key ks1" using append_chunks_rows [OF a sq] assms(1) by (simp add: terms_ok_def ts_ok_def out_ok_def)
  let ?db1 = "set_sessions (is_session p x) ?bytes (set_toutput ks1 db)"
  have "mirrors s ?b ?h x (toutput (terminals ?db1))" "keyed out_key (toutput (terminals ?db1))" using m k1 by simp_all
  from prune_window [OF this assms(4) l(5,4)] obtain nb ks2 where
    pr: "pruneTerminalOutputTx t ?db1 = Inr (if retained x ks1 \<le> terminalScrollbackCap then ?db1
        else set_sessions (is_session p x) (\<lambda>r. r\<lparr>tm_output_base := max (tm_output_base r) nb\<rparr>) (set_toutput ks2 ?db1))"
    and nb: "terminalScrollbackCap < retained x ks1 \<longrightarrow> nb = ?h - terminalScrollbackKeep \<and> ?b \<le> nb \<and> mirrors s nb ?h x ks2"
    unfolding set_terminals by blast
  define db' where "db' = (if retained x ks1 \<le> terminalScrollbackCap then ?db1
        else set_sessions (is_session p x) (\<lambda>r. r\<lparr>tm_output_base := max (tm_output_base r) nb\<rparr>) (set_toutput ks2 ?db1))"
  define t' where "t' = (if retained x ks1 \<le> terminalScrollbackCap then ?bytes t else (?bytes t)\<lparr>tm_output_base := max ?b nb\<rparr>)"
  have f: "find (is_session p x) (sessions (terminals db)) = Some t" using l(1) by (simp add: session_of_def)
  have l': "lockTerminalSessionTx db' p x = Inr t'"
    using f l(3,6,7) by (auto simp: lockTerminalSessionTx_def uuidv7_params_def session_of_def db'_def t'_def find_upd is_session_def)
  have mh: "max (tm_output_bytes t) ?h = ?h" using drains_grow [of "tm_output_bytes t" cs] by simp
  have "AppendTerminalOutput now wall p x w e cs db = Inr (db', (), t')"
    unfolding AppendTerminalOutput_def terminalClaimTx_def
    using assms(2,3) a pr l' by (simp add: Let_def db'_def)
  moreover have b': "tm_output_bytes t' = ?h" using mh by (simp add: t'_def)
  moreover have m': "mirrors s (tm_output_base t') ?h x (toutput (terminals db'))"
    using m nb by (auto simp: t'_def db'_def not_le)
  moreover have "?h - tm_output_base t' \<le> 4 * 1024 * 1024"
    using mirrors_rows(4) [OF m] nb by (auto simp: t'_def terminalScrollbackCap_def terminalScrollbackKeep_def not_le)
  moreover have "concat (map k_data (data_of x (toutput (terminals db')))) = slice s (tm_output_base t') ?h"
    by (rule tiles_concat) (use m' in \<open>simp add: mirrors_def\<close>)
  ultimately show ?thesis using mirrors_rows(2) [OF m'] by metis
qed


definition demo_stream :: string where "demo_stream = ''hello world''"

definition demo_drain :: "drained list" where
  "demo_drain = [\<lparr>dc_kind = ''data'', dc_base = 0, dc_gap_to = None, dc_data = ''hello''\<rparr>,
     \<lparr>dc_kind = ''data'', dc_base = 3, dc_gap_to = None, dc_data = ''lo world''\<rparr>]"

theorem append_keeps_window_witness:
  "\<exists>db' t'. AppendTerminalOutput 40 40 demo_owner demo_shell_id ''r1'' 1 demo_drain demo_shell = Inr (db', (), t')
    \<and> concat (map k_data (sort_key k_seq (filter (chunk_of demo_shell_id) (toutput (terminals db')))))
      = slice demo_stream (tm_output_base t') (tm_output_bytes t')"
proof -
  have "mirrors demo_stream (tm_output_base demo_row) (tm_output_bytes demo_row) demo_shell_id (toutput (terminals demo_shell))"
    "drains demo_stream (tm_output_bytes demo_row) demo_drain" "int (length demo_stream) < 2 ^ 63" by code_simp+
  from append_keeps_window [OF demo_shell_ok demo_lock this(3,1,2), of 40] show ?thesis by blast
qed

section \<open>Reading\<close>

lemma tiles_after:
  assumes "tiles s b h ks" "b \<le> c"
  shows "\<exists>m. tiles s m h (filter (\<lambda>k. c < chunk_end k) ks) \<and> b \<le> m \<and> m \<le> c"
  using assms
proof (induction ks arbitrary: b)
  case (Cons k ks)
  show ?case
  proof (cases "c < chunk_end k")
    case True
    have "c < chunk_end a" if "a \<in> set ks" for a
      using tiles_bases [of s "chunk_end k" h ks a] Cons.prems(1) that True by auto
    then have f: "filter (\<lambda>k. c < chunk_end k) (k # ks) = k # ks" using True by simp
    show ?thesis unfolding f using Cons.prems by blast
  next
    case False
    with Cons.prems Cons.IH [of "chunk_end k"] chunk_end_gt [of k] show ?thesis by fastforce
  qed
qed auto

lemma next_cursor_max: "next_cursor c ks = Max (insert c (chunk_stop ` set ks))"
proof (induction ks arbitrary: c)
  case (Cons k ks)
  have "next_cursor c (k # ks) = next_cursor (max c (chunk_stop k)) ks" by (simp add: next_cursor_def max_def)
  also have "\<dots> = Max (insert (max c (chunk_stop k)) (chunk_stop ` set ks))" by (rule Cons.IH)
  also have "\<dots> = Max (insert c (insert (chunk_stop k) (chunk_stop ` set ks)))"
    by (cases "set ks = {}") (simp_all add: max.assoc)
  finally show ?case by simp
qed (simp add: next_cursor_def)

lemma next_cursor_tiles:
  assumes "tiles s m q ks" "ks \<noteq> []" "c < q" "\<And>k. k \<in> set ks \<Longrightarrow> k_kind k = OutData"
  shows "next_cursor c ks = q"
proof -
  have e: "chunk_stop k = chunk_end k" if "k \<in> set ks" for k using assms(4) [OF that] by (simp add: chunk_stop_def)
  have "chunk_end (last ks) = q" using assms(1,2) by (induction ks arbitrary: m) (auto split: if_splits)
  moreover have "chunk_end k \<le> q" if "k \<in> set ks" for k using tiles_bases [OF assms(1) that] by blast
  ultimately show ?thesis unfolding next_cursor_max using assms(2,3) e
    by (intro Max_eqI) (auto intro: rev_image_eqI [OF last_in_set])
qed

text \<open>
  C17. Reading pages through the window: in a session whose journal mirrors a stream without loss, a
  read from a position within the window is answered, and the bytes it returns past that position are
  the stream's bytes up to the new cursor; while anything is left the cursor advances, and it reaches
  the end when the page is not full.
\<close>

theorem read_serves_stream:
  assumes "GetTerminalSession db p x = Inr t" and "mirrors s (tm_output_base t) (tm_output_bytes t) x (toutput (terminals db))"
    and "int (length s) < 2 ^ 63" and "cursor = 0 \<or> tm_output_base t \<le> cursor" and "cursor < tm_output_bytes t"
    and "tm_output_base t < tm_output_bytes t"
  shows "\<exists>r b. ReadTerminalOutput db p x cursor evc limit = Inr r \<and> b \<le> or_cursor r \<and> or_cursor r < or_next_cursor r
    \<and> drop (nat (or_cursor r - b)) (concat (map k_data (or_chunks r))) = slice s (or_cursor r) (or_next_cursor r)
    \<and> (int (length (or_chunks r)) \<le> read_limit limit \<longrightarrow> or_next_cursor r = tm_output_bytes t)"
proof -
  let ?b = "tm_output_base t" and ?h = "tm_output_bytes t" and ?ks = "toutput (terminals db)"
  have ti: "tiles s ?b ?h (data_of x ?ks)" using assms(2) by (simp add: mirrors_def)
  define c where "c = (if max cursor 0 = 0 then ?b else cursor)"
  have c: "?b \<le> c" "c < ?h" using assms(4-6) tiles_le [OF ti] by (auto simp: c_def max_def split: if_splits)
  let ?ls = "filter (\<lambda>k. c < chunk_end k) (data_of x ?ks)" and ?n = "nat (read_limit limit + 1)"
  have lim: "1 \<le> read_limit limit" by (simp add: read_limit_def)
  from tiles_after [OF ti c(1)] obtain m where m: "tiles s m ?h ?ls" "m \<le> c" by blast
  then have ne: "?ls \<noteq> []" using c(2) by (cases ?ls) auto
  obtain q where q: "tiles s m q (take ?n ?ls)" "tiles s q ?h (drop ?n ?ls)"
    using m(1) append_take_drop_id [of ?n ?ls] by (metis tiles_append)
  have tn: "take ?n ?ls \<noteq> []" using ne lim by simp
  then have "c < q" using tiles_bases [OF q(1) hd_in_set [OF tn]] hd_in_set [OF tn] by (auto dest: in_set_takeD)
  have kind: "k_kind k = OutData \<and> k_gap_to k = None" if "k \<in> set (data_of x ?ks)" for k
    using assms(2) that by (auto simp: mirrors_def data_of_def)
  have nxt: "next_cursor c (take ?n ?ls) = q"
    by (rule next_cursor_tiles [OF q(1) tn \<open>c < q\<close>]) (auto dest!: in_set_takeD simp: kind)
  have fits: "\<not> list_ex (\<lambda>k. MaxInt64 < chunk_end k) (data_of x ?ks)"
    using tiles_bases [OF ti] tiles_le [OF ti] assms(3) by (fastforce simp: list_ex_iff MaxInt64_def)
  have sv: "filter (served c (max evc 0)) (data_of x ?ks) = ?ls"
    by (rule filter_cong) (use tiles_bases [OF ti] tiles_le [OF ti] kind in \<open>fastforce simp: served_def\<close>)+
  have "sorted (map k_seq (data_of x ?ks))" using assms(2) by (auto simp: mirrors_def intro: strict_sorted_imp_sorted)
  then have "sorted (map k_seq ?ls)" by (rule sorted_filter)
  then have rc: "read_chunks db x c (max evc 0) (read_limit limit) = Inr (take ?n ?ls)"
    using fits sv by (simp add: read_chunks_def mirrors_rows(1) [OF assms(2)] sort_key_id_if_sorted)
  have "ReadTerminalOutput db p x cursor evc limit = Inr \<lparr>or_session = t, or_base = ?b, or_cursor = c, or_next_cursor = q,
      or_event_cursor = next_event (max evc 0) (take ?n ?ls), or_chunks = take ?n ?ls, or_gap = (c < ?b), or_eof = output_eof t q\<rparr>"
    using assms(1) rc nxt by (simp add: ReadTerminalOutput_def Let_def c_def [symmetric])
  moreover have "drop (nat (c - m)) (concat (map k_data (take ?n ?ls))) = slice s c q"
    unfolding tiles_concat [OF q(1)] by (rule slice_drop) (use tiles_le [OF q(1)] m(2) \<open>c < q\<close> in auto)
  moreover have "q = ?h" if "int (length (take ?n ?ls)) \<le> read_limit limit"
  proof -
    from that have "drop ?n ?ls = []" using lim by (simp add: min_def split: if_splits)
    with q(2) show ?thesis by simp
  qed
  ultimately show ?thesis using m(2) \<open>c < q\<close> by (intro exI [of _ m] exI, intro conjI) auto
qed


text \<open>The shell after the drain.\<close>

definition demo_drained_row :: session_row where
  "demo_drained_row = demo_row\<lparr>tm_output_bytes := 11, tm_updated_at := 40\<rparr>"

definition demo_drained :: "unit db" where
  "demo_drained = demo_shell\<lparr>terminals := \<lparr>sessions = [demo_drained_row], tinputs = [demo_key],
     toutput = [new_output 40 demo_shell_id 1 OutData 0 None ''hello'', new_output 40 demo_shell_id 2 OutData 5 None '' world'']\<rparr>\<rparr>"

theorem read_serves_stream_witness:
  "\<exists>r b. ReadTerminalOutput demo_drained demo_owner demo_shell_id 0 0 10 = Inr r
    \<and> drop (nat (or_cursor r - b)) (concat (map k_data (or_chunks r))) = slice demo_stream (or_cursor r) (or_next_cursor r)"
proof -
  let ?t = demo_drained_row
  have "GetTerminalSession demo_drained demo_owner demo_shell_id = Inr ?t"
    by (simp add: GetTerminalSession_def uuidv7_params_def session_of_def is_session_def demo_drained_def demo_drained_row_def demo_shell_defs)
  moreover have "mirrors demo_stream (tm_output_base ?t) (tm_output_bytes ?t) demo_shell_id (toutput (terminals demo_drained))"
    "int (length demo_stream) < 2 ^ 63" "0 = (0::int) \<or> tm_output_base ?t \<le> 0" "0 < tm_output_bytes ?t" "tm_output_base ?t < tm_output_bytes ?t"
    by code_simp+
  ultimately show ?thesis using read_serves_stream [of demo_drained demo_owner demo_shell_id ?t demo_stream 0 0 10] by blast
qed

section \<open>Draining again\<close>

text \<open>A drained chunk as the provisioner numbers it, and one the journal has taken in already.\<close>

definition gap_end :: "drained \<Rightarrow> int" where
  "gap_end c = (case dc_gap_to c of None \<Rightarrow> dc_base c | Some g \<Rightarrow> g)"

definition in_range :: "drained \<Rightarrow> bool" where
  "in_range c \<longleftrightarrow> 0 \<le> dc_base c \<and> dc_base c + int (length (dc_data c)) \<le> MaxInt64 \<and> gap_end c \<le> MaxInt64"

definition absorbed :: "string \<Rightarrow> int \<Rightarrow> output_row list \<Rightarrow> drained \<Rightarrow> bool" where
  "absorbed x h ks c \<longleftrightarrow> (if dc_kind c = ''gap''
     then dc_base c \<le> gap_end c \<and> gap_end c \<le> h
       \<and> (\<exists>k \<in> set ks. k_session_id k = x \<and> k_base k = dc_base c \<and> k_kind k = OutGap)
     else dc_data c = [] \<or> dc_base c + int (length (dc_data c)) \<le> h)"

lemma append_absorbed:
  assumes "\<And>c. c \<in> set cs \<Longrightarrow> in_range c \<and> absorbed x h ks c" "0 \<le> h" "h \<le> MaxInt64"
  shows "append_chunks now x cs sq h ks = Inr (h, ks)"
  using assms(1)
proof (induction cs arbitrary: sq)
  case (Cons c cs)
  have c: "in_range c" "absorbed x h ks c" using Cons.prems [of c] by simp_all
  have rest: "append_chunks now x cs (Suc sq) h ks = Inr (h, ks)" using Cons by simp
  have sk: "i64 (h - dc_base c) = h - dc_base c" by (rule i64_id) (use c(1) assms(2,3) in \<open>simp add: in_i64_def in_range_def MaxInt64_def\<close>)
  show ?case
  proof (cases "dc_kind c = ''gap''")
    case True
    then have "insert_output (new_output now x (Suc sq) OutGap (dc_base c) (Some (gap_end c)) []) ks = Inr ks"
      using c by (auto simp: insert_output_def absorbed_def in_range_def list_ex_iff)
    with True c(2) rest show ?thesis by (simp add: Let_def gap_end_def [symmetric] absorbed_def)
  next
    case False
    show ?thesis
    proof (cases "dc_data c = []")
      case F: False
      then have "0 < int (length (dc_data c))" by simp
      moreover have "dc_base c + int (length (dc_data c)) \<le> h" using c(2) False F by (simp add: absorbed_def)
      ultimately have "dc_base c < h" "int (length (dc_data c)) \<le> h - dc_base c" by linarith+
      with False rest sk show ?thesis by (simp add: Let_def)
    qed (use False rest sk in \<open>auto simp: Let_def\<close>)
  qed
qed simp

lemma append_rows_kept: "append_chunks now x cs sq h ks = Inr (h', ks') \<Longrightarrow> h \<le> h' \<and> set ks \<subseteq> set ks'"
proof (induction cs arbitrary: sq h ks)
  case (Cons c cs)
  from Cons.prems show ?case
  proof (cases rule: append_chunks_step)
    case skipped
    then show ?thesis by (rule Cons.IH)
  next
    case (stored kind base to data ks1 h1)
    from Cons.IH [OF stored(2)] stored(3) insert_output_cases [OF stored(1)] show ?thesis by auto
  qed
qed simp

lemma append_absorbs:
  assumes "append_chunks now x cs sq h ks = Inr (h', ks')" "0 \<le> h" "h \<le> MaxInt64" "\<And>c. c \<in> set cs \<Longrightarrow> in_range c"
  shows "h' \<le> MaxInt64 \<and> (\<forall>c \<in> set cs. absorbed x h' ks' c)"
  using assms
proof (induction cs arbitrary: sq h ks)
  case Nil
  then show ?case by simp
next
  case (Cons c cs)
  have c: "in_range c" and cs: "\<And>a. a \<in> set cs \<Longrightarrow> in_range a" using Cons.prems(4) by simp_all
  note n = c [unfolded in_range_def]
  have later: ?case if "append_chunks now x cs (Suc sq) h1 ks1 = Inr (h', ks')" "h \<le> h1" "h1 \<le> MaxInt64" "absorbed x h1 ks1 c" for h1 ks1
  proof -
    have "0 \<le> h1" using that(2) Cons.prems(2) by simp
    from Cons.IH [OF that(1) this that(3) cs] have "h' \<le> MaxInt64" "\<forall>c \<in> set cs. absorbed x h' ks' c" by blast+
    moreover from append_rows_kept [OF that(1)] that(4) have "absorbed x h' ks' c" by (fastforce simp: absorbed_def split: if_splits)
    ultimately show ?thesis by simp
  qed
  show ?case
  proof (cases "dc_kind c = ''gap''")
    case True
    let ?k = "new_output now x (Suc sq) OutGap (dc_base c) (Some (gap_end c)) []"
    from Cons.prems(1) True obtain ks1 where i: "insert_output ?k ks = Inr ks1"
      and r: "append_chunks now x cs (Suc sq) (if h < gap_end c then gap_end c else h) ks1 = Inr (h', ks')"
      by (auto simp: Let_def rbind_eq_Inr gap_end_def [symmetric])
    have "\<exists>k \<in> set ks1. k_session_id k = x \<and> k_base k = dc_base c \<and> k_kind k = OutGap" "dc_base c \<le> gap_end c"
      using i by (auto simp: insert_output_def list_ex_iff split: if_splits)
    then show ?thesis by (intro later [OF r]) (use True n Cons.prems(3) in \<open>auto simp: absorbed_def\<close>)
  next
    case F: False
    let ?n = "int (length (dc_data c))"
    have sk: "i64 (h - dc_base c) = h - dc_base c" by (rule i64_id) (use n Cons.prems(2,3) in \<open>simp add: in_i64_def MaxInt64_def\<close>)
    have e: "i64 (dc_base c + ?n) = dc_base c + ?n" by (rule i64_id) (use n in \<open>simp add: in_i64_def\<close>)
    consider (over) "dc_base c + ?n \<le> h" "dc_base c < h" | (none) "\<not> dc_base c < h" "dc_data c = []"
      | (part) "h < dc_base c + ?n" "dc_base c < h" | (whole) "\<not> dc_base c < h" "dc_data c \<noteq> []" by linarith
    then show ?thesis
    proof cases
      case over
      with Cons.prems(1) F sk show ?thesis by (intro later [of h ks]) (auto simp: Let_def absorbed_def Cons.prems(3))
    next
      case none
      with Cons.prems(1) F sk show ?thesis by (intro later [of h ks]) (auto simp: Let_def absorbed_def Cons.prems(3))
    next
      case part
      let ?d = "drop (nat (h - dc_base c)) (dc_data c)"
      have st: "h + int (length ?d) = dc_base c + ?n" using part by simp
      have ne: "?d \<noteq> []" using part by simp
      have e': "i64 (?n + dc_base c) = dc_base c + ?n" using e by (simp add: add.commute)
      from Cons.prems(1) F sk part ne e e' obtain ks1 where "append_chunks now x cs (Suc sq) (dc_base c + ?n) ks1 = Inr (h', ks')"
        by (auto simp: Let_def rbind_eq_Inr st split: if_splits)
      then show ?thesis by (rule later) (use F n part in \<open>auto simp: absorbed_def\<close>)
    next
      case whole
      then have "0 < ?n" by simp
      with Cons.prems(1) F whole e obtain ks1 where "append_chunks now x cs (Suc sq) (dc_base c + ?n) ks1 = Inr (h', ks')"
        by (auto simp: Let_def rbind_eq_Inr split: if_splits)
      then show ?thesis by (rule later) (use F n whole in \<open>auto simp: absorbed_def\<close>)
    qed
  qed
qed


lemma prune_keeps_gaps:
  assumes "prune_chunks x target cs removed nb ks = Inr (nb', ks')" "keyed out_key ks" "set cs \<subseteq> set (data_of x ks)"
    "distinct (map k_seq cs)" "k \<in> set ks" "k_kind k = OutGap"
  shows "k \<in> set ks'"
  using assms
proof (induction cs arbitrary: removed nb ks)
  case (Cons c cs)
  have c: "c \<in> set ks" "chunk_of x c" "k_kind c = OutData" using Cons.prems(3) by (auto simp: data_of_def)
  have k: "\<not> nth_chunk x (k_seq c) k"
    using keyed_inj [of out_key ks k c] Cons.prems(2,5,6) c by (auto simp: nth_chunk_def chunk_of_def)
  have cs: "\<not> nth_chunk x (k_seq c) a" if "a \<in> set cs" for a using that Cons.prems(4) by (metis distinct.simps(2) image_eqI list.set_map list.simps(9) nth_chunk_def)
  have r1: ?case if "prune_chunks x target cs r b (filter (\<lambda>k. \<not> nth_chunk x (k_seq c) k) ks) = Inr (nb', ks')" for r b
    by (rule Cons.IH [OF that]) (use Cons.prems cs k in \<open>auto simp: keyed_filter data_of_def\<close>)
  have r2: ?case if "prune_chunks x target cs r b (upd (nth_chunk x (k_seq c)) (trimmed n) ks) = Inr (nb', ks')" for r b n
  proof (rule Cons.IH [OF that])
    have "out_key (trimmed n a) = out_key a" for a by (simp add: trimmed_def)
    then show "keyed out_key (upd (nth_chunk x (k_seq c)) (trimmed n) ks)" using Cons.prems(2) by (simp add: keyed_upd)
    show "set cs \<subseteq> set (data_of x (upd (nth_chunk x (k_seq c)) (trimmed n) ks))"
    proof
      fix a assume a: "a \<in> set cs"
      then have "a \<in> set ks" "chunk_of x a" "k_kind a = OutData" using Cons.prems(3) by (auto simp: data_of_def)
      with cs [OF a] show "a \<in> set (data_of x (upd (nth_chunk x (k_seq c)) (trimmed n) ks))" by (auto simp: data_of_def set_upd image_iff)
    qed
    show "k \<in> set (upd (nth_chunk x (k_seq c)) (trimmed n) ks)" using k Cons.prems(5) by (auto simp: set_upd image_iff)
  qed (use Cons.prems in simp_all)
  from Cons.prems(1,5) show ?case by (auto simp: Let_def split: if_splits dest: r1 r2)
qed simp

lemma prune_tx_gaps:
  assumes "pruneTerminalOutputTx t db = Inr db'" "keyed out_key (toutput (terminals db))"
    "k \<in> set (toutput (terminals db))" "k_kind k = OutGap"
  shows "k \<in> set (toutput (terminals db'))"
proof (cases "retained (tm_session_id t) (toutput (terminals db)) \<le> terminalScrollbackCap")
  case True
  with assms show ?thesis by (simp add: pruneTerminalOutputTx_def)
next
  case False
  let ?x = "tm_session_id t" and ?ks = "toutput (terminals db)"
  have d: "distinct (map k_seq (sort_key k_base (data_of ?x ?ks)))"
  proof -
    have "distinct (map k_seq (data_of ?x ?ks))"
      using assms(2) by (auto simp: keyed_def distinct_map data_of_def chunk_of_def inj_on_def)
    then show ?thesis by (simp add: distinct_map)
  qed
  from assms(1) False show ?thesis
    by (auto simp: pruneTerminalOutputTx_def Let_def rbind_eq_Inr intro: prune_keeps_gaps [OF _ assms(2) _ d assms(3,4)])
qed

text \<open>
  Draining again is harmless: when a runner appends chunks and, its claim still live, repeats any
  of them, in any order, the repeated append is accepted and stores nothing: rows and byte counts stay,
  only the session's update time moves.
\<close>

lemma drain_replay_stores_nothing:
  assumes "terms_ok db" and "AppendTerminalOutput now wall p x w e cs db = Inr (db1, (), t1)"
    and "list_all (\<lambda>t. 0 \<le> tm_output_bytes t \<and> tm_output_bytes t \<le> MaxInt64) (sessions (terminals db))" and "list_all in_range cs"
    and "set cs2 \<subseteq> set cs" and "claim_live wall2 w e t1"
  shows "\<exists>db2. AppendTerminalOutput now2 wall2 p x w e cs2 db1 = Inr (db2, (), t1\<lparr>tm_updated_at := now2\<rparr>)
    \<and> toutput (terminals db2) = toutput (terminals db1) \<and> tinputs (terminals db2) = tinputs (terminals db1)"
proof -
  let ?ks = "toutput (terminals db)" and ?sq = "maxl (map k_seq (filter (chunk_of x) (toutput (terminals db))))"
  from assms(2) obtain t high ks1 where t: "lockTerminalSessionTx db p x = Inr t"
    and a: "append_chunks now x cs ?sq (tm_output_bytes t) ?ks = Inr (high, ks1)"
    and pr: "pruneTerminalOutputTx t (set_sessions (is_session p x) (\<lambda>r. r\<lparr>tm_output_bytes := max (tm_output_bytes r) high, tm_updated_at := now\<rparr>)
        (set_toutput ks1 db)) = Inr db1" and l1: "lockTerminalSessionTx db1 p x = Inr t1"
    unfolding AppendTerminalOutput_def by (elim terminalClaimTx_cases) (auto simp: Let_def rbind_eq_Inr)
  note l = lock_cases [OF t]
  have b: "0 \<le> tm_output_bytes t" "tm_output_bytes t \<le> MaxInt64" using assms(3) l(2) by (auto simp: list_all_iff)
  have "k_seq k \<le> ?sq" if "k \<in> set ?ks" "k_session_id k = x" for k
    by (rule maxl_ge) (use that in \<open>auto simp: chunk_of_def\<close>)
  then have k1: "keyed out_key ks1" "tm_output_bytes t \<le> high"
    using append_chunks_rows [OF a] assms(1) by (auto simp: terms_ok_def ts_ok_def out_ok_def)
  have ab: "high \<le> MaxInt64" "\<And>c. c \<in> set cs \<Longrightarrow> absorbed x high ks1 c"
    using append_absorbs [OF a b] assms(4) by (auto simp: list_all_iff)
  have "absorbed x high (toutput (terminals db1)) c" if "c \<in> set cs" for c
    using ab(2) [OF that] prune_tx_gaps [OF pr] k1(1) by (fastforce simp: absorbed_def split: if_splits)
  moreover have h1: "tm_output_bytes t1 = high"
  proof -
    have f: "find (is_session p x) (sessions (terminals db)) = Some t" using l(1) by (simp add: session_of_def)
    have "map_option tm_output_bytes (session_of db1 p x) = Some high"
      using pr f k1(2) l(4,5) by (auto simp: pruneTerminalOutputTx_def Let_def rbind_eq_Inr session_of_def find_upd is_session_def split: if_splits)
    then show ?thesis using lock_cases(1) [OF l1] by simp
  qed
  ultimately have app: "append_chunks now2 x cs2 sq (tm_output_bytes t1) (toutput (terminals db1)) = Inr (high, toutput (terminals db1))" for sq
    unfolding h1 by (intro append_absorbed) (use assms(4,5) b(1) k1(2) ab(1) in \<open>auto simp: list_all_iff\<close>)
  have ok1: "terms_ok db1" by (rule progress_ok [OF append_progress [OF assms(2)] assms(1)])
  then have ret: "retained y (toutput (terminals db1)) \<le> terminalScrollbackCap" for y by (simp add: terms_ok_def ts_ok_def out_ok_def)
  let ?f = "\<lambda>r. r\<lparr>tm_output_bytes := max (tm_output_bytes r) high, tm_updated_at := now2\<rparr>"
  let ?db2 = "set_sessions (is_session p x) ?f db1"
  have "set_toutput (toutput (terminals db1)) db1 = db1" by (simp add: set_toutput_def)
  then have pr2: "pruneTerminalOutputTx t1 (set_sessions (is_session p x) ?f (set_toutput (toutput (terminals db1)) db1)) = Inr ?db2"
    using ret by (simp add: pruneTerminalOutputTx_def)
  have "lockTerminalSessionTx ?db2 p x = Inr (t1\<lparr>tm_updated_at := now2\<rparr>)"
    using lock_cases(1,3,6,7) [OF l1] h1
    by (simp add: lockTerminalSessionTx_def uuidv7_params_def session_of_def find_upd is_session_def)
  then have "AppendTerminalOutput now2 wall2 p x w e cs2 db1 = Inr (?db2, (), t1\<lparr>tm_updated_at := now2\<rparr>)"
    unfolding AppendTerminalOutput_def terminalClaimTx_def using l1 assms(6) app pr2 by (simp add: Let_def)
  then show ?thesis by (intro exI [of _ ?db2]) simp
qed


end
