(* ===== verification/Terminal_Protocol.thy ===== *)
theory Terminal_Protocol
  imports Core_Protocol Terminal_Output
begin

text \<open>
  Terminals along the histories of the whole service: what a session and an input become after any
  commands of any hosts, the fence of a takeover, the delivery of each input at most once, the bounds
  on sessions and scrollback, and the bytes of the stream that a session retains.
\<close>

section \<open>Rows along a history\<close>

lemma run_sound: "sound db \<Longrightarrow> sound (run en cs db)"
  by (rule inv.reach_I [OF run_reach])

lemma sound_terms: "sound db \<Longrightarrow> terms_ok db"
  by (simp add: sound_def)

lemma run_terms:
  assumes "sound db"
  shows "grows sess_moved (\<lambda>_. True) (sessions (terminals db)) (sessions (terminals (run en cs db)))"
    "grows tin_moved (\<lambda>_. True) (tinputs (terminals db)) (tinputs (terminals (run en cs db)))"
  using hist.reach_R [OF run_reach [of en db cs]] sound_terms [OF assms]
  by (simp_all add: history_kept_def term_lawful_def)

lemma session_of_in: "session_of db p x = Some t \<Longrightarrow> t \<in> set (sessions (terminals db)) \<and> is_session p x t"
  unfolding session_of_def by (drule find_SomeD) simp

lemma session_ofI:
  assumes "terms_ok db" "t \<in> set (sessions (terminals db))" "is_session p x t"
  shows "session_of db p x = Some t"
  unfolding session_of_def
  by (rule keyed_find [of tm_session_id]) (use assms in \<open>auto simp: terms_ok_def ts_ok_def is_session_def\<close>)

lemma session_grown:
  assumes "grows sess_moved (\<lambda>_. True) (sessions (terminals db)) (sessions (terminals db'))" "terms_ok db'"
    "session_of db p x = Some t"
  shows "\<exists>t'. session_of db' p x = Some t' \<and> sess_moved t t'"
proof -
  note t = session_of_in [OF assms(3)]
  from grows_old [OF assms(1)] t obtain t' where t': "t' \<in> set (sessions (terminals db'))" "sess_moved t t'" by blast
  with t moved_id [OF t'(2)] have "is_session p x t'" by (simp add: is_session_def)
  with t' assms(2) show ?thesis by (blast intro: session_ofI)
qed

lemma session_later:
  assumes "sound db" "session_of db p x = Some t"
  shows "\<exists>t'. session_of (run en cs db) p x = Some t' \<and> sess_moved t t'"
  by (rule session_grown [OF run_terms(1) [OF assms(1)] sound_terms [OF run_sound [OF assms(1)]] assms(2)])

text \<open>An input is found again under its id.\<close>

lemma input_later:
  assumes "sound db" "n \<in> set (tinputs (terminals db))" "n' \<in> set (tinputs (terminals (run en cs db)))" "n_input_id n' = n_input_id n"
  shows "tin_moved n n'"
proof -
  from grows_old [OF run_terms(2) [OF assms(1)] assms(2)] obtain m
    where m: "m \<in> set (tinputs (terminals (run en cs db)))" "tin_moved n m" by blast
  have "keyed n_input_id (tinputs (terminals (run en cs db)))"
    using run_sound [OF assms(1), of en cs] by (simp add: sound_def terms_ok_def ts_ok_def)
  with m assms(3,4) have "m = n'" by (metis (no_types, lifting) keyed_inj tin_moved_def tin_cols_def prod.inject)
  with m(2) show ?thesis by simp
qed

section \<open>A deployment\<close>

definition demo_desk :: "unit env" where
  "demo_desk = demo_env\<lparr>en_store := demo_store\<lparr>st_terminals := demo_terms\<rparr>\<rparr>"

lemma demo_shell_sound: "sound demo_shell"
proof -
  have "jobs_ok demo_shell" by (simp add: jobs_ok_def noted_of_def ended_of_def demo_shell_defs demo_defs keyed_def)
  moreover have "accounted demo_shell" "one_running demo_shell" "keyed appr_key (approvals demo_shell)" "keyed l_persona_id (leases demo_shell)"
    by (simp_all add: accounted_def one_running_def keyed_def demo_shell_defs demo_defs)
  moreover have "mem_ok demo_shell" by (rule no_memory_ok) (simp_all add: demo_shell_defs demo_defs)
  ultimately show ?thesis using demo_shell_ok by (simp add: sound_def)
qed

text \<open>Another incarnation of the runner takes the shell over.\<close>

definition demo_taken_row :: session_row where
  "demo_taken_row = demo_row\<lparr>tm_status := TmClaimed, tm_epoch := 2, tm_claimed_by := Some ''r1#2'', tm_claim_expires_at := Some 1000060,
     tm_updated_at := 60\<rparr>"

definition demo_taken :: "unit db" where
  "demo_taken = demo_shell\<lparr>terminals := \<lparr>sessions = [demo_taken_row], tinputs = [demo_key\<lparr>n_session_epoch := 2, n_updated_at := 60\<rparr>], toutput = []\<rparr>\<rparr>"

lemma demo_claim: "ClaimTerminalSessions 60 demo_owner ''r1#2'' ''local'' 1000 1 demo_shell = Inr (demo_taken, [demo_taken_row], [])"
  by (simp add: ClaimTerminalSessions_def sweepTerminalExpiredTx_def sweepable_def lapsed_def claim_candidates_def claimable_def held_under_def
      claimLogicalRunner_def terminalClaimed_def claim_session_def fence_inputs_def set_tinputs_def set_sessions_def lockTerminalSessionTx_def
      session_of_def is_session_def uuidv7_params_def text_params_def persona_of_def is_persona_def of_session_def demo_taken_def demo_taken_row_def
      demo_shell_defs demo_defs)

section \<open>Delivery\<close>

text \<open>The inputs a runner is offered: what it is to write to the terminal, in order.\<close>

definition offered :: "timestamp \<Rightarrow> string \<Rightarrow> string \<Rightarrow> string \<Rightarrow> int \<Rightarrow> 'd db \<Rightarrow> string list" where
  "offered wall p x w e db = (case PendingTerminalInputs wall p x w e db of
     Inl _ \<Rightarrow> [] | Inr (_, ns, _) \<Rightarrow> map n_input_id ns)"

lemma offered_rows:
  assumes "nid \<in> set (offered wall p x w e db)"
  shows "\<exists>n \<in> set (tinputs (terminals db)). n_input_id n = nid \<and> n_status n = NIntended"
proof (cases "PendingTerminalInputs wall p x w e db")
  case (Inr r)
  obtain d ns u where r: "r = (d, ns, u)" by (cases r)
  have "ns = sort_key n_seq (filter (\<lambda>n. of_session x n \<and> n_session_epoch n = e \<and> n_status n = NIntended) (tinputs (terminals db)))"
    using Inr unfolding r PendingTerminalInputs_def by (elim terminalClaimTx_cases) auto
  with assms Inr r show ?thesis by (auto simp: offered_def)
qed (use assms in \<open>simp add: offered_def\<close>)

text \<open>What an accepted disposition says of the row and of the claim.\<close>

lemma disposition_row:
  assumes "ReportTerminalInputDisposition now wall p x nid w e status d db = Inr (db', n', t')" "terms_ok db"
  obtains s n t where "input_disposition status = Some s" "n \<in> set (tinputs (terminals db))" "n_input_id n = nid"
    "n_session_id n = x" "n_session_epoch n = e" "open_input n" "session_of db p x = Some t" "tm_epoch t = e"
    "tm_claimed_by t = Some w" "n' = n\<lparr>n_status := s, n_detail := d, n_updated_at := now\<rparr>"
    "n' \<in> set (tinputs (terminals db'))" "sessions (terminals db') = sessions (terminals db)"
proof -
  let ?P = "\<lambda>n. n_input_id n = nid \<and> of_session x n \<and> n_session_epoch n = e \<and> n_status n \<in> {NIntended, NDequeued}"
  from assms(1) obtain s where s: "input_disposition status = Some s"
    by (auto simp: ReportTerminalInputDisposition_def split: option.splits)
  let ?f = "\<lambda>n. n\<lparr>n_status := s, n_detail := d, n_updated_at := now\<rparr>"
  from assms(1) s obtain t n where t: "lockTerminalSessionTx db p x = Inr t" "claim_live wall w e t"
    and n: "find ?P (tinputs (terminals db)) = Some n" "db' = set_tinputs ?P ?f db" "n' = ?f n"
    unfolding ReportTerminalInputDisposition_def
    by (simp, elim terminalClaimTx_cases) (auto simp: Let_def rbind_eq_Inr require_eq_Inr)
  note tl = lock_cases [OF t(1)] and nl = find_SomeD [OF n(1)]
  have "sess_wf t" using assms(2) tl(2) by (simp add: terms_ok_def ts_ok_def)
  then have "tm_claimed_by t = Some w"
    using t(2) by (auto simp: claim_live_def sess_wf_def unexpired_def text_of_def split: option.splits)
  moreover have "n' \<in> set (tinputs (terminals db'))" using nl n(2,3) by (auto simp: set_upd)
  ultimately show thesis
    using that s nl tl(1) t(2) n(2,3) by (auto simp: claim_live_def open_input_def of_session_def)
qed

text \<open>
  C12. An input reaches at most one runner: once a disposition of it is accepted as handed out, then
  after any commands whatever it is offered to nobody, whoever asks; and every disposition of it that
  is still accepted comes from the same session, runner and epoch.
\<close>

theorem input_handed_out_once:
  assumes "sound db"
    and "ReportTerminalInputDisposition now wall p x nid w e ''dequeued'' d db = Inr (db1, n1, t1)"
  shows "(\<forall>wall2 r z u g. nid \<notin> set (offered wall2 r z u g (run en cs db1)))
    \<and> (\<forall>now2 wall2 q y v f status d2 r.
          ReportTerminalInputDisposition now2 wall2 q y nid v f status d2 (run en cs db1) = Inr r \<longrightarrow> (q, y, v, f) = (p, x, w, e))"
proof -
  have p: "terms_ok db" by (rule sound_terms [OF assms(1)])
  have "permitted db db1"
  proof -
    have "exec_term th now wall (TDispose p x nid w e ''dequeued'' d) db = Inr db1" for th
      using assms(2) by (simp add: exec_term_def)
    then show ?thesis by (rule permittedI(2) [OF exec_term_claims])
  qed
  then have s1: "sound db1" using assms(1) by (rule permitted_sound)
  from assms(2) p obtain t where
    n1: "n1 \<in> set (tinputs (terminals db1))" "n_input_id n1 = nid" "n_session_id n1 = x" "n_session_epoch n1 = e" "n_status n1 = NDequeued"
    and t: "session_of db1 p x = Some t" "tm_epoch t = e" "tm_claimed_by t = Some w"
    by (elim disposition_row) (auto simp: input_disposition_def session_of_def)
  have "nid \<notin> set (offered wall2 r z u g (run en cs db1))" for wall2 r z u g
  proof
    assume "nid \<in> set (offered wall2 r z u g (run en cs db1))"
    from offered_rows [OF this] obtain k where k: "k \<in> set (tinputs (terminals (run en cs db1)))" "n_input_id k = nid" "n_status k = NIntended"
      by blast
    from input_later [OF s1 n1(1) k(1)] k n1 show False by (simp add: tin_moved_def)
  qed
  moreover have "(q, y, v, f) = (p, x, w, e)"
    if "ReportTerminalInputDisposition now2 wall2 q y nid v f status d2 (run en cs db1) = Inr r" for now2 wall2 q y v f status d2 r
  proof -
    obtain db2 n2 t2 where "r = (db2, n2, t2)" by (cases r)
    with that have "ReportTerminalInputDisposition now2 wall2 q y nid v f status d2 (run en cs db1) = Inr (db2, n2, t2)" by simp
    from disposition_row [OF this sound_terms [OF run_sound [OF s1]]] obtain n u where
      n: "n \<in> set (tinputs (terminals (run en cs db1)))" "n_input_id n = nid" "n_session_id n = y" "n_session_epoch n = f"
      and u: "session_of (run en cs db1) q y = Some u" "tm_epoch u = f" "tm_claimed_by u = Some v" by metis
    have "tin_moved n1 n" by (rule input_later [OF s1 n1(1) n(1)]) (simp add: n n1)
    with n n1 have xe: "y = x" "f = e" by (auto simp: tin_moved_def tin_cols_def)
    from session_later [OF s1 t(1)] obtain t' where t': "session_of (run en cs db1) p x = Some t'" "sess_moved t t'" by blast
    have "t' = u"
      using keyed_inj [of tm_session_id "sessions (terminals (run en cs db1))" t' u] session_of_in [OF t'(1)] session_of_in [OF u(1)]
        run_sound [OF s1, of en cs] xe by (simp add: sound_def terms_ok_def ts_ok_def is_session_def)
    with t'(2) t u xe session_of_in [OF t'(1)] session_of_in [OF u(1)] show ?thesis by (auto simp: sess_moved_def is_session_def)
  qed
  ultimately show ?thesis by blast
qed

theorem input_handed_out_once_witness:
  "\<exists>db1 n1 t1 db2 n2 t2.
     ReportTerminalInputDisposition 40 40 demo_owner demo_shell_id demo_key_id ''r1'' 1 ''dequeued'' None demo_shell = Inr (db1, n1, t1)
   \<and> ReportTerminalInputDisposition 50 50 demo_owner demo_shell_id demo_key_id ''r1'' 1 ''written'' None db1 = Inr (db2, n2, t2)
   \<and> demo_key_id \<notin> set (offered 60 demo_owner demo_shell_id ''r1'' 1 db1)"
proof -
  note defs = ReportTerminalInputDisposition_def terminalClaimTx_def lockTerminalSessionTx_def uuidv7_params_def input_disposition_def
    set_tinputs_def demo_shell_defs session_of_def is_session_def claim_live_def text_of_def terminalClaimed_def unexpired_def of_session_def
    text_params_def
  obtain db1 n1 t1 where a: "ReportTerminalInputDisposition 40 40 demo_owner demo_shell_id demo_key_id ''r1'' 1 ''dequeued'' None demo_shell
      = Inr (db1, n1, t1)" and d: "db1 = demo_shell\<lparr>terminals := \<lparr>sessions = [demo_row],
        tinputs = [demo_key\<lparr>n_status := NDequeued, n_updated_at := 40\<rparr>], toutput = []\<rparr>\<rparr>"
    by (simp add: defs)
  obtain db2 n2 t2 where b: "ReportTerminalInputDisposition 50 50 demo_owner demo_shell_id demo_key_id ''r1'' 1 ''written'' None db1 = Inr (db2, n2, t2)"
    unfolding d by (simp add: defs)
  from input_handed_out_once [OF demo_shell_sound a, of demo_desk "[]"] a b show ?thesis by (auto simp: run_def)
qed


section \<open>Takeover\<close>

text \<open>Claims of other sessions leave a session, and which of its inputs are still to be written, alone.\<close>

definition undelivered :: "string \<Rightarrow> tinput_row list \<Rightarrow> (string \<times> nat) list" where
  "undelivered x ns = map (\<lambda>n. (n_input_id n, n_seq n)) (filter (\<lambda>n. of_session x n \<and> n_status n = NIntended) ns)"

lemma undelivered_upd:
  assumes "\<And>n. P n \<Longrightarrow> tin_cols (f n) = tin_cols n \<and> (n_status (f n) = NIntended \<longleftrightarrow> n_status n = NIntended)"
  shows "undelivered x (upd P f ns) = undelivered x ns"
  using assms by (induction ns) (auto simp: undelivered_def upd_def of_session_def tin_cols_def)

lemma fence_undelivered: "undelivered y (tinputs (terminals (fence_inputs now x e db))) = undelivered y (tinputs (terminals db))"
proof -
  have "undelivered y (upd (\<lambda>n. Q n \<and> n_status n = NIntended) (\<lambda>n. n\<lparr>n_session_epoch := e, n_updated_at := now\<rparr>) ns) = undelivered y ns"
    "undelivered y (upd (\<lambda>n. Q n \<and> n_status n = NDequeued) (\<lambda>n. n\<lparr>n_status := NUnknown, n_updated_at := now\<rparr>) ns) = undelivered y ns"
    for Q ns by (rule undelivered_upd; simp add: tin_cols_def)+
  note h = this [of "\<lambda>n. of_session x n \<and> n_session_epoch n < e", unfolded conj_assoc]
  show ?thesis by (simp add: fence_inputs_def h)
qed

lemma claim_each_inputs:
  "claim_each now p w lease ts db = Inr (db', out) \<Longrightarrow> undelivered x (tinputs (terminals db')) = undelivered x (tinputs (terminals db))"
proof (induction ts arbitrary: db out)
  case (Cons t ts)
  then show ?case by (auto simp: Let_def rbind_eq_Inr fence_undelivered split: if_splits)
qed simp

lemma claim_each_others:
  assumes "claim_each now p w lease ts db = Inr (db', out)" "\<And>t. t \<in> set ts \<Longrightarrow> tm_session_id t \<noteq> x"
  shows "session_of db' p x = session_of db p x"
  using assms
proof (induction ts arbitrary: db out)
  case (Cons t ts)
  let ?P = "\<lambda>r. is_session p (tm_session_id t) r \<and> claimable w r"
  have "session_of (fence_inputs now y e (set_sessions ?P (claim_session now w lease e) db)) p x = session_of db p x" for y e
    unfolding session_of_def claim_one_rows
    by (rule find_upd_other) (use Cons.prems(2) [of t] in \<open>auto simp: is_session_def claim_session_def\<close>)
  with Cons show ?case by (auto simp: Let_def rbind_eq_Inr split: if_splits)
qed simp

lemma claim_each_ids:
  "claim_each now p w lease ts db = Inr (db', out) \<Longrightarrow> u \<in> set out \<Longrightarrow> \<exists>s \<in> set ts. tm_session_id s = tm_session_id u"
proof (induction ts arbitrary: db out)
  case (Cons t ts)
  from Cons.prems show ?case
    by (fastforce simp: Let_def rbind_eq_Inr split: if_splits dest: Cons.IH lock_cases(5))
qed simp

text \<open>What a claim hands back: the row as it now stands, one epoch above what it was.\<close>

lemma claim_each_out:
  assumes "claim_each now p w lease ts db = Inr (db', out)" "distinct (map tm_session_id ts)" "terms_ok db"
    "\<And>t. t \<in> set ts \<Longrightarrow> t \<in> set (sessions (terminals db)) \<and> tm_persona_id t = p" "u \<in> set out"
  shows "session_of db' p (tm_session_id u) = Some u \<and> terminalClaimed (tm_status u) \<and> tm_claimed_by u = Some w
    \<and> tm_claim_expires_at u = Some (now + lease * 1000) \<and> uuidv7_match p \<and> uuidv7_match (tm_session_id u)
    \<and> (\<exists>t. session_of db p (tm_session_id u) = Some t \<and> tm_epoch u = tm_epoch t + 1)"
  using assms
proof (induction ts arbitrary: db out)
  case (Cons t ts)
  let ?x = "tm_session_id t" and ?e = "tm_epoch t + 1"
  let ?P = "\<lambda>r. is_session p ?x r \<and> claimable w r"
  let ?db1 = "fence_inputs now ?x ?e (set_sessions ?P (claim_session now w lease ?e) db)"
  have t: "t \<in> set (sessions (terminals db))" "is_session p ?x t" using Cons.prems(4) [of t] by (auto simp: is_session_def)
  have st: "session_of db p ?x = Some t" by (rule session_ofI [OF Cons.prems(3) t])
  have ne: "tm_session_id s \<noteq> ?x" if "s \<in> set ts" for s
    using Cons.prems(2) that by (metis distinct.simps(2) image_eqI list.set_map list.simps(9))
  show ?case
  proof (cases "list_ex ?P (sessions (terminals db))")
    case False
    with Cons.prems show ?thesis by (intro Cons.IH) (auto simp: Let_def)
  next
    case True
    then obtain r where r: "r \<in> set (sessions (terminals db))" "?P r" by (auto simp: list_ex_iff)
    have rt: "r = t" using keyed_inj [of tm_session_id "sessions (terminals db)" r t] r t(1) Cons.prems(3)
      by (simp add: terms_ok_def ts_ok_def is_session_def)
    with r have "term_progress db ?db1" by (intro claim_one_progress [OF t _ refl refl]) simp_all
    then have ok1: "terms_ok ?db1" using Cons.prems(3) by (rule progress_ok)
    from Cons.prems(1) True obtain f out' where l: "lockTerminalSessionTx ?db1 p ?x = Inr f" and o: "out = f # out'"
      and rest: "claim_each now p w lease ts ?db1 = Inr (db', out')"
      by (auto simp: Let_def rbind_eq_Inr)
    have "claim_session now w lease ?e t \<in> set (sessions (terminals ?db1))"
      unfolding claim_one_rows set_upd using t(1) r rt by auto
    then have "session_of ?db1 p ?x = Some (claim_session now w lease ?e t)"
      by (rule session_ofI [OF ok1]) (use t(2) in \<open>simp add: is_session_def claim_session_def\<close>)
    then have f: "f = claim_session now w lease ?e t" "uuidv7_match p" "uuidv7_match ?x" using lock_cases [OF l] by simp_all
    have fx: "tm_session_id f = ?x" by (simp add: f claim_session_def)
    show ?thesis
    proof (cases "u = f")
      case True
      have "session_of db' p ?x = Some f"
        using claim_each_others [OF rest ne] lock_cases(1) [OF l] by simp
      with True st f fx show ?thesis by (auto simp: claim_session_def terminalClaimed_def)
    next
      case False
      have in1: "s \<in> set (sessions (terminals ?db1)) \<and> tm_persona_id s = p" if s: "s \<in> set ts" for s
        using Cons.prems(4) [of s] s ne [OF s] by (auto simp: claim_one_rows set_upd is_session_def)
      have u: "u \<in> set out'" using False Cons.prems(5) o by simp
      note ih = Cons.IH [OF rest _ ok1 in1 u]
      have "distinct (map tm_session_id ts)" using Cons.prems(2) by simp
      note ih = ih [OF this]
      show ?thesis
      proof (cases "tm_session_id u = ?x")
        case True
        from claim_each_ids [OF rest u] obtain s where "s \<in> set ts" "tm_session_id s = ?x" using True by auto
        with ne show ?thesis by blast
      next
        case False
        have "session_of ?db1 p (tm_session_id u) = session_of db p (tm_session_id u)"
          unfolding session_of_def claim_one_rows
          by (rule find_upd_other) (use False in \<open>auto simp: is_session_def claim_session_def\<close>)
        with ih show ?thesis by simp
      qed
    qed
  qed
qed simp


lemma sweep_session:
  assumes "sweepTerminalExpiredTx now p backend db = Inr (db1, swept)"
  shows "map_option tm_epoch (session_of db1 q x) = map_option tm_epoch (session_of db q x)" "tinputs (terminals db1) = tinputs (terminals db)"
proof -
  have one: "map_option tm_epoch (session_of (set_sessions P (released now) d) q x) = map_option tm_epoch (session_of d q x)" for P and d :: "'a db"
  proof -
    have "is_session q x (released now r) = is_session q x r" for r by (simp add: is_session_def released_def)
    moreover have "tm_epoch (if P r then released now r else r) = tm_epoch r" for r by (simp add: released_def)
    ultimately show ?thesis by (simp add: session_of_def find_upd option.map_comp o_def)
  qed
  show "map_option tm_epoch (session_of db1 q x) = map_option tm_epoch (session_of db q x)"
    using assms by (auto simp: sweepTerminalExpiredTx_def Let_def rbind_eq_Inr one)
  show "tinputs (terminals db1) = tinputs (terminals db)"
    using assms by (auto simp: sweepTerminalExpiredTx_def Let_def rbind_eq_Inr)
qed

lemma claim_takes:
  assumes "ClaimTerminalSessions now p w backend lease limit db = Inr (db', taken, swept)" "terms_ok db" "u \<in> set taken"
  shows "session_of db' p (tm_session_id u) = Some u" "terminalClaimed (tm_status u)" "tm_claimed_by u = Some w"
    "tm_claim_expires_at u = Some (now + lease * 1000)" "uuidv7_match p" "uuidv7_match (tm_session_id u)"
    "\<exists>t. session_of db p (tm_session_id u) = Some t \<and> tm_epoch u = tm_epoch t + 1"
    "undelivered x (tinputs (terminals db')) = undelivered x (tinputs (terminals db))"
proof -
  let ?x = "tm_session_id u"
  from assms(1,3) obtain db1 where s: "sweepTerminalExpiredTx now p backend db = Inr (db1, swept)"
    and c: "claim_each now p w lease (claim_candidates db1 p w backend limit) db1 = Inr (db', taken)"
    by (auto simp: ClaimTerminalSessions_def rbind_eq_Inr require_eq_Inr split: if_splits)
  have ok: "terms_ok db1" by (rule progress_ok [OF sweep_progress [OF s] assms(2)])
  have "distinct (map tm_session_id (claim_candidates db1 p w backend limit))" unfolding claim_candidates_def
    by (rule distinct_sorted_filter) (use ok in \<open>simp add: terms_ok_def ts_ok_def\<close>)
  moreover have "t \<in> set (sessions (terminals db1)) \<and> tm_persona_id t = p" if "t \<in> set (claim_candidates db1 p w backend limit)" for t
    using that by (auto simp: claim_candidates_def dest!: in_set_takeD)
  ultimately have o: "session_of db' p ?x = Some u \<and> terminalClaimed (tm_status u) \<and> tm_claimed_by u = Some w
    \<and> tm_claim_expires_at u = Some (now + lease * 1000) \<and> uuidv7_match p \<and> uuidv7_match ?x
    \<and> (\<exists>t. session_of db1 p ?x = Some t \<and> tm_epoch u = tm_epoch t + 1)"
    by (rule claim_each_out [OF c _ ok _ assms(3)])
  then obtain t where t: "session_of db1 p ?x = Some t" "tm_epoch u = tm_epoch t + 1" by blast
  show "\<exists>t. session_of db p ?x = Some t \<and> tm_epoch u = tm_epoch t + 1"
    using sweep_session(1) [OF s, of p ?x] t by (auto simp: map_option_case split: option.splits)
  show "undelivered x (tinputs (terminals db')) = undelivered x (tinputs (terminals db))"
    using claim_each_inputs [OF c] sweep_session(2) [OF s] by simp
  show "session_of db' p ?x = Some u" "terminalClaimed (tm_status u)" "tm_claimed_by u = Some w"
    "tm_claim_expires_at u = Some (now + lease * 1000)" "uuidv7_match p" "uuidv7_match ?x" using o by blast+
qed


lemma term_cmd_sound:
  assumes "sound db" "exec_term th now wall c db = Inr db'"
  shows "sound db'"
  by (rule permitted_sound [OF permittedI(2) [OF exec_term_claims [OF assms(2)]] assms(1)])

lemma claim_sound:
  assumes "sound db" "ClaimTerminalSessions now p w backend lease limit db = Inr (db', taken, swept)"
  shows "sound db'"
  by (rule term_cmd_sound [OF assms(1), where c = "TClaim p w backend lease limit" and now = now]) (simp add: exec_term_def assms(2))

text \<open>The epoch of a session, read as the token of a fence.\<close>

definition epoch_no :: "'d db \<Rightarrow> string \<Rightarrow> string \<Rightarrow> int" where
  "epoch_no db p x = (case session_of db p x of None \<Rightarrow> 0 | Some t \<Rightarrow> tm_epoch t)"

definition claim_held :: "'d db \<Rightarrow> string \<Rightarrow> string \<Rightarrow> int \<Rightarrow> bool" where
  "claim_held db p x e \<longleftrightarrow> (\<exists>t wall w. session_of db p x = Some t \<and> claim_live wall w e t)"

interpretation epochs: fencing "\<lambda>s t. sound s \<and> core_step en s t" "\<lambda>db. epoch_no db p x" "\<lambda>db. claim_held db p x"
  for en :: "'d env" and p x :: string
proof
  fix s t :: "'d db" assume st: "sound s \<and> core_step en s t"
  then obtain c where t: "t = exec en c s" by (auto simp: core_step_def)
  show "epoch_no s p x \<le> epoch_no t p x"
  proof (cases "session_of s p x")
    case None
    have "0 \<le> tm_epoch r" if "session_of t p x = Some r" for r
    proof -
      have "sess_wf r" using sound_terms [OF run_sound [of s en "[c]"]] st session_of_in [OF that]
        by (auto simp: t terms_ok_def ts_ok_def)
      then show ?thesis by (auto simp: sess_wf_def split: term_status.splits)
    qed
    with None show ?thesis by (auto simp: epoch_no_def split: option.splits)
  next
    case (Some r)
    from session_later [of s p x r en "[c]"] st Some obtain r' where "session_of t p x = Some r'" "sess_moved r r'" by (auto simp: t)
    with Some show ?thesis by (simp add: epoch_no_def sess_moved_def)
  qed
next
  fix s :: "'d db" and g assume "claim_held s p x g"
  then show "g = epoch_no s p x" by (auto simp: claim_held_def epoch_no_def claim_live_def)
qed

lemma sound_reach: "sound db \<Longrightarrow> rtranclp (\<lambda>s t. sound s \<and> core_step en s t) db (run en cs db)"
proof (induction cs arbitrary: db)
  case (Cons c cs)
  have "sound (exec en c db)" using run_sound [OF Cons.prems, of en "[c]"] by simp
  from Cons.IH [OF this] show ?case using Cons.prems
    by (auto intro: converse_rtranclp_into_rtranclp simp: core_step_def)
qed simp

text \<open>
  C13. A takeover fences the runner before it: once a claim of a session is granted, a runner that
  speaks under the epoch the session had before, or an earlier one, changes nothing, whatever commands
  of whichever hosts ran in between.
\<close>

theorem taken_over_runner_is_inert:
  assumes "sound db" and "ClaimTerminalSessions now p w backend lease limit db = Inr (db1, taken, swept)" and "u \<in> set taken"
    and "session_of db p (tm_session_id u) = Some t" and "speaks c = Some (p, tm_session_id u, v, e)" and "e \<le> tm_epoch t"
  shows "exec en (TermC now2 wall2 c) (run en cs db1) = run en cs db1"
proof -
  note k = claim_takes [OF assms(2) sound_terms [OF assms(1)] assms(3)]
  have s1: "sound db1" by (rule claim_sound [OF assms(1,2)])
  have "e < epoch_no db1 p (tm_session_id u)" using k(1,7) assms(4,6) by (simp add: epoch_no_def)
  then have "\<not> claim_held (run en cs db1) p (tm_session_id u) e" by (rule epochs.fenced [OF sound_reach [OF s1]])
  then have "\<exists>er. exec_term (st_terminals (en_store en)) now2 wall2 c (run en cs db1) = Inl er"
    by (intro unclaimed_refused [OF assms(5)]) (auto simp: claim_held_def)
  then show ?thesis by (auto intro!: tx_refused simp: rbind_eq_Inr)
qed

theorem taken_over_runner_is_inert_witness:
  "exec demo_desk (TermC 90 90 (THeartbeat demo_owner demo_shell_id ''r1'' 1 5000))
     (run demo_desk [TermC 70 70 (TClose demo_owner demo_shell_id [])] demo_taken)
   = run demo_desk [TermC 70 70 (TClose demo_owner demo_shell_id [])] demo_taken"
proof -
  have "session_of demo_shell demo_owner (tm_session_id demo_taken_row) = Some demo_row"
    "speaks (THeartbeat demo_owner demo_shell_id ''r1'' 1 5000) = Some (demo_owner, tm_session_id demo_taken_row, ''r1'', 1)" "1 \<le> tm_epoch demo_row"
    by (simp_all add: session_of_def is_session_def speaks_def demo_taken_row_def demo_shell_defs)
  from taken_over_runner_is_inert [OF demo_shell_sound demo_claim _ this] show ?thesis by (simp del: exec.simps run_Cons)
qed

text \<open>Sorting commutes with a projection that keeps the key.\<close>

lemma sort_key_map: "map f (sort_key (g \<circ> f) xs) = sort_key g (map f xs)"
proof (induction xs)
  case (Cons x xs)
  have "map f (insort_key (\<lambda>a. g (f a)) x ys) = insort_key g (f x) (map f ys)" for ys by (induction ys) auto
  with Cons show ?case by simp
qed simp

text \<open>
  C14. A takeover loses and repeats no input: the runner that takes a session over is offered, in the
  order they were accepted, exactly the inputs of the session that nobody had been handed before, and
  as long as its lease runs the request is answered.
\<close>

theorem takeover_offers_undelivered:
  assumes "sound db" and "ClaimTerminalSessions now p w backend lease limit db = Inr (db1, taken, swept)" and "u \<in> set taken"
    and "wall < now + lease * 1000"
  shows "offered wall p (tm_session_id u) w (tm_epoch u) db1
    = map n_input_id (sort_key n_seq (filter (\<lambda>n. n_session_id n = tm_session_id u \<and> n_status n = NIntended) (tinputs (terminals db))))"
proof -
  let ?x = "tm_session_id u" and ?e = "tm_epoch u"
  let ?ns = "\<lambda>d :: 'a db. filter (\<lambda>n. of_session ?x n \<and> n_status n = NIntended) (tinputs (terminals d))"
  note k = claim_takes [OF assms(2) sound_terms [OF assms(1)] assms(3)]
  have ok: "terms_ok db1" by (rule sound_terms [OF claim_sound [OF assms(1,2)]])
  have l: "lockTerminalSessionTx db1 p ?x = Inr u" using k(1,5,6) by (simp add: lockTerminalSessionTx_def uuidv7_params_def)
  have "claim_live wall w ?e u" using k(2-4) assms(4) by (simp add: claim_live_def unexpired_def text_of_def)
  then have "offered wall p ?x w ?e db1 = map n_input_id (sort_key n_seq (filter (\<lambda>n. of_session ?x n \<and> n_session_epoch n = ?e \<and> n_status n = NIntended)
      (tinputs (terminals db1))))"
    by (simp add: offered_def PendingTerminalInputs_def terminalClaimTx_def l)
  also have "filter (\<lambda>n. of_session ?x n \<and> n_session_epoch n = ?e \<and> n_status n = NIntended) (tinputs (terminals db1)) = ?ns db1"
  proof (rule filter_cong [OF refl])
    fix n assume n: "n \<in> set (tinputs (terminals db1))"
    then have "input_placed (sessions (terminals db1)) n" using ok by (simp add: terms_ok_def ts_ok_def)
    then obtain r where r: "r \<in> set (sessions (terminals db1))" "tm_session_id r = n_session_id n" "n_status n = NIntended \<longrightarrow> n_session_epoch n = tm_epoch r"
      by (auto simp: input_placed_def open_input_def)
    have "r = u" if "n_session_id n = ?x"
      using keyed_inj [of tm_session_id "sessions (terminals db1)" r u] r session_of_in [OF k(1)] that ok
      by (simp add: terms_ok_def ts_ok_def)
    with r show "(of_session ?x n \<and> n_session_epoch n = ?e \<and> n_status n = NIntended) = (of_session ?x n \<and> n_status n = NIntended)"
      by (auto simp: of_session_def)
  qed
  also have "map n_input_id (sort_key n_seq (?ns d)) = map fst (sort_key snd (undelivered ?x (tinputs (terminals d))))" for d :: "'a db"
    unfolding undelivered_def sort_key_map [symmetric] by (simp add: o_def)
  note this [of db1]
  also have "undelivered ?x (tinputs (terminals db1)) = undelivered ?x (tinputs (terminals db))" by (rule k(8))
  also note \<open>\<And>d. map n_input_id (sort_key n_seq (?ns d)) = map fst (sort_key snd (undelivered ?x (tinputs (terminals d))))\<close> [of db, symmetric]
  finally show ?thesis by (simp add: of_session_def)
qed

theorem takeover_offers_undelivered_witness:
  "offered 70 demo_owner demo_shell_id ''r1#2'' 2 demo_taken = [demo_key_id]"
proof -
  have "tm_session_id demo_taken_row = demo_shell_id" "tm_epoch demo_taken_row = 2"
    "filter (\<lambda>n. n_session_id n = demo_shell_id \<and> n_status n = NIntended) (tinputs (terminals demo_shell)) = [demo_key]" "n_input_id demo_key = demo_key_id"
    by (simp_all add: demo_taken_row_def demo_shell_defs)
  with takeover_offers_undelivered [OF demo_shell_sound demo_claim, of demo_taken_row 70] show ?thesis by simp
qed

text \<open>
  C16. A closed terminal stays closed: after a close was accepted, along every history the session is
  ending or over, no shell is launched for it, and no input is accepted.
\<close>

theorem closed_terminal_stays_closed:
  assumes "sound db" and "CloseTerminalSession th now wall p x cause db = Inr (db1, t)" and "db2 = run en cs db1"
  shows "\<exists>u. session_of db2 p x = Some u \<and> (tm_status u = TmEnding \<or> terminalOver (tm_status u))
    \<and> (\<exists>er. WithTerminalLaunchFence wall2 p x w e launch db2 = Inl er)
    \<and> (\<exists>er. SubmitTerminalInput now3 wall3 nid p x source kind m db2 = Inl er)"
proof -
  have "exec_term th now wall (TClose p x cause) db = Inr db1" by (simp add: exec_term_def assms(2))
  then have s1: "sound db1" by (rule term_cmd_sound [OF assms(1)])
  have "\<exists>r. session_of db1 p x = Some r \<and> (tm_status r = TmEnding \<or> terminalOver (tm_status r))"
    using assms(2)
  proof (cases rule: CloseTerminalSession_cases)
    case over
    then show ?thesis using lock_cases(1) by blast
  next
    case (asked r)
    then show ?thesis using lock_cases(1,3) [OF asked(1)] by (auto simp: session_of_def find_upd is_session_def)
  next
    case (ended r why)
    note l = lock_cases [OF ended(1)]
    have "session_of db1 p x = Some ((ended_session wall TmEnded why None [] r)\<lparr>tm_updated_at := wall\<rparr>)"
      using l unfolding session_of_def endTerminalSessionTx_eq(1) [OF ended(3)]
      by (simp add: find_upd is_session_def ended_session_def)
    then show ?thesis by (simp add: ended_session_def terminalOver_def)
  next
    case (freed r)
    then show ?thesis using lock_cases(1,3) [OF freed(1)] by (auto simp: session_of_def find_upd is_session_def)
  qed
  then obtain r where r: "session_of db1 p x = Some r" "tm_status r = TmEnding \<or> terminalOver (tm_status r)" by blast
  from session_later [OF s1 r(1)] obtain u where u: "session_of db2 p x = Some u" "sess_moved r u" unfolding assms(3) by blast
  have c: "tm_status u = TmEnding \<or> terminalOver (tm_status u)" using u(2) r(2) by (auto simp: sess_moved_def)
  have l: "lockTerminalSessionTx db2 p x = Inr y \<Longrightarrow> y = u" for y using lock_cases(1) [of db2 p x y] u(1) by simp
  have "WithTerminalLaunchFence wall2 p x w e launch db2 \<noteq> Inr y" for y
    using c by (auto simp: WithTerminalLaunchFence_def rbind_eq_Inr terminalOver_def dest!: l split: option.splits if_splits)
  moreover have "SubmitTerminalInput now3 wall3 nid p x source kind m db2 \<noteq> Inr y" for y
    using c by (auto simp: SubmitTerminalInput_def submitTerminalInputTx_def rbind_eq_Inr admits_input_def dest!: l split: if_splits)
  ultimately show ?thesis using u(1) c by (metis sumE)
qed

theorem closed_terminal_stays_closed_witness:
  "\<exists>er. SubmitTerminalInput 80 80 demo_key_id demo_owner demo_shell_id ''human'' ''eof'' []
     (run demo_desk [TermC 60 60 (TClaim demo_owner ''r1#2'' ''local'' 1000 1)]
       (set_sessions (is_session demo_owner demo_shell_id) (\<lambda>r. r\<lparr>tm_status := TmEnding, tm_updated_at := 50\<rparr>) demo_shell)) = Inl er"
proof -
  have "CloseTerminalSession demo_terms 50 50 demo_owner demo_shell_id [] demo_shell
    = Inr (set_sessions (is_session demo_owner demo_shell_id) (\<lambda>r. r\<lparr>tm_status := TmEnding, tm_updated_at := 50\<rparr>) demo_shell, demo_row\<lparr>tm_status := TmEnding\<rparr>)"
    by (simp add: CloseTerminalSession_def demo_lock(1) Let_def demo_row_def new_session_def terminalOver_def terminalClaimed_def unexpired_def)
  from closed_terminal_stays_closed [OF demo_shell_sound this refl] show ?thesis by blast
qed

text \<open>
  Terminals stay within their limits: along every history a persona has at most four live
  sessions, and a session retains at most four MiB of output.
\<close>

lemma terminals_within_limits:
  assumes "sound db"
  shows "length (live_sessions (run en cs db) p) \<le> 4 \<and> retained x (toutput (terminals (run en cs db))) \<le> 4 * 1024 * 1024"
proof -
  have "terms_ok (run en cs db)" by (rule sound_terms [OF run_sound [OF assms]])
  then have "live_count p (sessions (terminals (run en cs db))) \<le> terminalMaxSessions" "out_ok (toutput (terminals (run en cs db)))"
    by (simp_all add: terms_ok_def ts_ok_def)
  then show ?thesis
    by (simp add: live_count_def live_sessions_def out_ok_def terminalMaxSessions_def terminalScrollbackCap_def)
qed

text \<open>Only a quiet command touches the terminals.\<close>

lemma permitted_terminals: "permitted db db' \<Longrightarrow> terminals db' = terminals db \<or> quiet db db'"
  by (auto simp: permitted_def registers_def releases_def moves_def resolves_def apart_def claims_def)

lemma input_of_in: "input_of db p i = Some r \<Longrightarrow> r \<in> set (inputs db) \<and> is_input p i r"
  unfolding input_of_def by (drule find_SomeD) simp

lemma free_id: "input_of db p i = None \<Longrightarrow> r \<in> set (inputs db) \<Longrightarrow> input_key r \<noteq> (p, i)"
  by (auto simp: input_of_def find_None_iff is_input_def)

text \<open>
  C18. The end of a terminal reaches its persona: when a command, whichever it is (the runner's report, a
  close of the human, a tool call of the secretary), takes a session from open to over while the id
  \<^verbatim>\<open>terminal:<session>\<close> is free in the persona's inbox, the same transaction has stored the notice
  under that id, a queued input of kind \<^verbatim>\<open>terminal_ended\<close> to be replied to, from the session itself, and its payload
  is that of the session's final row (status, reason, exit code and signal; the host only quotes the
  session's name). After any further commands the notice is still among the inputs and still says so.
  The id has to be free: \<^verbatim>\<open>SubmitInput\<close> does not reserve this prefix, and \<open>taken_id_drops_notice\<close>
  shows what an input that took the id beforehand does.
\<close>

theorem ended_terminals_are_announced:
  assumes "sound db" and "session_of db p x = Some s" and "\<not> terminalOver (tm_status s)"
    and "session_of (exec en c db) p x = Some t" and "terminalOver (tm_status t)"
    and "input_of db p (terminalInputPrefix @ x) = None"
  shows "\<exists>th r. input_of (exec en c db) p (terminalInputPrefix @ x) = Some r \<and> i_status r = IQueued
    \<and> i_kind r = ''terminal_ended'' \<and> i_actor_kind r = ''terminal'' \<and> i_actor_id r = x \<and> i_attention r = ''reply''
    \<and> i_payload r = terminal_payload th t
    \<and> (\<forall>cs. \<exists>r' \<in> set (inputs (run en cs (exec en c db))). input_face r' = input_face r)"
proof -
  let ?d = "exec en c db" and ?i = "terminalInputPrefix @ x"
  have d: "sound ?d" by (rule permitted_sound [OF exec_permitted assms(1)])
  have "terminals ?d \<noteq> terminals db" using assms(2-5) by (auto simp: session_of_def)
  then have q: "quiet db ?d" using permitted_terminals [OF exec_permitted [of db en c]] by blast
  note t = session_of_in [OF assms(4)]
  then have "input_of ?d p ?i \<noteq> None"
    using sound_terms [OF d] assms(5) by (auto simp: terms_ok_def announced_def is_session_def)
  then obtain r where r: "input_of ?d p ?i = Some r" by blast
  then have in_r: "r \<in> set (inputs ?d)" "input_key r = (p, ?i)" using input_of_in [OF r] by (simp_all add: is_input_def)
  have "input_face r \<notin> input_face ` set (inputs db)"
  proof
    assume "input_face r \<in> input_face ` set (inputs db)"
    then obtain y where y: "y \<in> set (inputs db)" "input_face r = input_face y" by blast
    with free_id [OF assms(6) y(1)] in_r(2) face_key [OF y(2)] show False by simp
  qed
  moreover have "inbox_told db ?d" using q by (simp add: quiet_def)
  ultimately have "told ?d (input_face r)"
    using in_r sound_terms [OF assms(1)] unfolding inbox_told_def by auto
  then obtain th u where u: "u \<in> set (sessions (terminals ?d))" "input_face r = notice_face th u" unfolding told_def by blast
  have id: "tm_session_id u = x" using u(2) in_r(2) by (simp add: input_face_def notice_face_def)
  have "u = t"
    using keyed_inj [of tm_session_id "sessions (terminals ?d)" u t] u(1) t id sound_terms [OF d]
    by (simp add: terms_ok_def ts_ok_def is_session_def)
  with u(2) id have "i_kind r = ''terminal_ended'' \<and> i_actor_kind r = ''terminal'' \<and> i_actor_id r = x \<and> i_attention r = ''reply''
    \<and> i_payload r = terminal_payload th t" by (simp add: input_face_def notice_face_def)
  moreover have "i_status r = IQueued"
  proof -
    have "grows (=) queued_phase (map phase (inputs db)) (map phase (inputs ?d))" using q by (simp add: quiet_def)
    moreover have "phase r \<in> set (map phase (inputs ?d))" using in_r(1) by simp
    ultimately consider "queued_phase (phase r)" | y where "y \<in> set (inputs db)" "phase y = phase r" using grows_new by fastforce
    then show ?thesis
    proof cases
      case (2 y)
      with free_id [OF assms(6) 2(1)] in_r(2) show ?thesis by (simp add: phase_def)
    qed (simp add: queued_phase_def phase_def)
  qed
  moreover have "\<exists>r' \<in> set (inputs (run en cs ?d)). input_face r' = input_face r" for cs
    using faces_kept_in [OF _ in_r(1)] hist.reach_R [OF run_reach [of en ?d cs]] by (simp add: history_kept_def)
  ultimately show ?thesis using r by blast
qed

theorem ended_terminals_are_announced_witness:
  "\<exists>r. input_of (exec demo_desk (TermC 50 50 (TReport demo_owner demo_shell_id ''r1'' 1 ''ended'' ''exit'' (Some 0) [] [])) demo_shell)
     demo_owner (terminalInputPrefix @ demo_shell_id) = Some r \<and> i_kind r = ''terminal_ended'' \<and> i_actor_id r = demo_shell_id"
proof -
  let ?c = "TermC 50 50 (TReport demo_owner demo_shell_id ''r1'' 1 ''ended'' ''exit'' (Some 0) [] [])"
  have "case_option False (\<lambda>t. terminalOver (tm_status t)) (session_of (exec demo_desk ?c demo_shell) demo_owner demo_shell_id)"
    "case_option False (\<lambda>t. \<not> terminalOver (tm_status t)) (session_of demo_shell demo_owner demo_shell_id)"
    "input_of demo_shell demo_owner (terminalInputPrefix @ demo_shell_id) = None" by code_simp+
  then obtain s t where "session_of demo_shell demo_owner demo_shell_id = Some s" "\<not> terminalOver (tm_status s)"
    "session_of (exec demo_desk ?c demo_shell) demo_owner demo_shell_id = Some t" "terminalOver (tm_status t)"
    "input_of demo_shell demo_owner (terminalInputPrefix @ demo_shell_id) = None"
    by (auto split: option.splits simp del: exec.simps)
  from ended_terminals_are_announced [OF demo_shell_sound this] show ?thesis by blast
qed

text \<open>
  An input that holds the id when the session ends takes the place of the notice: nothing is stored,
  and the transaction succeeds all the same. Any caller can submit such an input.
\<close>

lemma taken_id_drops_notice:
  assumes "endTerminalSessionTx th now wall t s why code signal db = Inr (db', t')"
    "input_of db (tm_persona_id t) (terminalInputPrefix @ tm_session_id t) \<noteq> None"
  shows "inputs db' = inputs db"
  using endTerminalSessionTx_eq(5) [OF assms(1)] assms(2) by simp

lemma notice_id_is_not_reserved:
  "isl (SubmitInput 40 (demo_submit\<lparr>sr_persona_id := demo_owner, sr_input_id := terminalInputPrefix @ demo_shell_id\<rparr>) demo_shell) = False"
  by code_simp

text \<open>The end of a session clears its claim, so the runner that resends its report is refused.\<close>

lemma resent_end_refused:
  assumes "terms_ok db" "status = ''ended'' \<or> status = ''lost''"
    "ReportTerminalStatus th now wall p x w e status cause code signal opid db = Inr (db1, u, t)"
  shows "ReportTerminalStatus th now2 wall2 p x w e status cause code signal opid db1 = Inl ErrTerminalNotClaimed"
proof -
  from assms(2) obtain s where s: "report_status status = Some s" "s \<noteq> TmActive" "terminalOver s"
    by (auto simp: report_status_def terminalOver_def)
  with assms(3) obtain t0 v where l: "lockTerminalSessionTx db p x = Inr t0" "lockTerminalSessionTx db1 p x = Inr t"
    and e: "endTerminalSessionTx th now wall t0 s cause code signal db = Inr (db1, v)"
    unfolding ReportTerminalStatus_def by (simp, elim terminalClaimTx_cases) (auto simp: rbind_eq_Inr)
  have "t \<in> set (sessions (terminals db1))" "is_session p x t" using lock_cases(2,3) [OF l(2)] by simp_all
  then have "terminalOver (tm_status t)"
    using lock_cases(4,5) [OF l(1)] s(3) unfolding endTerminalSessionTx_eq(1) [OF e]
    by (auto simp: set_upd ended_session_def split: if_splits)
  then have "\<not> claim_live wall2 w e' t" for e' by (auto simp: claim_live_def status_defs)
  with l(2) s show ?thesis by (simp add: ReportTerminalStatus_def terminalClaimTx_def)
qed

section \<open>Output a claim cannot record\<close>

lemma json_text_nul: "NUL \<in> set s \<Longrightarrow> NUL \<in> set (json_text s)"
proof -
  assume "NUL \<in> set s"
  then obtain r where r: "r \<in> set (runes s)" "NUL \<in> set r" using concat_runes [of s] by (metis UN_E set_concat)
  let ?f = "\<lambda>r. case r of [c] \<Rightarrow> if 128 \<le> (of_char c :: nat) then map char_of [0xEF, 0xBF, 0xBD :: nat] else r | _ \<Rightarrow> r"
  have "NUL \<in> set (?f r)" using r(2) by (cases r; cases "tl r") auto
  with r(1) show ?thesis unfolding json_text_def by (auto simp del: list.case)
qed

lemma read_response_unstorable:
  assumes "k \<in> set ks" "k_kind k = OutData" "NUL \<in> set (k_data k)"
  shows "\<not> storable (JObj (read_response ft t cursor evc ks))"
proof -
  have "NUL \<in> set (concat (map chunk_text ks))" using assms by (auto simp: chunk_text_def)
  then have "NUL \<in> set (json_text (concat (map chunk_text ks)))" by (rule json_text_nul)
  then show ?thesis by (simp add: read_response_def Let_def)
qed

text \<open>
  Output with a NUL byte cannot be read by the secretary: a fresh claim of \<^verbatim>\<open>terminal.read\<close> whose page
  holds a data chunk with a NUL byte is refused, since the response repeats the bytes as text and no
  jsonb column takes it.
\<close>

lemma read_of_nul_is_refused:
  assumes "o_tool op = ''terminal.read''" and "deniedIdenticalCall db p (cx_input cx) (o_tool op) (o_request op) = None"
    and "x = str_field (o_request op) ''session_id''" and "lockTerminalSessionTx db p x = Inr s"
    and "read_chunks db x (tool_cursor (o_request op) s) (int_field (o_request op) ''event_cursor'' 0)
      (read_limit (int_field (o_request op) ''limit'' 32)) = Inr ks"
    and "k \<in> set ks" and "k_kind k = OutData" and "NUL \<in> set (k_data k)"
  shows "\<exists>er. claim_fresh st now clock p t gen cx op db = Inl er"
proof (rule ccontr)
  assume "\<nexists>er. claim_fresh st now clock p t gen cx op db = Inl er"
  moreover have n: "\<not> elevatedOnlyTool (o_tool op)" unfolding assms(1) by code_simp
  ultimately obtain r where "claim_fresh st now clock p t gen cx op db = Inr r" by (cases "claim_fresh st now clock p t gen cx op db") auto
  then obtain db1 where j: "journalExperienceTx (st_fmt_time st) p t (cx_input cx) (decided (cx_pos cx)) db = Inr db1"
    and c: "(case internalToolResponse st now clock p t (cx_input cx) (o_tool op) (cx_index cx) (o_idempotency_key op) (o_request op) db1 of
        Ran db2 resp True \<Rightarrow>
          rbind (finish_op now (\<lambda>x. is_op p (o_operation_id op) x \<and> o_claimed_generation x = gen) ODone resp db2)
            (\<lambda>(db3, op'). journal_claim st p t cx op' None None True db3)
      | Ran _ _ False \<Rightarrow> Inl (ErrBadRequest (o_tool op @ '' has no registered effect to run''))
      | Refused e _ \<Rightarrow> Inl e | Aborted e \<Rightarrow> Inl e) = Inr r"
    using n assms(2) by (simp add: claim_fresh_def rbind_eq_Inr) blast
  have tm: "terminals db1 = terminals db" using journalExperienceTx_ledger(2) [OF j] by (simp add: effect_state_def)
  have l: "lockTerminalSessionTx db1 p x = Inr s" using assms(4) by (simp add: lockTerminalSessionTx_def session_of_def tm)
  have rc: "read_chunks db1 = read_chunks db" by (simp add: read_chunks_def tm fun_eq_iff)
  have x: "x \<noteq> []" using lock_cases(7) [OF assms(4)] by (auto simp: uuidv7_match_def)
  have "internalToolResponse st now clock p t (cx_input cx) (o_tool op) (cx_index cx) (o_idempotency_key op) (o_request op) db1
    = Ran db1 (Some (read_response (st_fmt_time st) s (tool_cursor (o_request op) s) (int_field (o_request op) ''event_cursor'' 0) ks)) True"
    using assms(1,5) l x
    by (simp add: internalToolResponse_def internalTerminalTool_def terminal_read_def with_session_def rc assms(3) [symmetric] Let_def)
  with c read_response_unstorable [OF assms(6-8)] show False
    by (auto simp: finish_op_def rbind_eq_Inr res_simps)
qed

text \<open>A shell that printed a NUL byte, and a claim to read it.\<close>

definition demo_binary :: "unit db" where
  "demo_binary = demo_shell\<lparr>terminals := (terminals demo_shell)\<lparr>toutput := [new_output 40 demo_shell_id 1 OutData 0 None [NUL]]\<rparr>\<rparr>"

end
