(* ===== verification/Memory_Context.thy ===== *)
theory Memory_Context
  imports Branch_Ledger
begin

text \<open>
  What the memory layer's operations mean: the rendered context holds each journal event once, a
  sealed range keeps calls with their results and rounds whole, replacements are put in place only
  while the live estimate is over its limit, and a snapshot covers a range exactly when its ranges
  tile it.
\<close>

section \<open>The rendered context\<close>

lemma one_event_at:
  assumes "gapless db p" "1 \<le> s" "s \<le> last_seq db p"
  shows "\<exists>e. filter (\<lambda>e. e_seq e = s) (events_of db p) = [e]"
proof -
  have m: "map e_seq (events_of db p) = [1..<Suc (last_seq db p)]"
    using assms(1) gapless_last_seq [OF assms(1)] by (simp only: events_of_def gapless_def)
  have "length (filter (\<lambda>e. e_seq e = s) (events_of db p)) = length (filter (\<lambda>n. n = s) (map e_seq (events_of db p)))"
    by (simp add: filter_map o_def)
  also have "\<dots> = card (set (filter (\<lambda>n. n = s) [1..<Suc (last_seq db p)]))" unfolding m by (rule distinct_card [symmetric]) simp
  also have "set (filter (\<lambda>n. n = s) [1..<Suc (last_seq db p)]) = {s}" using assms(2,3) by auto
  finally show ?thesis by (cases "filter (\<lambda>e. e_seq e = s) (events_of db p)") auto
qed

lemma mem_ok_chunk:
  assumes "mem_ok db" "c \<in> set (chunks db)"
  shows "1 \<le> mc_first_seq c" "mc_first_seq c \<le> mc_last_seq c" "mc_last_seq c \<le> last_seq db (mc_persona_id c)" "texted c"
  using assms by (auto simp: mem_ok_def shelf_ok_def wf_frag_def list_all_iff ends_by_def)

text \<open>The joins of \<open>appliedRows\<close> find one event at either end of every applied chunk.\<close>

lemma appliedRows_eq:
  assumes "mem_ok db"
  shows "appliedRows db p = sort_key mc_first_seq (filter (\<lambda>c. mc_status c = CApplied) (chunks_of db p))"
proof -
  let ?j = "\<lambda>c. concat (map (\<lambda>f. map (\<lambda>l. c) (filter (\<lambda>l. e_seq l = mc_last_seq c) (events_of db p)))
       (filter (\<lambda>f. e_seq f = mc_first_seq c) (events_of db p)))"
  have one: "?j c = [c]" if "c \<in> set (chunks_of db p)" for c
  proof -
    have c: "c \<in> set (chunks db)" "mc_persona_id c = p" using that by (auto simp: chunks_of_def)
    note b = mem_ok_chunk [OF assms c(1), unfolded c(2)]
    from one_event_at [OF mem_okD(3) [OF assms] b(1), of p] b(2,3) obtain f where
      "filter (\<lambda>f. e_seq f = mc_first_seq c) (events_of db p) = [f]" by auto
    moreover from one_event_at [OF mem_okD(3) [OF assms], of "mc_last_seq c" p] b obtain l where
      "filter (\<lambda>l. e_seq l = mc_last_seq c) (events_of db p) = [l]" by auto
    ultimately show ?thesis by simp
  qed
  have "concat (map ?j (filter (\<lambda>c. mc_status c = CApplied) cs)) = filter (\<lambda>c. mc_status c = CApplied) cs" if "set cs \<subseteq> set (chunks_of db p)" for cs
    using that one by (induction cs) auto
  then show ?thesis unfolding appliedRows_def by simp
qed

definition block_at :: "chunk_row \<Rightarrow> memory_block" where
  "block_at c = \<lparr>mb_chunk_seq = mc_chunk_seq c, mb_layer = mc_layer c, mb_first_seq = mc_first_seq c,
     mb_last_seq = mc_last_seq c, mb_text = the (mc_replacement c), mb_est_tokens = the (mc_replacement_est_tokens c)\<rparr>"

lemma scan_blocks_eq:
  "\<forall>c \<in> set cs. mc_replacement c \<noteq> None \<and> mc_replacement_est_tokens c \<noteq> None \<Longrightarrow> scan_blocks cs = Inr (map block_at cs)"
  by (induction cs) (auto simp: block_of_def block_at_def)

lemma renderedContext_eq:
  assumes "mem_ok db"
  shows "renderedContext db p i = Inr \<lparr>rc_events = rawEvents db p i,
    rc_memory = map block_at (sort_key mc_first_seq (filter (\<lambda>c. mc_status c = CApplied) (chunks_of db p)))\<rparr>"
proof -
  have "mc_replacement c \<noteq> None \<and> mc_replacement_est_tokens c \<noteq> None" if "c \<in> set (appliedRows db p)" for c
    using mem_ok_chunk(4) [OF assms] appliedRows_in [OF that] by (auto simp: chunks_of_def texted_def)
  then show ?thesis
    using scan_blocks_eq [of "appliedRows db p"] by (simp add: renderedContext_def appliedBlocks_def appliedRows_eq [OF assms])
qed

lemma count_one: "distinct xs \<Longrightarrow> \<exists>!x. x \<in> set xs \<and> P x \<Longrightarrow> length (filter P xs) = 1"
proof -
  assume d: "distinct xs" and u: "\<exists>!x. x \<in> set xs \<and> P x"
  from u obtain x where "set (filter P xs) = {x}" by auto
  with distinct_card [of "filter P xs"] d show ?thesis by simp
qed

lemma ex1_unique: "\<exists>!x. P x \<Longrightarrow> P x \<Longrightarrow> P y \<Longrightarrow> x = y"
  by blast

lemma covers_ext: "covers_seq s c \<longleftrightarrow> s \<in> ext (frag_of c)"
  by (simp add: covers_seq_def ext_def)

text \<open>A represented position is in exactly one applied chunk, and no other position is in any.\<close>

lemma applied_once:
  assumes "mem_ok db"
  shows "length (filter (covers_seq s) (filter (\<lambda>c. mc_status c = CApplied) (chunks_of db p))) = (if represented db p s then 1 else 0)"
proof (cases "represented db p s")
  case True
  then obtain c where c: "c \<in> set (chunks db)" "mc_persona_id c = p" "mc_status c \<in> {CApplied, CSuperseded}" "covers_seq s c"
    by (auto simp: represented_def list_ex_iff chunks_of_def)
  then have "frag_of c \<in> set (map frag_of (chunks db))" "fr_stand (frag_of c) \<noteq> Raw" by auto
  from represented_once [OF mem_okD(2) [OF assms] this(1) _ this(2), of p s] c
  have u: "\<exists>!g. g \<in> set (map frag_of (chunks db)) \<and> fr_persona g = p \<and> fr_stand g = Shown \<and> s \<in> ext g"
    by (simp add: covers_ext)
  have k: "keyed chunk_key (chunks db)" by (rule mem_okD(1) [OF assms])
  have "\<exists>!d. d \<in> set (filter (\<lambda>c. mc_status c = CApplied) (chunks_of db p)) \<and> covers_seq s d"
  proof -
    from u obtain g where g: "g \<in> frag_of ` set (chunks db)" "fr_persona g = p" "fr_stand g = Shown" "s \<in> ext g" by auto
    then obtain d where d: "d \<in> set (chunks db)" "g = frag_of d" by blast
    show ?thesis
    proof (rule ex1I [of _ d])
      show "d \<in> set (filter (\<lambda>c. mc_status c = CApplied) (chunks_of db p)) \<and> covers_seq s d"
        using d g by (simp add: chunks_of_def stand_of_iff covers_ext)
    next
      fix e assume e: "e \<in> set (filter (\<lambda>c. mc_status c = CApplied) (chunks_of db p)) \<and> covers_seq s e"
      then have e': "e \<in> set (chunks db)" "mc_persona_id e = p" "fr_stand (frag_of e) = Shown" "s \<in> ext (frag_of e)"
        by (simp_all add: chunks_of_def covers_ext)
      then have "frag_of e \<in> set (map frag_of (chunks db)) \<and> fr_persona (frag_of e) = p \<and> fr_stand (frag_of e) = Shown \<and> s \<in> ext (frag_of e)" by simp
      moreover have "frag_of d \<in> set (map frag_of (chunks db)) \<and> fr_persona (frag_of d) = p \<and> fr_stand (frag_of d) = Shown \<and> s \<in> ext (frag_of d)"
        using d g by simp
      ultimately have "frag_of e = frag_of d" by (rule ex1_unique [OF u])
      then have "fr_key (frag_of e) = fr_key (frag_of d)" by (rule arg_cong)
      then have "chunk_key e = chunk_key d" by (simp only: frag_of_simps)
      then show "e = d" by (rule keyed_inj [OF k e'(1) d(1)])
    qed
  qed
  moreover have "distinct (chunks_of db p)" using k unfolding keyed_def chunks_of_def by (metis distinct_filter distinct_map)
  then have "distinct (filter (\<lambda>c. mc_status c = CApplied) (chunks_of db p))" by simp
  ultimately show ?thesis unfolding if_P [OF True] by (rule count_one [rotated])
next
  case False
  then show ?thesis by (auto simp: represented_def list_ex_iff filter_empty_conv)
qed

definition shows_seq :: "nat \<Rightarrow> memory_block \<Rightarrow> bool" where
  "shows_seq s b \<longleftrightarrow> mb_first_seq b \<le> s \<and> s \<le> mb_last_seq b"

lemma shows_block [simp]: "shows_seq s (block_at c) = covers_seq s c"
  by (simp add: shows_seq_def block_at_def covers_seq_def)

lemma length_filter_sort: "length (filter P (sort_key f xs)) = length (filter P xs)"
  by (simp add: filter_sort)

lemma raw_count:
  assumes "gapless db p" "e \<in> set (events_of db p)"
  shows "length (filter (\<lambda>x. x = e) (rawEvents db p i)) = (if represented db p (e_seq e) \<or> of_input db p i e then 0 else 1)"
proof -
  have d: "distinct (events_of db p)"
    using assms(1) by (metis events_of_def gapless_def distinct_map distinct_upt)
  have "length (filter (\<lambda>x. x = e) (rawEvents db p i))
      = length (filter (\<lambda>x. x = e \<and> \<not> represented db p (e_seq e) \<and> \<not> of_input db p i e) (events_of db p))"
    unfolding rawEvents_def length_filter_sort by (auto intro!: arg_cong [where f = length] filter_cong)
  also have "\<dots> = (if represented db p (e_seq e) \<or> of_input db p i e then 0 else 1)"
    using count_one [OF d, of "\<lambda>x. x = e"] assms(2) by auto
  finally show ?thesis .
qed

section \<open>Sealing\<close>

lemma sealed_big:
  "list_all (\<lambda>(a, z, est). L0ChunkMinTokens \<le> est) (wk_sealed (foldl (\<lambda>w e. walk_step mh ends e w) walk0 es))"
proof (induction es rule: rev_induct)
  case Nil
  show ?case by (simp add: walk0_def)
next
  case (snoc e es)
  let ?w = "foldl (\<lambda>w e. walk_step mh ends e w) walk0 es"
  have "L0ChunkMinTokens \<le> wk_est ?w" if "cuts e ?w"
    using that by (auto simp: cuts_def L0ChunkMinTokens_def L0ForcedSealLimitTokens_def split: if_splits)
  with snoc show ?case by (simp add: walk_step_def Let_def seal_window_def)
qed

text \<open>The events before a safe cut hold their rounds and those after it theirs.\<close>

lemma cut_rounds:
  assumes "cut_safe mh (roundEnds mh (us @ vs)) (us @ vs) (length us)" "sorted_wrt (<) (map e_seq (us @ vs))"
    "e \<in> set us" "f \<in> set vs" "roundKey mh e \<noteq> []"
  shows "roundKey mh f \<noteq> roundKey mh e"
proof
  assume k: "roundKey mh f = roundKey mh e"
  have so: "sorted (map e_seq (us @ vs))" by (rule strict_sorted_imp_sorted [OF assms(2)])
  from roundEnds_ge [OF so, of f mh] assms(4,5) k obtain n where
    n: "roundEnds mh (us @ vs) (roundKey mh e) = Some n" "e_seq f \<le> n" by auto
  from assms(4) obtain v rest where v: "vs = v # rest" by (cases vs) auto
  have "n < e_seq v" using assms(1,3,5) n(1) v by (auto simp: cut_safe_def)
  moreover have "e_seq v \<le> e_seq f" using assms(2,4) v by (auto simp: sorted_wrt_append)
  ultimately show False using n(2) by simp
qed

text \<open>A call of the window is answered in it, and a round with an event in it lies in it.\<close>

definition window_whole :: "mem_host \<Rightarrow> event_row list \<Rightarrow> event_row list \<Rightarrow> bool" where
  "window_whole mh es w \<longleftrightarrow>
     (\<forall>as e bs x. w = as @ e # bs \<and> e_kind e = ''tool_call'' \<and> call_id e = Some x \<and> x \<noteq> []
        \<longrightarrow> (\<exists>r \<in> set bs. e_kind r = ''tool_result'' \<and> call_id r = Some x))
     \<and> (\<forall>e \<in> set w. \<forall>f \<in> set es. roundKey mh e \<noteq> [] \<longrightarrow> roundKey mh f = roundKey mh e \<longrightarrow> f \<in> set w)"

lemma safe_window_whole:
  assumes es: "es = us @ w @ vs" and s: "sorted_wrt (<) (map e_seq es)"
    and before: "us = [] \<or> cut_safe mh (roundEnds mh es) es (length us)"
    and after: "cut_safe mh (roundEnds mh es) es (length (us @ w))"
  shows "window_whole mh es w"
  unfolding window_whole_def
proof (intro conjI allI impI ballI)
  fix as e bs x
  assume a: "w = as @ e # bs \<and> e_kind e = ''tool_call'' \<and> call_id e = Some x \<and> x \<noteq> []"
  have p: "pending_calls (us @ w) = []" using after by (simp add: cut_safe_def es)
  show "\<exists>r \<in> set bs. e_kind r = ''tool_result'' \<and> call_id r = Some x"
    by (rule call_answered [OF p, where us = "us @ as" and e = e]) (use a in auto)
next
  fix e f assume e: "e \<in> set w" and f: "f \<in> set es" and k: "roundKey mh e \<noteq> []" "roundKey mh f = roundKey mh e"
  have "f \<notin> set vs"
  proof
    assume "f \<in> set vs"
    then show False using cut_rounds [of mh "us @ w" vs e f] after s e k by (simp add: es)
  qed
  moreover have "f \<notin> set us"
  proof
    assume u: "f \<in> set us"
    with before have "cut_safe mh (roundEnds mh es) es (length us)" by auto
    then show False using cut_rounds [of mh us "w @ vs" f e] s e k u by (simp add: es)
  qed
  ultimately show "f \<in> set w" using f by (auto simp: es)
qed

lemma unsealed_sorted: "gapless db p \<Longrightarrow> sorted_wrt (<) (map e_seq (unsealedTail db p s))"
  by (simp add: unsealedTail_eq events_sorted)

lemma sealed_windows:
  assumes "gapless db p"
  defines "es \<equiv> unsealedTail db p (coveredSeq db p)"
  obtains ws live where "es = concat ws @ live" "[] \<notin> set ws" "wk_sealed (seal_walk mh es) = map (window_range mh) ws"
    "wk_est (seal_walk mh es) = window_est mh live" "\<forall>w \<in> set ws. L0ChunkMinTokens \<le> window_est mh w \<and> window_whole mh es w"
proof -
  obtain ws where inv: "walk_inv mh (roundEnds mh es) es ws (seal_walk mh es)" by (rule seal_walk_inv)
  let ?live = "wk_window (seal_walk mh es)"
  have es: "es = concat ws @ ?live" and sl: "wk_sealed (seal_walk mh es) = map (window_range mh) ws" and ne: "[] \<notin> set ws"
    and est: "wk_est (seal_walk mh es) = window_est mh ?live"
    using inv by (simp_all add: walk_inv_def)
  have so: "sorted_wrt (<) (map e_seq es)" unfolding es_def by (rule unsealed_sorted [OF assms(1)])
  have safe: "cut_safe mh (roundEnds mh es) es (length (concat us @ v))" if "ws = us @ v # vs" for us v vs
    using inv that unfolding walk_inv_def by blast
  have "L0ChunkMinTokens \<le> window_est mh w \<and> window_whole mh es w" if w: "w \<in> set ws" for w
  proof
    have "list_all (\<lambda>(a, z, est). L0ChunkMinTokens \<le> est) (map (window_range mh) ws)"
      unfolding sl [symmetric] seal_walk_def by (rule sealed_big)
    with w show "L0ChunkMinTokens \<le> window_est mh w" by (auto simp: list_all_iff window_range_def)
    from w obtain us vs where u: "ws = us @ w # vs" by (auto dest: split_list)
    have "concat us = [] \<or> cut_safe mh (roundEnds mh es) es (length (concat us))"
    proof (cases us rule: rev_cases)
      case (snoc us' v)
      with u have "ws = us' @ v # w # vs" by simp
      from safe [OF this] show ?thesis by (simp add: snoc)
    qed simp
    moreover have "es = concat us @ w @ (concat vs @ ?live)" by (subst es) (simp add: u)
    ultimately show "window_whole mh es w"
      using so safe [OF u] by (intro safe_window_whole [of es "concat us" w "concat vs @ ?live"]) simp_all
  qed
  with es ne sl est show thesis by (intro that) auto
qed

section \<open>Pressure\<close>

text \<open>The layer-one rows whose events still render.\<close>

definition live_rows :: "'d db \<Rightarrow> string \<Rightarrow> chunk_row list" where
  "live_rows db p = filter chunk_live (chunks_of db p)"

abbreviation leaf :: "nat \<Rightarrow> bool" where
  "leaf \<equiv> \<lambda>l. l = 1"

lemma prepared_live: "preparedChunks db p leaf = sort_key mc_chunk_seq (filter (\<lambda>c. mc_status c = CPrepared) (live_rows db p))"
  unfolding preparedChunks_def live_rows_def filter_filter
  by (rule arg_cong [where f = "sort_key mc_chunk_seq"], rule filter_cong) (auto simp: chunk_live_def)

lemma live_tokens: "liveChunkTokens db p = sum_list (map mc_est_tokens (live_rows db p))"
  by (simp add: liveChunkTokens_def live_rows_def)

lemma prepared_unique:
  assumes "keyed chunk_key (chunks db)" "c \<in> set (chunks db)" "mc_persona_id c = p" "mc_status c = CPrepared" "d \<in> set (chunks db)"
  shows "prepared_in p (mc_chunk_seq c) d \<longleftrightarrow> d = c"
proof
  assume "prepared_in p (mc_chunk_seq c) d"
  then have "chunk_key d = chunk_key c" using assms(3) by (simp add: prepared_in_def)
  then show "d = c" by (rule keyed_inj [OF assms(1,5,2)])
qed (use assms in \<open>simp add: prepared_in_def\<close>)

lemma apply_chunk_live:
  assumes k: "keyed chunk_key (chunks db)" and c: "c \<in> set (chunks db)" "mc_persona_id c = p" "mc_status c = CPrepared"
  shows "live_rows (apply_chunk now p (mc_chunk_seq c) db) p = filter (\<lambda>d. d \<noteq> c) (live_rows db p)"
proof -
  have "filter chunk_live (filter (\<lambda>d. mc_persona_id d = p) (upd (prepared_in p (mc_chunk_seq c)) (\<lambda>c. c\<lparr>mc_status := CApplied, mc_applied_at := Some now\<rparr>) cs))
      = filter (\<lambda>d. d \<noteq> c) (filter chunk_live (filter (\<lambda>d. mc_persona_id d = p) cs))" if "set cs \<subseteq> set (chunks db)" for cs
    using that
  proof (induction cs)
    case (Cons d cs)
    then have "prepared_in p (mc_chunk_seq c) d \<longleftrightarrow> d = c" using prepared_unique [OF k c] by auto
    with Cons show ?case by (auto simp: chunk_live_def)
  qed simp
  then show ?thesis by (simp add: live_rows_def chunks_of_def apply_chunk_def)
qed

lemma sum_list_without:
  assumes "distinct xs" "x \<in> set xs"
  shows "sum_list (map f (filter (\<lambda>y. y \<noteq> x) xs)) = sum_list (map f xs) - (f x :: int)"
proof -
  have "set (filter (\<lambda>y. y \<noteq> x) xs) = set xs - {x}" by auto
  with assms show ?thesis by (simp add: sum_list_distinct_conv_sum_set sum_diff1 del: set_filter)
qed

text \<open>
  The loop puts the shortest run of the oldest prepared leaves in place that brings the estimate
  under the limit, or all of them.
\<close>

definition relieved :: "chunk_row list \<Rightarrow> int \<Rightarrow> nat \<Rightarrow> bool" where
  "relieved ps live n \<longleftrightarrow> n \<le> length ps
     \<and> (n < length ps \<longrightarrow> live - sum_list (map mc_est_tokens (take n ps)) \<le> L0LiveLimitTokens)
     \<and> (\<forall>m < n. L0LiveLimitTokens < live - sum_list (map mc_est_tokens (take m ps)))"

lemma relieved_Cons:
  assumes "L0LiveLimitTokens < live" "relieved ps (live - mc_est_tokens c) n"
  shows "relieved (c # ps) live (Suc n)"
proof -
  have "L0LiveLimitTokens < live - sum_list (map mc_est_tokens (take m (c # ps)))" if "m < Suc n" for m
    using that assms by (cases m) (auto simp: relieved_def diff_diff_eq)
  with assms(2) show ?thesis by (simp add: relieved_def diff_diff_eq)
qed

definition put_in_place :: "timestamp \<Rightarrow> chunk_row \<Rightarrow> chunk_row" where
  "put_in_place now c = c\<lparr>mc_status := CApplied, mc_applied_at := Some now\<rparr>"

lemma apply_chunk_rows:
  assumes "keyed chunk_key (chunks db)" "c \<in> set (chunks db)" "mc_persona_id c = p" "mc_status c = CPrepared"
  shows "chunks (apply_chunk now p (mc_chunk_seq c) db) = upd (\<lambda>d. d = c) (put_in_place now) (chunks db)"
  using prepared_unique [OF assms] by (auto simp: apply_chunk_def upd_def put_in_place_def)

lemma apply_prepared_relieves:
  assumes "keyed chunk_key (chunks db)" "preparedChunks db p leaf = ps"
  shows "\<exists>n. relieved ps live n \<and> preparedChunks (apply_prepared now p ps live db) p leaf = drop n ps
    \<and> liveChunkTokens (apply_prepared now p ps live db) p = liveChunkTokens db p - sum_list (map mc_est_tokens (take n ps))
    \<and> chunks (apply_prepared now p ps live db) = upd (\<lambda>c. c \<in> set (take n ps)) (put_in_place now) (chunks db)"
  using assms
proof (induction ps arbitrary: live db)
  case Nil
  then show ?case by (intro exI [of _ 0]) (simp add: relieved_def upd_id)
next
  case (Cons c ps)
  show ?case
  proof (cases "live \<le> L0LiveLimitTokens")
    case True
    with Cons.prems(2) show ?thesis by (intro exI [of _ 0]) (simp add: relieved_def upd_id)
  next
    case False
    let ?d = "apply_chunk now p (mc_chunk_seq c) db"
    have c: "c \<in> set (chunks db)" "mc_persona_id c = p" "mc_status c = CPrepared" "c \<in> set (live_rows db p)" "distinct (c # ps)"
    proof -
      have "c \<in> set (preparedChunks db p leaf)" unfolding Cons.prems(2) by simp
      then show "c \<in> set (live_rows db p)" "mc_status c = CPrepared" unfolding prepared_live by auto
      then show "c \<in> set (chunks db)" "mc_persona_id c = p" by (auto simp: live_rows_def chunks_of_def)
      show "distinct (c # ps)" using preparedChunks_rows(2) [OF Cons.prems(1), of p leaf] unfolding Cons.prems(2) .
    qed
    note lv = apply_chunk_live [OF Cons.prems(1) c(1-3), of now]
    have dl: "distinct (live_rows db p)"
      using Cons.prems(1) unfolding keyed_def live_rows_def chunks_of_def by (metis distinct_filter distinct_map)
    have "preparedChunks ?d p leaf = filter (\<lambda>d. d \<noteq> c) (preparedChunks db p leaf)"
      unfolding prepared_live lv by (simp add: filter_sort conj_commute)
    then have ps: "preparedChunks ?d p leaf = ps" unfolding Cons.prems(2) using c(5) by (auto simp: filter_id_conv)
    have lt: "liveChunkTokens ?d p = liveChunkTokens db p - mc_est_tokens c"
      unfolding live_tokens lv by (rule sum_list_without [OF dl c(4)])
    have k: "keyed chunk_key (chunks ?d)" using Cons.prems(1) by (simp add: apply_chunk_def keyed_def map_upd_key)
    from Cons.IH [OF k ps, of "live - mc_est_tokens c"] obtain n where n: "relieved ps (live - mc_est_tokens c) n"
      "preparedChunks (apply_prepared now p ps (live - mc_est_tokens c) ?d) p leaf = drop n ps"
      "liveChunkTokens (apply_prepared now p ps (live - mc_est_tokens c) ?d) p = liveChunkTokens ?d p - sum_list (map mc_est_tokens (take n ps))"
      "chunks (apply_prepared now p ps (live - mc_est_tokens c) ?d) = upd (\<lambda>c. c \<in> set (take n ps)) (put_in_place now) (chunks ?d)"
      by blast
    have "mc_status d = CPrepared" if "d \<in> set (take n ps)" for d
      using preparedChunks_rows(1) [OF k, of p leaf] in_set_takeD [OF that] unfolding ps by blast
    then have "put_in_place now c \<notin> set (take n ps)" by (force simp: put_in_place_def)
    then have "upd (\<lambda>c. c \<in> set (take n ps)) (put_in_place now) (chunks ?d)
        = upd (\<lambda>d. d \<in> set (take (Suc n) (c # ps))) (put_in_place now) (chunks db)"
      unfolding apply_chunk_rows [OF Cons.prems(1) c(1-3)] by (auto simp: upd_def)
    with n False lt relieved_Cons [OF _ n(1)] show ?thesis by (intro exI [of _ "Suc n"]) simp
  qed
qed

text \<open>
  An upper target put in place takes its sources out of the context: a leaf in place before is then
  superseded, unchanged otherwise, under a target over it. No other leaf changes.
\<close>

definition folded_under :: "chunk_row list \<Rightarrow> chunk_row \<Rightarrow> bool" where
  "folded_under cs c = list_ex (\<lambda>t. mc_persona_id t = mc_persona_id c \<and> 2 \<le> mc_layer t \<and> mc_status t \<in> {CApplied, CSuperseded}
     \<and> mc_chunk_seq c \<in> set (sources_of t)) cs"

definition leaf_stands :: "chunk_row list \<Rightarrow> chunk_row \<Rightarrow> bool" where
  "leaf_stands cs c \<longleftrightarrow> c \<in> set cs \<or> mc_status c = CApplied \<and> c\<lparr>mc_status := CSuperseded\<rparr> \<in> set cs \<and> folded_under cs c"

lemma folded_under_step:
  assumes "folded_under cs c" "mem_step b cs ds"
  shows "folded_under ds c"
proof -
  from assms(1) obtain t where t: "t \<in> set cs" "mc_persona_id t = mc_persona_id c" "2 \<le> mc_layer t" "mc_status t \<in> {CApplied, CSuperseded}"
    "mc_chunk_seq c \<in> set (sources_of t)" by (auto simp: folded_under_def list_ex_iff)
  have "grows chunk_moved (ends_by b) cs ds" using assms(2) by (simp add: mem_step_def)
  from grows_old [OF this t(1)] obtain t' where m: "t' \<in> set ds" "chunk_moved t t'" by blast
  then have "mc_persona_id t' = mc_persona_id t" "mc_layer t' = mc_layer t" "sources_of t' = sources_of t" "mc_status t' \<in> {CApplied, CSuperseded}"
    using t(4) by (auto simp: chunk_moved_def chunk_cols_def sources_of_def)
  with m(1) t show ?thesis by (auto simp: folded_under_def list_ex_iff)
qed

lemma applyUpperTarget_leaf:
  assumes "keyed chunk_key (chunks db)" "t \<in> set (chunks db)" "mc_persona_id t = p" "mc_status t = CPrepared" "2 \<le> mc_layer t"
    "applyUpperTarget now p t db = Inr db'" "c \<in> set (chunks db)" "mc_layer c = 1"
  shows "leaf_stands (chunks db') c"
  using assms(6)
proof (cases rule: applyUpperTarget_cases)
  case failed
  have "\<not> prepared_in p (mc_chunk_seq t) c" using prepared_unique [OF assms(1-4,7)] assms(5,8) by auto
  with failed assms(7) show ?thesis by (auto simp: leaf_stands_def fail_target_def set_upd image_iff)
next
  case shelved
  with assms(7) show ?thesis by (simp add: leaf_stands_def)
next
  case folded
  let ?s = "\<lambda>c. c\<lparr>mc_status := CSuperseded\<rparr>" and ?d = "fold_sources p t db"
  have c: "chunks ?d = upd (selected_by p t) ?s (chunks db)" by (simp add: fold_sources_def)
  have t: "t \<in> set (chunks ?d)" using assms(2,4) unfolding c by (auto simp: set_upd image_iff selected_by_def)
  have "keyed chunk_key (chunks ?d)" using assms(1) unfolding c by (simp add: keyed_def map_upd_key)
  note rows = apply_chunk_rows [OF this t assms(3,4), of now, folded folded(2)]
  have tt: "put_in_place now t \<in> set (chunks db')" using t unfolding rows by (auto simp: set_upd image_iff)
  have keep: "d \<in> set (chunks db')" if "d \<in> set (chunks ?d)" "mc_layer d = 1" for d
    using that assms(5) unfolding rows by (auto simp: set_upd image_iff)
  show ?thesis
  proof (cases "selected_by p t c")
    case True
    have "?s c \<in> set (chunks db')" by (rule keep) (use True assms(7,8) in \<open>auto simp: c set_upd image_iff\<close>)
    moreover have "folded_under (chunks db') c"
      using tt True assms(3,5) by (auto simp: folded_under_def list_ex_iff put_in_place_def selected_by_def sources_of_def intro!: bexI [of _ "put_in_place now t"])
    ultimately show ?thesis using True by (simp add: leaf_stands_def selected_by_def)
  next
    case False
    have "c \<in> set (chunks db')" by (rule keep) (use False assms(7,8) in \<open>auto simp: c set_upd image_iff\<close>)
    then show ?thesis by (simp add: leaf_stands_def)
  qed
qed

lemma apply_upper_leaf:
  assumes "shelf_ok (map frag_of (chunks db))"
    "\<forall>c \<in> set ts. c \<in> set (chunks db) \<and> mc_persona_id c = p \<and> 2 \<le> mc_layer c \<and> mc_status c = CPrepared" "distinct ts"
    "apply_upper now p ts db = Inr db'"
  shows "(\<forall>c \<in> set (chunks db). mc_layer c = 1 \<longrightarrow> leaf_stands (chunks db') c) \<and> mem_step (\<lambda>_. 0) (chunks db) (chunks db')"
  using assms
proof (induction ts arbitrary: db)
  case Nil
  then show ?case by (auto simp: leaf_stands_def mem_step_refl)
next
  case (Cons t ts)
  from Cons.prems(4) obtain db1 where a: "applyUpperTarget now p t db = Inr db1" and r: "apply_upper now p ts db1 = Inr db'"
    by (auto simp: rbind_eq_Inr)
  have t: "t \<in> set (chunks db)" "mc_persona_id t = p" "2 \<le> mc_layer t" "mc_status t = CPrepared" using Cons.prems(2) by simp_all
  note st = applyUpperTarget_step [OF Cons.prems(1) t a, of "\<lambda>_. 0"]
  then have m: "mem_step (\<lambda>_. 0) (chunks db) (chunks db1)" by blast
  have k: "keyed chunk_key (chunks db)" using Cons.prems(1) by (simp add: shelf_ok_def keyed_frags)
  have ih: "\<And>c. c \<in> set (chunks db1) \<Longrightarrow> mc_layer c = 1 \<Longrightarrow> leaf_stands (chunks db') c" "mem_step (\<lambda>_. 0) (chunks db1) (chunks db')"
    using Cons.IH [OF grows_keyed(2) [OF m Cons.prems(1)] _ _ r] Cons.prems(2,3) st by auto
  have "leaf_stands (chunks db') c" if c: "c \<in> set (chunks db)" "mc_layer c = 1" for c
  proof (cases "c \<in> set (chunks db1)")
    case True
    with ih(1) c(2) show ?thesis by blast
  next
    case False
    with applyUpperTarget_leaf [OF k t(1,2,4,3) a c] have f: "mc_status c = CApplied" "c\<lparr>mc_status := CSuperseded\<rparr> \<in> set (chunks db1)"
      "folded_under (chunks db1) c" by (auto simp: leaf_stands_def)
    from ih(1) [OF f(2)] c(2) have "c\<lparr>mc_status := CSuperseded\<rparr> \<in> set (chunks db')" by (auto simp: leaf_stands_def)
    with f(1) folded_under_step [OF f(3) ih(2)] show ?thesis by (simp add: leaf_stands_def)
  qed
  with mem_step_trans [OF m ih(2)] show ?case by blast
qed

text \<open>Upper targets leave the live rows as they are.\<close>

lemma live_upd:
  assumes "\<And>c. P c \<Longrightarrow> c \<in> set (chunks db) \<Longrightarrow> \<not> chunk_live c \<and> \<not> chunk_live (f c)" "\<And>c. mc_persona_id (f c) = mc_persona_id c"
  shows "live_rows (db\<lparr>chunks := upd P f (chunks db)\<rparr>) p = live_rows db p"
proof -
  have "filter chunk_live (filter (\<lambda>d. mc_persona_id d = p) (upd P f cs)) = filter chunk_live (filter (\<lambda>d. mc_persona_id d = p) cs)"
    if "set cs \<subseteq> set (chunks db)" for cs
    using that by (induction cs) (auto simp: assms)
  then show ?thesis by (simp add: live_rows_def chunks_of_def)
qed

lemma applyUpperTarget_live:
  assumes "keyed chunk_key (chunks db)" "t \<in> set (chunks db)" "mc_persona_id t = p" "mc_status t = CPrepared" "2 \<le> mc_layer t"
    "applyUpperTarget now p t db = Inr db'"
  shows "live_rows db' p = live_rows db p"
  using assms(6)
proof (cases rule: applyUpperTarget_cases)
  case failed
  show ?thesis unfolding failed fail_target_def
    by (rule live_upd) (use prepared_unique [OF assms(1-4)] assms(5) in \<open>auto simp: chunk_live_def\<close>)
next
  case folded
  let ?d = "fold_sources p t db"
  have s: "live_rows ?d p = live_rows db p" unfolding fold_sources_def by (rule live_upd) (auto simp: chunk_live_def selected_by_def)
  have u: "mc_layer d = mc_layer t" if "prepared_in p (mc_chunk_seq t) d" "d \<in> set (chunks ?d)" for d
  proof -
    from that(2) obtain e where e: "e \<in> set (chunks db)" "mc_layer d = mc_layer e" "chunk_key d = chunk_key e"
      by (auto simp: fold_sources_def set_upd)
    have "chunk_key e = chunk_key t" using e(3) that(1) assms(3) by (auto simp: prepared_in_def)
    then have "e = t" by (rule keyed_inj [OF assms(1) e(1) assms(2)])
    with e show ?thesis by simp
  qed
  have "live_rows (apply_chunk now p (mc_chunk_seq t) ?d) p = live_rows ?d p" unfolding apply_chunk_def
    by (rule live_upd) (use u assms(5) in \<open>auto simp: chunk_live_def\<close>)
  with s folded show ?thesis by simp
qed simp

lemma apply_upper_live:
  assumes "shelf_ok (map frag_of (chunks db))"
    "\<forall>c \<in> set ts. c \<in> set (chunks db) \<and> mc_persona_id c = p \<and> 2 \<le> mc_layer c \<and> mc_status c = CPrepared" "distinct ts"
    "apply_upper now p ts db = Inr db'"
  shows "live_rows db' p = live_rows db p"
  using assms
proof (induction ts arbitrary: db)
  case (Cons t ts)
  from Cons.prems(4) obtain db1 where a: "applyUpperTarget now p t db = Inr db1" and r: "apply_upper now p ts db1 = Inr db'"
    by (auto simp: rbind_eq_Inr)
  have t: "t \<in> set (chunks db)" "mc_persona_id t = p" "2 \<le> mc_layer t" "mc_status t = CPrepared" using Cons.prems(2) by simp_all
  note st = applyUpperTarget_step [OF Cons.prems(1) t a, of "\<lambda>_. 0"]
  then have m: "mem_step (\<lambda>_. 0) (chunks db) (chunks db1)" by blast
  have k: "keyed chunk_key (chunks db)" using Cons.prems(1) by (simp add: shelf_ok_def keyed_frags)
  have "live_rows db' p = live_rows db1 p"
    by (rule Cons.IH [OF grows_keyed(2) [OF m Cons.prems(1)] _ _ r]) (use Cons.prems(2,3) st in auto)
  also have "\<dots> = live_rows db p" by (rule applyUpperTarget_live [OF k t(1,2,4,3) a])
  finally show ?case .
qed simp

lemma prepareUpperTarget_live:
  assumes "prepareUpperTarget now p s db = Inr db'"
  shows "live_rows db' p = live_rows db p"
  using assms
proof (cases rule: prepareUpperTarget_cases)
  case (laid t layer limit dropTo whole)
  from laid(2) have "mc_layer t = 2" by (rule select_layer_rows) (simp add: target_of_def new_chunk_def)
  with laid(1) show ?thesis by (simp add: live_rows_def chunks_of_def chunk_live_def)
qed simp

lemma sealed_rows: "c \<in> set (number_sealed now p s rs) \<Longrightarrow> mc_status c = CSealed"
  by (induction now p s rs rule: number_sealed.induct) (auto simp: new_chunk_def)

lemma seal_tail_prepared: "preparedChunks (fst (seal_tail mh now p db)) p leaf = preparedChunks db p leaf"
  using sealed_rows [of _ now p "lastChunkSeq db p"]
  by (auto simp: preparedChunks_def seal_tail_def Let_def chunks_of_def filter_empty_conv)

lemma maintainTx_relieves:
  assumes "maintainTx mh now p gen db = Inr (db', u)" "mem_ok db"
  defines "ps \<equiv> preparedChunks db p leaf" and "sealed \<equiv> fst (seal_tail mh now p db)" and "tail \<equiv> snd (seal_tail mh now p db)"
  shows "\<exists>n. relieved ps (liveChunkTokens sealed p + tail) n \<and> preparedChunks db' p leaf = drop n ps
    \<and> liveChunkTokens db' p = liveChunkTokens sealed p - sum_list (map mc_est_tokens (take n ps))
    \<and> (\<forall>c \<in> set (chunks sealed). mc_layer c = 1 \<longrightarrow> leaf_stands (chunks db') (if c \<in> set (take n ps) then put_in_place now c else c))"
proof -
  from assms(1) obtain db1 est db2 db3 where a: "seal_tail mh now p db = (db1, est)" and b: "db2 = apply_live now p est db1"
    and c: "apply_upper now p (preparedChunks db2 p (\<lambda>l. 2 \<le> l)) db2 = Inr db3" and d: "prepareUpperTarget now p (lastChunkSeq db1 p) db3 = Inr db'"
    by (rule maintainTx_parts)
  have s: "sealed = db1" "tail = est" by (simp_all add: sealed_def tail_def a)
  have "mem_step (last_seq db) (chunks db) (chunks db1)"
    using seal_tail_step [OF mem_okD(3) [OF assms(2)], where p = p and mh = mh and now = now] a by simp
  note ok1 = grows_keyed [OF this mem_okD(2) [OF assms(2)]]
  have "mem_step (last_seq db) (chunks db1) (chunks db2)" unfolding b by (rule apply_live_step [OF ok1(2)])
  note ok2 = grows_keyed [OF this ok1(2)]
  have same: "live_rows db' p = live_rows db2 p"
    using prepareUpperTarget_live [OF d] apply_upper_live [OF ok2(2) preparedChunks_rows [OF ok2(1)] c] by simp
  have ps: "preparedChunks db1 p leaf = ps" using seal_tail_prepared [of mh now p db] unfolding a ps_def by simp
  let ?l = "liveChunkTokens db1 p + est"
  have "\<exists>n. relieved ps ?l n \<and> preparedChunks db2 p leaf = drop n ps
      \<and> liveChunkTokens db2 p = liveChunkTokens db1 p - sum_list (map mc_est_tokens (take n ps))
      \<and> chunks db2 = upd (\<lambda>c. c \<in> set (take n ps)) (put_in_place now) (chunks db1)"
  proof (cases "L0LiveLimitTokens < ?l")
    case True
    with apply_prepared_relieves [OF ok1(1) ps, of ?l now] ps show ?thesis unfolding b apply_live_def Let_def if_P [OF True] ps by simp
  next
    case False
    with ps show ?thesis unfolding b apply_live_def Let_def if_not_P [OF False] by (intro exI [of _ 0]) (simp add: relieved_def upd_id)
  qed
  then obtain n where n: "relieved ps ?l n" "preparedChunks db2 p leaf = drop n ps"
    "liveChunkTokens db2 p = liveChunkTokens db1 p - sum_list (map mc_est_tokens (take n ps))"
    "chunks db2 = upd (\<lambda>c. c \<in> set (take n ps)) (put_in_place now) (chunks db1)" by blast
  moreover have "leaf_stands (chunks db') (if c \<in> set (take n ps) then put_in_place now c else c)"
    if "c \<in> set (chunks db1)" "mc_layer c = 1" for c
  proof -
    let ?c = "if c \<in> set (take n ps) then put_in_place now c else c"
    have "?c \<in> set (chunks db2)" "mc_layer ?c = 1" using that by (auto simp: n(4) set_upd put_in_place_def)
    with apply_upper_leaf [OF ok2(2) preparedChunks_rows [OF ok2(1)] c] have "leaf_stands (chunks db3) ?c" by blast
    with d show ?thesis by (cases rule: prepareUpperTarget_cases) (auto simp: leaf_stands_def folded_under_def)
  qed
  moreover have "preparedChunks db' p leaf = preparedChunks db2 p leaf" unfolding prepared_live same ..
  moreover have "liveChunkTokens db' p = liveChunkTokens db2 p" unfolding live_tokens same ..
  ultimately show ?thesis unfolding s by (intro exI [of _ n]) simp
qed

section \<open>Coverage\<close>

text \<open>What a snapshot has to be to stand for a range: no message split, no range sticking out, no gap.\<close>

definition touches :: "int \<Rightarrow> int \<Rightarrow> source_range \<Rightarrow> bool" where
  "touches a z r \<longleftrightarrow> a \<le> sr_last_seq r \<and> sr_first_seq r \<le> z"

definition tiles :: "source_range list \<Rightarrow> int \<Rightarrow> int \<Rightarrow> bool" where
  "tiles rs a z \<longleftrightarrow> (\<forall>x \<in> {a..z}. \<exists>r \<in> set rs. sr_first_seq r \<le> x \<and> x \<le> sr_last_seq r)"

lemma cover_scan_iff:
  assumes "sorted (map sr_first_seq rs)" "\<forall>r \<in> set rs. sr_first_seq r \<le> sr_last_seq r" "a \<le> nxt" "nxt \<le> z + 1"
  shows "cover_scan a z nxt rs = Some (z + 1) \<longleftrightarrow> (\<forall>r \<in> set rs. touches a z r \<longrightarrow> inside a z r) \<and> tiles rs nxt z"
  using assms
proof (induction rs arbitrary: nxt)
  case Nil
  then show ?case by (auto simp: tiles_def)
next
  case (Cons r rs)
  have so: "sorted (map sr_first_seq rs)" "\<forall>q \<in> set rs. sr_first_seq r \<le> sr_first_seq q" using Cons.prems(1) by auto
  have wf: "sr_first_seq r \<le> sr_last_seq r" "\<forall>q \<in> set rs. sr_first_seq q \<le> sr_last_seq q" using Cons.prems(2) by auto
  consider (off) "\<not> touches a z r" | (out) "touches a z r" "\<not> inside a z r" | (gap) "inside a z r" "nxt < sr_first_seq r"
    | (on) "inside a z r" "sr_first_seq r \<le> nxt" by fastforce
  then show ?case
  proof cases
    case off
    then have "tiles (r # rs) nxt z = tiles rs nxt z" using Cons.prems(3) by (fastforce simp: tiles_def touches_def)
    with off Cons.IH [OF so(1) wf(2) Cons.prems(3,4)] show ?thesis by (auto simp: touches_def)
  next
    case out
    then show ?thesis by (auto simp: touches_def inside_def)
  next
    case gap
    have "nxt \<le> z" using gap wf(1) by (simp add: inside_def)
    then have "\<not> tiles (r # rs) nxt z" using gap(2) so(2) by (force simp: tiles_def)
    with gap wf(1) show ?thesis by (auto simp: inside_def)
  next
    case on
    let ?n = "if nxt \<le> sr_last_seq r then sr_last_seq r + 1 else nxt"
    have n: "a \<le> ?n" "?n \<le> z + 1" using Cons.prems(3,4) on(1) by (auto simp: inside_def)
    have "tiles (r # rs) nxt z = tiles rs ?n z"
    proof
      assume t: "tiles (r # rs) nxt z"
      show "tiles rs ?n z" unfolding tiles_def
      proof
        fix x assume x: "x \<in> {?n..z}"
        then have "x \<in> {nxt..z}" "sr_last_seq r < x" by (auto split: if_splits)
        with t show "\<exists>q \<in> set rs. sr_first_seq q \<le> x \<and> x \<le> sr_last_seq q" by (fastforce simp: tiles_def)
      qed
    next
      assume t: "tiles rs ?n z"
      show "tiles (r # rs) nxt z" unfolding tiles_def
      proof
        fix x assume x: "x \<in> {nxt..z}"
        show "\<exists>q \<in> set (r # rs). sr_first_seq q \<le> x \<and> x \<le> sr_last_seq q"
        proof (cases "x \<le> sr_last_seq r")
          case True
          with on(2) x show ?thesis by auto
        next
          case False
          with x have "x \<in> {?n..z}" by auto
          with t have "\<exists>q \<in> set rs. sr_first_seq q \<le> x \<and> x \<le> sr_last_seq q" unfolding tiles_def by blast
          then show ?thesis by auto
        qed
      qed
    qed
    moreover have "cover_scan a z nxt (r # rs) = cover_scan a z ?n rs" using on wf(1) by (auto simp: inside_def)
    ultimately show ?thesis using Cons.IH [OF so(1) wf(2) n] on(1) by auto
  qed
qed

lemma tiles_sort: "tiles (sort_key f rs) a z = tiles rs a z"
  by (simp add: tiles_def)

end
