(* ===== verification/Memory_Protocol.thy ===== *)
theory Memory_Protocol
  imports Terminal_Protocol Memory_Context
begin

text \<open>
  The memory layer along every history of commands, and what its claims and checkpoints promise:
  nothing of the journal is lost or shown twice, an accepted text is final, a text is accepted only
  through the confirmation opened before it, a repeated checkpoint answers as before.
\<close>

section \<open>A deployment\<close>

text \<open>
  Four journaled events; the first two are remembered as a text, the third is in preparation under a
  branch that has opened its confirmation of a candidate.
\<close>

definition demo_fact :: "nat \<Rightarrow> event_row" where
  "demo_fact n = \<lparr>e_persona_id = ''p1'', e_seq = n, e_turn_id = ''t0'', e_kind = ''note'', e_payload = []\<rparr>"

definition demo_chunk :: "nat \<Rightarrow> nat \<Rightarrow> nat \<Rightarrow> chunk_row" where
  "demo_chunk s a z = new_chunk 5 ''p1'' s 1 None a z 12000"

definition demo_candidate :: json where
  "demo_candidate = JObj [(''text'', JStr ''short''), (''version'', jint 1), (''sha256'', JStr ''short'')]"

definition demo_review :: json where
  "demo_review = JObj [(''kind'', JStr ''replace''), (''version'', jint 1), (''sha256'', JStr ''short''), (''token'', JStr ''k''), (''opened_round'', jint 1)]"

definition demo_checkpoint :: "string \<Rightarrow> json list \<Rightarrow> int \<Rightarrow> (string \<times> json) list \<Rightarrow> json" where
  "demo_checkpoint st ms n kvs = JObj ([(''status'', JStr st), (''messages'', JArr ms), (''candidate'', demo_candidate), (''rounds'', jint n)] @ kvs)"

definition demo_snapshot :: branch_snapshot where
  "demo_snapshot = \<lparr>bs_messages = [], bs_tools = [], bs_ranges = [], bs_binding = None\<rparr>"

definition demo_branch :: "json \<Rightarrow> branch_row" where
  "demo_branch v = (new_branch 6 ''p1'' 2 demo_snapshot)\<lparr>br_state := Some v, br_revision := 3\<rparr>"

definition demo_remembered :: "chunk_status \<Rightarrow> int \<Rightarrow> json \<Rightarrow> unit db" where
  "demo_remembered st n v = demo_running\<lparr>events := [demo_fact 1, demo_fact 2, demo_fact 3, demo_fact 4],
     chunks := [(demo_chunk 1 1 2)\<lparr>mc_est_tokens := n, mc_status := st, mc_replacement := Some ''past'', mc_replacement_est_tokens := Some 1\<rparr>,
       (demo_chunk 2 3 3)\<lparr>mc_status := CPreparing\<rparr>],
     branches := [demo_branch v]\<rparr>"

definition demo_opened :: json where
  "demo_opened = demo_checkpoint ''running'' [JStr ''m''] 1 [(''review'', demo_review)]"

definition demo_done :: json where
  "demo_done = demo_checkpoint ''prepared'' [JStr ''m''] 2 [(''final'', demo_review)]"

lemmas demo_memory_defs = demo_remembered_def demo_branch_def new_branch_def demo_chunk_def new_chunk_def demo_fact_def demo_snapshot_def

lemma demo_remembered_mem: "st \<in> {CApplied, CPrepared} \<Longrightarrow> mem_ok (demo_remembered st n v)"
proof -
  assume st: "st \<in> {CApplied, CPrepared}"
  let ?db = "demo_remembered st n v"
  have "shelf_ok (map frag_of (chunks ?db))"
    using st by (simp add: shelf_ok_def demo_memory_defs keyed_def wf_frag_def apart_in_def ext_def leaves_at_def) auto
  moreover have "gapless ?db p" for p
    by (cases "p = ''p1''") (simp_all add: gapless_def demo_memory_defs upt_rec)
  moreover have "list_all texted (chunks ?db)" "list_all (ends_by (last_seq ?db)) (chunks ?db)" "keyed branch_key (branches ?db)"
    by (simp_all add: demo_memory_defs texted_def ends_by_def last_seq_def keyed_def)
  moreover have "preparing (chunks ?db) \<subseteq> {(''p1'', 2)}" using st by (auto simp: preparing_def demo_memory_defs)
  then have "preparing (chunks ?db) \<subseteq> branch_key ` set (branches ?db)" "one_preparing (chunks ?db)"
    by (auto simp: demo_remembered_def demo_branch_def new_branch_def one_preparing_def)
  ultimately show ?thesis by (simp add: mem_ok_def)
qed

lemma demo_remembered_sound: "st \<in> {CApplied, CPrepared} \<Longrightarrow> sound (demo_remembered st n v)"
proof -
  assume st: "st \<in> {CApplied, CPrepared}"
  let ?db = "demo_remembered st n v"
  have "one_running ?db" "accounted ?db = accounted demo_running"
    by (simp add: one_running_def demo_remembered_def demo_run_defs is_running_def) (rule same_accounted; simp add: demo_remembered_def)
  moreover have "accounted demo_running" by code_simp
  moreover have "keyed appr_key (approvals ?db)" "keyed l_persona_id (leases ?db)" "jobs_ok ?db"
    by (simp_all add: demo_remembered_def jobs_ok_def noted_of_def ended_of_def demo_run_defs jobInputPrefix_def keyed_def)
  moreover have "terms_ok ?db" by (rule no_terminals_ok) (simp_all add: demo_remembered_def demo_run_defs)
  ultimately show ?thesis using demo_remembered_mem [OF st] by (simp add: sound_def)
qed

section \<open>The context and the texts\<close>

lemma run_mem_ok: "sound db \<Longrightarrow> mem_ok (run en cs db)"
  using run_sound by (auto simp: sound_def)

lemma run_chunks: "sound db \<Longrightarrow> grows chunk_moved (\<lambda>_. True) (chunks db) (chunks (run en cs db))"
  using hist.reach_R [OF run_reach [of en db cs]] by (simp add: history_kept_def mem_lawful_def sound_def)

text \<open>
  C9. Remembering loses nothing and repeats nothing: along every history from a sound state the
  context of a turn renders, and every event of the persona's journal stands in it exactly once,
  either as itself or in the one memory block whose range holds it; the only events left out are the
  ones of the turn's own input that no block represents.
\<close>

theorem context_represents_journal:
  assumes "sound db" and "db' = run en cs db" and "e \<in> set (events db')" and "e_persona_id e = p"
  shows "\<exists>c. renderedContext db' p i = Inr c
    \<and> length (filter (\<lambda>x. x = e) (rc_events c)) + length (filter (\<lambda>b. mb_first_seq b \<le> e_seq e \<and> e_seq e \<le> mb_last_seq b) (rc_memory c))
      = (if of_input db' p i e \<and> \<not> represented db' p (e_seq e) then 0 else 1)"
proof -
  have ok: "mem_ok db'" unfolding assms(2) by (rule run_mem_ok [OF assms(1)])
  have e: "e \<in> set (events_of db' p)" using assms(3,4) by (simp add: events_of_def)
  have "length (filter (shows_seq (e_seq e)) (map block_at (sort_key mc_first_seq (filter (\<lambda>c. mc_status c = CApplied) (chunks_of db' p)))))
      = (if represented db' p (e_seq e) then 1 else 0)"
    unfolding applied_once [OF ok, symmetric] by (simp add: filter_map o_def length_filter_sort)
  then show ?thesis
    unfolding renderedContext_eq [OF ok] using raw_count [OF mem_okD(3) [OF ok] e] by (auto simp: shows_seq_def [abs_def])
qed

theorem context_represents_journal_witness:
  "\<exists>c. renderedContext (run demo_env [MemoryMaintainC 20 ''p1'' 4] (demo_remembered CApplied 12000 demo_opened)) ''p1'' ''in-1'' = Inr c
    \<and> length (filter (\<lambda>x. x = demo_fact 2) (rc_events c)) + length (filter (\<lambda>b. mb_first_seq b \<le> 2 \<and> 2 \<le> mb_last_seq b) (rc_memory c)) = 1"
proof -
  let ?db = "run demo_env [MemoryMaintainC 20 ''p1'' 4] (demo_remembered CApplied 12000 demo_opened)"
  have e: "demo_fact 2 \<in> set (events ?db)" "e_persona_id (demo_fact 2) = ''p1''" "e_seq (demo_fact 2) = 2"
    "\<not> of_input ?db ''p1'' ''in-1'' (demo_fact 2)" by code_simp+
  have a: "sound (demo_remembered CApplied 12000 demo_opened)" by (rule demo_remembered_sound) simp
  from context_represents_journal [OF a refl e(1,2), of "''in-1''"] e(3,4) show ?thesis by simp
qed

text \<open>
  C10. An accepted memory text is final: along every history from a sound state, a chunk whose
  replacement was accepted keeps that text, its estimate, its range and its sources; once it stands in
  the context only an upper chunk takes its place, and what was superseded stays so.
\<close>

theorem accepted_texts_are_final:
  assumes "sound db" and "chunk_at db p s = Some c" and "mc_status c \<in> {CPrepared, CApplied, CSuperseded}"
  shows "\<exists>c'. chunk_at (run en cs db) p s = Some c' \<and> mc_replacement c \<noteq> None
    \<and> mc_replacement c' = mc_replacement c \<and> mc_replacement_est_tokens c' = mc_replacement_est_tokens c
    \<and> mc_layer c' = mc_layer c \<and> mc_sources c' = mc_sources c \<and> mc_first_seq c' = mc_first_seq c \<and> mc_last_seq c' = mc_last_seq c
    \<and> (mc_status c = CPrepared \<longrightarrow> mc_status c' \<in> {CPrepared, CApplied, CSuperseded, CFailed})
    \<and> (mc_status c = CApplied \<longrightarrow> mc_status c' \<in> {CApplied, CSuperseded})
    \<and> (mc_status c = CSuperseded \<longrightarrow> mc_status c' = CSuperseded)"
proof -
  let ?db = "run en cs db"
  have c: "c \<in> set (chunks db)" "is_chunk p s c" using assms(2) by (simp_all add: chunk_at_def find_SomeD)
  from grows_old [OF run_chunks [OF assms(1)] c(1)] obtain c' where c': "c' \<in> set (chunks ?db)" "chunk_moved c c'" by blast
  have k: "keyed chunk_key (chunks ?db)" by (rule mem_okD(1) [OF run_mem_ok [OF assms(1)]])
  have "is_chunk p s c'" using c(2) c'(2) by (simp add: chunk_moved_def chunk_cols_def is_chunk_def)
  then have "chunk_at ?db p s = Some c'" unfolding chunk_at_def by (intro keyed_find [OF k c'(1)]) (auto simp: is_chunk_def)
  moreover have "texted c" using assms(1) by (intro mem_ok_chunk(4) [OF _ c(1)]) (simp add: sound_def)
  ultimately show ?thesis
    using c'(2) assms(3) by (intro exI [of _ c'], cases "mc_status c") (simp_all add: chunk_moved_def chunk_cols_def texted_def)
qed

theorem accepted_texts_are_final_witness:
  "\<exists>c'. chunk_at (run demo_env [MemoryMaintainC 20 ''p1'' 4] (demo_remembered CApplied 12000 demo_opened)) ''p1'' 1 = Some c' \<and> mc_replacement c' = Some ''past''"
proof -
  let ?c = "(demo_chunk 1 1 2)\<lparr>mc_est_tokens := 12000, mc_status := CApplied, mc_replacement := Some ''past'', mc_replacement_est_tokens := Some 1\<rparr>"
  have "chunk_at (demo_remembered CApplied 12000 demo_opened) ''p1'' 1 = Some ?c" "mc_status ?c \<in> {CPrepared, CApplied, CSuperseded}"
    by (simp_all add: chunk_at_def is_chunk_def demo_memory_defs)
  moreover have "sound (demo_remembered CApplied 12000 demo_opened)" by (rule demo_remembered_sound) simp
  ultimately have "\<exists>c'. chunk_at (run demo_env [MemoryMaintainC 20 ''p1'' 4] (demo_remembered CApplied 12000 demo_opened)) ''p1'' 1 = Some c'
      \<and> mc_replacement c' = mc_replacement ?c" using accepted_texts_are_final by blast
  then show ?thesis by (auto simp del: run_Cons)
qed

section \<open>Maintenance\<close>

text \<open>
  C19. A sealed range is whole: the unsealed journal is cut into windows and a live tail, in order
  and without a remainder; each window is stored as the next chunk with its range and its estimate,
  which is at least the minimum; every tool call in a window that carries a call id (a non-empty
  string) is answered after it in that window, and of a model round with an event in a window the whole
  of what the unsealed journal holds lies in that window. A call without an id is not tracked, and
  events a round journals after the pass are cut on their own.
\<close>

theorem sealed_ranges_are_whole:
  assumes "gapless db p" and "es = unsealedTail db p (coveredSeq db p)"
  shows "\<exists>ws live. es = concat ws @ live \<and> [] \<notin> set ws
    \<and> seal_tail mh now p db = (db\<lparr>chunks := chunks db @ number_sealed now p (lastChunkSeq db p)
          (map (\<lambda>w. (e_seq (hd w), e_seq (last w), window_est mh w)) ws)\<rparr>, window_est mh live)
    \<and> (\<forall>w \<in> set ws. L0ChunkMinTokens \<le> window_est mh w
        \<and> (\<forall>as e bs x. w = as @ e # bs \<and> e_kind e = ''tool_call'' \<and> call_id e = Some x \<and> x \<noteq> []
             \<longrightarrow> (\<exists>r \<in> set bs. e_kind r = ''tool_result'' \<and> call_id r = Some x))
        \<and> (\<forall>e \<in> set w. \<forall>f \<in> set es. roundKey mh e \<noteq> [] \<longrightarrow> roundKey mh f = roundKey mh e \<longrightarrow> f \<in> set w))"
proof -
  obtain ws live where w: "es = concat ws @ live" "[] \<notin> set ws" "wk_sealed (seal_walk mh es) = map (window_range mh) ws"
    "wk_est (seal_walk mh es) = window_est mh live" "\<forall>w \<in> set ws. L0ChunkMinTokens \<le> window_est mh w \<and> window_whole mh es w"
    using sealed_windows [OF assms(1)] unfolding assms(2) by blast
  have "seal_tail mh now p db = (db\<lparr>chunks := chunks db @ number_sealed now p (lastChunkSeq db p)
      (map (\<lambda>w. (e_seq (hd w), e_seq (last w), window_est mh w)) ws)\<rparr>, window_est mh live)"
    unfolding seal_tail_def Let_def assms(2) [symmetric] w(3,4) by (simp add: window_range_def [abs_def])
  with w(1,2,5) show ?thesis unfolding window_whole_def by blast
qed

text \<open>A round with a call and its answer between two inputs, under a host whose payloads are large.\<close>

definition demo_verbose :: mem_host where
  "demo_verbose = demo_mem_host\<lparr>mh_marshal := \<lambda>_. replicate 20000 (CHR ''x'')\<rparr>"

definition demo_said :: "nat \<Rightarrow> string \<Rightarrow> jobj \<Rightarrow> event_row" where
  "demo_said n kind m = \<lparr>e_persona_id = ''p1'', e_seq = n, e_turn_id = ''t0'', e_kind = kind, e_payload = m\<rparr>"

definition demo_round :: "event_row list" where
  "demo_round = [demo_said 1 ''input_received'' [], demo_said 2 ''assistant_message'' [(''round'', jint 1)],
     demo_said 3 ''tool_call'' [(''call_id'', JStr ''c1''), (''round'', jint 1)],
     demo_said 4 ''tool_result'' [(''call_id'', JStr ''c1''), (''round'', jint 1)], demo_said 5 ''input_received'' []]"

definition demo_busy :: "unit db" where
  "demo_busy = demo_running\<lparr>events := demo_round\<rparr>"

lemma demo_busy_tail: "gapless demo_busy ''p1''" "unsealedTail demo_busy ''p1'' (coveredSeq demo_busy ''p1'') = demo_round"
  by (simp_all add: gapless_def unsealedTail_def coveredSeq_def chunks_of_def events_of_def demo_busy_def demo_round_def demo_said_def
      demo_run_defs upt_rec)

lemma demo_busy_sealed: "map (\<lambda>c. (mc_first_seq c, mc_last_seq c)) (chunks (fst (seal_tail demo_verbose 20 ''p1'' demo_busy))) = [(1, 4)]"
  unfolding seal_tail_def demo_busy_tail(2)
  by (simp add: demo_busy_def demo_run_defs lastChunkSeq_def chunks_of_def demo_round_def demo_said_def
      seal_walk_def walk_step_def walk0_def cuts_def seal_window_def track_call_def roundKey_def roundEnds_def Let_def
      estPayloadTokens_def demo_verbose_def demo_mem_host_def L0ChunkMinTokens_def L0ForcedSealLimitTokens_def new_chunk_def)

lemma sealed_ends: "map (\<lambda>c. (mc_first_seq c, mc_last_seq c)) (number_sealed now p s rs) = map (\<lambda>(a, z, est). (a, z)) rs"
  by (induction now p s rs rule: number_sealed.induct) (simp_all add: new_chunk_def)

theorem sealed_ranges_are_whole_witness:
  "\<exists>w live. demo_round = w @ live \<and> length w = 4 \<and> L0ChunkMinTokens \<le> window_est demo_verbose w
     \<and> (\<exists>r \<in> set w. e_kind r = ''tool_result'' \<and> call_id r = Some ''c1'')
     \<and> map (\<lambda>c. (mc_first_seq c, mc_last_seq c)) (chunks (fst (seal_tail demo_verbose 20 ''p1'' demo_busy))) = [(1, 4)]"
proof -
  from sealed_ranges_are_whole [OF demo_busy_tail(1) demo_busy_tail(2) [symmetric], of demo_verbose 20] obtain ws live where
    es: "demo_round = concat ws @ live" "[] \<notin> set ws"
    and st: "seal_tail demo_verbose 20 ''p1'' demo_busy = (demo_busy\<lparr>chunks := chunks demo_busy @ number_sealed 20 ''p1'' (lastChunkSeq demo_busy ''p1'')
          (map (\<lambda>w. (e_seq (hd w), e_seq (last w), window_est demo_verbose w)) ws)\<rparr>, window_est demo_verbose live)"
    and whole: "\<forall>w \<in> set ws. L0ChunkMinTokens \<le> window_est demo_verbose w
        \<and> (\<forall>as e bs x. w = as @ e # bs \<and> e_kind e = ''tool_call'' \<and> call_id e = Some x \<and> x \<noteq> []
             \<longrightarrow> (\<exists>r \<in> set bs. e_kind r = ''tool_result'' \<and> call_id r = Some x))
        \<and> (\<forall>e \<in> set w. \<forall>f \<in> set demo_round. roundKey demo_verbose e \<noteq> [] \<longrightarrow> roundKey demo_verbose f = roundKey demo_verbose e \<longrightarrow> f \<in> set w)"
    by (elim exE conjE) (rule that)
  have "chunks demo_busy = []" by (simp add: demo_busy_def demo_run_defs)
  then have "map (\<lambda>w. (e_seq (hd w), e_seq (last w))) ws = [(1, 4)]"
    using demo_busy_sealed unfolding st by (simp add: sealed_ends del: map_map) (simp add: comp_def)
  then obtain w where w: "ws = [w]" "e_seq (hd w) = 1" "e_seq (last w) = 4" by (cases ws) auto
  have "demo_round = w @ live" using es(1) w(1) by simp
  then have t: "w = take (length w) demo_round" by (metis append_eq_conv_conj)
  have l: "length w = 4"
  proof -
    have "length w \<le> 5" "w \<noteq> []" using es w(1) by (auto simp: demo_round_def dest: arg_cong [of _ _ length])
    then have "length w \<le> 5 \<and> 0 < length w" by simp
    then have "length w = 1 \<or> length w = 2 \<or> length w = 3 \<or> length w = 4 \<or> length w = 5" by presburger
    with t w(3) show ?thesis by (auto simp: demo_round_def demo_said_def)
  qed
  let ?as = "[demo_said 1 ''input_received'' [], demo_said 2 ''assistant_message'' [(''round'', jint 1)]]"
    and ?e = "demo_said 3 ''tool_call'' [(''call_id'', JStr ''c1''), (''round'', jint 1)]"
    and ?bs = "[demo_said 4 ''tool_result'' [(''call_id'', JStr ''c1''), (''round'', jint 1)]]"
  have p: "w = ?as @ ?e # ?bs" by (subst t, unfold l) (simp add: demo_round_def)
  have "e_kind ?e = ''tool_call''" "call_id ?e = Some ''c1''" by (simp_all add: demo_said_def call_id_def)
  then have c: "w = ?as @ ?e # ?bs \<and> e_kind ?e = ''tool_call'' \<and> call_id ?e = Some ''c1'' \<and> ''c1'' \<noteq> []" using p by simp
  have "w \<in> set ws" by (simp add: w(1))
  note whole [THEN bspec, OF this, THEN conjunct2, THEN conjunct1, THEN spec, THEN spec, THEN spec, THEN spec, THEN mp, OF c]
  then have "\<exists>r \<in> set w. e_kind r = ''tool_result'' \<and> call_id r = Some ''c1''" unfolding p by auto
  moreover have "L0ChunkMinTokens \<le> window_est demo_verbose w" using whole w(1) by simp
  ultimately show ?thesis using es(1) w(1) l demo_busy_sealed by (intro exI [of _ w] exI [of _ live]) simp
qed

text \<open>
  C20. Replacements are put in place exactly as far as pressure asks: one maintenance pass applies
  the oldest prepared leaves, the least number of them that brings the estimate of what still renders
  raw down to the limit (all of them when that is not enough). Each of them is then stored as applied
  at this moment, and every other leaf, of this persona or another, stored or sealed in this pass, is
  stored as it was; the one further change a leaf can meet is that an upper target over it, in place
  before the pass ended, superseded it once it was applied.
\<close>

theorem maintenance_relieves_pressure:
  assumes "mem_ok db" and "maintainTx mh now p gen db = Inr (db', u)" and "seal_tail mh now p db = (db1, tail)"
    and "ps = preparedChunks db p (\<lambda>l. l = 1)"
  shows "\<exists>n \<le> length ps. preparedChunks db' p (\<lambda>l. l = 1) = drop n ps
    \<and> liveChunkTokens db' p = liveChunkTokens db1 p - sum_list (map mc_est_tokens (take n ps))
    \<and> (n < length ps \<longrightarrow> liveChunkTokens db' p + tail \<le> L0LiveLimitTokens)
    \<and> (\<forall>m < n. L0LiveLimitTokens < liveChunkTokens db1 p + tail - sum_list (map mc_est_tokens (take m ps)))
    \<and> (\<forall>c \<in> set (chunks db1). mc_layer c = 1 \<longrightarrow>
        leaf_stands (chunks db') (if c \<in> set (take n ps) then c\<lparr>mc_status := CApplied, mc_applied_at := Some now\<rparr> else c))"
proof -
  from maintainTx_relieves [OF assms(2,1), unfolded assms(3) fst_conv snd_conv, folded assms(4)] obtain n where
    n: "relieved ps (liveChunkTokens db1 p + tail) n" "preparedChunks db' p leaf = drop n ps"
      "liveChunkTokens db' p = liveChunkTokens db1 p - sum_list (map mc_est_tokens (take n ps))"
      "\<forall>c \<in> set (chunks db1). mc_layer c = 1 \<longrightarrow> leaf_stands (chunks db') (if c \<in> set (take n ps) then put_in_place now c else c)"
    by blast
  then have "n < length ps \<longrightarrow> liveChunkTokens db' p + tail \<le> L0LiveLimitTokens" unfolding relieved_def by linarith
  with n show ?thesis unfolding relieved_def put_in_place_def by blast
qed

theorem maintenance_relieves_pressure_witness:
  "\<exists>db'. maintainTx demo_mem_host 20 ''p1'' 4 (demo_remembered CPrepared 50000 demo_opened) = Inr (db', ())
    \<and> preparedChunks db' ''p1'' (\<lambda>l. l = 1) = [] \<and> liveChunkTokens db' ''p1'' = 12000"
proof -
  let ?db = "demo_remembered CPrepared 50000 demo_opened"
  let ?c = "(demo_chunk 1 1 2)\<lparr>mc_est_tokens := 50000, mc_status := CPrepared, mc_replacement := Some ''past'', mc_replacement_est_tokens := Some 1\<rparr>"
  have ok: "mem_ok ?db" by (rule demo_remembered_mem) simp
  have r: "maintainTx demo_mem_host 20 ''p1'' 4 ?db \<noteq> Inl e" for e
  proof -
    have "isl (maintainTx demo_mem_host 20 ''p1'' 4 ?db) = False" by code_simp
    then show ?thesis by auto
  qed
  then obtain db' where m: "maintainTx demo_mem_host 20 ''p1'' 4 ?db = Inr (db', ())"
    by (cases "maintainTx demo_mem_host 20 ''p1'' 4 ?db") auto
  obtain db1 tail where s: "seal_tail demo_mem_host 20 ''p1'' ?db = (db1, tail)" by fastforce
  have "liveChunkTokens (fst (seal_tail demo_mem_host 20 ''p1'' ?db)) ''p1'' = 62000" "snd (seal_tail demo_mem_host 20 ''p1'' ?db) = 6" by code_simp+
  then have l: "liveChunkTokens db1 ''p1'' = 62000" "tail = 6" by (simp_all add: s)
  have p: "preparedChunks ?db ''p1'' (\<lambda>l. l = 1) = [?c]" by code_simp
  from maintenance_relieves_pressure [OF ok m s p [symmetric]] obtain n where n: "n \<le> length [?c]"
    "preparedChunks db' ''p1'' (\<lambda>l. l = 1) = drop n [?c]" "liveChunkTokens db' ''p1'' = 62000 - sum_list (map mc_est_tokens (take n [?c]))"
    "n < length [?c] \<longrightarrow> liveChunkTokens db' ''p1'' + 6 \<le> L0LiveLimitTokens" unfolding l by blast
  have "n = 1" using n by (cases "n = 0") (auto simp: L0LiveLimitTokens_def)
  with n(2,3) m show ?thesis by auto
qed

section \<open>Snapshots\<close>

text \<open>
  C21. A snapshot covers a range exactly when its ranges tile it: no message has one range inside and
  another outside, every range that touches the target lies inside it, and every position of the
  target is in some range.
\<close>

theorem snapshot_covers_exactly:
  assumes "a \<le> z" and "list_all (valid_range snap) (bs_ranges snap)"
  shows "snapshotCovers snap a z \<longleftrightarrow>
    (\<forall>r \<in> set (bs_ranges snap). \<forall>s \<in> set (bs_ranges snap).
        sr_message_index r \<noteq> None \<longrightarrow> sr_message_index s = sr_message_index r \<longrightarrow> inside a z s \<longrightarrow> inside a z r)
    \<and> (\<forall>r \<in> set (bs_ranges snap). a \<le> sr_last_seq r \<longrightarrow> sr_first_seq r \<le> z \<longrightarrow> inside a z r)
    \<and> (\<forall>x. a \<le> x \<and> x \<le> z \<longrightarrow> (\<exists>r \<in> set (bs_ranges snap). sr_first_seq r \<le> x \<and> x \<le> sr_last_seq r))"
proof -
  have wf: "\<forall>r \<in> set (sort_key sr_first_seq (bs_ranges snap)). sr_first_seq r \<le> sr_last_seq r"
    using assms(2) by (auto simp: list_all_iff valid_range_def)
  have so: "sorted (map sr_first_seq (sort_key sr_first_seq (bs_ranges snap)))" by simp
  have "cover_scan a z a (sort_key sr_first_seq (bs_ranges snap)) = Some (z + 1)
      \<longleftrightarrow> (\<forall>r \<in> set (bs_ranges snap). touches a z r \<longrightarrow> inside a z r) \<and> tiles (bs_ranges snap) a z"
    using cover_scan_iff [OF so wf, of a a z] assms(1) by (simp add: tiles_sort)
  moreover have "splits_message snap a z \<longleftrightarrow> \<not> (\<forall>r \<in> set (bs_ranges snap). \<forall>s \<in> set (bs_ranges snap).
      sr_message_index r \<noteq> None \<longrightarrow> sr_message_index s = sr_message_index r \<longrightarrow> inside a z s \<longrightarrow> inside a z r)"
    by (auto simp: splits_message_def list_ex_iff)
  ultimately show ?thesis by (auto simp: snapshotCovers_def touches_def tiles_def)
qed

definition demo_range :: "int \<Rightarrow> int \<Rightarrow> source_range" where
  "demo_range a z = \<lparr>sr_first_seq = a, sr_last_seq = z, sr_message_index = None, sr_layer = None, sr_chunk_seq = None\<rparr>"

theorem snapshot_covers_exactly_witness:
  "snapshotCovers (demo_snapshot\<lparr>bs_ranges := [demo_range 3 4, demo_range 1 2]\<rparr>) 1 4"
proof -
  let ?s = "demo_snapshot\<lparr>bs_ranges := [demo_range 3 4, demo_range 1 2]\<rparr>"
  have "list_all (valid_range ?s) (bs_ranges ?s)" by code_simp
  from snapshot_covers_exactly [OF _ this, of 1 4] show ?thesis by (auto simp: demo_range_def inside_def)
qed

section \<open>Checkpoints\<close>

lemma find_same_key: "(\<And>r. P (f r) = P r) \<Longrightarrow> find P (upd P f rs) = map_option f (find P rs)"
  by (induction rs) auto

lemma complete_chunk_row:
  assumes "complete_chunk now p s st c old nx db = Inr db'" "chunk_at db p s = Some c" "chunk_at db' p s = Some c'" "c' \<noteq> c"
  obtains r where "cp_review old = Some r" "cp_final nx = Some r" "rv_opened_round r < cp_rounds nx"
    "rv_kind r = ''replace'' \<and> (\<exists>d. cp_candidate old = Some d \<and> cp_candidate nx = Some d \<and> ca_version d = rv_version r
        \<and> ca_sha256 d = rv_sha256 r \<and> estTextTokens (length (ca_text d)) < mc_est_tokens c \<and> c' = shelve_candidate now d c)
     \<or> rv_kind r = ''keep'' \<and> c' = keep_unchanged now c"
proof -
  have row: "chunk_at (upd_chunk p s f db) p s = Some (f c)" if "\<And>x. is_chunk p s (f x) = is_chunk p s x" for f
    using that assms(2) by (simp add: chunk_at_def upd_chunk_def find_same_key)
  have st: "st = BPrepared \<or> st = BKept" using assms(1,2,3,4) by (auto simp: complete_chunk_def split: if_splits)
  then have cf: "confirmed old nx" using assms(1) by (auto simp: complete_chunk_def split: if_splits)
  then obtain r where r: "cp_review old = Some r" "cp_final nx = Some r" "rv_opened_round r < cp_rounds nx"
    by (auto simp: confirmed_def split: option.splits)
  show thesis
  proof (cases "st = BPrepared")
    case True
    with assms(1) cf obtain d where d: "confirmed_candidate old nx = Some d" "estTextTokens (length (ca_text d)) < mc_est_tokens c"
      "db' = upd_chunk p s (shelve_candidate now d) db"
      by (auto simp: complete_chunk_def rbind_eq_Inr split: option.splits if_splits)
    have "c' = shelve_candidate now d c" using row [of "shelve_candidate now d"] assms(3) d(3) by (simp add: is_chunk_def shelve_candidate_def)
    with d r show thesis by (intro that) (auto simp: confirmed_candidate_def split: option.splits if_splits)
  next
    case False
    with assms(1) cf st r have "db' = upd_chunk p s (keep_unchanged now) db" "rv_kind r = ''keep''"
      by (auto simp: complete_chunk_def split: option.splits if_splits)
    moreover have "is_chunk p s (keep_unchanged now x) = is_chunk p s x" for x by (simp add: is_chunk_def keep_unchanged_def)
    then have "chunk_at (upd_chunk p s (keep_unchanged now) db) p s = Some (keep_unchanged now c)" by (rule row)
    ultimately have "c' = keep_unchanged now c" "rv_kind r = ''keep''" using assms(3) by simp_all
    with r show thesis by (intro that) blast+
  qed
qed

text \<open>
  C11. A chunk leaves preparation only through the confirmation opened before: when a checkpoint
  changes its chunk, the chunk was in preparation and the stored checkpoint of the expected revision
  had opened, in an earlier round, exactly the review the new one completes; a replacement is the
  stored candidate, unchanged, of the reviewed version and hash, and smaller than what it replaces;
  otherwise the review was for keeping and the chunk is kept as it is.
\<close>

theorem completion_needs_confirmation:
  assumes "SaveMemoryBranch mh now p gen s expected body db = Inr (db', b')"
    and "chunk_at db p s = Some c" and "chunk_at db' p s = Some c'" and "c' \<noteq> c"
  shows "mc_status c = CPreparing \<and> (\<exists>row v old raw nx r.
      branch_of db p s = Some row \<and> br_revision row = expected \<and> br_state row = Some v \<and> decodeCheckpoint mh v = Some old
    \<and> body = Some raw \<and> decodeCheckpoint mh raw = Some nx
    \<and> cp_review old = Some r \<and> cp_final nx = Some r \<and> rv_opened_round r < cp_rounds nx
    \<and> (rv_kind r = ''replace'' \<and> (\<exists>d. cp_candidate old = Some d \<and> cp_candidate nx = Some d \<and> ca_version d = rv_version r
          \<and> ca_sha256 d = rv_sha256 r \<and> estTextTokens (length (ca_text d)) < mc_est_tokens c \<and> c' = shelve_candidate now d c)
       \<or> rv_kind r = ''keep'' \<and> c' = keep_unchanged now c))"
proof -
  from assms(1) obtain raw nx st b row where body: "body = Some raw" "decodeCheckpoint mh raw = Some nx"
    and b: "readMemoryBranch db p s = Inr b" and row: "branch_of db p s = Some row"
    and k: "mbr_revision b = expected + 1 \<and> branchHash mh (canonicalBranchJSON mh raw) = br_checkpoint_hash row \<and> db' = db \<and> b' = b
     \<or> mbr_revision b = expected \<and> mc_status (mbr_chunk b) = CPreparing \<and> saveNext mh now p s expected raw st nx b db = Inr (db', b')"
    by (rule SaveMemoryBranch_cases)
  have "db' \<noteq> db" using assms(2-4) by auto
  with k have k: "mbr_revision b = expected" "mc_status (mbr_chunk b) = CPreparing" "saveNext mh now p s expected raw st nx b db = Inr (db', b')" by auto
  from b row assms(2) have bc: "mbr_chunk b = c" "mbr_state b = br_state row" "mbr_revision b = br_revision row"
    by (auto elim!: readMemoryBranch_rows)
  from k(3) obtain old db1 db2 where o: "mbr_state b = None \<and> old = zero_checkpoint \<or> (\<exists>v. mbr_state b = Some v \<and> decodeCheckpoint mh v = Some old)"
    and cc: "complete_chunk now p s st (mbr_chunk b) old nx db = Inr db1"
    and nt: "issue_notice now p s (expected + 1) (standing_issue mh b old) (cp_issue nx) db1 = Inr db2"
    and d: "db' = upd_branch p s (saved now raw (branchHash mh (canonicalBranchJSON mh raw)) st nx) db2"
    by (rule saveNext_parts)
  have "chunks db' = chunks db1" using issue_notice_tx [OF nt] by (simp add: d upd_branch_def)
  then have "chunk_at db1 p s = Some c'" using assms(3) by (simp add: chunk_at_def)
  from complete_chunk_row [OF cc [unfolded bc(1)] assms(2) this assms(4)] obtain r where
    r: "cp_review old = Some r" "cp_final nx = Some r" "rv_opened_round r < cp_rounds nx"
    "rv_kind r = ''replace'' \<and> (\<exists>d. cp_candidate old = Some d \<and> cp_candidate nx = Some d \<and> ca_version d = rv_version r
        \<and> ca_sha256 d = rv_sha256 r \<and> estTextTokens (length (ca_text d)) < mc_est_tokens c \<and> c' = shelve_candidate now d c)
     \<or> rv_kind r = ''keep'' \<and> c' = keep_unchanged now c" .
  from o r(1) obtain v where "br_state row = Some v" "decodeCheckpoint mh v = Some old" by (auto simp: zero_checkpoint_def bc(2))
  moreover have "mc_status c = CPreparing" "br_revision row = expected" using k(1,2) bc by simp_all
  ultimately show ?thesis using row body r by blast
qed

theorem completion_needs_confirmation_witness:
  "\<exists>old r nx. decodeCheckpoint demo_mem_host demo_opened = Some old \<and> decodeCheckpoint demo_mem_host demo_done = Some nx
    \<and> cp_review old = Some r \<and> cp_final nx = Some r \<and> rv_opened_round r < cp_rounds nx"
proof -
  let ?db = "demo_remembered CApplied 12000 demo_opened" and ?c = "(demo_chunk 2 3 3)\<lparr>mc_status := CPreparing\<rparr>"
  have "case SaveMemoryBranch demo_mem_host 20 ''p1'' 4 2 3 (Some demo_done) ?db of Inl e \<Rightarrow> False
      | Inr (db', b') \<Rightarrow> (case chunk_at db' ''p1'' 2 of None \<Rightarrow> False | Some c' \<Rightarrow> mc_status c' = CPrepared)" by code_simp
  then obtain db' b' c' where s: "SaveMemoryBranch demo_mem_host 20 ''p1'' 4 2 3 (Some demo_done) ?db = Inr (db', b')"
    and c': "chunk_at db' ''p1'' 2 = Some c'" "mc_status c' = CPrepared"
    by (auto split: sum.splits prod.splits option.splits)
  have "c' \<noteq> ?c" using c'(2) by auto
  have "chunk_at ?db ''p1'' 2 = Some ?c" by code_simp
  from completion_needs_confirmation [OF s this c'(1) \<open>c' \<noteq> ?c\<close>] show ?thesis by (auto simp: branch_of_def is_branch_def demo_memory_defs)
qed

lemma saved_branch:
  assumes "SaveMemoryBranch mh now p gen s expected (Some raw) db = Inr (db', b')"
  obtains nx st row where "decodeCheckpoint mh raw = Some nx" "check_checkpoint mh nx = Inr st" "readMemoryBranch db' p s = Inr b'"
    "branch_of db' p s = Some row" "mbr_revision b' = expected + 1" "br_checkpoint_hash row = branchHash mh (canonicalBranchJSON mh raw)"
proof -
  let ?h = "branchHash mh (canonicalBranchJSON mh raw)"
  from assms obtain nx st b row where n: "decodeCheckpoint mh raw = Some nx" "check_checkpoint mh nx = Inr st"
    and b: "readMemoryBranch db p s = Inr b" and row: "branch_of db p s = Some row"
    and k: "mbr_revision b = expected + 1 \<and> ?h = br_checkpoint_hash row \<and> db' = db \<and> b' = b
     \<or> mbr_revision b = expected \<and> mc_status (mbr_chunk b) = CPreparing \<and> saveNext mh now p s expected raw st nx b db = Inr (db', b')"
    by (rule SaveMemoryBranch_cases) auto
  show thesis
  proof (cases "saveNext mh now p s expected raw st nx b db = Inr (db', b') \<and> mbr_revision b = expected")
    case False
    with k n b row show thesis by (intro that [of nx st row]) auto
  next
    case True
    then obtain old db1 db2 where cc: "complete_chunk now p s st (mbr_chunk b) old nx db = Inr db1"
      and nt: "issue_notice now p s (expected + 1) (standing_issue mh b old) (cp_issue nx) db1 = Inr db2"
      and d: "db' = upd_branch p s (saved now raw ?h st nx) db2" "readMemoryBranch db' p s = Inr b'"
      by (elim conjE saveNext_parts)
    have "branches db1 = branches db"
      using cc by (auto simp: complete_chunk_def upd_chunk_def rbind_eq_Inr split: if_splits option.splits)
    then have "branch_of db2 p s = Some row" using issue_notice_tx [OF nt] row by (simp add: branch_of_def)
    then have r: "branch_of db' p s = Some (saved now raw ?h st nx row)"
      by (simp add: d(1) branch_of_def upd_branch_def find_same_key is_branch_def saved_def)
    moreover have "mbr_revision b' = br_revision (saved now raw ?h st nx row)" using d(2) r by (elim readMemoryBranch_rows) simp
    moreover have "br_revision row = expected" using True b row by (auto elim!: readMemoryBranch_rows)
    ultimately show thesis using n d(2) by (intro that) (auto simp: saved_def)
  qed
qed

text \<open>
  A checkpoint sent again is answered from its receipt: while the writer's lease lives, the
  repetition of a stored checkpoint at the same expected revision returns the same branch and changes
  nothing, and a checkpoint with another canonical content at that revision is refused.
\<close>

lemma checkpoint_resend:
  assumes "SaveMemoryBranch mh now p gen s expected (Some raw) db = Inr (db', b')"
    and "requireMemoryGeneration now' p gen db' = Inr ()"
  shows "SaveMemoryBranch mh now' p gen s expected (Some raw) db' = Inr (db', b')
    \<and> (\<forall>raw'. branchHash mh (canonicalBranchJSON mh raw') \<noteq> branchHash mh (canonicalBranchJSON mh raw)
        \<longrightarrow> (\<exists>e. SaveMemoryBranch mh now' p gen s expected (Some raw') db' = Inl e))"
proof -
  from assms(1) obtain nx st row where n: "decodeCheckpoint mh raw = Some nx" "check_checkpoint mh nx = Inr st" "readMemoryBranch db' p s = Inr b'"
    "branch_of db' p s = Some row" "mbr_revision b' = expected + 1" "br_checkpoint_hash row = branchHash mh (canonicalBranchJSON mh raw)"
    by (rule saved_branch)
  have "SaveMemoryBranch mh now' p gen s expected (Some raw) db' = Inr (db', b')"
    using n assms(2) by (simp add: SaveMemoryBranch_def)
  moreover have "\<exists>e. SaveMemoryBranch mh now' p gen s expected (Some raw') db' = Inl e"
    if "branchHash mh (canonicalBranchJSON mh raw') \<noteq> branchHash mh (canonicalBranchJSON mh raw)" for raw'
  proof (cases "SaveMemoryBranch mh now' p gen s expected (Some raw') db'")
    case (Inr r)
    then obtain nx' st' where "decodeCheckpoint mh raw' = Some nx'" "check_checkpoint mh nx' = Inr st'"
      by (auto simp: SaveMemoryBranch_def rbind_eq_Inr require_eq_Inr)
    with Inr n assms(2) that show ?thesis by (simp add: SaveMemoryBranch_def)
  qed blast
  ultimately show ?thesis by blast
qed

section \<open>Claims\<close>

lemma begin_preparing_row:
  assumes "begin_preparing now p gen n db = Inr (db', Some b)"
  obtains c row where "chunk_at db p (int n) = Some c" "branch_of db p (int n) = Some row"
    "mbr_chunk b = c\<lparr>mc_status := CPreparing, mc_claimed_generation := Some gen, mc_claimed_at := Some now, mc_not_before := None\<rparr>"
    "chunk_at db' p (int n) = Some (mbr_chunk b)" "mbr_snapshot b = br_snapshot row" "mbr_state b = br_state row"
proof -
  let ?f = "\<lambda>c. c\<lparr>mc_status := CPreparing, mc_claimed_generation := Some gen, mc_claimed_at := Some now, mc_not_before := None\<rparr>"
  from assms have d: "db' = upd_chunk p (int n) ?f db" and r: "readMemoryBranch db' p (int n) = Inr b"
    by (auto simp: begin_preparing_def Let_def rbind_eq_Inr)
  have "chunk_at db' p (int n) = map_option ?f (chunk_at db p (int n))"
    by (simp add: d chunk_at_def upd_chunk_def find_same_key is_chunk_def)
  moreover have br: "branch_of db' p (int n) = branch_of db p (int n)" by (simp add: d branch_of_def upd_chunk_def)
  moreover from r obtain row where row: "branch_of db' p (int n) = Some row" "chunk_at db' p (int n) = Some (mbr_chunk b)"
    "mbr_state b = br_state row" "mbr_snapshot b = br_snapshot row" by (rule readMemoryBranch_rows)
  ultimately obtain c where "chunk_at db p (int n) = Some c" "mbr_chunk b = ?f c" by (cases "chunk_at db p (int n)") auto
  with row br show thesis by (intro that) simp_all
qed

lemma upsert_row: "\<exists>row. branch_of (upsert_branch now p n snap db) p (int n) = Some row \<and> br_snapshot row = snap \<and> br_state row = None"
proof (cases "branch_of db p (int n)")
  case None
  then show ?thesis by (auto simp: upsert_branch_def new_branch_def branch_of_def find_append is_branch_def)
next
  case (Some r)
  then show ?thesis by (simp add: upsert_branch_def upd_branch_def branch_of_def find_same_key is_branch_def)
qed

lemma mem_tx_ok: "mem_tx db db' \<Longrightarrow> mem_ok db \<Longrightarrow> mem_ok db'"
  by (simp add: mem_tx_def mem_lawful_def)

text \<open>
  C22. A claim hands out the persona's one branch: the chunk it returns is in preparation under the
  claiming generation and is the only one of its persona in preparation; and it was in preparation
  before, or it is a chunk that the snapshot of this very claim covers, with a branch that starts from
  that snapshot. Without a snapshot a claim can only resume.
\<close>

theorem claim_hands_out_one_branch:
  assumes "mem_ok db" and "ClaimMemoryBranch mh now p gen s policy db = Inr (db', Some b)"
  shows "mc_status (mbr_chunk b) = CPreparing \<and> mc_claimed_generation (mbr_chunk b) = Some gen
    \<and> (\<forall>d \<in> set (chunks db'). mc_persona_id d = p \<longrightarrow> mc_status d = CPreparing \<longrightarrow> d = mbr_chunk b)
    \<and> ((\<exists>d \<in> set (chunks db). is_chunk p (int (mc_chunk_seq (mbr_chunk b))) d \<and> mc_status d = CPreparing)
       \<or> (\<exists>snap. s = Some snap \<and> mbr_snapshot b = snap \<and> mbr_state b = None
            \<and> snapshotCovers snap (int (mc_first_seq (mbr_chunk b))) (int (mc_last_seq (mbr_chunk b)))))"
proof -
  have ok': "mem_ok db'" by (rule mem_tx_ok [OF ClaimMemoryBranch_tx [OF assms(2)] assms(1)])
  have one: "\<forall>d \<in> set (chunks db'). mc_persona_id d = p \<longrightarrow> mc_status d = CPreparing \<longrightarrow> d = mbr_chunk b"
    if c: "chunk_at db' p (int n) = Some (mbr_chunk b)" "mc_status (mbr_chunk b) = CPreparing" for n
  proof (intro ballI impI)
    fix d assume d: "d \<in> set (chunks db')" "mc_persona_id d = p" "mc_status d = CPreparing"
    have b: "mbr_chunk b \<in> set (chunks db')" "is_chunk p (int n) (mbr_chunk b)" using c(1) by (simp_all add: chunk_at_def find_SomeD)
    have "chunk_key d \<in> preparing (chunks db')" "chunk_key (mbr_chunk b) \<in> preparing (chunks db')"
      using d b c(2) unfolding preparing_def by blast+
    then have "chunk_key d = chunk_key (mbr_chunk b)"
      using ok' d(2) b(2) unfolding mem_ok_def one_preparing_def is_chunk_def by (metis fst_conv)
    then show "d = mbr_chunk b" by (rule keyed_inj [OF mem_okD(1) [OF ok'] d(1) b(1)])
  qed
  from assms(2) show ?thesis
  proof (cases rule: ClaimMemoryBranch_cases)
    case (resumed db1 r)
    have ok1: "mem_ok db1" by (rule mem_tx_ok [OF restart_tx [OF resumed(1)] assms(1)])
    from resumed(3) obtain c where c: "chunk_at db1 p (int (br_chunk_seq r)) = Some c"
      "mbr_chunk b = c\<lparr>mc_status := CPreparing, mc_claimed_generation := Some gen, mc_claimed_at := Some now, mc_not_before := None\<rparr>"
      "chunk_at db' p (int (br_chunk_seq r)) = Some (mbr_chunk b)" by (rule begin_preparing_row)
    have same: "chunks db1 = chunks db"
      using resumed(1) by (auto simp: restartRequestedMemory_def rbind_eq_Inr upd_branch_def archiveMemoryAttempt_def split: option.splits if_splits)
    have cr: "c \<in> set (chunks db1)" "is_chunk p (int (br_chunk_seq r)) c" using c(1) by (simp_all add: chunk_at_def find_SomeD)
    have "mc_status c = CPreparing" by (rule preparing_status [OF ok1 openBranches_preparing [OF resumed(2)] cr])
    moreover have "mc_chunk_seq c = br_chunk_seq r" using cr(2) by (simp add: is_chunk_def)
    ultimately show ?thesis using c(2) one [OF c(3)] cr same by auto
  next
    case (claimed db1 snap db2 c0)
    have ok2: "mem_ok db2"
      by (rule mem_tx_ok [OF _ mem_tx_ok [OF restart_tx [OF claimed(1)] assms(1)]]) (use reconsider_tx [OF claimed(4)] in blast)
    let ?n = "mc_chunk_seq c0" and ?d = "upsert_branch now p (mc_chunk_seq c0) snap db2"
    from claimed(6) obtain c row where c: "chunk_at ?d p (int ?n) = Some c" "branch_of ?d p (int ?n) = Some row"
      "mbr_chunk b = c\<lparr>mc_status := CPreparing, mc_claimed_generation := Some gen, mc_claimed_at := Some now, mc_not_before := None\<rparr>"
      "chunk_at db' p (int ?n) = Some (mbr_chunk b)" "mbr_snapshot b = br_snapshot row" "mbr_state b = br_state row"
      by (rule begin_preparing_row)
    have c0: "c0 \<in> set (chunks db2)" "is_chunk p (int ?n) c0" "snapshotCovers snap (int (mc_first_seq c0)) (int (mc_last_seq c0))"
      using claimed(5) by (auto simp: claimCandidates_def chunks_of_def is_chunk_def)
    have "c \<in> set (chunks db2)" "is_chunk p (int ?n) c" using c(1) by (simp_all add: chunk_at_def find_SomeD)
    then have "c = c0" using chunk_row_unique [OF ok2 _ c0(1) _ c0(2)] by blast
    with c0(3) c one [OF c(4)] upsert_row [of now p ?n snap db2] claimed(2) show ?thesis by auto
  qed simp
qed

definition demo_claimable :: "unit db" where
  "demo_claimable = demo_running\<lparr>events := [demo_fact 1, demo_fact 2], chunks := [demo_chunk 1 1 2]\<rparr>"

definition demo_live_context :: branch_snapshot where
  "demo_live_context = \<lparr>bs_messages = [\<lparr>rm_size = 40, rm_value = JObj [(''role'', JStr ''user''), (''content'', JStr ''hi'')]\<rparr>], bs_tools = [],
     bs_ranges = [demo_range 1 2], bs_binding = None\<rparr>"

lemma demo_claimable_mem: "mem_ok demo_claimable"
proof -
  have "gapless demo_claimable p" for p by (cases "p = ''p1''") (simp_all add: gapless_def demo_claimable_def demo_fact_def upt_rec)
  then show ?thesis
    by (simp add: mem_ok_def shelf_ok_def demo_claimable_def demo_chunk_def demo_fact_def new_chunk_def keyed_def wf_frag_def apart_in_def
        texted_def ends_by_def last_seq_def preparing_def one_preparing_def demo_run_defs)
qed

theorem claim_hands_out_one_branch_witness:
  "\<exists>db' b. ClaimMemoryBranch demo_mem_host 20 ''p1'' 4 (Some demo_live_context) None demo_claimable = Inr (db', Some b)
    \<and> mc_status (mbr_chunk b) = CPreparing \<and> mc_claimed_generation (mbr_chunk b) = Some 4"
proof -
  have "case ClaimMemoryBranch demo_mem_host 20 ''p1'' 4 (Some demo_live_context) None demo_claimable of Inl e \<Rightarrow> False
      | Inr (db', r) \<Rightarrow> r \<noteq> None" by code_simp
  then obtain db' b where c: "ClaimMemoryBranch demo_mem_host 20 ''p1'' 4 (Some demo_live_context) None demo_claimable = Inr (db', Some b)"
    by (auto split: sum.splits prod.splits)
  from claim_hands_out_one_branch [OF demo_claimable_mem c] c show ?thesis by blast
qed

section \<open>A checkpoint that cannot be read again\<close>

lemma decoded_storable:
  assumes "decodeCheckpoint mh v = Some cp" "storable v" "m \<in> set (cp_messages cp)"
  shows "storable m"
proof -
  from assms(1,3) obtain kvs xs where v: "v = JObj kvs" and x: "dec_arr kvs ''messages'' = Some xs" "m \<in> set xs"
    by (auto simp: decodeCheckpoint_def zero_checkpoint_def dec_fields_def split: json.splits option.splits)
  from x have "map_of kvs ''messages'' = Some (JArr xs)" by (auto simp: dec_arr_def split: option.splits json.splits)
  then have "(''messages'', JArr xs) \<in> set kvs" by (rule map_of_SomeD)
  with assms(2) v x(2) show ?thesis by (fastforce simp: list_all_iff)
qed

lemma view_branches_fails: "b \<in> set bs \<Longrightarrow> as_jsonb (br_state b) = Inl e \<Longrightarrow> \<exists>e'. view_branches mh bs = Inl e'"
proof (induction bs)
  case (Cons x bs)
  show ?case
  proof (cases "as_jsonb (br_state x)")
    case (Inr st)
    with Cons.prems have "b \<in> set bs" by auto
    with Cons obtain e' where "view_branches mh bs = Inl e'" by blast
    with Inr show ?thesis by simp
  qed simp
qed simp

lemma first_branch_fails:
  assumes "bs \<noteq> []" "\<forall>x \<in> set bs. x = b" "f b = Inl e"
  shows "first_branch f bs = Inl e"
  using assms by (cases bs) auto

lemma open_branch_is:
  assumes "mem_ok db" "branch_of db p s = Some row" "chunk_at db p s = Some c" "mc_status c = CPreparing"
  shows "row \<in> set (openBranches db p)" "\<forall>b \<in> set (openBranches db p). b = row"
proof -
  have r: "row \<in> set (branches db)" "is_branch p s row" and c: "c \<in> set (chunks db)" "is_chunk p s c"
    using assms(2,3) by (simp_all add: branch_of_def chunk_at_def find_SomeD)
  then show row: "row \<in> set (openBranches db p)"
    using assms(4) by (auto simp: openBranches_def preparing_at_def list_ex_iff chunks_of_def is_branch_def is_chunk_def)
  show "\<forall>b \<in> set (openBranches db p). b = row"
  proof
    fix b assume b: "b \<in> set (openBranches db p)"
    have "(p, br_chunk_seq b) = (p, br_chunk_seq row)"
      using openBranches_preparing [OF b] openBranches_preparing [OF row] assms(1) unfolding mem_ok_def one_preparing_def by (metis fst_conv)
    moreover have "b \<in> set (branches db)" "br_persona_id b = p" using b by (auto simp: openBranches_def)
    ultimately show "b = row" using assms(1) r by (intro keyed_inj [of branch_key "branches db"]) (auto simp: mem_ok_def is_branch_def)
  qed
qed

lemma appended_storable:
  assumes "list_all2 jsonb_eq ms (take (length ms) ns)" "m \<in> set ms" "\<not> storable m"
  shows "\<exists>n \<in> set ns. \<not> storable n"
proof -
  from assms(1,2) obtain n where "n \<in> set (take (length ms) ns)" "jsonb_eq m n" using list_all2_old by metis
  moreover have "storable n = storable m" using \<open>jsonb_eq m n\<close> unfolding jsonb_eq_def by (metis storable_jnorm)
  ultimately show ?thesis using assms(3) in_set_takeD by metis
qed

text \<open>
  C23. A checkpoint is stored as text but read as jsonb: once a branch in preparation has a message
  with a NUL in it, the status of the persona's memory and every claim fail, whatever the snapshot and
  the policy; and since the transcript is append-only, every later checkpoint of the branch that is
  accepted still has such a message.
\<close>

theorem nul_checkpoint_blocks_memory:
  assumes "mem_ok db" and "chunk_at db p s = Some c" and "mc_status c = CPreparing" and "branch_of db p s = Some row"
    and "br_state row = Some v" and "decodeCheckpoint mh v = Some old" and "m \<in> set (cp_messages old)" and "\<not> storable m"
  shows "(\<exists>e. MemoryStatus mh now p db = Inl e) \<and> (\<exists>e. ClaimMemoryBranch mh now p gen snap policy db = Inl e)
    \<and> (\<forall>expected body db' b'. SaveMemoryBranch mh now p gen s expected body db = Inr (db', b')
        \<longrightarrow> (\<exists>v' cp m'. mbr_state b' = Some v' \<and> decodeCheckpoint mh v' = Some cp \<and> m' \<in> set (cp_messages cp) \<and> \<not> storable m'))"
proof (intro conjI allI impI)
  note open_row = open_branch_is [OF assms(1,4,2,3)]
  have "\<not> storable v" using decoded_storable [OF assms(6) _ assms(7)] assms(8) by blast
  then obtain e where bad: "as_jsonb (br_state row) = Inl e" by (simp add: as_jsonb_def assms(5))
  from view_branches_fails [OF open_row(1) bad, of mh] show "\<exists>e. MemoryStatus mh now p db = Inl e"
    by (auto simp: MemoryStatus_def Let_def)
  have ne: "openBranches db p \<noteq> []" using open_row(1) by auto
  have fb: "first_branch (rebranch_requested mh) (openBranches db p) = Inl e"
    "first_branch (resumable mh now policy fp) (openBranches db p) = Inl e" for fp
    by (rule first_branch_fails [OF ne open_row(2)], simp add: rebranch_requested_def resumable_def bad)+
  have "ClaimMemoryBranch mh now p gen snap policy db \<noteq> Inr r" for r
  proof
    assume "ClaimMemoryBranch mh now p gen snap policy db = Inr r"
    then obtain db1 x where rs: "restartRequestedMemory mh now p snap db = Inr db1"
      and f: "first_branch (resumable mh now policy (selectedFingerprint snap)) (openBranches db1 p) = Inr x"
      unfolding ClaimMemoryBranch_def rbind_eq_Inr by blast
    have "db1 = db" using rs fb(1) by (auto simp: restartRequestedMemory_def split: option.splits if_splits)
    with f fb(2) show False by simp
  qed
  then show "\<exists>e. ClaimMemoryBranch mh now p gen snap policy db = Inl e" by (cases "ClaimMemoryBranch mh now p gen snap policy db") auto
next
  fix expected body db' b'
  assume "SaveMemoryBranch mh now p gen s expected body db = Inr (db', b')"
  then obtain raw nx st b row' where dec: "decodeCheckpoint mh raw = Some nx" and b: "readMemoryBranch db p s = Inr b"
    and k: "db' = db \<and> b' = b \<or> saveNext mh now p s expected raw st nx b db = Inr (db', b')"
    by (rule SaveMemoryBranch_cases) blast
  have st: "mbr_state b = Some v" using b assms(4,5) by (auto elim!: readMemoryBranch_rows)
  show "\<exists>v' cp m'. mbr_state b' = Some v' \<and> decodeCheckpoint mh v' = Some cp \<and> m' \<in> set (cp_messages cp) \<and> \<not> storable m'"
  proof (cases "db' = db \<and> b' = b")
    case True
    with st assms(6-8) show ?thesis by blast
  next
    case False
    with k obtain old' db1 db2 where o: "mbr_state b = None \<and> old' = zero_checkpoint \<or> (\<exists>v. mbr_state b = Some v \<and> decodeCheckpoint mh v = Some old')"
      and pr: "check_progress old' nx = Inr ()"
      and d: "db' = upd_branch p s (saved now raw (branchHash mh (canonicalBranchJSON mh raw)) st nx) db2" "readMemoryBranch db' p s = Inr b'"
      by (auto elim: saveNext_parts)
    have "old' = old" using o st assms(6) by simp
    with pr have "list_all2 jsonb_eq (cp_messages old) (take (length (cp_messages old)) (cp_messages nx))"
      by (auto simp: check_progress_def rbind_eq_Inr guard_eq_Inr)
    from appended_storable [OF this assms(7,8)] obtain n where "n \<in> set (cp_messages nx)" "\<not> storable n" by blast
    moreover have "mbr_state b' = Some raw"
    proof -
      from d(2) obtain r where r: "branch_of db' p s = Some r" "mbr_state b' = br_state r" by (rule readMemoryBranch_rows)
      moreover have "branch_of db' p s = map_option (saved now raw (branchHash mh (canonicalBranchJSON mh raw)) st nx) (branch_of db2 p s)"
        by (simp add: d(1) branch_of_def upd_branch_def find_same_key is_branch_def saved_def)
      ultimately show ?thesis by (auto simp: saved_def)
    qed
    ultimately show ?thesis using dec by blast
  qed
qed

definition demo_nul :: json where
  "demo_nul = demo_checkpoint ''running'' [JStr ''m'', JStr [NUL]] 1 []"

theorem nul_checkpoint_blocks_memory_witness:
  "\<exists>db' b'. SaveMemoryBranch demo_mem_host 20 ''p1'' 4 2 3 (Some demo_nul) (demo_remembered CApplied 12000 demo_opened) = Inr (db', b')
    \<and> (\<exists>e. MemoryStatus demo_mem_host 30 ''p1'' db' = Inl e)
    \<and> (\<exists>e. ClaimMemoryBranch demo_mem_host 30 ''p1'' 4 None None db' = Inl e)"
proof -
  let ?db = "demo_remembered CApplied 12000 demo_opened"
  have "case SaveMemoryBranch demo_mem_host 20 ''p1'' 4 2 3 (Some demo_nul) ?db of Inl e \<Rightarrow> False
      | Inr (db', b') \<Rightarrow> (case chunk_at db' ''p1'' 2 of None \<Rightarrow> False | Some c \<Rightarrow> mc_status c = CPreparing)
          \<and> (case branch_of db' ''p1'' 2 of None \<Rightarrow> False | Some r \<Rightarrow> br_state r = Some demo_nul)" by code_simp
  then obtain db' b' c r where s: "SaveMemoryBranch demo_mem_host 20 ''p1'' 4 2 3 (Some demo_nul) ?db = Inr (db', b')"
    and c: "chunk_at db' ''p1'' 2 = Some c" "mc_status c = CPreparing" and r: "branch_of db' ''p1'' 2 = Some r" "br_state r = Some demo_nul"
    by (auto split: sum.splits prod.splits option.splits)
  have "case decodeCheckpoint demo_mem_host demo_nul of None \<Rightarrow> False | Some cp \<Rightarrow> list_ex (\<lambda>m. m = JStr [NUL]) (cp_messages cp)" by code_simp
  then obtain cp where cp: "decodeCheckpoint demo_mem_host demo_nul = Some cp" "JStr [NUL] \<in> set (cp_messages cp)"
    by (auto simp: list_ex_iff split: option.splits)
  have "mem_ok ?db" by (rule demo_remembered_mem) simp
  from mem_tx_ok [OF SaveMemoryBranch_tx [OF s] this] have ok: "mem_ok db'" .
  have "\<not> storable (JStr [NUL])" by simp
  from nul_checkpoint_blocks_memory [OF ok c r cp this, of 30 4 None None] s show ?thesis by blast
qed

end
