(* ===== verification/History_Pages.thy ===== *)
theory History_Pages
  imports Core_Frames
begin

text \<open>
  What the history tool promises its caller. A search and a read answer in pages that name their
  continuation, and a long event in fragments that do; each of the three is a \<open>continued_pages\<close>, so
  following the continuations ends and gives the whole answer: every matching record, every event of
  the range, every character of an event.
\<close>

declare follow.simps [simp del]

section \<open>Search\<close>

text \<open>The records a search is about: the query is a literal part of the stored text or of the serialization.\<close>

definition matches :: "history_host \<Rightarrow> string \<Rightarrow> event_row \<Rightarrow> bool" where
  "matches hh q e \<longleftrightarrow> (case event_text e of None \<Rightarrow> False | Some t \<Rightarrow> str_contains t q)
     \<or> (case journalEventJSON hh e of Inl _ \<Rightarrow> False | Inr s \<Rightarrow> str_contains s q)"

definition readable :: "history_host \<Rightarrow> 'd db \<Rightarrow> string \<Rightarrow> bool" where
  "readable hh db p \<longleftrightarrow> keyed event_key (events db) \<and> list_all (\<lambda>e. \<not> isl (journalEventJSON hh e)) (events_of db p)"

lemma readable_keyed: "readable hh db p \<Longrightarrow> keyed seq_int (events_of db p)"
  by (auto simp: readable_def keyed_def events_of_def distinct_map distinct_filter inj_on_def)

lemma readable_json: "readable hh db p \<Longrightarrow> e \<in> set (events_of db p) \<Longrightarrow> \<exists>s. journalEventJSON hh e = Inr s"
  by (auto simp: readable_def list_all_iff isl_def split: sum.splits) (metis sum.exhaust)

lemma str_contains_iff: "str_contains s sub \<longleftrightarrow> (\<exists>a b. s = a @ sub @ b)"
proof (induction s)
  case Nil
  then show ?case by (simp add: str_contains_def)
next
  case (Cons c s)
  have pre: "has_prefix (c # s) sub \<longleftrightarrow> (\<exists>b. c # s = sub @ b)"
    by (metis has_prefixE has_prefix_append)
  have "str_contains (c # s) sub \<longleftrightarrow> has_prefix (c # s) sub \<or> str_contains s sub"
    by (simp add: str_contains_def)
  also have "\<dots> \<longleftrightarrow> (\<exists>a b. c # s = a @ sub @ b)"
    unfolding pre Cons.IH by (auto simp: Cons_eq_append_conv)
  finally show ?case .
qed

lemma matchRecord_ok:
  assumes "journalEventJSON hh e = Inr s"
  obtains (miss) "matchRecord hh e q = Inr None" "\<not> matches hh q e"
    | (hit) h where "matchRecord hh e q = Inr (Some h)" "matches hh q e" "sh_event h = e"
proof (cases "matches hh q e")
  case True
  with assms have "\<exists>h. matchRecord hh e q = Inr (Some h) \<and> sh_event h = e"
    by (auto simp: matchRecord_def matches_def Let_def split: option.splits)
  with True show thesis by (auto intro: hit)
next
  case False
  with assms have "matchRecord hh e q = Inr None" by (auto simp: matchRecord_def matches_def Let_def split: option.splits)
  with False show thesis by (rule miss [rotated])
qed

text \<open>How far a scan came: the records it took, and why it stopped.\<close>

definition scan_ended :: "nat \<Rightarrow> event_row list \<Rightarrow> scan \<Rightarrow> scan \<Rightarrow> bool \<Rightarrow> bool" where
  "scan_ended cap post s s' stop \<longleftrightarrow>
     (if \<not> stop then post = [] \<and> sc_budget s' = sc_budget s \<and> length (sc_hits s') \<le> cap
        else if sc_budget s' \<and> \<not> sc_budget s then historySearchScanRecords \<le> sc_scanned s' \<and> length (sc_hits s') \<le> cap
        else length (sc_hits s') = Suc cap)"

definition scanned :: "history_host \<Rightarrow> string \<Rightarrow> nat \<Rightarrow> event_row list \<Rightarrow> scan \<Rightarrow> scan \<Rightarrow> bool \<Rightarrow> bool" where
  "scanned hh q cap es s s' stop \<longleftrightarrow> (\<exists>pre post. es = pre @ post
     \<and> map sh_event (sc_hits s') = map sh_event (sc_hits s) @ filter (matches hh q) pre
     \<and> sc_scanned s' = sc_scanned s + length pre
     \<and> sc_cursor s' = (if pre = [] then sc_cursor s else seq_int (last pre))
     \<and> (pre \<noteq> [] \<longrightarrow> sc_scanned s' \<le> historySearchScanRecords)
     \<and> scan_ended cap post s s' stop)"

lemma scanned_more: "scanned hh q cap es s s' True \<Longrightarrow> scanned hh q cap (es @ r) s s' True"
  unfolding scanned_def scan_ended_def by fastforce

lemma scanned_trans:
  assumes "scanned hh q cap es s s1 False" "scanned hh q cap es' s1 s' stop"
  shows "scanned hh q cap (es @ es') s s' stop"
proof -
  from assms(1) have 1: "map sh_event (sc_hits s1) = map sh_event (sc_hits s) @ filter (matches hh q) es"
    "sc_scanned s1 = sc_scanned s + length es" "sc_cursor s1 = (if es = [] then sc_cursor s else seq_int (last es))"
    "es \<noteq> [] \<longrightarrow> sc_scanned s1 \<le> historySearchScanRecords" "sc_budget s1 = sc_budget s"
    by (auto simp: scanned_def scan_ended_def)
  from assms(2) obtain pre post where 2: "es' = pre @ post"
    "map sh_event (sc_hits s') = map sh_event (sc_hits s1) @ filter (matches hh q) pre"
    "sc_scanned s' = sc_scanned s1 + length pre" "sc_cursor s' = (if pre = [] then sc_cursor s1 else seq_int (last pre))"
    "pre \<noteq> [] \<longrightarrow> sc_scanned s' \<le> historySearchScanRecords"
    and ends: "scan_ended cap post s1 s' stop"
    unfolding scanned_def by blast
  show ?thesis unfolding scanned_def
    by (rule exI [of _ "es @ pre"], rule exI [of _ post]) (use 1 2 ends in \<open>auto simp: scan_ended_def split: if_splits\<close>)
qed

lemma scan_batch_scanned:
  assumes "\<forall>e \<in> set es. \<exists>t. journalEventJSON hh e = Inr t" "length (sc_hits s) \<le> cap" "\<not> sc_budget s"
  shows "\<exists>s' stop. scan_batch hh q cap es s = Inr (s', stop) \<and> scanned hh q cap es s s' stop"
  using assms
proof (induction es arbitrary: s)
  case Nil
  then show ?case by (auto simp: scanned_def scan_ended_def)
next
  case (Cons e es)
  let ?s = "s\<lparr>sc_scanned := sc_scanned s + 1, sc_cursor := seq_int e\<rparr>"
  from Cons.prems(1) obtain t where t: "journalEventJSON hh e = Inr t" by auto
  show ?case
  proof (cases "historySearchScanRecords \<le> sc_scanned s")
    case True
    with Cons.prems show ?thesis
      by (auto simp: scanned_def scan_ended_def intro!: exI [of _ "[]"])
  next
    case False
    have step: ?thesis if r: "scan_batch hh q cap (e # es) s = scan_batch hh q cap es s1"
      and s1: "scanned hh q cap [e] s s1 False" for s1
    proof -
      from s1 Cons.prems(3) have "length (sc_hits s1) \<le> cap" "\<not> sc_budget s1" by (auto simp: scanned_def scan_ended_def)
      with Cons.IH [of s1] Cons.prems(1) obtain s' stop
        where "scan_batch hh q cap es s1 = Inr (s', stop)" "scanned hh q cap es s1 s' stop" by auto
      with r scanned_trans [OF s1] show ?thesis by auto
    qed
    from t show ?thesis
    proof (cases rule: matchRecord_ok [where q = q])
      case miss
      with False Cons.prems show ?thesis by (intro step [of ?s]) (auto simp: Let_def scanned_def scan_ended_def)
    next
      case (hit h)
      let ?s2 = "?s\<lparr>sc_hits := sc_hits s @ [h]\<rparr>"
      show ?thesis
      proof (cases "cap < length (sc_hits ?s2)")
        case True
        with False hit have "scan_batch hh q cap (e # es) s = Inr (?s2, True)" by (simp add: Let_def)
        moreover have "scanned hh q cap ([e] @ es) s ?s2 True"
          by (rule scanned_more, unfold scanned_def, rule exI [of _ "[e]"], rule exI [of _ "[]"])
            (use True False hit Cons.prems in \<open>auto simp: scan_ended_def\<close>)
        ultimately show ?thesis by auto
      next
        case notfull: False
        with False hit Cons.prems show ?thesis by (intro step [of ?s2]) (auto simp: Let_def scanned_def scan_ended_def)
      qed
    qed
  qed
qed

lemma scan_loop_scanned:
  assumes "readable hh db p" "length (sc_hits s) \<le> cap" "\<not> sc_budget s"
  shows "\<exists>s' stop. scan_loop hh db p q cap s = Inr s' \<and> scanned hh q cap (after (sc_cursor s) seq_int (events_of db p)) s s' stop"
  using assms
proof (induction hh db p q cap s rule: scan_loop.induct)
  case (1 hh db p q cap s)
  let ?E = "events_of db p" and ?A = "\<lambda>c. after c seq_int (events_of db p)"
  let ?b = "history_batch db p (sc_cursor s)"
  have sub: "set ?b \<subseteq> set ?E" by (auto simp: history_batch_def page_def after_def dest: in_set_takeD)
  have "\<forall>e \<in> set ?b. \<exists>t. journalEventJSON hh e = Inr t" using sub readable_json [OF 1(2)] by blast
  from scan_batch_scanned [OF this 1(3,4)] obtain s1 stop
    where b: "scan_batch hh q cap ?b s = Inr (s1, stop)" and sc: "scanned hh q cap ?b s s1 stop" by blast
  have cut: "?A (sc_cursor s) = ?b @ drop historySearchBatch (?A (sc_cursor s))" by (simp add: history_batch_def page_def)
  consider (stop) stop | (short) "\<not> stop" "length ?b < historySearchBatch"
    | (on) "\<not> stop" "\<not> length ?b < historySearchBatch" by blast
  then show ?case
  proof cases
    case stop
    with sc scanned_more have "scanned hh q cap (?A (sc_cursor s)) s s1 True" using cut by metis
    with b stop show ?thesis by (subst scan_loop.simps) (auto simp: Let_def)
  next
    case short
    then have "?b = ?A (sc_cursor s)" by (simp add: history_batch_def page_def)
    with b sc short show ?thesis by (subst scan_loop.simps) (auto simp: Let_def)
  next
    case on
    then have ne: "?b \<noteq> []" by (auto simp: historySearchBatch_def)
    from sc on have s1: "length (sc_hits s1) \<le> cap" "\<not> sc_budget s1" "sc_cursor s1 = seq_int (last ?b)"
      using 1(4) ne by (auto simp: scanned_def scan_ended_def)
    from 1(1) [OF refl b refl] on 1(2) s1 obtain s' stop'
      where l: "scan_loop hh db p q cap s1 = Inr s'" "scanned hh q cap (?A (sc_cursor s1)) s1 s' stop'" by auto
    have "?A (sc_cursor s) = ?b @ ?A (sc_cursor s1)"
      using page_next [OF readable_keyed [OF 1(2)], of historySearchBatch "sc_cursor s"] ne
      unfolding history_batch_def s1(3) by blast
    with scanned_trans [OF _ l(2)] sc on l(1) b show ?thesis by (subst scan_loop.simps) (auto simp: Let_def)
  qed
qed

definition search_start :: "historyArgs \<Rightarrow> int" where
  "search_start a = (case ha_afterSeq a of None \<Rightarrow> 0 | Some n \<Rightarrow> n)"

text \<open>The rest of the journal a search has not looked at.\<close>

abbreviation search_rest :: "'d db \<Rightarrow> string \<Rightarrow> historyArgs \<Rightarrow> event_row list" where
  "search_rest db p a \<equiv> after (search_start a) seq_int (events_of db p)"

text \<open>A call and the call its answer asks for next, with \<^verbatim>\<open>next_after_seq\<close> as \<^verbatim>\<open>after_seq\<close>.\<close>

definition search_page_of :: "history_host \<times> 'd db \<times> string \<Rightarrow> historyArgs \<Rightarrow> event_row list \<times> historyArgs option" where
  "search_page_of x a = (case x of (hh, db, p) \<Rightarrow> (case historySearch hh db p a of
     Inl _ \<Rightarrow> ([], None)
   | Inr r \<Rightarrow> (map sh_event (sp_hits r), map_option (\<lambda>n. a\<lparr>ha_afterSeq := Some n\<rparr>) (sp_next r))))"

definition search_answer :: "history_host \<times> 'd db \<times> string \<Rightarrow> historyArgs \<Rightarrow> event_row list" where
  "search_answer x a = (case x of (hh, db, p) \<Rightarrow> filter (matches hh (the (ha_query a))) (search_rest db p a))"

definition search_valid :: "history_host \<times> 'd db \<times> string \<Rightarrow> historyArgs \<Rightarrow> bool" where
  "search_valid x a = (case x of (hh, db, p) \<Rightarrow> readable hh db p \<and> 0 < ha_limit a)"

definition search_left :: "history_host \<times> 'd db \<times> string \<Rightarrow> historyArgs \<Rightarrow> nat" where
  "search_left x a = (case x of (hh, db, p) \<Rightarrow> length (search_rest db p a))"

lemma filter_nth_split:
  assumes "i < length (filter P xs)"
  obtains us vs where "xs = us @ [filter P xs ! i] @ vs" "filter P us = take i (filter P xs)"
  using assms
proof (induction xs arbitrary: i thesis)
  case (Cons x xs)
  show ?case
  proof (cases "P x \<and> i = 0")
    case True
    then show ?thesis by (intro Cons.prems(1) [of "[]" xs]) simp_all
  next
    case False
    define j where "j = (if P x then i - 1 else i)"
    have "j < length (filter P xs)" using Cons.prems(2) False by (auto simp: j_def split: if_splits)
    then obtain us vs where "xs = us @ [filter P xs ! j] @ vs" "filter P us = take j (filter P xs)" by (rule Cons.IH [rotated])
    with False Cons.prems(2) show ?thesis
      by (intro Cons.prems(1) [of "x # us" vs]) (auto simp: j_def take_Cons' nth_Cons' split: if_splits)
  qed
qed simp

text \<open>One call: the first matches, and what follows them.\<close>

lemma historySearch_page:
  assumes ok: "readable hh db p" and cap: "0 < ha_limit a"
  obtains r where "historySearch hh db p a = Inr r" "length (sp_hits r) \<le> ha_limit a" "sp_scanned r \<le> historySearchScanRecords"
    "sp_next r = None \<Longrightarrow> map sh_event (sp_hits r) = filter (matches hh (the (ha_query a))) (search_rest db p a)"
    "\<And>n. sp_next r = Some n \<Longrightarrow> \<exists>us e vs. search_rest db p a = us @ [e] @ vs \<and> n = seq_int e
       \<and> map sh_event (sp_hits r) = filter (matches hh (the (ha_query a))) (us @ [e])"
proof -
  let ?q = "the (ha_query a)" and ?m = "matches hh (the (ha_query a))" and ?es = "search_rest db p a"
  let ?s = "\<lparr>sc_cursor = search_start a, sc_hits = [], sc_scanned = 0, sc_budget = False\<rparr>"
  from scan_loop_scanned [OF ok, of ?s "ha_limit a" ?q] obtain s stop
    where l: "scan_loop hh db p ?q (ha_limit a) ?s = Inr s" and sc: "scanned hh ?q (ha_limit a) ?es ?s s stop" by auto
  from sc obtain pre post where es: "?es = pre @ post" and hits: "map sh_event (sc_hits s) = filter ?m pre"
    and n: "sc_scanned s = length pre" "pre \<noteq> [] \<longrightarrow> sc_scanned s \<le> historySearchScanRecords"
      "sc_cursor s = (if pre = [] then search_start a else seq_int (last pre))"
    and ends: "scan_ended (ha_limit a) post ?s s stop"
    unfolding scanned_def by auto
  define r where "r = (let (hits, nxt) =
              (if ha_limit a < length (sc_hits s)
               then (take (ha_limit a) (sc_hits s), Some (seq_int (sh_event (sc_hits s ! (ha_limit a - 1)))))
               else if sc_budget s then (sc_hits s, Some (sc_cursor s)) else (sc_hits s, None)) in
        \<lparr>sp_hits = hits, sp_next = nxt, sp_scanned = sc_scanned s, sp_budget = sc_budget s\<rparr>)"
  have run: "historySearch hh db p a = Inr r"
    using l by (simp add: historySearch_def r_def search_start_def [symmetric] Let_def split: prod.splits)
  consider (full) "ha_limit a < length (sc_hits s)" | (budget) "\<not> ha_limit a < length (sc_hits s)" "sc_budget s"
    | (all) "\<not> ha_limit a < length (sc_hits s)" "\<not> sc_budget s" by blast
  then show thesis
  proof cases
    case full
    let ?i = "ha_limit a - 1"
    have len: "length (sc_hits s) = length (filter ?m pre)" using hits by (metis length_map)
    with full cap have "?i < length (filter ?m pre)" by simp
    then obtain us vs where us: "pre = us @ [filter ?m pre ! ?i] @ vs" "filter ?m us = take ?i (filter ?m pre)"
      by (rule filter_nth_split)
    let ?e = "filter ?m pre ! ?i"
    have e: "sh_event (sc_hits s ! ?i) = ?e" using full cap hits by (metis (no_types, lifting) less_imp_diff_less nth_map)
    have "?m ?e" using nth_mem [OF \<open>?i < _\<close>] by simp
    then have "filter ?m (us @ [?e]) = take (ha_limit a) (filter ?m pre)"
      using us(2) cap \<open>?i < _\<close> by (simp add: take_Suc_conv_app_nth [symmetric])
    moreover have "?es = us @ [?e] @ (vs @ post)" using es us(1) by (metis append.assoc)
    ultimately have ex: "\<exists>us e vs. ?es = us @ [e] @ vs \<and> seq_int ?e = seq_int e \<and> take (ha_limit a) (filter ?m pre) = filter ?m (us @ [e])"
      by metis
    have r: "sp_hits r = take (ha_limit a) (sc_hits s)" "sp_next r = Some (seq_int ?e)" "sp_scanned r = sc_scanned s"
      using full e by (simp_all add: r_def)
    have "map sh_event (sp_hits r) = take (ha_limit a) (filter ?m pre)" by (simp add: r(1) take_map [symmetric] hits)
    with r ex n(1,2) show thesis by (intro that [OF run]) (auto simp del: filter_append)
  next
    case budget
    with ends have "historySearchScanRecords \<le> length pre" using n(1) by (auto simp: scan_ended_def split: if_splits)
    then have ne: "pre \<noteq> []" by (auto simp: historySearchScanRecords_def)
    then have "?es = butlast pre @ [last pre] @ post" "filter ?m (butlast pre @ [last pre]) = filter ?m pre"
      using es by (metis append.assoc append_butlast_last_id, metis append_butlast_last_id)
    with ne n(3) have ex: "\<exists>us e vs. ?es = us @ [e] @ vs \<and> sc_cursor s = seq_int e \<and> filter ?m pre = filter ?m (us @ [e])"
      by metis
    have r: "sp_hits r = sc_hits s" "sp_next r = Some (sc_cursor s)" "sp_scanned r = sc_scanned s"
      using budget by (simp_all add: r_def)
    with budget ne ex n(1,2) hits show thesis by (intro that [OF run]) (auto simp del: filter_append)
  next
    case all
    with ends have "post = []" by (auto simp: scan_ended_def split: if_splits)
    with all es n hits show thesis by (intro that [OF run]) (auto simp: r_def)
  qed
qed

interpretation hist_search: continued_pages search_valid search_answer search_page_of search_left
proof
  fix x :: "history_host \<times> 'd db \<times> string" and a rs
  obtain hh db p where x: "x = (hh, db, p)" by (cases x)
  assume v: "search_valid x a"
  then have ok: "readable hh db p" "0 < ha_limit a" by (auto simp: search_valid_def x)
  obtain r where r: "historySearch hh db p a = Inr r"
    "sp_next r = None \<Longrightarrow> map sh_event (sp_hits r) = filter (matches hh (the (ha_query a))) (search_rest db p a)"
    "\<And>n. sp_next r = Some n \<Longrightarrow> \<exists>us e vs. search_rest db p a = us @ [e] @ vs \<and> n = seq_int e
       \<and> map sh_event (sp_hits r) = filter (matches hh (the (ha_query a))) (us @ [e])"
    using historySearch_page [OF ok] by metis
  show "search_answer x a = rs" if "search_page_of x a = (rs, None)"
    using that r by (auto simp: search_page_of_def search_answer_def x)
  fix d
  assume "search_page_of x a = (rs, Some d)"
  then obtain n where n: "sp_next r = Some n" "d = a\<lparr>ha_afterSeq := Some n\<rparr>" "rs = map sh_event (sp_hits r)"
    using r(1) by (auto simp: search_page_of_def x)
  from r(3) [OF n(1)] obtain us e vs where e: "search_rest db p a = us @ [e] @ vs" "n = seq_int e"
    "rs = filter (matches hh (the (ha_query a))) (us @ [e])" using n(3) by auto
  have "search_rest db p d = vs"
    using after_after [OF readable_keyed [OF ok(1)] e(1)] by (simp add: search_start_def n(2) e(2))
  with e ok show "search_answer x a = rs @ search_answer x d \<and> search_valid x d \<and> search_left x d < search_left x a"
    by (simp add: search_answer_def search_valid_def search_left_def x n(2))
qed

section \<open>Fragments\<close>

fun msg_event :: "read_msg \<Rightarrow> event_row" where
  "msg_event (Whole e s) = e"
| "msg_event (Fragment e f i j n) = e"

fun msg_text :: "read_msg \<Rightarrow> string" where
  "msg_text (Whole e s) = s"
| "msg_text (Fragment e f i j n) = f"

text \<open>The characters of a message, as the code counts them.\<close>

fun msg_chars :: "read_msg \<Rightarrow> nat" where
  "msg_chars (Whole e s) = length (runes s)"
| "msg_chars (Fragment e f i j n) = j - i"

text \<open>A text without a stray byte, which is what the encoder of the library writes.\<close>

definition utf8 :: "string \<Rightarrow> bool" where
  "utf8 s \<longleftrightarrow> list_all (\<lambda>r. json_text r = r) (runes s)"

lemma rune_slice_utf8: "utf8 s \<Longrightarrow> rune_slice s i j = concat (take (j - i) (drop i (runes s)))"
  by (auto simp: rune_slice_def utf8_def list_all_iff intro!: arg_cong [of _ _ concat] map_idI dest: in_set_takeD in_set_dropD)

text \<open>A read of one record, and the read its \<^verbatim>\<open>next_read\<close> asks for.\<close>

definition text_page_of :: "history_host \<times> 'd db \<times> string \<Rightarrow> historyArgs \<Rightarrow> string \<times> historyArgs option" where
  "text_page_of x a = (case x of (hh, db, p) \<Rightarrow> (case historyRead hh db p a of
     Inl _ \<Rightarrow> ([], None)
   | Inr r \<Rightarrow> (concat (map msg_text (rp_messages r)),
       map_option (\<lambda>(n, i). a\<lparr>ha_seq := Some (int n), ha_contentOffset := Some (int i)\<rparr>) (rp_next_read r))))"

definition offset_of :: "historyArgs \<Rightarrow> int" where
  "offset_of a = (case ha_contentOffset a of None \<Rightarrow> 0 | Some n \<Rightarrow> n)"

definition exact_text :: "history_host \<times> 'd db \<times> string \<Rightarrow> historyArgs \<Rightarrow> string" where
  "exact_text x a = (case x of (hh, db, p) \<Rightarrow>
     (case rbind (exact_event db p (the (ha_seq a))) (journalEventJSON hh) of Inl _ \<Rightarrow> [] | Inr s \<Rightarrow> s))"

definition text_valid :: "history_host \<times> 'd db \<times> string \<Rightarrow> historyArgs \<Rightarrow> bool" where
  "text_valid x a = (case x of (hh, db, p) \<Rightarrow> ha_seq a \<noteq> None \<and> 0 < ha_limit a
     \<and> rbind (exact_event db p (the (ha_seq a))) (journalEventJSON hh) = Inr (exact_text x a) \<and> utf8 (exact_text x a)
     \<and> 0 \<le> offset_of a \<and> offset_of a \<le> int (length (runes (exact_text x a))))"

definition text_answer :: "history_host \<times> 'd db \<times> string \<Rightarrow> historyArgs \<Rightarrow> string" where
  "text_answer x a = concat (drop (nat (offset_of a)) (runes (exact_text x a)))"

definition text_left :: "history_host \<times> 'd db \<times> string \<Rightarrow> historyArgs \<Rightarrow> nat" where
  "text_left x a = length (runes (exact_text x a)) - nat (offset_of a)"

text \<open>One read of one record.\<close>

lemma exact_read:
  assumes "text_valid (hh, db, p) a"
  defines "s \<equiv> exact_text (hh, db, p) a"
  defines "stop \<equiv> min (nat (offset_of a) + maxReadJSONChars) (length (runes s))"
  obtains e r where "exact_event db p (the (ha_seq a)) = Inr e" "historyRead hh db p a = Inr r" "seq_int e = the (ha_seq a)"
    "concat (map msg_text (rp_messages r)) = concat (take (stop - nat (offset_of a)) (drop (nat (offset_of a)) (runes s)))"
    "rp_next_read r = (if stop < length (runes s) then Some (e_seq e, stop) else None)"
proof -
  from assms(1) obtain n e where n: "ha_seq a = Some n" and e: "exact_event db p n = Inr e"
    and s: "journalEventJSON hh e = Inr s" "utf8 s" "0 \<le> offset_of a" "offset_of a \<le> int (length (runes s))" "0 < ha_limit a"
    unfolding text_valid_def s_def by (auto simp: rbind_eq_Inr)
  have seq: "seq_int e = n" using e by (auto simp: exact_event_def require_eq_Inr dest: find_SomeD)
  have h: "historyRead hh db p a = read_loop hh db p a None 0 [e] [] 0 None"
    by (simp add: historyRead_def read_rows_def n e)
  show thesis
  proof (cases "offset_of a = 0 \<and> length (runes s) \<le> maxReadJSONChars")
    case True
    with s h have "historyRead hh db p a = Inr \<lparr>rp_messages = [Whole e s], rp_next_after = None, rp_next_read = None\<rparr>"
      by (simp add: offset_of_def [symmetric] Let_def)
    with e n seq True show thesis by (intro that) (auto simp: stop_def concat_runes)
  next
    case False
    obtain k where k: "offset_of a = int k" using s(3) by (rule nonneg_int_cases)
    have nat: "nat (min (offset_of a + int maxReadJSONChars) (int (length (runes s)))) = stop"
      by (simp add: stop_def k min_def nat_add_distrib)
    have lt: "min (offset_of a + int maxReadJSONChars) (int (length (runes s))) < int (length (runes s)) \<longleftrightarrow> stop < length (runes s)"
      by (auto simp: stop_def k)
    from False s h have "historyRead hh db p a = Inr \<lparr>rp_messages = [Fragment e (rune_slice s (nat (offset_of a)) stop)
        (nat (offset_of a)) stop (length (runes s))], rp_next_after = None,
        rp_next_read = (if stop < length (runes s) then Some (e_seq e, stop) else None)\<rparr>"
      by (simp add: offset_of_def [symmetric] Let_def fragment_of_def nat lt n)
    with e n seq show thesis by (intro that) (auto simp: rune_slice_utf8 [OF s(2)])
  qed
qed

interpretation hist_text: continued_pages text_valid text_answer text_page_of text_left
proof
  fix x :: "history_host \<times> 'd db \<times> string" and a rs
  obtain hh db p where x: "x = (hh, db, p)" by (cases x)
  assume v: "text_valid x a"
  define s where "s = exact_text x a"
  define i where "i = nat (offset_of a)"
  define stop where "stop = min (i + maxReadJSONChars) (length (runes s))"
  obtain e r where r: "exact_event db p (the (ha_seq a)) = Inr e" "historyRead hh db p a = Inr r" "seq_int e = the (ha_seq a)"
    "concat (map msg_text (rp_messages r)) = concat (take (stop - i) (drop i (runes s)))"
    "rp_next_read r = (if stop < length (runes s) then Some (e_seq e, stop) else None)"
    using exact_read [OF v [unfolded x]] unfolding s_def stop_def i_def x by metis
  have i: "i \<le> length (runes s)" using v by (simp add: text_valid_def x s_def i_def nat_le_iff)
  have cut: "text_answer x a = concat (take (stop - i) (drop i (runes s))) @ concat (drop stop (runes s))"
  proof -
    have "i \<le> stop" using i by (simp add: stop_def)
    then have "drop i (runes s) = take (stop - i) (drop i (runes s)) @ drop stop (runes s)"
      using append_take_drop_id [of "stop - i" "drop i (runes s)"] by simp
    then show ?thesis unfolding text_answer_def s_def [symmetric] i_def [symmetric] by (metis concat_append)
  qed
  show "text_answer x a = rs" if "text_page_of x a = (rs, None)"
    using that r cut by (auto simp: text_page_of_def x split: if_splits)
  fix d
  assume "text_page_of x a = (rs, Some d)"
  then have d: "d = a\<lparr>ha_seq := Some (seq_int e), ha_contentOffset := Some (int stop)\<rparr>" "stop < length (runes s)"
    "rs = concat (take (stop - i) (drop i (runes s)))"
    using r by (auto simp: text_page_of_def x split: if_splits)
  have same: "exact_text x d = s" using r(3) by (simp add: exact_text_def x d(1) s_def)
  have off: "offset_of d = int stop" by (simp add: offset_of_def d(1))
  have "i < stop" using d(2) by (simp add: stop_def maxReadJSONChars_def)
  then have "text_left x d < text_left x a" using d(2) by (simp add: text_left_def same off s_def [symmetric] i_def [symmetric])
  moreover have "text_answer x a = rs @ text_answer x d" by (simp add: cut d(3) text_answer_def [of x d] same off)
  moreover have "text_valid x d"
    using v d(2) r(3) unfolding text_valid_def same off s_def [symmetric] by (auto simp: x d(1))
  ultimately show "text_answer x a = rs @ text_answer x d \<and> text_valid x d \<and> text_left x d < text_left x a" by blast
qed

section \<open>Ranges\<close>

text \<open>A read of a range, and the read its \<^verbatim>\<open>next_after_seq\<close> asks for.\<close>

definition range_page_of :: "history_host \<times> 'd db \<times> string \<Rightarrow> historyArgs \<Rightarrow> event_row list \<times> historyArgs option" where
  "range_page_of x a = (case x of (hh, db, p) \<Rightarrow> (case historyRead hh db p a of
     Inl _ \<Rightarrow> ([], None)
   | Inr r \<Rightarrow> (map msg_event (rp_messages r), map_option (\<lambda>n. a\<lparr>ha_afterSeq := Some n\<rparr>) (rp_next_after r))))"

text \<open>The events the locators of a read name.\<close>

definition range_events :: "'d db \<Rightarrow> string \<Rightarrow> historyArgs \<Rightarrow> event_row list" where
  "range_events db p a = (case read_range db p a of Inl _ \<Rightarrow> [] | Inr (frm, upper) \<Rightarrow> range_rows db p frm upper)"

definition range_answer :: "history_host \<times> 'd db \<times> string \<Rightarrow> historyArgs \<Rightarrow> event_row list" where
  "range_answer x a = (case x of (hh, db, p) \<Rightarrow> range_events db p a)"

definition range_valid :: "history_host \<times> 'd db \<times> string \<Rightarrow> historyArgs \<Rightarrow> bool" where
  "range_valid x a = (case x of (hh, db, p) \<Rightarrow> readable hh db p \<and> list_all (\<lambda>e. in_i64 (seq_int e + 1)) (events_of db p)
     \<and> ha_seq a = None \<and> ha_contentOffset a = None \<and> 0 < ha_limit a \<and> \<not> isl (read_range db p a))"

definition range_left :: "history_host \<times> 'd db \<times> string \<Rightarrow> historyArgs \<Rightarrow> nat" where
  "range_left x a = length (range_answer x a)"

lemma range_rows_after: "range_rows db p frm upper = after (frm - 1) seq_int (filter (upto_seq upper) (events_of db p))"
  by (auto simp: range_rows_def after_def filter_sort filter_filter intro!: arg_cong [of _ _ "sort_key seq_int"] filter_cong)

lemma range_rows_from:
  assumes "readable hh db p" "range_rows db p frm upper = us @ [e] @ vs"
  shows "range_rows db p (seq_int e + 1) upper = vs"
proof -
  have "keyed seq_int (filter (upto_seq upper) (events_of db p))"
    using readable_keyed [OF assms(1)] by (auto simp: keyed_def distinct_map inj_on_def)
  from after_after [OF this assms(2) [unfolded range_rows_after]] show ?thesis by (simp add: range_rows_after)
qed

text \<open>The page after its first whole record: whole records until one does not fit.\<close>

lemma read_loop_whole:
  assumes "ha_contentOffset a = None" "\<forall>e \<in> set es. \<exists>s. journalEventJSON hh e = Inr s"
    "msgs \<noteq> []" "chars = sum_list (map msg_chars msgs)" "chars \<le> maxReadJSONChars" "i = length msgs" "i \<le> ha_limit a"
  shows "\<exists>r pre post. read_loop hh db p a upper i es msgs chars (Some (e_seq (msg_event (last msgs)))) = Inr r
    \<and> es = pre @ post \<and> map msg_event (rp_messages r) = map msg_event msgs @ pre \<and> rp_next_read r = None
    \<and> rp_messages r \<noteq> [] \<and> sum_list (map msg_chars (rp_messages r)) \<le> maxReadJSONChars \<and> length (rp_messages r) \<le> ha_limit a
    \<and> rp_next_after r = (if post = [] then None else Some (seq_int (last (map msg_event msgs @ pre))))"
  using assms
proof (induction es arbitrary: msgs chars i)
  case Nil
  then show ?case by (intro exI [of _ "\<lparr>rp_messages = msgs, rp_next_after = None, rp_next_read = None\<rparr>"] exI [of _ "[]"]) simp
next
  case (Cons e es)
  from Cons.prems(2) obtain s where s: "journalEventJSON hh e = Inr s" by auto
  show ?case
  proof (cases "ha_limit a \<le> i \<or> maxReadJSONChars < chars + length (runes s)")
    case True
    with Cons.prems s show ?thesis
      by (intro exI [of _ "\<lparr>rp_messages = msgs, rp_next_after = Some (seq_int (msg_event (last msgs))), rp_next_read = None\<rparr>"]
          exI [of _ "[]"] exI [of _ "e # es"]) (auto simp: Let_def last_map)
  next
    case False
    let ?m = "msgs @ [Whole e s]"
    have "\<exists>r pre post. read_loop hh db p a upper (i + 1) es ?m (chars + length (runes s)) (Some (e_seq (msg_event (last ?m)))) = Inr r
      \<and> es = pre @ post \<and> map msg_event (rp_messages r) = map msg_event ?m @ pre \<and> rp_next_read r = None
      \<and> rp_messages r \<noteq> [] \<and> sum_list (map msg_chars (rp_messages r)) \<le> maxReadJSONChars \<and> length (rp_messages r) \<le> ha_limit a
      \<and> rp_next_after r = (if post = [] then None else Some (seq_int (last (map msg_event ?m @ pre))))"
      by (rule Cons.IH) (use Cons.prems False in auto)
    then obtain r pre post where r: "read_loop hh db p a upper (i + 1) es ?m (chars + length (runes s)) (Some (e_seq (msg_event (last ?m)))) = Inr r"
      "es = pre @ post" "map msg_event (rp_messages r) = map msg_event ?m @ pre" "rp_next_read r = None"
      "rp_messages r \<noteq> []" "sum_list (map msg_chars (rp_messages r)) \<le> maxReadJSONChars" "length (rp_messages r) \<le> ha_limit a"
      "rp_next_after r = (if post = [] then None else Some (seq_int (last (map msg_event ?m @ pre))))" by blast
    from False Cons.prems(1,3) s r show ?thesis
      by (intro exI [of _ r] exI [of _ "e # pre"] exI [of _ post]) (auto simp: Let_def)
  qed
qed

text \<open>One read of a range: its first records, at least one if there is any, within the bounds of a page.\<close>

lemma historyRead_page:
  assumes v: "range_valid (hh, db, p) a"
  obtains r pre post where "historyRead hh db p a = Inr r" "range_events db p a = pre @ post"
    "map msg_event (rp_messages r) = pre" "sum_list (map msg_chars (rp_messages r)) \<le> maxReadJSONChars" "length pre \<le> ha_limit a"
    "rp_next_after r = (if post = [] then None else Some (seq_int (last pre)))" "post \<noteq> [] \<longrightarrow> pre \<noteq> []"
proof -
  from v have a: "readable hh db p" "ha_seq a = None" "ha_contentOffset a = None" "0 < ha_limit a" by (auto simp: range_valid_def)
  from v obtain frm upper where rg: "read_range db p a = Inr (frm, upper)"
    by (cases "read_range db p a") (auto simp: range_valid_def)
  let ?rows = "range_rows db p frm upper" and ?n = "ha_limit a"
  have rows: "range_events db p a = ?rows" by (simp add: range_events_def rg)
  have h: "historyRead hh db p a = read_loop hh db p a upper 0 (take (?n + 1) ?rows) [] 0 None"
    by (simp add: historyRead_def read_rows_def a(2) rg)
  have json: "\<exists>s. journalEventJSON hh e = Inr s" if "e \<in> set ?rows" for e
    using that readable_json [OF a(1)] by (auto simp: range_rows_def)
  show thesis
  proof (cases ?rows)
    case Nil
    then show thesis using h rows a(4)
      by (intro that [of "\<lparr>rp_messages = [], rp_next_after = None, rp_next_read = None\<rparr>" "[]" "[]"]) simp_all
  next
    case (Cons e es)
    from json [of e] Cons obtain s where s: "journalEventJSON hh e = Inr s" by auto
    show thesis
    proof (cases "length (runes s) \<le> maxReadJSONChars")
      case True
      have "\<forall>e \<in> set (take ?n es). \<exists>s. journalEventJSON hh e = Inr s" using json Cons by (auto dest: in_set_takeD)
      from read_loop_whole [OF a(3) this, of "[Whole e s]" "length (runes s)" 1 db p upper] True a(4)
      obtain r pre post where r: "read_loop hh db p a upper 1 (take ?n es) [Whole e s] (length (runes s)) (Some (e_seq e)) = Inr r"
        "take ?n es = pre @ post" "map msg_event (rp_messages r) = e # pre"
        "sum_list (map msg_chars (rp_messages r)) \<le> maxReadJSONChars" "length (rp_messages r) \<le> ?n"
        "rp_next_after r = (if post = [] then None else Some (seq_int (last (e # pre))))" by auto
      have run: "historyRead hh db p a = Inr r" using h Cons s True a(3,4) r(1) by (simp add: Let_def)
      have len: "length (e # pre) \<le> ?n" using r(3,5) by (metis length_map)
      have "es = pre @ post @ drop ?n es" using r(2) append_take_drop_id [of ?n es] by simp
      moreover have "post @ drop ?n es = [] \<longleftrightarrow> post = []" using len r(2) by (auto simp: append_eq_conv_conj)
      ultimately show thesis using run r len Cons rows
        by (intro that [of r "e # pre" "post @ drop ?n es"]) auto
    next
      case False
      let ?m = "Fragment e (rune_slice s 0 maxReadJSONChars) 0 maxReadJSONChars (length (runes s))"
      let ?r = "\<lparr>rp_messages = [?m], rp_next_after = (if es = [] then None else Some (seq_int e)), rp_next_read = Some (e_seq e, maxReadJSONChars)\<rparr>"
      have "range_rows db p (seq_int e + 1) upper = es" using range_rows_from [OF a(1), of frm upper "[]" e es] Cons by simp
      moreover have "take ?n es \<noteq> [] \<longleftrightarrow> es \<noteq> []" using a(4) by simp
      ultimately have "historyRead hh db p a = Inr ?r"
        using h Cons s False a by (simp add: Let_def fragment_of_def)
      then show thesis using a(4) Cons rows by (intro that [of ?r "[e]" es]) auto
    qed
  qed
qed

text \<open>The continuation of a read starts behind the last record it was given.\<close>

lemma read_range_after:
  assumes "read_range db p a = Inr (frm, upper)" "in_i64 (n + 1)" "frm \<le> n"
  shows "read_range db p (a\<lparr>ha_afterSeq := Some n\<rparr>) = Inr (n + 1, upper)"
proof -
  from assms(1) obtain first where c: "chunk_range db p a = Inr (first, upper)" and f: "frm = read_from a first"
    by (auto simp: read_range_def rbind_eq_Inr)
  have "read_from (a\<lparr>ha_afterSeq := Some n\<rparr>) first = n + 1"
    using assms(3) by (auto simp: f read_from_def Let_def i64_id [OF assms(2)] split: option.splits if_splits)
  moreover have "chunk_range db p (a\<lparr>ha_afterSeq := Some n\<rparr>) = chunk_range db p a" by (simp add: chunk_range_def)
  ultimately show ?thesis by (simp add: read_range_def c)
qed

interpretation hist_range: continued_pages range_valid range_answer range_page_of range_left
proof
  fix x :: "history_host \<times> 'd db \<times> string" and a rs
  obtain hh db p where x: "x = (hh, db, p)" by (cases x)
  assume v: "range_valid x a"
  then obtain r pre post where r: "historyRead hh db p a = Inr r" "range_events db p a = pre @ post"
    "map msg_event (rp_messages r) = pre" "rp_next_after r = (if post = [] then None else Some (seq_int (last pre)))"
    "post \<noteq> [] \<longrightarrow> pre \<noteq> []"
    unfolding x by (rule historyRead_page)
  show "range_answer x a = rs" if "range_page_of x a = (rs, None)"
    using that r by (auto simp: range_page_of_def range_answer_def x split: if_splits)
  fix d
  assume "range_page_of x a = (rs, Some d)"
  then have d: "d = a\<lparr>ha_afterSeq := Some (seq_int (last pre))\<rparr>" "post \<noteq> []" "rs = pre"
    using r by (auto simp: range_page_of_def x split: if_splits)
  from r(5) d(2) have ne: "pre \<noteq> []" by simp
  from v obtain frm upper where rg: "read_range db p a = Inr (frm, upper)" and ok: "readable hh db p"
    by (cases "read_range db p a") (auto simp: range_valid_def x)
  have rows: "range_rows db p frm upper = butlast pre @ [last pre] @ post"
    using r(2) ne by (simp add: range_events_def rg flip: append_butlast_last_id)
  then have "last pre \<in> set (range_rows db p frm upper)" by simp
  then have "frm \<le> seq_int (last pre)" "last pre \<in> set (events_of db p)" by (auto simp: range_rows_def)
  moreover from this have "in_i64 (seq_int (last pre) + 1)" using v by (auto simp: range_valid_def x list_all_iff)
  ultimately have rd: "read_range db p d = Inr (seq_int (last pre) + 1, upper)"
    unfolding d(1) by (intro read_range_after [OF rg])
  then have "range_events db p d = post" using range_rows_from [OF ok rows] by (simp add: range_events_def)
  moreover have "range_valid x d" using v rd by (simp add: range_valid_def x d(1))
  ultimately show "range_answer x a = rs @ range_answer x d \<and> range_valid x d \<and> range_left x d < range_left x a"
    using ne by (simp add: range_left_def range_answer_def x r(2) d(3))
qed

section \<open>What the tool promises\<close>

lemma getLimit_range:
  assumes "getLimit req = Inr n"
  shows "0 < n" "n \<le> 20"
proof -
  have "0 < n \<and> n \<le> 20"
  proof (cases "map_of req ''limit''")
    case None
    with assms show ?thesis by (simp add: getLimit_def)
  next
    case (Some v)
    with assms obtain f where f: "whole_number f" "1 \<le> f" "f \<le> 20" "n = nat (go_int64 f)"
      by (cases v) (auto simp: getLimit_def Let_def split: if_splits)
    then have "1 \<le> go_int64 f" "go_int64 f \<le> 20"
      unfolding whole_number_def by (metis of_int_1_le_iff, metis of_int_le_numeral_iff)
    with f(4) show ?thesis by simp
  qed
  then show "0 < n" "n \<le> 20" by simp_all
qed

lemma parse_checked:
  assumes "parseHistoryArgs req = Inr a"
  shows "check_args a = Inr ()" "0 < ha_limit a" "ha_limit a \<le> 20"
  using assms by (auto simp: parseHistoryArgs_def rbind_eq_Inr Let_def dest: getLimit_range)

lemma parse_seq: "parseHistoryArgs req = Inr a \<Longrightarrow> ha_contentOffset a \<noteq> None \<Longrightarrow> ha_operation a = ''read'' \<and> ha_seq a \<noteq> None"
  by (drule parse_checked(1)) (auto simp: check_args_def Let_def rbind_eq_Inr guard_eq_Inr)

lemma after_length: "length (after c k rs) \<le> length rs"
  unfolding after_def by (metis length_filter_le length_sort)

text \<open>
  C25. A search finds everything: no call of an accepted search fails, each looks at no more than two
  thousand records and reports at most its limit, and following \<^verbatim>\<open>next_after_seq\<close> ends, after at most one
  call more than the journal has records, with exactly the matching records behind the start, in journal
  order and each once. A text copied out of a record's serialization is such a match.
\<close>

theorem search_walk_complete:
  assumes "parseHistoryArgs req = Inr a" and "readable hh db p"
  shows "(\<forall>c. \<exists>r. historySearch hh db p (a\<lparr>ha_afterSeq := c\<rparr>) = Inr r \<and> length (sp_hits r) \<le> ha_limit a
        \<and> sp_scanned r \<le> historySearchScanRecords)
    \<and> follow (search_page_of (hh, db, p)) (Suc (length (events_of db p))) a
        = Some (filter (matches hh (the (ha_query a))) (after (search_start a) seq_int (events_of db p)))
    \<and> (\<forall>e x y. journalEventJSON hh e = Inr (x @ the (ha_query a) @ y) \<longrightarrow> matches hh (the (ha_query a)) e)"
proof (intro conjI allI impI)
  note cap = parse_checked(2) [OF assms(1)]
  show "\<exists>r. historySearch hh db p (a\<lparr>ha_afterSeq := c\<rparr>) = Inr r \<and> length (sp_hits r) \<le> ha_limit a
      \<and> sp_scanned r \<le> historySearchScanRecords" for c
    by (rule historySearch_page [OF assms(2), of "a\<lparr>ha_afterSeq := c\<rparr>"]) (use cap in auto)
  have "search_left (hh, db, p) a < Suc (length (events_of db p))" by (simp add: search_left_def le_imp_less_Suc after_length)
  moreover have "search_valid (hh, db, p) a" using assms(2) cap by (simp add: search_valid_def)
  ultimately show "follow (search_page_of (hh, db, p)) (Suc (length (events_of db p))) a
      = Some (filter (matches hh (the (ha_query a))) (after (search_start a) seq_int (events_of db p)))"
    using hist_search.follow_answer by (fastforce simp: search_answer_def)
next
  fix e x y
  assume "journalEventJSON hh e = Inr (x @ the (ha_query a) @ y)"
  then show "matches hh (the (ha_query a)) e" by (auto simp: matches_def str_contains_iff)
qed

text \<open>Three notes of a persona, and a search that reports one of them per call.\<close>

definition demo_entry :: "nat \<Rightarrow> string \<Rightarrow> event_row" where
  "demo_entry n t = \<lparr>e_persona_id = ''p1'', e_seq = n, e_turn_id = ''t1'', e_kind = ''note'', e_payload = [(''text'', JStr t)]\<rparr>"

definition demo_journal :: "unit db" where
  "demo_journal = demo_db\<lparr>events := [demo_entry 1 ''alpha'', demo_entry 2 ''beta'', demo_entry 3 ''alphabet'']\<rparr>"

definition demo_search :: jobj where
  "demo_search = [(''operation'', JStr ''search''), (''query'', JStr ''alpha''), (''limit'', jnat 1)]"

theorem search_walk_complete_witness:
  "\<exists>a. parseHistoryArgs demo_search = Inr a \<and> follow (search_page_of (demo_history_host, demo_journal, ''p1'')) 4 a
     = Some [demo_entry 1 ''alpha'', demo_entry 3 ''alphabet'']"
proof -
  obtain a where a: "parseHistoryArgs demo_search = Inr a" "ha_query a = Some ''alpha''" "ha_afterSeq a = None"
    by (rule that [of "\<lparr>ha_operation = ''search'', ha_query = Some ''alpha'', ha_seq = None, ha_chunkSeq = None, ha_fromSeq = None,
       ha_afterSeq = None, ha_contentOffset = None, ha_limit = 1\<rparr>"]; code_simp)
  have "readable demo_history_host demo_journal ''p1''" by code_simp
  from search_walk_complete [OF a(1) this]
  have "follow (search_page_of (demo_history_host, demo_journal, ''p1'')) (Suc (length (events_of demo_journal ''p1''))) a
      = Some (filter (matches demo_history_host ''alpha'') (after 0 seq_int (events_of demo_journal ''p1'')))"
    by (simp add: a search_start_def)
  moreover have "Suc (length (events_of demo_journal ''p1'')) = 4"
    "filter (matches demo_history_host ''alpha'') (after 0 seq_int (events_of demo_journal ''p1''))
      = [demo_entry 1 ''alpha'', demo_entry 3 ''alphabet'']" by code_simp+
  ultimately show ?thesis using a(1) by metis
qed

text \<open>
  C24. What is stored can be read back: every read of an accepted range answers a page of at most
  16,384 characters and at most its limit of records; following \<^verbatim>\<open>next_after_seq\<close> gives the events of
  the range in order and each once, and following \<^verbatim>\<open>next_read\<close> from the start of any of them gives
  fragments that concatenate to its exact serialization, however long it is.
\<close>

theorem history_reads_back:
  assumes "parseHistoryArgs req = Inr a" and "ha_seq a = None" and "readable hh db p"
    and "\<forall>e \<in> set (events_of db p). in_i64 (seq_int e + 1) \<and> (\<forall>s. journalEventJSON hh e = Inr s \<longrightarrow> utf8 s)"
    and "read_range db p a = Inr (frm, upper)"
  shows "(\<exists>r. historyRead hh db p a = Inr r \<and> sum_list (map msg_chars (rp_messages r)) \<le> maxReadJSONChars
        \<and> length (rp_messages r) \<le> ha_limit a)
    \<and> follow (range_page_of (hh, db, p)) (Suc (length (events_of db p))) a = Some (range_rows db p frm upper)
    \<and> (\<forall>e \<in> set (range_rows db p frm upper). \<exists>s. journalEventJSON hh e = Inr s
        \<and> follow (text_page_of (hh, db, p)) (Suc (length (runes s)))
            (a\<lparr>ha_seq := Some (seq_int e), ha_chunkSeq := None, ha_fromSeq := None, ha_afterSeq := None\<rparr>) = Some s)"
proof (intro conjI ballI)
  note cap = parse_checked(2) [OF assms(1)]
  have off: "ha_contentOffset a = None" using parse_seq [OF assms(1)] assms(2) by blast
  have v: "range_valid (hh, db, p) a" using assms cap off by (simp add: range_valid_def list_all_iff)
  show "\<exists>r. historyRead hh db p a = Inr r \<and> sum_list (map msg_chars (rp_messages r)) \<le> maxReadJSONChars
      \<and> length (rp_messages r) \<le> ha_limit a"
    by (rule historyRead_page [OF v]) (metis length_map)
  have rows: "range_answer (hh, db, p) a = range_rows db p frm upper" by (simp add: range_answer_def range_events_def assms(5))
  have "range_left (hh, db, p) a \<le> length (events_of db p)"
    unfolding range_left_def rows range_rows_def by (metis length_filter_le length_sort)
  then show "follow (range_page_of (hh, db, p)) (Suc (length (events_of db p))) a = Some (range_rows db p frm upper)"
    using hist_range.follow_answer [OF v] by (simp add: rows)
  fix e
  assume "e \<in> set (range_rows db p frm upper)"
  then have e: "e \<in> set (events_of db p)" by (simp add: range_rows_def)
  then obtain s where s: "journalEventJSON hh e = Inr s" using readable_json [OF assms(3)] by blast
  let ?b = "a\<lparr>ha_seq := Some (seq_int e), ha_chunkSeq := None, ha_fromSeq := None, ha_afterSeq := None\<rparr>"
  have find: "find (\<lambda>x. seq_int x = seq_int e) (events_of db p) = Some e"
    using keyed_find [OF readable_keyed [OF assms(3)] e] by simp
  then have t: "exact_text (hh, db, p) ?b = s" "rbind (exact_event db p (seq_int e)) (journalEventJSON hh) = Inr s"
    by (simp_all add: exact_text_def exact_event_def s)
  have "text_valid (hh, db, p) ?b" using cap off e s assms(4) t by (simp add: text_valid_def offset_of_def)
  from hist_text.follow_answer [OF this]
  have "follow (text_page_of (hh, db, p)) (Suc (length (runes s))) ?b = Some s"
    by (simp add: text_left_def text_answer_def t(1) offset_of_def off concat_runes)
  with s show "\<exists>s. journalEventJSON hh e = Inr s \<and> follow (text_page_of (hh, db, p)) (Suc (length (runes s))) ?b = Some s" by blast
qed

text \<open>The same notes where each serializes to twenty thousand characters, which is two fragments.\<close>

definition demo_long :: string where
  "demo_long = replicate 20000 (CHR ''a'')"

definition demo_long_host :: history_host where
  "demo_long_host = demo_history_host\<lparr>hh_encode := \<lambda>_. Some demo_long\<rparr>"

lemma runes_ascii: "runes (replicate n (CHR ''a'')) = replicate n [CHR ''a'']"
  by (induction n) (simp_all add: rune_width_def byte_in_def)

lemma demo_long_json: "journalEventJSON demo_long_host e = Inr demo_long"
  by (simp add: journalEventJSON_def demo_long_host_def)

lemma demo_long_runes: "length (runes demo_long) = 20000" "utf8 demo_long"
  unfolding demo_long_def utf8_def runes_ascii
  by (simp_all only: length_replicate list_all_length nth_replicate) (simp add: json_text_def rune_width_def byte_in_def)

theorem history_reads_back_witness:
  "\<exists>a. parseHistoryArgs [(''operation'', JStr ''read''), (''limit'', jnat 2)] = Inr a
     \<and> follow (range_page_of (demo_long_host, demo_journal, ''p1'')) 4 a
         = Some [demo_entry 1 ''alpha'', demo_entry 2 ''beta'', demo_entry 3 ''alphabet'']
     \<and> follow (text_page_of (demo_long_host, demo_journal, ''p1'')) 20001 (a\<lparr>ha_seq := Some 2\<rparr>) = Some demo_long"
proof -
  let ?a = "\<lparr>ha_operation = ''read'', ha_query = None, ha_seq = None, ha_chunkSeq = None, ha_fromSeq = None,
       ha_afterSeq = None, ha_contentOffset = None, ha_limit = 2\<rparr>"
  have a: "parseHistoryArgs [(''operation'', JStr ''read''), (''limit'', jnat 2)] = Inr ?a" by code_simp
  have r: "readable demo_long_host demo_journal ''p1''"
    unfolding readable_def demo_long_json by (auto simp: keyed_def demo_journal_def demo_entry_def list_all_iff)
  have i: "\<forall>e \<in> set (events_of demo_journal ''p1''). in_i64 (seq_int e + 1)" by code_simp
  have rows: "range_rows demo_journal ''p1'' 1 None = [demo_entry 1 ''alpha'', demo_entry 2 ''beta'', demo_entry 3 ''alphabet'']"
    "length (events_of demo_journal ''p1'') = 3" by code_simp+
  have "read_range demo_journal ''p1'' ?a = Inr (1, None)" by code_simp
  from history_reads_back [OF a _ r _ this] i
  have "follow (range_page_of (demo_long_host, demo_journal, ''p1'')) (Suc 3) ?a = Some (range_rows demo_journal ''p1'' 1 None)"
    "\<forall>e \<in> set (range_rows demo_journal ''p1'' 1 None). follow (text_page_of (demo_long_host, demo_journal, ''p1'')) (Suc 20000)
       (?a\<lparr>ha_seq := Some (seq_int e), ha_chunkSeq := None, ha_fromSeq := None, ha_afterSeq := None\<rparr>) = Some demo_long"
    by (simp_all add: demo_long_json demo_long_runes rows(2))
  then have "follow (range_page_of (demo_long_host, demo_journal, ''p1'')) 4 ?a = Some (range_rows demo_journal ''p1'' 1 None)"
    "follow (text_page_of (demo_long_host, demo_journal, ''p1'')) 20001 (?a\<lparr>ha_seq := Some 2\<rparr>) = Some demo_long"
    by (simp_all add: rows(1) demo_entry_def)
  with a rows(1) show ?thesis by metis
qed




end
