(* ===== verification/Core_Wake.thy ===== *)
theory Core_Wake
  imports Core_Schedules
begin

text \<open>
  Waking a remote runtime (\<^verbatim>\<open>runtime_wake.go\<close>): which personas have work and no live writer
  (\<^verbatim>\<open>PersonasAwaitingRuntime\<close>), when a persona next needs a runtime (\<^verbatim>\<open>NextWorkFor\<close>), and the sweep of
  the \<^verbatim>\<open>RuntimeWaker\<close> with its rotation cursor and the marks that space repeated wakes. Durations are
  nanoseconds where the process measures them and microseconds where the database does. What the core
  host answers to a wake is an argument.
\<close>

section \<open>Work\<close>

definition MemoryRescueGrace :: timestamp where "MemoryRescueGrace = 15 * 60 * 1000000"

text \<open>The rows \<^verbatim>\<open>status IN ('queued','claimed')\<close> of a persona.\<close>

definition open_inputs :: "'d db \<Rightarrow> string \<Rightarrow> input_row list" where
  "open_inputs db p = filter (\<lambda>i. i_persona_id i = p \<and> (i_status i = IQueued \<or> i_status i = IClaimed)) (inputs db)"

definition wake_due :: "timestamp \<Rightarrow> input_row \<Rightarrow> bool" where
  "wake_due now i \<longleftrightarrow> i_status i = IQueued \<and> (case i_not_before i of None \<Rightarrow> True | Some t \<Rightarrow> t \<le> now)"

definition ripe_schedules :: "timestamp \<Rightarrow> 'd db \<Rightarrow> string \<Rightarrow> sched_row list" where
  "ripe_schedules now db p = filter (\<lambda>s. s_persona_id s = p \<and> s_status s = SPending \<and> s_wake_at s \<le> now) (schedules db)"

definition has_work :: "timestamp \<Rightarrow> 'd db \<Rightarrow> string \<Rightarrow> bool" where
  "has_work now db p \<longleftrightarrow> list_ex (\<lambda>i. wake_due now i \<or> i_status i = IClaimed) (open_inputs db p) \<or> ripe_schedules now db p \<noteq> []"

text \<open>A branch in preparation whose wake was lost; a missing \<^verbatim>\<open>retry_at\<close> compares to nothing.\<close>

definition rescue_due :: "timestamp \<Rightarrow> branch_row \<Rightarrow> bool" where
  "rescue_due now b \<longleftrightarrow> (br_status b = BRunning \<and> br_updated_at b \<le> now - MemoryRescueGrace)
     \<or> (br_status b = BPaused \<and> (case br_retry_at b of None \<Rightarrow> False | Some t \<Rightarrow> t \<le> now - MemoryRescueGrace))"

definition memory_rescue :: "timestamp \<Rightarrow> 'd db \<Rightarrow> string \<Rightarrow> bool" where
  "memory_rescue now db p \<longleftrightarrow> list_ex (\<lambda>b. br_persona_id b = p \<and> rescue_due now b
     \<and> list_ex (\<lambda>c. chunk_key c = branch_key b \<and> mc_status c = CPreparing) (chunks db)) (branches db)"

definition lease_live :: "timestamp \<Rightarrow> 'd db \<Rightarrow> string \<Rightarrow> bool" where
  "lease_live now db p \<longleftrightarrow> list_ex (\<lambda>l. l_persona_id l = p \<and> now < l_expires_at l) (leases db)"

record AwaitingRuntime =
  aw_persona_id :: string
  aw_progress :: string
  aw_memory_only :: bool

definition oldest_seq :: "'d db \<Rightarrow> string \<Rightarrow> nat" where
  "oldest_seq db p = (case map i_admission_seq (open_inputs db p) of [] \<Rightarrow> 0 | n # ns \<Rightarrow> foldr min ns n)"

definition memory_counts :: "'d db \<Rightarrow> string \<Rightarrow> string" where
  "memory_counts db p = (let n = (\<lambda>s. length (filter (\<lambda>c. mc_status c = s) (chunks_of db p))) in
     itoa (n CSealed) @ '':'' @ itoa (n CPreparing))"

definition progress_of :: "timestamp \<Rightarrow> 'd db \<Rightarrow> string \<Rightarrow> string" where
  "progress_of now db p = itoa (oldest_seq db p) @ ''/'' @ itoa (length (open_inputs db p)) @ ''/''
     @ itoa (length (ripe_schedules now db p)) @ ''/'' @ memory_counts db p"

definition awaiting_row :: "timestamp \<Rightarrow> 'd db \<Rightarrow> string \<Rightarrow> AwaitingRuntime" where
  "awaiting_row now db p = \<lparr>aw_persona_id = p, aw_progress = progress_of now db p, aw_memory_only = (\<not> has_work now db p)\<rparr>"

definition awaits_runtime :: "timestamp \<Rightarrow> 'd db \<Rightarrow> persona_row \<Rightarrow> bool" where
  "awaits_runtime now db r \<longleftrightarrow> p_authority r = Active
     \<and> (has_work now db (p_persona_id r) \<or> memory_rescue now db (p_persona_id r)) \<and> \<not> lease_live now db (p_persona_id r)"

definition awaiting_ids :: "timestamp \<Rightarrow> 'd db \<Rightarrow> string list" where
  "awaiting_ids now db = map p_persona_id (filter (awaits_runtime now db) (personas db))"

definition PersonasAwaitingRuntime :: "timestamp \<Rightarrow> int \<Rightarrow> string \<Rightarrow> 'd db \<Rightarrow> AwaitingRuntime list" where
  "PersonasAwaitingRuntime now limit cursor db =
     map (awaiting_row now db) (take (nat (if limit \<le> 0 then 100 else limit)) (rotated cursor (awaiting_ids now db)))"

section \<open>The next work\<close>

text \<open>\<^verbatim>\<open>min(..)\<close> over rows, and \<^verbatim>\<open>LEAST\<close>, which ignores nulls.\<close>

definition min_of :: "timestamp list \<Rightarrow> timestamp option" where
  "min_of ts = (case ts of [] \<Rightarrow> None | t # ts' \<Rightarrow> Some (foldr min ts' t))"

definition least :: "timestamp option list \<Rightarrow> timestamp option" where
  "least os = min_of (List.map_filter id os)"

definition live_expiry :: "timestamp \<Rightarrow> 'd db \<Rightarrow> string \<Rightarrow> timestamp option" where
  "live_expiry now db p = map_option l_expires_at (find (\<lambda>l. l_persona_id l = p \<and> now < l_expires_at l) (leases db))"

definition next_queued :: "timestamp \<Rightarrow> 'd db \<Rightarrow> string \<Rightarrow> timestamp option" where
  "next_queued now db p = min_of (map (\<lambda>i. case i_not_before i of None \<Rightarrow> now | Some t \<Rightarrow> t)
     (filter (\<lambda>i. i_persona_id i = p \<and> i_status i = IQueued) (inputs db)))"

definition next_claimed :: "timestamp \<Rightarrow> 'd db \<Rightarrow> string \<Rightarrow> timestamp option" where
  "next_claimed now db p = (if list_ex (\<lambda>i. i_persona_id i = p \<and> i_status i = IClaimed) (inputs db)
     then Some (case live_expiry now db p of None \<Rightarrow> now | Some t \<Rightarrow> t) else None)"

definition next_scheduled :: "'d db \<Rightarrow> string \<Rightarrow> timestamp option" where
  "next_scheduled db p = min_of (map s_wake_at (filter (\<lambda>s. s_persona_id s = p \<and> s_status s = SPending) (schedules db)))"

record NextWork =
  nw_next_work_at :: "timestamp option"
  nw_now :: timestamp

definition NextWorkFor :: "timestamp \<Rightarrow> string \<Rightarrow> 'd db \<Rightarrow> err + NextWork" where
  "NextWorkFor now p db =
     rbind (require (persona_of db p) ErrPersonaNotFound) (\<lambda>r.
       let nxt = least [next_queued now db p, next_claimed now db p, next_scheduled db p] in
       Inr (if p_authority r \<noteq> Active \<or> nxt = None then \<lparr>nw_next_work_at = None, nw_now = now\<rparr>
            else \<lparr>nw_next_work_at = Some (if the nxt < now then now else the nxt), nw_now = now\<rparr>))"

section \<open>The waker\<close>

record wakeMark =
  wm_at :: int
  wm_progress :: string
  wm_gap :: int
  wm_failed :: bool

record RuntimeWaker =
  wk_base :: string
  wk_token :: string
  wk_Interval :: int
  wk_MinGap :: int
  wk_MaxGap :: int
  wk_MemoryGap :: int
  wk_marks :: "(string \<times> wakeMark) list"
  wk_cursor :: string

definition minRuntimeSecretLen :: nat where "minRuntimeSecretLen = 32"

definition second :: int where "second = 1000000000"

text \<open>A parsed URL, as much of it as the configuration looks at (\<^verbatim>\<open>net/url\<close>).\<close>

record parsed_url =
  url_scheme :: string
  url_host :: string
  url_query :: string
  url_fragment :: string
  url_user :: bool
  url_string :: string

definition trim_slashes :: "string \<Rightarrow> string" where
  "trim_slashes s = rev (dropWhile (\<lambda>c. c = CHR ''/'') (rev s))"

definition NewRuntimeWaker :: "(string \<Rightarrow> parsed_url option) \<Rightarrow> string \<Rightarrow> string \<Rightarrow> err + RuntimeWaker" where
  "NewRuntimeWaker parse base token =
     (let bad = Inl (ErrBadRequest ''SUMI_CORE_WAKE_URL must be an absolute http(s) URL without query, fragment or userinfo'') in
      case parse base of
        None \<Rightarrow> bad
      | Some u \<Rightarrow>
          if (url_scheme u \<noteq> ''https'' \<and> url_scheme u \<noteq> ''http'') \<or> url_host u = [] \<or> url_query u \<noteq> [] \<or> url_fragment u \<noteq> [] \<or> url_user u
          then bad
          else if length token < minRuntimeSecretLen
          then Inl (ErrBadRequest ''SUMI_CORE_WAKE_TOKEN must be at least 32 characters'')
          else Inr \<lparr>wk_base = trim_slashes (url_string u), wk_token = token, wk_Interval = second, wk_MinGap = 5 * second,
            wk_MaxGap = 5 * 60 * second, wk_MemoryGap = 30 * 60 * second, wk_marks = [], wk_cursor = []\<rparr>)"

text \<open>\<^verbatim>\<open>nil\<close> without an error where no wake is configured.\<close>

definition RuntimeWakerFromEnv :: "(string \<Rightarrow> parsed_url option) \<Rightarrow> (string \<Rightarrow> string) \<Rightarrow> err + RuntimeWaker option" where
  "RuntimeWakerFromEnv parse getenv =
     (let raw = TrimSpace (getenv ''SUMI_CORE_WAKE_URL''); token = TrimSpace (getenv ''SUMI_CORE_WAKE_TOKEN'') in
      if raw = [] \<and> token = [] then Inr None
      else if raw = [] \<or> token = []
      then Inl (ErrBadRequest ''SUMI_CORE_WAKE_URL and SUMI_CORE_WAKE_TOKEN must be set together'')
      else rbind (NewRuntimeWaker parse raw token) (\<lambda>w. Inr (Some w)))"

definition sweep_limit :: nat where "sweep_limit = 200"

text \<open>A short page, or a last row at or below the old cursor, restarts the rotation.\<close>

definition sweep_cursor :: "string \<Rightarrow> string list \<Rightarrow> string" where
  "sweep_cursor cursor ids = (if ids = [] \<or> length ids < sweep_limit \<or> last ids \<le> cursor then [] else last ids)"

definition in_gap :: "int \<Rightarrow> AwaitingRuntime \<Rightarrow> wakeMark option \<Rightarrow> bool" where
  "in_gap now a m \<longleftrightarrow> (case m of None \<Rightarrow> False | Some k \<Rightarrow> wm_progress k = aw_progress a \<and> now - wm_at k < wm_gap k)"

definition new_mark :: "RuntimeWaker \<Rightarrow> int \<Rightarrow> AwaitingRuntime \<Rightarrow> wakeMark option \<Rightarrow> wakeMark" where
  "new_mark w now a m =
     (let gap = (case m of
            None \<Rightarrow> wk_MinGap w
          | Some k \<Rightarrow> if wm_progress k = aw_progress a then min (i64 (wm_gap k * 2)) (wk_MaxGap w) else wk_MinGap w) in
      \<lparr>wm_at = now, wm_progress = aw_progress a, wm_gap = (if aw_memory_only a then max gap (wk_MemoryGap w) else gap),
       wm_failed = (case m of None \<Rightarrow> False | Some k \<Rightarrow> wm_failed k)\<rparr>)"

abbreviation set_mark :: "string \<Rightarrow> wakeMark \<Rightarrow> (string \<times> wakeMark) list \<Rightarrow> (string \<times> wakeMark) list" where
  "set_mark p k ms \<equiv> (p, k) # filter (\<lambda>x. fst x \<noteq> p) ms"

fun mark_page :: "RuntimeWaker \<Rightarrow> int \<Rightarrow> AwaitingRuntime list \<Rightarrow> (string \<times> wakeMark) list
     \<Rightarrow> (string \<times> wakeMark) list \<times> AwaitingRuntime list" where
  "mark_page w now [] ms = (ms, [])"
| "mark_page w now (a # as) ms =
     (let m = map_of ms (aw_persona_id a) in
      if in_gap now a m then mark_page w now as ms
      else let (ms', woken) = mark_page w now as (set_mark (aw_persona_id a) (new_mark w now a m) ms) in (ms', a # woken))"

definition drop_marks :: "int \<Rightarrow> AwaitingRuntime list \<Rightarrow> (string \<times> wakeMark) list \<Rightarrow> (string \<times> wakeMark) list" where
  "drop_marks now rows ms = filter (\<lambda>(p, k). p \<in> aw_persona_id ` set rows \<or> now - wm_at k < wm_gap k) ms"

definition wake :: "(string \<Rightarrow> bool) \<Rightarrow> string \<Rightarrow> bool" where
  "wake post p \<longleftrightarrow> uuidv7_match p \<and> post p"

definition note_wakes :: "(string \<Rightarrow> bool) \<Rightarrow> AwaitingRuntime list \<Rightarrow> (string \<times> wakeMark) list \<Rightarrow> (string \<times> wakeMark) list" where
  "note_wakes post woken ms =
     map (\<lambda>(p, k). (p, if p \<in> aw_persona_id ` set woken then k\<lparr>wm_failed := \<not> wake post p\<rparr> else k)) ms"

text \<open>
  One pass over the page the store answered (\<open>None\<close>: the query failed, and nothing changes). The wakes
  run side by side and each notes its own outcome, so their order does not matter.
\<close>

definition Sweep :: "(string \<Rightarrow> bool) \<Rightarrow> int \<Rightarrow> AwaitingRuntime list option \<Rightarrow> RuntimeWaker
     \<Rightarrow> RuntimeWaker \<times> AwaitingRuntime list \<times> nat" where
  "Sweep post now answer w = (case answer of
     None \<Rightarrow> (w, [], 0)
   | Some rows \<Rightarrow>
       (let (ms, woken) = mark_page w now rows (wk_marks w) in
        (w\<lparr>wk_cursor := sweep_cursor (wk_cursor w) (map aw_persona_id rows),
           wk_marks := note_wakes post woken (drop_marks now rows ms)\<rparr>,
         woken, length (filter (\<lambda>a. wake post (aw_persona_id a)) woken))))"

section \<open>The two views of the work agree\<close>

lemma foldr_min: "foldr min ts (t :: timestamp) \<in> set (t # ts)" "x \<in> set (t # ts) \<Longrightarrow> foldr min ts t \<le> x"
  by (induction ts) (auto simp: min_def)

lemma min_of_Some: "min_of ts = Some t \<Longrightarrow> t \<in> set ts \<and> (\<forall>x \<in> set ts. t \<le> x)"
  using foldr_min by (auto simp: min_of_def split: list.splits)

lemma min_of_None: "min_of ts = None \<longleftrightarrow> ts = []"
  by (simp add: min_of_def split: list.splits)

text \<open>A minimum is reached by a moment exactly when some row is.\<close>

definition reached :: "timestamp option \<Rightarrow> timestamp \<Rightarrow> bool" where
  "reached t u \<longleftrightarrow> (case t of None \<Rightarrow> False | Some x \<Rightarrow> x \<le> u)"

lemma reached_min: "reached (min_of ts) u \<longleftrightarrow> (\<exists>x \<in> set ts. x \<le> u)"
proof (cases "min_of ts")
  case (Some t)
  from min_of_Some [OF this] Some show ?thesis by (auto simp: reached_def intro: order_trans)
next
  case None
  then have "ts = []" by (simp add: min_of_None)
  then show ?thesis by (simp add: reached_def min_of_def)
qed

lemma reached_least: "reached (least os) u \<longleftrightarrow> list_ex (\<lambda>t. reached t u) os"
proof -
  have "set (List.map_filter id os) = {x. Some x \<in> set os}" by (force simp: map_filter_def)
  then show ?thesis unfolding least_def reached_min by (auto simp: list_ex_iff reached_def split: option.splits)
qed

lemma least_None: "least os = None \<longleftrightarrow> list_all (\<lambda>t. t = None) os"
  by (auto simp: least_def min_of_None map_filter_def list_all_iff filter_empty_conv)

lemma work_reached:
  assumes "now \<le> u"
  shows "has_work u db p \<longleftrightarrow> reached (next_queued now db p) u \<or> next_claimed now db p \<noteq> None \<or> reached (next_scheduled db p) u"
proof -
  have "reached (next_queued now db p) u \<longleftrightarrow> (\<exists>i \<in> set (open_inputs db p). wake_due u i)"
    using assms by (auto simp: next_queued_def reached_min open_inputs_def wake_due_def split: option.splits)
  moreover have "next_claimed now db p \<noteq> None \<longleftrightarrow> (\<exists>i \<in> set (open_inputs db p). i_status i = IClaimed)"
    by (auto simp: next_claimed_def open_inputs_def list_ex_iff)
  moreover have "reached (next_scheduled db p) u \<longleftrightarrow> ripe_schedules u db p \<noteq> []"
    by (auto simp: next_scheduled_def reached_min ripe_schedules_def filter_empty_conv)
  ultimately show ?thesis by (auto simp: has_work_def list_ex_iff)
qed

lemma claimed_waits_for_lease:
  assumes "keyed l_persona_id (leases db)" "next_claimed now db p = Some e" "now \<le> u"
  shows "now \<le> e" "u < e \<Longrightarrow> lease_live u db p" "\<not> lease_live now db p \<Longrightarrow> e = now"
proof -
  have e: "e = (case live_expiry now db p of None \<Rightarrow> now | Some t \<Rightarrow> t)"
    using assms(2) by (auto simp: next_claimed_def split: if_splits)
  show "now \<le> e" "u < e \<Longrightarrow> lease_live u db p" "\<not> lease_live now db p \<Longrightarrow> e = now"
    using assms(3) unfolding e live_expiry_def lease_live_def
    by (auto simp: list_ex_iff split: option.splits dest: find_SomeD)
qed

text \<open>
  C26. The two views of a persona's work agree: \<^verbatim>\<open>NextWorkFor\<close> of an active persona answers nothing exactly
  when no later moment has work for it; otherwise it answers a moment at which there is work, never in
  the past, and until then the sweep selects the persona for nothing but a memory rescue. With no
  writer live the answer is now exactly when the sweep selects it for more than a memory rescue.
\<close>

theorem next_work_exact:
  assumes "keyed p_persona_id (personas db)" and "keyed l_persona_id (leases db)"
    and "persona_of db p = Some r" and "p_authority r = Active"
  shows "\<exists>nw. NextWorkFor now p db = Inr nw \<and> nw_now nw = now
    \<and> (nw_next_work_at nw = None \<longleftrightarrow> (\<forall>u \<ge> now. \<not> has_work u db p))
    \<and> (\<forall>t. nw_next_work_at nw = Some t \<longrightarrow> now \<le> t \<and> has_work t db p
         \<and> (\<forall>u. now \<le> u \<and> u < t \<and> p \<in> set (awaiting_ids u db) \<longrightarrow> aw_memory_only (awaiting_row u db p)))
    \<and> (\<not> lease_live now db p \<longrightarrow>
         nw_next_work_at nw = Some now \<longleftrightarrow> p \<in> set (awaiting_ids now db) \<and> \<not> aw_memory_only (awaiting_row now db p))"
proof -
  let ?q = "next_queued now db p" and ?c = "next_claimed now db p" and ?s = "next_scheduled db p"
  let ?n = "least [?q, ?c, ?s]"
  have id: "p_persona_id r = p" "r \<in> set (personas db)"
    using assms(3) by (auto simp: persona_of_def is_persona_def dest: find_SomeD)
  have sel: "p \<in> set (awaiting_ids u db) \<longleftrightarrow> (has_work u db p \<or> memory_rescue u db p) \<and> \<not> lease_live u db p" for u
    using id assms(1,4) by (auto simp: awaiting_ids_def awaits_runtime_def keyed_def distinct_map inj_on_def image_iff)
  have n: "reached ?n u \<longleftrightarrow> reached ?q u \<or> reached ?c u \<or> reached ?s u" for u by (simp add: reached_least)
  have none: "?n = None \<longleftrightarrow> ?q = None \<and> ?c = None \<and> ?s = None" by (simp add: least_None)
  show ?thesis
  proof (cases ?n)
    case None
    then have "\<not> has_work u db p" if "now \<le> u" for u using none by (simp add: work_reached [OF that] reached_def)
    with None assms(3,4) show ?thesis by (auto simp: NextWorkFor_def sel awaiting_row_def)
  next
    case (Some x)
    define t where "t = (if x < now then now else x)"
    have run: "NextWorkFor now p db = Inr \<lparr>nw_next_work_at = Some t, nw_now = now\<rparr>"
      using Some assms(3,4) by (simp add: NextWorkFor_def t_def)
    have t: "now \<le> t" by (simp add: t_def)
    have "reached ?n t" using Some by (simp add: reached_def t_def)
    then have w: "has_work t db p" using n by (auto simp: work_reached [OF t] reached_def split: option.splits)
    have quiet: "lease_live u db p" if u: "now \<le> u" "u < t" "has_work u db p" for u
    proof -
      have "\<not> reached ?n u" using u(1,2) Some by (auto simp: reached_def t_def split: if_splits)
      then have "\<not> reached ?q u" "\<not> reached ?c u" "\<not> reached ?s u" using n by auto
      with u(3) obtain e where "?c = Some e" "u < e" unfolding work_reached [OF u(1)] by (auto simp: reached_def)
      with claimed_waits_for_lease(2) [OF assms(2) _ u(1)] show ?thesis by blast
    qed
    have "t = now" if "has_work now db p" "\<not> lease_live now db p"
      using quiet [of now] that t by force
    with w t have now: "\<not> lease_live now db p \<Longrightarrow> t = now \<longleftrightarrow> has_work now db p" by auto
    from w t have "\<exists>u \<ge> now. has_work u db p" by blast
    with run w t quiet now show ?thesis by (auto simp: sel awaiting_row_def)
  qed
qed

text \<open>A persona whose writer is gone and whose one input waits for its moment.\<close>

definition demo_waiting :: "unit db" where
  "demo_waiting = demo_db\<lparr>inputs := [demo_input\<lparr>i_status := IQueued, i_not_before := Some 100\<rparr>]\<rparr>"

theorem next_work_exact_witness:
  "\<exists>nw. NextWorkFor 60 ''p1'' demo_waiting = Inr nw \<and> nw_next_work_at nw = Some 100 \<and> has_work 100 demo_waiting ''p1''"
proof -
  have k: "keyed p_persona_id (personas demo_waiting)" "keyed l_persona_id (leases demo_waiting)" by code_simp+
  have r: "persona_of demo_waiting ''p1'' = Some demo_persona" "p_authority demo_persona = Active" by code_simp+
  have "NextWorkFor 60 ''p1'' demo_waiting = Inr \<lparr>nw_next_work_at = Some 100, nw_now = 60\<rparr>" by code_simp
  with next_work_exact [OF k r, of 60] show ?thesis by auto
qed

section \<open>Rotation\<close>

text \<open>Consecutive sweeps over one state of the database, each at its own moment (database, process).\<close>

fun sweep_pages :: "(string \<Rightarrow> bool) \<Rightarrow> 'd db \<Rightarrow> (timestamp \<times> int) list \<Rightarrow> RuntimeWaker \<Rightarrow> string list list" where
  "sweep_pages post db [] w = []"
| "sweep_pages post db ((t, now) # ts) w =
     (let rows = PersonasAwaitingRuntime t (int sweep_limit) (wk_cursor w) db in
      map aw_persona_id rows # sweep_pages post db ts (fst (Sweep post now (Some rows) w)))"

text \<open>What the cursor alone does.\<close>

fun cursor_pages :: "string list \<Rightarrow> nat \<Rightarrow> string \<Rightarrow> string list list" where
  "cursor_pages ids 0 c = []"
| "cursor_pages ids (Suc n) c =
     (let ps = take sweep_limit (rotated c ids) in ps # cursor_pages ids n (sweep_cursor c ps))"

lemma sweep_pages_cursor:
  assumes "\<forall>(t, now) \<in> set ts. awaiting_ids t db = ids"
  shows "sweep_pages post db ts w = cursor_pages ids (length ts) (wk_cursor w)"
  using assms
proof (induction ts arbitrary: w)
  case (Cons x ts)
  obtain t now where x: "x = (t, now)" by (cases x)
  let ?rows = "PersonasAwaitingRuntime t (int sweep_limit) (wk_cursor w) db"
  have ids: "map aw_persona_id ?rows = take sweep_limit (rotated (wk_cursor w) ids)"
    using Cons.prems by (simp add: x PersonasAwaitingRuntime_def awaiting_row_def sweep_limit_def comp_def)
  have "wk_cursor (fst (Sweep post now (Some ?rows) w)) = sweep_cursor (wk_cursor w) (map aw_persona_id ?rows)"
    by (simp add: Sweep_def split: prod.splits)
  with Cons ids show ?case by (simp add: x Let_def)
qed simp

lemma rotated_split: "rotated c ids = after c (\<lambda>k. k) ids @ filter (\<lambda>k. \<not> c < k) (sort ids)"
  by (simp add: rotated_def after_def)

text \<open>From any cursor, the ids behind it are covered and the rotation starts anew.\<close>

lemma cursor_pages_reach:
  assumes "distinct ids" "length (after c (\<lambda>k. k) ids) div sweep_limit < n"
  obtains k pre where "k = Suc (length (after c (\<lambda>k. k) ids) div sweep_limit)"
    "cursor_pages ids n c = pre @ cursor_pages ids (n - k) []" "set (after c (\<lambda>k. k) ids) \<subseteq> \<Union> (set ` set pre)"
  using assms
proof (induction n arbitrary: c thesis)
  case (Suc n)
  let ?A = "after c (\<lambda>k. k) ids" and ?ps = "take sweep_limit (rotated c ids)"
  have key: "keyed (\<lambda>k. k) ids" using Suc.prems(2) by (simp add: keyed_def)
  have pos: "0 < sweep_limit" by (simp add: sweep_limit_def)
  show ?case
  proof (cases "length ?A < sweep_limit")
    case True
    let ?T = "take (sweep_limit - length ?A) (filter (\<lambda>k. \<not> c < k) (sort ids))"
    have ps: "?ps = ?A @ ?T" using True by (simp add: rotated_split)
    have "last ?ps \<le> c" if "length ?ps = sweep_limit"
    proof -
      have "length ?A + length ?T = sweep_limit" using that unfolding ps by (metis length_append)
      with True have "?T \<noteq> []" by force
      then have "last ?ps \<in> set ?T" unfolding ps by (metis last_appendR last_in_set)
      then have "last ?ps \<in> set (filter (\<lambda>k. \<not> c < k) (sort ids))" by (rule in_set_takeD)
      then show ?thesis by (simp add: not_less)
    qed
    moreover have "length ?ps \<le> sweep_limit" by simp
    ultimately have "?ps = [] \<or> length ?ps < sweep_limit \<or> last ?ps \<le> c" by (meson le_neq_implies_less)
    then have "sweep_cursor c ?ps = []" unfolding sweep_cursor_def by (rule if_P)
    moreover have "set ?A \<subseteq> set ?ps" unfolding ps by simp
    ultimately have "sweep_cursor c ?ps = []" "set ?A \<subseteq> set ?ps" by blast+
    with True show ?thesis by (intro Suc.prems(1) [of 1 "[?ps]"]) (auto simp: Let_def)
  next
    case False
    then have ps: "?ps = page sweep_limit (\<lambda>k. k) ids c" by (simp add: rotated_split page_def)
    have ne: "?ps \<noteq> []" and full: "length ?ps = sweep_limit" using False pos by (auto simp: ps page_def)
    have l: "last ?ps \<in> set ?A" using last_in_set [OF ne] by (auto simp: ps page_def dest: in_set_takeD)
    then have "\<not> last ?ps \<le> c" by (simp add: after_def not_le)
    with ne full have "\<not> (?ps = [] \<or> length ?ps < sweep_limit \<or> last ?ps \<le> c)" by (metis less_irrefl)
    then have nc: "sweep_cursor c ?ps = last ?ps" unfolding sweep_cursor_def by (rule if_not_P)
    have cut: "?A = ?ps @ after (last ?ps) (\<lambda>k. k) ids" using page_next [OF key, of sweep_limit c] ne by (simp add: ps)
    then have len: "length ?A = sweep_limit + length (after (last ?ps) (\<lambda>k. k) ids)" using full by (metis length_append)
    then have d: "length ?A div sweep_limit = Suc (length (after (last ?ps) (\<lambda>k. k) ids) div sweep_limit)" using pos by simp
    with Suc.prems(3) have "length (after (last ?ps) (\<lambda>k. k) ids) div sweep_limit < n" by simp
    from Suc.IH [OF _ Suc.prems(2) this] obtain pre where
      "cursor_pages ids n (last ?ps) = pre @ cursor_pages ids (n - Suc (length (after (last ?ps) (\<lambda>k. k) ids) div sweep_limit)) []"
      "set (after (last ?ps) (\<lambda>k. k) ids) \<subseteq> \<Union> (set ` set pre)" by metis
    with cut nc d show ?thesis by (intro Suc.prems(1) [of _ "?ps # pre"]) (auto simp: Let_def)
  qed
qed simp

text \<open>
  C27. Nobody is starved: while the personas awaiting a runtime stay the same, from any cursor two
  rounds of sweeps bring every one of them up, however the wakes end and whatever backoff skips;
  a round is one sweep more than the full pages they fill.
\<close>

theorem sweeps_reach_everyone:
  assumes "\<forall>(t, now) \<in> set ts. awaiting_ids t db = ids" and "distinct ids" and "[] \<notin> set ids"
    and "2 * Suc (length ids div sweep_limit) \<le> length ts"
  shows "\<Union> (set ` set (sweep_pages post db ts w)) = set ids"
proof -
  let ?c = "wk_cursor w" and ?n = "length ts" and ?N = "length ids div sweep_limit"
  have le: "length (after c (\<lambda>k. k) ids) div sweep_limit \<le> ?N" for c :: string
    unfolding after_def by (intro div_le_mono) (metis length_filter_le length_sort)
  have all: "set (after [] (\<lambda>k. k) ids) = set ids" using assms(3) by (auto simp: after_def) (metis Nil_less_Cons neq_Nil_conv)
  have sub: "\<Union> (set ` set (cursor_pages ids n c)) \<subseteq> set ids" for n c
    by (induction n arbitrary: c) (auto simp: Let_def rotated_set dest: in_set_takeD)
  have "length (after ?c (\<lambda>k. k) ids) div sweep_limit < ?n" using le [of ?c] assms(4) by simp
  then obtain k pre where k: "k = Suc (length (after ?c (\<lambda>k. k) ids) div sweep_limit)"
    "cursor_pages ids ?n ?c = pre @ cursor_pages ids (?n - k) []"
    by (rule cursor_pages_reach [OF assms(2)])
  have "length (after [] (\<lambda>k. k) ids) div sweep_limit < ?n - k" using le [of "[]"] le [of ?c] assms(4) k(1) by simp
  then obtain pre' rest where "cursor_pages ids (?n - k) [] = pre' @ rest" "set ids \<subseteq> \<Union> (set ` set pre')"
    by (rule cursor_pages_reach [OF assms(2)]) (metis all)
  with k(2) sub [of ?n ?c] show ?thesis unfolding sweep_pages_cursor [OF assms(1)] by fastforce
qed

definition demo_waker :: RuntimeWaker where
  "demo_waker = \<lparr>wk_base = ''https://core'', wk_token = ''secret'', wk_Interval = second, wk_MinGap = 5 * second,
     wk_MaxGap = 5 * 60 * second, wk_MemoryGap = 30 * 60 * second, wk_marks = [], wk_cursor = []\<rparr>"

theorem sweeps_reach_everyone_witness:
  "\<Union> (set ` set (sweep_pages (\<lambda>_. False) demo_waiting [(100, 0), (101, second)] (demo_waker\<lparr>wk_cursor := ''q''\<rparr>))) = {''p1''}"
proof -
  have "\<forall>(t, now) \<in> set [(100, 0), (101, second)]. awaiting_ids t demo_waiting = [''p1'']" by code_simp
  from sweeps_reach_everyone [OF this, of "\<lambda>_. False" "demo_waker\<lparr>wk_cursor := ''q''\<rparr>"] show ?thesis
    by (simp add: sweep_limit_def del: sweep_pages.simps)
qed

section \<open>Marks\<close>

lemma map_of_filter_key: "(\<And>v. P (k, v)) \<Longrightarrow> map_of (filter P ms) k = map_of ms k"
  by (induction ms) auto

lemma map_of_other: "map_of (filter (\<lambda>x. fst x \<noteq> q) ms) p = (if p = q then None else map_of ms p)"
  by (induction ms) auto

text \<open>Who is woken by a page, and the marks afterwards.\<close>

definition marked :: "RuntimeWaker \<Rightarrow> int \<Rightarrow> AwaitingRuntime list \<Rightarrow> (string \<times> wakeMark) list \<Rightarrow> (string \<times> wakeMark) list
     \<Rightarrow> AwaitingRuntime list \<Rightarrow> bool" where
  "marked w now rows ms ms' woken \<longleftrightarrow> woken = filter (\<lambda>a. \<not> in_gap now a (map_of ms (aw_persona_id a))) rows
     \<and> (\<forall>a \<in> set woken. map_of ms' (aw_persona_id a) = Some (new_mark w now a (map_of ms (aw_persona_id a))))
     \<and> (\<forall>p. p \<notin> aw_persona_id ` set woken \<longrightarrow> map_of ms' p = map_of ms p)"

lemma mark_page_marked:
  "mark_page w now rows ms = (ms', woken) \<Longrightarrow> distinct (map aw_persona_id rows) \<Longrightarrow> marked w now rows ms ms' woken"
proof (induction rows arbitrary: ms ms' woken)
  case Nil
  then show ?case by (simp add: marked_def)
next
  case (Cons b rows)
  let ?b = "aw_persona_id b"
  let ?ms = "set_mark ?b (new_mark w now b (map_of ms ?b)) ms"
  have d: "distinct (map aw_persona_id rows)" and b: "?b \<notin> aw_persona_id ` set rows" using Cons.prems(2) by auto
  show ?case
  proof (cases "in_gap now b (map_of ms ?b)")
    case True
    with Cons.prems(1) have "mark_page w now rows ms = (ms', woken)" by (simp add: Let_def)
    from Cons.IH [OF this d] True show ?thesis by (simp add: marked_def)
  next
    case False
    with Cons.prems(1) obtain wk where r: "mark_page w now rows ?ms = (ms', wk)" "woken = b # wk"
      by (auto simp: Let_def split: prod.splits)
    have other: "map_of ?ms q = map_of ms q" if "q \<noteq> ?b" for q using that by (simp add: map_of_other)
    from Cons.IH [OF r(1) d] have m: "wk = filter (\<lambda>a. \<not> in_gap now a (map_of ?ms (aw_persona_id a))) rows"
      "\<forall>a \<in> set wk. map_of ms' (aw_persona_id a) = Some (new_mark w now a (map_of ?ms (aw_persona_id a)))"
      "\<forall>p. p \<notin> aw_persona_id ` set wk \<longrightarrow> map_of ms' p = map_of ?ms p" unfolding marked_def by blast+
    have ne: "aw_persona_id a \<noteq> ?b" if "a \<in> set rows" for a using b that by (metis image_eqI)
    have wk: "wk = filter (\<lambda>a. \<not> in_gap now a (map_of ms (aw_persona_id a))) rows"
      unfolding m(1) by (intro filter_cong refl) (metis other ne)
    have sub: "set wk \<subseteq> set rows" unfolding wk by simp
    then have "map_of ms' (aw_persona_id a) = Some (new_mark w now a (map_of ms (aw_persona_id a)))" if "a \<in> set wk" for a
      using m(2) other ne that by (metis subsetD)
    moreover have "map_of ms' ?b = Some (new_mark w now b (map_of ms ?b))" 
    proof -
      have "?b \<notin> aw_persona_id ` set wk" using b sub by blast
      with m(3) show ?thesis by simp
    qed
    moreover have "map_of ms' p = map_of ms p" if "p \<notin> aw_persona_id ` set woken" for p
      using that m(3) other unfolding r(2) by simp
    ultimately show ?thesis using False wk unfolding marked_def r(2) by simp
  qed
qed

lemma mark_page_spec:
  assumes "mark_page w now rows ms = (ms', woken)" "distinct (map aw_persona_id rows)"
  shows "woken = filter (\<lambda>a. \<not> in_gap now a (map_of ms (aw_persona_id a))) rows"
    "a \<in> set woken \<Longrightarrow> map_of ms' (aw_persona_id a) = Some (new_mark w now a (map_of ms (aw_persona_id a)))"
  using mark_page_marked [OF assms] unfolding marked_def by blast+

lemma note_wakes_map: "map_of (note_wakes post woken ms) p
    = map_option (\<lambda>k. if p \<in> aw_persona_id ` set woken then k\<lparr>wm_failed := \<not> wake post p\<rparr> else k) (map_of ms p)"
  by (induction ms) (auto simp: note_wakes_def)

text \<open>A wake leaves its mark: the moment, the progress it saw, and the gap until the next one.\<close>

lemma Sweep_mark:
  assumes "Sweep post now (Some rows) w = (w', woken, n)" "distinct (map aw_persona_id rows)" "a \<in> set woken"
  shows "\<exists>k. map_of (wk_marks w') (aw_persona_id a) = Some k \<and> wm_at k = now \<and> wm_progress k = aw_progress a
    \<and> (aw_memory_only a \<longrightarrow> wk_MemoryGap w \<le> wm_gap k)"
proof -
  obtain ms where m: "mark_page w now rows (wk_marks w) = (ms, woken)" and d: "wk_marks w' = note_wakes post woken (drop_marks now rows ms)"
    using assms(1) by (auto simp: Sweep_def split: prod.splits)
  have "a \<in> set rows" using assms(3) unfolding mark_page_spec(1) [OF m assms(2)] by simp
  then have "map_of (drop_marks now rows ms) (aw_persona_id a) = map_of ms (aw_persona_id a)"
    unfolding drop_marks_def by (intro map_of_filter_key) auto
  with mark_page_spec(2) [OF m assms(2,3)] assms(3) show ?thesis by (simp add: d note_wakes_map new_mark_def Let_def)
qed

lemma Sweep_in_gap:
  assumes "Sweep post now (Some rows) w = (w', woken, n)" "distinct (map aw_persona_id rows)"
    "in_gap now a (map_of (wk_marks w) (aw_persona_id a))"
  shows "a \<notin> set woken"
proof -
  obtain ms where "mark_page w now rows (wk_marks w) = (ms, woken)"
    using assms(1) by (auto simp: Sweep_def split: prod.splits)
  from mark_page_spec(1) [OF this assms(2)] assms(3) show ?thesis by simp
qed

text \<open>
  C40. A memory rescue mutes the inputs that wait: the progress of a persona counts its queued inputs
  whether or not they are due, so an input that becomes due after a rescue wake leaves the progress as
  it was, and the next sweep within the rescue's gap, half an hour by default, skips the persona
  although it has work.
\<close>

theorem rescue_mutes_input:
  assumes "Sweep post now1 (Some rows1) w = (w1, woken1, n1)" and "distinct (map aw_persona_id rows1)"
    and "awaiting_row t1 db p \<in> set woken1" and "aw_memory_only (awaiting_row t1 db p)"
    and "length (ripe_schedules t2 db p) = length (ripe_schedules t1 db p)" and "now2 - now1 < wk_MemoryGap w"
    and "Sweep post now2 (Some rows2) w1 = (w2, woken2, n2)" and "distinct (map aw_persona_id rows2)"
  shows "awaiting_row t2 db p \<notin> set woken2"
proof (rule Sweep_in_gap [OF assms(7,8)])
  from Sweep_mark [OF assms(1-3)] assms(4) obtain k where k: "map_of (wk_marks w1) p = Some k" "wm_at k = now1"
    "wm_progress k = progress_of t1 db p" "wk_MemoryGap w \<le> wm_gap k" by (auto simp: awaiting_row_def)
  moreover have "progress_of t2 db p = progress_of t1 db p" by (simp add: progress_of_def assms(5))
  ultimately show "in_gap now2 (awaiting_row t2 db p) (map_of (wk_marks w1) (aw_persona_id (awaiting_row t2 db p)))"
    using assms(6) by (simp add: in_gap_def awaiting_row_def)
qed

text \<open>A branch left running more than a quarter of an hour ago, and an input due a little later.\<close>

definition demo_rescue :: "unit db" where
  "demo_rescue = demo_db\<lparr>chunks := [(new_chunk 5 ''p1'' 2 1 None 1 4 10)\<lparr>mc_status := CPreparing\<rparr>],
     branches := [new_branch 6 ''p1'' 2 \<lparr>bs_messages = [], bs_tools = [], bs_ranges = [], bs_binding = None\<rparr>],
     inputs := [demo_input\<lparr>i_status := IQueued, i_not_before := Some 900000100\<rparr>]\<rparr>"

theorem rescue_mutes_input_witness:
  "\<exists>w1 woken1 n1 w2 woken2 n2.
     Sweep (\<lambda>_. True) 0 (Some [awaiting_row 900000010 demo_rescue ''p1'']) demo_waker = (w1, woken1, n1)
     \<and> Sweep (\<lambda>_. True) (60 * second) (Some [awaiting_row 900000200 demo_rescue ''p1'']) w1 = (w2, woken2, n2)
     \<and> ''p1'' \<in> set (awaiting_ids 900000200 demo_rescue) \<and> has_work 900000200 demo_rescue ''p1''
     \<and> awaiting_row 900000200 demo_rescue ''p1'' \<notin> set woken2"
proof -
  let ?a = "\<lambda>t. awaiting_row t demo_rescue ''p1''"
  obtain w1 woken1 n1 where s1: "Sweep (\<lambda>_. True) 0 (Some [?a 900000010]) demo_waker = (w1, woken1, n1)" by (metis prod_cases3)
  obtain w2 woken2 n2 where s2: "Sweep (\<lambda>_. True) (60 * second) (Some [?a 900000200]) w1 = (w2, woken2, n2)" by (metis prod_cases3)
  have "?a 900000010 \<in> set woken1"
    using s1 by (auto simp: Sweep_def demo_waker_def in_gap_def Let_def)
  moreover have "aw_memory_only (?a 900000010)" "\<not> aw_memory_only (?a 900000200)"
    "length (ripe_schedules 900000200 demo_rescue ''p1'') = length (ripe_schedules 900000010 demo_rescue ''p1'')"
    "60 * second - 0 < wk_MemoryGap demo_waker" by code_simp+
  ultimately have "?a 900000200 \<notin> set woken2"
    by (intro rescue_mutes_input [OF s1 _ _ _ _ _ s2]) simp_all
  moreover have "''p1'' \<in> set (awaiting_ids 900000200 demo_rescue)" "has_work 900000200 demo_rescue ''p1''" by code_simp+
  ultimately show ?thesis using s1 s2 by blast
qed

end
