(* ===== verification/Spec2Isabelle.thy ===== *)
theory Spec2Isabelle
  imports Memory_Protocol History_Pages Core_Wake
begin

text \<open>
  A verification development of the canonical state service of Sumi's secretary core: the Go
  package \<^verbatim>\<open>apps/api/internal/agentstate\<close>.

  \<^bold>\<open>The program.\<close> A secretary (a persona) is driven by one runtime host at a time. The host holds
  the persona's writer lease and presents its generation with every mutation. Inputs arrive in
  \<^verbatim>\<open>core_inputs\<close>; a turn claims one, the model's decisions are recorded round by round as the
  input's plan, each planned tool call is claimed in the operation ledger (with a human's
  approval when it was planned on the elevated route), everything that happens is journaled in
  \<^verbatim>\<open>core_events\<close>, and the provider calls are admitted and accounted against the funding source's
  budget. What was journaled long ago is replaced in the model's context by texts the secretary itself
  wrote on a memory branch. Every operation is one PostgreSQL transaction over these tables; a crash between two
  operations loses nothing, because each can be repeated.

  \<^bold>\<open>The model.\<close> A database is a record of tables, a table is the list of its rows, and an
  operation is a function \<open>db \<Rightarrow> err + (db \<times> result)\<close> in which \<open>Inl\<close> is the rollback. SQL's three
  shapes are \<^const>\<open>find\<close> (a selection by key), \<open>upd\<close> (an update where a predicate holds) and an
  appended row; uniqueness violations, foreign keys, CHECK constraints and jsonb's refusal of NUL
  are branches. Time is an argument. What lies outside the package is an argument too: rendering
  and parsing of times, \<^verbatim>\<open>fmt.Sprint\<close>, \<^verbatim>\<open>json.Marshal\<close>, SHA-256, the effects other packages
  register. No fuel is needed: every loop of the
  package runs over a finite list, and the page loops of its callers end by a measure.

  \<^item> \<open>Sumi_Prelude\<close>, \<open>Go_Values\<close>: results, transactions, tables, keys; JSON with jsonb's
  equality, NUL, wrapping \<^verbatim>\<open>int64\<close>, decimal printing.
  \<^item> \<open>Core_State\<close>: rows, enumerations, sentinel errors, the database.
  \<^item> \<open>Core_Lease\<close> (\<^verbatim>\<open>store.go\<close> 568-882): personas, the lease and its fencing token.
  \<^item> \<open>Core_Inputs\<close> (\<^verbatim>\<open>store.go\<close> 884-1054): submission and its replay.
  \<^item> \<open>Core_Plan\<close> (\<^verbatim>\<open>store.go\<close> 1069-1232): the append-only plan and its flat call positions.
  \<^item> \<open>Core_Journal\<close> (\<^verbatim>\<open>store.go\<close> 1894-2250, \<^verbatim>\<open>experience.go\<close>): gapless numbering, one receipt
  per input, one record of each experience.
  \<^item> \<open>Core_Usage\<close> (\<^verbatim>\<open>usage.go\<close>): prices, admission under a cap, the supersession lattice of usage
  facts, parked inputs and their resumption, reconciliation of stranded reservations.
  \<^item> \<open>Core_Approvals\<close> (\<^verbatim>\<open>approvals.go\<close>): which calls ask, who decides, finality of decisions.
  \<^item> \<open>Job_Request\<close>, \<open>Core_Jobs\<close>, \<open>Job_Discovery\<close> (\<^verbatim>\<open>jobs.go\<close>, \<^verbatim>\<open>effect_job_id.go\<close>, \<^verbatim>\<open>job_discovery.go\<close>):
  what a job may ask for, the job table and every operation on it, the notification inputs, the
  pages and sweeps of the runners. \<open>Paging\<close> holds the generic cursor walk.
  \<^item> \<open>Job_Lifecycle\<close>: every job command as at most one step of each row, the lifecycle of status
  and owner, the well-formedness of rows, and the repeated sweep.
  \<^item> \<open>Core_Terminal\<close> (\<^verbatim>\<open>terminal.go\<close>): sessions claimed by runners under an epoch, the ledger of their
  inputs, the window of their output, the terminal tools' answers. \<open>Terminal_Ledger\<close>: every operation
  as a sequence of steps on the three tables, and their invariant. \<open>Terminal_Output\<close>: the stored
  chunks against the byte stream they record. \<open>Terminal_Protocol\<close>: terminals along all histories.
  \<^item> \<open>Core_Memory\<close> (\<^verbatim>\<open>memory.go\<close>): sealing of journal ranges, application of replacements under
  pressure, upper targets, the rendered context, the status. \<open>Core_Branch\<close> (\<^verbatim>\<open>memory_branch.go\<close>,
  \<^verbatim>\<open>memory_recovery.go\<close>): snapshots, claims, checkpoints, reconsideration, recovery. \<open>Memory_Shelf\<close>: the
  abstract specification, fragments that are raw, shown or folded, with its invariant. \<open>Memory_Ledger\<close>,
  \<open>Branch_Ledger\<close>: every write of the two files as steps of the shelf, and the invariant of the tables.
  \<open>Memory_Context\<close>, \<open>Memory_Protocol\<close>: what rendering, sealing, pressure, coverage, claims and checkpoints
  guarantee, alone and along all histories.
  \<^item> \<open>Core_History\<close> (\<^verbatim>\<open>history.go\<close>): the reader of the stored record, its search and its paged read.
  \<open>History_Pages\<close>: following the continuations of searches, ranges and fragments, three
  interpretations of one locale of \<open>Paging\<close>.
  \<^item> \<open>Core_Wake\<close> (\<^verbatim>\<open>runtime_wake.go\<close>): which personas await a runtime, when a persona next needs one,
  and the sweep that wakes them.
  \<^item> \<open>Core_Tools\<close> (\<^verbatim>\<open>store.go\<close> 366-560, 2260-2389): the tool registry and the internal tools.
  \<^item> \<open>Core_Operations\<close> (\<^verbatim>\<open>store.go\<close> 2404-2945): the claim of a planned call, with consent,
  exactly-once settlement and the journaling of rejections.
  \<^item> \<open>Core_Turns\<close> (\<^verbatim>\<open>store.go\<close> 1251-1865, 1924-2019): loading a turn, committing it (complete,
  fail, await an approval or a budget), the retry delay, recovery after a takeover.
  \<^item> \<open>Core_Schedules\<close> (\<^verbatim>\<open>store.go\<close> 2953-3031): due schedules become wake inputs.
  \<^item> \<open>Core_Frames\<close>, \<open>Core_Account\<close>: what each operation leaves alone, and where every input is.
  \<^item> \<open>Core_Protocol\<close>: all commands together. Locales state the interfaces (a step relation with
  a preorder, with an invariant, with a fencing token, a table whose rows evolve by a preorder) and
  are interpreted on the store's commands and tables.

  \<^bold>\<open>What is shown.\<close> Along every history of commands: no input is lost (each is queued, done,
  claimed by the persona's one running turn, or parked with a pending approval or a wait row that
  will wake it), a fenced writer changes nothing any more, journal and outbox only grow and stay
  gapless, settled operations and decided approvals are never taken back, what an input says never
  changes, a job that ended stays as it ended (a lost one may be given the outcome its runner observed,
  once, and lose the runner's wait note), and its notification input exists exactly when it has ended. Jobs: the commands refine
  the lifecycle machine of status and owner, stored rows are well-formed, repeated sweeps and page
  walks end and do what one pass over the whole table would, a working directory stays in its
  workspace, a tool call's job id leads back to its input. Terminals: an input reaches at most one
  runner and is never offered twice, a takeover fences the runner before it and is offered exactly
  what nobody was handed, a closed terminal stays closed, the command that ends it stores its notice where
  the notice's id is free, sessions and scrollback stay within their limits; the output journal refines a window of the byte stream, draining again
  stores nothing, reading pages through the window. Memory: every event of the journal stands in a
  turn's context exactly once, as itself or in one memory block; a sealed range keeps identified
  tool calls with their results and what is journaled of a round whole; replacements are put in place only as far
  as pressure asks, and no other leaf changes; an
  accepted text is final, and it is accepted only through the confirmation opened before it; a claim
  hands out one branch, and only over a range its snapshot covers; a checkpoint sent again answers from
  its receipt. History: following a search ends with every matching record once, following a read gives
  back the events of a range and, fragment by fragment, the exact text of each. Waking: the runtime's own
  view of its next work agrees with the sweep's, and the rotation brings up every waiting persona. Effects:
  an effect runs
  only for a planned call that was not settled, settles it, and on the elevated route uses up the
  human's approval of that call; a denied call is not retried and stands in the ledger as
  failed. Turns: the oldest due input is
  served, and in every reachable state with an input due a turn is begun and stored, a resent commit answers as before, a commit
  disposes of its input as the outcome says, recovery leaves nothing of dead generations, retry
  delays are bounded. Fencing: taking a lease invalidates every earlier generation, generations
  only grow, a live lease is exclusive. Replays: submitting, planning, admitting, recording and
  deciding again with the same content answers as before and changes nothing; with different
  content it is refused. Journal: numbering without gaps, one receipt per input, each experience
  once. Money: prices are the exact ceiling without overflow, admission holds the price of the
  estimate and keeps spend plus holds within the cap (as long as they fit 64 bits), reconciliation conserves spend,
  parked inputs resume exactly when they fit.

  \<^bold>\<open>Not modelled.\<close> The creation times of journal events (the history reader takes them as an
  argument), the advisory lock of a terminal runner's process, the read-only views of usage, approvals
  and direct chat, the ledger of a script job's file operations, the call bridge and the ChatGPT transport, the
  package's HTTP surface (decoding and status codes), and the other packages: messaging and its event
  journal, file service, connections, executors, transfer sessions, identity, provisioning.
\<close>

end
